(* ===== verification/Go_Prelude.thy ===== *)
theory Go_Prelude
  imports Main "HOL-Library.Word" "HOL-Library.AList" "HOL-Library.Multiset"
begin

text \<open>
  Shared vocabulary of the development: the Go values the components use and the generic
  lemmas their proofs share.

  \<^item> A Go \<^verbatim>\<open>[]byte\<close> is a list of 8-bit words; a Go \<^verbatim>\<open>string\<close> is a byte sequence and
    is a HOL \<open>string\<close> (a list of 8-bit characters).
  \<^item> A Go \<^verbatim>\<open>map[K]V\<close> is an association list read by \<open>map_of\<close>, written by
    \<open>AList.update\<close> and deleted from by \<open>AList.delete\<close>. Iteration order is not fixed by
    Go: an operation whose result depends on it takes the order the runtime picked as an
    argument (\<open>'a order\<close>), and its theorems hold for every order that is a permutation.
  \<^item> A Go \<^verbatim>\<open>(T, error)\<close> result is a sum, \<open>Inl\<close> being the error.
  \<^item> \<^verbatim>\<open>time.Time\<close> and \<^verbatim>\<open>time.Duration\<close> are integers counting nanoseconds.
\<close>

type_synonym byte = "8 word"
type_synonym bytes = "byte list"
type_synonym ('k, 'v) gomap = "('k \<times> 'v) list"
type_synonym 'a order = "'a list \<Rightarrow> 'a list"
type_synonym gotime = int
type_synonym duration = int

named_theorems go_simps \<open>equations that evaluate the models of Go library calls\<close>

subsection \<open>Maps\<close>

abbreviation mget :: "('k, 'v) gomap \<Rightarrow> 'k \<Rightarrow> 'v option" where
  "mget \<equiv> map_of"

abbreviation mput :: "('k, 'v) gomap \<Rightarrow> 'k \<Rightarrow> 'v \<Rightarrow> ('k, 'v) gomap" where
  "mput m k v \<equiv> AList.update k v m"

abbreviation mdel :: "('k, 'v) gomap \<Rightarrow> 'k \<Rightarrow> ('k, 'v) gomap" where
  "mdel m k \<equiv> AList.delete k m"

text \<open>A map value is well formed when no key occurs twice.\<close>

abbreviation mwf :: "('k, 'v) gomap \<Rightarrow> bool" where
  "mwf m \<equiv> distinct (map fst m)"

text \<open>Reading a missing key of a \<^verbatim>\<open>map[string]string\<close> gives the zero value.\<close>

definition mgetZ :: "('k, string) gomap \<Rightarrow> 'k \<Rightarrow> string" where
  "mgetZ m k = (case map_of m k of None \<Rightarrow> '''' | Some v \<Rightarrow> v)"

text \<open>An iteration order of the runtime visits every entry once.\<close>

definition order_ok :: "'a order \<Rightarrow> bool" where
  "order_ok ord \<longleftrightarrow> (\<forall>xs. mset (ord xs) = mset xs)"

lemma mget_mput [simp]: "mget (mput m k v) k' = (if k' = k then Some v else mget m k')"
  by (simp add: update_conv')

lemma mget_mdel [simp]: "mget (mdel m k) k' = (if k' = k then None else mget m k')"
  by (simp add: delete_conv')

lemma mput_same: "mget m k = Some v \<Longrightarrow> mput m k v = m"
  by (induction m) (auto split: if_splits)

lemma mwf_mput [simp]: "mwf m \<Longrightarrow> mwf (mput m k v)"
  by (rule distinct_update)

lemma mwf_mdel [simp]: "mwf m \<Longrightarrow> mwf (mdel m k)"
  by (rule distinct_delete)

lemma mwf_filter: "mwf m \<Longrightarrow> mwf (filter P m)"
  by (induction m) auto

lemma mget_filter_key: "mget (filter (\<lambda>(k, v). P k) m) k = (if P k then mget m k else None)"
  by (induction m) auto

lemma mget_filter:
  "mwf m \<Longrightarrow> mget (filter (\<lambda>(k, v). P k v) m) k =
     (case mget m k of None \<Rightarrow> None | Some v \<Rightarrow> if P k v then Some v else None)"
proof (induction m)
  case (Cons kv m)
  obtain a b where kv: "kv = (a, b)" by (cases kv)
  have "k = a \<Longrightarrow> mget m k = None"
    using Cons.prems kv by (force simp: map_of_eq_None_iff)
  then show ?case using Cons kv by (auto split: option.splits)
qed simp

lemma mget_SomeD: "mget m k = Some v \<Longrightarrow> (k, v) \<in> set m"
  by (rule map_of_SomeD)

lemma mget_set_iff: "mwf m \<Longrightarrow> mget m k = Some v \<longleftrightarrow> (k, v) \<in> set m"
  by (rule map_of_eq_Some_iff)

lemma map_of_rev_distinct: "mwf m \<Longrightarrow> map_of (rev m) = map_of m"
  by (intro map_of_inject_set [THEN iffD2]) (simp_all add: rev_map [symmetric])

lemma order_ok_set [simp]: "order_ok ord \<Longrightarrow> set (ord xs) = set xs"
  unfolding order_ok_def by (metis mset_eq_setD)

lemma order_ok_id [simp]: "order_ok (\<lambda>xs. xs)"
  by (simp add: order_ok_def)

lemma order_ok_rev [simp]: "order_ok rev"
  by (simp add: order_ok_def)

subsection \<open>Strings\<close>

text \<open>\<^verbatim>\<open>strings.HasPrefix\<close>, \<^verbatim>\<open>strings.CutPrefix\<close> and \<^verbatim>\<open>strings.Cut\<close> with a
  one-character separator.\<close>

definition hasPrefix :: "string \<Rightarrow> string \<Rightarrow> bool" where
  "hasPrefix s p = (take (length p) s = p)"

definition cutPrefix :: "string \<Rightarrow> string \<Rightarrow> string option" where
  "cutPrefix s p = (if hasPrefix s p then Some (drop (length p) s) else None)"

fun cutChar :: "string \<Rightarrow> char \<Rightarrow> (string \<times> string) option" where
  "cutChar [] c = None"
| "cutChar (x # xs) c =
     (if x = c then Some ([], xs)
      else map_option (\<lambda>(a, b). (x # a, b)) (cutChar xs c))"

lemma hasPrefix_append [simp]: "hasPrefix (p @ s) p"
  by (simp add: hasPrefix_def)

lemma cutPrefix_append [simp]: "cutPrefix (p @ s) p = Some s"
  by (simp add: cutPrefix_def)

lemma cutPrefix_Some: "cutPrefix s p = Some r \<longleftrightarrow> s = p @ r"
proof
  assume "cutPrefix s p = Some r"
  then have "take (length p) s = p" and "drop (length p) s = r"
    by (auto simp: cutPrefix_def hasPrefix_def split: if_splits)
  then show "s = p @ r" by (metis append_take_drop_id)
qed simp

lemma cutChar_append [simp]: "c \<notin> set a \<Longrightarrow> cutChar (a @ c # b) c = Some (a, b)"
  by (induction a) auto

text \<open>Converting between strings and byte slices (\<^verbatim>\<open>[]byte(s)\<close>, \<^verbatim>\<open>string(b)\<close>).\<close>

definition bytes_of :: "string \<Rightarrow> bytes" where
  "bytes_of s = map (\<lambda>c. word_of_nat (of_char c)) s"

definition string_of :: "bytes \<Rightarrow> string" where
  "string_of b = map (\<lambda>w. char_of (unat w)) b"

lemma of_char_less_256 [simp]: "(of_char c :: nat) < 256"
proof -
  have "(of_char c :: nat) \<in> {0..<256}"
    using range_nat_of_char by blast
  then show ?thesis by simp
qed

lemma string_of_bytes_of [simp]: "string_of (bytes_of s) = s"
proof -
  have "char_of (unat (word_of_nat (of_char c) :: byte)) = c" for c
    by (simp add: unat_of_nat take_bit_eq_mod)
  then show ?thesis by (induction s) (simp_all add: string_of_def bytes_of_def)
qed

lemma bytes_of_string_of [simp]: "bytes_of (string_of b) = b"
proof -
  have "word_of_nat (of_char (char_of (unat w))) = w" for w :: byte
  proof -
    have "unat w < 256" using unsigned_less [of w] by simp
    then show ?thesis by (simp add: of_char_of)
  qed
  then show ?thesis by (induction b) (simp_all add: string_of_def bytes_of_def)
qed

lemma length_bytes_of [simp]: "length (bytes_of s) = length s"
  by (simp add: bytes_of_def)

subsection \<open>Time\<close>

text \<open>\<^verbatim>\<open>Time.Sub\<close> saturates at the bounds of a 64-bit duration.\<close>

definition timeSub :: "gotime \<Rightarrow> gotime \<Rightarrow> duration" where
  "timeSub a b = max (- (2 ^ 63)) (min (2 ^ 63 - 1) (a - b))"

lemma timeSub_less_iff:
  "- (2 ^ 63) < d \<Longrightarrow> d \<le> 2 ^ 63 - 1 \<Longrightarrow> timeSub a b < d \<longleftrightarrow> a - b < d"
  by (auto simp: timeSub_def)

subsection \<open>Numbers as text\<close>

text \<open>The decimal digits of \<^verbatim>\<open>%d\<close>.\<close>

fun decimal :: "nat \<Rightarrow> string" where
  "decimal n = (if n < 10 then [char_of (48 + n)] else decimal (n div 10) @ [char_of (48 + n mod 10)])"

declare decimal.simps [simp del]

definition undecimal :: "string \<Rightarrow> nat" where
  "undecimal ds = foldl (\<lambda>acc c. acc * 10 + (of_char c - 48)) 0 ds"

lemma undecimal_snoc: "undecimal (ds @ [c]) = undecimal ds * 10 + (of_char c - 48)"
  by (simp add: undecimal_def)

lemma undecimal_decimal: "undecimal (decimal n) = n"
proof (induction n rule: decimal.induct)
  case (1 n)
  have digit: "k < 10 \<Longrightarrow> of_char (char_of (48 + k) :: char) = (48 + k :: nat)" for k
    by (simp add: of_char_of)
  show ?case
  proof (cases "n < 10")
    case True
    then show ?thesis using digit [of n] by (subst decimal.simps) (simp add: undecimal_def)
  next
    case False
    have "undecimal (decimal n) = undecimal (decimal (n div 10)) * 10 + n mod 10"
      using False digit [of "n mod 10"] by (subst decimal.simps) (simp add: undecimal_snoc)
    then show ?thesis using 1 False by simp
  qed
qed

lemma decimal_inj: "decimal m = decimal n \<Longrightarrow> m = n"
  by (metis undecimal_decimal)

text \<open>\<^verbatim>\<open>fmt.Sprint\<close> of an integer and \<^verbatim>\<open>strconv.ParseInt(s, 10, 64)\<close>.\<close>

definition sprint :: "int \<Rightarrow> string" where
  "sprint i = (if i < 0 then CHR ''-'' # decimal (nat (- i)) else decimal (nat i))"

definition isDigit :: "char \<Rightarrow> bool" where
  "isDigit c \<longleftrightarrow> (48 :: nat) \<le> of_char c \<and> (of_char c :: nat) \<le> 57"

definition parseInt64 :: "string \<Rightarrow> int option" where
  "parseInt64 s =
     (let neg = (take 1 s = ''-'');
          ds = (if take 1 s \<in> {''-'', ''+''} then drop 1 s else s);
          v = (if neg then - int (undecimal ds) else int (undecimal ds))
      in if ds = [] \<or> \<not> list_all isDigit ds \<or> v < - (2 ^ 63) \<or> v \<ge> 2 ^ 63 then None else Some v)"

lemma decimal_digits: "decimal n \<noteq> [] \<and> list_all isDigit (decimal n)"
proof (induction n rule: decimal.induct)
  case (1 n)
  have digit: "k < 10 \<Longrightarrow> isDigit (char_of (48 + k))" for k :: nat by (simp add: isDigit_def of_char_of)
  show ?case using 1 digit [of n] digit [of "n mod 10"] by (subst (1 2) decimal.simps) (cases "n < 10"; simp)
qed

lemma decimal_sign: "take 1 (decimal n) \<notin> {''-'', ''+''}"
proof -
  obtain c cs where "decimal n = c # cs" "isDigit c" using decimal_digits [of n] by (cases "decimal n") auto
  then show ?thesis by (auto simp: isDigit_def)
qed

lemma parseInt64_sprint [simp]: "- (2 ^ 63) \<le> i \<Longrightarrow> i < 2 ^ 63 \<Longrightarrow> parseInt64 (sprint i) = Some i"
  using decimal_sign [of "nat i"] decimal_digits [of "nat i"] decimal_digits [of "nat (- i)"]
  by (auto simp: sprint_def parseInt64_def Let_def undecimal_decimal)

lemma sprint_inj: "sprint i = sprint j \<Longrightarrow> - (2 ^ 63) \<le> i \<Longrightarrow> i < 2 ^ 63 \<Longrightarrow> - (2 ^ 63) \<le> j \<Longrightarrow> j < 2 ^ 63 \<Longrightarrow> i = j"
  by (metis option.inject parseInt64_sprint)

text \<open>Durations are 64-bit integers.\<close>

definition int64 :: "int \<Rightarrow> int" where
  "int64 x = (x + 2 ^ 63) mod 2 ^ 64 - 2 ^ 63"

lemma int64_range [simp]: "- (2 ^ 63) \<le> int64 x" "int64 x < 2 ^ 63"
  using pos_mod_bound [of "2 ^ 64" "x + 2 ^ 63"] pos_mod_sign [of "2 ^ 64" "x + 2 ^ 63"] unfolding int64_def by simp_all

lemma int64_id [simp]: "- (2 ^ 63) \<le> x \<Longrightarrow> x < 2 ^ 63 \<Longrightarrow> int64 x = x"
  unfolding int64_def by (subst mod_pos_pos_trivial) simp_all

subsection \<open>Searching and splitting text\<close>

text \<open>The length in bytes of the white space character in front, 0 when there is none.\<close>

definition spaceLen :: "string \<Rightarrow> nat" where
  "spaceLen s =
     (if take 1 s \<in> set [[CHR 0x09], [CHR 0x0A], [CHR 0x0B], [CHR 0x0C], [CHR 0x0D], [CHR 0x20]] then 1
      else if take 2 s \<in> set [[CHR 0xC2, CHR 0x85], [CHR 0xC2, CHR 0xA0]] then 2
      else if take 3 s \<in> set ([CHR 0xE1, CHR 0x9A, CHR 0x80] # [CHR 0xE2, CHR 0x81, CHR 0x9F] # [CHR 0xE3, CHR 0x80, CHR 0x80] #
        map (\<lambda>c. [CHR 0xE2, CHR 0x80, c]) [CHR 0x80, CHR 0x81, CHR 0x82, CHR 0x83, CHR 0x84, CHR 0x85, CHR 0x86, CHR 0x87, CHR 0x88,
          CHR 0x89, CHR 0x8A, CHR 0xA8, CHR 0xA9, CHR 0xAF]) then 3
      else 0)"

fun Fields :: "string \<Rightarrow> string \<Rightarrow> string list" where
  "Fields [] w = (if w = [] then [] else [w])"
| "Fields (c # cs) w =
     (case spaceLen (c # cs) of
        0 \<Rightarrow> Fields cs (w @ [c])
      | Suc n \<Rightarrow> (if w = [] then [] else [w]) @ Fields (drop n cs) [])"

fun joinSpace :: "string list \<Rightarrow> string" where
  "joinSpace [] = []"
| "joinSpace [w] = w"
| "joinSpace (w # ws) = w @ '' '' @ joinSpace ws"

text \<open>\<^verbatim>\<open>strings.TrimSpace(s) == ""\<close>, \<^verbatim>\<open>strings.Contains\<close> and \<^verbatim>\<open>strings.Split\<close> at one
  character.\<close>

definition isBlank :: "string \<Rightarrow> bool" where
  "isBlank s \<longleftrightarrow> Fields s [] = []"

text \<open>\<^verbatim>\<open>strings.TrimSpace\<close>.\<close>

fun trimLeft :: "string \<Rightarrow> string" where
  "trimLeft [] = []"
| "trimLeft (c # cs) = (case spaceLen (c # cs) of 0 \<Rightarrow> c # cs | Suc n \<Rightarrow> trimLeft (drop n cs))"

fun trimRight :: "string \<Rightarrow> string" where
  "trimRight [] = []"
| "trimRight (c # cs) = (if isBlank (c # cs) then [] else c # trimRight cs)"

definition TrimSpace :: "string \<Rightarrow> string" where
  "TrimSpace s = trimRight (trimLeft s)"

fun containsText :: "string \<Rightarrow> string \<Rightarrow> bool" where
  "containsText [] t = (t = [])"
| "containsText (c # cs) t = (hasPrefix (c # cs) t \<or> containsText cs t)"

lemma containsText_iff: "containsText s t \<longleftrightarrow> (\<exists>a b. s = a @ t @ b)"
proof (induction s)
  case (Cons c cs)
  have "(\<exists>a b. c # cs = a @ t @ b) \<longleftrightarrow> (\<exists>b. c # cs = t @ b) \<or> (\<exists>a b. cs = a @ t @ b)"
    by (metis append_Cons append_Nil list.exhaust list.inject)
  moreover have "hasPrefix (c # cs) t \<longleftrightarrow> (\<exists>b. c # cs = t @ b)"
    unfolding hasPrefix_def by (metis append_eq_conv_conj append_take_drop_id)
  ultimately show ?case using Cons by simp
qed auto

fun splitChar :: "char \<Rightarrow> string \<Rightarrow> string list" where
  "splitChar c [] = [[]]"
| "splitChar c (x # xs) =
     (if x = c then [] # splitChar c xs
      else case splitChar c xs of [] \<Rightarrow> [[x]] | w # ws \<Rightarrow> (x # w) # ws)"

text \<open>Lower case as far as it can yield letters of ASCII: A to Z, and the two letters outside
  ASCII whose lower case is in it.\<close>

fun toLower :: "string \<Rightarrow> string" where
  "toLower (a # b # c # cs) =
     (if [a, b, c] = [CHR 0xE2, CHR 0x84, CHR 0xAA] then CHR ''k'' # toLower cs
      else if [a, b] = [CHR 0xC4, CHR 0xB0] then CHR ''i'' # toLower (c # cs)
      else (if (65 :: nat) \<le> of_char a \<and> (of_char a :: nat) \<le> 90 then char_of (of_char a + 32 :: nat) else a) # toLower (b # c # cs))"
| "toLower [a, b] =
     (if [a, b] = [CHR 0xC4, CHR 0xB0] then [CHR ''i'']
      else map (\<lambda>a. if (65 :: nat) \<le> of_char a \<and> (of_char a :: nat) \<le> 90 then char_of (of_char a + 32 :: nat) else a) [a, b])"
| "toLower s = map (\<lambda>a. if (65 :: nat) \<le> of_char a \<and> (of_char a :: nat) \<le> 90 then char_of (of_char a + 32 :: nat) else a) s"

end
