(* ===== verification/Keyring_Crypto.thy ===== *)
theory Keyring_Crypto
  imports Go_Prelude
begin

unbundle bit_operations_syntax

text \<open>
  The session cryptography of the keyring daemon (\<^verbatim>\<open>cmd/wsl-keyring/crypto.go\<close>): the
  Diffie-Hellman exchange over the second Oakley group, PKCS\#7 padding, and AES-CBC.

  Code outside the repository is a parameter: the AES block transformation and its inverse
  (\<open>aesE\<close>, \<open>aesD\<close>, taking key and block), the HKDF reader (\<open>hkdf\<close>) and the bytes
  the system's random source delivers. CBC chaining, padding, the byte encodings of big
  integers and the modular exponentiation are modelled.
\<close>

datatype crypto_error =
    ErrEmptyData
  | ErrInvalidPaddingSize
  | ErrDataShorterThanPadding
  | ErrInvalidPadding
  | ErrNotBlockMultiple
  | ErrKeySize nat
  | ErrRand
  | ErrKDF
  | PanicBytesOverflow
  | PanicIVLength
  | PanicDivideByZero

subsection \<open>Diffie-Hellman\<close>

definition dhPrime :: int where
  "dhPrime =
     0xFFFFFFFFFFFFFFFFC90FDAA22168C234C4C6628B80DC1CD129024E088A67CC74020BBEA63B139B22514A08798E3404DDEF9519B3CD3A431B302B0A6DF25F14374FE1356D6D51C245E485B576625E7EC6F44C42E9A637ED6B0BFF5CB6F406B7EDEE386BFB5A899FA5AE9F24117C4B1FE649286651ECE65381FFFFFFFFFFFFFFFF"

definition dhGenerator :: int where
  "dhGenerator = 2"

record DHKeypair =
  Private :: int
  Public :: int

text \<open>\<^verbatim>\<open>big.Int.Exp\<close> with a positive modulus and a non-negative exponent.\<close>

definition bigExp :: "int \<Rightarrow> int \<Rightarrow> int \<Rightarrow> int" where
  "bigExp x y m = x ^ nat y mod m"

text \<open>
  \<^verbatim>\<open>rand.Int(rand.Reader, max)\<close> delivers a value below \<open>max\<close> or fails; \<open>rnd max\<close> is
  what it delivers.
\<close>

definition GenerateDHKeypair :: "(int \<Rightarrow> int option) \<Rightarrow> crypto_error + DHKeypair" where
  "GenerateDHKeypair rnd =
     (let mx = dhPrime - 2 in
      case rnd mx of
        None \<Rightarrow> Inl ErrRand
      | Some r \<Rightarrow>
          (let private = r + 2;
               public = bigExp dhGenerator private dhPrime
           in Inr \<lparr>Private = private, Public = public\<rparr>))"

text \<open>\<^verbatim>\<open>FillBytes\<close> writes the big-endian bytes right-aligned, and panics when the value
  does not fit; \<^verbatim>\<open>SetBytes\<close> reads big-endian bytes.\<close>

fun beBytes :: "nat \<Rightarrow> int \<Rightarrow> bytes" where
  "beBytes 0 n = []"
| "beBytes (Suc k) n = beBytes k (n div 256) @ [word_of_int n]"

definition BigIntToBytes :: "int \<Rightarrow> crypto_error + bytes" where
  "BigIntToBytes n =
     (if \<bar>n\<bar> < 256 ^ 128 then Inr (beBytes 128 \<bar>n\<bar>) else Inl PanicBytesOverflow)"

definition SetBytes :: "bytes \<Rightarrow> int" where
  "SetBytes b = foldl (\<lambda>acc w. acc * 256 + uint w) 0 b"

definition ComputeSharedSecret :: "bytes \<Rightarrow> int \<Rightarrow> crypto_error + bytes" where
  "ComputeSharedSecret clientPublicBytes serverPrivate =
     (let clientPublic = SetBytes clientPublicBytes;
          shared = bigExp clientPublic serverPrivate dhPrime
      in BigIntToBytes shared)"

text \<open>\<^verbatim>\<open>hkdf secret n\<close> is what reading \<open>n\<close> bytes from the HKDF-SHA256 reader with
  empty salt and info gives.\<close>

definition DeriveAESKey :: "(bytes \<Rightarrow> nat \<Rightarrow> bytes option) \<Rightarrow> bytes \<Rightarrow> crypto_error + bytes" where
  "DeriveAESKey hkdf sharedSecret =
     (case hkdf sharedSecret 16 of None \<Rightarrow> Inl ErrKDF | Some key \<Rightarrow> Inr key)"

subsection \<open>PKCS\#7 padding\<close>

definition BlockSize :: nat where
  "BlockSize = 16"

text \<open>The loop that writes the padding byte from \<open>len(data)\<close> to the end of the slice.\<close>

function pad_loop :: "nat \<Rightarrow> byte \<Rightarrow> bytes \<Rightarrow> bytes" where
  "pad_loop i p padded =
     (if i < length padded then pad_loop (Suc i) p (padded[i := p]) else padded)"
  by pat_completeness auto
termination
  by (relation "measure (\<lambda>(i, p, padded). length padded - i)") auto

declare pad_loop.simps [simp del]

definition PKCS7Pad :: "bytes \<Rightarrow> nat \<Rightarrow> crypto_error + bytes" where
  "PKCS7Pad data blockSize =
     (if blockSize = 0 then Inl PanicDivideByZero
      else
        let padding = blockSize - length data mod blockSize;
            padded = data @ replicate padding 0
        in Inr (pad_loop (length data) (word_of_nat padding) padded))"

definition ConstantTimeByteEq :: "byte \<Rightarrow> byte \<Rightarrow> int" where
  "ConstantTimeByteEq x y = (if x = y then 1 else 0)"

fun pad_check :: "byte \<Rightarrow> int \<Rightarrow> bytes \<Rightarrow> int" where
  "pad_check p check [] = check"
| "pad_check p check (b # bs) = pad_check p (check OR (ConstantTimeByteEq b p - 1)) bs"

definition PKCS7Unpad :: "bytes \<Rightarrow> crypto_error + bytes" where
  "PKCS7Unpad data =
     (if length data = 0 then Inl ErrEmptyData
      else
        let padding = unat (data ! (length data - 1)) in
        if padding = 0 \<or> padding > BlockSize then Inl ErrInvalidPaddingSize
        else if length data < padding then Inl ErrDataShorterThanPadding
        else if pad_check (word_of_nat padding) 0 (drop (length data - padding) data) \<noteq> 0
          then Inl ErrInvalidPadding
        else Inr (take (length data - padding) data))"

subsection \<open>AES-CBC\<close>

definition xorBytes :: "bytes \<Rightarrow> bytes \<Rightarrow> bytes" where
  "xorBytes a b = map2 (XOR) a b"

text \<open>\<^verbatim>\<open>cipher.NewCBCEncrypter\<close> and \<^verbatim>\<open>cipher.NewCBCDecrypter\<close> with
  \<^verbatim>\<open>CryptBlocks\<close> over a slice of whole blocks.\<close>

function cbcEncrypt :: "(bytes \<Rightarrow> bytes) \<Rightarrow> bytes \<Rightarrow> bytes \<Rightarrow> bytes" where
  "cbcEncrypt E iv src =
     (if src = [] then []
      else let c = E (xorBytes (take BlockSize src) iv)
           in c @ cbcEncrypt E c (drop BlockSize src))"
  by pat_completeness auto
termination
  by (relation "measure (\<lambda>(E, iv, src). length src)") (auto simp: BlockSize_def)

function cbcDecrypt :: "(bytes \<Rightarrow> bytes) \<Rightarrow> bytes \<Rightarrow> bytes \<Rightarrow> bytes" where
  "cbcDecrypt D iv src =
     (if src = [] then []
      else let c = take BlockSize src
           in xorBytes (D c) iv @ cbcDecrypt D c (drop BlockSize src))"
  by pat_completeness auto
termination
  by (relation "measure (\<lambda>(D, iv, src). length src)") (auto simp: BlockSize_def)

declare cbcEncrypt.simps [simp del] cbcDecrypt.simps [simp del]

text \<open>\<^verbatim>\<open>aes.NewCipher\<close> accepts keys of 16, 24 and 32 bytes.\<close>

definition NewCipher :: "bytes \<Rightarrow> crypto_error option" where
  "NewCipher key =
     (if length key = 16 \<or> length key = 24 \<or> length key = 32 then None
      else Some (ErrKeySize (length key)))"

text \<open>\<open>rnd\<close> is what filling the IV from the random source gives.\<close>

definition AESCBCEncrypt ::
    "(bytes \<Rightarrow> bytes \<Rightarrow> bytes) \<Rightarrow> (nat \<Rightarrow> bytes option) \<Rightarrow> bytes \<Rightarrow> bytes
      \<Rightarrow> crypto_error + (bytes \<times> bytes)" where
  "AESCBCEncrypt aesE rnd key plaintext =
     (case NewCipher key of
        Some e \<Rightarrow> Inl e
      | None \<Rightarrow>
          (case PKCS7Pad plaintext BlockSize of
             Inl e \<Rightarrow> Inl e
           | Inr padded \<Rightarrow>
               (case rnd BlockSize of
                  None \<Rightarrow> Inl ErrRand
                | Some iv \<Rightarrow> Inr (iv, cbcEncrypt (aesE key) iv padded))))"

definition AESCBCDecrypt ::
    "(bytes \<Rightarrow> bytes \<Rightarrow> bytes) \<Rightarrow> bytes \<Rightarrow> bytes \<Rightarrow> bytes \<Rightarrow> crypto_error + bytes" where
  "AESCBCDecrypt aesD key iv ciphertext =
     (if length ciphertext mod BlockSize \<noteq> 0 then Inl ErrNotBlockMultiple
      else
        case NewCipher key of
          Some e \<Rightarrow> Inl e
        | None \<Rightarrow>
            if length iv \<noteq> BlockSize then Inl PanicIVLength
            else PKCS7Unpad (cbcDecrypt (aesD key) iv ciphertext))"

subsection \<open>Padding: lemmas\<close>

lemma pad_loop_eq:
  "i \<le> length xs \<Longrightarrow> pad_loop i p xs = take i xs @ replicate (length xs - i) p"
proof (induction i p xs rule: pad_loop.induct)
  case (1 i p xs)
  show ?case
  proof (cases "i < length xs")
    case True
    then have "pad_loop i p xs = take (Suc i) (xs[i := p]) @ replicate (length xs - Suc i) p"
      using "1.IH" by (simp add: pad_loop.simps [of i p xs])
    also have "\<dots> = take i xs @ p # replicate (length xs - Suc i) p"
      using True by (simp add: take_Suc_conv_app_nth)
    also have "p # replicate (length xs - Suc i) p = replicate (length xs - i) p"
      using True by (metis Suc_diff_Suc replicate_Suc)
    finally show ?thesis .
  next
    case False
    then have "i = length xs" using "1.prems" by simp
    then show ?thesis by (simp add: pad_loop.simps [of "length xs" p xs])
  qed
qed

lemma PKCS7Pad_eq:
  assumes "0 < n"
  shows "PKCS7Pad data n =
    Inr (data @ replicate (n - length data mod n) (word_of_nat (n - length data mod n)))"
  using assms by (simp add: PKCS7Pad_def Let_def pad_loop_eq)

lemma int_or_minus_one: "(x::int) OR - 1 = - 1"
  by simp

lemma pad_check_minus_one [simp]: "pad_check p (- 1) bs = - 1"
  by (induction bs) (simp_all add: ConstantTimeByteEq_def)

lemma pad_check_eq: "pad_check p c bs = (if \<forall>b \<in> set bs. b = p then c else - 1)"
  by (induction bs arbitrary: c) (simp_all add: ConstantTimeByteEq_def)

lemma all_eq_replicate: "(\<forall>b \<in> set bs. b = p) \<longleftrightarrow> bs = replicate (length bs) p"
  by (metis in_set_replicate replicate_length_same)

lemma unat_small_byte: "k \<le> 16 \<Longrightarrow> unat (word_of_nat k :: byte) = k"
  by (simp add: unat_of_nat take_bit_eq_mod)

lemma PKCS7Unpad_padded:
  assumes "1 \<le> k" "k \<le> 16"
  shows "PKCS7Unpad (d @ replicate k (word_of_nat k)) = Inr d"
proof -
  obtain j where k: "k = Suc j" using assms by (cases k) auto
  have "(d @ replicate k (word_of_nat k :: byte)) ! (length d + j) = word_of_nat k"
    unfolding k by (simp del: replicate_Suc of_nat_Suc)
  then show ?thesis
    using assms k unat_small_byte [of k]
    by (simp add: PKCS7Unpad_def Let_def pad_check_eq BlockSize_def del: replicate_Suc of_nat_Suc)
qed

lemma PKCS7Unpad_InrD:
  assumes "PKCS7Unpad data = Inr d"
  shows "\<exists>k. 1 \<le> k \<and> k \<le> 16 \<and> data = d @ replicate k (word_of_nat k)"
proof -
  define b where "b = data ! (length data - 1)"
  have k: "1 \<le> unat b" "unat b \<le> 16" "unat b \<le> length data"
    and chk: "pad_check b 0 (drop (length data - unat b) data) = 0"
    and d: "d = take (length data - unat b) data"
    using assms
    by (auto simp: PKCS7Unpad_def Let_def BlockSize_def b_def Suc_le_eq unat_gt_0 split: if_splits)
  have "\<forall>x \<in> set (drop (length data - unat b) data). x = b"
    using chk by (simp add: pad_check_eq split: if_splits)
  then have "drop (length data - unat b) data = replicate (unat b) b"
    using k(3) by (subst (asm) all_eq_replicate) simp
  then have "data = d @ replicate (unat b) (word_of_nat (unat b))"
    using d append_take_drop_id [of "length data - unat b" data] by simp
  then show ?thesis using k by blast
qed

text \<open>Unpadding accepts exactly the slices that end in \<open>k\<close> copies of the byte \<open>k\<close>.\<close>

lemmas PKCS7Unpad_iff = PKCS7Unpad_padded PKCS7Unpad_InrD

lemma pad_amount_bounds: "(0::nat) < n \<Longrightarrow> 1 \<le> n - m mod n \<and> n - m mod n \<le> n"
  using mod_less_divisor [of n m] by (simp add: Suc_le_eq)

lemma PKCS7Pad_length:
  assumes "PKCS7Pad data n = Inr padded"
  shows "length padded mod n = 0" and "length data < length padded"
    and "length padded \<le> length data + n"
proof -
  have n: "0 < n" using assms by (auto simp: PKCS7Pad_def split: if_splits)
  then have len: "length padded = length data + (n - length data mod n)"
    using assms by (auto simp: PKCS7Pad_eq)
  have "length data mod n < n" using n by simp
  then have "length data + (n - length data mod n) = n * (length data div n) + n"
    using minus_mod_eq_mult_div [of "length data" n] mod_less_eq_dividend [of "length data" n]
    by linarith
  then show "length padded mod n = 0" using len by simp
  show "length data < length padded" using len \<open>length data mod n < n\<close> by simp
  show "length padded \<le> length data + n" using len by simp
qed

lemma PKCS7_roundtrip:
  assumes "0 < n" "n \<le> 16" "PKCS7Pad data n = Inr padded"
  shows "PKCS7Unpad padded = Inr data"
proof -
  have "padded = data @ replicate (n - length data mod n) (word_of_nat (n - length data mod n))"
    using assms by (simp add: PKCS7Pad_eq)
  then show ?thesis
    using PKCS7Unpad_padded [of "n - length data mod n" data] pad_amount_bounds [of n "length data"] assms(1,2)
    by simp
qed

subsection \<open>CBC: lemmas\<close>

lemma length_xorBytes [simp]: "length (xorBytes a b) = min (length a) (length b)"
  by (simp add: xorBytes_def)

lemma xorBytes_cancel: "length a = length b \<Longrightarrow> xorBytes (xorBytes a b) b = a"
  by (auto simp: xorBytes_def intro!: nth_equalityI)
    (simp add: xor.assoc)

text \<open>A block transformation and its inverse, on blocks of the block size.\<close>

definition block_inverse :: "(bytes \<Rightarrow> bytes) \<Rightarrow> (bytes \<Rightarrow> bytes) \<Rightarrow> bool" where
  "block_inverse E D \<longleftrightarrow>
     (\<forall>b. length b = BlockSize \<longrightarrow> length (E b) = BlockSize \<and> D (E b) = b)"

lemma block_inverseD:
  assumes "block_inverse E D" "length b = BlockSize"
  shows "length (E b) = BlockSize" "D (E b) = b"
  using assms by (auto simp: block_inverse_def)

lemma whole_blocks_cases:
  assumes "length src mod BlockSize = 0" "src \<noteq> []"
  shows "BlockSize \<le> length src" "length (drop BlockSize src) mod BlockSize = 0"
proof -
  show "BlockSize \<le> length src"
    using assms mod_less [of "length src" BlockSize] by (cases "length src < BlockSize") auto
  then show "length (drop BlockSize src) mod BlockSize = 0"
    using assms(1) by (simp add: mod_eq_0_iff_dvd)
qed

lemma cbc_roundtrip:
  assumes "block_inverse E D" "length src mod BlockSize = 0" "length iv = BlockSize"
  shows "length (cbcEncrypt E iv src) = length src"
    and "cbcDecrypt D iv (cbcEncrypt E iv src) = src"
proof -
  have "length (cbcEncrypt E iv src) = length src \<and> cbcDecrypt D iv (cbcEncrypt E iv src) = src"
    using assms(2,3)
  proof (induction "length src" arbitrary: iv src rule: less_induct)
    case less
    show ?case
    proof (cases "src = []")
      case False
      define c where "c = E (xorBytes (take BlockSize src) iv)"
      note blk = whole_blocks_cases [OF less.prems(1) False]
      have x: "length (xorBytes (take BlockSize src) iv) = BlockSize"
        using blk less.prems(2) by simp
      have c: "length c = BlockSize" "D c = xorBytes (take BlockSize src) iv"
        using block_inverseD [OF assms(1) x] by (simp_all add: c_def)
      have enc: "cbcEncrypt E iv src = c @ cbcEncrypt E c (drop BlockSize src)"
        using False by (subst cbcEncrypt.simps) (simp add: c_def Let_def)
      have "length (drop BlockSize src) < length src"
        using False by (simp add: BlockSize_def)
      then have IH: "length (cbcEncrypt E c (drop BlockSize src)) = length (drop BlockSize src)"
        "cbcDecrypt D c (cbcEncrypt E c (drop BlockSize src)) = drop BlockSize src"
        using less.hyps [OF _ blk(2) c(1)] by auto
      have "cbcDecrypt D iv (cbcEncrypt E iv src) =
          xorBytes (D c) iv @ cbcDecrypt D c (cbcEncrypt E c (drop BlockSize src))"
        unfolding enc using c(1) by (subst cbcDecrypt.simps) (auto simp: Let_def BlockSize_def)
      also have "\<dots> = src"
        using IH(2) c(2) blk(1) less.prems(2) by (simp add: xorBytes_cancel)
      finally show ?thesis
        using enc IH(1) c(1) blk(1) by simp
    qed (simp add: cbcEncrypt.simps cbcDecrypt.simps)
  qed
  then show "length (cbcEncrypt E iv src) = length src"
    and "cbcDecrypt D iv (cbcEncrypt E iv src) = src" by auto
qed

subsection \<open>Big-endian encodings and the exchange: lemmas\<close>

lemma SetBytes_snoc [simp]: "SetBytes (xs @ [w]) = SetBytes xs * 256 + uint w"
  by (simp add: SetBytes_def)

lemma uint_word_of_int_byte: "uint (word_of_int n :: byte) = n mod 256"
  by (simp add: uint_word_of_int)

lemma SetBytes_beBytes:
  "0 \<le> n \<Longrightarrow> n < 256 ^ k \<Longrightarrow> SetBytes (beBytes k n) = n"
proof (induction k arbitrary: n)
  case (Suc k)
  have "n div 256 < 256 ^ k"
    using Suc.prems by (simp add: div_less_iff_less_mult mult.commute)
  then have "SetBytes (beBytes k (n div 256)) = n div 256"
    using Suc.IH Suc.prems(1) by simp
  then show ?case
    by (simp add: uint_word_of_int_byte)
qed (simp add: SetBytes_def)

lemma length_beBytes [simp]: "length (beBytes k n) = k"
  by (induction k arbitrary: n) auto

lemma dhPrime_pos: "2 < dhPrime" and dhPrime_small: "dhPrime < 256 ^ 128"
  by (simp_all add: dhPrime_def)

lemma dhPrime_large: "1000 < dhPrime"
  by (simp add: dhPrime_def)

lemma bigExp_range: "0 \<le> bigExp x y dhPrime \<and> bigExp x y dhPrime < 256 ^ 128"
  using dhPrime_pos dhPrime_small
  by (simp add: bigExp_def) (meson pos_mod_bound less_trans order_less_trans zero_less_numeral)

lemma BigIntToBytes_bigExp:
  "BigIntToBytes (bigExp x y dhPrime) = Inr (beBytes 128 (bigExp x y dhPrime))"
  using bigExp_range [of x y] by (simp add: BigIntToBytes_def)

lemma bigExp_bigExp:
  "0 \<le> a \<Longrightarrow> 0 \<le> b \<Longrightarrow> bigExp (bigExp g a m) b m = bigExp (bigExp g b m) a m"
  by (simp add: bigExp_def power_mod flip: power_mult) (simp add: mult.commute)

lemma ComputeSharedSecret_public:
  "ComputeSharedSecret (beBytes 128 (bigExp g a dhPrime)) b =
     Inr (beBytes 128 (bigExp (bigExp g a dhPrime) b dhPrime))"
  using bigExp_range [of g a]
  by (simp add: ComputeSharedSecret_def Let_def SetBytes_beBytes BigIntToBytes_bigExp)

subsection \<open>Properties\<close>

text \<open>
  Removing the PKCS\#7 padding gives the data back: for every byte slice and every block
  size up to the AES block size, \<open>PKCS7Pad\<close> succeeds, its result is a non-empty whole number
  of blocks longer than the data by at most one block, and \<open>PKCS7Unpad\<close> of it is the data.
\<close>

theorem pkcs7_pad_unpad:
  assumes "0 < n" "n \<le> 16"
  shows "\<exists>padded. PKCS7Pad data n = Inr padded \<and> length padded mod n = 0
    \<and> length data < length padded \<and> length padded \<le> length data + n
    \<and> PKCS7Unpad padded = Inr data"
proof -
  from assms(1) obtain padded where p: "PKCS7Pad data n = Inr padded"
    by (simp add: PKCS7Pad_eq)
  show ?thesis
    using p PKCS7Pad_length [OF p] PKCS7_roundtrip [OF assms p] by auto
qed

theorem pkcs7_pad_unpad_witness:
  "\<exists>padded. PKCS7Pad [1, 2, 3] 16 = Inr padded \<and> length padded mod 16 = 0
    \<and> length ([1, 2, 3] :: bytes) < length padded \<and> length padded \<le> length ([1, 2, 3] :: bytes) + 16
    \<and> PKCS7Unpad padded = Inr [1, 2, 3]"
  by (rule pkcs7_pad_unpad) simp_all

text \<open>
  The padding check accepts nothing else: \<open>PKCS7Unpad\<close> returns \<open>d\<close> exactly when the
  input is \<open>d\<close> followed by \<open>k\<close> copies of the byte \<open>k\<close> for some \<open>k\<close> from 1 to 16;
  on every other input it returns an error. The constant-time loop is thus equivalent to the
  specification of the padding.
\<close>

theorem pkcs7_unpad_exact:
  "PKCS7Unpad data = Inr d \<longleftrightarrow>
     (\<exists>k. 1 \<le> k \<and> k \<le> 16 \<and> data = d @ replicate k (word_of_nat k))"
  using PKCS7Unpad_InrD [of data d] PKCS7Unpad_padded by auto

lemma cbc_encrypt_decrypt:
  assumes "block_inverse (aesE key) (aesD key)" and "length key \<in> {16, 24, 32}"
    and "rnd BlockSize = Some iv" and "length iv = BlockSize"
  shows "\<exists>ct. AESCBCEncrypt aesE rnd key plaintext = Inr (iv, ct)
    \<and> AESCBCDecrypt aesD key iv ct = Inr plaintext"
proof -
  obtain padded where p: "PKCS7Pad plaintext BlockSize = Inr padded"
    by (simp add: PKCS7Pad_eq BlockSize_def)
  have blocks: "length padded mod BlockSize = 0"
    using PKCS7Pad_length(1) [OF p] .
  have unpad: "PKCS7Unpad padded = Inr plaintext"
    using PKCS7_roundtrip [OF _ _ p] by (simp add: BlockSize_def)
  have key: "NewCipher key = None"
    using assms(2) by (auto simp: NewCipher_def)
  show ?thesis
    using cbc_roundtrip [OF assms(1) blocks assms(4)] key p assms(3,4) unpad blocks
    by (simp add: AESCBCEncrypt_def AESCBCDecrypt_def)
qed

text \<open>
  Decrypting with the key and IV of an encryption gives the plaintext back. For an AES
  key size, when the random source fills the IV, \<open>AESCBCEncrypt\<close> succeeds with that IV and
  \<open>AESCBCDecrypt\<close> of its ciphertext succeeds with the plaintext. The block transformation is
  assumed to be inverted by the inverse transformation on 16-byte blocks.
\<close>

theorem aes_cbc_roundtrip:
  assumes "block_inverse (aesE key) (aesD key)" and "length key \<in> {16, 24, 32}"
    and "rnd BlockSize = Some iv" and "length iv = BlockSize"
  shows "\<exists>ct. AESCBCEncrypt aesE rnd key plaintext = Inr (iv, ct)
    \<and> AESCBCDecrypt aesD key iv ct = Inr plaintext"
  using assms by (rule cbc_encrypt_decrypt)

lemma block_inverse_xor: "length k = BlockSize \<Longrightarrow> block_inverse (\<lambda>b. xorBytes b k) (\<lambda>b. xorBytes b k)"
  by (simp add: block_inverse_def xorBytes_cancel)

theorem aes_cbc_roundtrip_witness:
  "\<exists>ct. AESCBCEncrypt (\<lambda>k b. xorBytes b k) (\<lambda>n. Some (replicate n 7)) (replicate 16 3) [1, 2, 3]
      = Inr (replicate 16 7, ct)
    \<and> AESCBCDecrypt (\<lambda>k b. xorBytes b k) (replicate 16 3) (replicate 16 7) ct = Inr [1, 2, 3]"
  by (rule aes_cbc_roundtrip) (simp_all add: block_inverse_xor BlockSize_def)

lemma shared_secrets_agree:
  assumes "\<And>m r. ra m = Some r \<Longrightarrow> 0 \<le> r \<and> r < m" and "\<And>m r. rb m = Some r \<Longrightarrow> 0 \<le> r \<and> r < m"
    and "GenerateDHKeypair ra = Inr A" and "GenerateDHKeypair rb = Inr B"
  shows "\<exists>pa pb s. BigIntToBytes (Public A) = Inr pa \<and> BigIntToBytes (Public B) = Inr pb
    \<and> length pa = 128 \<and> length pb = 128 \<and> length s = 128
    \<and> ComputeSharedSecret pa (Private B) = Inr s \<and> ComputeSharedSecret pb (Private A) = Inr s"
proof -
  from assms(3) obtain r where r: "ra (dhPrime - 2) = Some r"
      "Private A = r + 2" "Public A = bigExp dhGenerator (r + 2) dhPrime"
    by (auto simp: GenerateDHKeypair_def Let_def split: option.splits)
  from assms(4) obtain q where q: "rb (dhPrime - 2) = Some q"
      "Private B = q + 2" "Public B = bigExp dhGenerator (q + 2) dhPrime"
    by (auto simp: GenerateDHKeypair_def Let_def split: option.splits)
  have "0 \<le> r + 2" "0 \<le> q + 2"
    using assms(1) [OF r(1)] assms(2) [OF q(1)] by auto
  then have "bigExp (bigExp dhGenerator (r + 2) dhPrime) (q + 2) dhPrime
      = bigExp (bigExp dhGenerator (q + 2) dhPrime) (r + 2) dhPrime"
    by (rule bigExp_bigExp)
  then show ?thesis
    by (simp add: r q BigIntToBytes_bigExp ComputeSharedSecret_public)
qed

text \<open>
  The Diffie-Hellman exchange agrees: whatever two keypairs \<open>GenerateDHKeypair\<close> produces,
  both sides encode their public key in 128 bytes without overflow, both computations of the
  shared secret succeed, and they give the same 128 bytes.
\<close>

theorem dh_shared_secret_agrees:
  assumes "\<And>m r. ra m = Some r \<Longrightarrow> 0 \<le> r \<and> r < m" and "\<And>m r. rb m = Some r \<Longrightarrow> 0 \<le> r \<and> r < m"
    and "GenerateDHKeypair ra = Inr A" and "GenerateDHKeypair rb = Inr B"
  shows "\<exists>pa pb s. BigIntToBytes (Public A) = Inr pa \<and> BigIntToBytes (Public B) = Inr pb
    \<and> length pa = 128 \<and> length pb = 128 \<and> length s = 128
    \<and> ComputeSharedSecret pa (Private B) = Inr s \<and> ComputeSharedSecret pb (Private A) = Inr s"
  by (rule shared_secrets_agree [OF assms])

text \<open>Two small keypairs, for random sources that deliver 0 and 1.\<close>

lemma GenerateDHKeypair_0:
  "GenerateDHKeypair (\<lambda>m. if 0 < m then Some 0 else None) = Inr \<lparr>Private = 2, Public = 4\<rparr>"
  using dhPrime_large by (simp add: GenerateDHKeypair_def Let_def dhGenerator_def bigExp_def)

lemma GenerateDHKeypair_1:
  "GenerateDHKeypair (\<lambda>m. if 1 < m then Some 1 else None) = Inr \<lparr>Private = 3, Public = 8\<rparr>"
  using dhPrime_large by (simp add: GenerateDHKeypair_def Let_def dhGenerator_def bigExp_def)

theorem dh_shared_secret_agrees_witness:
  "\<exists>pa pb s. BigIntToBytes 4 = Inr pa \<and> BigIntToBytes 8 = Inr pb
    \<and> length pa = 128 \<and> length pb = 128 \<and> length s = 128
    \<and> ComputeSharedSecret pa 3 = Inr s \<and> ComputeSharedSecret pb 2 = Inr s"
proof -
  have a: "0 \<le> r \<and> r < m" if "(if 0 < m then Some (0::int) else None) = Some r" for m r
    using that by (simp split: if_splits)
  have b: "0 \<le> r \<and> r < m" if "(if 1 < m then Some (1::int) else None) = Some r" for m r
    using that by (simp split: if_splits)
  show ?thesis
    using dh_shared_secret_agrees [OF a b GenerateDHKeypair_0 GenerateDHKeypair_1]
    by (simp only: DHKeypair.simps)
qed

text \<open>
  Private keys lie between 2 and \<open>p - 1\<close>, and \<open>p - 1\<close> is attained: when the random
  source delivers its largest value the private key is \<open>p - 1\<close>, although the comment of
  \<open>GenerateDHKeypair\<close> gives the range as 2 to \<open>p - 2\<close>.
\<close>

theorem dh_private_key_range:
  "(\<forall>rnd kp. (\<forall>m r. rnd m = Some r \<longrightarrow> 0 \<le> r \<and> r < m) \<longrightarrow> GenerateDHKeypair rnd = Inr kp
      \<longrightarrow> 2 \<le> Private kp \<and> Private kp \<le> dhPrime - 1)
   \<and> (\<exists>kp. GenerateDHKeypair (\<lambda>m. Some (m - 1)) = Inr kp \<and> Private kp = dhPrime - 1)"
proof (intro conjI allI impI)
  fix rnd kp
  assume rnd: "\<forall>m r. rnd m = Some r \<longrightarrow> 0 \<le> r \<and> r < m" and gen: "GenerateDHKeypair rnd = Inr kp"
  from gen obtain r where r: "rnd (dhPrime - 2) = Some r" "Private kp = r + 2"
    by (auto simp: GenerateDHKeypair_def Let_def split: option.splits)
  have "0 \<le> r \<and> r < dhPrime - 2" using rnd r(1) by blast
  then show "2 \<le> Private kp" and "Private kp \<le> dhPrime - 1" by (simp_all add: r(2))
qed (simp add: GenerateDHKeypair_def Let_def)

theorem dh_private_key_range_witness:
  "2 \<le> Private \<lparr>Private = 2, Public = 4\<rparr> \<and> Private \<lparr>Private = 2, Public = 4\<rparr> \<le> dhPrime - 1"
proof -
  have "\<forall>m r. (if 0 < m then Some (0::int) else None) = Some r \<longrightarrow> 0 \<le> r \<and> r < m"
    by (simp split: if_splits)
  from conjunct1 [OF dh_private_key_range, THEN spec, THEN spec, THEN mp, OF this, THEN mp, OF GenerateDHKeypair_0]
  show ?thesis .
qed

end
