(* ===== verification/Keyring_Backend.thy ===== *)
theory Keyring_Backend
  imports Go_Prelude
begin

text \<open>
  The keyring's items and storage interfaces (\<^verbatim>\<open>cmd/wsl-keyring/backend.go\<close>): the item
  type, attribute matching, the pending identifiers, the in-memory backend, and the contract of
  a raw storage backend as the locale \<open>raw_storage\<close>, which the caching layer relies on and
  which the in-memory backend is shown to satisfy.

  A \<^verbatim>\<open>[]byte\<close> secret is an option, \<open>None\<close> being the nil slice: the code distinguishes a
  nil secret (metadata only) from an empty one. Contexts are not modelled; a cancelled or timed
  out call is one that returns an error.
\<close>

subsection \<open>Items\<close>

datatype berror =
    ErrNotFound
  | ErrNilItem
  | ErrRandID
  | ErrFailed string

record SecretItem =
  ID :: string
  Label :: string
  Attributes :: "(string, string) gomap"
  Secret :: "bytes option"

definition copyAttributes :: "(string, string) gomap \<Rightarrow> (string, string) gomap" where
  "copyAttributes src = src"

text \<open>\<^verbatim>\<open>append([]byte(nil), s...)\<close>: a copy of an empty slice is the nil slice.\<close>

definition copyBytes :: "bytes option \<Rightarrow> bytes option" where
  "copyBytes s = (case s of None \<Rightarrow> None | Some b \<Rightarrow> if b = [] then None else Some b)"

definition copySecretItem :: "SecretItem \<Rightarrow> SecretItem" where
  "copySecretItem src =
     \<lparr>ID = ID src, Label = Label src, Attributes = copyAttributes (Attributes src),
      Secret = copyBytes (Secret src)\<rparr>"

text \<open>A copy with the secret dropped, as every metadata path of the code makes it.\<close>

definition withoutSecret :: "SecretItem \<Rightarrow> SecretItem" where
  "withoutSecret it = (copySecretItem it)\<lparr>Secret := None\<rparr>"

text \<open>The loop over the wanted attributes, with its early return.\<close>

fun attributesMatch :: "(string, string) gomap \<Rightarrow> (string, string) gomap \<Rightarrow> bool" where
  "attributesMatch got [] = True"
| "attributesMatch got ((k, v) # want) =
     (if mgetZ got k \<noteq> v then False else attributesMatch got want)"

definition pendingIDPrefix :: string where
  "pendingIDPrefix = ''pending_''"

definition isPendingID :: "string \<Rightarrow> bool" where
  "isPendingID i = hasPrefix i pendingIDPrefix"

definition hexDigit :: "nat \<Rightarrow> char" where
  "hexDigit n = ''0123456789abcdef'' ! n"

definition hexEncode :: "bytes \<Rightarrow> string" where
  "hexEncode b = concat (map (\<lambda>w. [hexDigit (unat w div 16), hexDigit (unat w mod 16)]) b)"

text \<open>\<open>rnd\<close> is what reading 16 bytes from the random source gives.\<close>

definition newPendingID :: "bytes option \<Rightarrow> berror + string" where
  "newPendingID rnd =
     (case rnd of None \<Rightarrow> Inl ErrRandID | Some buf \<Rightarrow> Inr (pendingIDPrefix @ hexEncode buf))"

subsection \<open>The raw storage interface\<close>

text \<open>
  \<^verbatim>\<open>RawStorageBackend\<close> as a record of its methods over the backend's own state, which each
  call may change. \<^verbatim>\<open>Save\<close> writes the identifier into the caller's item, so it returns the
  item. The optional \<^verbatim>\<open>CheckAuth\<close> is there when the backend implements \<^verbatim>\<open>AuthChecker\<close>.
\<close>

record 'r RawStorageBackend =
  rawGet :: "string \<Rightarrow> 'r \<Rightarrow> (berror + SecretItem) \<times> 'r"
  rawSave :: "SecretItem \<Rightarrow> 'r \<Rightarrow> (berror option \<times> SecretItem) \<times> 'r"
  rawDelete :: "string \<Rightarrow> 'r \<Rightarrow> berror option \<times> 'r"
  rawLoadMetadata :: "'r \<Rightarrow> (berror + SecretItem list) \<times> 'r"
  rawCheckAuth :: "('r \<Rightarrow> berror option \<times> 'r) option"

subsection \<open>The in-memory backend\<close>

text \<open>\<open>entropy\<close> is the sequence of results the random source will deliver.\<close>

record InMemoryBackend =
  items :: "(string, SecretItem) gomap"
  entropy :: "bytes option list"

definition NewInMemoryBackend :: "bytes option list \<Rightarrow> InMemoryBackend" where
  "NewInMemoryBackend es = \<lparr>items = [], entropy = es\<rparr>"

definition nextRand :: "bytes option list \<Rightarrow> bytes option" where
  "nextRand es = (case es of [] \<Rightarrow> None | e # _ \<Rightarrow> e)"

fun search_loop :: "(string, string) gomap \<Rightarrow> SecretItem list \<Rightarrow> (string \<times> SecretItem) list
    \<Rightarrow> SecretItem list" where
  "search_loop attributes matched [] = matched"
| "search_loop attributes matched ((k, it) # rest) =
     search_loop attributes
       (if attributesMatch (Attributes it) attributes then matched @ [it] else matched) rest"

definition mem_Search ::
    "(string \<times> SecretItem) order \<Rightarrow> (string, string) gomap \<Rightarrow> InMemoryBackend
      \<Rightarrow> SecretItem list" where
  "mem_Search ord attributes b = search_loop attributes [] (ord (items b))"

definition mem_Get :: "string \<Rightarrow> InMemoryBackend \<Rightarrow> (berror + SecretItem) \<times> InMemoryBackend" where
  "mem_Get i b = (case mget (items b) i of None \<Rightarrow> (Inl ErrNotFound, b) | Some it \<Rightarrow> (Inr it, b))"

definition mem_Save ::
    "SecretItem \<Rightarrow> InMemoryBackend \<Rightarrow> (berror option \<times> SecretItem) \<times> InMemoryBackend" where
  "mem_Save it b =
     (if ID it = '''' then
        (let b' = b\<lparr>entropy := tl (entropy b)\<rparr> in
         case nextRand (entropy b) of
           None \<Rightarrow> ((Some ErrRandID, it), b')
         | Some buf \<Rightarrow>
             (let it' = it\<lparr>ID := hexEncode buf\<rparr>
              in ((None, it'), b'\<lparr>items := mput (items b') (ID it') it'\<rparr>)))
      else ((None, it), b\<lparr>items := mput (items b) (ID it) it\<rparr>))"

definition mem_Delete :: "string \<Rightarrow> InMemoryBackend \<Rightarrow> berror option \<times> InMemoryBackend" where
  "mem_Delete i b =
     (case mget (items b) i of
        None \<Rightarrow> (Some ErrNotFound, b)
      | Some _ \<Rightarrow> (None, b\<lparr>items := mdel (items b) i\<rparr>))"

definition mem_List :: "(string \<times> SecretItem) order \<Rightarrow> InMemoryBackend \<Rightarrow> SecretItem list" where
  "mem_List ord b = map snd (ord (items b))"

definition mem_LoadMetadata ::
    "(string \<times> SecretItem) order \<Rightarrow> InMemoryBackend \<Rightarrow> (berror + SecretItem list) \<times> InMemoryBackend" where
  "mem_LoadMetadata ord b = (Inr (map (\<lambda>(_, it). withoutSecret it) (ord (items b))), b)"

definition inMemoryRaw :: "(string \<times> SecretItem) order \<Rightarrow> InMemoryBackend RawStorageBackend" where
  "inMemoryRaw ord =
     \<lparr>rawGet = mem_Get, rawSave = mem_Save, rawDelete = mem_Delete,
      rawLoadMetadata = mem_LoadMetadata ord, rawCheckAuth = None\<rparr>"

subsection \<open>Items: lemmas\<close>

lemma copySecretItem_sel [simp]:
  "ID (copySecretItem it) = ID it" "Label (copySecretItem it) = Label it"
  "Attributes (copySecretItem it) = Attributes it"
  "Secret (copySecretItem it) = copyBytes (Secret it)"
  by (simp_all add: copySecretItem_def copyAttributes_def)

lemma withoutSecret_sel [simp]:
  "ID (withoutSecret it) = ID it" "Label (withoutSecret it) = Label it"
  "Attributes (withoutSecret it) = Attributes it" "Secret (withoutSecret it) = None"
  by (simp_all add: withoutSecret_def)

lemma copyBytes_idem [simp]: "copyBytes (copyBytes s) = copyBytes s"
  by (simp add: copyBytes_def split: option.split)

lemma withoutSecret_idem [simp]:
  "withoutSecret (withoutSecret it) = withoutSecret it"
  "withoutSecret (copySecretItem it) = withoutSecret it"
  by (simp_all add: withoutSecret_def copySecretItem_def copyAttributes_def copyBytes_def)

lemma withoutSecret_ID [simp]: "withoutSecret (it\<lparr>ID := i\<rparr>) = (withoutSecret it)\<lparr>ID := i\<rparr>"
  by (simp add: withoutSecret_def copySecretItem_def)

lemma attributesMatch_iff:
  "attributesMatch got want \<longleftrightarrow> (\<forall>(k, v) \<in> set want. mgetZ got k = v)"
  by (induction got want rule: attributesMatch.induct) auto

lemma attributesMatch_refl: "mwf attrs \<Longrightarrow> attributesMatch attrs attrs"
  by (auto simp: attributesMatch_iff mgetZ_def split: option.splits)

lemma length_pendingIDPrefix [simp]: "length pendingIDPrefix = 8"
  by (simp add: pendingIDPrefix_def)

lemma newPendingID_pending: "newPendingID rnd = Inr i \<Longrightarrow> isPendingID i \<and> i \<noteq> ''''"
  by (auto simp: newPendingID_def isPendingID_def pendingIDPrefix_def hasPrefix_def split: option.splits)

lemma isPendingID_nonempty: "isPendingID i \<Longrightarrow> i \<noteq> ''''"
  by (auto simp: isPendingID_def pendingIDPrefix_def hasPrefix_def)

lemma search_loop_eq:
  "search_loop attributes matched kvs =
     matched @ filter (\<lambda>it. attributesMatch (Attributes it) attributes) (map snd kvs)"
  by (induction attributes matched kvs rule: search_loop.induct) auto

lemma mem_Search_eq:
  "mem_Search ord attributes b =
     filter (\<lambda>it. attributesMatch (Attributes it) attributes) (map snd (ord (items b)))"
  by (simp add: mem_Search_def search_loop_eq)

subsection \<open>The contract of a raw backend\<close>

text \<open>
  \<open>contents\<close> is what the backend durably holds, by identifier. The laws: reading returns what
  is held; saving stores the item under its identifier, which the backend chooses when the item
  has none; deleting removes; a failed call changes nothing that is held; the metadata listing
  is the held items without their secrets.
\<close>

locale raw_storage =
  fixes R :: "'r RawStorageBackend"
    and contents :: "'r \<Rightarrow> string \<Rightarrow> SecretItem option"
    and ok :: "'r \<Rightarrow> bool"
  assumes held_id: "ok r \<Longrightarrow> contents r i = Some it \<Longrightarrow> ID it = i"
    and get_held: "ok r \<Longrightarrow> rawGet R i r = (Inr it, r') \<Longrightarrow> contents r i = Some it"
    and get_missing: "ok r \<Longrightarrow> rawGet R i r = (Inl ErrNotFound, r') \<Longrightarrow> contents r i = None"
    and get_frame: "ok r \<Longrightarrow> rawGet R i r = (res, r') \<Longrightarrow> ok r' \<and> contents r' = contents r"
    and save_ok: "ok r \<Longrightarrow> rawSave R it r = ((None, it'), r') \<Longrightarrow>
      ok r' \<and> contents r' = (contents r)(ID it' \<mapsto> it') \<and> it' = it\<lparr>ID := ID it'\<rparr>
      \<and> ID it' \<noteq> '''' \<and> (ID it \<noteq> '''' \<longrightarrow> ID it' = ID it)"
    and save_failed: "ok r \<Longrightarrow> rawSave R it r = ((Some e, it'), r') \<Longrightarrow>
      ok r' \<and> contents r' = contents r"
    and delete_ok: "ok r \<Longrightarrow> rawDelete R i r = (None, r') \<Longrightarrow>
      ok r' \<and> contents r' = (contents r)(i := None)"
    and delete_missing: "ok r \<Longrightarrow> rawDelete R i r = (Some ErrNotFound, r') \<Longrightarrow> contents r i = None"
    and delete_failed: "ok r \<Longrightarrow> rawDelete R i r = (Some e, r') \<Longrightarrow> ok r' \<and> contents r' = contents r"
    and load_ok: "ok r \<Longrightarrow> rawLoadMetadata R r = (Inr xs, r') \<Longrightarrow>
      (\<forall>i m. map_of (map (\<lambda>x. (ID x, x)) xs) i = Some m
         \<longleftrightarrow> (\<exists>it. contents r i = Some it \<and> m = withoutSecret it))"
    and load_frame: "ok r \<Longrightarrow> rawLoadMetadata R r = (lres, r') \<Longrightarrow> ok r' \<and> contents r' = contents r"
    and auth_frame: "ok r \<Longrightarrow> rawCheckAuth R = Some check \<Longrightarrow> check r = (ares, r') \<Longrightarrow>
      ok r' \<and> contents r' = contents r"
begin

lemma delete_absent:
  assumes "ok r" "rawDelete R i r = (e, r')" "e = None \<or> e = Some ErrNotFound"
  shows "ok r'" "contents r' i = None" "j \<noteq> i \<Longrightarrow> contents r' j = contents r j"
  using assms delete_ok delete_missing delete_failed
  by (metis fun_upd_same fun_upd_other)+

lemma get_agrees:
  assumes "ok r" "rawGet R i r = (res, r')"
  shows "(\<exists>it. res = Inr it \<and> contents r i = Some it) \<or> (res = Inl ErrNotFound \<and> contents r i = None)
    \<or> (\<exists>e. res = Inl e \<and> e \<noteq> ErrNotFound)"
  using assms get_held get_missing by (cases res) metis+

end

text \<open>The in-memory backend keeps every item under its own identifier; the random source fills
  the eight bytes it is asked for, or fails.\<close>

definition mem_ok :: "InMemoryBackend \<Rightarrow> bool" where
  "mem_ok b \<longleftrightarrow> mwf (items b) \<and> (\<forall>(k, it) \<in> set (items b). ID it = k)
     \<and> (\<forall>buf. Some buf \<in> set (entropy b) \<longrightarrow> length buf = 8)"

definition mem_contents :: "InMemoryBackend \<Rightarrow> string \<Rightarrow> SecretItem option" where
  "mem_contents b = mget (items b)"

lemma mem_okD: "mem_ok b \<Longrightarrow> mget (items b) k = Some it \<Longrightarrow> ID it = k"
  using mget_SomeD unfolding mem_ok_def by fastforce

lemma mem_okI:
  "mwf (items b) \<Longrightarrow> (\<And>k it. mget (items b) k = Some it \<Longrightarrow> ID it = k)
    \<Longrightarrow> (\<And>buf. Some buf \<in> set (entropy b) \<Longrightarrow> length buf = 8) \<Longrightarrow> mem_ok b"
  unfolding mem_ok_def by auto

lemma mem_ok_put:
  "mem_ok b \<Longrightarrow> ID it = k \<Longrightarrow> set es \<subseteq> set (entropy b)
    \<Longrightarrow> mem_ok (b\<lparr>entropy := es, items := mput (items b) k it\<rparr>)"
  by (rule mem_okI) (auto simp: mem_ok_def dest: mem_okD split: if_splits)

lemma mem_ok_new: "(\<And>buf. Some buf \<in> set es \<Longrightarrow> length buf = 8) \<Longrightarrow> mem_ok (NewInMemoryBackend es)"
  by (auto simp: mem_ok_def NewInMemoryBackend_def)

lemma set_tl_subset: "set (tl xs) \<subseteq> set xs"
  by (cases xs) auto

lemma nextRand_Some: "nextRand es = Some buf \<Longrightarrow> Some buf \<in> set es"
  by (cases es) (auto simp: nextRand_def)

lemma hexEncode_nonempty: "b \<noteq> [] \<Longrightarrow> hexEncode b \<noteq> ''''"
  by (cases b) (auto simp: hexEncode_def)

lemma mem_LoadMetadata_map_of:
  assumes "order_ok ord" "mem_ok b"
  shows "map_of (map (\<lambda>x. (ID x, x)) (map (\<lambda>(_, it). withoutSecret it) (ord (items b)))) i =
    map_option withoutSecret (mget (items b) i)"
proof -
  have ids: "\<forall>(k, it) \<in> set (ord (items b)). ID it = k"
    using assms by (auto simp: mem_ok_def)
  then have "map (\<lambda>x. (ID x, x)) (map (\<lambda>(_, it). withoutSecret it) (ord (items b)))
      = map (\<lambda>(k, it). (k, withoutSecret it)) (ord (items b))"
    by (auto simp: map_eq_conv)
  moreover have "map_of (ord (items b)) = map_of (items b)"
  proof (rule map_of_eqI)
    have "mset (map fst (ord (items b))) = mset (map fst (items b))"
      using assms(1) by (simp add: order_ok_def)
    then have "mwf (ord (items b))"
      using assms(2) by (metis mem_ok_def mset_eq_imp_distinct_iff)
    then show "\<forall>k \<in> set (map fst (ord (items b))). map_of (ord (items b)) k = map_of (items b) k"
      using assms by (auto simp: mem_ok_def)
  qed (use assms in simp)
  ultimately show ?thesis
    by (simp only: map_of_map) simp
qed

text \<open>The contract holds whatever order the runtime iterates the map in.\<close>

lemma raw_storage_mem:
  assumes "order_ok ord"
  shows "raw_storage (inMemoryRaw ord) mem_contents mem_ok"
proof (unfold_locales, goal_cases)
  case 1 then show ?case by (auto simp: mem_contents_def dest: mem_okD)
next
  case 2 then show ?case
    by (auto simp: inMemoryRaw_def mem_Get_def mem_contents_def split: option.splits)
next
  case 3 then show ?case
    by (auto simp: inMemoryRaw_def mem_Get_def mem_contents_def split: option.splits)
next
  case 4 then show ?case
    by (auto simp: inMemoryRaw_def mem_Get_def split: option.splits)
next
  case (5 r it it' r')
  have "hexEncode buf \<noteq> ''''" if "nextRand (entropy r) = Some buf" for buf
    using 5 nextRand_Some [OF that] by (intro hexEncode_nonempty) (auto simp: mem_ok_def)
  then show ?case
    using 5 mem_ok_put [of r it "ID it" "entropy r"]
    by (auto simp: inMemoryRaw_def mem_Save_def Let_def mem_contents_def
        intro!: mem_ok_put dest: set_tl_subset [THEN subsetD] split: if_splits option.splits)
next
  case (6 r it e it' r') then show ?case
    using set_tl_subset [of "entropy r"]
    by (auto simp: inMemoryRaw_def mem_Save_def Let_def mem_contents_def mem_ok_def
        split: if_splits option.splits)
next
  case (7 r i r')
  then have r': "r' = r\<lparr>items := mdel (items r) i\<rparr>"
    by (auto simp: inMemoryRaw_def mem_Delete_def split: option.splits)
  have "mem_ok r'"
    unfolding r' by (rule mem_okI) (use 7 in \<open>auto simp: mem_ok_def dest: mem_okD split: if_splits\<close>)
  then show ?case by (auto simp: r' mem_contents_def)
next
  case 8 then show ?case
    by (auto simp: inMemoryRaw_def mem_Delete_def mem_contents_def split: option.splits)
next
  case 9 then show ?case
    by (auto simp: inMemoryRaw_def mem_Delete_def split: option.splits)
next
  case 10 then show ?case
    using mem_LoadMetadata_map_of [OF assms]
    by (auto simp: inMemoryRaw_def mem_LoadMetadata_def mem_contents_def)
next
  case 11 then show ?case
    by (auto simp: inMemoryRaw_def mem_LoadMetadata_def)
next
  case 12 then show ?case by (simp add: inMemoryRaw_def)
qed

text \<open>
  A backend that never fails a call for a reason of its own: reads of held items succeed and
  leave the backend as it is, and so does the listing.
\<close>

locale raw_storage_total = raw_storage +
  assumes get_total: "ok r \<Longrightarrow> rawGet R i r =
      ((case contents r i of None \<Rightarrow> Inl ErrNotFound | Some it \<Rightarrow> Inr it), r)"
    and delete_total: "ok r \<Longrightarrow> rawDelete R i r = (e, r') \<Longrightarrow> e = None \<or> e = Some ErrNotFound"
    and load_total: "ok r \<Longrightarrow> \<exists>xs. rawLoadMetadata R r = (Inr xs, r) \<and> distinct (map ID xs)"

lemma distinct_mem_listing:
  assumes "order_ok ord" "mem_ok b"
  shows "distinct (map ID (map (\<lambda>(_, it). withoutSecret it) (ord (items b))))"
proof -
  have "mset (map fst (ord (items b))) = mset (map fst (items b))"
    using assms(1) by (simp add: order_ok_def)
  then have "distinct (map fst (ord (items b)))"
    using assms(2) by (metis mem_ok_def mset_eq_imp_distinct_iff)
  moreover have "map ID (map (\<lambda>(_, it). withoutSecret it) (ord (items b))) = map fst (ord (items b))"
    using assms by (auto simp: mem_ok_def)
  ultimately show ?thesis by (simp only:)
qed

lemma raw_storage_total_mem:
  assumes "order_ok ord"
  shows "raw_storage_total (inMemoryRaw ord) mem_contents mem_ok"
proof (intro raw_storage_total.intro raw_storage_mem raw_storage_total_axioms.intro, goal_cases)
  case 1 then show ?case by (rule assms)
next
  case 2 then show ?case
    by (simp add: inMemoryRaw_def mem_Get_def mem_contents_def split: option.split)
next
  case 3 then show ?case
    by (auto simp: inMemoryRaw_def mem_Delete_def split: option.splits)
next
  case 4 then show ?case
    using distinct_mem_listing [OF assms] by (simp add: inMemoryRaw_def mem_LoadMetadata_def)
qed

interpretation mem: raw_storage_total "inMemoryRaw (\<lambda>xs. xs)" mem_contents mem_ok
  by (rule raw_storage_total_mem) simp

subsection \<open>Properties\<close>

text \<open>
  Attribute matching is the check that every wanted pair is found, a missing attribute
  reading as the empty string: the early-returning loop does not depend on the iteration order.
  In particular a wanted attribute with an empty value is matched by an item that does not have
  the attribute at all.
\<close>

theorem attributes_match_spec:
  "(attributesMatch got want \<longleftrightarrow>
     (\<forall>k v. (k, v) \<in> set want \<longrightarrow>
        mget got k = Some v \<or> (mget got k = None \<and> v = '''')))
   \<and> (mget got j = None \<longrightarrow> attributesMatch got [(j, '''')])"
proof -
  have "mgetZ got k = v \<longleftrightarrow> mget got k = Some v \<or> (mget got k = None \<and> v = '''')" for k v
    by (auto simp: mgetZ_def split: option.split)
  then show ?thesis by (auto simp: attributesMatch_iff)
qed

theorem attributes_match_spec_witness:
  "attributesMatch [(''user'', ''bob'')] [(''user'', ''bob''), (''host'', '''')]
   \<and> attributesMatch [(''user'', ''bob'')] [(''host'', '''')]"
  using attributes_match_spec [of "[(''user'', ''bob'')]" "[(''user'', ''bob''), (''host'', '''')]" "''host''"]
  by auto

text \<open>
  The in-memory backend is a store: on a backend whose items sit under their own
  identifiers, a successful \<open>Save\<close> puts the item under its identifier (one made from the
  random source when it had none), keeps every other item, and a later \<open>Get\<close>
  returns it; \<open>Delete\<close> of a held item makes \<open>Get\<close> answer \<open>ErrNotFound\<close> and keeps
  the others; \<open>Delete\<close> of a missing one answers \<open>ErrNotFound\<close> and changes nothing. The
  well-formedness is kept by both.
\<close>

theorem mem_backend_store:
  assumes "mem_ok b"
  shows "(\<forall>it it' b'. mem_Save it b = ((None, it'), b') \<longrightarrow>
      mem_ok b' \<and> mem_Get (ID it') b' = (Inr it', b') \<and> it' = it\<lparr>ID := ID it'\<rparr>
      \<and> (ID it \<noteq> '''' \<longrightarrow> ID it' = ID it)
      \<and> (\<forall>j. j \<noteq> ID it' \<longrightarrow> fst (mem_Get j b') = fst (mem_Get j b)))
    \<and> (\<forall>i held. mem_Get i b = (Inr held, b) \<longrightarrow>
      (\<exists>b'. mem_Delete i b = (None, b') \<and> mem_ok b' \<and> mem_Get i b' = (Inl ErrNotFound, b')
        \<and> (\<forall>j. j \<noteq> i \<longrightarrow> fst (mem_Get j b') = fst (mem_Get j b))))
    \<and> (\<forall>i. mem_Get i b = (Inl ErrNotFound, b) \<longrightarrow> mem_Delete i b = (Some ErrNotFound, b))"
proof (intro conjI allI impI)
  fix it it' b'
  assume "mem_Save it b = ((None, it'), b')"
  then have save: "rawSave (inMemoryRaw (\<lambda>xs. xs)) it b = ((None, it'), b')"
    by (simp add: inMemoryRaw_def)
  note law = mem.save_ok [OF assms save]
  show "mem_ok b'" "it' = it\<lparr>ID := ID it'\<rparr>" using law by auto
  show "mem_Get (ID it') b' = (Inr it', b')"
    using law by (simp add: mem_Get_def mem_contents_def)
  show "ID it' = ID it" if "ID it \<noteq> ''''" using law that by simp
  show "fst (mem_Get j b') = fst (mem_Get j b)" if "j \<noteq> ID it'" for j
    using law that by (simp add: mem_Get_def mem_contents_def split: option.split)
next
  fix i held
  assume "mem_Get i b = (Inr held, b)"
  then have del: "mem_Delete i b = (None, b\<lparr>items := mdel (items b) i\<rparr>)"
    by (simp add: mem_Delete_def mem_Get_def split: option.splits)
  then have raw: "rawDelete (inMemoryRaw (\<lambda>xs. xs)) i b = (None, b\<lparr>items := mdel (items b) i\<rparr>)"
    by (simp add: inMemoryRaw_def)
  from mem.delete_ok [OF assms raw] del
  show "\<exists>b'. mem_Delete i b = (None, b') \<and> mem_ok b' \<and> mem_Get i b' = (Inl ErrNotFound, b')
        \<and> (\<forall>j. j \<noteq> i \<longrightarrow> fst (mem_Get j b') = fst (mem_Get j b))"
    by (auto simp: mem_Get_def split: option.split)
next
  fix i
  assume "mem_Get i b = (Inl ErrNotFound, b)"
  then show "mem_Delete i b = (Some ErrNotFound, b)"
    by (simp add: mem_Delete_def mem_Get_def split: option.splits)
qed

theorem mem_backend_store_witness:
  "let it = \<lparr>ID = ''i'', Label = ''l'', Attributes = [], Secret = Some [1]\<rparr>;
       b = NewInMemoryBackend []; b' = snd (mem_Save it b)
   in mem_Get ''i'' b' = (Inr it, b') \<and> fst (mem_Get ''j'' b') = Inl ErrNotFound"
proof -
  let ?it = "\<lparr>ID = ''i'', Label = ''l'', Attributes = [], Secret = Some [1]\<rparr> :: SecretItem"
  let ?b = "NewInMemoryBackend []"
  have ok: "mem_ok ?b" by (rule mem_ok_new) simp
  have "mem_Save ?it ?b = ((None, ?it), snd (mem_Save ?it ?b))"
    by (simp add: mem_Save_def)
  with mem_backend_store [OF ok]
  have "mem_Get ''i'' (snd (mem_Save ?it ?b)) = (Inr ?it, snd (mem_Save ?it ?b))"
    and "fst (mem_Get ''j'' (snd (mem_Save ?it ?b))) = fst (mem_Get ''j'' ?b)"
    by fastforce+
  then show ?thesis by (simp add: Let_def mem_Get_def NewInMemoryBackend_def)
qed

text \<open>
  \<open>Search\<close> of the in-memory backend returns, in whatever order the map is iterated,
  each held item that matches exactly once and nothing else; and the metadata listing is the
  held items without their secrets.
\<close>

theorem mem_search_exact:
  assumes "order_ok ord"
  shows "mset (mem_Search ord attrs b) =
      filter_mset (\<lambda>it. attributesMatch (Attributes it) attrs) (mset (map snd (items b)))
    \<and> mset (mem_List ord b) = mset (map snd (items b))
    \<and> (\<exists>ms. mem_LoadMetadata ord b = (Inr ms, b) \<and> mset ms = mset (map (withoutSecret \<circ> snd) (items b)))"
proof -
  have ord: "mset (ord (items b)) = mset (items b)"
    using assms by (simp add: order_ok_def)
  have eq: "(\<lambda>(_, it). withoutSecret it) = withoutSecret \<circ> snd"
    by (auto simp: fun_eq_iff)
  show ?thesis
    by (simp add: mem_Search_eq mem_List_def mem_LoadMetadata_def mset_filter ord eq)
qed

theorem mem_search_exact_witness:
  "mset (mem_Search rev [(''a'', ''1'')]
      \<lparr>items = [(''i'', \<lparr>ID = ''i'', Label = [], Attributes = [(''a'', ''1'')], Secret = None\<rparr>),
                (''j'', \<lparr>ID = ''j'', Label = [], Attributes = [], Secret = None\<rparr>)], entropy = []\<rparr>)
   = {#\<lparr>ID = ''i'', Label = [], Attributes = [(''a'', ''1'')], Secret = None\<rparr>#}"
  using mem_search_exact [OF order_ok_rev, of "[(''a'', ''1'')]"
      "\<lparr>items = [(''i'', \<lparr>ID = ''i'', Label = [], Attributes = [(''a'', ''1'')], Secret = None\<rparr>),
                (''j'', \<lparr>ID = ''j'', Label = [], Attributes = [], Secret = None\<rparr>)], entropy = []\<rparr>"]
  by (simp add: mgetZ_def)

end
