(* ===== verification/Keyring_Op_Tags.thy ===== *)
theory Keyring_Op_Tags
  imports Keyring_Backend "HOL-Library.Char_ord" "HOL-Library.List_Lexorder"
begin

text \<open>
  The metadata tags of the 1Password backend (\<^verbatim>\<open>cmd/wsl-keyring/backend_op.go\<close>): item
  attributes are stored as tags \<^verbatim>\<open>wsl-keyring-attr:<key>=<value>\<close> with both parts in
  unpadded URL-safe base64, next to a base tag and a version tag, and read back from the item
  listing. The base64 codec of the standard library is modelled on strings.
\<close>

subsection \<open>Unpadded URL-safe base64\<close>

definition b64Alphabet :: string where
  "b64Alphabet = ''ABCDEFGHIJKLMNOPQRSTUVWXYZabcdefghijklmnopqrstuvwxyz0123456789-_''"

definition b64Digit :: "nat \<Rightarrow> char" where
  "b64Digit n = b64Alphabet ! n"

definition b64Value :: "char \<Rightarrow> nat option" where
  "b64Value c =
     (let i = length (takeWhile (\<lambda>x. x \<noteq> c) b64Alphabet)
      in if i < 64 then Some i else None)"

text \<open>Three bytes give four six-bit digits; a rest of one or two bytes gives two or three.\<close>

fun sextets :: "nat list \<Rightarrow> nat list" where
  "sextets [] = []"
| "sextets [a] = [a div 4, a mod 4 * 16]"
| "sextets [a, b] = [a div 4, a mod 4 * 16 + b div 16, b mod 16 * 4]"
| "sextets (a # b # c # r) =
     a div 4 # (a mod 4 * 16 + b div 16) # (b mod 16 * 4 + c div 64) # (c mod 64) # sextets r"

fun unsextets :: "nat list \<Rightarrow> nat list option" where
  "unsextets [] = Some []"
| "unsextets [s] = None"
| "unsextets [s, t] = Some [s * 4 + t div 16]"
| "unsextets [s, t, u] = Some [s * 4 + t div 16, t mod 16 * 16 + u div 4]"
| "unsextets (s # t # u # v # r) =
     map_option (\<lambda>rest. (s * 4 + t div 16) # (t mod 16 * 16 + u div 4) # (u mod 4 * 64 + v) # rest)
       (unsextets r)"

definition b64Encode :: "string \<Rightarrow> string" where
  "b64Encode s = map b64Digit (sextets (map of_char s))"

text \<open>The decoder skips carriage returns and newlines, refuses any other character outside
  the alphabet and a lone trailing digit, and ignores left-over bits of the last digit.\<close>

fun b64Values :: "string \<Rightarrow> nat list option" where
  "b64Values [] = Some []"
| "b64Values (c # cs) =
     (if c = CHR 0x0A \<or> c = CHR 0x0D then b64Values cs
      else case b64Value c of
             None \<Rightarrow> None
           | Some v \<Rightarrow> map_option (Cons v) (b64Values cs))"

definition b64Decode :: "string \<Rightarrow> string option" where
  "b64Decode s =
     (case b64Values s of
        None \<Rightarrow> None
      | Some vs \<Rightarrow> map_option (map char_of) (unsextets vs))"

subsection \<open>Tags\<close>

record opListItem =
  opl_ID :: string
  opl_Title :: string
  opl_Tags :: "string list"

definition opBaseTag :: string where "opBaseTag = ''wsl-keyring''"
definition opMetaTag :: string where "opMetaTag = ''wsl-keyring-meta-v1''"
definition opAttributeTag :: string where "opAttributeTag = ''wsl-keyring-attr:''"
definition opTagSeparator :: char where "opTagSeparator = CHR ''=''"

definition decodeOPAttributeTag :: "string \<Rightarrow> (string \<times> string) option" where
  "decodeOPAttributeTag tag =
     (case cutPrefix tag opAttributeTag of
        None \<Rightarrow> None
      | Some raw \<Rightarrow>
          (case cutChar raw opTagSeparator of
             None \<Rightarrow> None
           | Some (encodedKey, encodedValue) \<Rightarrow>
               (case b64Decode encodedKey of
                  None \<Rightarrow> None
                | Some key \<Rightarrow>
                    (case b64Decode encodedValue of
                       None \<Rightarrow> None
                     | Some val \<Rightarrow> Some (key, val)))))"

fun metadata_loop :: "bool \<Rightarrow> (string, string) gomap \<Rightarrow> string list
    \<Rightarrow> bool \<times> (string, string) gomap" where
  "metadata_loop hasMetadata attrs [] = (hasMetadata, attrs)"
| "metadata_loop hasMetadata attrs (tag # tags) =
     (if tag = opMetaTag then metadata_loop True attrs tags
      else case decodeOPAttributeTag tag of
             None \<Rightarrow> metadata_loop hasMetadata attrs tags
           | Some (key, val) \<Rightarrow> metadata_loop True (mput attrs key val) tags)"

definition metadataFromOPListItem :: "opListItem \<Rightarrow> SecretItem \<times> bool" where
  "metadataFromOPListItem listItem =
     (let (hasMetadata, attrs) = metadata_loop False [] (opl_Tags listItem)
      in (\<lparr>ID = opl_ID listItem, Label = opl_Title listItem, Attributes = attrs, Secret = None\<rparr>,
          hasMetadata))"

definition attributeTag :: "(string, string) gomap \<Rightarrow> string \<Rightarrow> string" where
  "attributeTag attributes key =
     opAttributeTag @ b64Encode key @ [opTagSeparator] @ b64Encode (mgetZ attributes key)"

definition buildOPMetadataTags :: "(string, string) gomap \<Rightarrow> string list" where
  "buildOPMetadataTags attributes =
     [opBaseTag, opMetaTag] @ map (attributeTag attributes) (sort (map fst attributes))"

fun merge_existing :: "string list \<Rightarrow> string list \<Rightarrow> string list" where
  "merge_existing tags [] = tags"
| "merge_existing tags (tag # existing) =
     (if tag = opMetaTag \<or> hasPrefix tag opAttributeTag then merge_existing tags existing
      else if tag = '''' \<or> tag \<in> set tags then merge_existing tags existing
      else merge_existing (tags @ [tag]) existing)"

fun merge_built :: "string list \<Rightarrow> string list \<Rightarrow> string list" where
  "merge_built tags [] = tags"
| "merge_built tags (tag # built) =
     (if tag \<in> set tags then merge_built tags built else merge_built (tags @ [tag]) built)"

definition mergeOPMetadataTags :: "string list \<Rightarrow> (string, string) gomap \<Rightarrow> string list" where
  "mergeOPMetadataTags existing attributes =
     sort (merge_built (merge_existing [] existing) (buildOPMetadataTags attributes))"

subsection \<open>Base64: lemmas\<close>

lemma b64Alphabet_props: "length b64Alphabet = 64" "distinct b64Alphabet"
  by (simp_all add: b64Alphabet_def)

lemma b64Value_Digit: "n < 64 \<Longrightarrow> b64Value (b64Digit n) = Some n"
proof -
  assume n: "n < 64"
  then have "takeWhile (\<lambda>x. x \<noteq> b64Alphabet ! n) b64Alphabet = take n b64Alphabet"
    using b64Alphabet_props
    by (intro takeWhile_eq_take_P_nth) (auto simp: nth_eq_iff_index_eq)
  then show ?thesis
    using n b64Alphabet_props(1) by (simp add: b64Value_def b64Digit_def Let_def)
qed

lemma b64Digit_plain:
  assumes "n < 64"
  shows "b64Digit n \<noteq> CHR 0x0A" "b64Digit n \<noteq> CHR 0x0D" "b64Digit n \<noteq> CHR ''=''" "b64Digit n \<noteq> CHR '',''"
proof -
  have "b64Digit n \<in> set b64Alphabet"
    using assms b64Alphabet_props(1) by (simp add: b64Digit_def)
  moreover have "CHR 0x0A \<notin> set b64Alphabet" "CHR 0x0D \<notin> set b64Alphabet"
    "CHR ''='' \<notin> set b64Alphabet" "CHR '','' \<notin> set b64Alphabet"
    by (simp_all add: b64Alphabet_def)
  ultimately show "b64Digit n \<noteq> CHR 0x0A" "b64Digit n \<noteq> CHR 0x0D"
    "b64Digit n \<noteq> CHR ''=''" "b64Digit n \<noteq> CHR '',''" by auto
qed

lemma sextets_bounds: "\<forall>a \<in> set bs. a < 256 \<Longrightarrow> \<forall>s \<in> set (sextets bs). s < 64"
  by (induction bs rule: sextets.induct) auto

text \<open>Joining the digits back: the three bytes of a group, also with absent bytes as 0.\<close>

lemma sextet_arith:
  fixes a b c :: nat
  shows "b < 256 \<Longrightarrow> a div 4 * 4 + (a mod 4 * 16 + b div 16) div 16 = a"
    and "b < 256 \<Longrightarrow> c < 256 \<Longrightarrow>
      (a mod 4 * 16 + b div 16) mod 16 * 16 + (b mod 16 * 4 + c div 64) div 4 = b"
    and "c < 256 \<Longrightarrow> (b mod 16 * 4 + c div 64) mod 4 * 64 + c mod 64 = c"
proof -
  assume "b < 256"
  then have "(a mod 4 * 16 + b div 16) div 16 = a mod 4" by simp
  then show "a div 4 * 4 + (a mod 4 * 16 + b div 16) div 16 = a" by simp
next
  assume "b < 256" "c < 256"
  then have "(a mod 4 * 16 + b div 16) mod 16 = b div 16"
    and "(b mod 16 * 4 + c div 64) div 4 = b mod 16" by simp_all
  then show "(a mod 4 * 16 + b div 16) mod 16 * 16 + (b mod 16 * 4 + c div 64) div 4 = b" by simp
next
  assume "c < 256"
  then have "(b mod 16 * 4 + c div 64) mod 4 = c div 64" by simp
  then show "(b mod 16 * 4 + c div 64) mod 4 * 64 + c mod 64 = c" by simp
qed

lemma unsextets_sextets: "\<forall>a \<in> set bs. a < 256 \<Longrightarrow> unsextets (sextets bs) = Some bs"
proof (induction bs rule: sextets.induct)
  case (2 a)
  then show ?case using sextet_arith(1) [of 0 a] by simp
next
  case (3 a b)
  then show ?case using sextet_arith(1) [of b a] sextet_arith(2) [of b 0 a] by simp
next
  case (4 a b c r)
  then show ?case
    using sextet_arith(1) [of b a] sextet_arith(2) [of b c a] sextet_arith(3) [of c b] by simp
qed simp

lemma b64Values_digits: "\<forall>s \<in> set ss. s < 64 \<Longrightarrow> b64Values (map b64Digit ss) = Some ss"
  by (induction ss) (simp_all add: b64Digit_plain b64Value_Digit)

lemma b64_bytes: "\<forall>a \<in> set (map of_char s). (a::nat) < 256"
  by auto

lemma b64Decode_Encode [simp]: "b64Decode (b64Encode s) = Some s"
  using b64_bytes [of s] sextets_bounds [OF b64_bytes, of s]
  by (simp add: b64Decode_def b64Encode_def b64Values_digits unsextets_sextets comp_def)

lemma b64Encode_plain: "c \<in> set (b64Encode s) \<Longrightarrow> c \<noteq> CHR ''='' \<and> c \<noteq> CHR '',''"
  using sextets_bounds [OF b64_bytes, of s] b64Digit_plain by (auto simp: b64Encode_def)

subsection \<open>Tags: lemmas\<close>

lemma opAttributeTag_not_meta: "opAttributeTag @ s \<noteq> opMetaTag" "opAttributeTag @ s \<noteq> opBaseTag"
  by (simp_all add: opAttributeTag_def opMetaTag_def opBaseTag_def)

lemma attributeTag_prefix [simp]: "hasPrefix (attributeTag attrs k) opAttributeTag"
  by (simp add: attributeTag_def)

lemma attributeTag_not_meta [simp]: "attributeTag attrs k \<noteq> opMetaTag" "attributeTag attrs k \<noteq> opBaseTag"
  by (simp_all add: attributeTag_def opAttributeTag_not_meta)

lemma decode_attributeTag [simp]:
  "decodeOPAttributeTag (attributeTag attrs k) = Some (k, mgetZ attrs k)"
proof -
  have "cutChar (b64Encode k @ opTagSeparator # b64Encode (mgetZ attrs k)) opTagSeparator
      = Some (b64Encode k, b64Encode (mgetZ attrs k))"
    using b64Encode_plain [of opTagSeparator k] by (intro cutChar_append) (auto simp: opTagSeparator_def)
  then show ?thesis
    by (simp add: decodeOPAttributeTag_def attributeTag_def)
qed

lemma decode_prefix: "decodeOPAttributeTag tag = Some kv \<Longrightarrow> hasPrefix tag opAttributeTag"
  by (auto simp: decodeOPAttributeTag_def cutPrefix_def split: option.splits if_splits)

lemma decode_no_prefix: "\<not> hasPrefix tag opAttributeTag \<Longrightarrow> decodeOPAttributeTag tag = None"
  using decode_prefix by (cases "decodeOPAttributeTag tag") auto

lemma not_prefix_base_meta: "\<not> hasPrefix opBaseTag opAttributeTag" "\<not> hasPrefix opMetaTag opAttributeTag"
  by (simp_all add: hasPrefix_def opBaseTag_def opMetaTag_def opAttributeTag_def)

lemma attributeTag_inj: "attributeTag attrs k = attributeTag attrs k' \<longleftrightarrow> k = k'"
  by (metis decode_attributeTag option.inject prod.inject)

text \<open>
  Reading a tag list whose attribute tags all come from \<open>attrs\<close>: the result agrees with
  \<open>attrs\<close> on the keys that have a tag, and with the accumulator elsewhere.
\<close>

lemma metadata_loop_tags:
  assumes "\<forall>t \<in> set tags. hasPrefix t opAttributeTag \<longrightarrow> (\<exists>k. t = attributeTag attrs k)"
  shows "metadata_loop h acc tags = (h', acc') \<Longrightarrow>
    (h' \<longleftrightarrow> h \<or> opMetaTag \<in> set tags \<or> (\<exists>k. attributeTag attrs k \<in> set tags))
    \<and> (\<forall>k. mget acc' k = (if attributeTag attrs k \<in> set tags then Some (mgetZ attrs k) else mget acc k))"
  using assms
proof (induction tags arbitrary: h acc)
  case (Cons t tags)
  consider (meta) "t = opMetaTag" | (attr) k where "t \<noteq> opMetaTag" "t = attributeTag attrs k"
    | (other) "t \<noteq> opMetaTag" "\<not> hasPrefix t opAttributeTag"
    using Cons.prems(2) by auto
  then show ?case
  proof cases
    case meta
    then show ?thesis using Cons by simp metis
  next
    case attr
    then show ?thesis using Cons.IH [of True "mput acc k (mgetZ attrs k)"] Cons.prems
      by (simp add: attributeTag_inj) metis
  next
    case other
    then have "t \<noteq> attributeTag attrs k" for k by auto
    with other show ?thesis using Cons.IH [of h acc] Cons.prems
      by (simp add: decode_no_prefix) (metis (full_types))
  qed
qed simp

lemma metadata_of_tags:
  assumes "\<forall>t \<in> set tags. hasPrefix t opAttributeTag \<longrightarrow> t \<in> attributeTag attrs ` (fst ` set attrs)"
    and "attributeTag attrs ` (fst ` set attrs) \<subseteq> set tags" and "opMetaTag \<in> set tags"
  shows "\<exists>it. metadataFromOPListItem \<lparr>opl_ID = i, opl_Title = l, opl_Tags = tags\<rparr> = (it, True)
    \<and> ID it = i \<and> Label it = l \<and> Secret it = None \<and> mget (Attributes it) = mget attrs"
proof -
  obtain h acc where loop: "metadata_loop False [] tags = (h, acc)" by (cases "metadata_loop False [] tags")
  have "\<forall>t \<in> set tags. hasPrefix t opAttributeTag \<longrightarrow> (\<exists>k. t = attributeTag attrs k)"
    using assms(1) by blast
  note res = metadata_loop_tags [OF this loop]
  have mem: "attributeTag attrs k \<in> set tags \<longleftrightarrow> k \<in> fst ` set attrs" for k
  proof
    assume "attributeTag attrs k \<in> set tags"
    then obtain k' where "k' \<in> fst ` set attrs" "attributeTag attrs k = attributeTag attrs k'"
      using assms(1) attributeTag_prefix [of attrs k] by blast
    then show "k \<in> fst ` set attrs" by (simp add: attributeTag_inj)
  qed (use assms(2) in blast)
  have "mget acc k = mget attrs k" for k
  proof (cases "mget attrs k")
    case None
    then have "k \<notin> fst ` set attrs" by (simp add: map_of_eq_None_iff)
    then show ?thesis using res mem [of k] None by simp
  next
    case (Some v)
    then have "k \<in> fst ` set attrs" by (force dest: mget_SomeD)
    then show ?thesis using res mem [of k] Some by (simp add: mgetZ_def)
  qed
  then show ?thesis
    using res assms(3) loop by (simp add: metadataFromOPListItem_def Let_def fun_eq_iff)
qed

lemma set_buildOPMetadataTags:
  "set (buildOPMetadataTags attrs) = {opBaseTag, opMetaTag} \<union> attributeTag attrs ` (fst ` set attrs)"
  by (auto simp: buildOPMetadataTags_def)

lemma set_merge_existing:
  "set (merge_existing tags existing) = set tags \<union>
     {t \<in> set existing. t \<noteq> opMetaTag \<and> \<not> hasPrefix t opAttributeTag \<and> t \<noteq> ''''}"
  by (induction tags existing rule: merge_existing.induct) auto

lemma set_merge_built: "set (merge_built tags built) = set tags \<union> set built"
  by (induction tags built rule: merge_built.induct) auto

lemma distinct_merge:
  "distinct tags \<Longrightarrow> distinct (merge_existing tags existing)"
  "distinct tags \<Longrightarrow> distinct (merge_built tags built)"
  by (induction tags existing rule: merge_existing.induct; simp)
    (induction tags built rule: merge_built.induct; simp)

lemma attributeTag_no_comma: "CHR '','' \<notin> set (attributeTag attrs k)"
  using b64Encode_plain by (auto simp: attributeTag_def opAttributeTag_def opTagSeparator_def)

subsection \<open>Properties\<close>

text \<open>
  Attributes survive the tags: for every attribute map, reading an item listed with the
  tags \<open>buildOPMetadataTags\<close> made for it gives an item with metadata, the listed identifier
  and title, no secret, and exactly the same attributes, whatever bytes keys and values contain;
  and no tag contains the comma the command line joins tags with.
\<close>

theorem op_tags_roundtrip:
  "\<exists>it. metadataFromOPListItem
        \<lparr>opl_ID = i, opl_Title = l, opl_Tags = buildOPMetadataTags attrs\<rparr> = (it, True)
      \<and> ID it = i \<and> Label it = l \<and> Secret it = None \<and> mget (Attributes it) = mget attrs
      \<and> (\<nexists>t. t \<in> set (buildOPMetadataTags attrs) \<and> CHR '','' \<in> set t)"
proof -
  have "\<nexists>t. t \<in> set (buildOPMetadataTags attrs) \<and> CHR '','' \<in> set t"
    using attributeTag_no_comma
    by (auto simp: set_buildOPMetadataTags opBaseTag_def opMetaTag_def)
  moreover have "\<exists>it. metadataFromOPListItem
        \<lparr>opl_ID = i, opl_Title = l, opl_Tags = buildOPMetadataTags attrs\<rparr> = (it, True)
      \<and> ID it = i \<and> Label it = l \<and> Secret it = None \<and> mget (Attributes it) = mget attrs"
    by (rule metadata_of_tags) (auto simp: set_buildOPMetadataTags not_prefix_base_meta)
  ultimately show ?thesis by blast
qed

text \<open>
  Migrating an item's tags: the merged list is sorted and without duplicates, keeps every
  foreign non-empty tag of the item and no other, drops every stale metadata and attribute tag, and
  reading it gives exactly the new attributes.
\<close>

theorem op_merge_tags_correct:
  "sorted (mergeOPMetadataTags existing attrs) \<and> distinct (mergeOPMetadataTags existing attrs)
   \<and> set (mergeOPMetadataTags existing attrs) =
       {t \<in> set existing. t \<noteq> opMetaTag \<and> \<not> hasPrefix t opAttributeTag \<and> t \<noteq> ''''}
       \<union> set (buildOPMetadataTags attrs)
   \<and> (\<exists>it. metadataFromOPListItem
         \<lparr>opl_ID = i, opl_Title = l, opl_Tags = mergeOPMetadataTags existing attrs\<rparr> = (it, True)
       \<and> ID it = i \<and> Label it = l \<and> mget (Attributes it) = mget attrs)"
proof -
  have set: "set (mergeOPMetadataTags existing attrs) =
       {t \<in> set existing. t \<noteq> opMetaTag \<and> \<not> hasPrefix t opAttributeTag \<and> t \<noteq> ''''}
       \<union> set (buildOPMetadataTags attrs)"
    by (simp add: mergeOPMetadataTags_def set_merge_built set_merge_existing)
  have "\<exists>it. metadataFromOPListItem
         \<lparr>opl_ID = i, opl_Title = l, opl_Tags = mergeOPMetadataTags existing attrs\<rparr> = (it, True)
       \<and> ID it = i \<and> Label it = l \<and> Secret it = None \<and> mget (Attributes it) = mget attrs"
    by (rule metadata_of_tags) (auto simp: set set_buildOPMetadataTags not_prefix_base_meta)
  then show ?thesis
    using set by (auto simp: mergeOPMetadataTags_def distinct_merge)
qed

end
