(* ===== verification/Keyring_Cache.thy ===== *)
theory Keyring_Cache
  imports Keyring_Backend
begin

text \<open>
  The caching layer of the keyring (\<^verbatim>\<open>cmd/wsl-keyring/backend_cache.go\<close>): the state of
  \<^verbatim>\<open>CachedBackend\<close>, each section the code runs under one of its locks as one function on
  that state, and the calls that do not leave work behind (\<open>Get\<close>, \<open>List\<close>,
  \<open>Search\<close>, the synchronous \<open>Save\<close>) as compositions of them. The goroutines of the
  asynchronous \<open>Save\<close> are in \<open>Keyring_Async\<close>.

  Pointers that the code compares or shares are addresses: the pending-save states live in
  \<open>psHeap\<close> and a \<^verbatim>\<open>done\<close> channel is the flag of the state that owns it. A memguard
  buffer is a value with its liveness; \<open>dropped\<close> records the buffers the cache let go of, as
  they were at that moment. The third-party operations on buffers are parameters
  (\<open>newBuffer\<close>, \<open>destroyBuffer\<close>); \<open>memguard_ok\<close> states what the code relies on.
\<close>

subsection \<open>State\<close>

record BackendOptions =
  CacheSecrets :: bool
  CacheMetadata :: bool
  AsyncSave :: bool
  SecretCacheTTL :: duration
  AuthCheckMinSpacing :: duration
  AuthCheckTimeout :: duration
  SaveTimeout :: duration

record pendingSaveState =
  ps_done :: bool
  ps_prevDone :: "nat option"
  ps_deleted :: bool
  ps_superseded :: bool
  ps_isNew :: bool

record LockedBuffer =
  lb_alive :: bool
  lb_bytes :: bytes

record cachedSecretItem =
  cs_id :: string
  cs_label :: string
  cs_attributes :: "(string, string) gomap"
  cs_secret :: "LockedBuffer option"
  cs_expiresAt :: gotime

record CachedBackend =
  metaCache :: "(string, SecretItem) gomap"
  metaLoaded :: bool
  idAliases :: "(string, string) gomap"
  pendingSaves :: "(string, nat list) gomap"
  psHeap :: "pendingSaveState list"
  secretCache :: "(string, cachedSecretItem) gomap"
  dropped :: "LockedBuffer list"
  authCheckInFlight :: bool
  authCheckLastStarted :: gotime

text \<open>What a \<^verbatim>\<open>CachedBackend\<close> is built over and never changes.\<close>

record 'r cache_env =
  raw :: "'r RawStorageBackend"
  opts :: BackendOptions
  newBuffer :: "bytes \<Rightarrow> LockedBuffer option"
  destroyBuffer :: "LockedBuffer \<Rightarrow> LockedBuffer"

text \<open>The documented behaviour of memguard buffers: a buffer made from a non-empty slice is
  alive and holds its bytes, and a destroyed buffer is not alive.\<close>

definition memguard_ok :: "'r cache_env \<Rightarrow> bool" where
  "memguard_ok env \<longleftrightarrow>
     (\<forall>bs. bs \<noteq> [] \<longrightarrow> newBuffer env bs = Some \<lparr>lb_alive = True, lb_bytes = bs\<rparr>)
     \<and> (\<forall>lb. \<not> lb_alive (destroyBuffer env lb))"

definition second :: duration where
  "second = 1000000000"

definition defaultSecretCacheTTL :: duration where
  "defaultSecretCacheTTL = 60 * second"

definition defaultAuthCheckMinSpacing :: duration where
  "defaultAuthCheckMinSpacing = 5 * second"

definition defaultAuthCheckTimeout :: duration where
  "defaultAuthCheckTimeout = 2 * second"

definition defaultSaveTimeout :: duration where
  "defaultSaveTimeout = 30 * second"

text \<open>The zero \<^verbatim>\<open>time.Time\<close> is the origin of the time scale.\<close>

definition NewCachedBackend ::
    "'r RawStorageBackend \<Rightarrow> BackendOptions \<Rightarrow> (bytes \<Rightarrow> LockedBuffer option)
      \<Rightarrow> (LockedBuffer \<Rightarrow> LockedBuffer) \<Rightarrow> 'r cache_env \<times> CachedBackend" where
  "NewCachedBackend r o0 nb db =
     (let o1 = (if SecretCacheTTL o0 = 0 then o0\<lparr>SecretCacheTTL := defaultSecretCacheTTL\<rparr> else o0);
          o2 = (if AuthCheckMinSpacing o1 = 0
                then o1\<lparr>AuthCheckMinSpacing := defaultAuthCheckMinSpacing\<rparr> else o1);
          o3 = (if AuthCheckTimeout o2 = 0
                then o2\<lparr>AuthCheckTimeout := defaultAuthCheckTimeout\<rparr> else o2)
      in (\<lparr>raw = r, opts = o3, newBuffer = nb, destroyBuffer = db\<rparr>,
          \<lparr>metaCache = [], metaLoaded = False, idAliases = [], pendingSaves = [], psHeap = [],
           secretCache = [], dropped = [], authCheckInFlight = False,
           authCheckLastStarted = 0\<rparr>))"

definition saveTimeout :: "BackendOptions \<Rightarrow> duration" where
  "saveTimeout o0 = (if SaveTimeout o0 > 0 then SaveTimeout o0 else defaultSaveTimeout)"

subsection \<open>The secret cache\<close>

definition cs_destroy :: "'r cache_env \<Rightarrow> cachedSecretItem \<Rightarrow> cachedSecretItem" where
  "cs_destroy env c =
     (case cs_secret c of
        Some lb \<Rightarrow> if lb_alive lb then c\<lparr>cs_secret := Some (destroyBuffer env lb)\<rparr> else c
      | None \<Rightarrow> c)"

definition toSecretItem :: "cachedSecretItem \<Rightarrow> SecretItem" where
  "toSecretItem c =
     \<lparr>ID = cs_id c, Label = cs_label c, Attributes = copyAttributes (cs_attributes c),
      Secret = copyBytes (map_option lb_bytes (cs_secret c))\<rparr>"

text \<open>The buffer an entry holds when the cache lets go of the entry.\<close>

definition buffersOf :: "cachedSecretItem \<Rightarrow> LockedBuffer list" where
  "buffersOf c = (case cs_secret c of None \<Rightarrow> [] | Some lb \<Rightarrow> [lb])"

definition getCachedSecret ::
    "'r cache_env \<Rightarrow> gotime \<Rightarrow> string \<Rightarrow> CachedBackend \<Rightarrow> SecretItem option \<times> CachedBackend" where
  "getCachedSecret env now i b =
     (case mget (secretCache b) i of
        None \<Rightarrow> (None, b)
      | Some entry \<Rightarrow>
          if \<not> now < cs_expiresAt entry \<or>
             (case cs_secret entry of None \<Rightarrow> True | Some lb \<Rightarrow> \<not> lb_alive lb)
          then (None, b\<lparr>secretCache := mdel (secretCache b) i,
                        dropped := dropped b @ buffersOf (cs_destroy env entry)\<rparr>)
          else
            (let entry' = entry\<lparr>cs_expiresAt := now + SecretCacheTTL (opts env)\<rparr>
             in (Some (toSecretItem entry'), b\<lparr>secretCache := mput (secretCache b) i entry'\<rparr>)))"

definition storeSecretCache :: "'r cache_env \<Rightarrow> gotime \<Rightarrow> SecretItem \<Rightarrow> CachedBackend \<Rightarrow> CachedBackend" where
  "storeSecretCache env now it b =
     (case Secret it of
        None \<Rightarrow> b
      | Some secret \<Rightarrow>
          if ID it = '''' then b
          else
            case newBuffer env secret of
              None \<Rightarrow> b
            | Some buf \<Rightarrow>
                if \<not> lb_alive buf \<or> length (lb_bytes buf) \<noteq> length secret
                then b\<lparr>dropped := dropped b @ [destroyBuffer env buf]\<rparr>
                else
                  (let entry = \<lparr>cs_id = ID it, cs_label = Label it,
                                cs_attributes = copyAttributes (Attributes it),
                                cs_secret = Some buf, cs_expiresAt = now + SecretCacheTTL (opts env)\<rparr>;
                       gone = (case mget (secretCache b) (ID it) of
                                 None \<Rightarrow> [] | Some old \<Rightarrow> buffersOf (cs_destroy env old))
                   in b\<lparr>secretCache := mput (secretCache b) (ID it) entry,
                        dropped := dropped b @ gone\<rparr>))"

definition deleteSecretCache :: "'r cache_env \<Rightarrow> string \<Rightarrow> CachedBackend \<Rightarrow> CachedBackend" where
  "deleteSecretCache env i b =
     (case mget (secretCache b) i of
        None \<Rightarrow> b
      | Some entry \<Rightarrow> b\<lparr>secretCache := mdel (secretCache b) i,
                        dropped := dropped b @ buffersOf (cs_destroy env entry)\<rparr>)"

definition clearSecretCache :: "'r cache_env \<Rightarrow> CachedBackend \<Rightarrow> CachedBackend" where
  "clearSecretCache env b =
     b\<lparr>secretCache := [],
       dropped := dropped b @ concat (map (\<lambda>(_, entry). buffersOf (cs_destroy env entry)) (secretCache b))\<rparr>"

text \<open>
  The start of a background authentication check; the Boolean says whether a goroutine was
  started. \<open>finishAuthCheck\<close> is what that goroutine does with the check's result.
\<close>

definition checkAuthAfterCacheAccess ::
    "'r cache_env \<Rightarrow> gotime \<Rightarrow> CachedBackend \<Rightarrow> bool \<times> CachedBackend" where
  "checkAuthAfterCacheAccess env now b =
     (case rawCheckAuth (raw env) of
        None \<Rightarrow> (False, b)
      | Some _ \<Rightarrow>
          if authCheckInFlight b \<or>
             timeSub now (authCheckLastStarted b) < AuthCheckMinSpacing (opts env)
          then (False, b)
          else (True, b\<lparr>authCheckInFlight := True, authCheckLastStarted := now\<rparr>))"

definition finishAuthCheck :: "'r cache_env \<Rightarrow> berror option \<Rightarrow> CachedBackend \<Rightarrow> CachedBackend" where
  "finishAuthCheck env err b =
     (let b' = (case err of None \<Rightarrow> b | Some _ \<Rightarrow> clearSecretCache env b)
      in b'\<lparr>authCheckInFlight := False\<rparr>)"

subsection \<open>Identifiers and the metadata cache\<close>

definition resolveID :: "CachedBackend \<Rightarrow> string \<Rightarrow> string" where
  "resolveID b i = (case mget (idAliases b) i of Some realID \<Rightarrow> realID | None \<Rightarrow> i)"

fun cleanupAliases :: "string list \<Rightarrow> (string, string) gomap \<Rightarrow> (string, string) gomap" where
  "cleanupAliases [] aliases = aliases"
| "cleanupAliases (i # ids) aliases =
     (if i = '''' then cleanupAliases ids aliases
      else cleanupAliases ids (filter (\<lambda>(k, v). v \<noteq> i) (mdel aliases i)))"

definition evictItemFromCachesLocked :: "string \<Rightarrow> string \<Rightarrow> CachedBackend \<Rightarrow> CachedBackend" where
  "evictItemFromCachesLocked i resolvedID b =
     b\<lparr>metaCache := mdel (mdel (metaCache b) i) resolvedID,
       idAliases := cleanupAliases [i, resolvedID] (idAliases b)\<rparr>"

definition putMeta :: "SecretItem \<Rightarrow> CachedBackend \<Rightarrow> CachedBackend" where
  "putMeta it b = b\<lparr>metaCache := mput (metaCache b) (ID it) (withoutSecret it), metaLoaded := True\<rparr>"

definition cacheSavedItem :: "'r cache_env \<Rightarrow> gotime \<Rightarrow> SecretItem \<Rightarrow> CachedBackend \<Rightarrow> CachedBackend" where
  "cacheSavedItem env now it b =
     (if ID it = '''' then b
      else
        let b1 = (if CacheMetadata (opts env) then putMeta it b else b)
        in if CacheSecrets (opts env) then storeSecretCache env now it b1 else b1)"

fun installMeta :: "(string, SecretItem) gomap \<Rightarrow> SecretItem list \<Rightarrow> (string, SecretItem) gomap" where
  "installMeta m [] = m"
| "installMeta m (it # its) = installMeta (mput m (ID it) (withoutSecret it)) its"

text \<open>\<open>loadMetadataCache\<close>: the locked installation of what the raw backend listed.\<close>

definition installMetadataCache :: "SecretItem list \<Rightarrow> CachedBackend \<Rightarrow> CachedBackend" where
  "installMetadataCache its b = b\<lparr>metaCache := installMeta [] its, metaLoaded := True\<rparr>"

definition loadMetadataCache ::
    "'r cache_env \<Rightarrow> CachedBackend \<times> 'r \<Rightarrow> berror option \<times> CachedBackend \<times> 'r" where
  "loadMetadataCache env = (\<lambda>(b, r).
     if metaLoaded b then (None, b, r)
     else
       case rawLoadMetadata (raw env) r of
         (Inl e, r') \<Rightarrow> (Some e, b, r')
       | (Inr its, r') \<Rightarrow> (None, installMetadataCache its b, r'))"

definition copySecretItemsWithoutSecrets ::
    "(string \<times> SecretItem) order \<Rightarrow> (string, SecretItem) gomap \<Rightarrow> SecretItem list" where
  "copySecretItemsWithoutSecrets ord src = map (\<lambda>(_, it). withoutSecret it) (ord src)"

definition metadata ::
    "'r cache_env \<Rightarrow> (string \<times> SecretItem) order \<Rightarrow> CachedBackend \<times> 'r
      \<Rightarrow> (berror + SecretItem list) \<times> CachedBackend \<times> 'r" where
  "metadata env ord = (\<lambda>(b, r).
     if \<not> CacheMetadata (opts env) then
       (case rawLoadMetadata (raw env) r of (res, r') \<Rightarrow> (res, b, r'))
     else if metaLoaded b then (Inr (copySecretItemsWithoutSecrets ord (metaCache b)), b, r)
     else
       case loadMetadataCache env (b, r) of
         (Some e, b', r') \<Rightarrow> (Inl e, b', r')
       | (None, b', r') \<Rightarrow> (Inr (copySecretItemsWithoutSecrets ord (metaCache b')), b', r'))"

definition cb_Search ::
    "'r cache_env \<Rightarrow> (string \<times> SecretItem) order \<Rightarrow> (string, string) gomap \<Rightarrow> CachedBackend \<times> 'r
      \<Rightarrow> (berror + SecretItem list) \<times> CachedBackend \<times> 'r" where
  "cb_Search env ord attributes s =
     (case metadata env ord s of
        (Inl e, s') \<Rightarrow> (Inl e, s')
      | (Inr its, s') \<Rightarrow>
          (Inr (map withoutSecret (filter (\<lambda>it. attributesMatch (Attributes it) attributes) its)), s'))"

definition cb_List ::
    "'r cache_env \<Rightarrow> (string \<times> SecretItem) order \<Rightarrow> CachedBackend \<times> 'r
      \<Rightarrow> (berror + SecretItem list) \<times> CachedBackend \<times> 'r" where
  "cb_List env ord s =
     (case metadata env ord s of
        (Inl e, s') \<Rightarrow> (Inl e, s')
      | (Inr its, s') \<Rightarrow> (Inr (map withoutSecret its), s'))"

subsection \<open>Reading a secret\<close>

text \<open>\<open>now\<close> and \<open>now'\<close> are the clock readings of the lookup and of what follows it.\<close>

definition cb_Get ::
    "'r cache_env \<Rightarrow> gotime \<Rightarrow> gotime \<Rightarrow> string \<Rightarrow> CachedBackend \<times> 'r
      \<Rightarrow> (berror + SecretItem) \<times> CachedBackend \<times> 'r" where
  "cb_Get env now now' i0 = (\<lambda>(b, r).
     let i = resolveID b i0;
         (hit, b1) = (if CacheSecrets (opts env) then getCachedSecret env now i b else (None, b))
     in case hit of
          Some it \<Rightarrow> (Inr it, snd (checkAuthAfterCacheAccess env now' b1), r)
        | None \<Rightarrow>
            (case rawGet (raw env) i r of
               (Inl e, r') \<Rightarrow> (Inl e, b1, r')
             | (Inr it, r') \<Rightarrow>
                 (Inr (copySecretItem it),
                  (if CacheSecrets (opts env) then storeSecretCache env now' it b1 else b1), r')))"

subsection \<open>The synchronous save\<close>

text \<open>The item argument is a pointer: \<open>None\<close> is the nil pointer, and the item comes back with
  the identifier the call wrote into it.\<close>

definition cb_SaveSync ::
    "'r cache_env \<Rightarrow> gotime \<Rightarrow> SecretItem option \<Rightarrow> CachedBackend \<times> 'r
      \<Rightarrow> (berror option \<times> SecretItem option) \<times> CachedBackend \<times> 'r" where
  "cb_SaveSync env now arg = (\<lambda>(b, r).
     case arg of
       None \<Rightarrow> ((Some ErrNilItem, None), b, r)
     | Some it0 \<Rightarrow>
         (let i = (if ID it0 = '''' then ''''
                   else let i1 = resolveID b (ID it0) in if isPendingID i1 then '''' else i1);
              it = it0\<lparr>ID := i\<rparr>
          in case rawSave (raw env) it r of
               ((Some e, it'), r') \<Rightarrow> ((Some e, Some it'), b, r')
             | ((None, it'), r') \<Rightarrow> ((None, Some it'), cacheSavedItem env now it' b, r')))"

subsection \<open>Pending saves\<close>

text \<open>A missing key of a map of slices reads as the nil slice.\<close>

definition mgetL :: "('k, 'v list) gomap \<Rightarrow> 'k \<Rightarrow> 'v list" where
  "mgetL m k = (case mget m k of None \<Rightarrow> [] | Some xs \<Rightarrow> xs)"

text \<open>Writing a field of the states at some addresses.\<close>

definition updStates :: "(pendingSaveState \<Rightarrow> pendingSaveState) \<Rightarrow> nat list
    \<Rightarrow> pendingSaveState list \<Rightarrow> pendingSaveState list" where
  "updStates f as heap = fold (\<lambda>a h. h[a := f (h ! a)]) as heap"

text \<open>Allocates the state and returns its address.\<close>

definition addPendingSaveLocked :: "string \<Rightarrow> bool \<Rightarrow> CachedBackend \<Rightarrow> nat \<times> CachedBackend" where
  "addPendingSaveLocked key new b =
     (let existing = mgetL (pendingSaves b) key;
          heap = updStates (\<lambda>s. s\<lparr>ps_superseded := True\<rparr>) existing (psHeap b);
          st = \<lparr>ps_done = False,
                ps_prevDone = (if existing = [] then None else Some (last existing)),
                ps_deleted = False, ps_superseded = False, ps_isNew = new\<rparr>
      in (length (psHeap b),
          b\<lparr>psHeap := heap @ [st],
            pendingSaves := mput (pendingSaves b) key (existing @ [length (psHeap b)])\<rparr>))"

definition removePendingSaveFromKeyLocked ::
    "string \<Rightarrow> nat \<Rightarrow> CachedBackend \<Rightarrow> bool \<times> CachedBackend" where
  "removePendingSaveFromKeyLocked key a b =
     (let states = mgetL (pendingSaves b) key;
          found = (a \<in> set states);
          pend = (if found then mput (pendingSaves b) key (remove1 a states) else pendingSaves b);
          pend' = (if mgetL pend key = [] then mdel pend key else pend)
      in (found, b\<lparr>pendingSaves := pend'\<rparr>))"

text \<open>The fallback loop over all keys, which stops at the first that held the state.\<close>

fun removePendingFallback :: "string list \<Rightarrow> nat \<Rightarrow> CachedBackend \<Rightarrow> CachedBackend" where
  "removePendingFallback [] a b = b"
| "removePendingFallback (k # ks) a b =
     (case removePendingSaveFromKeyLocked k a b of
        (True, b') \<Rightarrow> b'
      | (False, b') \<Rightarrow> removePendingFallback ks a b')"

definition removePendingSaveLocked :: "string \<Rightarrow> nat \<Rightarrow> CachedBackend \<Rightarrow> CachedBackend" where
  "removePendingSaveLocked key a b =
     (case removePendingSaveFromKeyLocked key a b of
        (True, b1) \<Rightarrow> b1
      | (False, b1) \<Rightarrow>
          (case (case mget (idAliases b1) key of
                   Some realID \<Rightarrow>
                     if realID \<noteq> key then removePendingSaveFromKeyLocked realID a b1 else (False, b1)
                 | None \<Rightarrow> (False, b1)) of
             (True, b2) \<Rightarrow> b2
           | (False, b2) \<Rightarrow> removePendingFallback (map fst (pendingSaves b2)) a b2))"

definition markPendingSavesDeletedLocked :: "string \<Rightarrow> CachedBackend \<Rightarrow> CachedBackend" where
  "markPendingSavesDeletedLocked key b =
     b\<lparr>psHeap := updStates (\<lambda>s. s\<lparr>ps_deleted := True\<rparr>) (mgetL (pendingSaves b) key) (psHeap b)\<rparr>"

subsection \<open>Delete\<close>

text \<open>
  \<open>deleteBegin\<close> is the first locked section of \<open>Delete\<close>: it resolves the identifier and
  marks the pending saves of the identifier, of its resolution and of every alias of either.
  An identifier that stays pending is only evicted, without a call to the raw backend.
\<close>

definition markAliases :: "string \<Rightarrow> string \<Rightarrow> CachedBackend \<Rightarrow> CachedBackend" where
  "markAliases i resolvedID b =
     fold (\<lambda>(pending, target) b'.
             if target = i \<or> target = resolvedID then markPendingSavesDeletedLocked pending b' else b')
       (idAliases b) b"

definition evictAll :: "'r cache_env \<Rightarrow> string \<Rightarrow> string \<Rightarrow> CachedBackend \<Rightarrow> CachedBackend" where
  "evictAll env i resolvedID b =
     deleteSecretCache env resolvedID (deleteSecretCache env i (evictItemFromCachesLocked i resolvedID b))"

definition deleteMark :: "string \<Rightarrow> CachedBackend \<Rightarrow> CachedBackend" where
  "deleteMark i b =
     (let resolvedID = resolveID b i;
          b1 = markPendingSavesDeletedLocked i b;
          b2 = (if resolvedID \<noteq> i then markPendingSavesDeletedLocked resolvedID b1 else b1)
      in markAliases i resolvedID b2)"

definition deleteBegin :: "'r cache_env \<Rightarrow> string \<Rightarrow> CachedBackend \<Rightarrow> bool \<times> CachedBackend" where
  "deleteBegin env i b =
     (let resolvedID = resolveID b i; b3 = deleteMark i b
      in if isPendingID resolvedID then (False, evictAll env i resolvedID b3) else (True, b3))"

text \<open>What follows the call of the raw backend's \<open>Delete\<close>.\<close>

definition deleteFinish ::
    "'r cache_env \<Rightarrow> string \<Rightarrow> string \<Rightarrow> berror option \<Rightarrow> CachedBackend \<Rightarrow> berror option \<times> CachedBackend" where
  "deleteFinish env i resolvedID err b =
     (case err of
        None \<Rightarrow> (None, evictAll env i resolvedID b)
      | Some e \<Rightarrow> if e = ErrNotFound then (None, evictAll env i resolvedID b) else (Some e, b))"

definition cb_Delete ::
    "'r cache_env \<Rightarrow> string \<Rightarrow> CachedBackend \<times> 'r \<Rightarrow> berror option \<times> CachedBackend \<times> 'r" where
  "cb_Delete env i = (\<lambda>(b, r).
     let resolvedID = resolveID b i
     in case deleteBegin env i b of
          (False, b') \<Rightarrow> (None, b', r)
        | (True, b') \<Rightarrow>
            (case rawDelete (raw env) resolvedID r of
               (err, r') \<Rightarrow>
                 (case deleteFinish env i resolvedID err b' of (res, b'') \<Rightarrow> (res, b'', r'))))"

subsection \<open>The invariant of the caches\<close>

text \<open>
  Every metadata entry sits under its own identifier and has no secret; every secret entry sits
  under its own non-empty identifier and holds a live buffer; every buffer that left the cache
  has been destroyed.
\<close>

definition meta_wf :: "(string, SecretItem) gomap \<Rightarrow> bool" where
  "meta_wf m \<longleftrightarrow> mwf m \<and> (\<forall>k it. mget m k = Some it \<longrightarrow> ID it = k \<and> Secret it = None)"

definition entry_live :: "cachedSecretItem \<Rightarrow> bool" where
  "entry_live e \<longleftrightarrow> (\<exists>lb. cs_secret e = Some lb \<and> lb_alive lb)"

definition secret_wf :: "(string, cachedSecretItem) gomap \<Rightarrow> bool" where
  "secret_wf m \<longleftrightarrow> mwf m \<and> (\<forall>k e. mget m k = Some e \<longrightarrow> cs_id e = k \<and> k \<noteq> '''' \<and> entry_live e)"

definition cache_inv :: "CachedBackend \<Rightarrow> bool" where
  "cache_inv b \<longleftrightarrow> meta_wf (metaCache b) \<and> secret_wf (secretCache b)
     \<and> (\<forall>lb \<in> set (dropped b). \<not> lb_alive lb)"

named_theorems cache_intros \<open>preservation of the cache invariant\<close>

lemma meta_wf_Nil [simp]: "meta_wf []"
  by (simp add: meta_wf_def)

lemma meta_wf_put: "meta_wf m \<Longrightarrow> ID it = k \<Longrightarrow> Secret it = None \<Longrightarrow> meta_wf (mput m k it)"
  by (auto simp: meta_wf_def split: if_splits)

lemma meta_wf_del: "meta_wf m \<Longrightarrow> meta_wf (mdel m k)"
  by (auto simp: meta_wf_def split: if_splits)

lemma meta_wf_installMeta: "meta_wf m \<Longrightarrow> meta_wf (installMeta m its)"
  by (induction m its rule: installMeta.induct) (simp_all add: meta_wf_put)

lemma secret_wf_put: "secret_wf m \<Longrightarrow> cs_id e = k \<Longrightarrow> k \<noteq> '''' \<Longrightarrow> entry_live e \<Longrightarrow> secret_wf (mput m k e)"
  by (auto simp: secret_wf_def split: if_splits)

lemma secret_wf_del: "secret_wf m \<Longrightarrow> secret_wf (mdel m k)"
  by (auto simp: secret_wf_def split: if_splits)

lemma destroyed_dead: "memguard_ok env \<Longrightarrow> lb \<in> set (buffersOf (cs_destroy env e)) \<Longrightarrow> \<not> lb_alive lb"
  by (auto simp: buffersOf_def cs_destroy_def memguard_ok_def split: option.splits if_splits)

lemma cache_inv_new: "cache_inv (snd (NewCachedBackend r o0 nb db))"
  by (simp add: NewCachedBackend_def Let_def cache_inv_def meta_wf_def secret_wf_def)

lemma cache_inv_getCachedSecret [cache_intros]:
  assumes "memguard_ok env" "cache_inv b" "getCachedSecret env now i b = (res, b')"
  shows "cache_inv b'"
proof (cases "mget (secretCache b) i")
  case None
  then show ?thesis using assms by (simp add: getCachedSecret_def)
next
  case (Some e)
  have "entry_live e" "cs_id e = i" "i \<noteq> ''''"
    using assms(2) Some by (auto simp: cache_inv_def secret_wf_def)
  then have "secret_wf (mput (secretCache b) i (e\<lparr>cs_expiresAt := t\<rparr>))" for t
    using assms(2) by (intro secret_wf_put) (auto simp: cache_inv_def entry_live_def)
  then show ?thesis
    using assms Some destroyed_dead [OF assms(1), of _ e]
    by (auto simp: getCachedSecret_def cache_inv_def Let_def secret_wf_del split: if_splits)
qed

lemma cache_inv_storeSecretCache [cache_intros]:
  assumes "memguard_ok env" "cache_inv b"
  shows "cache_inv (storeSecretCache env now it b)"
proof -
  have "\<not> lb_alive (destroyBuffer env lb)" for lb
    using assms(1) by (simp add: memguard_ok_def)
  then show ?thesis
    using assms(2) destroyed_dead [OF assms(1)]
    by (auto simp: storeSecretCache_def cache_inv_def Let_def entry_live_def
        intro!: secret_wf_put split: option.splits)
qed

lemma cache_inv_deleteSecretCache [cache_intros]:
  "memguard_ok env \<Longrightarrow> cache_inv b \<Longrightarrow> cache_inv (deleteSecretCache env i b)"
  by (auto simp: deleteSecretCache_def cache_inv_def secret_wf_del
      dest: destroyed_dead split: option.splits)

lemma cache_inv_finishAuthCheck [cache_intros]:
  "memguard_ok env \<Longrightarrow> cache_inv b \<Longrightarrow> cache_inv (finishAuthCheck env err b)"
  by (auto simp: finishAuthCheck_def clearSecretCache_def cache_inv_def secret_wf_def
      dest: destroyed_dead split: option.splits)

lemma cache_inv_checkAuth [cache_intros]:
  "cache_inv b \<Longrightarrow> cache_inv (snd (checkAuthAfterCacheAccess env now b))"
  by (auto simp: checkAuthAfterCacheAccess_def cache_inv_def split: option.splits)

lemma cache_inv_putMeta [cache_intros]: "cache_inv b \<Longrightarrow> cache_inv (putMeta it b)"
  by (simp add: putMeta_def cache_inv_def meta_wf_put)

lemma cache_inv_cacheSavedItem [cache_intros]:
  "memguard_ok env \<Longrightarrow> cache_inv b \<Longrightarrow> cache_inv (cacheSavedItem env now it b)"
  by (simp add: cacheSavedItem_def Let_def cache_inv_putMeta cache_inv_storeSecretCache)

lemma cache_inv_evict [cache_intros]: "cache_inv b \<Longrightarrow> cache_inv (evictItemFromCachesLocked i j b)"
  by (simp add: evictItemFromCachesLocked_def cache_inv_def meta_wf_del)

lemma cache_inv_install [cache_intros]: "cache_inv b \<Longrightarrow> cache_inv (installMetadataCache its b)"
  by (simp add: installMetadataCache_def cache_inv_def meta_wf_installMeta)

lemma cache_inv_metadata:
  "cache_inv b \<Longrightarrow> metadata env ord (b, r) = (res, b', r') \<Longrightarrow> cache_inv b'"
  by (auto simp: metadata_def loadMetadataCache_def cache_inv_install
      split: if_splits prod.splits sum.splits option.splits)

lemma cache_inv_cb_Search:
  "cache_inv b \<Longrightarrow> cb_Search env ord attrs (b, r) = (res, b', r') \<Longrightarrow> cache_inv b'"
  by (auto simp: cb_Search_def dest: cache_inv_metadata split: prod.splits sum.splits)

lemma cache_inv_cb_List:
  "cache_inv b \<Longrightarrow> cb_List env ord (b, r) = (res, b', r') \<Longrightarrow> cache_inv b'"
  by (auto simp: cb_List_def dest: cache_inv_metadata split: prod.splits sum.splits)

lemma cache_inv_cb_Get:
  assumes "memguard_ok env" "cache_inv b" "cb_Get env now now' i (b, r) = (res, b', r')"
  shows "cache_inv b'"
  using assms cache_inv_getCachedSecret [OF assms(1,2)]
  by (auto simp: cb_Get_def Let_def cache_inv_checkAuth cache_inv_storeSecretCache
      split: prod.splits sum.splits option.splits if_splits)

lemma cache_inv_cb_SaveSync:
  "memguard_ok env \<Longrightarrow> cache_inv b \<Longrightarrow> cb_SaveSync env now arg (b, r) = (res, b', r') \<Longrightarrow> cache_inv b'"
  by (auto simp: cb_SaveSync_def Let_def cache_inv_cacheSavedItem
      split: option.splits prod.splits)

text \<open>The bookkeeping of pending saves does not touch the caches: what each section writes.\<close>

lemma removePendingFromKey_frame:
  "\<exists>p. snd (removePendingSaveFromKeyLocked k a b) = b\<lparr>pendingSaves := p\<rparr>"
  unfolding removePendingSaveFromKeyLocked_def Let_def snd_conv by (rule exI) (rule refl)

lemma removePendingFallback_frame: "\<exists>p. removePendingFallback ks a b = b\<lparr>pendingSaves := p\<rparr>"
proof (induction ks arbitrary: b)
  case Nil
  show ?case by (intro exI [of _ "pendingSaves b"]) simp
next
  case (Cons k ks)
  obtain found b' where k: "removePendingSaveFromKeyLocked k a b = (found, b')"
    by (cases "removePendingSaveFromKeyLocked k a b")
  obtain p where b': "b' = b\<lparr>pendingSaves := p\<rparr>"
    using removePendingFromKey_frame [of k a b] k by auto
  show ?case using Cons.IH [of b'] k b' by (cases found) auto
qed

lemma removePendingSaveLocked_frame: "\<exists>p. removePendingSaveLocked k a b = b\<lparr>pendingSaves := p\<rparr>"
proof -
  obtain f1 b1 where 1: "removePendingSaveFromKeyLocked k a b = (f1, b1)"
    by (cases "removePendingSaveFromKeyLocked k a b")
  obtain p1 where b1: "b1 = b\<lparr>pendingSaves := p1\<rparr>"
    using removePendingFromKey_frame [of k a b] 1 by auto
  define m where "m = (case mget (idAliases b1) k of
                   Some realID \<Rightarrow>
                     if realID \<noteq> k then removePendingSaveFromKeyLocked realID a b1 else (False, b1)
                 | None \<Rightarrow> (False, b1))"
  obtain f2 b2 where 2: "m = (f2, b2)" by (cases m)
  have "m = (False, b1) \<or> (\<exists>k'. m = removePendingSaveFromKeyLocked k' a b1)"
    by (auto simp: m_def split: option.split)
  then have "b2 = b1 \<or> (\<exists>k'. b2 = snd (removePendingSaveFromKeyLocked k' a b1))"
    using 2 by (metis snd_conv)
  then obtain p2 where b2: "b2 = b\<lparr>pendingSaves := p2\<rparr>"
    using b1 removePendingFromKey_frame [of _ a b1] by auto
  have "removePendingSaveLocked k a b =
      (if f1 then b1
       else case m of (True, b2) \<Rightarrow> b2
            | (False, b2) \<Rightarrow> removePendingFallback (map fst (pendingSaves b2)) a b2)"
    by (simp add: removePendingSaveLocked_def 1 m_def)
  then show ?thesis
    using b1 b2 removePendingFallback_frame [of "map fst (pendingSaves b2)" a b2]
    by (cases f1; cases f2) (auto simp: 2)
qed

lemma mark_frame: "\<exists>h. markPendingSavesDeletedLocked k b = b\<lparr>psHeap := h\<rparr>"
  by (auto simp: markPendingSavesDeletedLocked_def)

lemma fold_mark_frame:
  "\<exists>h. fold (\<lambda>(p, t) b'. if P t then markPendingSavesDeletedLocked p b' else b') xs b = b\<lparr>psHeap := h\<rparr>"
proof (induction xs arbitrary: b)
  case Nil
  show ?case by (intro exI [of _ "psHeap b"]) simp
next
  case (Cons x xs)
  obtain p t where x: "x = (p, t)" by (cases x)
  obtain h where "markPendingSavesDeletedLocked p b = b\<lparr>psHeap := h\<rparr>" using mark_frame by blast
  then show ?case
    using Cons.IH [of b] Cons.IH [of "b\<lparr>psHeap := h\<rparr>"] by (auto simp: x)
qed

lemma deleteMark_frame: "\<exists>h. deleteMark i b = b\<lparr>psHeap := h\<rparr>"
proof -
  obtain h1 where 1: "markPendingSavesDeletedLocked i b = b\<lparr>psHeap := h1\<rparr>" using mark_frame by blast
  obtain h2 where 2: "markPendingSavesDeletedLocked (resolveID b i) (b\<lparr>psHeap := h1\<rparr>) = b\<lparr>psHeap := h2\<rparr>"
    using mark_frame [of "resolveID b i" "b\<lparr>psHeap := h1\<rparr>"] by auto
  show ?thesis
    using fold_mark_frame [of "\<lambda>t. t = i \<or> t = resolveID b i" "idAliases b" "b\<lparr>psHeap := h1\<rparr>"]
      fold_mark_frame [of "\<lambda>t. t = i \<or> t = resolveID b i" "idAliases b" "b\<lparr>psHeap := h2\<rparr>"]
    by (auto simp: deleteMark_def Let_def markAliases_def 1 2)
qed

lemma addPending_frame:
  "\<exists>h p. snd (addPendingSaveLocked k new b) = b\<lparr>psHeap := h, pendingSaves := p\<rparr>"
  by (auto simp: addPendingSaveLocked_def Let_def)

lemma cache_inv_frame [simp]:
  "cache_inv (b\<lparr>pendingSaves := p\<rparr>) = cache_inv b" "cache_inv (b\<lparr>psHeap := h\<rparr>) = cache_inv b"
  "cache_inv (b\<lparr>idAliases := al\<rparr>) = cache_inv b"
  by (simp_all add: cache_inv_def)

lemma cache_inv_removePending [cache_intros]: "cache_inv b \<Longrightarrow> cache_inv (removePendingSaveLocked k a b)"
  using removePendingSaveLocked_frame [of k a b] by auto

lemma cache_inv_deleteMark [cache_intros]: "cache_inv b \<Longrightarrow> cache_inv (deleteMark i b)"
  using deleteMark_frame [of i b] by auto

lemma cache_inv_evictAll [cache_intros]:
  "memguard_ok env \<Longrightarrow> cache_inv b \<Longrightarrow> cache_inv (evictAll env i j b)"
  by (simp add: evictAll_def cache_inv_deleteSecretCache cache_inv_evict)

lemma cache_inv_deleteBegin:
  "memguard_ok env \<Longrightarrow> cache_inv b \<Longrightarrow> deleteBegin env i b = (f, b') \<Longrightarrow> cache_inv b'"
  by (auto simp: deleteBegin_def Let_def cache_inv_evictAll cache_inv_deleteMark split: if_splits)

lemma cache_inv_deleteFinish:
  "memguard_ok env \<Longrightarrow> cache_inv b \<Longrightarrow> deleteFinish env i j err b = (res, b') \<Longrightarrow> cache_inv b'"
  by (auto simp: deleteFinish_def cache_inv_evictAll split: if_splits option.splits)

lemma cache_inv_cb_Delete:
  assumes "memguard_ok env" "cache_inv b" "cb_Delete env i (b, r) = (res, b', r')"
  shows "cache_inv b'"
proof -
  obtain f b1 where beg: "deleteBegin env i b = (f, b1)" by (cases "deleteBegin env i b")
  obtain err r1 where del: "rawDelete (raw env) (resolveID b i) r = (err, r1)"
    by (cases "rawDelete (raw env) (resolveID b i) r")
  obtain res1 b2 where fin: "deleteFinish env i (resolveID b i) err b1 = (res1, b2)"
    by (cases "deleteFinish env i (resolveID b i) err b1")
  have "cache_inv b1" using cache_inv_deleteBegin [OF assms(1,2) beg] .
  moreover from cache_inv_deleteFinish [OF assms(1) this fin] have "cache_inv b2" .
  ultimately show ?thesis
    using assms(3) by (cases f) (auto simp: cb_Delete_def Let_def beg del fin)
qed

subsection \<open>What the operations do to the caches\<close>

lemma mget_installMeta:
  "mget (installMeta m its) i =
     (case mget (rev (map (\<lambda>x. (ID x, withoutSecret x)) its)) i of Some it \<Rightarrow> Some it | None \<Rightarrow> mget m i)"
  by (induction m its rule: installMeta.induct)
    (auto simp: map_add_def split: option.splits)

lemma secretCache_evict [simp]:
  "secretCache (evictItemFromCachesLocked i j b) = secretCache b"
  by (simp add: evictItemFromCachesLocked_def)

lemma deleteSecretCache_sel [simp]:
  "metaCache (deleteSecretCache env i b) = metaCache b"
  "metaLoaded (deleteSecretCache env i b) = metaLoaded b"
  "idAliases (deleteSecretCache env i b) = idAliases b"
  "pendingSaves (deleteSecretCache env i b) = pendingSaves b"
  "psHeap (deleteSecretCache env i b) = psHeap b"
  "mget (secretCache (deleteSecretCache env i b)) = (mget (secretCache b))(i := None)"
  by (auto simp: deleteSecretCache_def fun_eq_iff split: option.split)

lemma storeSecretCache_sel [simp]:
  "metaCache (storeSecretCache env now it b) = metaCache b"
  "metaLoaded (storeSecretCache env now it b) = metaLoaded b"
  "idAliases (storeSecretCache env now it b) = idAliases b"
  "pendingSaves (storeSecretCache env now it b) = pendingSaves b"
  "psHeap (storeSecretCache env now it b) = psHeap b"
  by (auto simp: storeSecretCache_def Let_def split: option.split)

lemma checkAuth_sel [simp]:
  "metaCache (snd (checkAuthAfterCacheAccess env now b)) = metaCache b"
  "metaLoaded (snd (checkAuthAfterCacheAccess env now b)) = metaLoaded b"
  "idAliases (snd (checkAuthAfterCacheAccess env now b)) = idAliases b"
  "pendingSaves (snd (checkAuthAfterCacheAccess env now b)) = pendingSaves b"
  "psHeap (snd (checkAuthAfterCacheAccess env now b)) = psHeap b"
  "secretCache (snd (checkAuthAfterCacheAccess env now b)) = secretCache b"
  by (auto simp: checkAuthAfterCacheAccess_def split: option.split)

text \<open>An item with a non-empty secret and an identifier is cached as it is.\<close>

lemma storeSecretCache_entry:
  assumes "memguard_ok env" "Secret it = Some s" "s \<noteq> []" "ID it \<noteq> ''''"
  shows "\<exists>e. mget (secretCache (storeSecretCache env now it b)) = (mget (secretCache b))(ID it \<mapsto> e)
    \<and> toSecretItem e = it \<and> cs_expiresAt e = now + SecretCacheTTL (opts env) \<and> entry_live e"
proof -
  have "newBuffer env s = Some \<lparr>lb_alive = True, lb_bytes = s\<rparr>"
    using assms(1,3) by (simp add: memguard_ok_def)
  then show ?thesis
    using assms by (auto simp: storeSecretCache_def Let_def toSecretItem_def copyAttributes_def
        copyBytes_def entry_live_def fun_eq_iff)
qed

lemma toSecretItem_expiry [simp]: "toSecretItem (e\<lparr>cs_expiresAt := t\<rparr>) = toSecretItem e"
  by (simp add: toSecretItem_def)

lemma getCachedSecret_hit:
  assumes "mget (secretCache b) i = Some e" "entry_live e" "now < cs_expiresAt e"
  shows "getCachedSecret env now i b =
    (Some (toSecretItem e),
     b\<lparr>secretCache := mput (secretCache b) i (e\<lparr>cs_expiresAt := now + SecretCacheTTL (opts env)\<rparr>)\<rparr>)"
  using assms by (auto simp: getCachedSecret_def entry_live_def Let_def)

lemma getCachedSecret_expired:
  assumes "mget (secretCache b) i = Some e" "\<not> now < cs_expiresAt e"
  shows "getCachedSecret env now i b =
    (None, b\<lparr>secretCache := mdel (secretCache b) i, dropped := dropped b @ buffersOf (cs_destroy env e)\<rparr>)"
  using assms by (simp add: getCachedSecret_def)

lemma getCachedSecret_absent:
  "mget (secretCache b) i = None \<Longrightarrow> getCachedSecret env now i b = (None, b)"
  by (simp add: getCachedSecret_def)

end
