(* ===== verification/Keyring_Refine.thy ===== *)
theory Keyring_Refine
  imports Keyring_Cache
begin

text \<open>
  The caching layer as a client sees it, in synchronous mode with both caches on: after a first
  listing, a sequence of calls on a \<^verbatim>\<open>CachedBackend\<close>, saving items that have a secret under real
  identifiers, gives the answers the raw backend gives (deleting a missing item apart), although
  secrets and metadata come from the caches. The argument is a coherence relation between the caches and
  what the raw backend holds, kept by every call; it is made once, in the locale
  \<open>raw_storage_total\<close>, and used for the in-memory backend.
\<close>

subsection \<open>Calls and answers\<close>

datatype kcall =
    KGet string
  | KSave SecretItem
  | KDelete string
  | KList
  | KSearch "(string, string) gomap"

datatype kres =
    RItem "berror + SecretItem"
  | RSaved "berror option" string
  | RDeleted "berror option"
  | RItems "berror + SecretItem multiset"

text \<open>One call on the cached backend; the two times are the clock readings of the call.\<close>

fun cached_call ::
    "'r cache_env \<Rightarrow> (string \<times> SecretItem) order \<Rightarrow> gotime \<times> gotime \<Rightarrow> kcall \<Rightarrow> CachedBackend \<times> 'r
      \<Rightarrow> kres \<times> CachedBackend \<times> 'r" where
  "cached_call env ord (now, now') (KGet i) s =
     (case cb_Get env now now' i s of (res, s') \<Rightarrow> (RItem res, s'))"
| "cached_call env ord (now, now') (KSave it) s =
     (case cb_SaveSync env now (Some it) s of
        ((err, it'), s') \<Rightarrow> (RSaved err (case it' of None \<Rightarrow> '''' | Some x \<Rightarrow> ID x), s'))"
| "cached_call env ord _ (KDelete i) s = (case cb_Delete env i s of (err, s') \<Rightarrow> (RDeleted err, s'))"
| "cached_call env ord _ KList s =
     (case cb_List env ord s of
        (Inl e, s') \<Rightarrow> (RItems (Inl e), s') | (Inr xs, s') \<Rightarrow> (RItems (Inr (mset xs)), s'))"
| "cached_call env ord _ (KSearch attrs) s =
     (case cb_Search env ord attrs s of
        (Inl e, s') \<Rightarrow> (RItems (Inl e), s') | (Inr xs, s') \<Rightarrow> (RItems (Inr (mset xs)), s'))"

text \<open>
  The specification: the same call answered by the bare raw backend. The interface
  \<^verbatim>\<open>RawStorageBackend\<close> has no listing or search of its own: they are read off its
  \<^verbatim>\<open>LoadMetadata\<close>.
\<close>

fun direct_call :: "'r RawStorageBackend \<Rightarrow> kcall \<Rightarrow> 'r \<Rightarrow> kres \<times> 'r" where
  "direct_call R (KGet i) r = (case rawGet R i r of (res, r') \<Rightarrow> (RItem res, r'))"
| "direct_call R (KSave it) r =
     (case rawSave R it r of ((err, it'), r') \<Rightarrow> (RSaved err (ID it'), r'))"
| "direct_call R (KDelete i) r =
     (case rawDelete R i r of (err, r') \<Rightarrow> (RDeleted err, r'))"
| "direct_call R KList r =
     (case rawLoadMetadata R r of
        (Inl e, r') \<Rightarrow> (RItems (Inl e), r') | (Inr xs, r') \<Rightarrow> (RItems (Inr (mset xs)), r'))"
| "direct_call R (KSearch attrs) r =
     (case rawLoadMetadata R r of
        (Inl e, r') \<Rightarrow> (RItems (Inl e), r')
      | (Inr xs, r') \<Rightarrow> (RItems (Inr (filter_mset (\<lambda>it. attributesMatch (Attributes it) attrs) (mset xs))), r'))"

text \<open>
  The one answer the layer changes on purpose: deleting an item the backend does not hold
  succeeds (\<^verbatim>\<open>CachedBackend.Delete\<close> drops \<^verbatim>\<open>ErrNotFound\<close>).
\<close>

fun layer_answer :: "kres \<Rightarrow> kres" where
  "layer_answer (RDeleted (Some ErrNotFound)) = RDeleted None"
| "layer_answer res = res"

fun cached_run ::
    "'r cache_env \<Rightarrow> (string \<times> SecretItem) order \<Rightarrow> ((gotime \<times> gotime) \<times> kcall) list \<Rightarrow> CachedBackend \<times> 'r
      \<Rightarrow> kres list \<times> CachedBackend \<times> 'r" where
  "cached_run env ord [] s = ([], s)"
| "cached_run env ord ((t, c) # cs) s =
     (case cached_call env ord t c s of
        (res, s') \<Rightarrow> (case cached_run env ord cs s' of (ress, s'') \<Rightarrow> (res # ress, s'')))"

fun direct_run :: "'r RawStorageBackend \<Rightarrow> kcall list \<Rightarrow> 'r \<Rightarrow> kres list \<times> 'r" where
  "direct_run R [] r = ([], r)"
| "direct_run R (c # cs) r =
     (case direct_call R c r of
        (res, r') \<Rightarrow> (case direct_run R cs r' of (ress, r'') \<Rightarrow> (res # ress, r'')))"

text \<open>Items a client stores have a secret, and clients do not use the layer's own provisional
  identifiers.\<close>

definition has_secret :: "SecretItem \<Rightarrow> bool" where
  "has_secret it \<longleftrightarrow> (\<exists>s. Secret it = Some s \<and> s \<noteq> [])"

fun call_ok :: "kcall \<Rightarrow> bool" where
  "call_ok (KSave it) = (has_secret it \<and> \<not> isPendingID (ID it))"
| "call_ok (KDelete i) = (\<not> isPendingID i)"
| "call_ok _ = True"

subsection \<open>Coherence\<close>

definition coherent :: "('r \<Rightarrow> string \<Rightarrow> SecretItem option) \<Rightarrow> CachedBackend \<Rightarrow> 'r \<Rightarrow> bool" where
  "coherent contents b r \<longleftrightarrow> cache_inv b \<and> idAliases b = []
     \<and> (metaLoaded b \<longrightarrow> (\<forall>i. mget (metaCache b) i = map_option withoutSecret (contents r i)))
     \<and> (\<forall>i e. mget (secretCache b) i = Some e \<longrightarrow> contents r i = Some (toSecretItem e))
     \<and> (\<forall>i it. contents r i = Some it \<longrightarrow> has_secret it) \<and> contents r '''' = None"

lemma has_secret_copy: "has_secret it \<Longrightarrow> copySecretItem it = it"
  by (auto simp: has_secret_def copySecretItem_def copyAttributes_def copyBytes_def)

lemma resolveID_no_alias [simp]: "idAliases b = [] \<Longrightarrow> resolveID b i = i"
  by (simp add: resolveID_def)

lemma mset_of_map_of_eq:
  assumes "mwf xs" "mwf ys" "map_of xs = map_of ys"
  shows "mset xs = mset ys"
proof -
  have "(k, v) \<in> set xs \<longleftrightarrow> (k, v) \<in> set ys" for k v
    using map_of_eq_Some_iff [OF assms(1), of k v] map_of_eq_Some_iff [OF assms(2), of k v] assms(3)
    by simp
  then have "set xs = set ys" by (intro subset_antisym subrelI) blast+
  then show ?thesis
    using assms by (simp add: set_eq_iff_mset_eq_distinct distinct_map)
qed

lemma image_mset_withoutSecret:
  "(\<And>x. x \<in> set xs \<Longrightarrow> withoutSecret x = x) \<Longrightarrow> image_mset withoutSecret (filter_mset P (mset xs)) = filter_mset P (mset xs)"
  "(\<And>x. x \<in> set xs \<Longrightarrow> withoutSecret x = x) \<Longrightarrow> image_mset withoutSecret (mset xs) = mset xs"
  by (intro multiset.map_ident_strong; auto)+

context raw_storage_total
begin

lemma coherentD:
  assumes "coherent contents b r"
  shows "cache_inv b" "idAliases b = []"
    "metaLoaded b \<Longrightarrow> mget (metaCache b) i = map_option withoutSecret (contents r i)"
    "mget (secretCache b) i = Some e \<Longrightarrow> contents r i = Some (toSecretItem e)"
    "contents r i = Some it \<Longrightarrow> has_secret it" "contents r '''' = None"
  using assms by (auto simp: coherent_def)

lemma listing_unique:
  assumes "ok r" "rawLoadMetadata R r = (Inr xs, r')" "meta_wf m" "order_ok ord"
    and "\<And>i. mget m i = map_option withoutSecret (contents r i)"
  shows "mset (copySecretItemsWithoutSecrets ord m) = mset xs"
proof -
  obtain ys where "rawLoadMetadata R r = (Inr ys, r)" "distinct (map ID ys)"
    using load_total [OF assms(1)] by blast
  with assms(2) have r': "r' = r" and dist: "distinct (map ID xs)" by auto
  have law: "map_of (map (\<lambda>x. (ID x, x)) xs) i = map_option withoutSecret (contents r i)" for i
  proof (cases "contents r i")
    case None
    then show ?thesis
      using load_ok [OF assms(1,2), rule_format, of i] by (cases "map_of (map (\<lambda>x. (ID x, x)) xs) i") auto
  next
    case (Some it)
    then show ?thesis using load_ok [OF assms(1,2), rule_format, of i "withoutSecret it"] by simp
  qed
  have "mset (map (\<lambda>x. (ID x, x)) xs) = mset m"
  proof (rule mset_of_map_of_eq)
    show "mwf (map (\<lambda>x. (ID x, x)) xs)" using dist by (simp add: comp_def)
    show "mwf m" using assms(3) by (simp add: meta_wf_def)
    show "map_of (map (\<lambda>x. (ID x, x)) xs) = map_of m"
      by (rule ext) (simp only: law assms(5))
  qed
  then have "mset xs = mset (map snd m)"
    by (metis (no_types, lifting) comp_apply list.map_comp map_idI mset_map snd_conv)
  moreover have "withoutSecret it = it" if "(k, it) \<in> set m" for k it
  proof -
    have "mget m k = Some it" using that assms(3) by (simp add: meta_wf_def)
    then show ?thesis using assms(5) [of k] by auto
  qed
  then have "map (\<lambda>(_, it). withoutSecret it) m = map snd m" by auto
  moreover have "mset (copySecretItemsWithoutSecrets ord m) = mset (map (\<lambda>(_, it). withoutSecret it) m)"
    using assms(4) by (simp add: copySecretItemsWithoutSecrets_def order_ok_def)
  ultimately show ?thesis by (simp only:)
qed

lemma getCached_coherent:
  assumes "memguard_ok env" "coherent contents b r" "getCachedSecret env now i b = (hit, b1)"
  shows "coherent contents b1 r" "metaLoaded b1 = metaLoaded b"
    "hit = Some it \<Longrightarrow> contents r i = Some it"
proof -
  note coh = coherentD [OF assms(2)]
  have "cache_inv b1" using cache_inv_getCachedSecret [OF assms(1) coh(1) assms(3)] .
  then show "coherent contents b1 r" "metaLoaded b1 = metaLoaded b" "hit = Some it \<Longrightarrow> contents r i = Some it"
    using assms(3) coh
    by (auto simp: getCachedSecret_def coherent_def Let_def split: option.splits if_splits)
qed

lemma store_coherent:
  assumes "memguard_ok env" "coherent contents b r" "contents r (ID it) = Some it" "ID it \<noteq> ''''"
  shows "coherent contents (storeSecretCache env now it b) r"
proof -
  note coh = coherentD [OF assms(2)]
  obtain s where s: "Secret it = Some s" "s \<noteq> []"
    using coh(5) [OF assms(3)] by (auto simp: has_secret_def)
  obtain e where e: "mget (secretCache (storeSecretCache env now it b)) = (mget (secretCache b))(ID it \<mapsto> e)"
      "toSecretItem e = it"
    using storeSecretCache_entry [OF assms(1) s assms(4)] by blast
  show ?thesis
    using coh cache_inv_storeSecretCache [OF assms(1) coh(1)] e assms(3)
    by (auto simp: coherent_def)
qed

lemma checkAuth_coherent:
  "coherent contents b r \<Longrightarrow> coherent contents (snd (checkAuthAfterCacheAccess env now b)) r"
  by (simp add: coherent_def cache_inv_checkAuth)

text \<open>Reading a secret: a hit, an expired entry and a miss all answer with the held item.\<close>

lemma get_refines:
  assumes "raw env = R" "memguard_ok env" "ok r" "coherent contents b r"
    and "cb_Get env now now' i (b, r) = (res, b', r')"
  shows "res = fst (rawGet R i r) \<and> r' = r \<and> coherent contents b' r \<and> metaLoaded b' = metaLoaded b"
proof -
  note coh = coherentD [OF assms(4)]
  define look where "look = (if CacheSecrets (opts env) then getCachedSecret env now i b else (None, b))"
  obtain hit b1 where look1: "look = (hit, b1)" by (cases look)
  have b1: "coherent contents b1 r" "metaLoaded b1 = metaLoaded b"
    and hit: "\<And>it. hit = Some it \<Longrightarrow> contents r i = Some it"
    using look1 assms(4) getCached_coherent [OF assms(2,4)] by (auto simp: look_def split: if_splits)
  have get: "cb_Get env now now' i (b, r) =
      (case hit of
         Some it \<Rightarrow> (Inr it, snd (checkAuthAfterCacheAccess env now' b1), r)
       | None \<Rightarrow>
           (case contents r i of
              None \<Rightarrow> (Inl ErrNotFound, b1, r)
            | Some it \<Rightarrow>
                (Inr (copySecretItem it),
                 (if CacheSecrets (opts env) then storeSecretCache env now' it b1 else b1), r)))"
    unfolding cb_Get_def prod.case Let_def resolveID_no_alias [OF coh(2)] look_def [symmetric] look1
      assms(1) get_total [OF assms(3)]
    by (cases hit; cases "contents r i") simp_all
  show ?thesis
  proof (cases hit)
    case (Some it)
    then show ?thesis
      using get assms(5) hit [OF Some] b1 by (auto simp: get_total [OF assms(3)] checkAuth_coherent)
  next
    case None
    show ?thesis
    proof (cases "contents r i")
      case None
      then show ?thesis using \<open>hit = None\<close> get assms(5) b1 by (auto simp: get_total [OF assms(3)])
    next
      case (Some it)
      have "ID it = i" using held_id [OF assms(3) Some] .
      moreover have "i \<noteq> ''''" using Some coh(6) by auto
      ultimately have "coherent contents (storeSecretCache env now' it b1) r"
        using store_coherent [OF assms(2) b1(1)] Some by simp
      moreover have "copySecretItem it = it" using coh(5) [OF Some] by (rule has_secret_copy)
      ultimately show ?thesis
        using \<open>hit = None\<close> Some get assms(5) b1 by (auto simp: get_total [OF assms(3)])
    qed
  qed
qed

text \<open>Listing and searching: the answer is the raw backend's listing, loaded on first use.\<close>

lemma listing_map_of:
  assumes "ok r" "rawLoadMetadata R r = (Inr xs, r')"
  shows "map_of (map (\<lambda>x. (ID x, x)) xs) i = map_option withoutSecret (contents r i)"
proof (cases "contents r i")
  case None
  then show ?thesis
    using load_ok [OF assms, rule_format, of i] by (cases "map_of (map (\<lambda>x. (ID x, x)) xs) i") auto
next
  case (Some it)
  then show ?thesis using load_ok [OF assms, rule_format, of i "withoutSecret it"] by simp
qed

lemma installMeta_listing:
  assumes "ok r" "rawLoadMetadata R r = (Inr xs, r')" "distinct (map ID xs)"
  shows "mget (installMeta [] xs) i = map_option withoutSecret (contents r i)"
proof -
  have "mwf (map (\<lambda>x. (ID x, withoutSecret x)) xs)" using assms(3) by (simp add: comp_def)
  then have "map_of (rev (map (\<lambda>x. (ID x, withoutSecret x)) xs)) i
      = map_of (map (\<lambda>x. (ID x, withoutSecret x)) xs) i"
    by (simp only: map_of_rev_distinct)
  also have "\<dots> = map_option withoutSecret (map_of (map (\<lambda>x. (ID x, x)) xs) i)"
    by (induction xs) auto
  also have "\<dots> = map_option withoutSecret (contents r i)"
    unfolding listing_map_of [OF assms(1,2)] by (cases "contents r i") simp_all
  finally have "map_of (rev (map (\<lambda>x. (ID x, withoutSecret x)) xs)) i
      = map_option withoutSecret (contents r i)" .
  then show ?thesis
    unfolding mget_installMeta
    by (cases "contents r i") auto
qed

lemma metadata_refines:
  assumes "raw env = R" "ok r" "coherent contents b r" "order_ok ord" "CacheMetadata (opts env)"
    and "metadata env ord (b, r) = (res, b', r')"
  shows "\<exists>ms xs. res = Inr ms \<and> rawLoadMetadata R r = (Inr xs, r) \<and> mset ms = mset xs
    \<and> r' = r \<and> coherent contents b' r \<and> metaLoaded b'"
proof -
  note coh = coherentD [OF assms(3)]
  obtain xs where xs: "rawLoadMetadata R r = (Inr xs, r)" "distinct (map ID xs)"
    using load_total [OF assms(2)] by blast
  have uniq: "mset (copySecretItemsWithoutSecrets ord (metaCache b'')) = mset xs"
    if "coherent contents b'' r" "metaLoaded b''" for b''
    using listing_unique [OF assms(2) xs(1) _ assms(4)] coherentD(1,3) [OF that(1)] that(2)
    by (simp add: cache_inv_def)
  show ?thesis
  proof (cases "metaLoaded b")
    case True
    then show ?thesis
      using assms(3,5,6) xs(1) uniq [OF assms(3) True] by (auto simp: metadata_def)
  next
    case False
    have "coherent contents (installMetadataCache xs b) r"
      using coh cache_inv_install [OF coh(1)] installMeta_listing [OF assms(2) xs]
      by (auto simp: coherent_def installMetadataCache_def)
    then show ?thesis
      using False assms(1,5,6) xs(1) uniq [of "installMetadataCache xs b"]
      by (auto simp: metadata_def loadMetadataCache_def installMetadataCache_def)
  qed
qed

text \<open>Saving and deleting keep the caches coherent with the changed contents.\<close>

lemma save_refines:
  assumes "raw env = R" "memguard_ok env" "ok r" "coherent contents b r" "metaLoaded b"
    and "CacheMetadata (opts env) \<and> CacheSecrets (opts env)" "has_secret it" "\<not> isPendingID (ID it)"
    and "cb_SaveSync env now (Some it) (b, r) = ((err, arg), b', r')"
  shows "\<exists>it'. rawSave R it r = ((err, it'), r') \<and> arg = Some it' \<and> ok r' \<and> coherent contents b' r'
    \<and> metaLoaded b'"
proof -
  note coh = coherentD [OF assms(4)]
  have same: "ID it = '''' \<Longrightarrow> it\<lparr>ID := ''''\<rparr> = it" by (cases it) simp
  obtain e it' r1 where raw: "rawSave R it r = ((e, it'), r1)" by (metis surj_pair)
  then have raw0: "ID it = '''' \<Longrightarrow> rawSave R (it\<lparr>ID := ''''\<rparr>) r = ((e, it'), r1)"
    by (simp only: same)
  have save: "cb_SaveSync env now (Some it) (b, r) =
      (case e of Some x \<Rightarrow> ((Some x, Some it'), b, r1)
       | None \<Rightarrow> ((None, Some it'), cacheSavedItem env now it' b, r1))"
    unfolding cb_SaveSync_def Let_def prod.case option.case resolveID_no_alias [OF coh(2)]
    using assms(8) by (auto simp: assms(1) raw raw0 split: option.split)
  show ?thesis
  proof (cases e)
    case (Some x)
    then have "contents r1 = contents r" "ok r1"
      using save_failed [OF assms(3)] raw by auto
    then show ?thesis using save assms(4,5,9) raw Some by (auto simp: coherent_def)
  next
    case None
    then have law: "ok r1" "contents r1 = (contents r)(ID it' \<mapsto> it')" "it' = it\<lparr>ID := ID it'\<rparr>" "ID it' \<noteq> ''''"
      using save_ok [OF assms(3)] raw by auto
    have hs: "has_secret it'"
      using assms(7) law(3) by (metis SecretItem.select_convs(4) SecretItem.surjective SecretItem.update_convs(1) has_secret_def)
    then obtain s where s: "Secret it' = Some s" "s \<noteq> []" by (auto simp: has_secret_def)
    let ?b = "cacheSavedItem env now it' b"
    have b': "?b = storeSecretCache env now it' (putMeta it' b)"
      using law(4) assms(6) by (simp add: cacheSavedItem_def)
    obtain x where x: "mget (secretCache ?b) = (mget (secretCache b))(ID it' \<mapsto> x)" "toSecretItem x = it'"
      using storeSecretCache_entry [OF assms(2) s law(4), of now "putMeta it' b"] b' by (auto simp: putMeta_def)
    have sel: "mget (metaCache ?b) = (mget (metaCache b))(ID it' \<mapsto> withoutSecret it')"
        "idAliases ?b = []" "metaLoaded ?b"
      unfolding b' by (auto simp: putMeta_def coh(2))
    have "coherent contents ?b r1"
      unfolding coherent_def
      using coh cache_inv_cacheSavedItem [OF assms(2) coh(1)] x law(2,4) hs assms(5) sel by auto
    then have "coherent contents ?b r1" "metaLoaded ?b" using sel by auto
    then show ?thesis using save raw None law(1) assms(9) by auto
  qed
qed

lemma delete_refines:
  assumes "raw env = R" "memguard_ok env" "ok r" "coherent contents b r" "\<not> isPendingID i"
    and "cb_Delete env i (b, r) = (res, b', r')"
  shows "\<exists>err. rawDelete R i r = (err, r') \<and> res = None \<and> (err = None \<or> err = Some ErrNotFound)
    \<and> ok r' \<and> coherent contents b' r' \<and> metaLoaded b' = metaLoaded b"
proof -
  note coh = coherentD [OF assms(4)]
  obtain err r1 where raw: "rawDelete R i r = (err, r1)" by (metis surj_pair)
  have err: "err = None \<or> err = Some ErrNotFound" using delete_total [OF assms(3) raw] .
  obtain h where mark: "deleteMark i b = b\<lparr>psHeap := h\<rparr>" using deleteMark_frame by blast
  let ?b = "evictAll env i i (b\<lparr>psHeap := h\<rparr>)"
  have del: "cb_Delete env i (b, r) = (None, ?b, r1)"
    using assms(5) err
    by (auto simp: cb_Delete_def Let_def coh(2) deleteBegin_def mark assms(1) raw deleteFinish_def)
  have r1: "ok r1" "contents r1 i = None" "\<And>j. j \<noteq> i \<Longrightarrow> contents r1 j = contents r j"
    using delete_absent [OF assms(3) raw err] by auto
  then have "contents r1 = (contents r)(i := None)" by auto
  moreover have "cache_inv ?b" using coh(1) assms(2) by (simp add: cache_inv_evictAll)
  moreover have "idAliases ?b = []"
    by (simp add: evictAll_def evictItemFromCachesLocked_def coh(2))
  moreover have "mget (metaCache ?b) = (mget (metaCache b))(i := None)"
    by (auto simp: evictAll_def evictItemFromCachesLocked_def)
  moreover have "mget (secretCache ?b) = (mget (secretCache b))(i := None)"
    by (simp add: evictAll_def)
  moreover have "metaLoaded ?b = metaLoaded b"
    by (simp add: evictAll_def evictItemFromCachesLocked_def)
  ultimately have "coherent contents ?b r1 \<and> metaLoaded ?b = metaLoaded b"
    using coh by (auto simp: coherent_def)
  then show ?thesis using del assms(6) raw err r1(1) by auto
qed

text \<open>The raw listing has no secrets, so dropping them again changes nothing.\<close>

lemma listing_plain:
  assumes "ok r" "rawLoadMetadata R r = (Inr xs, r')" "x \<in> set xs"
  shows "withoutSecret x = x"
proof -
  have dist: "distinct (map ID xs)" using load_total [OF assms(1)] assms(2) by auto
  then have "map_of (map (\<lambda>x. (ID x, x)) xs) (ID x) = Some x"
    using assms(3) by (intro map_of_is_SomeI) (auto simp: comp_def)
  then show ?thesis
    using listing_map_of [OF assms(1,2), of "ID x"] by auto
qed

text \<open>One call, and by induction a whole sequence of calls.\<close>

lemma call_refines:
  assumes "raw env = R" "memguard_ok env" "order_ok ord" "CacheMetadata (opts env) \<and> CacheSecrets (opts env)"
    and "ok r" "coherent contents b r" "metaLoaded b \<or> c = KList" "call_ok c"
    and "cached_call env ord t c (b, r) = (res, b', r')"
  shows "apfst layer_answer (direct_call R c r) = (res, r') \<and> ok r' \<and> coherent contents b' r' \<and> metaLoaded b'"
proof (cases c)
  case (KGet i)
  obtain now now' where t: "t = (now, now')" by (cases t)
  obtain res0 b0 r0 where get: "cb_Get env now now' i (b, r) = (res0, b0, r0)" by (metis surj_pair)
  have eqs: "res = RItem res0" "b0 = b'" "r0 = r'" using assms(9) by (auto simp: KGet t get)
  note law = get_refines [OF assms(1,2,5,6) get]
  then show ?thesis
    using assms(5,7) get_total [OF assms(5), of i] by (auto simp: KGet eqs)
next
  case (KSave it)
  obtain now now' where t: "t = (now, now')" by (cases t)
  obtain err arg b0 r0 where save: "cb_SaveSync env now (Some it) (b, r) = ((err, arg), b0, r0)"
    by (metis surj_pair)
  have cok: "metaLoaded b" "has_secret it" "\<not> isPendingID (ID it)" using assms(7,8) by (auto simp: KSave)
  obtain it' where law: "rawSave R it r = ((err, it'), r0)" "arg = Some it'" "ok r0"
      "coherent contents b0 r0" "metaLoaded b0"
    using save_refines [OF assms(1,2,5,6) cok(1) assms(4) cok(2,3) save] by blast
  have "res = RSaved err (ID it')" "b0 = b'" "r0 = r'"
    using assms(9) by (auto simp: KSave t save law(2))
  then show ?thesis using law by (auto simp: KSave)
next
  case (KDelete i)
  obtain res0 b0 r0 where del: "cb_Delete env i (b, r) = (res0, b0, r0)" by (metis surj_pair)
  have eqs: "res = RDeleted res0" "b0 = b'" "r0 = r'" using assms(9) by (cases t; auto simp: KDelete del)+
  have "\<not> isPendingID i" using assms(8) by (simp add: KDelete)
  from delete_refines [OF assms(1,2,5,6) this del] show ?thesis
    using assms(7) by (auto simp: KDelete eqs)
next
  case KList
  obtain res0 b0 r0 where meta: "metadata env ord (b, r) = (res0, b0, r0)" by (metis surj_pair)
  obtain ms xs where law: "res0 = Inr ms" "rawLoadMetadata R r = (Inr xs, r)" "mset ms = mset xs"
      "r0 = r" "coherent contents b0 r" "metaLoaded b0"
    using metadata_refines [OF assms(1,5,6,3) conjunct1 [OF assms(4)] meta] by blast
  have "mset (map withoutSecret ms) = mset xs"
    using law(3) listing_plain [OF assms(5) law(2)] by (simp add: image_mset_withoutSecret)
  then show ?thesis
    using assms(5,9) law by (cases t) (auto simp: KList cb_List_def meta)
next
  case (KSearch attrs)
  obtain res0 b0 r0 where meta: "metadata env ord (b, r) = (res0, b0, r0)" by (metis surj_pair)
  obtain ms xs where law: "res0 = Inr ms" "rawLoadMetadata R r = (Inr xs, r)" "mset ms = mset xs"
      "r0 = r" "coherent contents b0 r" "metaLoaded b0"
    using metadata_refines [OF assms(1,5,6,3) conjunct1 [OF assms(4)] meta] by blast
  have "mset (map withoutSecret (filter P ms)) = filter_mset P (mset xs)" for P
    using law(3) listing_plain [OF assms(5) law(2)] by (simp add: image_mset_withoutSecret mset_filter)
  then show ?thesis
    using assms(5,9) law by (cases t) (auto simp: KSearch cb_Search_def meta)
qed

lemma run_refines:
  assumes "raw env = R" "memguard_ok env" "order_ok ord" "CacheMetadata (opts env) \<and> CacheSecrets (opts env)"
  shows "ok r \<Longrightarrow> coherent contents b r \<Longrightarrow> metaLoaded b \<Longrightarrow> \<forall>(t, c) \<in> set cs. call_ok c
    \<Longrightarrow> cached_run env ord cs (b, r) = (ress, b', r')
    \<Longrightarrow> apfst (map layer_answer) (direct_run R (map snd cs) r) = (ress, r') \<and> coherent contents b' r'"
proof (induction cs arbitrary: b r ress b' r')
  case (Cons tc cs)
  obtain t c where tc: "tc = (t, c)" by (cases tc)
  obtain res b1 r1 where one: "cached_call env ord t c (b, r) = (res, b1, r1)" by (metis surj_pair)
  obtain ress1 b2 r2 where rest: "cached_run env ord cs (b1, r1) = (ress1, b2, r2)" by (metis surj_pair)
  have "apfst layer_answer (direct_call R c r) = (res, r1) \<and> ok r1 \<and> coherent contents b1 r1 \<and> metaLoaded b1"
    using call_refines [OF assms Cons.prems(1,2) _ _ one] Cons.prems(3,4) by (simp add: tc)
  moreover from this have "apfst (map layer_answer) (direct_run R (map snd cs) r1) = (ress1, r2) \<and> coherent contents b2 r2"
    using Cons.IH [OF _ _ _ _ rest] Cons.prems(4) by auto
  ultimately show ?case
    using Cons.prems(5) one rest by (auto simp: tc split: prod.splits)
qed auto

text \<open>A sequence that starts by listing needs no loaded cache.\<close>

lemma run_refines_list_first:
  assumes "raw env = R" "memguard_ok env" "order_ok ord" "CacheMetadata (opts env) \<and> CacheSecrets (opts env)"
    and "ok r" "coherent contents b r" "\<forall>(t, c) \<in> set cs. call_ok c"
    and "cached_run env ord ((t0, KList) # cs) (b, r) = (ress, b', r')"
  shows "apfst (map layer_answer) (direct_run R (KList # map snd cs) r) = (ress, r')"
proof -
  obtain res b1 r1 where one: "cached_call env ord t0 KList (b, r) = (res, b1, r1)" by (metis surj_pair)
  obtain ress1 b2 r2 where rest: "cached_run env ord cs (b1, r1) = (ress1, b2, r2)" by (metis surj_pair)
  have first: "apfst layer_answer (direct_call R KList r) = (res, r1) \<and> ok r1 \<and> coherent contents b1 r1 \<and> metaLoaded b1"
    using call_refines [OF assms(1-6) _ _ one] by simp
  then have "apfst (map layer_answer) (direct_run R (map snd cs) r1) = (ress1, r2)"
    using run_refines [OF assms(1-4) _ _ _ assms(7) rest] by simp
  moreover have "ress = res # ress1" "r2 = r'"
    using assms(8) unfolding cached_run.simps one prod.case rest by simp_all
  ultimately show ?thesis
    using first unfolding direct_run.simps by (auto split: prod.splits)
qed

end

subsection \<open>Properties\<close>

text \<open>
  C3. What the caches may change, in synchronous mode with both caches on, in front of an
  in-memory backend: a sequence of calls made one after the other, that starts with a listing,
  in which every saved item has a non-empty secret and no provisional (pending) identifier is
  saved or deleted, is answered call by call as the bare backend answers it, and leaves the
  backend with the same items, except that deleting a missing item succeeds where the backend
  reports that it is not found. So secrets served from the cache are the stored ones whatever
  the clock reads, listings and searches are the backend's metadata, and deletions are seen
  at once. (With empty secrets, or saves before the first listing, the layer does differ: see
  the findings about \<open>isEmptySecret\<close> and \<open>metaLoaded\<close>.)
\<close>

theorem cached_backend_transparent:
  assumes "raw env = inMemoryRaw ord0" "order_ok ord0" "order_ok ord" "memguard_ok env"
    and "CacheMetadata (opts env)" "CacheSecrets (opts env)"
    and "mem_ok r" "\<forall>(k, it) \<in> set (items r). has_secret it \<and> k \<noteq> ''''"
    and "\<forall>(t, c) \<in> set cs. call_ok c"
    and "cached_run env ord ((t0, KList) # cs) (snd (NewCachedBackend R o0 nb db), r) = (ress, b', r')"
  shows "(ress, r') = apfst (map layer_answer) (direct_run (inMemoryRaw ord0) (KList # map snd cs) r)"
proof -
  let ?b = "snd (NewCachedBackend R o0 nb db)"
  have "mem_contents r i = Some it \<Longrightarrow> has_secret it \<and> i \<noteq> ''''" for i it
    using assms(8) by (auto simp: mem_contents_def dest: mget_SomeD)
  moreover from this have "mem_contents r '''' = None" by (cases "mem_contents r ''''") auto
  ultimately have coh: "coherent mem_contents ?b r"
    using cache_inv_new [of R o0 nb db]
    by (auto simp: coherent_def NewCachedBackend_def Let_def)
  show ?thesis
    using raw_storage_total.run_refines_list_first [OF raw_storage_total_mem [OF assms(2)] assms(1,4,3) _
        assms(7) coh assms(9,10)] assms(5,6)
    by (intro sym [of _ "(ress, r')"]) simp
qed

definition witness_env :: "InMemoryBackend cache_env" where
  "witness_env =
     \<lparr>raw = inMemoryRaw (\<lambda>xs. xs),
      opts = \<lparr>CacheSecrets = True, CacheMetadata = True, AsyncSave = False, SecretCacheTTL = 60,
              AuthCheckMinSpacing = 5, AuthCheckTimeout = 2, SaveTimeout = 30\<rparr>,
      newBuffer = (\<lambda>bs. if bs = [] then None else Some \<lparr>lb_alive = True, lb_bytes = bs\<rparr>),
      destroyBuffer = (\<lambda>lb. \<lparr>lb_alive = False, lb_bytes = []\<rparr>)\<rparr>"

definition witness_item :: SecretItem where
  "witness_item = \<lparr>ID = ''i'', Label = ''l'', Attributes = [(''a'', ''1'')], Secret = Some [7]\<rparr>"

lemma witness_env_ok: "memguard_ok witness_env"
  by (simp add: memguard_ok_def witness_env_def)

theorem cached_backend_transparent_witness:
  "let calls = [((0::gotime, 0::gotime), KSave witness_item), ((1, 1), KGet ''i''), ((2, 2), KDelete ''i''), ((3, 3), KGet ''i''), ((4, 4), KDelete ''i'')];
       b = snd (NewCachedBackend (inMemoryRaw (\<lambda>xs. xs)) (opts witness_env) (newBuffer witness_env) (destroyBuffer witness_env));
       r = NewInMemoryBackend []
   in (case cached_run witness_env (\<lambda>xs. xs) (((0, 0), KList) # calls) (b, r) of
         (ress, b', r') \<Rightarrow>
           (ress, r') = apfst (map layer_answer) (direct_run (inMemoryRaw (\<lambda>xs. xs)) (KList # map snd calls) r)
           \<and> last ress = RDeleted None)
      \<and> last (fst (direct_run (inMemoryRaw (\<lambda>xs. xs)) (KList # map snd calls) r)) = RDeleted (Some ErrNotFound)"
proof -
  let ?calls = "[((0::gotime, 0::gotime), KSave witness_item), ((1, 1), KGet ''i''), ((2, 2), KDelete ''i''), ((3, 3), KGet ''i''), ((4, 4), KDelete ''i'')]"
  let ?b = "snd (NewCachedBackend (inMemoryRaw (\<lambda>xs. xs)) (opts witness_env) (newBuffer witness_env) (destroyBuffer witness_env))"
  let ?r = "NewInMemoryBackend []"
  obtain ress b' r' where run: "cached_run witness_env (\<lambda>xs. xs) (((0, 0), KList) # ?calls) (?b, ?r) = (ress, b', r')"
    by (metis surj_pair)
  have ok: "mem_ok ?r" by (rule mem_ok_new) simp
  have calls: "\<forall>(t, c) \<in> set ?calls. call_ok c"
    by (simp add: has_secret_def witness_item_def isPendingID_def pendingIDPrefix_def hasPrefix_def)
  have same: "(ress, r') = apfst (map layer_answer) (direct_run (inMemoryRaw (\<lambda>xs. xs)) (KList # map snd ?calls) ?r)"
    by (rule cached_backend_transparent [OF _ _ _ witness_env_ok _ _ ok _ calls run])
      (simp_all add: witness_env_def NewInMemoryBackend_def)
  have bare: "last (fst (direct_run (inMemoryRaw (\<lambda>xs. xs)) (KList # map snd ?calls) ?r)) = RDeleted (Some ErrNotFound)"
    by code_simp
  have "fst (direct_run (inMemoryRaw (\<lambda>xs. xs)) (KList # map snd ?calls) ?r) \<noteq> []"
    by (auto split: prod.splits)
  then have "last ress = RDeleted None"
    using same bare by (cases "direct_run (inMemoryRaw (\<lambda>xs. xs)) (KList # map snd ?calls) ?r") (simp add: last_map)
  then show ?thesis unfolding Let_def run prod.case using same bare by blast
qed

end
