(* ===== verification/Keyring_Secret_Cache.thy ===== *)
theory Keyring_Secret_Cache
  imports Keyring_Refine
begin

text \<open>
  What the secret cache of \<^verbatim>\<open>CachedBackend\<close> promises: the lifetime of its entries, the spacing
  of the background authentication checks, and two places where the caches answer differently
  from the backend behind them.
\<close>

subsection \<open>Authentication checks as a sequence of events\<close>

text \<open>
  A cache hit at some time may start a check; a running check ends with its result. The run
  collects the times at which checks were started and counts the ends.
\<close>

datatype auth_event = AuthAccess gotime | AuthDone "berror option"

fun auth_run :: "'r cache_env \<Rightarrow> auth_event list \<Rightarrow> CachedBackend \<Rightarrow> gotime list \<times> nat \<times> CachedBackend" where
  "auth_run env [] b = ([], 0, b)"
| "auth_run env (AuthAccess now # es) b =
     (case checkAuthAfterCacheAccess env now b of
        (started, b') \<Rightarrow>
          (case auth_run env es b' of
             (ts, n, b'') \<Rightarrow> (if started then now # ts else ts, n, b'')))"
| "auth_run env (AuthDone err # es) b =
     (if authCheckInFlight b then
        (case auth_run env es (finishAuthCheck env err b) of (ts, n, b'') \<Rightarrow> (ts, Suc n, b''))
      else auth_run env es b)"

text \<open>A configured spacing is a non-negative signed 64-bit duration.\<close>

definition spacing_ok :: "'r cache_env \<Rightarrow> bool" where
  "spacing_ok env \<longleftrightarrow> 0 \<le> AuthCheckMinSpacing (opts env) \<and> AuthCheckMinSpacing (opts env) < 2 ^ 63"

lemma checkAuth_started:
  assumes "checkAuthAfterCacheAccess env now b = (started, b')"
    and "spacing_ok env"
  shows "started \<Longrightarrow> \<not> authCheckInFlight b \<and> authCheckInFlight b' \<and> authCheckLastStarted b' = now
      \<and> authCheckLastStarted b + AuthCheckMinSpacing (opts env) \<le> now"
    and "\<not> started \<Longrightarrow> b' = b"
  using assms by (auto simp: checkAuthAfterCacheAccess_def timeSub_def spacing_ok_def split: option.splits if_splits)

lemma finishAuthCheck_sel [simp]:
  "\<not> authCheckInFlight (finishAuthCheck env err b)"
  "authCheckLastStarted (finishAuthCheck env err b) = authCheckLastStarted b"
  by (auto simp: finishAuthCheck_def clearSecretCache_def Let_def split: option.split)

lemma auth_run_spaced:
  assumes "spacing_ok env" "auth_run env es b = (ts, n, b')"
  shows "successively (\<lambda>s t. s + AuthCheckMinSpacing (opts env) \<le> t) (authCheckLastStarted b # ts)
    \<and> length ts + (if authCheckInFlight b then 1 else 0) = n + (if authCheckInFlight b' then 1 else 0)"
  using assms
proof (induction env es b arbitrary: ts n b' rule: auth_run.induct)
  case (2 env now es b)
  obtain started b1 where c: "checkAuthAfterCacheAccess env now b = (started, b1)" by fastforce
  obtain ts1 n1 b2 where r: "auth_run env es b1 = (ts1, n1, b2)" by (metis surj_pair)
  have eq: "ts = (if started then now # ts1 else ts1)" "n = n1" "b' = b2"
    using 2(3) by (simp_all add: c r)
  note IH = 2(1) [OF c [symmetric] 2(2) r]
  show ?case using IH checkAuth_started [OF c 2(2)] unfolding eq by (cases started) simp_all
next
  case (3 env err es b)
  obtain ts1 n1 b2 where r: "auth_run env es (finishAuthCheck env err b) = (ts1, n1, b2)"
    by (metis surj_pair)
  show ?case
  proof (cases "authCheckInFlight b")
    case True
    from 3(1) [OF True 3(3) r] 3(4) True show ?thesis by (auto simp: r)
  next
    case False
    from 3(2) [OF False 3(3)] 3(4) False show ?thesis by simp
  qed
qed simp

text \<open>
  Background authentication checks are rate limited and never overlap: however cache hits
  and ends of checks interleave, two consecutive checks start at least the configured spacing
  apart (a duration is a signed 64-bit count), a check is started only after the one before it ended (at any moment
  the checks started exceed the checks ended by the one in flight, if any), a failed check empties
  the secret cache with every buffer destroyed, and a backend that cannot check is never asked.
\<close>

theorem auth_checks_spaced:
  assumes "spacing_ok env" "memguard_ok env" "\<not> authCheckInFlight b"
    and "auth_run env es b = (ts, n, b')"
  shows "successively (\<lambda>s t. s + AuthCheckMinSpacing (opts env) \<le> t) ts
    \<and> length ts = n + (if authCheckInFlight b' then 1 else 0)
    \<and> (rawCheckAuth (raw env) = None \<longrightarrow> ts = [])
    \<and> (\<forall>e. secretCache (finishAuthCheck env (Some e) b') = []
         \<and> (\<forall>k c lb. (k, c) \<in> set (secretCache b') \<and> cs_secret c = Some lb \<and> lb_alive lb \<longrightarrow>
              destroyBuffer env lb \<in> set (dropped (finishAuthCheck env (Some e) b'))))"
proof (intro conjI allI impI)
  note run = auth_run_spaced [OF assms(1,4)]
  show "successively (\<lambda>s t. s + AuthCheckMinSpacing (opts env) \<le> t) ts"
    using run by (cases ts) simp_all
  show "length ts = n + (if authCheckInFlight b' then 1 else 0)" using run assms(3) by simp
  show "ts = []" if "rawCheckAuth (raw env) = None"
    using assms(4) that
    by (induction env es b arbitrary: ts n rule: auth_run.induct)
      (auto simp: checkAuthAfterCacheAccess_def split: prod.splits if_splits)
  show "secretCache (finishAuthCheck env (Some e) b') = []" for e
    by (simp add: finishAuthCheck_def clearSecretCache_def)
  show "destroyBuffer env lb \<in> set (dropped (finishAuthCheck env (Some e) b'))"
    if "(k, c) \<in> set (secretCache b') \<and> cs_secret c = Some lb \<and> lb_alive lb" for e k c lb
    using that by (force simp: finishAuthCheck_def clearSecretCache_def buffersOf_def cs_destroy_def)
qed

definition witness_auth_env :: "InMemoryBackend cache_env" where
  "witness_auth_env = witness_env\<lparr>raw := (raw witness_env)\<lparr>rawCheckAuth := Some (\<lambda>r. (None, r))\<rparr>\<rparr>"

theorem auth_checks_spaced_witness:
  "let b = snd (NewCachedBackend (raw witness_auth_env) (opts witness_auth_env)
             (newBuffer witness_auth_env) (destroyBuffer witness_auth_env));
       ts = fst (auth_run witness_auth_env
              [AuthAccess 10, AuthAccess 20, AuthDone None, AuthAccess 14, AuthAccess 15] b)
   in ts = [10, 15] \<and> successively (\<lambda>s t. s + 5 \<le> t) ts"
proof -
  let ?b = "snd (NewCachedBackend (raw witness_auth_env) (opts witness_auth_env)
             (newBuffer witness_auth_env) (destroyBuffer witness_auth_env))"
  let ?es = "[AuthAccess 10, AuthAccess 20, AuthDone None, AuthAccess 14, AuthAccess 15]"
  obtain ts n b' where run: "auth_run witness_auth_env ?es ?b = (ts, n, b')" by (metis surj_pair)
  have "ts = [10, 15]"
    using run by (auto simp: witness_auth_env_def witness_env_def NewCachedBackend_def Let_def
        checkAuthAfterCacheAccess_def timeSub_def finishAuthCheck_def)
  moreover have "successively (\<lambda>s t. s + AuthCheckMinSpacing (opts witness_auth_env) \<le> t) ts"
    using auth_checks_spaced [OF _ _ _ run]
    by (simp add: witness_auth_env_def witness_env_def memguard_ok_def NewCachedBackend_def Let_def spacing_ok_def)
  ultimately show ?thesis
    unfolding Let_def run by (simp add: witness_auth_env_def witness_env_def)
qed

subsection \<open>Lifetime of cached secrets\<close>

text \<open>
  A cached secret is served only before its expiry, and expiry slides: while the clock is
  before the entry's expiry, \<open>Get\<close> answers from the cache without touching the backend and
  moves the expiry to one TTL from now; from the expiry on, the entry is dropped with its buffer
  destroyed and the answer is the backend's, cached afresh when there is one.
\<close>

theorem secret_cache_ttl:
  assumes "memguard_ok env" "cache_inv b" "CacheSecrets (opts env)"
    and "resolveID b i = j" "mget (secretCache b) j = Some e"
  shows "(now < cs_expiresAt e \<longrightarrow>
      (\<exists>b'. cb_Get env now now' i (b, r) = (Inr (toSecretItem e), b', r)
        \<and> mget (secretCache b') j = Some (e\<lparr>cs_expiresAt := now + SecretCacheTTL (opts env)\<rparr>)))
    \<and> (\<not> now < cs_expiresAt e \<longrightarrow>
      (\<exists>b1. cb_Get env now now' i (b, r) =
          (case rawGet (raw env) j r of
             (Inl err, r') \<Rightarrow> (Inl err, b1, r')
           | (Inr it, r') \<Rightarrow> (Inr (copySecretItem it), storeSecretCache env now' it b1, r'))
        \<and> mget (secretCache b1) j = None
        \<and> (\<forall>lb. cs_secret e = Some lb \<longrightarrow> destroyBuffer env lb \<in> set (dropped b1))))"
proof (intro conjI impI)
  have live: "entry_live e" using assms(2,5) by (auto simp: cache_inv_def secret_wf_def)
  show "\<exists>b'. cb_Get env now now' i (b, r) = (Inr (toSecretItem e), b', r)
        \<and> mget (secretCache b') j = Some (e\<lparr>cs_expiresAt := now + SecretCacheTTL (opts env)\<rparr>)"
    if "now < cs_expiresAt e"
    using assms(3,4) by (simp add: cb_Get_def Let_def getCachedSecret_hit [OF assms(5) live that])
  show "\<exists>b1. cb_Get env now now' i (b, r) =
          (case rawGet (raw env) j r of
             (Inl err, r') \<Rightarrow> (Inl err, b1, r')
           | (Inr it, r') \<Rightarrow> (Inr (copySecretItem it), storeSecretCache env now' it b1, r'))
        \<and> mget (secretCache b1) j = None
        \<and> (\<forall>lb. cs_secret e = Some lb \<longrightarrow> destroyBuffer env lb \<in> set (dropped b1))"
    if "\<not> now < cs_expiresAt e"
    using assms(3,4) live
    by (auto simp: cb_Get_def Let_def getCachedSecret_expired [OF assms(5) that]
        buffersOf_def cs_destroy_def entry_live_def split: prod.split sum.split
        intro!: exI [of _ "b\<lparr>secretCache := mdel (secretCache b) j,
          dropped := dropped b @ buffersOf (cs_destroy env e)\<rparr>"])
qed

definition witness_backend :: InMemoryBackend where
  "witness_backend = \<lparr>items = [(''i'', witness_item), (''k'', witness_item\<lparr>ID := ''k''\<rparr>)], entropy = []\<rparr>"

definition witness_cache :: CachedBackend where
  "witness_cache = storeSecretCache witness_env 0 witness_item
     (snd (NewCachedBackend (raw witness_env) (opts witness_env) (newBuffer witness_env) (destroyBuffer witness_env)))"

lemma witness_cache_inv: "cache_inv witness_cache"
  unfolding witness_cache_def by (intro cache_inv_storeSecretCache witness_env_ok cache_inv_new)

lemma witness_cache_entry:
  "\<exists>e. mget (secretCache witness_cache) ''i'' = Some e \<and> cs_expiresAt e = 60 \<and> toSecretItem e = witness_item"
proof -
  let ?b = "snd (NewCachedBackend (raw witness_env) (opts witness_env) (newBuffer witness_env) (destroyBuffer witness_env))"
  have it: "Secret witness_item = Some [7]" "ID witness_item = ''i''" by (simp_all add: witness_item_def)
  have ttl: "SecretCacheTTL (opts witness_env) = 60" by (simp add: witness_env_def)
  show ?thesis
    using storeSecretCache_entry [OF witness_env_ok it(1), of 0 ?b] it ttl
    unfolding witness_cache_def by auto
qed

lemma witness_cache_fresh [simp]:
  "idAliases witness_cache = []" "metaCache witness_cache = []"
  by (simp_all add: witness_cache_def NewCachedBackend_def Let_def)

theorem secret_cache_ttl_witness:
  "fst (cb_Get witness_env 59 59 ''i'' (witness_cache, NewInMemoryBackend [])) = Inr witness_item
   \<and> fst (cb_Get witness_env 60 60 ''i'' (witness_cache, NewInMemoryBackend [])) = Inl ErrNotFound"
proof -
  obtain e where e: "mget (secretCache witness_cache) ''i'' = Some e" "cs_expiresAt e = 60"
    "toSecretItem e = witness_item"
    using witness_cache_entry by blast
  have opt: "CacheSecrets (opts witness_env)" "resolveID witness_cache ''i'' = ''i''"
    by (simp_all add: witness_env_def)
  have get: "rawGet (raw witness_env) ''i'' (NewInMemoryBackend []) = (Inl ErrNotFound, NewInMemoryBackend [])"
    by (simp add: witness_env_def inMemoryRaw_def mem_Get_def NewInMemoryBackend_def)
  note ttl = secret_cache_ttl [OF witness_env_ok witness_cache_inv opt e(1), of _ _ "NewInMemoryBackend []"]
  show ?thesis using ttl [of 59 59] ttl [of 60 60] e by (auto simp: get)
qed

subsection \<open>Where the caches differ from the backend\<close>

text \<open>
  C36. The first \<open>Save\<close> on a metadata cache that was never loaded marks the cache as loaded
  although it holds only the saved item: from then on \<open>List\<close> answers that single item whatever
  the backend holds, and \<open>Search\<close> finds nothing else.
\<close>

theorem fresh_save_hides_items:
  assumes "order_ok ord" "CacheMetadata (opts env)" "\<not> metaLoaded b" "metaCache b = []"
    and "cb_SaveSync env now (Some it) (b, r) = ((None, Some it'), b', r')" "ID it' \<noteq> ''''"
  shows "cb_List env ord (b', rr) = (Inr [withoutSecret it'], b', rr)
    \<and> (\<exists>xs. cb_Search env ord attrs (b', rr) = (Inr xs, b', rr) \<and> set xs \<subseteq> {withoutSecret it'})"
proof -
  have b': "b' = cacheSavedItem env now it' b"
    using assms(5) by (auto simp: cb_SaveSync_def Let_def split: prod.splits option.splits)
  have "metaLoaded b'" "metaCache b' = [(ID it', withoutSecret it')]"
    using assms(2,4,6) by (simp_all add: b' cacheSavedItem_def Let_def putMeta_def)
  moreover have "ord [(ID it', withoutSecret it')] = [(ID it', withoutSecret it')]"
    using assms(1) unfolding order_ok_def by (metis mset_single_iff)
  ultimately show ?thesis
    using assms(2) by (simp add: cb_List_def cb_Search_def metadata_def copySecretItemsWithoutSecrets_def)
qed

theorem fresh_save_hides_items_witness:
  "let it = witness_item\<lparr>ID := ''n''\<rparr>;
       (_, b', r') = cb_SaveSync witness_env 0 (Some it) (witness_cache, witness_backend)
   in fst (cb_List witness_env (\<lambda>xs. xs) (b', r')) = Inr [withoutSecret it]
      \<and> mem_contents r' ''k'' = Some (witness_item\<lparr>ID := ''k''\<rparr>)"
proof -
  let ?it = "witness_item\<lparr>ID := ''n''\<rparr>"
  let ?b = "cacheSavedItem witness_env 0 ?it witness_cache"
  let ?r = "witness_backend\<lparr>items := mput (items witness_backend) ''n'' ?it\<rparr>"
  have not_pending: "\<not> isPendingID ''n''" by (simp add: isPendingID_def hasPrefix_def pendingIDPrefix_def)
  have save: "cb_SaveSync witness_env 0 (Some ?it) (witness_cache, witness_backend) = ((None, Some ?it), ?b, ?r)"
    using not_pending by (simp add: cb_SaveSync_def Let_def witness_env_def inMemoryRaw_def mem_Save_def)
  have fresh: "CacheMetadata (opts witness_env)" "\<not> metaLoaded witness_cache"
    by (simp_all add: witness_env_def witness_cache_def NewCachedBackend_def Let_def)
  have "cb_List witness_env (\<lambda>xs. xs) (?b, ?r) = (Inr [withoutSecret ?it], ?b, ?r)"
    using fresh_save_hides_items [OF order_ok_id fresh witness_cache_fresh(2) save] by simp
  moreover have "mem_contents ?r ''k'' = Some (witness_item\<lparr>ID := ''k''\<rparr>)"
    by (simp add: mem_contents_def witness_backend_def)
  ultimately show ?thesis unfolding Let_def save by simp
qed

text \<open>
  Saving an item whose new secret is empty leaves the previous secret in the secret cache
  (memguard gives no live buffer for an empty slice, and the cache returns before it drops the
  old entry), so \<open>Get\<close> keeps answering the old secret until it expires, although the backend
  holds the new one.
\<close>

theorem empty_secret_keeps_old:
  assumes "cache_inv b" "CacheSecrets (opts env)" "idAliases b = []" "newBuffer env [] = None"
    and "mget (secretCache b) (ID it) = Some e" "Secret it = None \<or> Secret it = Some []"
    and "ID it \<noteq> ''''" "\<not> isPendingID (ID it)" "rawSave (raw env) it r = ((None, it), r')"
    and "now' < cs_expiresAt e"
  shows "\<exists>b' b''. cb_SaveSync env now (Some it) (b, r) = ((None, Some it), b', r')
    \<and> cb_Get env now' now'' (ID it) (b', r') = (Inr (toSecretItem e), b'', r')"
proof -
  have save: "cb_SaveSync env now (Some it) (b, r) = ((None, Some it), cacheSavedItem env now it b, r')"
    using assms(3,7,8,9) by (simp add: cb_SaveSync_def Let_def)
  have live: "entry_live e" using assms(1,5) by (auto simp: cache_inv_def secret_wf_def)
  have "storeSecretCache env now it b1 = b1" for b1
    using assms(4,6) by (auto simp: storeSecretCache_def)
  then have "secretCache (cacheSavedItem env now it b) = secretCache b"
    "idAliases (cacheSavedItem env now it b) = []"
    using assms(3) by (simp_all add: cacheSavedItem_def Let_def putMeta_def)
  then have "getCachedSecret env now' (ID it) (cacheSavedItem env now it b) =
      (Some (toSecretItem e), (cacheSavedItem env now it b)\<lparr>secretCache :=
         mput (secretCache b) (ID it) (e\<lparr>cs_expiresAt := now' + SecretCacheTTL (opts env)\<rparr>)\<rparr>)"
    using getCachedSecret_hit [OF _ live assms(10), of "cacheSavedItem env now it b" "ID it" env] assms(5)
    by simp
  then show ?thesis
    using save assms(2) \<open>idAliases (cacheSavedItem env now it b) = []\<close> by (auto simp: cb_Get_def Let_def)
qed

theorem empty_secret_keeps_old_witness:
  "let it = witness_item\<lparr>Secret := Some []\<rparr>;
       (_, b', r') = cb_SaveSync witness_env 1 (Some it) (witness_cache, witness_backend)
   in fst (cb_Get witness_env 2 2 ''i'' (b', r')) = Inr witness_item
      \<and> mem_contents r' ''i'' = Some it"
proof -
  let ?it = "witness_item\<lparr>Secret := Some []\<rparr>"
  let ?r = "witness_backend\<lparr>items := mput (items witness_backend) ''i'' ?it\<rparr>"
  obtain e where e: "mget (secretCache witness_cache) ''i'' = Some e" "cs_expiresAt e = 60"
    "toSecretItem e = witness_item"
    using witness_cache_entry by blast
  have pre: "CacheSecrets (opts witness_env)" "newBuffer witness_env [] = None"
      "mget (secretCache witness_cache) (ID ?it) = Some e" "ID ?it \<noteq> ''''" "\<not> isPendingID (ID ?it)"
      "rawSave (raw witness_env) ?it witness_backend = ((None, ?it), ?r)"
    using e(1) by (simp_all add: witness_env_def witness_item_def isPendingID_def hasPrefix_def
        pendingIDPrefix_def inMemoryRaw_def mem_Save_def)
  have "\<exists>b' b''. cb_SaveSync witness_env 1 (Some ?it) (witness_cache, witness_backend) = ((None, Some ?it), b', ?r)
    \<and> cb_Get witness_env 2 2 (ID ?it) (b', ?r) = (Inr (toSecretItem e), b'', ?r)"
    by (rule empty_secret_keeps_old [OF witness_cache_inv pre(1) witness_cache_fresh(1) pre(2,3) _ pre(4-6)])
      (simp_all add: e(2))
  then show ?thesis
    by (auto simp: e(3) mem_contents_def witness_item_def)
qed

end
