(* ===== verification/Keyring_Async.thy ===== *)
theory Keyring_Async
  imports Keyring_Refine
begin

text \<open>
  The asynchronous saves of \<^verbatim>\<open>CachedBackend\<close> (\<^verbatim>\<open>cmd/wsl-keyring/backend_cache.go\<close>) and
  everything that runs beside them: a machine whose configuration holds the cache, the raw
  backend and the goroutines under way. One step is one section the code runs under a lock, or
  one call of the raw backend, and the steps of different goroutines interleave freely.

  A \<^verbatim>\<open>done\<close> channel is closed by the last step of the goroutine that owns it, so a goroutine
  that waits for its predecessor waits for the flag \<open>ps_done\<close>. The wait and the locked check
  that follows it are one step: a closed channel stays closed.
\<close>

subsection \<open>The locked sections\<close>

text \<open>What a goroutine started by \<open>Save\<close> was given: its state, \<^verbatim>\<open>pendingID\<close> and
  \<^verbatim>\<open>trackingKey\<close>.\<close>

record persist =
  p_addr :: nat
  p_pending :: string
  p_key :: string

datatype pc =
    PWait SecretItem
  | PSave SecretItem
  | PCommit "berror option" SecretItem
  | PDelete string
  | PExit
  | PDone

text \<open>The body of \<open>Save\<close> in asynchronous mode, from the lock to the \<^verbatim>\<open>go\<close> statement. The
  item comes back with the identifier written into it.\<close>

definition asyncSave ::
    "'r cache_env \<Rightarrow> gotime \<Rightarrow> bytes option \<Rightarrow> SecretItem \<Rightarrow> CachedBackend
      \<Rightarrow> (berror + SecretItem \<times> persist \<times> SecretItem) \<times> CachedBackend" where
  "asyncSave env now rnd it0 b =
     (let it = (if ID it0 \<noteq> '''' then it0\<lparr>ID := resolveID b (ID it0)\<rparr> else it0);
          start = (\<lambda>pendingID key it' pit.
            let (a, b1) = addPendingSaveLocked key (pendingID \<noteq> '''') b;
                b2 = (if CacheMetadata (opts env) then putMeta it' b1 else b1);
                b3 = (if CacheSecrets (opts env) then storeSecretCache env now it' b2 else b2)
            in (Inr (it', \<lparr>p_addr = a, p_pending = pendingID, p_key = key\<rparr>, pit), b3))
      in if ID it = '''' then
           (case newPendingID rnd of
              Inl e \<Rightarrow> (Inl e, b)
            | Inr p \<Rightarrow> start p p (it\<lparr>ID := p\<rparr>) ((copySecretItem it)\<lparr>ID := ''''\<rparr>))
         else if isPendingID (ID it) then start (ID it) (ID it) it ((copySecretItem it)\<lparr>ID := ''''\<rparr>)
         else start '''' (ID it) it (copySecretItem it))"

text \<open>The wait was cancelled by the save timeout.\<close>

definition persistCancel :: "persist \<Rightarrow> CachedBackend \<Rightarrow> pc \<times> CachedBackend" where
  "persistCancel p b = (PExit, removePendingSaveLocked (p_key p) (p_addr p) b)"

text \<open>The real identifier a pending one was given, or the given default.\<close>

definition realOr :: "CachedBackend \<Rightarrow> string \<Rightarrow> string \<Rightarrow> string" where
  "realOr b pendingID dflt =
     (case mget (idAliases b) pendingID of
        Some realID \<Rightarrow> if isPendingID realID then dflt else realID
      | None \<Rightarrow> dflt)"

text \<open>The locked check before the raw save.\<close>

definition persistCheck :: "persist \<Rightarrow> SecretItem \<Rightarrow> CachedBackend \<Rightarrow> pc \<times> CachedBackend" where
  "persistCheck p it b =
     (let st = psHeap b ! p_addr p
      in if ps_deleted st \<or> ps_superseded st then
           (let b1 = removePendingSaveLocked (p_key p) (p_addr p) b;
                target = (if isPendingID (p_key p) \<and> p_pending p \<noteq> ''''
                          then realOr b1 (p_pending p) (p_key p) else p_key p)
            in (if ps_deleted st \<and> \<not> isPendingID target then PDelete target else PExit, b1))
         else
           (let it' = (if ID it = '''' \<and> p_pending p \<noteq> '''' then
                         (case mget (idAliases b) (p_pending p) of
                            Some realID \<Rightarrow> if realID \<noteq> '''' then it\<lparr>ID := realID\<rparr> else it
                          | None \<Rightarrow> it)
                       else it)
            in (PSave it', b)))"

text \<open>Giving a pending item its real identifier: the alias, the queued saves, the metadata entry
  and the secret entry.\<close>

definition renameQueue :: "string \<Rightarrow> string \<Rightarrow> CachedBackend \<Rightarrow> CachedBackend" where
  "renameQueue pendingID realID b =
     (let remaining = mgetL (pendingSaves b) pendingID
      in if remaining = [] then b
         else b\<lparr>pendingSaves :=
                mdel (mput (pendingSaves b) realID (mgetL (pendingSaves b) realID @ remaining)) pendingID\<rparr>)"

definition renameMeta :: "'r cache_env \<Rightarrow> string \<Rightarrow> SecretItem \<Rightarrow> CachedBackend \<Rightarrow> CachedBackend" where
  "renameMeta env pendingID it b =
     (case mget (metaCache b) pendingID of
        Some cached \<Rightarrow>
          b\<lparr>metaCache := mput (mdel (metaCache b) pendingID) (ID it) (cached\<lparr>ID := ID it\<rparr>)\<rparr>
      | None \<Rightarrow>
          if CacheMetadata (opts env)
          then b\<lparr>metaCache := mput (metaCache b) (ID it) (withoutSecret it)\<rparr> else b)"

definition renameSecret :: "'r cache_env \<Rightarrow> string \<Rightarrow> string \<Rightarrow> CachedBackend \<Rightarrow> CachedBackend" where
  "renameSecret env pendingID realID b =
     (case mget (secretCache b) pendingID of
        None \<Rightarrow> b
      | Some entry \<Rightarrow>
          (let sc = mdel (secretCache b) pendingID;
               gone = (case mget sc realID of None \<Rightarrow> [] | Some old \<Rightarrow> buffersOf (cs_destroy env old))
           in b\<lparr>secretCache := mput sc realID (entry\<lparr>cs_id := realID\<rparr>), dropped := dropped b @ gone\<rparr>))"

definition renamePending :: "'r cache_env \<Rightarrow> string \<Rightarrow> SecretItem \<Rightarrow> CachedBackend \<Rightarrow> CachedBackend" where
  "renamePending env pendingID it b =
     renameSecret env pendingID (ID it)
       (renameMeta env pendingID it
         (renameQueue pendingID (ID it) (b\<lparr>idAliases := mput (idAliases b) pendingID (ID it)\<rparr>)))"

text \<open>The locked section after the raw save.\<close>

definition persistCommit ::
    "'r cache_env \<Rightarrow> persist \<Rightarrow> berror option \<Rightarrow> SecretItem \<Rightarrow> CachedBackend \<Rightarrow> pc \<times> CachedBackend" where
  "persistCommit env p err it b =
     (let st = psHeap b ! p_addr p;
          b1 = removePendingSaveLocked (p_key p) (p_addr p) b;
          b2 = (if \<not> ps_deleted st \<and> err = None \<and> p_pending p \<noteq> '''' \<and> ID it \<noteq> '''' \<and> ID it \<noteq> p_pending p
                then renamePending env (p_pending p) it b1 else b1);
          target = (if \<not> ps_deleted st \<or> \<not> ps_isNew st then p_key p
                    else if err = None \<and> ID it \<noteq> '''' \<and> \<not> isPendingID (ID it) then ID it
                    else if p_pending p \<noteq> '''' then realOr b2 (p_pending p) (p_key p)
                    else p_key p)
      in (if ps_deleted st \<and> \<not> isPendingID target then PDelete target else PExit, b2))"

text \<open>The deferred \<^verbatim>\<open>close(state.done)\<close>.\<close>

definition closeDone :: "persist \<Rightarrow> CachedBackend \<Rightarrow> CachedBackend" where
  "closeDone p b = b\<lparr>psHeap := updStates (\<lambda>s. s\<lparr>ps_done := True\<rparr>) [p_addr p] (psHeap b)\<rparr>"

definition prevClosed :: "persist \<Rightarrow> CachedBackend \<Rightarrow> bool" where
  "prevClosed p b =
     (case ps_prevDone (psHeap b ! p_addr p) of None \<Rightarrow> True | Some a \<Rightarrow> ps_done (psHeap b ! a))"

subsection \<open>The machine\<close>

text \<open>Goroutines: the persisting one of a save, and the ones that serve \<open>Delete\<close>, \<open>Get\<close>, the
  metadata load and the authentication check. A deletion carries the identifier it was asked for
  and the one it resolved to.\<close>

datatype dpc = DRaw | DEvict | DSecrets "string list" | DDone "berror option"

datatype gpc = GLookup string | GRaw string | GStore SecretItem | GAuth SecretItem | GDone "berror + SecretItem"

datatype lpc = LRaw | LInstall "SecretItem list" | LDone "berror option"

datatype apc = ACheck | AClear | AFlag | ADone

datatype task =
    TPersist persist pc
  | TDelete string string dpc
  | TGet gpc
  | TLoad lpc
  | TAuth apc

record 'r conf =
  cb :: CachedBackend
  rst :: 'r
  tasks :: "task list"

datatype action =
    CSave SecretItem "bytes option" gotime
  | CDelete string
  | CGet string
  | CLoad
  | Run nat gotime
  | Timeout nat

text \<open>One step of a persisting goroutine.\<close>

fun run_persist ::
    "'r cache_env \<Rightarrow> persist \<Rightarrow> pc \<Rightarrow> CachedBackend \<times> 'r \<Rightarrow> (pc \<times> CachedBackend \<times> 'r) option" where
  "run_persist env p (PWait it) (b, r) =
     (if prevClosed p b then (case persistCheck p it b of (pc', b') \<Rightarrow> Some (pc', b', r)) else None)"
| "run_persist env p (PSave it) (b, r) =
     (case rawSave (raw env) it r of ((err, it'), r') \<Rightarrow> Some (PCommit err it', b, r'))"
| "run_persist env p (PCommit err it) (b, r) =
     (case persistCommit env p err it b of (pc', b') \<Rightarrow> Some (pc', b', r))"
| "run_persist env p (PDelete target) (b, r) =
     (case rawDelete (raw env) target r of (_, r') \<Rightarrow> Some (PExit, b, r'))"
| "run_persist env p PExit (b, r) = Some (PDone, closeDone p b, r)"
| "run_persist env p PDone (b, r) = None"

fun run_delete ::
    "'r cache_env \<Rightarrow> string \<Rightarrow> string \<Rightarrow> dpc \<Rightarrow> CachedBackend \<times> 'r \<Rightarrow> (dpc \<times> CachedBackend \<times> 'r) option" where
  "run_delete env i j DRaw (b, r) =
     (case rawDelete (raw env) j r of
        (None, r') \<Rightarrow> Some (DEvict, b, r')
      | (Some e, r') \<Rightarrow> Some (if e = ErrNotFound then DEvict else DDone (Some e), b, r'))"
| "run_delete env i j DEvict (b, r) = Some (DSecrets [i, j], evictItemFromCachesLocked i j b, r)"
| "run_delete env i j (DSecrets []) (b, r) = Some (DDone None, b, r)"
| "run_delete env i j (DSecrets (k # ks)) (b, r) = Some (DSecrets ks, deleteSecretCache env k b, r)"
| "run_delete env i j (DDone res) (b, r) = None"

text \<open>The Boolean of \<open>run_get\<close> says that an authentication check was started.\<close>

fun run_get ::
    "'r cache_env \<Rightarrow> gotime \<Rightarrow> gpc \<Rightarrow> CachedBackend \<times> 'r \<Rightarrow> (gpc \<times> bool \<times> CachedBackend \<times> 'r) option" where
  "run_get env now (GLookup i) (b, r) =
     (if CacheSecrets (opts env) then
        (case getCachedSecret env now i b of
           (Some it, b') \<Rightarrow> Some (GAuth it, False, b', r)
         | (None, b') \<Rightarrow> Some (GRaw i, False, b', r))
      else Some (GRaw i, False, b, r))"
| "run_get env now (GAuth it) (b, r) =
     (case checkAuthAfterCacheAccess env now b of (started, b') \<Rightarrow> Some (GDone (Inr it), started, b', r))"
| "run_get env now (GRaw i) (b, r) =
     (case rawGet (raw env) i r of
        (Inl e, r') \<Rightarrow> Some (GDone (Inl e), False, b, r')
      | (Inr it, r') \<Rightarrow>
          Some (if CacheSecrets (opts env) then GStore it else GDone (Inr (copySecretItem it)), False, b, r'))"
| "run_get env now (GStore it) (b, r) =
     Some (GDone (Inr (copySecretItem it)), False, storeSecretCache env now it b, r)"
| "run_get env now (GDone res) (b, r) = None"

fun run_load :: "'r cache_env \<Rightarrow> lpc \<Rightarrow> CachedBackend \<times> 'r \<Rightarrow> (lpc \<times> CachedBackend \<times> 'r) option" where
  "run_load env LRaw (b, r) =
     (case rawLoadMetadata (raw env) r of
        (Inl e, r') \<Rightarrow> Some (LDone (Some e), b, r')
      | (Inr its, r') \<Rightarrow> Some (LInstall its, b, r'))"
| "run_load env (LInstall its) (b, r) = Some (LDone None, installMetadataCache its b, r)"
| "run_load env (LDone res) (b, r) = None"

fun run_auth :: "'r cache_env \<Rightarrow> apc \<Rightarrow> CachedBackend \<times> 'r \<Rightarrow> (apc \<times> CachedBackend \<times> 'r) option" where
  "run_auth env ACheck (b, r) =
     (case rawCheckAuth (raw env) of
        None \<Rightarrow> Some (AFlag, b, r)
      | Some check \<Rightarrow> (case check r of (err, r') \<Rightarrow> Some (if err = None then AFlag else AClear, b, r')))"
| "run_auth env AClear (b, r) = Some (AFlag, clearSecretCache env b, r)"
| "run_auth env AFlag (b, r) = Some (ADone, b\<lparr>authCheckInFlight := False\<rparr>, r)"
| "run_auth env ADone (b, r) = None"

text \<open>One step of one goroutine, with the goroutines it starts.\<close>

fun run_task :: "'r cache_env \<Rightarrow> gotime \<Rightarrow> task \<Rightarrow> CachedBackend \<times> 'r
    \<Rightarrow> (task \<times> task list \<times> CachedBackend \<times> 'r) option" where
  "run_task env now (TPersist p pc) s = map_option (\<lambda>(pc', s'). (TPersist p pc', [], s')) (run_persist env p pc s)"
| "run_task env now (TDelete i j d) s = map_option (\<lambda>(d', s'). (TDelete i j d', [], s')) (run_delete env i j d s)"
| "run_task env now (TGet g) s =
     map_option (\<lambda>(g', started, s'). (TGet g', if started then [TAuth ACheck] else [], s')) (run_get env now g s)"
| "run_task env now (TLoad l) s = map_option (\<lambda>(l', s'). (TLoad l', [], s')) (run_load env l s)"
| "run_task env now (TAuth a) s = map_option (\<lambda>(a', s'). (TAuth a', [], s')) (run_auth env a s)"

fun step :: "'r cache_env \<Rightarrow> action \<Rightarrow> 'r conf \<Rightarrow> 'r conf option" where
  "step env (CSave it rnd now) c =
     (case asyncSave env now rnd it (cb c) of
        (Inl e, b') \<Rightarrow> Some (c\<lparr>cb := b'\<rparr>)
      | (Inr (_, p, pit), b') \<Rightarrow> Some (c\<lparr>cb := b', tasks := tasks c @ [TPersist p (PWait pit)]\<rparr>))"
| "step env (CDelete i) c =
     (let j = resolveID (cb c) i; b1 = deleteMark i (cb c)
      in if isPendingID j
         then Some (c\<lparr>cb := evictItemFromCachesLocked i j b1, tasks := tasks c @ [TDelete i j (DSecrets [i, j])]\<rparr>)
         else Some (c\<lparr>cb := b1, tasks := tasks c @ [TDelete i j DRaw]\<rparr>))"
| "step env (CGet i) c = Some (c\<lparr>tasks := tasks c @ [TGet (GLookup (resolveID (cb c) i))]\<rparr>)"
| "step env CLoad c = Some (c\<lparr>tasks := tasks c @ [TLoad (if metaLoaded (cb c) then LDone None else LRaw)]\<rparr>)"
| "step env (Run n now) c =
     (if n < length (tasks c) then
        map_option (\<lambda>(t', new, b', r'). c\<lparr>cb := b', rst := r', tasks := (tasks c)[n := t'] @ new\<rparr>)
          (run_task env now (tasks c ! n) (cb c, rst c))
      else None)"
| "step env (Timeout n) c =
     (if n < length (tasks c) then
        (case tasks c ! n of
           TPersist p (PWait it) \<Rightarrow>
             if ps_prevDone (psHeap (cb c) ! p_addr p) = None then None
             else (case persistCancel p (cb c) of
                     (pc', b') \<Rightarrow> Some (c\<lparr>cb := b', tasks := (tasks c)[n := TPersist p pc']\<rparr>))
         | _ \<Rightarrow> None)
      else None)"

fun steps :: "'r cache_env \<Rightarrow> action list \<Rightarrow> 'r conf \<Rightarrow> 'r conf option" where
  "steps env [] c = Some c"
| "steps env (a # as) c = (case step env a c of None \<Rightarrow> None | Some c' \<Rightarrow> steps env as c')"

definition initial :: "CachedBackend \<Rightarrow> 'r \<Rightarrow> 'r conf" where
  "initial b r = \<lparr>cb = b, rst = r, tasks = []\<rparr>"

inductive reachable :: "'r cache_env \<Rightarrow> 'r conf \<Rightarrow> bool" for env where
  launch: "reachable env (initial (snd (NewCachedBackend (raw env) o0 (newBuffer env) (destroyBuffer env))) r)"
| move: "reachable env c \<Longrightarrow> step env a c = Some c' \<Longrightarrow> reachable env c'"

subsection \<open>The cache invariant holds in every interleaving\<close>

lemma cache_inv_addPending:
  "addPendingSaveLocked k new b = (a, b') \<Longrightarrow> cache_inv b' = cache_inv b"
  using addPending_frame [of k new b] by auto

lemma cache_inv_asyncSave:
  assumes "memguard_ok env" "cache_inv b" "asyncSave env now rnd it b = (res, b')"
  shows "cache_inv b'"
  using assms
  by (auto simp: asyncSave_def Let_def cache_inv_addPending cache_inv_putMeta cache_inv_storeSecretCache
      split: if_splits sum.splits prod.splits)

lemma cache_inv_renameQueue [cache_intros]: "cache_inv b \<Longrightarrow> cache_inv (renameQueue p q b)"
  by (simp add: renameQueue_def Let_def)

lemma cache_inv_renameMeta [cache_intros]: "cache_inv b \<Longrightarrow> cache_inv (renameMeta env p it b)"
proof (cases "mget (metaCache b) p")
  case None
  then show "cache_inv b \<Longrightarrow> ?thesis" by (simp add: renameMeta_def cache_inv_def meta_wf_put)
next
  case (Some m)
  assume inv: "cache_inv b"
  then have "Secret m = None" using Some by (auto simp: cache_inv_def meta_wf_def)
  then show ?thesis using inv Some by (simp add: renameMeta_def cache_inv_def meta_wf_put meta_wf_del)
qed

lemma cache_inv_renameSecret [cache_intros]:
  assumes "memguard_ok env" "cache_inv b" "q \<noteq> ''''"
  shows "cache_inv (renameSecret env p q b)"
proof (cases "mget (secretCache b) p")
  case (Some e)
  then have "entry_live e" using assms(2) by (auto simp: cache_inv_def secret_wf_def)
  then have "secret_wf (mput (mdel (secretCache b) p) q (e\<lparr>cs_id := q\<rparr>))"
    using assms by (intro secret_wf_put secret_wf_del) (auto simp: cache_inv_def entry_live_def)
  then show ?thesis
    using assms destroyed_dead [OF assms(1)] Some
    by (auto simp: renameSecret_def Let_def cache_inv_def split: option.splits)
qed (use assms in \<open>simp add: renameSecret_def\<close>)

lemma cache_inv_renamePending:
  "memguard_ok env \<Longrightarrow> cache_inv b \<Longrightarrow> ID it \<noteq> '''' \<Longrightarrow> cache_inv (renamePending env p it b)"
  unfolding renamePending_def
  by (intro cache_inv_renameSecret cache_inv_renameMeta cache_inv_renameQueue) simp_all

lemma cache_inv_persistCheck:
  "cache_inv b \<Longrightarrow> persistCheck p it b = (pc', b') \<Longrightarrow> cache_inv b'"
  by (auto simp: persistCheck_def Let_def cache_inv_removePending split: if_splits)

lemma cache_inv_persistCommit:
  "memguard_ok env \<Longrightarrow> cache_inv b \<Longrightarrow> persistCommit env p err it b = (pc', b') \<Longrightarrow> cache_inv b'"
  by (auto simp: persistCommit_def Let_def cache_inv_removePending cache_inv_renamePending split: if_splits)

lemma cache_inv_run_persist:
  assumes "memguard_ok env" "cache_inv b" "run_persist env p pc (b, r) = Some (pc', b', r')"
  shows "cache_inv b'"
  using assms
  by (cases pc) (auto simp: closeDone_def dest: cache_inv_persistCheck cache_inv_persistCommit
      split: if_splits prod.splits)

lemma cache_inv_run_delete:
  assumes "memguard_ok env" "cache_inv b" "run_delete env i j d (b, r) = Some (d', b', r')"
  shows "cache_inv b'"
proof (cases d)
  case (DSecrets ks)
  then show ?thesis using assms by (cases ks) (auto intro: cache_intros)
qed (use assms in \<open>auto intro: cache_intros split: prod.splits option.splits if_splits\<close>)

lemma cache_inv_run_get:
  assumes "memguard_ok env" "cache_inv b" "run_get env now g (b, r) = Some (g', st, b', r')"
  shows "cache_inv b'"
  using assms cache_inv_checkAuth [of b env now]
  by (cases g) (auto intro: cache_intros split: prod.splits option.splits if_splits sum.splits)

lemma cache_inv_clear [cache_intros]:
  "memguard_ok env \<Longrightarrow> cache_inv b \<Longrightarrow> cache_inv (clearSecretCache env b)"
  using cache_inv_finishAuthCheck [of env b "Some ErrNotFound"]
  by (simp add: finishAuthCheck_def cache_inv_def)

lemma cache_inv_run_auth:
  assumes "memguard_ok env" "cache_inv b" "run_auth env a (b, r) = Some (a', b', r')"
  shows "cache_inv b'"
  using assms by (cases a) (auto simp: cache_inv_def [of "_\<lparr>authCheckInFlight := _\<rparr>"] intro: cache_intros
      simp flip: cache_inv_def split: prod.splits option.splits)

lemma cache_inv_run_load:
  assumes "cache_inv b" "run_load env l (b, r) = Some (l', b', r')"
  shows "cache_inv b'"
  using assms by (cases l) (auto intro: cache_intros split: prod.splits sum.splits)

lemma cache_inv_run_task:
  assumes "memguard_ok env" "cache_inv b" "run_task env now t (b, r) = Some (t', new, b', r')"
  shows "cache_inv b'"
  using assms
  by (cases t) (auto dest: cache_inv_run_persist cache_inv_run_delete cache_inv_run_get
      cache_inv_run_load cache_inv_run_auth)

lemma cache_inv_step:
  assumes "memguard_ok env" "cache_inv (cb c)" "step env a c = Some c'"
  shows "cache_inv (cb c')"
proof (cases a)
  case (CSave it rnd now)
  then show ?thesis
    using assms cache_inv_asyncSave [OF assms(1,2)] by (auto split: prod.splits sum.splits)
next
  case (Run n now)
  then show ?thesis
    using assms cache_inv_run_task [OF assms(1,2)] by (auto split: if_splits)
qed (use assms in \<open>auto simp: Let_def persistCancel_def cache_inv_evict cache_inv_deleteMark cache_inv_removePending
      split: if_splits task.splits pc.splits\<close>)

lemma cache_inv_reachable: "reachable env c \<Longrightarrow> memguard_ok env \<Longrightarrow> cache_inv (cb c)"
proof (induction rule: reachable.induct)
  case (launch o0 r)
  then show ?case by (simp add: initial_def cache_inv_new)
next
  case (move c a c')
  then show ?case using cache_inv_step by blast
qed

subsection \<open>Bookkeeping of pending saves\<close>

text \<open>The multiset of states that some queue holds.\<close>

definition pool :: "('k, 'v list) gomap \<Rightarrow> 'v multiset" where
  "pool m = mset (concat (map snd m))"

definition queues_wf :: "('k, 'v list) gomap \<Rightarrow> bool" where
  "queues_wf m \<longleftrightarrow> mwf m \<and> (\<forall>(k, l) \<in> set m. l \<noteq> [])"

lemma mgetL_simps [simp]:
  "mgetL (mput m k v) k' = (if k' = k then v else mgetL m k')"
  "mgetL (mdel m k) k' = (if k' = k then [] else mgetL m k')"
  by (simp_all add: mgetL_def)

lemma pool_mput: "mwf m \<Longrightarrow> pool (mput m k v) + mset (mgetL m k) = pool m + mset v"
proof (induction m)
  case (Cons x m)
  obtain a l where x: "x = (a, l)" by (cases x)
  have "k \<notin> fst ` set m \<Longrightarrow> mget m k = None" by (simp add: map_of_eq_None_iff)
  then show ?case
    using Cons by (auto simp: x pool_def mgetL_def ac_simps)
qed (simp add: pool_def mgetL_def)

lemma pool_mdel: "mwf m \<Longrightarrow> pool (mdel m k) + mset (mgetL m k) = pool m"
proof (induction m)
  case (Cons x m)
  obtain a l where x: "x = (a, l)" by (cases x)
  have "k \<notin> fst ` set m \<Longrightarrow> mget m k = None" by (simp add: map_of_eq_None_iff)
  moreover have "k \<notin> fst ` set m \<Longrightarrow> mdel m k = m" by (simp add: delete_id)
  ultimately show ?case
    using Cons by (auto simp: x pool_def mgetL_def ac_simps)
qed (simp add: pool_def mgetL_def)

lemma pool_member: "mwf m \<Longrightarrow> a \<in># pool m \<longleftrightarrow> (\<exists>k. a \<in> set (mgetL m k))"
  by (force simp: pool_def mgetL_def split: option.splits)

lemma queues_wf_mget: "queues_wf m \<longleftrightarrow> mwf m \<and> (\<forall>k. mget m k \<noteq> Some [])"
  unfolding queues_wf_def using mget_set_iff [of m] by blast

lemma queues_wf_mput: "queues_wf m \<Longrightarrow> v \<noteq> [] \<Longrightarrow> queues_wf (mput m k v)"
  by (simp add: queues_wf_mget)

lemma queues_wf_mdel: "queues_wf m \<Longrightarrow> queues_wf (mdel m k)"
  by (simp add: queues_wf_mget)

lemma queues_wf_empty: "queues_wf m \<Longrightarrow> mgetL m k = [] \<longleftrightarrow> mget m k = None"
  by (auto simp: queues_wf_def mgetL_def split: option.splits dest: mget_SomeD)

lemma queues_wf_pool_empty: "queues_wf m \<Longrightarrow> pool m = {#} \<Longrightarrow> m = []"
  by (cases m) (auto simp: queues_wf_def pool_def)

text \<open>Removing a state from the queue of one key, and from wherever it is.\<close>

lemma removeFromKey:
  assumes "queues_wf (pendingSaves b)" "removePendingSaveFromKeyLocked k a b = (found, b')"
  shows "found \<longleftrightarrow> a \<in> set (mgetL (pendingSaves b) k)"
    and "queues_wf (pendingSaves b')"
    and "pool (pendingSaves b') = (if found then pool (pendingSaves b) - {#a#} else pool (pendingSaves b))"
    and "\<not> found \<Longrightarrow> b' = b"
    and "mgetL (pendingSaves b') k' = (if k' = k then remove1 a (mgetL (pendingSaves b) k') else mgetL (pendingSaves b) k')"
proof -
  let ?m = "pendingSaves b" and ?l = "mgetL (pendingSaves b) k"
  let ?m' = "mput ?m k (remove1 a ?l)"
  have wf: "mwf ?m" "mwf ?m'" using assms(1) by (simp_all add: queues_wf_def)
  show found: "found \<longleftrightarrow> a \<in> set ?l"
    using assms(2) by (simp add: removePendingSaveFromKeyLocked_def Let_def)
  have absent: "b' = b" if "\<not> found"
  proof -
    have "mdel ?m k = ?m" if "?l = []"
      using that assms(1) by (simp add: queues_wf_empty delete_id map_of_eq_None_iff)
    then show ?thesis
      using assms(2) that by (auto simp: removePendingSaveFromKeyLocked_def Let_def split: if_splits)
  qed
  have p': "pendingSaves b' = (if remove1 a ?l = [] then mdel ?m' k else ?m')" if "found"
    using assms(2) found that by (auto simp: removePendingSaveFromKeyLocked_def Let_def split: if_splits)
  show "\<not> found \<Longrightarrow> b' = b" by (rule absent)
  show "queues_wf (pendingSaves b')"
  proof (cases "found \<and> remove1 a ?l = []")
    case True
    have "mget (mdel ?m' k) = mget (mdel ?m k)" by (auto simp: fun_eq_iff)
    then have "queues_wf (mdel ?m' k)"
      using queues_wf_mdel [OF assms(1), of k] wf by (simp add: queues_wf_mget)
    then show ?thesis using p' True by simp
  next
    case False
    then show ?thesis using assms(1) absent p' by (cases found) (simp_all add: queues_wf_mput)
  qed
  have "pool ?m' + {#a#} = pool ?m" if "found"
  proof -
    define L where "L = mset (remove1 a ?l)"
    have "mset ?l = add_mset a L" using that found by (simp add: L_def)
    then have "pool ?m' + {#a#} + L = pool ?m + L"
      using pool_mput [OF wf(1), of k "remove1 a ?l"] unfolding L_def [symmetric] by simp
    then show ?thesis by (simp only: add_right_cancel)
  qed
  then have "found \<Longrightarrow> pool ?m' = pool ?m - {#a#}" by (metis add_mset_add_single add_mset_remove_trivial)
  moreover have "remove1 a ?l = [] \<Longrightarrow> pool (mdel ?m' k) = pool ?m'"
    using pool_mdel [OF wf(2), of k] by (metis add.right_neutral mgetL_simps(1) mset.simps(1))
  ultimately show "pool (pendingSaves b') = (if found then pool ?m - {#a#} else pool ?m)"
    using absent p' by (cases found; cases "remove1 a ?l = []") simp_all
  show "mgetL (pendingSaves b') k' = (if k' = k then remove1 a (mgetL ?m k') else mgetL ?m k')"
    using absent p' found by (cases found) (auto simp: remove1_idem)
qed

lemma removeFallback:
  assumes "queues_wf (pendingSaves b)" "a \<in># pool (pendingSaves b)" "set (map fst (pendingSaves b)) \<subseteq> set done \<union> set ks"
    and "\<forall>k \<in> set done. a \<notin> set (mgetL (pendingSaves b) k)"
  shows "queues_wf (pendingSaves (removePendingFallback ks a b))
    \<and> pool (pendingSaves (removePendingFallback ks a b)) = pool (pendingSaves b) - {#a#}"
  using assms(3,4)
proof (induction ks arbitrary: "done")
  case Nil
  obtain k where k: "a \<in> set (mgetL (pendingSaves b) k)"
    using assms(1,2) pool_member [of "pendingSaves b" a] by (auto simp: queues_wf_def)
  then have "k \<in> fst ` set (pendingSaves b)"
    by (cases "mget (pendingSaves b) k") (auto simp: mgetL_def dest: mget_SomeD intro: rev_image_eqI)
  then show ?case using Nil k by auto
next
  case (Cons k ks)
  obtain found b' where k: "removePendingSaveFromKeyLocked k a b = (found, b')" by fastforce
  show ?case
  proof (cases found)
    case True
    then show ?thesis using removeFromKey [OF assms(1) k] by (simp add: k)
  next
    case False
    then show ?thesis
      using removeFromKey(1,4) [OF assms(1) k] Cons.IH [of "k # done"] Cons.prems by (auto simp: k)
  qed
qed

lemma removePending_pool:
  assumes "queues_wf (pendingSaves b)" "a \<in># pool (pendingSaves b)"
  shows "queues_wf (pendingSaves (removePendingSaveLocked k a b))
    \<and> pool (pendingSaves (removePendingSaveLocked k a b)) = pool (pendingSaves b) - {#a#}"
proof -
  obtain f1 b1 where 1: "removePendingSaveFromKeyLocked k a b = (f1, b1)" by fastforce
  show ?thesis
  proof (cases f1)
    case True
    then show ?thesis using removeFromKey [OF assms(1) 1] by (simp add: removePendingSaveLocked_def 1)
  next
    case False
    then have b1: "b1 = b" using removeFromKey(4) [OF assms(1) 1] by simp
    have fb: "queues_wf (pendingSaves (removePendingFallback (map fst (pendingSaves b)) a b))
      \<and> pool (pendingSaves (removePendingFallback (map fst (pendingSaves b)) a b)) = pool (pendingSaves b) - {#a#}"
      using removeFallback [OF assms, of "[]"] by simp
    show ?thesis
    proof (cases "mget (idAliases b) k")
      case (Some q)
      obtain f2 b2 where 2: "removePendingSaveFromKeyLocked q a b = (f2, b2)" by fastforce
      show ?thesis
        using removeFromKey [OF assms(1) 2] fb False b1 Some
        by (cases f2) (auto simp: removePendingSaveLocked_def 1 2)
    qed (use fb False b1 in \<open>simp add: removePendingSaveLocked_def 1\<close>)
  qed
qed

subsection \<open>Persisting goroutines and their states\<close>

fun persists :: "task list \<Rightarrow> (persist \<times> pc) list" where
  "persists [] = []"
| "persists (TPersist p pc # ts) = (p, pc) # persists ts"
| "persists (_ # ts) = persists ts"

fun queued :: "pc \<Rightarrow> bool" where
  "queued (PWait it) = True"
| "queued (PSave it) = True"
| "queued (PCommit err it) = True"
| "queued _ = False"

text \<open>The parts of a state that only its own goroutine writes.\<close>

definition same_links :: "pendingSaveState list \<Rightarrow> pendingSaveState list \<Rightarrow> bool" where
  "same_links h h' \<longleftrightarrow> length h' = length h \<and>
     (\<forall>a < length h. ps_done (h' ! a) = ps_done (h ! a) \<and> ps_prevDone (h' ! a) = ps_prevDone (h ! a)
        \<and> ps_isNew (h' ! a) = ps_isNew (h ! a) \<and> (ps_deleted (h ! a) \<longrightarrow> ps_deleted (h' ! a)))"

text \<open>
  The queues hold exactly the states of the goroutines that have not left them; every state has
  its goroutine, in the order of allocation; a channel is closed exactly when its goroutine has
  ended; and a goroutine waits only for an older one.
\<close>

definition book :: "CachedBackend \<Rightarrow> (persist \<times> pc) list \<Rightarrow> bool" where
  "book b ps \<longleftrightarrow> queues_wf (pendingSaves b)
     \<and> pool (pendingSaves b) = mset (map (p_addr \<circ> fst) (filter (queued \<circ> snd) ps))
     \<and> map (p_addr \<circ> fst) ps = [0..<length (psHeap b)]
     \<and> (\<forall>(p, pc) \<in> set ps. ps_done (psHeap b ! p_addr p) \<longleftrightarrow> pc = PDone)
     \<and> (\<forall>a < length (psHeap b). \<forall>a'. ps_prevDone (psHeap b ! a) = Some a' \<longrightarrow> a' < a)
     \<and> (\<forall>(p, pc) \<in> set ps. ps_isNew (psHeap b ! p_addr p) \<longleftrightarrow> p_pending p \<noteq> '''')"

lemma persists_append [simp]: "persists (ts @ us) = persists ts @ persists us"
  by (induction ts rule: persists.induct) auto

lemma persists_update:
  assumes "n < length ts" "ts ! n = TPersist p pc"
  shows "\<exists>A B. persists ts = A @ (p, pc) # B \<and> persists (ts[n := TPersist p pc']) = A @ (p, pc') # B"
proof -
  have "ts = take n ts @ TPersist p pc # drop (Suc n) ts" using assms id_take_nth_drop by metis
  moreover have "ts[n := TPersist p pc'] = take n ts @ TPersist p pc' # drop (Suc n) ts"
    using assms(1) by (rule upd_conv_take_nth_drop)
  ultimately show ?thesis by (metis persists.simps(2) persists_append)
qed

lemma persists_update_other:
  assumes "n < length ts" "persists [ts ! n] = []" "persists [t'] = []"
  shows "persists (ts[n := t']) = persists ts"
proof -
  have "persists ts = persists (take n ts) @ persists [ts ! n] @ persists (drop (Suc n) ts)"
    using assms(1) by (metis append_Cons append_Nil id_take_nth_drop persists_append)
  moreover have "persists (ts[n := t']) = persists (take n ts) @ persists [t'] @ persists (drop (Suc n) ts)"
    unfolding upd_conv_take_nth_drop [OF assms(1)] by (metis append_Cons append_Nil persists_append)
  ultimately show ?thesis using assms by simp
qed

lemma length_updStates [simp]: "length (updStates f as h) = length h"
  by (induction as arbitrary: h) (simp_all add: updStates_def)

lemma updStates_Cons: "updStates f (a # as) h = updStates f as (h[a := f (h ! a)])"
  by (simp add: updStates_def)

lemma same_links_refl [simp]: "same_links h h"
  by (simp add: same_links_def)

lemma same_links_trans: "same_links h h' \<Longrightarrow> same_links h' h'' \<Longrightarrow> same_links h h''"
  by (simp add: same_links_def)

lemma same_links_upd:
  assumes "\<And>s. ps_done (f s) = ps_done s \<and> ps_prevDone (f s) = ps_prevDone s \<and> ps_isNew (f s) = ps_isNew s
    \<and> (ps_deleted s \<longrightarrow> ps_deleted (f s))"
  shows "same_links h (updStates f as h)"
proof (induction as arbitrary: h)
  case (Cons a as)
  have "same_links h (h[a := f (h ! a)])"
  proof (cases "a < length h")
    case True
    then show ?thesis using assms [of "h ! a"] by (simp add: same_links_def nth_list_update)
  qed (simp add: list_update_beyond)
  then show ?case using Cons same_links_trans unfolding updStates_Cons by blast
qed (simp add: updStates_def)

lemma same_links_mark: "same_links (psHeap b) (psHeap (markPendingSavesDeletedLocked k b))"
  by (simp add: markPendingSavesDeletedLocked_def same_links_upd)

lemma same_links_fold_mark:
  "same_links (psHeap b)
     (psHeap (fold (\<lambda>(p, t) b'. if P t then markPendingSavesDeletedLocked p b' else b') xs b))"
proof (induction xs arbitrary: b)
  case (Cons x xs)
  show ?case using Cons same_links_trans [OF same_links_mark Cons] by (auto split: prod.split)
qed simp

lemma deleteMark_links: "same_links (psHeap b) (psHeap (deleteMark i b))"
  unfolding deleteMark_def Let_def markAliases_def
  by (intro same_links_trans [OF _ same_links_fold_mark])
    (auto intro: same_links_mark same_links_trans [OF same_links_mark same_links_mark])

lemma book_addr: "book b ps \<Longrightarrow> (p, pc) \<in> set ps \<Longrightarrow> p_addr p < length (psHeap b)"
proof -
  assume "book b ps" "(p, pc) \<in> set ps"
  then have "p_addr p \<in> set [0..<length (psHeap b)]"
    unfolding book_def using image_eqI [of "p_addr p" "p_addr \<circ> fst" "(p, pc)" "set ps"]
    by (metis comp_apply fst_conv list.set_map)
  then show ?thesis by simp
qed

lemma book_same_links:
  assumes "book b ps" "pendingSaves b' = pendingSaves b" "same_links (psHeap b) (psHeap b')"
  shows "book b' ps"
proof -
  note addr = book_addr [OF assms(1)]
  show ?thesis
    using assms addr unfolding book_def same_links_def by (auto simp: case_prod_beta)
qed

lemma book_split:
  assumes "book b (A @ (p, pc) # B)" "(p', pc') \<in> set (A @ B)"
  shows "p_addr p' \<noteq> p_addr p"
proof -
  have "distinct (map (p_addr \<circ> fst) (A @ (p, pc) # B))"
    using assms(1) by (metis book_def distinct_upt)
  then show ?thesis using assms(2) by force
qed

text \<open>A goroutine that stays in its queue, or that has left it, moves on.\<close>

lemma book_advance:
  assumes "book b (A @ (p, pc) # B)" "queued pc' = queued pc" "pc \<noteq> PDone" "pc' \<noteq> PDone"
  shows "book b (A @ (p, pc') # B)"
  using assms unfolding book_def by (auto simp: case_prod_beta)

text \<open>A goroutine leaves its queue.\<close>

lemma book_leave:
  assumes "book b (A @ (p, pc) # B)" "queued pc" "\<not> queued pc'" "pc' \<noteq> PDone"
    and "queues_wf (pendingSaves b')" "pool (pendingSaves b') = pool (pendingSaves b) - {#p_addr p#}"
    and "psHeap b' = psHeap b"
  shows "book b' (A @ (p, pc') # B)"
  using assms unfolding book_def by (auto simp: case_prod_beta)

lemma book_close:
  assumes "book b (A @ (p, PExit) # B)"
  shows "book (closeDone p b) (A @ (p, PDone) # B)"
proof -
  have len: "p_addr p < length (psHeap b)" by (rule book_addr [OF assms, where pc = PExit]) simp
  have heap: "psHeap (closeDone p b) = (psHeap b)[p_addr p := (psHeap b ! p_addr p)\<lparr>ps_done := True\<rparr>]"
    by (simp add: closeDone_def updStates_def)
  show ?thesis
    using assms len book_split [OF assms] unfolding book_def heap
    by (auto simp: case_prod_beta closeDone_def nth_list_update) metis+
qed

lemma book_pool:
  "book b (A @ (p, pc) # B) \<Longrightarrow> queued pc \<Longrightarrow> queues_wf (pendingSaves b) \<and> p_addr p \<in># pool (pendingSaves b)"
  by (simp add: book_def)

lemma removePending_sel [simp]:
  "psHeap (removePendingSaveLocked k a b) = psHeap b"
  "idAliases (removePendingSaveLocked k a b) = idAliases b"
  "metaCache (removePendingSaveLocked k a b) = metaCache b"
  "secretCache (removePendingSaveLocked k a b) = secretCache b"
  "metaLoaded (removePendingSaveLocked k a b) = metaLoaded b"
  using removePendingSaveLocked_frame [of k a b] by auto

lemma book_remove:
  assumes "book b (A @ (p, pc) # B)" "queued pc" "\<not> queued pc'" "pc' \<noteq> PDone"
  shows "book (removePendingSaveLocked k (p_addr p) b) (A @ (p, pc') # B)"
  using book_leave [OF assms] removePending_pool [of b "p_addr p" k] book_pool [OF assms(1,2)] by simp

lemma renameQueue_book:
  assumes "book b ps" "q \<noteq> p"
  shows "book (renameQueue p q b) ps"
proof (cases "mgetL (pendingSaves b) p = []")
  case False
  let ?m = "pendingSaves b"
  let ?m' = "mput ?m q (mgetL ?m q @ mgetL ?m p)"
  have wf: "queues_wf ?m" using assms(1) by (simp add: book_def)
  then have "queues_wf ?m'" using False by (intro queues_wf_mput) simp_all
  then have wf': "queues_wf (mdel ?m' p)" "mwf ?m'" by (rule queues_wf_mdel) (simp add: queues_wf_def wf [unfolded queues_wf_def])
  have mput: "pool ?m' + mset (mgetL ?m q) = pool ?m + mset (mgetL ?m q @ mgetL ?m p)"
    using wf by (intro pool_mput) (simp add: queues_wf_def)
  have mdel: "pool (mdel ?m' p) + mset (mgetL ?m p) = pool ?m'"
    using pool_mdel [OF wf'(2), of p] assms(2) by simp
  have "pool (mdel ?m' p) + (mset (mgetL ?m p) + mset (mgetL ?m q)) = pool ?m + (mset (mgetL ?m p) + mset (mgetL ?m q))"
    using mput unfolding mdel [symmetric] by (simp add: ac_simps)
  then have "pool (mdel ?m' p) = pool ?m" by (simp only: add_right_cancel)
  moreover have "pendingSaves (renameQueue p q b) = mdel ?m' p" "psHeap (renameQueue p q b) = psHeap b"
    using False by (simp_all add: renameQueue_def Let_def)
  ultimately show ?thesis using assms(1) wf'(1) unfolding book_def by simp
qed (use assms in \<open>simp add: renameQueue_def\<close>)


lemma renameRest_sel:
  "pendingSaves (renameSecret env p q b) = pendingSaves b" "psHeap (renameSecret env p q b) = psHeap b"
  "idAliases (renameSecret env p q b) = idAliases b"
  "pendingSaves (renameMeta env p it b) = pendingSaves b" "psHeap (renameMeta env p it b) = psHeap b"
  "idAliases (renameMeta env p it b) = idAliases b"
  "psHeap (renameQueue p q b) = psHeap b" "idAliases (renameQueue p q b) = idAliases b"
  by (auto simp: renameSecret_def renameMeta_def renameQueue_def Let_def split: option.split)

lemma renamePending_book:
  assumes "book b ps" "ID it \<noteq> p"
  shows "book (renamePending env p it b) ps"
proof -
  have "book (b\<lparr>idAliases := mput (idAliases b) p (ID it)\<rparr>) ps"
    using assms(1) by (rule book_same_links) simp_all
  then have "book (renameQueue p (ID it) (b\<lparr>idAliases := mput (idAliases b) p (ID it)\<rparr>)) ps"
    using assms(2) by (rule renameQueue_book)
  then show ?thesis by (simp add: renamePending_def book_def renameRest_sel)
qed

lemma book_add:
  assumes "book b ps" "addPendingSaveLocked k (pid \<noteq> '''') b = (a, b')"
  shows "book b' (ps @ [(\<lparr>p_addr = a, p_pending = pid, p_key = key\<rparr>, PWait it)]) \<and> a = length (psHeap b)"
proof -
  let ?m = "pendingSaves b" and ?l = "mgetL (pendingSaves b) k"
  define h where "h = updStates (\<lambda>s. s\<lparr>ps_superseded := True\<rparr>) ?l (psHeap b)"
  define st where "st = \<lparr>ps_done = False, ps_prevDone = (if ?l = [] then None else Some (last ?l)),
                ps_deleted = False, ps_superseded = False, ps_isNew = (pid \<noteq> '''')\<rparr>"
  have a: "a = length (psHeap b)" and b': "psHeap b' = h @ [st]" "pendingSaves b' = mput ?m k (?l @ [a])"
    using assms(2) by (auto simp: addPendingSaveLocked_def Let_def h_def st_def)
  have links: "same_links (psHeap b) h" unfolding h_def by (rule same_links_upd) simp
  then have "book (b\<lparr>psHeap := h\<rparr>) ps" by (intro book_same_links [OF assms(1)]) simp_all
  note bk = this [unfolded book_def]
  have len: "length h = length (psHeap b)" using links by (simp add: same_links_def)
  have wf: "queues_wf ?m" using assms(1) by (simp add: book_def)
  have "pool (mput ?m k (?l @ [a])) + mset ?l = pool ?m + mset (?l @ [a])"
    using wf by (intro pool_mput) (simp add: queues_wf_def)
  then have pool: "pool (mput ?m k (?l @ [a])) = add_mset a (pool ?m)" by simp
  have "last ?l < length (psHeap b)" if "?l \<noteq> []"
  proof -
    have "last ?l \<in># pool ?m"
      using that wf last_in_set by (metis pool_member queues_wf_def)
    then obtain p pc where "(p, pc) \<in> set ps" "last ?l = p_addr p" using assms(1) by (auto simp: book_def)
    then show ?thesis using book_addr [OF assms(1)] by simp
  qed
  then have prev: "\<forall>a'. ps_prevDone st = Some a' \<longrightarrow> a' < length (psHeap b)" by (simp add: st_def)
  have old: "p_addr p < length h" if "(p, pc) \<in> set ps" for p pc
    using book_addr [OF assms(1) that] len by simp
  show ?thesis
    using bk prev old wf pool len a
    by (auto simp: book_def b' nth_append queues_wf_mput case_prod_beta less_Suc_eq st_def)
qed

lemma asyncSave_effect:
  assumes "asyncSave env now rnd it b = (Inr (it', p, pit), b')"
  obtains a b1 where "addPendingSaveLocked (p_key p) (p_pending p \<noteq> '''') b = (a, b1)" "p_addr p = a"
    "psHeap b' = psHeap b1" "pendingSaves b' = pendingSaves b1" "idAliases b' = idAliases b1"
    "if p_pending p = '''' then ID pit = p_key p \<and> p_key p \<noteq> '''' \<and> \<not> isPendingID (p_key p) \<and> p_key p = resolveID b (ID it)
     else ID pit = '''' \<and> p_key p = p_pending p \<and> isPendingID (p_pending p) \<and>
       (resolveID b (ID it) = p_pending p \<or> ID it = '''' \<or> resolveID b (ID it) = '''')"
  using assms isPendingID_nonempty newPendingID_pending
  by (auto simp: asyncSave_def Let_def putMeta_def split: if_splits sum.splits prod.splits)

subsection \<open>Steps seen from the persisting goroutines\<close>

text \<open>Deleting an alias, or all aliases of an identifier, never adds one.\<close>

definition fewer_aliases :: "CachedBackend \<Rightarrow> CachedBackend \<Rightarrow> bool" where
  "fewer_aliases b b' \<longleftrightarrow> (\<forall>k v. mget (idAliases b') k = Some v \<longrightarrow> mget (idAliases b) k = Some v)"

lemma aliases_wf_cleanup: "mwf m \<Longrightarrow> mwf (cleanupAliases ids m)"
  by (induction ids m rule: cleanupAliases.induct) (simp_all add: mwf_filter)

lemma cleanupAliases_subset: "set (cleanupAliases ids m) \<subseteq> set m"
proof (induction ids m rule: cleanupAliases.induct)
  case (2 i ids m)
  have "set (filter (\<lambda>(k, v). v \<noteq> i) (mdel m i)) \<subseteq> set m" by (auto simp: AList.delete_eq)
  then show ?case using 2 by auto
qed simp

lemma fewer_aliases_refl [simp]: "idAliases b' = idAliases b \<Longrightarrow> fewer_aliases b b'"
  by (simp add: fewer_aliases_def)

lemma evict_sel [simp]:
  "pendingSaves (evictItemFromCachesLocked i j b) = pendingSaves b"
  "psHeap (evictItemFromCachesLocked i j b) = psHeap b"
  by (simp_all add: evictItemFromCachesLocked_def)

lemma fewer_aliases_evict: "mwf (idAliases b) \<Longrightarrow> fewer_aliases b (evictItemFromCachesLocked i j b)"
  unfolding fewer_aliases_def evictItemFromCachesLocked_def
  using cleanupAliases_subset [of "[i, j]" "idAliases b"] aliases_wf_cleanup [of "idAliases b" "[i, j]"]
  by (auto dest!: mget_SomeD)

text \<open>Goroutines other than the persisting ones leave the queues and the states alone.\<close>

lemma run_other_frame:
  assumes "run_task env now t (b, r) = Some (t', new, b', r')" "persists [t] = []"
  shows "persists [t'] = [] \<and> persists new = [] \<and> pendingSaves b' = pendingSaves b \<and> psHeap b' = psHeap b
    \<and> (mwf (idAliases b) \<longrightarrow> mwf (idAliases b') \<and> fewer_aliases b b')"
proof (cases t)
  case (TDelete i j d)
  show ?thesis
  proof (cases d)
    case (DSecrets ks)
    then show ?thesis using assms(1) TDelete by (cases ks) auto
  next
    case DEvict
    then show ?thesis
      using assms(1) TDelete fewer_aliases_evict [of b i j] aliases_wf_cleanup [of "idAliases b" "[i, j]"]
      by (auto simp: evictItemFromCachesLocked_def)
  qed (use assms(1) TDelete in \<open>auto split: prod.splits option.splits\<close>)
next
  case (TGet g)
  have get: "idAliases (snd (getCachedSecret env now i b)) = idAliases b \<and>
      pendingSaves (snd (getCachedSecret env now i b)) = pendingSaves b \<and>
      psHeap (snd (getCachedSecret env now i b)) = psHeap b" for i
    by (auto simp: getCachedSecret_def Let_def split: option.split)
  have auth: "idAliases b1 = idAliases b \<and> pendingSaves b1 = pendingSaves b \<and> psHeap b1 = psHeap b"
    if "checkAuthAfterCacheAccess env now b = (st, b1)" for st b1
    using that checkAuth_sel [of env now b] by simp
  have hit: "idAliases b1 = idAliases b \<and> pendingSaves b1 = pendingSaves b \<and> psHeap b1 = psHeap b"
    if "getCachedSecret env now i b = (st, b1)" for i st b1
    using that get [of i] by simp
  show ?thesis
    using assms(1) TGet
    by (cases g) (auto dest: auth hit split: prod.splits option.splits if_splits sum.splits)
next
  case (TLoad l)
  then show ?thesis using assms(1) by (cases l) (auto simp: installMetadataCache_def split: prod.splits sum.splits)
next
  case (TAuth x)
  then show ?thesis using assms(1) by (cases x) (auto simp: clearSecretCache_def split: prod.splits option.splits)
qed (use assms(2) in simp)

lemma step_cases:
  assumes "step env a c = Some c'"
  obtains (save) it rnd now it' p pit where "a = CSave it rnd now"
      "asyncSave env now rnd it (cb c) = (Inr (it', p, pit), cb c')" "rst c' = rst c"
      "tasks c' = tasks c @ [TPersist p (PWait pit)]"
  | (persist) n now p pc pc' A B where "a = Run n now" "n < length (tasks c)" "tasks c ! n = TPersist p pc"
      "run_persist env p pc (cb c, rst c) = Some (pc', cb c', rst c')"
      "tasks c' = (tasks c)[n := TPersist p pc']"
      "persists (tasks c) = A @ (p, pc) # B" "persists (tasks c') = A @ (p, pc') # B"
  | (cancel) n p it A B where "a = Timeout n" "n < length (tasks c)" "tasks c ! n = TPersist p (PWait it)"
      "cb c' = removePendingSaveLocked (p_key p) (p_addr p) (cb c)" "rst c' = rst c"
      "tasks c' = (tasks c)[n := TPersist p PExit]"
      "persists (tasks c) = A @ (p, PWait it) # B" "persists (tasks c') = A @ (p, PExit) # B"
  | (delete) i where "a = CDelete i" "rst c' = rst c"
      "if isPendingID (resolveID (cb c) i)
       then cb c' = evictItemFromCachesLocked i (resolveID (cb c) i) (deleteMark i (cb c))
         \<and> tasks c' = tasks c @ [TDelete i (resolveID (cb c) i) (DSecrets [i, resolveID (cb c) i])]
       else cb c' = deleteMark i (cb c) \<and> tasks c' = tasks c @ [TDelete i (resolveID (cb c) i) DRaw]"
  | (other) n now t' new where "a = Run n now" "n < length (tasks c)" "persists [tasks c ! n] = []"
      "run_task env now (tasks c ! n) (cb c, rst c) = Some (t', new, cb c', rst c')"
      "tasks c' = (tasks c)[n := t'] @ new" "persists (tasks c') = persists (tasks c)"
  | (client) g where "cb c' = cb c" "rst c' = rst c" "tasks c' = tasks c @ g" "persists g = []"
      "\<forall>i j d. TDelete i j d \<notin> set g"
proof (cases a)
  case (CSave it rnd now)
  obtain res b' where r: "asyncSave env now rnd it (cb c) = (res, b')" by fastforce
  show ?thesis
  proof (cases res)
    case (Inl e)
    then have "b' = cb c" using r by (auto simp: asyncSave_def Let_def split: if_splits sum.splits prod.splits)
    then show ?thesis using client [of "[]"] assms CSave r Inl by simp
  next
    case (Inr x)
    then show ?thesis using save assms CSave r by (cases x) auto
  qed
next
  case (CDelete i)
  then show ?thesis using delete assms by (auto simp: Let_def split: if_splits)
next
  case (CGet i)
  then show ?thesis using client assms by auto
next
  case CLoad
  then show ?thesis using client assms by auto
next
  case (Run n now)
  then have n: "n < length (tasks c)" using assms by (simp split: if_splits)
  have others: ?thesis if np: "persists [tasks c ! n] = []"
    using other [OF Run n np] assms Run n run_other_frame [OF _ np] persists_update_other [OF n np]
    by fastforce
  show ?thesis
  proof (cases "tasks c ! n")
    case (TPersist p pc)
    then obtain pc' b' r' where run: "run_persist env p pc (cb c, rst c) = Some (pc', b', r')"
      using assms Run n by auto
    then have c': "c' = c\<lparr>cb := b', rst := r', tasks := (tasks c)[n := TPersist p pc']\<rparr>"
      using assms Run n TPersist by simp
    then show ?thesis
      using persist [OF Run n TPersist] run persists_update [OF n TPersist, of pc'] by auto
  qed (use others in simp_all)
next
  case (Timeout n)
  then obtain p it where n: "n < length (tasks c)" "tasks c ! n = TPersist p (PWait it)"
    "c' = c\<lparr>cb := removePendingSaveLocked (p_key p) (p_addr p) (cb c), tasks := (tasks c)[n := TPersist p PExit]\<rparr>"
    using assms by (auto simp: persistCancel_def split: if_splits task.splits pc.splits)
  then show ?thesis
    using cancel [OF Timeout n(1,2)] persists_update [OF n(1,2), of PExit] by auto
qed

lemma book_run_persist:
  assumes "book b (A @ (p, pc) # B)" "run_persist env p pc (b, r) = Some (pc', b', r')"
  shows "book b' (A @ (p, pc') # B)"
proof (cases pc)
  case (PWait it)
  let ?st = "psHeap b ! p_addr p"
  have check: "persistCheck p it b = (pc', b')" using assms(2) PWait by (auto split: if_splits prod.splits)
  show ?thesis
  proof (cases "ps_deleted ?st \<or> ps_superseded ?st")
    case True
    then have "b' = removePendingSaveLocked (p_key p) (p_addr p) b" "\<not> queued pc'" "pc' \<noteq> PDone"
      using check by (auto simp: persistCheck_def Let_def split: if_splits)
    then show ?thesis using book_remove [OF assms(1)] PWait by simp
  next
    case False
    then have "b' = b" "queued pc'" "pc' \<noteq> PDone" using check by (auto simp: persistCheck_def Let_def)
    then show ?thesis using book_advance [OF assms(1)] PWait by simp
  qed
next
  case (PSave it)
  then have "b' = b" "queued pc'" "pc' \<noteq> PDone" using assms(2) by (auto split: prod.splits)
  then show ?thesis using book_advance [OF assms(1)] PSave by simp
next
  case (PCommit err it)
  let ?b = "removePendingSaveLocked (p_key p) (p_addr p) b"
  have out: "\<not> queued pc'" "pc' \<noteq> PDone" "b' = ?b \<or> (b' = renamePending env (p_pending p) it ?b \<and> ID it \<noteq> p_pending p)"
    using assms(2) PCommit by (auto simp: persistCommit_def Let_def split: if_splits)
  have "book ?b (A @ (p, pc') # B)" using book_remove [OF assms(1)] out PCommit by simp
  then show ?thesis using out(3) renamePending_book by blast
next
  case (PDelete t)
  then have "b' = b" "pc' = PExit" using assms(2) by (auto split: prod.splits)
  then show ?thesis using book_advance [OF assms(1)] PDelete by simp
next
  case PExit
  then show ?thesis using assms book_close by auto
qed (use assms in simp)

lemma book_step:
  assumes "book (cb c) (persists (tasks c))" "step env a c = Some c'"
  shows "book (cb c') (persists (tasks c'))"
  using assms(2)
proof (cases rule: step_cases)
  case (save it rnd now it' p pit)
  from save(2) obtain k b1 where add: "addPendingSaveLocked (p_key p) (p_pending p \<noteq> '''') (cb c) = (k, b1)"
    "p_addr p = k" "psHeap (cb c') = psHeap b1" "pendingSaves (cb c') = pendingSaves b1"
    by (rule asyncSave_effect)
  have "p = \<lparr>p_addr = k, p_pending = p_pending p, p_key = p_key p\<rparr>" using add(2) by simp
  then have "book b1 (persists (tasks c) @ [(p, PWait pit)])"
    using book_add [OF assms(1) add(1), of "p_key p" pit] by metis
  then show ?thesis using add save by (simp add: book_def)
next
  case (persist n now p pc pc' A B)
  then show ?thesis using book_run_persist assms(1) by metis
next
  case (cancel n p it A B)
  then show ?thesis using book_remove [of "cb c" A p "PWait it" B PExit] assms(1) by simp
next
  case (delete i)
  have "book (deleteMark i (cb c)) (persists (tasks c))"
    using deleteMark_frame [of i "cb c"] deleteMark_links [of "cb c" i]
    by (intro book_same_links [OF assms(1)]) auto
  then show ?thesis using delete by (auto simp: book_def split: if_splits)
next
  case (other n now t' new)
  then show ?thesis
    using run_other_frame [OF other(4,3)] assms(1) book_same_links [OF assms(1), of "cb c'"] by simp
next
  case (client g)
  then show ?thesis using assms(1) by simp
qed

lemma book_reachable: "reachable env c \<Longrightarrow> book (cb c) (persists (tasks c))"
proof (induction rule: reachable.induct)
  case (launch o0 r)
  then show ?case by (simp add: initial_def NewCachedBackend_def Let_def book_def queues_wf_def pool_def)
next
  case (move c a c')
  then show ?case using book_step by blast
qed

subsection \<open>Every goroutine ends\<close>

fun pc_weight :: "pc \<Rightarrow> nat" where
  "pc_weight (PWait it) = 5" | "pc_weight (PSave it) = 4" | "pc_weight (PCommit err it) = 3"
| "pc_weight (PDelete t) = 2" | "pc_weight PExit = 1" | "pc_weight PDone = 0"

fun task_weight :: "task \<Rightarrow> nat" where
  "task_weight (TPersist p pc) = pc_weight pc"
| "task_weight (TDelete i j d) =
     (case d of DRaw \<Rightarrow> 5 | DEvict \<Rightarrow> 4 | DSecrets ks \<Rightarrow> Suc (length ks) | DDone _ \<Rightarrow> 0)"
| "task_weight (TGet g) =
     (case g of GLookup _ \<Rightarrow> 5 | GAuth _ \<Rightarrow> 4 | GRaw _ \<Rightarrow> 2 | GStore _ \<Rightarrow> 1 | GDone _ \<Rightarrow> 0)"
| "task_weight (TLoad l) = (case l of LRaw \<Rightarrow> 2 | LInstall _ \<Rightarrow> 1 | LDone _ \<Rightarrow> 0)"
| "task_weight (TAuth x) = (case x of ACheck \<Rightarrow> 3 | AClear \<Rightarrow> 2 | AFlag \<Rightarrow> 1 | ADone \<Rightarrow> 0)"

definition finished :: "task \<Rightarrow> bool" where
  "finished t = (task_weight t = 0)"

definition conf_weight :: "'r conf \<Rightarrow> nat" where
  "conf_weight c = sum_list (map task_weight (tasks c))"

fun internal :: "action \<Rightarrow> bool" where
  "internal (Run n now) = True"
| "internal (Timeout n) = True"
| "internal _ = False"

lemma run_task_weight:
  assumes "run_task env now t (b, r) = Some (t', new, s')"
  shows "task_weight t' + sum_list (map task_weight new) < task_weight t"
proof (cases t)
  case (TPersist p pc)
  then show ?thesis
    using assms by (cases pc) (auto simp: persistCheck_def persistCommit_def Let_def split: if_splits prod.splits)
next
  case (TDelete i j d)
  show ?thesis
  proof (cases d)
    case (DSecrets ks)
    then show ?thesis using assms TDelete by (cases ks) auto
  qed (use assms TDelete in \<open>auto split: prod.splits option.splits\<close>)
next
  case (TGet g)
  then show ?thesis
    using assms by (cases g) (auto split: if_splits prod.splits option.splits sum.splits)
next
  case (TLoad l)
  then show ?thesis using assms by (cases l) (auto split: prod.splits sum.splits)
next
  case (TAuth x)
  then show ?thesis using assms by (cases x) (auto split: prod.splits option.splits)
qed

lemma sum_list_update_weight:
  assumes "n < length ts"
  shows "sum_list (map f (ts[n := t])) + f (ts ! n) = sum_list (map f ts) + (f t :: nat)"
  using assms by (induction ts arbitrary: n) (auto split: nat.split simp: less_Suc_eq_0_disj)

lemma step_weight:
  assumes "step env a c = Some c'" "internal a"
  shows "conf_weight c' < conf_weight c"
proof (cases a)
  case (Run n now)
  then obtain t' new b' r' where n: "n < length (tasks c)"
    and run: "run_task env now (tasks c ! n) (cb c, rst c) = Some (t', new, b', r')"
    and c': "tasks c' = (tasks c)[n := t'] @ new"
    using assms(1) by (auto split: if_splits)
  then show ?thesis
    using run_task_weight [OF run] sum_list_update_weight [OF n, of task_weight t']
    by (simp add: conf_weight_def)
next
  case (Timeout n)
  then obtain p it where n: "n < length (tasks c)" "tasks c ! n = TPersist p (PWait it)"
    and c': "tasks c' = (tasks c)[n := TPersist p PExit]"
    using assms(1) by (auto simp: persistCancel_def split: if_splits task.splits pc.splits)
  then show ?thesis
    using sum_list_update_weight [OF n(1), of task_weight "TPersist p PExit"]
    by (simp add: conf_weight_def)
qed (use assms in simp_all)

text \<open>As long as a goroutine is unfinished, some goroutine can run: the oldest unfinished saving
  goroutine waits for nobody.\<close>

lemma run_other_enabled:
  "persists [t] = [] \<Longrightarrow> \<not> finished t \<Longrightarrow> run_task env now t s \<noteq> None"
proof (cases s; cases t)
  fix b r i j d
  assume "s = (b, r)" "t = TDelete i j d" "\<not> finished t"
  then show ?thesis
    by (cases d; cases "case d of DSecrets ks \<Rightarrow> ks | _ \<Rightarrow> []")
      (auto simp: finished_def split: prod.split option.split)
next
  fix b r g
  assume "s = (b, r)" "t = TGet g" "\<not> finished t"
  then show ?thesis by (cases g) (auto simp: finished_def split: prod.split option.split sum.split)
next
  fix b r l
  assume "s = (b, r)" "t = TLoad l" "\<not> finished t"
  then show ?thesis by (cases l) (auto simp: finished_def split: prod.split sum.split)
next
  fix b r x
  assume "s = (b, r)" "t = TAuth x" "\<not> finished t"
  then show ?thesis by (cases x) (auto simp: finished_def split: prod.split option.split)
qed simp

lemma run_persist_enabled:
  "pc \<noteq> PDone \<Longrightarrow> prevClosed p b \<Longrightarrow> run_persist env p pc (b, r) \<noteq> None"
  by (cases pc) (auto split: prod.split)

lemma persists_nth: "(p, pc) \<in> set (persists ts) \<Longrightarrow> \<exists>n < length ts. ts ! n = TPersist p pc"
proof (induction ts rule: persists.induct)
  case (2 p' pc' ts)
  then show ?case by (metis Suc_less_eq length_Cons nth_Cons_0 nth_Cons_Suc persists.simps(2) set_ConsD zero_less_Suc prod.inject)
qed (auto intro: exI [of _ "Suc _"])

lemma book_oldest:
  assumes "book b ps" "(p, pc) \<in> set ps" "pc \<noteq> PDone"
  shows "\<exists>(q, qc) \<in> set ps. qc \<noteq> PDone \<and> prevClosed q b"
  using assms(2,3)
proof (induction "p_addr p" arbitrary: p pc rule: less_induct)
  case less
  have len: "p_addr p < length (psHeap b)" using book_addr [OF assms(1) less(2)] .
  show ?case
  proof (cases "prevClosed p b")
    case True
    then show ?thesis using less(2,3) by blast
  next
    case False
    then obtain a where a: "ps_prevDone (psHeap b ! p_addr p) = Some a" "\<not> ps_done (psHeap b ! a)"
      by (auto simp: prevClosed_def split: option.splits)
    then have lt: "a < p_addr p" using assms(1) len by (auto simp: book_def)
    then have "a \<in> set (map (p_addr \<circ> fst) ps)" using assms(1) len by (auto simp: book_def)
    then obtain q qc where q: "(q, qc) \<in> set ps" "p_addr q = a" by auto
    then have "qc \<noteq> PDone" using assms(1) a(2) by (auto simp: book_def)
    then show ?thesis using less(1) [OF _ q(1)] q(2) lt by simp
  qed
qed

lemma some_enabled:
  assumes "book (cb c) (persists (tasks c))" "t \<in> set (tasks c)" "\<not> finished t"
  shows "\<exists>n. step env (Run n now) c \<noteq> None"
proof (cases "\<exists>n < length (tasks c). persists [tasks c ! n] = [] \<and> \<not> finished (tasks c ! n)")
  case True
  then obtain n where "n < length (tasks c)" "persists [tasks c ! n] = []" "\<not> finished (tasks c ! n)" by blast
  then have "step env (Run n now) c \<noteq> None" using run_other_enabled [of "tasks c ! n" env now] by simp
  then show ?thesis by blast
next
  case False
  obtain m where "m < length (tasks c)" "tasks c ! m = t" using assms(2) by (metis in_set_conv_nth)
  then have "persists [t] \<noteq> []" using False assms(3) by blast
  then obtain p pc where t: "t = TPersist p pc" by (cases t) auto
  have "(p, pc) \<in> set (persists ts)" if "TPersist p pc \<in> set ts" for ts
    using that by (induction ts rule: persists.induct) auto
  then have "(p, pc) \<in> set (persists (tasks c))" using assms(2) t by simp
  moreover have "pc \<noteq> PDone" using assms(3) t by (auto simp: finished_def)
  ultimately obtain q qc where q: "(q, qc) \<in> set (persists (tasks c))" "qc \<noteq> PDone" "prevClosed q (cb c)"
    using book_oldest [OF assms(1)] by blast
  then obtain n where n: "n < length (tasks c)" "tasks c ! n = TPersist q qc" using persists_nth by blast
  have "run_persist env q qc (cb c, rst c) \<noteq> None" using q(2,3) by (rule run_persist_enabled)
  then have "step env (Run n now) c \<noteq> None" using n by simp
  then show ?thesis by blast
qed

lemma finished_all: "conf_weight c = 0 \<longleftrightarrow> (\<forall>t \<in> set (tasks c). finished t)"
  by (simp add: conf_weight_def finished_def)

lemma finished_queues_empty:
  assumes "book (cb c) (persists (tasks c))" "\<forall>t \<in> set (tasks c). finished t"
  shows "pendingSaves (cb c) = []"
proof -
  have "pc = PDone" if mem: "(p, pc) \<in> set (persists (tasks c))" for p pc
  proof -
    obtain n where "n < length (tasks c)" "tasks c ! n = TPersist p pc" using persists_nth [OF mem] by blast
    then have "finished (TPersist p pc)" using assms(2) by (metis nth_mem)
    then show ?thesis by (cases pc) (simp_all add: finished_def)
  qed
  then have "filter (queued \<circ> snd) (persists (tasks c)) = []" by (fastforce simp: filter_empty_conv)
  then have "queues_wf (pendingSaves (cb c))" "pool (pendingSaves (cb c)) = {#}"
    using assms(1) by (simp_all add: book_def)
  then show ?thesis by (rule queues_wf_pool_empty)
qed

lemma drain:
  assumes "book (cb c) (persists (tasks c))"
  shows "\<exists>ns c'. length ns \<le> conf_weight c \<and> steps env (map (\<lambda>n. Run n now) ns) c = Some c'
    \<and> (\<forall>t \<in> set (tasks c'). finished t) \<and> book (cb c') (persists (tasks c'))"
  using assms
proof (induction "conf_weight c" arbitrary: c rule: less_induct)
  case less
  show ?case
  proof (cases "\<forall>t \<in> set (tasks c). finished t")
    case True
    then show ?thesis using less(2) by (intro exI [of _ "[]"] exI [of _ c]) simp
  next
    case False
    then obtain n c1 where one: "step env (Run n now) c = Some c1"
      using some_enabled [OF less(2), of _ env now] by fastforce
    have w: "conf_weight c1 < conf_weight c" using step_weight [OF one] by simp
    obtain ns c' where "length ns \<le> conf_weight c1" "steps env (map (\<lambda>n. Run n now) ns) c1 = Some c'"
      "\<forall>t \<in> set (tasks c'). finished t" "book (cb c') (persists (tasks c'))"
      using less(1) [OF w book_step [OF less(2) one]] by blast
    then show ?thesis using w one by (intro exI [of _ "n # ns"] exI [of _ c']) simp
  qed
qed

lemma schedule_bound:
  "steps env as c = Some c' \<Longrightarrow> \<forall>a \<in> set as. internal a \<Longrightarrow> length as + conf_weight c' \<le> conf_weight c"
proof (induction as arbitrary: c)
  case (Cons a as)
  then obtain c1 where "step env a c = Some c1" "steps env as c1 = Some c'" by (auto split: option.splits)
  then show ?case using Cons step_weight [of env a c c1] by fastforce
qed simp

lemma steps_reachable: "steps env as c = Some c' \<Longrightarrow> reachable env c \<Longrightarrow> reachable env c'"
  by (induction as arbitrary: c) (auto split: option.splits intro: reachable.move)

subsection \<open>Properties\<close>

text \<open>A configuration to apply the properties to: an empty keyring with a new item and an update of
  it queued behind it.\<close>

definition witness_start :: "InMemoryBackend conf" where
  "witness_start = initial (snd (NewCachedBackend (raw witness_env) (opts witness_env)
     (newBuffer witness_env) (destroyBuffer witness_env))) (NewInMemoryBackend [Some [1, 2, 3, 4, 5, 6, 7, 8]])"

definition witness_calls :: "action list" where
  "witness_calls = [CSave (witness_item\<lparr>ID := ''''\<rparr>) (Some [9]) 0, Run 0 1,
     CSave (witness_item\<lparr>ID := ''pending_09'', Label := ''new''\<rparr>) None 1, CDelete ''k'']"

lemma witness_start_reachable: "reachable witness_env witness_start"
  unfolding witness_start_def by (rule reachable.launch)

lemmas async_eval = asyncSave_def Let_def newPendingID_def hexEncode_def hexDigit_def pendingIDPrefix_def
  addPendingSaveLocked_def mgetL_def updStates_def putMeta_def storeSecretCache_def persistCheck_def
  isPendingID_def hasPrefix_def witness_env_def witness_item_def prevClosed_def resolveID_def
  withoutSecret_def copySecretItem_def copyAttributes_def copyBytes_def deleteMark_def markAliases_def
  markPendingSavesDeletedLocked_def initial_def NewCachedBackend_def NewInMemoryBackend_def

lemma witness_run:
  "\<exists>c. steps witness_env witness_calls witness_start = Some c
     \<and> map fst (pendingSaves (cb c)) = [''pending_09''] \<and> length (tasks c) = 3
     \<and> mget (metaCache (cb c)) ''pending_09'' = Some \<lparr>ID = ''pending_09'', Label = ''new'', Attributes = [(''a'', ''1'')], Secret = None\<rparr>"
  by (simp add: witness_calls_def witness_start_def async_eval)

text \<open>
  C31. In every interleaving of saves, deletions, reads, metadata loads and authentication checks
  the caches stay sound: metadata entries sit under their own identifier and never carry a
  secret, a cached secret sits under its own non-empty identifier in a live buffer, and every
  buffer that left the cache was destroyed (also when a pending item gets its real identifier).
\<close>

theorem caches_sound_in_every_interleaving:
  assumes "memguard_ok env" "reachable env c"
  shows "(\<forall>k it. mget (metaCache (cb c)) k = Some it \<longrightarrow> ID it = k \<and> Secret it = None)
    \<and> (\<forall>k e. mget (secretCache (cb c)) k = Some e \<longrightarrow>
         cs_id e = k \<and> k \<noteq> '''' \<and> (\<exists>lb. cs_secret e = Some lb \<and> lb_alive lb))
    \<and> (\<forall>lb \<in> set (dropped (cb c)). \<not> lb_alive lb)"
  using cache_inv_reachable [OF assms(2,1)]
  by (auto simp: cache_inv_def meta_wf_def secret_wf_def entry_live_def)

text \<open>
  C30. Asynchronous saves drain: from every reachable state, as long as no new call comes in, every
  schedule of the goroutines is finite (at most as many steps as the weight of the state), the
  waiting of saves for earlier saves never deadlocks (some goroutine can run until all have
  ended), and when all have ended the table of pending saves is empty: no state is left
  behind, whichever keys the states were moved between.
\<close>

theorem async_saves_drain:
  assumes "reachable env c"
  shows "(\<exists>ns c'. length ns \<le> conf_weight c \<and> steps env (map (\<lambda>n. Run n now) ns) c = Some c'
      \<and> (\<forall>t \<in> set (tasks c'). finished t) \<and> pendingSaves (cb c') = [])
    \<and> (\<forall>as c'. steps env as c = Some c' \<and> (\<forall>a \<in> set as. internal a) \<longrightarrow>
        length as \<le> conf_weight c
        \<and> ((\<forall>n. step env (Run n now) c' = None) \<longrightarrow>
             (\<forall>t \<in> set (tasks c'). finished t) \<and> pendingSaves (cb c') = []))"
proof (intro conjI allI impI)
  note bk = book_reachable [OF assms]
  show "\<exists>ns c'. length ns \<le> conf_weight c \<and> steps env (map (\<lambda>n. Run n now) ns) c = Some c'
      \<and> (\<forall>t \<in> set (tasks c'). finished t) \<and> pendingSaves (cb c') = []"
    using drain [OF bk, of env now] finished_queues_empty by metis
  fix as c'
  assume run: "steps env as c = Some c' \<and> (\<forall>a \<in> set as. internal a)"
  then show "length as \<le> conf_weight c" using schedule_bound [of env as c c'] by simp
  assume stuck: "\<forall>n. step env (Run n now) c' = None"
  have "reachable env c'" using run assms steps_reachable by blast
  then have bk': "book (cb c') (persists (tasks c'))" by (rule book_reachable)
  show "\<forall>t \<in> set (tasks c'). finished t"
    by (rule ballI, rule ccontr) (use some_enabled [OF bk', of _ env now] stuck in auto)
  then show "pendingSaves (cb c') = []" by (rule finished_queues_empty [OF bk'])
qed

theorem caches_sound_in_every_interleaving_witness:
  "\<exists>c. steps witness_env witness_calls witness_start = Some c \<and> length (tasks c) = 3
     \<and> (\<forall>lb \<in> set (dropped (cb c)). \<not> lb_alive lb)
     \<and> (\<forall>k it. mget (metaCache (cb c)) k = Some it \<longrightarrow> ID it = k \<and> Secret it = None)"
proof -
  obtain c where c: "steps witness_env witness_calls witness_start = Some c" "length (tasks c) = 3"
    using witness_run by blast
  then have "reachable witness_env c" using steps_reachable witness_start_reachable by blast
  note sound = caches_sound_in_every_interleaving [OF witness_env_ok this]
  show ?thesis by (intro exI [of _ c] conjI c) (use sound in simp_all)
qed

theorem async_saves_drain_witness:
  "\<exists>c ns c'. steps witness_env witness_calls witness_start = Some c \<and> pendingSaves (cb c) \<noteq> []
     \<and> steps witness_env (map (\<lambda>n. Run n 2) ns) c = Some c' \<and> pendingSaves (cb c') = []"
proof -
  obtain c where c: "steps witness_env witness_calls witness_start = Some c"
    "map fst (pendingSaves (cb c)) = [''pending_09'']"
    using witness_run by (elim exE conjE)
  then have "reachable witness_env c" using steps_reachable witness_start_reachable by blast
  then obtain ns c' where "steps witness_env (map (\<lambda>n. Run n 2) ns) c = Some c'" "pendingSaves (cb c') = []"
    using async_saves_drain [of witness_env c 2] by blast
  moreover have "pendingSaves (cb c) \<noteq> []" using c(2) by auto
  ultimately show ?thesis using c(1) by blast
qed

end
