(* ===== verification/Keyring_Delete.thy ===== *)
theory Keyring_Delete
  imports Keyring_Async
begin

text \<open>
  Deletion against asynchronous saves: once \<open>Delete\<close> has marked the pending saves of an item under
  its real identifier, no save that was already under way can bring the item back, however the
  goroutines interleave, provided the calls on the backend do not fail.
  The argument is an invariant of the machine of \<open>Keyring_Async\<close>: every goroutine that may
  still write the item is marked as deleted, and whenever the backend holds the item some
  goroutine is bound to remove it.
\<close>

subsection \<open>Where saves are queued\<close>

lemma removePending_cases:
  assumes "queues_wf (pendingSaves b)"
  shows "removePendingSaveLocked k a b = b \<or>
    (\<exists>q. removePendingSaveLocked k a b = snd (removePendingSaveFromKeyLocked q a b))"
proof -
  have key: "removePendingSaveFromKeyLocked q a b = (False, x) \<Longrightarrow> x = b" for q x
    using removeFromKey(4) [OF assms] by blast
  have fb: "removePendingFallback ks a b = b \<or>
      (\<exists>q. removePendingFallback ks a b = snd (removePendingSaveFromKeyLocked q a b))" for ks
  proof (induction ks)
    case (Cons q ks)
    obtain f b' where q: "removePendingSaveFromKeyLocked q a b = (f, b')" by fastforce
    show ?case
    proof (cases f)
      case True
      then show ?thesis using q by (auto intro: exI [of _ q])
    qed (use Cons q key [of q b'] in auto)
  qed simp
  obtain f1 b1 where 1: "removePendingSaveFromKeyLocked k a b = (f1, b1)" by fastforce
  show ?thesis
  proof (cases f1)
    case True
    then show ?thesis using 1 by (auto simp: removePendingSaveLocked_def intro: exI [of _ k])
  next
    case False
    then have b1: "b1 = b" using 1 key by simp
    show ?thesis
    proof (cases "mget (idAliases b) k")
      case (Some q)
      obtain f2 b2 where 2: "removePendingSaveFromKeyLocked q a b = (f2, b2)" by fastforce
      show ?thesis
      proof (cases "f2 \<and> q \<noteq> k")
        case True
        then show ?thesis using 1 2 b1 Some False by (auto simp: removePendingSaveLocked_def intro: exI [of _ q])
      next
        case other: False
        have "\<not> f2 \<Longrightarrow> b2 = b" using 2 key by simp
        then show ?thesis
          using 1 2 b1 Some False other fb [of "map fst (pendingSaves b)"]
          by (auto simp: removePendingSaveLocked_def)
      qed
    qed (use 1 b1 False fb [of "map fst (pendingSaves b)"] in \<open>simp add: removePendingSaveLocked_def\<close>)
  qed
qed

lemma removePending_keeps:
  assumes "queues_wf (pendingSaves b)" "a' \<in> set (mgetL (pendingSaves b) q)" "a' \<noteq> a"
  shows "a' \<in> set (mgetL (pendingSaves (removePendingSaveLocked k a b)) q)"
proof -
  have "a' \<in> set (mgetL (pendingSaves b1) q)" if "removePendingSaveFromKeyLocked k1 a b = (f, b1)" for k1 f b1
    using removeFromKey(5) [OF assms(1) that, of q] assms(2,3) by auto
  then show ?thesis using removePending_cases [OF assms(1), of k a] assms(2)
    by (metis prod.collapse)
qed

text \<open>
  What a goroutine was started with, and where its state is queued. A save of an existing item is
  queued under the item's identifier; a save of a new item carries a pending identifier.
\<close>

fun pc_item :: "pc \<Rightarrow> SecretItem option" where
  "pc_item (PWait it) = Some it"
| "pc_item (PSave it) = Some it"
| "pc_item (PCommit None it) = Some it"
| "pc_item _ = None"

definition filed :: "CachedBackend \<Rightarrow> persist \<Rightarrow> pc \<Rightarrow> bool" where
  "filed b p pc \<longleftrightarrow>
     (if p_pending p = '''' then
        p_key p \<noteq> '''' \<and> \<not> isPendingID (p_key p)
        \<and> (\<forall>it. pc_item pc = Some it \<longrightarrow> ID it = p_key p)
        \<and> (queued pc \<longrightarrow> p_addr p \<in> set (mgetL (pendingSaves b) (p_key p)))
      else isPendingID (p_pending p) \<and> p_key p = p_pending p
        \<and> (\<forall>it. pc = PWait it \<longrightarrow> ID it = ''''))"

definition all_filed :: "CachedBackend \<Rightarrow> (persist \<times> pc) list \<Rightarrow> bool" where
  "all_filed b ps \<longleftrightarrow> mwf (idAliases b) \<and> (\<forall>(p, pc) \<in> set ps. filed b p pc)"

lemma filed_mono:
  assumes "filed b p pc" "\<forall>k. \<not> isPendingID k \<longrightarrow> p_addr p \<in> set (mgetL (pendingSaves b) k) \<longrightarrow>
    p_addr p \<in> set (mgetL (pendingSaves b') k)"
  shows "filed b' p pc"
  using assms by (auto simp: filed_def split: if_splits)

lemma all_filed_queues:
  assumes "all_filed b ps" "mwf (idAliases b')"
    and "\<And>p pc k. (p, pc) \<in> set ps \<Longrightarrow> \<not> isPendingID k \<Longrightarrow> p_addr p \<in> set (mgetL (pendingSaves b) k) \<Longrightarrow>
      p_addr p \<in> set (mgetL (pendingSaves b') k)"
  shows "all_filed b' ps"
  using assms filed_mono [of b _ _ b'] unfolding all_filed_def by blast

lemma all_filed_same:
  assumes "all_filed b ps" "mwf (idAliases b')" "pendingSaves b' = pendingSaves b"
  shows "all_filed b' ps"
  using assms by (intro all_filed_queues [OF assms(1,2)]) simp

lemma all_filed_sub: "all_filed b (A @ (p, pc) # B) \<Longrightarrow> all_filed b (A @ B) \<and> filed b p pc"
  by (auto simp: all_filed_def)

lemma all_filed_insert: "all_filed b (A @ B) \<Longrightarrow> filed b p pc \<Longrightarrow> all_filed b (A @ (p, pc) # B)"
  by (auto simp: all_filed_def)

lemma all_filed_remove:
  assumes "book b (A @ (p, pc) # B)" "all_filed b (A @ B)"
  shows "all_filed (removePendingSaveLocked k (p_addr p) b) (A @ B)"
proof (rule all_filed_queues [OF assms(2)])
  show "mwf (idAliases (removePendingSaveLocked k (p_addr p) b))" using assms(2) by (simp add: all_filed_def)
  show "p_addr p' \<in> set (mgetL (pendingSaves (removePendingSaveLocked k (p_addr p) b)) q)"
    if "(p', pc') \<in> set (A @ B)" "p_addr p' \<in> set (mgetL (pendingSaves b) q)" for p' pc' q
    using removePending_keeps [OF _ that(2)] book_split [OF assms(1) that(1)] assms(1)
    by (simp add: book_def)
qed

lemma all_filed_rename:
  assumes "all_filed b ps" "isPendingID p"
  shows "all_filed (renamePending env p it b) ps"
proof (rule all_filed_queues [OF assms(1)])
  show "mwf (idAliases (renamePending env p it b))"
    using assms(1) by (simp add: renamePending_def renameRest_sel all_filed_def)
  show "x \<in> set (mgetL (pendingSaves (renamePending env p it b)) k)"
    if "\<not> isPendingID k" "x \<in> set (mgetL (pendingSaves b) k)" for x k
    using that assms(2) by (auto simp: renamePending_def renameRest_sel renameQueue_def Let_def)
qed

text \<open>A raw backend that keeps the identifier of an item that has one.\<close>

definition keeps_ids :: "'r RawStorageBackend \<Rightarrow> 'r \<Rightarrow> bool" where
  "keeps_ids R r \<longleftrightarrow> (\<forall>it it' r'. rawSave R it r = ((None, it'), r') \<and> ID it \<noteq> '''' \<longrightarrow> ID it' = ID it)"

lemma filed_run_persist:
  assumes "book b (A @ (p, pc) # B)" "all_filed b (A @ (p, pc) # B)" "keeps_ids (raw env) r"
    and "run_persist env p pc (b, r) = Some (pc', b', r')"
  shows "all_filed b' (A @ (p, pc') # B)"
proof -
  have rest: "all_filed b (A @ B)" and f: "filed b p pc" using all_filed_sub [OF assms(2)] by auto
  have rest': "all_filed (removePendingSaveLocked k (p_addr p) b) (A @ B)" for k
    using all_filed_remove [OF assms(1) rest] .
  have gone: "filed bb p pc'" if "\<not> queued pc'" for bb
    using f that by (cases pc') (auto simp: filed_def split: if_splits)
  have out: "all_filed bb (A @ (p, pc') # B)" if "\<not> queued pc'" "all_filed bb (A @ B)" for bb
    using all_filed_insert [OF that(2) gone [OF that(1)]] .
  show ?thesis
  proof (cases pc)
    case (PWait it)
    have check: "persistCheck p it b = (pc', b')" using assms(4) PWait by (auto split: if_splits prod.splits)
    show ?thesis
    proof (cases "queued pc'")
      case True
      then obtain it' where s: "pc' = PSave it'" "b' = b" and it': "p_pending p = '''' \<longrightarrow> it' = it"
        using check by (auto simp: persistCheck_def Let_def split: if_splits)
      have "filed b p (PSave it')"
        using f PWait it' by (cases "p_pending p = ''''") (simp_all add: filed_def)
      then show ?thesis using all_filed_insert [OF rest] s by simp
    next
      case False
      then have "b' = removePendingSaveLocked (p_key p) (p_addr p) b"
        using check by (auto simp: persistCheck_def Let_def split: if_splits)
      then show ?thesis using out [OF False] rest' by simp
    qed
  next
    case (PSave it)
    then obtain err it' where s: "rawSave (raw env) it r = ((err, it'), r')" "pc' = PCommit err it'" "b' = b"
      using assms(4) by (auto split: prod.splits)
    have "err = None \<Longrightarrow> ID it \<noteq> '''' \<Longrightarrow> ID it' = ID it"
      using assms(3) s(1) unfolding keeps_ids_def by blast
    then have "filed b p pc'"
      using f s PSave by (cases err; cases "p_pending p = ''''") (simp_all add: filed_def)
    then show ?thesis using rest s(3) by (intro all_filed_insert) simp_all
  next
    case (PCommit err it)
    let ?b = "removePendingSaveLocked (p_key p) (p_addr p) b"
    have q: "\<not> queued pc'" "b' = ?b \<or> (b' = renamePending env (p_pending p) it ?b \<and> p_pending p \<noteq> '''')"
      using assms(4) PCommit by (auto simp: persistCommit_def Let_def split: if_splits)
    moreover have "isPendingID (p_pending p)" if "p_pending p \<noteq> ''''" using f that by (simp add: filed_def)
    ultimately show ?thesis using out [OF q(1)] rest' all_filed_rename by blast
  next
    case (PDelete t)
    then have "\<not> queued pc'" "b' = b" using assms(4) by (auto split: prod.splits)
    then show ?thesis using out rest by simp
  next
    case PExit
    then have b': "\<not> queued pc'" "b' = closeDone p b" using assms(4) by auto
    moreover have "all_filed (closeDone p b) (A @ B)"
      using rest by (intro all_filed_same [OF rest]) (simp_all add: closeDone_def all_filed_def)
    ultimately show ?thesis using out by simp
  qed (use assms(4) in simp)
qed

lemma add_keeps:
  assumes "addPendingSaveLocked k new b = (a, b1)"
  shows "x \<in> set (mgetL (pendingSaves b) q) \<Longrightarrow> x \<in> set (mgetL (pendingSaves b1) q)"
    and "a \<in> set (mgetL (pendingSaves b1) k)" and "idAliases b1 = idAliases b"
  using assms by (auto simp: addPendingSaveLocked_def Let_def)

lemma filed_step:
  assumes "book (cb c) (persists (tasks c))" "all_filed (cb c) (persists (tasks c))"
    and "keeps_ids (raw env) (rst c)" "step env a c = Some c'"
  shows "all_filed (cb c') (persists (tasks c'))"
  using assms(4)
proof (cases rule: step_cases)
  case (save it rnd now it' p pit)
  from save(2) obtain k b1 where add: "addPendingSaveLocked (p_key p) (p_pending p \<noteq> '''') (cb c) = (k, b1)"
    "p_addr p = k" "psHeap (cb c') = psHeap b1" "pendingSaves (cb c') = pendingSaves b1" "idAliases (cb c') = idAliases b1"
    "if p_pending p = '''' then ID pit = p_key p \<and> p_key p \<noteq> '''' \<and> \<not> isPendingID (p_key p) \<and> p_key p = resolveID (cb c) (ID it)
     else ID pit = '''' \<and> p_key p = p_pending p \<and> isPendingID (p_pending p) \<and>
       (resolveID (cb c) (ID it) = p_pending p \<or> ID it = '''' \<or> resolveID (cb c) (ID it) = '''')"
    by (rule asyncSave_effect)
  have "all_filed (cb c') (persists (tasks c))"
    using assms(2) add add_keeps [OF add(1)] by (intro all_filed_queues [OF assms(2)]) (auto simp: all_filed_def)
  moreover have "filed (cb c') p (PWait pit)"
    using add add_keeps(2) [OF add(1)] by (auto simp: filed_def split: if_splits)
  ultimately show ?thesis using save by (auto simp: all_filed_def)
next
  case (persist n now p pc pc' A B)
  then show ?thesis using filed_run_persist assms(1-3) by metis
next
  case (cancel n p it A B)
  have sub: "all_filed (cb c) (A @ B)" "filed (cb c) p (PWait it)"
    using all_filed_sub assms(2) cancel(7) by metis+
  then show ?thesis
    using all_filed_remove [of "cb c" A p "PWait it" B] assms(1) cancel
    by (auto intro!: all_filed_insert simp: filed_def split: if_splits)
next
  case (delete i)
  obtain h where "deleteMark i (cb c) = (cb c)\<lparr>psHeap := h\<rparr>" using deleteMark_frame by blast
  then have "pendingSaves (cb c') = pendingSaves (cb c)" "mwf (idAliases (cb c'))"
    "persists (tasks c') = persists (tasks c)"
    using delete assms(2) aliases_wf_cleanup [of "idAliases (cb c)" "[i, resolveID (cb c) i]"]
    by (auto simp: evictItemFromCachesLocked_def all_filed_def split: if_splits)
  then show ?thesis using all_filed_same [OF assms(2)] by simp
next
  case (other n now t' new)
  then show ?thesis
    using run_other_frame [OF other(4,3)] all_filed_same [OF assms(2), of "cb c'"] assms(2)
    by (simp add: all_filed_def)
next
  case (client g)
  then show ?thesis using assms(2) by simp
qed

lemma filed_reachable:
  assumes "reachable env c" "\<And>r. keeps_ids (raw env) r"
  shows "all_filed (cb c) (persists (tasks c))"
  using assms(1)
proof (induction rule: reachable.induct)
  case (launch o0 r)
  then show ?case by (simp add: initial_def NewCachedBackend_def Let_def all_filed_def)
next
  case (move c a c')
  then show ?case using filed_step [OF book_reachable] assms(2) by blast
qed

subsection \<open>A deleted item is condemned\<close>

text \<open>A goroutine may still write item \<open>i\<close>; a goroutine is bound to remove it.\<close>

fun writes :: "string \<Rightarrow> CachedBackend \<Rightarrow> persist \<Rightarrow> pc \<Rightarrow> bool" where
  "writes i b p (PWait it) =
     (ID it = i \<or> (ID it = '''' \<and> p_pending p \<noteq> '''' \<and> mget (idAliases b) (p_pending p) = Some i))"
| "writes i b p (PSave it) = (ID it = i)"
| "writes i b p (PCommit err it) = (err = None \<and> ID it = i)"
| "writes i b p _ = False"

fun clears :: "string \<Rightarrow> task \<Rightarrow> bool" where
  "clears i (TPersist p (PCommit err it)) = (err = None \<and> ID it = i)"
| "clears i (TPersist p (PDelete t)) = (t = i)"
| "clears i (TDelete _ j DRaw) = (j = i)"
| "clears i _ = False"

definition condemned :: "('r \<Rightarrow> string \<Rightarrow> SecretItem option) \<Rightarrow> string \<Rightarrow> 'r conf \<Rightarrow> bool" where
  "condemned contents i c \<longleftrightarrow>
     (\<forall>(p, pc) \<in> set (persists (tasks c)). writes i (cb c) p pc \<longrightarrow> ps_deleted (psHeap (cb c) ! p_addr p))
     \<and> (contents (rst c) i \<noteq> None \<longrightarrow> (\<exists>t \<in> set (tasks c). clears i t))"

text \<open>A step that does not start a new save of item \<open>i\<close>, and in which the backend does not choose
  \<open>i\<close> as the identifier of a new item.\<close>

definition quiet :: "string \<Rightarrow> 'r conf \<Rightarrow> action \<Rightarrow> 'r conf \<Rightarrow> bool" where
  "quiet i c a c' \<longleftrightarrow>
     (\<forall>(p, pc) \<in> set (persists (drop (length (tasks c)) (tasks c'))). \<not> writes i (cb c') p pc)
     \<and> (case a of
          Run n _ \<Rightarrow>
            (case tasks c ! n of
               TPersist p (PSave it) \<Rightarrow>
                 ID it = '''' \<longrightarrow> (case tasks c' ! n of TPersist _ (PCommit _ it') \<Rightarrow> ID it' \<noteq> i | _ \<Rightarrow> True)
             | _ \<Rightarrow> True)
        | _ \<Rightarrow> True)"

fun quiet_steps :: "'r cache_env \<Rightarrow> string \<Rightarrow> action list \<Rightarrow> 'r conf \<Rightarrow> 'r conf option" where
  "quiet_steps env i [] c = Some c"
| "quiet_steps env i (a # as) c =
     (case step env a c of
        None \<Rightarrow> None
      | Some c' \<Rightarrow> if quiet i c a c' then quiet_steps env i as c' else None)"

text \<open>A new item's save that may write \<open>i\<close> is queued under \<open>i\<close>, or under a pending identifier
  known to stand for \<open>i\<close>: no first save of \<open>i\<close> is still uncommitted.\<close>

definition tracked :: "string \<Rightarrow> 'r conf \<Rightarrow> bool" where
  "tracked i c \<longleftrightarrow> (\<forall>(p, pc) \<in> set (persists (tasks c)). p_pending p \<noteq> '''' \<and> writes i (cb c) p pc \<longrightarrow>
     p_addr p \<in> set (mgetL (pendingSaves (cb c)) i)
     \<or> (mget (idAliases (cb c)) (p_pending p) = Some i \<and> p_addr p \<in> set (mgetL (pendingSaves (cb c)) (p_pending p))))"

lemma writes_fewer: "fewer_aliases b b' \<Longrightarrow> writes i b' p pc \<Longrightarrow> writes i b p pc"
  by (cases pc) (auto simp: fewer_aliases_def)

lemma writes_cong: "idAliases b' = idAliases b \<Longrightarrow> writes i b' p pc = writes i b p pc"
  by (cases pc) simp_all

text \<open>The marks: the queues of the identifier, of its resolution, and of every alias of either.\<close>

lemma updStates_hit:
  assumes "\<And>s. P s \<Longrightarrow> P (f s)" "\<And>s. P (f s)" "a \<in> set as" "a < length h"
  shows "P (updStates f as h ! a)"
proof -
  have keep: "P (h' ! a) \<Longrightarrow> P (updStates f bs h' ! a)" if "a < length h'" for bs h'
    using that
  proof (induction bs arbitrary: h')
    case (Cons x bs)
    have "P (h'[x := f (h' ! x)] ! a)" using Cons.prems assms(1) by (cases "x = a") auto
    then show ?case using Cons by (simp add: updStates_Cons)
  qed (simp add: updStates_def)
  show ?thesis using assms(3,4)
  proof (induction as arbitrary: h)
    case (Cons x as)
    show ?case
    proof (cases "x = a")
      case True
      then have "P (h[x := f (h ! x)] ! a)" using Cons.prems assms(2) by simp
      then show ?thesis using keep [of "h[x := f (h ! x)]" as] Cons.prems by (simp add: updStates_Cons)
    qed (use Cons in \<open>simp add: updStates_Cons\<close>)
  qed simp
qed

lemma mark_hit:
  "a \<in> set (mgetL (pendingSaves b) k) \<Longrightarrow> a < length (psHeap b) \<Longrightarrow>
     ps_deleted (psHeap (markPendingSavesDeletedLocked k b) ! a)"
  unfolding markPendingSavesDeletedLocked_def by (simp add: updStates_hit [of ps_deleted])

lemma mark_sel [simp]:
  "pendingSaves (markPendingSavesDeletedLocked k b) = pendingSaves b"
  "idAliases (markPendingSavesDeletedLocked k b) = idAliases b"
  "length (psHeap (markPendingSavesDeletedLocked k b)) = length (psHeap b)"
  by (simp_all add: markPendingSavesDeletedLocked_def)

lemma links_deleted: "same_links h h' \<Longrightarrow> a < length h \<Longrightarrow> ps_deleted (h ! a) \<Longrightarrow> ps_deleted (h' ! a)"
  by (simp add: same_links_def)

lemma fold_mark_hit:
  assumes "(k, t) \<in> set xs" "P t" "a \<in> set (mgetL (pendingSaves b) k)" "a < length (psHeap b)"
  shows "ps_deleted (psHeap (fold (\<lambda>(p, t) b'. if P t then markPendingSavesDeletedLocked p b' else b') xs b) ! a)"
  using assms
proof (induction xs arbitrary: b)
  case (Cons x xs)
  obtain k1 t1 where x: "x = (k1, t1)" by (cases x)
  show ?case
  proof (cases "x = (k, t)")
    case True
    have "ps_deleted (psHeap (markPendingSavesDeletedLocked k b) ! a)" using Cons.prems(3,4) by (rule mark_hit)
    then show ?thesis
      using Cons.prems True links_deleted [OF same_links_fold_mark, of a "markPendingSavesDeletedLocked k b" P xs]
      by simp
  next
    case False
    then show ?thesis
      using Cons.prems Cons.IH [of b] Cons.IH [of "markPendingSavesDeletedLocked k1 b"] by (auto simp: x)
  qed
qed simp

lemma deleteMark_hit:
  assumes "resolveID b d = j" "a < length (psHeap b)"
    and "a \<in> set (mgetL (pendingSaves b) j)
      \<or> (mget (idAliases b) k = Some j \<and> a \<in> set (mgetL (pendingSaves b) k))"
  shows "ps_deleted (psHeap (deleteMark d b) ! a)"
proof -
  let ?b1 = "markPendingSavesDeletedLocked d b"
  let ?b2 = "if j \<noteq> d then markPendingSavesDeletedLocked j ?b1 else ?b1"
  have dm: "deleteMark d b = fold (\<lambda>(p, t) b'. if t = d \<or> t = j then markPendingSavesDeletedLocked p b' else b')
      (idAliases ?b2) ?b2"
    using assms(1) by (simp add: deleteMark_def Let_def markAliases_def)
  have len: "length (psHeap ?b2) = length (psHeap b)" by simp
  from assms(3) show ?thesis
  proof
    assume a: "a \<in> set (mgetL (pendingSaves b) j)"
    have "ps_deleted (psHeap ?b2 ! a)"
      using a assms(2) mark_hit [of a b j] mark_hit [of a ?b1 j] by auto
    then show ?thesis
      unfolding dm using assms(2) len by (intro links_deleted [OF same_links_fold_mark]) simp_all
  next
    assume a: "mget (idAliases b) k = Some j \<and> a \<in> set (mgetL (pendingSaves b) k)"
    then have "(k, j) \<in> set (idAliases ?b2)" by (auto dest: mget_SomeD)
    then show ?thesis
      unfolding dm using a assms(2) len by (intro fold_mark_hit [where k = k and t = j]) simp_all
  qed
qed

subsection \<open>The condemned item stays condemned\<close>

lemma set_update_split:
  assumes "n < length ts" "t \<in> set ts" "t \<noteq> ts ! n"
  shows "t \<in> set (ts[n := u])"
  using assms by (metis in_set_conv_nth length_list_update nth_list_update_neq)

lemma persistCheck_out:
  assumes "persistCheck p it b = (pc', b')"
  shows "idAliases b' = idAliases b \<and> psHeap b' = psHeap b
    \<and> (writes i b' p pc' \<longrightarrow> writes i b p (PWait it) \<and> \<not> ps_deleted (psHeap b ! p_addr p))"
  using assms by (auto simp: persistCheck_def Let_def split: if_splits option.splits)

lemma persistCommit_out:
  assumes "persistCommit env p err it b = (pc', b')" "ID it = i \<and> err = None \<longrightarrow> ps_deleted (psHeap b ! p_addr p)"
  shows "psHeap b' = psHeap b \<and> (\<forall>k. mget (idAliases b') k = Some i \<longrightarrow> mget (idAliases b) k = Some i)
    \<and> \<not> writes i b' p pc'"
  using assms
  by (auto simp: persistCommit_def Let_def renamePending_def renameRest_sel split: if_splits)

text \<open>The save of a condemned item ends in the removal of that very item.\<close>

lemma persistCommit_clears:
  assumes "persistCommit env p None it b = (pc', b')" "ps_deleted (psHeap b ! p_addr p)"
    and "filed b p (PCommit None it)" "ps_isNew (psHeap b ! p_addr p) \<longleftrightarrow> p_pending p \<noteq> ''''"
    and "ID it = i" "i \<noteq> ''''" "\<not> isPendingID i"
  shows "pc' = PDelete i"
  using assms by (auto simp: persistCommit_def Let_def filed_def split: if_splits)

context raw_storage_total
begin

lemma keeps_ids_ok: "ok r \<Longrightarrow> keeps_ids R r"
  using save_ok by (auto simp: keeps_ids_def)

text \<open>What a step of a persisting goroutine does to the backend.\<close>

lemma run_persist_raw:
  assumes "raw env = R" "ok r" "run_persist env p pc (b, r) = Some (pc', b', r')"
  shows "ok r'" and "\<forall>it. pc \<noteq> PSave it \<Longrightarrow> contents r' i \<noteq> None \<Longrightarrow> contents r i \<noteq> None"
    and "pc = PDelete i \<Longrightarrow> contents r' i = None"
proof -
  have del: "ok r1 \<and> contents r1 t = None \<and> (\<forall>j. contents r1 j \<noteq> None \<longrightarrow> contents r j \<noteq> None)"
    if "rawDelete R t r = (e, r1)" for t e r1
    using delete_absent [OF assms(2) that delete_total [OF assms(2) that]] by (metis)
  have save: "ok r1" if "rawSave R it r = ((e, it'), r1)" for it e it' r1
    using that assms(2) save_ok save_failed by (cases e) blast+
  show "ok r'"
    using assms del save by (cases pc) (auto split: if_splits prod.splits)
  show "contents r i \<noteq> None" if "\<forall>it. pc \<noteq> PSave it" "contents r' i \<noteq> None"
    using assms(1,3) that del by (cases pc) (auto split: if_splits prod.splits)
  show "contents r' i = None" if "pc = PDelete i"
    using assms(1,3) that del by (auto split: prod.splits)
qed

lemma run_other_raw:
  assumes "raw env = R" "ok r" "run_task env now t (b, r) = Some (t', new, b', r')" "persists [t] = []"
  shows "ok r'" and "contents r' i \<noteq> None \<Longrightarrow> contents r i \<noteq> None \<and> \<not> clears i t"
proof -
  have del: "ok r1 \<and> contents r1 j = None \<and> (\<forall>k. contents r1 k \<noteq> None \<longrightarrow> contents r k \<noteq> None)"
    if "rawDelete R j r = (e, r1)" for j e r1
    using delete_absent [OF assms(2) that delete_total [OF assms(2) that]] by metis
  have auth: "ok r1 \<and> contents r1 = contents r" if "rawCheckAuth (raw env) = Some check" "check r = (e, r1)" for check e r1
    using auth_frame [OF assms(2) that [unfolded assms(1)]] .
  have load: "ok r1 \<and> contents r1 = contents r" if "rawLoadMetadata (raw env) r = (x, r1)" for x r1
    using load_frame [OF assms(2) that [unfolded assms(1)]] .
  have get: "ok r1 \<and> contents r1 = contents r" if "rawGet (raw env) j r = (x, r1)" for j x r1
    using get_frame [OF assms(2) that [unfolded assms(1)]] .
  have "ok r' \<and> (contents r' i \<noteq> None \<longrightarrow> contents r i \<noteq> None \<and> \<not> clears i t)"
  proof (cases t)
    case (TDelete d j x)
    show ?thesis
    proof (cases x)
      case DRaw
      then show ?thesis using assms(1,3) TDelete del by (auto split: prod.splits option.splits)
    next
      case (DSecrets ks)
      then show ?thesis using assms(2,3) TDelete by (cases ks) auto
    qed (use assms(2,3) TDelete in auto)
  next
    case (TGet g)
    then show ?thesis
      using assms(2,3) by (cases g) (auto dest: get split: prod.splits option.splits if_splits sum.splits)
  next
    case (TLoad l)
    then show ?thesis using assms(2,3) by (cases l) (auto dest: load split: prod.splits sum.splits)
  next
    case (TAuth x)
    then show ?thesis using assms(2,3) by (cases x) (auto dest: auth split: prod.splits option.splits)
  qed (use assms(4) in simp)
  then show "ok r'" "contents r' i \<noteq> None \<Longrightarrow> contents r i \<noteq> None \<and> \<not> clears i t" by auto
qed

end

lemma writes_alias:
  "(\<forall>k. mget (idAliases b') k = Some i \<longrightarrow> mget (idAliases b) k = Some i) \<Longrightarrow> writes i b' p pc \<Longrightarrow> writes i b p pc"
  by (cases pc) auto

lemma closeDone_deleted: "ps_deleted (psHeap (closeDone p b) ! a) = ps_deleted (psHeap b ! a)"
  by (cases "p_addr p < length (psHeap b)")
    (auto simp: closeDone_def updStates_def nth_list_update list_update_beyond)

lemma run_persist_out:
  assumes "run_persist env p pc (b, r) = Some (pc', b', r')"
    and "writes i b p pc \<longrightarrow> ps_deleted (psHeap b ! p_addr p)" "\<forall>it. pc \<noteq> PSave it"
  shows "(\<forall>k. mget (idAliases b') k = Some i \<longrightarrow> mget (idAliases b) k = Some i)
    \<and> (\<forall>a. ps_deleted (psHeap b' ! a) = ps_deleted (psHeap b ! a)) \<and> \<not> writes i b' p pc'"
proof (cases pc)
  case (PWait it)
  then have "persistCheck p it b = (pc', b')" using assms(1) by (auto split: if_splits prod.splits)
  then show ?thesis using persistCheck_out [of p it b pc' b' i] assms(2) PWait by auto
next
  case (PCommit err it)
  then have "persistCommit env p err it b = (pc', b')" using assms(1) by (auto split: prod.splits)
  then show ?thesis using persistCommit_out [of env p err it b pc' b' i] assms(2) PCommit by auto
next
  case PExit
  then have "b' = closeDone p b" "pc' = PDone" using assms(1) by auto
  moreover have "idAliases (closeDone p b) = idAliases b" by (simp add: closeDone_def)
  ultimately show ?thesis by (simp add: closeDone_deleted)
qed (use assms in \<open>auto split: prod.splits\<close>)

context raw_storage_total
begin

lemma condemned_save:
  assumes "raw env = R" "ok (rst c)" "condemned contents i c" "quiet i c (Run n now) c'"
    and "n < length (tasks c)" "tasks c ! n = TPersist p (PSave it)" "tasks c' = (tasks c)[n := TPersist p pc']"
    and "run_persist env p (PSave it) (cb c, rst c) = Some (pc', cb c', rst c')"
    and "persists (tasks c) = A @ (p, PSave it) # B" "persists (tasks c') = A @ (p, pc') # B"
  shows "condemned contents i c'"
proof -
  obtain err it' where s: "rawSave R it (rst c) = ((err, it'), rst c')" and pc': "pc' = PCommit err it'"
    and cb: "cb c' = cb c"
    using assms(1,8) by (auto split: prod.splits)
  have del: "ps_deleted (psHeap (cb c) ! p_addr p)" if "err = None" "ID it' = i"
  proof -
    have "ID it \<noteq> ''''" using assms(4-7) pc' that by (auto simp: quiet_def)
    then have "ID it = i" using save_ok [OF assms(2)] s that by auto
    then show ?thesis using assms(3,9) by (auto simp: condemned_def)
  qed
  have "\<exists>t \<in> set (tasks c'). clears i t" if held: "contents (rst c') i \<noteq> None"
  proof (cases "err = None \<and> ID it' = i")
    case True
    then have "clears i (TPersist p pc')" by (simp add: pc')
    then show ?thesis using assms(5,7) by (metis set_update_memI)
  next
    case False
    then have "contents (rst c) i \<noteq> None"
      using held s save_ok [OF assms(2), of it it'] save_failed [OF assms(2), of it] by (cases err) auto
    then obtain t where t: "t \<in> set (tasks c)" "clears i t" using assms(3) by (auto simp: condemned_def)
    then have "t \<noteq> tasks c ! n" using assms(6) by auto
    then show ?thesis using set_update_split [OF assms(5) t(1)] t(2) assms(7) by auto
  qed
  then show ?thesis using assms(3,9,10) del by (auto simp: condemned_def cb pc')
qed

lemma condemned_persist:
  assumes "raw env = R" "ok (rst c)" "condemned contents i c" "i \<noteq> ''''" "\<not> isPendingID i"
    and "book (cb c) (persists (tasks c))" "all_filed (cb c) (persists (tasks c))"
    and "n < length (tasks c)" "tasks c ! n = TPersist p pc" "tasks c' = (tasks c)[n := TPersist p pc']"
    and "run_persist env p pc (cb c, rst c) = Some (pc', cb c', rst c')" "\<forall>it. pc \<noteq> PSave it"
    and "persists (tasks c) = A @ (p, pc) # B" "persists (tasks c') = A @ (p, pc') # B"
  shows "condemned contents i c'"
proof -
  have w: "writes i (cb c) p pc \<longrightarrow> ps_deleted (psHeap (cb c) ! p_addr p)"
    using assms(3,13) by (auto simp: condemned_def)
  note out = run_persist_out [OF assms(11) w assms(12)]
  have "\<exists>t \<in> set (tasks c'). clears i t" if held: "contents (rst c') i \<noteq> None"
  proof -
    have "contents (rst c) i \<noteq> None" using run_persist_raw(2) [OF assms(1,2,11,12) held] .
    then obtain t where t: "t \<in> set (tasks c)" "clears i t" using assms(3) by (auto simp: condemned_def)
    show ?thesis
    proof (cases "t = tasks c ! n")
      case False
      then show ?thesis using set_update_split [OF assms(8) t(1)] t(2) assms(10) by auto
    next
      case True
      then have "clears i (TPersist p pc)" using t assms(9) by simp
      moreover have "pc \<noteq> PDelete i" using run_persist_raw(3) [OF assms(1,2,11), of i] held by metis
      ultimately obtain it where pc: "pc = PCommit None it" "ID it = i" by (cases pc) auto
      have member: "(p, pc) \<in> set (persists (tasks c))" using assms(13) by simp
      then have F: "filed (cb c) p pc" using assms(7) unfolding all_filed_def by blast
      have N: "ps_isNew (psHeap (cb c) ! p_addr p) \<longleftrightarrow> p_pending p \<noteq> ''''"
        using assms(6) member unfolding book_def by blast
      have C: "persistCommit env p None it (cb c) = (pc', cb c')"
        using assms(11) pc by (auto split: prod.splits)
      have "ps_deleted (psHeap (cb c) ! p_addr p)" using w pc by simp
      then have "pc' = PDelete i" by (rule persistCommit_clears [OF C _ F [unfolded pc(1)] N pc(2) assms(4,5)])
      then have "clears i (TPersist p pc')" by simp
      then show ?thesis using assms(8,10) by (metis set_update_memI)
    qed
  qed
  moreover have "ps_deleted (psHeap (cb c') ! p_addr q)" if "(q, qc) \<in> set (persists (tasks c'))" "writes i (cb c') q qc" for q qc
  proof -
    have "(q, qc) \<noteq> (p, pc')" using out that(2) by auto
    then have "(q, qc) \<in> set (persists (tasks c))" using that(1) assms(13,14) by auto
    moreover have "writes i (cb c) q qc" using writes_alias [OF _ that(2)] out by blast
    ultimately show ?thesis using assms(3) out by (auto simp: condemned_def)
  qed
  ultimately show ?thesis by (auto simp: condemned_def)
qed

lemma condemned_step:
  assumes "raw env = R" "ok (rst c)" "condemned contents i c" "i \<noteq> ''''" "\<not> isPendingID i"
    and "book (cb c) (persists (tasks c))" "all_filed (cb c) (persists (tasks c))"
    and "step env a c = Some c'" "quiet i c a c'"
  shows "condemned contents i c' \<and> ok (rst c')"
  using assms(8)
proof (cases rule: step_cases)
  case (save it rnd now it' p pit)
  from save(2) obtain k b1 where add: "addPendingSaveLocked (p_key p) (p_pending p \<noteq> '''') (cb c) = (k, b1)"
    "psHeap (cb c') = psHeap b1" "idAliases (cb c') = idAliases b1"
    by (rule asyncSave_effect)
  have heap: "ps_deleted (psHeap (cb c') ! a)" if "ps_deleted (psHeap (cb c) ! a)" "a < length (psHeap (cb c))" for a
  proof -
    let ?l = "mgetL (pendingSaves (cb c)) (p_key p)"
    have "same_links (psHeap (cb c)) (updStates (\<lambda>s. s\<lparr>ps_superseded := True\<rparr>) ?l (psHeap (cb c)))"
      by (rule same_links_upd) simp
    then show ?thesis using add(1,2) that by (auto simp: addPendingSaveLocked_def Let_def same_links_def nth_append)
  qed
  have "\<not> writes i (cb c') p (PWait pit)" using assms(9) save(1,4) by (simp add: quiet_def)
  then have "condemned contents i c'"
    using assms(3) save heap book_addr [OF assms(6)] add_keeps(3) [OF add(1)] writes_cong [of "cb c'" "cb c"] add(3)
    unfolding condemned_def by auto
  then show ?thesis using save(3) assms(2) by simp
next
  case (persist n now p pc pc' A B)
  have "ok (rst c')" using run_persist_raw(1) [OF assms(1,2) persist(4)] .
  moreover have "condemned contents i c'"
  proof (cases "\<exists>it. pc = PSave it")
    case True
    then show ?thesis using condemned_save assms(1-3,9) persist by metis
  next
    case False
    then show ?thesis using condemned_persist [OF assms(1-7) persist(2,3,5,4) _ persist(6,7)] by blast
  qed
  ultimately show ?thesis by simp
next
  case (cancel n p it A B)
  have "t \<in> set (tasks c')" if "t \<in> set (tasks c)" "clears i t" for t
  proof -
    have "t \<noteq> tasks c ! n" using that(2) cancel(3) by auto
    then show ?thesis using set_update_split [OF cancel(2) that(1)] cancel(6) by simp
  qed
  then have "condemned contents i c'"
    using assms(3) cancel writes_cong [of "cb c'" "cb c"] by (auto simp: condemned_def)
  then show ?thesis using cancel(5) assms(2) by simp
next
  case (delete d)
  obtain h where h: "deleteMark d (cb c) = (cb c)\<lparr>psHeap := h\<rparr>" "same_links (psHeap (cb c)) h"
    using deleteMark_frame [of d "cb c"] deleteMark_links [of "cb c" d] by auto
  have fewer: "fewer_aliases (cb c) (cb c')"
  proof -
    have "mwf (idAliases (deleteMark d (cb c)))" using h assms(7) by (simp add: all_filed_def)
    then have "fewer_aliases (deleteMark d (cb c)) (evictItemFromCachesLocked d j (deleteMark d (cb c)))" for j
      by (rule fewer_aliases_evict)
    then show ?thesis using delete h by (auto simp: fewer_aliases_def split: if_splits)
  qed
  moreover have "psHeap (cb c') = h" "persists (tasks c') = persists (tasks c)" "set (tasks c) \<subseteq> set (tasks c')"
    using delete h by (auto split: if_splits)
  ultimately have "condemned contents i c'"
    using assms(3) delete(2) writes_fewer [OF fewer] links_deleted [OF h(2)] book_addr [OF assms(6)]
    unfolding condemned_def by (auto simp: subset_eq)
  then show ?thesis using delete(2) assms(2) by simp
next
  case (other n now t' new)
  note frame = run_other_frame [OF other(4,3)] and raw = run_other_raw [OF assms(1,2) other(4,3)]
  have fewer: "fewer_aliases (cb c) (cb c')" using frame assms(7) by (simp add: all_filed_def)
  have "\<exists>t \<in> set (tasks c'). clears i t" if held: "contents (rst c') i \<noteq> None"
  proof -
    obtain t where t: "t \<in> set (tasks c)" "clears i t" using raw(2) [OF held] assms(3) by (auto simp: condemned_def)
    then have "t \<noteq> tasks c ! n" using raw(2) [OF held] by auto
    then show ?thesis using set_update_split [OF other(2) t(1)] t(2) other(5) by auto
  qed
  then have "condemned contents i c'"
    using assms(3) frame other(6) writes_fewer [OF fewer] by (auto simp: condemned_def)
  then show ?thesis using raw(1) by simp
next
  case (client g)
  then show ?thesis using assms(2,3) by (auto simp: condemned_def)
qed

end

context raw_storage_total
begin

lemma condemned_start:
  assumes "book (cb c) (persists (tasks c))" "all_filed (cb c) (persists (tasks c))"
    and "resolveID (cb c) d = i" "i \<noteq> ''''" "\<not> isPendingID i" "tracked i c" "step env (CDelete d) c = Some c0"
  shows "condemned contents i c0"
proof -
  have c0: "cb c0 = deleteMark d (cb c)" "tasks c0 = tasks c @ [TDelete d i DRaw]"
    using assms(3,5,7) by (auto simp: Let_def)
  have al: "idAliases (cb c0) = idAliases (cb c)" using deleteMark_frame [of d "cb c"] c0(1) by auto
  have "ps_deleted (psHeap (cb c0) ! p_addr p)"
    if mem: "(p, pc) \<in> set (persists (tasks c))" and w: "writes i (cb c0) p pc" for p pc
  proof -
    have w': "writes i (cb c) p pc" using w writes_cong [OF al] by blast
    have f: "filed (cb c) p pc" using assms(2) mem unfolding all_filed_def by blast
    have "p_addr p \<in> set (mgetL (pendingSaves (cb c)) i)
      \<or> (mget (idAliases (cb c)) (p_pending p) = Some i \<and> p_addr p \<in> set (mgetL (pendingSaves (cb c)) (p_pending p)))"
    proof (cases "p_pending p = ''''")
      case True
      then have "queued pc" "pc_item pc \<noteq> None" "\<forall>it. pc_item pc = Some it \<longrightarrow> ID it = i"
        using w' by (cases pc; auto)+
      then show ?thesis using f True by (auto simp: filed_def)
    next
      case False
      then show ?thesis using assms(6) mem w' unfolding tracked_def by blast
    qed
    then show ?thesis unfolding c0(1) by (rule deleteMark_hit [OF assms(3) book_addr [OF assms(1) mem]])
  qed
  then show ?thesis using c0(2) by (auto simp: condemned_def)
qed

lemma condemned_run:
  assumes "raw env = R" "i \<noteq> ''''" "\<not> isPendingID i"
    and "ok (rst c)" "condemned contents i c" "book (cb c) (persists (tasks c))"
    and "all_filed (cb c) (persists (tasks c))" "quiet_steps env i as c = Some c'"
  shows "condemned contents i c'"
  using assms(4-8)
proof (induction as arbitrary: c)
  case (Cons a as)
  then obtain c1 where one: "step env a c = Some c1" "quiet i c a c1" "quiet_steps env i as c1 = Some c'"
    by (auto split: option.splits if_splits)
  have "condemned contents i c1 \<and> ok (rst c1)"
    using condemned_step [OF assms(1) Cons.prems(1,2) assms(2,3) Cons.prems(3,4) one(1,2)] .
  moreover have "book (cb c1) (persists (tasks c1))" using book_step [OF Cons.prems(3) one(1)] .
  moreover have "all_filed (cb c1) (persists (tasks c1))"
    using filed_step [OF Cons.prems(3,4) _ one(1)] keeps_ids_ok [OF Cons.prems(1)] assms(1) by simp
  ultimately show ?case using Cons.IH one(3) by blast
qed simp

lemma condemned_end:
  assumes "condemned contents i c" "\<forall>t \<in> set (tasks c). finished t"
  shows "contents (rst c) i = None"
proof -
  have "\<not> clears i t" if "finished t" for t
    using that by (induction i t rule: clears.induct) (auto simp: finished_def)
  then show ?thesis using assms by (auto simp: condemned_def)
qed

lemma deleted_for_good:
  assumes "raw env = R" "reachable env c" "\<And>r. keeps_ids R r" "ok (rst c)"
    and "resolveID (cb c) d = i" "i \<noteq> ''''" "\<not> isPendingID i" "tracked i c"
    and "step env (CDelete d) c = Some c0" "quiet_steps env i as c0 = Some c'" "\<forall>t \<in> set (tasks c'). finished t"
  shows "contents (rst c') i = None"
proof -
  have bk: "book (cb c) (persists (tasks c))" and fl: "all_filed (cb c) (persists (tasks c))"
    using book_reachable [OF assms(2)] filed_reachable [OF assms(2)] assms(1,3) by auto
  have "ok (rst c0)" using assms(4,9) by (auto simp: Let_def split: if_splits)
  moreover have "all_filed (cb c0) (persists (tasks c0))"
    using filed_step [OF bk fl _ assms(9)] assms(1,3) by simp
  ultimately have "condemned contents i c'"
    using condemned_run [OF assms(1,6,7) _ condemned_start [OF bk fl assms(5-9)] book_step [OF bk assms(9)] _ assms(10)]
    by blast
  then show ?thesis using condemned_end assms(11) by blast
qed

end

lemma mem_keeps_ids: "keeps_ids (inMemoryRaw ord) r"
  by (auto simp: keeps_ids_def inMemoryRaw_def mem_Save_def Let_def split: if_splits option.splits)

subsection \<open>Properties\<close>

text \<open>
  C8. A deletion is final for every save of the item that was under way, in front of an in-memory
  backend, whose calls do not fail. From any reachable state, after \<open>Delete\<close> of an item has begun that
  resolves to a real (not a provisional) identifier, and however the goroutines then interleave with
  each other, with timeouts and with any further calls that do not save that item anew, once all
  goroutines have ended the backend does not hold the item. When the deletion begins no save of a
  new item under way may have been given this very identifier without having recorded it yet
  (\<open>tracked\<close>), and no later step starts a save of the item or gives its identifier to a new
  item (\<open>quiet_steps\<close>). Deletions by a provisional identifier, and backends whose trailing
  \<open>Delete\<close> fails, are outside this statement.
\<close>

theorem delete_is_final:
  assumes "raw env = inMemoryRaw ord" "order_ok ord" "reachable env c" "mem_ok (rst c)"
    and "resolveID (cb c) d = i" "i \<noteq> ''''" "\<not> isPendingID i" "tracked i c"
    and "step env (CDelete d) c = Some c0" "quiet_steps env i as c0 = Some c'" "\<forall>t \<in> set (tasks c'). finished t"
  shows "mem_contents (rst c') i = None"
  by (rule raw_storage_total.deleted_for_good [OF raw_storage_total_mem [OF assms(2)] assms(1,3) mem_keeps_ids assms(4-11)])

definition witness_held :: "InMemoryBackend conf" where
  "witness_held = initial (snd (NewCachedBackend (raw witness_env) (opts witness_env)
     (newBuffer witness_env) (destroyBuffer witness_env))) \<lparr>items = [(''k'', witness_item\<lparr>ID := ''k''\<rparr>)], entropy = []\<rparr>"

text \<open>An update of the held item has passed its check and is about to write.\<close>

definition update_begun :: "action list" where
  "update_begun = [CSave (witness_item\<lparr>ID := ''k'', Label := ''v2''\<rparr>) None 0, Run 0 1]"

text \<open>The deletion reaches the backend first, the write comes after it.\<close>

definition delete_then_write :: "action list" where
  "delete_then_write = [Run 1 2, Run 0 2, Run 0 2, Run 0 2, Run 0 2, Run 1 2, Run 1 2, Run 1 2, Run 1 2]"

lemmas delete_eval = async_eval persistCommit_def removePendingSaveLocked_def removePendingSaveFromKeyLocked_def
  realOr_def closeDone_def evictItemFromCachesLocked_def deleteSecretCache_def buffersOf_def cs_destroy_def
  inMemoryRaw_def mem_Save_def mem_Delete_def finished_def mem_contents_def witness_held_def

lemma witness_held_reachable: "reachable witness_env witness_held"
  unfolding witness_held_def by (rule reachable.launch)

theorem delete_is_final_witness:
  "\<exists>c c0 c'. steps witness_env update_begun witness_held = Some c \<and> step witness_env (CDelete ''k'') c = Some c0
     \<and> quiet_steps witness_env ''k'' delete_then_write c0 = Some c' \<and> mem_contents (rst c') ''k'' = None"
proof -
  have ex: "\<exists>c c0 c'. steps witness_env update_begun witness_held = Some c \<and> resolveID (cb c) ''k'' = ''k''
    \<and> tracked ''k'' c \<and> rst c = rst witness_held \<and> step witness_env (CDelete ''k'') c = Some c0
    \<and> quiet_steps witness_env ''k'' delete_then_write c0 = Some c' \<and> (\<forall>t \<in> set (tasks c'). finished t)"
    by (simp add: update_begun_def delete_then_write_def delete_eval tracked_def quiet_def)
  then obtain c c0 c' where run: "steps witness_env update_begun witness_held = Some c"
    "resolveID (cb c) ''k'' = ''k''" "tracked ''k'' c" "rst c = rst witness_held"
    "step witness_env (CDelete ''k'') c = Some c0"
    "quiet_steps witness_env ''k'' delete_then_write c0 = Some c'" "\<forall>t \<in> set (tasks c'). finished t"
    by (elim exE conjE)
  have reach: "reachable witness_env c" using steps_reachable [OF run(1) witness_held_reachable] .
  have ok: "mem_ok (rst c)" unfolding run(4) by (simp add: witness_held_def initial_def mem_ok_def)
  have "mem_contents (rst c') ''k'' = None"
    by (rule delete_is_final [OF _ order_ok_id reach ok run(2) _ _ run(3,5,6,7)])
      (simp_all add: witness_env_def isPendingID_def hasPrefix_def pendingIDPrefix_def)
  then show ?thesis using run by (intro exI [of _ c] exI [of _ c0] exI [of _ c'] conjI)
qed

text \<open>
  A save that follows a completed deletion can be lost. A deleted save leaves the queue of
  its item before it calls the backend's \<open>Delete\<close>, so a new save of the same item does not
  wait for it; when the new save writes first, the old goroutine removes what was just
  written. In this run \<open>Delete\<close> has returned to its client before the new save is
  made, all goroutines end, and the metadata cache lists an item the backend does not hold.
\<close>

lemma late_delete_loses_save:
  "\<exists>c c'. steps witness_env
       (update_begun @ [CDelete ''k'', Run 1 2, Run 1 2, Run 1 2, Run 1 2, Run 1 2, Run 0 2, Run 0 2]) witness_held = Some c
     \<and> tasks c ! 1 = TDelete ''k'' ''k'' (DDone None)
     \<and> steps witness_env [CSave (witness_item\<lparr>ID := ''k'', Label := ''v3''\<rparr>) None 3,
         Run 2 3, Run 2 3, Run 2 3, Run 2 3, Run 0 4, Run 0 4] c = Some c'
     \<and> list_all finished (tasks c')
     \<and> map_option Label (mget (metaCache (cb c')) ''k'') = Some ''v3'' \<and> mem_contents (rst c') ''k'' = None"
  by (simp add: update_begun_def delete_eval)

end
