(* ===== verification/Keyring_Service.thy ===== *)
theory Keyring_Service
  imports Keyring_Crypto Keyring_Refine
begin

text \<open>
  The D-Bus side of the keyring (\<^verbatim>\<open>cmd/wsl-keyring/dbus_service.go\<close>): the sessions of the
  Secret Service, the service, collection, item and session objects, and their methods over a
  \<^verbatim>\<open>StorageBackend\<close>, whose contract is the locale \<open>storage_backend\<close>. The in-memory backend
  and the synchronous caching layer are shown to satisfy it.

  The bus connection is a parameter: \<open>conn\<close> says which exports succeed, and is \<open>None\<close> for a
  nil connection. The \<open>n\<close>-th read of the random sources is \<open>ivRand n\<close> and \<open>dhRand n\<close>.
  Of a D-Bus error the model keeps the name, not the message. A nil byte slice and an empty one
  are the same on the bus.
\<close>

subsection \<open>The storage interface\<close>

record 'b StorageBackend =
  bSearch :: "(string, string) gomap \<Rightarrow> 'b \<Rightarrow> (berror + SecretItem list) \<times> 'b"
  bGet :: "string \<Rightarrow> 'b \<Rightarrow> (berror + SecretItem) \<times> 'b"
  bSave :: "SecretItem \<Rightarrow> 'b \<Rightarrow> (berror option \<times> SecretItem) \<times> 'b"
  bDelete :: "string \<Rightarrow> 'b \<Rightarrow> berror option \<times> 'b"
  bList :: "'b \<Rightarrow> (berror + SecretItem list) \<times> 'b"

text \<open>
  The contract: \<open>contents\<close> is what the backend holds by identifier and \<open>adm\<close> the items it
  promises to store as they are.
\<close>

locale storage_backend =
  fixes S :: "'b StorageBackend"
    and contents :: "'b \<Rightarrow> string \<Rightarrow> SecretItem option"
    and ok :: "'b \<Rightarrow> bool"
    and adm :: "SecretItem \<Rightarrow> bool"
  assumes get_law: "ok s \<Longrightarrow> bGet S i s = (res, s') \<Longrightarrow>
      ok s' \<and> contents s' = contents s \<and> res = (case contents s i of None \<Rightarrow> Inl ErrNotFound | Some it \<Rightarrow> Inr it)"
    and save_law: "ok s \<Longrightarrow> adm it \<Longrightarrow> bSave S it s = ((None, it'), s') \<Longrightarrow>
      ok s' \<and> contents s' = (contents s)(ID it' \<mapsto> it') \<and> it' = it\<lparr>ID := ID it'\<rparr>
      \<and> ID it' \<noteq> '''' \<and> (ID it \<noteq> '''' \<longrightarrow> ID it' = ID it)"
    and save_fail_law: "ok s \<Longrightarrow> adm it \<Longrightarrow> bSave S it s = ((Some e, it'), s') \<Longrightarrow> ok s' \<and> contents s' = contents s"
    and search_law: "ok s \<Longrightarrow> bSearch S attrs s = (found, s') \<Longrightarrow> ok s' \<and> contents s' = contents s
      \<and> (\<forall>xs. found = Inr xs \<longrightarrow>
          (\<forall>m. m \<in> withoutSecret ` set xs \<longleftrightarrow>
             (\<exists>it. contents s (ID it) = Some it \<and> attributesMatch (Attributes it) attrs \<and> m = withoutSecret it)))"

subsection \<open>Objects and state\<close>

datatype dbus_error = DBusError string | DBusPanic

datatype variant =
    VEmpty
  | VString string
  | VBytes bytes
  | VPaths "string list"
  | VBool bool
  | VUint64 "64 word"
  | VAttributes "(string, string) gomap"
  | VOther

definition ServicePath :: string where "ServicePath = ''/org/freedesktop/secrets''"
definition CollectionPath :: string where "CollectionPath = ''/org/freedesktop/secrets/collection/default''"
definition SessionPath :: string where "SessionPath = ''/org/freedesktop/secrets/session/''"
definition ItemPathPrefix :: string where "ItemPathPrefix = ''/org/freedesktop/secrets/collection/default/item/''"
definition ServiceInterface :: string where "ServiceInterface = ''org.freedesktop.Secret.Service''"
definition CollectionInterface :: string where "CollectionInterface = ''org.freedesktop.Secret.Collection''"
definition ItemInterface :: string where "ItemInterface = ''org.freedesktop.Secret.Item''"
definition SessionInterface :: string where "SessionInterface = ''org.freedesktop.Secret.Session''"
definition PropertiesInterface :: string where "PropertiesInterface = ''org.freedesktop.DBus.Properties''"
definition IntrospectableInterface :: string where
  "IntrospectableInterface = ''org.freedesktop.DBus.Introspectable''"
definition AlgorithmPlain :: string where "AlgorithmPlain = ''plain''"
definition AlgorithmDH :: string where "AlgorithmDH = ''dh-ietf1024-sha256-aes128-cbc-pkcs7''"

definition Failed :: dbus_error where "Failed = DBusError ''org.freedesktop.Secret.Error.Failed''"
definition InvalidArgs :: dbus_error where "InvalidArgs = DBusError ''org.freedesktop.DBus.Error.InvalidArgs''"
definition NotSupported :: dbus_error where "NotSupported = DBusError ''org.freedesktop.DBus.Error.NotSupported''"
definition AlgorithmNotSupported :: dbus_error where
  "AlgorithmNotSupported = DBusError ''org.freedesktop.Secret.Error.NotSupported''"

record DBusSecret =
  ds_session :: string
  ds_parameters :: bytes
  ds_value :: bytes
  ds_contentType :: string

record SessionState =
  ss_algorithm :: string
  ss_aesKey :: "bytes option"

record ItemObject =
  io_id :: string
  io_label :: string
  io_attributes :: "(string, string) gomap"

record 'b ServiceObject =
  sessions :: "(string, SessionState) gomap"
  nextID :: nat
  exported :: "(string \<times> string, ItemObject) gomap"
  reads :: nat
  bst :: 'b

record 'b service_env =
  backend :: "'b StorageBackend"
  conn :: "(string \<Rightarrow> string \<Rightarrow> bool) option"
  aesE :: "bytes \<Rightarrow> bytes \<Rightarrow> bytes"
  aesD :: "bytes \<Rightarrow> bytes \<Rightarrow> bytes"
  hkdf :: "bytes \<Rightarrow> nat \<Rightarrow> bytes option"
  ivRand :: "nat \<Rightarrow> nat \<Rightarrow> bytes option"
  dhRand :: "nat \<Rightarrow> int \<Rightarrow> int option"

definition NewServiceObject :: "'b \<Rightarrow> 'b ServiceObject" where
  "NewServiceObject b = \<lparr>sessions = [], nextID = 0, exported = [], reads = 0, bst = b\<rparr>"

subsection \<open>Sessions\<close>

definition newSessionPath :: "'b ServiceObject \<Rightarrow> string \<times> 'b ServiceObject" where
  "newSessionPath s = (SessionPath @ decimal (nextID s), s\<lparr>nextID := Suc (nextID s)\<rparr>)"

definition getSession :: "'b ServiceObject \<Rightarrow> string \<Rightarrow> SessionState option" where
  "getSession s path = mget (sessions s) path"

text \<open>Registering the session and exporting its object, undone when the export fails; a nil
  connection panics.\<close>

definition registerSession ::
    "'b service_env \<Rightarrow> SessionState \<Rightarrow> variant \<Rightarrow> 'b ServiceObject
      \<Rightarrow> (dbus_error + variant \<times> string) \<times> 'b ServiceObject" where
  "registerSession env sess out s =
     (let (path, s1) = newSessionPath s;
          s2 = s1\<lparr>sessions := mput (sessions s1) path sess\<rparr>
      in case conn env of
           None \<Rightarrow> (Inl DBusPanic, s2)
         | Some export \<Rightarrow>
             if export path SessionInterface then (Inr (out, path), s2)
             else (Inl Failed, s2\<lparr>sessions := mdel (sessions s2) path\<rparr>))"

definition OpenSession ::
    "'b service_env \<Rightarrow> string \<Rightarrow> variant \<Rightarrow> 'b ServiceObject
      \<Rightarrow> (dbus_error + variant \<times> string) \<times> 'b ServiceObject" where
  "OpenSession env algorithm input s =
     (if algorithm = AlgorithmPlain then
        registerSession env \<lparr>ss_algorithm = AlgorithmPlain, ss_aesKey = None\<rparr> (VString '''') s
      else if algorithm = AlgorithmDH then
        (case input of
           VBytes clientPublicBytes \<Rightarrow>
             if clientPublicBytes = [] then (Inl InvalidArgs, s)
             else
               (let s1 = s\<lparr>reads := Suc (reads s)\<rparr> in
                case GenerateDHKeypair (dhRand env (reads s)) of
                  Inl e \<Rightarrow> (Inl Failed, s1)
                | Inr kp \<Rightarrow>
                    (case ComputeSharedSecret clientPublicBytes (Private kp) of
                       Inl e \<Rightarrow> (Inl DBusPanic, s1)
                     | Inr shared \<Rightarrow>
                         (case DeriveAESKey (hkdf env) shared of
                            Inl e \<Rightarrow> (Inl Failed, s1)
                          | Inr key \<Rightarrow>
                              (case registerSession env \<lparr>ss_algorithm = AlgorithmDH, ss_aesKey = Some key\<rparr> VEmpty s1 of
                                 (Inl e, s2) \<Rightarrow> (Inl e, s2)
                               | (Inr (_, path), s2) \<Rightarrow>
                                   (case BigIntToBytes (Public kp) of
                                      Inl e \<Rightarrow> (Inl DBusPanic, s2)
                                    | Inr pub \<Rightarrow> (Inr (VBytes pub, path), s2))))))
         | _ \<Rightarrow> (Inl InvalidArgs, s))
      else (Inl AlgorithmNotSupported, s))"

definition CloseSession :: "string \<Rightarrow> 'b ServiceObject \<Rightarrow> 'b ServiceObject" where
  "CloseSession path s = s\<lparr>sessions := mdel (sessions s) path\<rparr>"

definition encryptSecret ::
    "'b service_env \<Rightarrow> SessionState \<Rightarrow> bytes \<Rightarrow> 'b ServiceObject
      \<Rightarrow> (crypto_error + bytes \<times> bytes) \<times> 'b ServiceObject" where
  "encryptSecret env sess plaintext s =
     (case ss_aesKey sess of
        Some key \<Rightarrow>
          if ss_algorithm sess = AlgorithmDH
          then (AESCBCEncrypt (aesE env) (ivRand env (reads s)) key plaintext, s\<lparr>reads := Suc (reads s)\<rparr>)
          else (Inr ([], plaintext), s)
      | None \<Rightarrow> (Inr ([], plaintext), s))"

datatype secret_error = ErrIVSize nat | ErrCrypto crypto_error

definition decryptSecret ::
    "'b service_env \<Rightarrow> SessionState \<Rightarrow> bytes \<Rightarrow> bytes \<Rightarrow> secret_error + bytes" where
  "decryptSecret env sess params val =
     (case ss_aesKey sess of
        Some key \<Rightarrow>
          if ss_algorithm sess = AlgorithmDH then
            (if length params \<noteq> 16 then Inl (ErrIVSize (length params))
             else case AESCBCDecrypt (aesD env) key params val of Inl e \<Rightarrow> Inl (ErrCrypto e) | Inr v \<Rightarrow> Inr v)
          else Inr val
      | None \<Rightarrow> Inr val)"

subsection \<open>The service object\<close>

definition CreateCollection :: "string \<times> string" where
  "CreateCollection = (CollectionPath, ''/'')"

definition exportOne ::
    "'b service_env \<Rightarrow> string \<Rightarrow> string \<Rightarrow> ItemObject option \<Rightarrow> 'b ServiceObject \<Rightarrow> bool \<times> 'b ServiceObject" where
  "exportOne env path iface obj s =
     (case conn env of
        None \<Rightarrow> (False, s)
      | Some export \<Rightarrow>
          if export path iface
          then (True, case obj of None \<Rightarrow> s | Some io \<Rightarrow> s\<lparr>exported := mput (exported s) (path, iface) io\<rparr>)
          else (False, s))"

definition ExportItem :: "'b service_env \<Rightarrow> SecretItem \<Rightarrow> 'b ServiceObject \<Rightarrow> bool \<times> 'b ServiceObject" where
  "ExportItem env it s =
     (if conn env = None then (True, s)
      else
        let path = ItemPathPrefix @ ID it;
            itemObj = \<lparr>io_id = ID it, io_label = Label it, io_attributes = copyAttributes (Attributes it)\<rparr>
        in case exportOne env path ItemInterface (Some itemObj) s of
             (False, s1) \<Rightarrow> (False, s1)
           | (True, s1) \<Rightarrow>
               (case exportOne env path PropertiesInterface (Some itemObj) s1 of
                  (False, s2) \<Rightarrow> (False, s2)
                | (True, s2) \<Rightarrow> exportOne env path IntrospectableInterface None s2))"

fun exportAll :: "'b service_env \<Rightarrow> SecretItem list \<Rightarrow> 'b ServiceObject \<Rightarrow> bool \<times> 'b ServiceObject" where
  "exportAll env [] s = (True, s)"
| "exportAll env (it # its) s =
     (case ExportItem env it s of (False, s1) \<Rightarrow> (False, s1) | (True, s1) \<Rightarrow> exportAll env its s1)"

definition searchUnlockedItems ::
    "'b service_env \<Rightarrow> (string, string) gomap \<Rightarrow> 'b ServiceObject \<Rightarrow> (dbus_error + string list) \<times> 'b ServiceObject" where
  "searchUnlockedItems env attributes s =
     (case bSearch (backend env) attributes (bst s) of
        (Inl e, b') \<Rightarrow> (Inl Failed, s\<lparr>bst := b'\<rparr>)
      | (Inr its, b') \<Rightarrow>
          (case exportAll env its (s\<lparr>bst := b'\<rparr>) of
             (False, s1) \<Rightarrow> (Inl Failed, s1)
           | (True, s1) \<Rightarrow> (Inr (map (\<lambda>it. ItemPathPrefix @ ID it) its), s1)))"

definition SearchItems ::
    "'b service_env \<Rightarrow> (string, string) gomap \<Rightarrow> 'b ServiceObject
      \<Rightarrow> (dbus_error + string list \<times> string list) \<times> 'b ServiceObject" where
  "SearchItems env attributes s =
     (case searchUnlockedItems env attributes s of
        (Inl e, s1) \<Rightarrow> (Inl e, s1) | (Inr paths, s1) \<Rightarrow> (Inr (paths, []), s1))"

definition secretBytes :: "SecretItem \<Rightarrow> bytes" where
  "secretBytes it = (case Secret it of None \<Rightarrow> [] | Some b \<Rightarrow> b)"

definition mkSecret :: "string \<Rightarrow> bytes \<times> bytes \<Rightarrow> DBusSecret" where
  "mkSecret session pv =
     \<lparr>ds_session = session, ds_parameters = fst pv, ds_value = snd pv, ds_contentType = ''text/plain''\<rparr>"

fun getSecretsLoop ::
    "'b service_env \<Rightarrow> SessionState \<Rightarrow> string \<Rightarrow> string list \<Rightarrow> (string, DBusSecret) gomap \<Rightarrow> 'b ServiceObject
      \<Rightarrow> (string, DBusSecret) gomap \<times> 'b ServiceObject" where
  "getSecretsLoop env sess session [] secrets s = (secrets, s)"
| "getSecretsLoop env sess session (path # paths) secrets s =
     (case cutPrefix path ItemPathPrefix of
        None \<Rightarrow> getSecretsLoop env sess session paths secrets s
      | Some i \<Rightarrow>
          (case bGet (backend env) i (bst s) of
             (Inl e, b') \<Rightarrow> getSecretsLoop env sess session paths secrets (s\<lparr>bst := b'\<rparr>)
           | (Inr it, b') \<Rightarrow>
               (case encryptSecret env sess (secretBytes it) (s\<lparr>bst := b'\<rparr>) of
                  (Inl e, s1) \<Rightarrow> getSecretsLoop env sess session paths secrets s1
                | (Inr pv, s1) \<Rightarrow>
                    getSecretsLoop env sess session paths (mput secrets path (mkSecret session pv)) s1)))"

definition GetSecrets ::
    "'b service_env \<Rightarrow> string list \<Rightarrow> string \<Rightarrow> 'b ServiceObject
      \<Rightarrow> (dbus_error + (string, DBusSecret) gomap) \<times> 'b ServiceObject" where
  "GetSecrets env paths session s =
     (case getSession s session of
        None \<Rightarrow> (Inl Failed, s)
      | Some sess \<Rightarrow> (case getSecretsLoop env sess session paths [] s of (m, s1) \<Rightarrow> (Inr m, s1)))"

definition LockObjects :: "string list \<Rightarrow> string list \<times> string" where
  "LockObjects objects = ([], ''/'')"

definition UnlockObjects :: "string list \<Rightarrow> string list \<times> string" where
  "UnlockObjects objects = (objects, ''/'')"

definition ReadAlias :: "string \<Rightarrow> string" where
  "ReadAlias name = (if name = ''default'' then CollectionPath else ''/'')"

definition service_Get :: "string \<Rightarrow> string \<Rightarrow> dbus_error + variant" where
  "service_Get iface property =
     (if iface = ServiceInterface \<and> property = ''Collections'' then Inr (VPaths [CollectionPath]) else Inl InvalidArgs)"

definition service_GetAll :: "string \<Rightarrow> (string, variant) gomap" where
  "service_GetAll iface = (if iface = ServiceInterface then [(''Collections'', VPaths [CollectionPath])] else [])"

definition service_Set :: dbus_error where
  "service_Set = NotSupported"

subsection \<open>The collection object\<close>

text \<open>The label property must be a string: any other variant makes the type assertion panic. An
  attributes property of another type is ignored.\<close>

definition propLabel :: "(string, variant) gomap \<Rightarrow> string option" where
  "propLabel properties =
     (case mget properties (ItemInterface @ ''.Label'') of
        None \<Rightarrow> Some '''' | Some (VString l) \<Rightarrow> Some l | Some _ \<Rightarrow> None)"

definition propAttributes :: "(string, variant) gomap \<Rightarrow> (string, string) gomap" where
  "propAttributes properties =
     (case mget properties (ItemInterface @ ''.Attributes'') of
        Some (VAttributes attrs) \<Rightarrow> attrs | _ \<Rightarrow> [])"

definition replaceTarget ::
    "'b service_env \<Rightarrow> bool \<Rightarrow> (string, string) gomap \<Rightarrow> 'b \<Rightarrow> string \<times> 'b" where
  "replaceTarget env replace attributes b =
     (if replace then
        (case bSearch (backend env) attributes b of
           (Inr (it # _), b') \<Rightarrow> (ID it, b') | (_, b') \<Rightarrow> ('''', b'))
      else ('''', b))"

definition CreateItem ::
    "'b service_env \<Rightarrow> (string, variant) gomap \<Rightarrow> DBusSecret \<Rightarrow> bool \<Rightarrow> 'b ServiceObject
      \<Rightarrow> (dbus_error + string \<times> string) \<times> 'b ServiceObject" where
  "CreateItem env properties secret replace s =
     (case propLabel properties of
        None \<Rightarrow> (Inl DBusPanic, s)
      | Some label \<Rightarrow>
          (let attributes = propAttributes properties in
           case getSession s (ds_session secret) of
             None \<Rightarrow> (Inl Failed, s)
           | Some sess \<Rightarrow>
               (case decryptSecret env sess (ds_parameters secret) (ds_value secret) of
                  Inl e \<Rightarrow> (Inl Failed, s)
                | Inr secretValue \<Rightarrow>
                    (let (i, b1) = replaceTarget env replace attributes (bst s);
                         it = \<lparr>ID = i, Label = label, Attributes = attributes, Secret = Some secretValue\<rparr>
                     in case bSave (backend env) it b1 of
                          ((Some e, _), b2) \<Rightarrow> (Inl Failed, s\<lparr>bst := b2\<rparr>)
                        | ((None, it'), b2) \<Rightarrow>
                            (case ExportItem env it' (s\<lparr>bst := b2\<rparr>) of
                               (False, s1) \<Rightarrow> (Inl Failed, s1)
                             | (True, s1) \<Rightarrow> (Inr (ItemPathPrefix @ ID it', ''/''), s1))))))"

definition collection_SearchItems ::
    "'b service_env \<Rightarrow> (string, string) gomap \<Rightarrow> 'b ServiceObject \<Rightarrow> (dbus_error + string list) \<times> 'b ServiceObject" where
  "collection_SearchItems env attributes s = searchUnlockedItems env attributes s"

definition collection_Delete :: "dbus_error" where
  "collection_Delete = NotSupported"

definition collection_Get ::
    "'b service_env \<Rightarrow> string \<Rightarrow> string \<Rightarrow> 'b ServiceObject \<Rightarrow> (dbus_error + variant) \<times> 'b ServiceObject" where
  "collection_Get env iface property s =
     (if iface \<noteq> CollectionInterface then (Inl InvalidArgs, s)
      else if property = ''Items'' then
        (case bList (backend env) (bst s) of
           (Inl e, b') \<Rightarrow> (Inl Failed, s\<lparr>bst := b'\<rparr>)
         | (Inr its, b') \<Rightarrow> (Inr (VPaths (map (\<lambda>it. ItemPathPrefix @ ID it) its)), s\<lparr>bst := b'\<rparr>))
      else if property = ''Label'' then (Inr (VString ''Default''), s)
      else if property = ''Locked'' then (Inr (VBool False), s)
      else if property = ''Created'' then (Inr (VUint64 0), s)
      else if property = ''Modified'' then (Inr (VUint64 0), s)
      else (Inl InvalidArgs, s))"

fun collectProps ::
    "'b service_env \<Rightarrow> string \<Rightarrow> string list \<Rightarrow> (string, variant) gomap \<Rightarrow> 'b ServiceObject
      \<Rightarrow> (string, variant) gomap \<times> 'b ServiceObject" where
  "collectProps env iface [] props s = (props, s)"
| "collectProps env iface (prop # ps) props s =
     (case collection_Get env iface prop s of
        (Inl e, s1) \<Rightarrow> collectProps env iface ps props s1
      | (Inr v, s1) \<Rightarrow> collectProps env iface ps (mput props prop v) s1)"

definition collection_GetAll ::
    "'b service_env \<Rightarrow> string \<Rightarrow> 'b ServiceObject \<Rightarrow> (string, variant) gomap \<times> 'b ServiceObject" where
  "collection_GetAll env iface s =
     (if iface \<noteq> CollectionInterface then ([], s)
      else collectProps env iface [''Items'', ''Label'', ''Locked'', ''Created'', ''Modified''] [] s)"

subsection \<open>The item object\<close>

text \<open>\<open>GetSecret\<close> reads the backend before it looks at the session.\<close>

definition GetSecret ::
    "'b service_env \<Rightarrow> ItemObject \<Rightarrow> string \<Rightarrow> 'b ServiceObject \<Rightarrow> (dbus_error + DBusSecret) \<times> 'b ServiceObject" where
  "GetSecret env item session s =
     (case bGet (backend env) (io_id item) (bst s) of
        (Inl e, b') \<Rightarrow> (Inl Failed, s\<lparr>bst := b'\<rparr>)
      | (Inr it, b') \<Rightarrow>
          (case getSession s session of
             None \<Rightarrow> (Inl Failed, s\<lparr>bst := b'\<rparr>)
           | Some sess \<Rightarrow>
               (case encryptSecret env sess (secretBytes it) (s\<lparr>bst := b'\<rparr>) of
                  (Inl e, s1) \<Rightarrow> (Inl Failed, s1)
                | (Inr pv, s1) \<Rightarrow> (Inr (mkSecret session pv), s1))))"

definition secretItemForUpdate :: "ItemObject \<Rightarrow> bytes \<Rightarrow> SecretItem" where
  "secretItemForUpdate item secret =
     \<lparr>ID = io_id item, Label = io_label item, Attributes = copyAttributes (io_attributes item), Secret = Some secret\<rparr>"

definition SetSecret ::
    "'b service_env \<Rightarrow> ItemObject \<Rightarrow> DBusSecret \<Rightarrow> 'b ServiceObject \<Rightarrow> dbus_error option \<times> 'b ServiceObject" where
  "SetSecret env item secret s =
     (case getSession s (ds_session secret) of
        None \<Rightarrow> (Some Failed, s)
      | Some sess \<Rightarrow>
          (case decryptSecret env sess (ds_parameters secret) (ds_value secret) of
             Inl e \<Rightarrow> (Some Failed, s)
           | Inr secretValue \<Rightarrow>
               (case bSave (backend env) (secretItemForUpdate item secretValue) (bst s) of
                  ((Some e, _), b') \<Rightarrow> (Some Failed, s\<lparr>bst := b'\<rparr>)
                | ((None, _), b') \<Rightarrow> (None, s\<lparr>bst := b'\<rparr>))))"

definition item_Delete ::
    "'b service_env \<Rightarrow> ItemObject \<Rightarrow> 'b ServiceObject \<Rightarrow> (dbus_error + string) \<times> 'b ServiceObject" where
  "item_Delete env item s =
     (case bDelete (backend env) (io_id item) (bst s) of
        (Some e, b') \<Rightarrow> (Inl Failed, s\<lparr>bst := b'\<rparr>)
      | (None, b') \<Rightarrow> (Inr ''/'', s\<lparr>bst := b'\<rparr>))"

definition item_Get :: "ItemObject \<Rightarrow> string \<Rightarrow> string \<Rightarrow> dbus_error + variant" where
  "item_Get item iface property =
     (if iface \<noteq> ItemInterface then Inl InvalidArgs
      else if property = ''Locked'' then Inr (VBool False)
      else if property = ''Attributes'' then Inr (VAttributes (copyAttributes (io_attributes item)))
      else if property = ''Label'' then Inr (VString (io_label item))
      else if property = ''Created'' then Inr (VUint64 0)
      else if property = ''Modified'' then Inr (VUint64 0)
      else Inl InvalidArgs)"

definition item_GetAll :: "ItemObject \<Rightarrow> string \<Rightarrow> (string, variant) gomap" where
  "item_GetAll item iface =
     (if iface \<noteq> ItemInterface then []
      else
        fold (\<lambda>prop props. case item_Get item iface prop of Inl _ \<Rightarrow> props | Inr v \<Rightarrow> mput props prop v)
          [''Locked'', ''Attributes'', ''Label'', ''Created'', ''Modified''] [])"

subsection \<open>Backends that keep the contract\<close>

definition memStorage :: "(string \<times> SecretItem) order \<Rightarrow> InMemoryBackend StorageBackend" where
  "memStorage ord =
     \<lparr>bSearch = (\<lambda>attrs b. (Inr (mem_Search ord attrs b), b)), bGet = mem_Get, bSave = mem_Save,
      bDelete = mem_Delete, bList = (\<lambda>b. (Inr (mem_List ord b), b))\<rparr>"

text \<open>The synchronous caching layer as a storage backend: its state is the cache, the raw backend
  and the number of clock readings made so far.\<close>

record 'r cached_store =
  cs_cache :: CachedBackend
  cs_raw :: 'r
  cs_tick :: nat

definition argOr :: "'a \<Rightarrow> 'a option \<Rightarrow> 'a" where
  "argOr d x = (case x of None \<Rightarrow> d | Some y \<Rightarrow> y)"

definition lift_cached ::
    "('x \<Rightarrow> 'y) \<Rightarrow> nat \<Rightarrow> 'x \<times> CachedBackend \<times> 'r \<Rightarrow> 'y \<times> 'r cached_store" where
  "lift_cached f n out = (case out of (x, b, r) \<Rightarrow> (f x, \<lparr>cs_cache = b, cs_raw = r, cs_tick = n\<rparr>))"

definition cachedStorage ::
    "'r cache_env \<Rightarrow> (string \<times> SecretItem) order \<Rightarrow> (nat \<Rightarrow> gotime) \<Rightarrow> 'r cached_store StorageBackend" where
  "cachedStorage env ord clock =
     \<lparr>bSearch = (\<lambda>attrs s. lift_cached id (cs_tick s) (cb_Search env ord attrs (cs_cache s, cs_raw s))),
      bGet = (\<lambda>i s. lift_cached id (cs_tick s + 2)
                (cb_Get env (clock (cs_tick s)) (clock (cs_tick s + 1)) i (cs_cache s, cs_raw s))),
      bSave = (\<lambda>it s. lift_cached (\<lambda>(err, arg). (err, argOr it arg)) (cs_tick s + 1)
                (cb_SaveSync env (clock (cs_tick s)) (Some it) (cs_cache s, cs_raw s))),
      bDelete = (\<lambda>i s. lift_cached id (cs_tick s) (cb_Delete env i (cs_cache s, cs_raw s))),
      bList = (\<lambda>s. lift_cached id (cs_tick s) (cb_List env ord (cs_cache s, cs_raw s)))\<rparr>"

definition cached_contents :: "('r \<Rightarrow> string \<Rightarrow> SecretItem option) \<Rightarrow> 'r cached_store \<Rightarrow> string \<Rightarrow> SecretItem option" where
  "cached_contents contents s = contents (cs_raw s)"

definition cached_ok ::
    "('r \<Rightarrow> string \<Rightarrow> SecretItem option) \<Rightarrow> ('r \<Rightarrow> bool) \<Rightarrow> 'r cached_store \<Rightarrow> bool" where
  "cached_ok contents ok s \<longleftrightarrow> ok (cs_raw s) \<and> coherent contents (cs_cache s) (cs_raw s) \<and> metaLoaded (cs_cache s)"

definition storable :: "SecretItem \<Rightarrow> bool" where
  "storable it \<longleftrightarrow> has_secret it \<and> \<not> isPendingID (ID it)"

lemma storage_backend_mem:
  assumes "order_ok ord"
  shows "storage_backend (memStorage ord) mem_contents mem_ok (\<lambda>it. True)"
proof (unfold_locales, goal_cases)
  case (1 s i res s')
  then show ?case by (auto simp: memStorage_def mem_Get_def mem_contents_def split: option.splits)
next
  case (2 s it it' s')
  then show ?case using mem.save_ok [of s it it' s'] by (simp add: memStorage_def inMemoryRaw_def)
next
  case (3 s it e it' s')
  then show ?case using mem.save_failed [of s it e it' s'] by (simp add: memStorage_def inMemoryRaw_def)
next
  case (4 s attrs found s')
  have "it \<in> snd ` set (items s) \<longleftrightarrow> mget (items s) (ID it) = Some it" for it
    using 4(1) by (auto simp: mem_ok_def intro: rev_image_eqI)
  then show ?case using 4 assms by (auto simp: memStorage_def mem_Search_eq mem_contents_def)
qed

context raw_storage_total
begin

lemma listing_mem:
  assumes "ok r" "rawLoadMetadata R r = (Inr xs, r)"
  shows "m \<in> set xs \<longleftrightarrow> (\<exists>it. contents r (ID it) = Some it \<and> m = withoutSecret it)"
proof -
  obtain ys where ys: "rawLoadMetadata R r = (Inr ys, r)" "distinct (map ID ys)"
    using load_total [OF assms(1)] by blast
  then have d: "distinct (map ID xs)" using assms(2) by simp
  have "m \<in> set xs \<longleftrightarrow> map_of (map (\<lambda>x. (ID x, x)) xs) (ID m) = Some m"
    using d by (subst map_of_eq_Some_iff) (auto simp: comp_def)
  also have "\<dots> \<longleftrightarrow> (\<exists>it. contents r (ID m) = Some it \<and> m = withoutSecret it)"
    using load_ok [OF assms] by blast
  also have "\<dots> \<longleftrightarrow> (\<exists>it. contents r (ID it) = Some it \<and> m = withoutSecret it)"
    by (auto simp: withoutSecret_sel)
  finally show ?thesis .
qed

lemma storage_backend_cached:
  assumes "raw env = R" "memguard_ok env" "order_ok ord" "CacheMetadata (opts env)" "CacheSecrets (opts env)"
  shows "storage_backend (cachedStorage env ord clock) (cached_contents contents) (cached_ok contents ok) storable"
proof (unfold_locales, goal_cases)
  case (1 s i res s')
  obtain res0 b' r' where g: "cb_Get env (clock (cs_tick s)) (clock (cs_tick s + 1)) i (cs_cache s, cs_raw s) = (res0, b', r')"
    by (metis surj_pair)
  have s: "ok (cs_raw s)" "coherent contents (cs_cache s) (cs_raw s)" "metaLoaded (cs_cache s)"
    using 1(1) by (simp_all add: cached_ok_def)
  have "res = res0" "s' = \<lparr>cs_cache = b', cs_raw = r', cs_tick = cs_tick s + 2\<rparr>"
    using 1(2) g by (auto simp: cachedStorage_def lift_cached_def)
  then show ?case
    using get_refines [OF assms(1,2) s(1,2) g] s get_total [OF s(1), of i]
    by (simp add: cached_ok_def cached_contents_def)
next
  case (2 s it it' s')
  obtain err arg b' r' where g: "cb_SaveSync env (clock (cs_tick s)) (Some it) (cs_cache s, cs_raw s) = ((err, arg), b', r')"
    by (metis surj_pair)
  have s: "ok (cs_raw s)" "coherent contents (cs_cache s) (cs_raw s)" "metaLoaded (cs_cache s)"
    using 2(1) by (simp_all add: cached_ok_def)
  have out: "err = None" "it' = argOr it arg" "s' = \<lparr>cs_cache = b', cs_raw = r', cs_tick = cs_tick s + 1\<rparr>"
    using 2(3) g by (auto simp: cachedStorage_def lift_cached_def)
  obtain it1 where r: "rawSave R it (cs_raw s) = ((None, it1), r')" "arg = Some it1" "ok r'" "coherent contents b' r'" "metaLoaded b'"
    using save_refines [OF assms(1,2) s _ _ _ g] assms(4,5) 2(2) out(1) by (auto simp: storable_def)
  then show ?case
    using save_ok [OF s(1) r(1)] out by (auto simp: cached_ok_def cached_contents_def argOr_def)
next
  case (3 s it e it' s')
  obtain err arg b' r' where g: "cb_SaveSync env (clock (cs_tick s)) (Some it) (cs_cache s, cs_raw s) = ((err, arg), b', r')"
    by (metis surj_pair)
  have s: "ok (cs_raw s)" "coherent contents (cs_cache s) (cs_raw s)" "metaLoaded (cs_cache s)"
    using 3(1) by (simp_all add: cached_ok_def)
  have out: "err = Some e" "s' = \<lparr>cs_cache = b', cs_raw = r', cs_tick = cs_tick s + 1\<rparr>"
    using 3(3) g by (auto simp: cachedStorage_def lift_cached_def)
  obtain it1 where r: "rawSave R it (cs_raw s) = ((Some e, it1), r')" "ok r'" "coherent contents b' r'" "metaLoaded b'"
    using save_refines [OF assms(1,2) s _ _ _ g] assms(4,5) 3(2) out(1) by (auto simp: storable_def)
  then show ?case
    using save_failed [OF s(1) r(1)] out by (simp add: cached_ok_def cached_contents_def)
next
  case (4 s attrs found s')
  obtain res b' r' where g: "metadata env ord (cs_cache s, cs_raw s) = (res, b', r')" by (metis surj_pair)
  have s: "ok (cs_raw s)" "coherent contents (cs_cache s) (cs_raw s)"
    using 4(1) by (simp_all add: cached_ok_def)
  obtain ms xs where m: "res = Inr ms" "rawLoadMetadata R (cs_raw s) = (Inr xs, cs_raw s)" "mset ms = mset xs"
    "r' = cs_raw s" "coherent contents b' (cs_raw s)" "metaLoaded b'"
    using metadata_refines [OF assms(1) s assms(3,4) g] by blast
  have "set ms = set xs" using m(3) by (rule mset_eq_setD)
  then have mem: "x \<in> set ms \<longleftrightarrow> (\<exists>it. contents (cs_raw s) (ID it) = Some it \<and> x = withoutSecret it)" for x
    using listing_mem [OF s(1) m(2)] by blast
  have out: "found = Inr (map withoutSecret (filter (\<lambda>it. attributesMatch (Attributes it) attrs) ms))"
    "s' = \<lparr>cs_cache = b', cs_raw = cs_raw s, cs_tick = cs_tick s\<rparr>"
    using 4(2) g m by (auto simp: cachedStorage_def lift_cached_def cb_Search_def)
  show ?case
    using s m out mem by (auto simp: cached_ok_def cached_contents_def image_iff)
qed

end

interpretation mem_store: storage_backend "memStorage (\<lambda>xs. xs)" mem_contents mem_ok "\<lambda>it. True"
  by (rule storage_backend_mem) simp

subsection \<open>Sessions: lemmas\<close>

text \<open>Every open session was numbered by the counter.\<close>

definition sessions_wf :: "'b ServiceObject \<Rightarrow> bool" where
  "sessions_wf s \<longleftrightarrow> mwf (sessions s)
     \<and> (\<forall>path sess. mget (sessions s) path = Some sess \<longrightarrow> (\<exists>k < nextID s. path = SessionPath @ decimal k))"

lemma sessions_fresh:
  assumes "sessions_wf s"
  shows "mget (sessions s) (SessionPath @ decimal (nextID s)) = None"
proof (rule ccontr)
  assume "mget (sessions s) (SessionPath @ decimal (nextID s)) \<noteq> None"
  then obtain k where "k < nextID s" "SessionPath @ decimal (nextID s) = SessionPath @ decimal k"
    using assms unfolding sessions_wf_def by blast
  then show False using decimal_inj [of "nextID s" k] by simp
qed

lemma sessions_wf_extend:
  assumes "sessions_wf s" "mwf m" "nextID s' = Suc (nextID s)" "sessions s' = m"
    and "\<And>path sess. mget m path = Some sess \<Longrightarrow> path = SessionPath @ decimal (nextID s) \<or> mget (sessions s) path \<noteq> None"
  shows "sessions_wf s'"
  using assms unfolding sessions_wf_def by (metis less_Suc_eq not_None_eq)

lemma registerSession_spec:
  assumes "sessions_wf s" "registerSession env sess out s = (res, s')"
  shows "sessions_wf s'" and "bst s' = bst s" and "reads s' = reads s"
    and "res = Inr (v, path) \<Longrightarrow> mget (sessions s) path = None
      \<and> mget (sessions s') = (mget (sessions s))(path \<mapsto> sess) \<and> v = out"
    and "res = Inl Failed \<Longrightarrow> mget (sessions s') = mget (sessions s)"
proof -
  let ?p = "SessionPath @ decimal (nextID s)"
  have m: "mwf (sessions s)" using assms(1) by (simp add: sessions_wf_def)
  have wf: "sessions_wf (s\<lparr>nextID := Suc (nextID s), sessions := mput (sessions s) ?p sess\<rparr>)"
    by (rule sessions_wf_extend [OF assms(1), of "mput (sessions s) ?p sess"]) (use m in \<open>auto split: if_splits\<close>)
  have wf': "sessions_wf (s\<lparr>nextID := Suc (nextID s), sessions := mdel (mput (sessions s) ?p sess) ?p\<rparr>)"
    by (rule sessions_wf_extend [OF assms(1), of "mdel (mput (sessions s) ?p sess) ?p"]) (use m in \<open>auto split: if_splits\<close>)
  have undone: "(mget (sessions s))(?p := None) = mget (sessions s)"
    using sessions_fresh [OF assms(1)] by (auto simp: fun_eq_iff)
  show "sessions_wf s'" "bst s' = bst s" "reads s' = reads s"
    using assms(2) wf wf'
    by (auto simp: registerSession_def newSessionPath_def Let_def split: option.splits if_splits)
  show "mget (sessions s) path = None \<and> mget (sessions s') = (mget (sessions s))(path \<mapsto> sess) \<and> v = out"
    if "res = Inr (v, path)"
    using assms(2) that sessions_fresh [OF assms(1)]
    by (auto simp: registerSession_def newSessionPath_def Let_def fun_eq_iff split: option.splits if_splits)
  show "mget (sessions s') = mget (sessions s)" if "res = Inl Failed"
    using assms(2) that undone
    by (auto simp: registerSession_def newSessionPath_def Let_def Failed_def fun_eq_iff split: option.splits if_splits)
qed

lemma registerSession_errors: "registerSession env sess out s = (Inl e, s') \<Longrightarrow> e = Failed \<or> e = DBusPanic"
  by (auto simp: registerSession_def Let_def split: option.splits if_splits prod.splits)

text \<open>What a successful opening of an encrypted session did.\<close>

lemma OpenSession_DH:
  assumes "OpenSession env AlgorithmDH (VBytes cp) s = (Inr (out, path), s')" "sessions_wf s"
  obtains kp shared key pub where "GenerateDHKeypair (dhRand env (reads s)) = Inr kp"
    "ComputeSharedSecret cp (Private kp) = Inr shared" "DeriveAESKey (hkdf env) shared = Inr key"
    "BigIntToBytes (Public kp) = Inr pub" "out = VBytes pub"
    "getSession s' path = Some \<lparr>ss_algorithm = AlgorithmDH, ss_aesKey = Some key\<rparr>"
proof -
  have ne: "AlgorithmDH \<noteq> AlgorithmPlain" by (simp add: AlgorithmDH_def AlgorithmPlain_def)
  have "sessions_wf (s\<lparr>reads := Suc (reads s)\<rparr>)" using assms(2) by (simp add: sessions_wf_def)
  note reg = registerSession_spec(4) [OF this]
  show ?thesis
    using assms(1) ne that
    by (auto simp: OpenSession_def Let_def getSession_def dest!: reg split: if_splits sum.splits prod.splits)
qed

text \<open>The effect of an attempt to open a session.\<close>

definition opened :: "'b ServiceObject \<Rightarrow> dbus_error + variant \<times> string \<Rightarrow> 'b ServiceObject \<Rightarrow> bool" where
  "opened s res s' \<longleftrightarrow> sessions_wf s' \<and> bst s' = bst s
     \<and> (\<forall>out path. res = Inr (out, path) \<longrightarrow> mget (sessions s) path = None
          \<and> (\<exists>sess. mget (sessions s') = (mget (sessions s))(path \<mapsto> sess)))
     \<and> (\<forall>e. res = Inl e \<and> e \<noteq> DBusPanic \<longrightarrow> mget (sessions s') = mget (sessions s))"

lemma registerSession_opened:
  assumes "sessions_wf s" "registerSession env sess out s = (res, s')"
  shows "opened s res s'"
  unfolding opened_def using registerSession_spec [OF assms] registerSession_errors [of env sess out s] assms(2) by blast

lemma opened_reads: "opened (s\<lparr>reads := n\<rparr>) res s' = opened s res s'"
  by (simp add: opened_def)

lemma opened_out:
  "opened s (Inr (v, path)) s' \<Longrightarrow> opened s (Inr (w, path)) s'" "opened s (Inr (v, path)) s' \<Longrightarrow> opened s (Inl DBusPanic) s'"
  by (auto simp: opened_def)

lemma OpenSession_opened:
  assumes "sessions_wf s" "OpenSession env alg input s = (res, s')"
  shows "opened s res s'"
proof -
  have refuse: "opened s (Inl e) s" "opened s (Inl e) (s\<lparr>reads := n\<rparr>)" for e n
    using assms(1) by (auto simp: opened_def sessions_wf_def)
  have wf: "sessions_wf (s\<lparr>reads := n\<rparr>)" for n using assms(1) by (simp add: sessions_wf_def)
  have reg: "opened s r t" if "registerSession env sess out (s\<lparr>reads := n\<rparr>) = (r, t)" for sess out n r t
    using registerSession_opened [OF wf that] by (simp add: opened_reads)
  show ?thesis
    using assms(2) registerSession_opened [OF assms(1)] refuse
    by (auto simp: OpenSession_def Let_def dest!: reg intro: opened_out
        split: if_splits variant.splits sum.splits prod.splits)
qed

subsection \<open>Secrets over an encrypted session\<close>

text \<open>What the handlers rely on of the cryptography outside the repository: the block cipher is
  inverted on keys of 16 bytes, key derivation gives the bytes it is asked for, and the random
  sources deliver what they are asked for.\<close>

definition crypto_ok :: "'b service_env \<Rightarrow> bool" where
  "crypto_ok env \<longleftrightarrow>
     (\<forall>key. length key = 16 \<longrightarrow> block_inverse (aesE env key) (aesD env key))
     \<and> (\<forall>x n key. hkdf env x n = Some key \<longrightarrow> length key = n)
     \<and> (\<forall>k n. \<exists>iv. ivRand env k n = Some iv \<and> length iv = n)
     \<and> (\<forall>k m r. dhRand env k m = Some r \<longrightarrow> 0 \<le> r \<and> r < m)"

lemma encrypt_session:
  assumes "crypto_ok env" "length key = 16"
  shows "\<exists>iv ct s'. encryptSecret env \<lparr>ss_algorithm = AlgorithmDH, ss_aesKey = Some key\<rparr> pt s = (Inr (iv, ct), s')
    \<and> length iv = 16 \<and> AESCBCDecrypt (aesD env) key iv ct = Inr pt \<and> sessions s' = sessions s \<and> bst s' = bst s"
proof -
  obtain iv where iv: "ivRand env (reads s) BlockSize = Some iv" "length iv = BlockSize"
    using assms(1) unfolding crypto_ok_def by blast
  have inv: "block_inverse (aesE env key) (aesD env key)" using assms by (simp add: crypto_ok_def)
  have "length key \<in> {16, 24, 32}" using assms(2) by simp
  then have "\<exists>ct. AESCBCEncrypt (aesE env) (ivRand env (reads s)) key pt = Inr (iv, ct)
    \<and> AESCBCDecrypt (aesD env) key iv ct = Inr pt"
    using inv iv by (intro cbc_encrypt_decrypt)
  then show ?thesis using iv(2) by (auto simp: encryptSecret_def BlockSize_def)
qed

lemma DeriveAESKey_length: "crypto_ok env \<Longrightarrow> DeriveAESKey (hkdf env) x = Inr key \<Longrightarrow> length key = 16"
  by (auto simp: DeriveAESKey_def crypto_ok_def split: option.splits)

subsection \<open>Handlers over a storage backend\<close>

lemma exportOne_sel [simp]:
  "sessions (snd (exportOne env path iface obj s)) = sessions s"
  "bst (snd (exportOne env path iface obj s)) = bst s"
  by (auto simp: exportOne_def split: option.split)

lemma ExportItem_sel: "ExportItem env it s = (res, s') \<Longrightarrow> sessions s' = sessions s \<and> bst s' = bst s"
proof -
  have one: "exportOne env path iface obj s1 = (r, s2) \<Longrightarrow> sessions s2 = sessions s1 \<and> bst s2 = bst s1"
    for path iface obj s1 r s2
    using exportOne_sel [of env path iface obj s1] by simp
  show "ExportItem env it s = (res, s') \<Longrightarrow> ?thesis"
    by (auto simp: ExportItem_def Let_def dest!: one split: if_splits prod.splits bool.splits)
qed

text \<open>The client's view of a secret sent over a session: what it decrypts to.\<close>

definition readable :: "'b service_env \<Rightarrow> SessionState \<Rightarrow> DBusSecret \<Rightarrow> bytes \<Rightarrow> bool" where
  "readable env sess sec pt \<longleftrightarrow> decryptSecret env sess (ds_parameters sec) (ds_value sec) = Inr pt"

definition session_ok :: "SessionState \<Rightarrow> bool" where
  "session_ok sess \<longleftrightarrow> (\<forall>key. ss_aesKey sess = Some key \<longrightarrow> length key = 16)"

lemma encrypt_readable:
  assumes "crypto_ok env" "session_ok sess"
  shows "\<exists>pv s'. encryptSecret env sess pt s = (Inr pv, s') \<and> readable env sess (mkSecret session pv) pt
    \<and> sessions s' = sessions s \<and> bst s' = bst s"
proof (cases "ss_aesKey sess")
  case None
  then show ?thesis by (simp add: encryptSecret_def readable_def decryptSecret_def mkSecret_def)
next
  case (Some key)
  show ?thesis
  proof (cases "ss_algorithm sess = AlgorithmDH")
    case True
    have "length key = 16" using assms(2) Some by (simp add: session_ok_def)
    moreover have "sess = \<lparr>ss_algorithm = AlgorithmDH, ss_aesKey = Some key\<rparr>" using Some True by (cases sess) simp
    ultimately obtain iv ct s' where "encryptSecret env sess pt s = (Inr (iv, ct), s')" "length iv = 16"
      "AESCBCDecrypt (aesD env) key iv ct = Inr pt" "sessions s' = sessions s" "bst s' = bst s"
      using encrypt_session [OF assms(1), of key pt s] by metis
    then show ?thesis
      using True Some by (intro exI [of _ "(iv, ct)"] exI [of _ s']) (simp add: readable_def decryptSecret_def mkSecret_def)
  qed (use Some in \<open>simp add: encryptSecret_def readable_def decryptSecret_def mkSecret_def\<close>)
qed

context storage_backend
begin

lemma getSecretsLoop_spec:
  assumes "backend env = S" "crypto_ok env" "session_ok sess" "ok (bst s)"
    and "getSecretsLoop env sess session paths acc s = (m, s')"
  shows "ok (bst s') \<and> contents (bst s') = contents (bst s) \<and> sessions s' = sessions s
    \<and> (\<forall>i it. ItemPathPrefix @ i \<in> set paths \<and> contents (bst s) i = Some it \<longrightarrow>
         (\<exists>sec. mget m (ItemPathPrefix @ i) = Some sec \<and> readable env sess sec (secretBytes it) \<and> ds_session sec = session))
    \<and> (\<forall>path. \<not> (path \<in> set paths \<and> (\<exists>i it. path = ItemPathPrefix @ i \<and> contents (bst s) i = Some it)) \<longrightarrow>
         mget m path = mget acc path)"
  using assms(4,5)
proof (induction paths arbitrary: acc s)
  case (Cons p paths)
  show ?case
  proof (cases "cutPrefix p ItemPathPrefix")
    case None
    then have "\<nexists>i. p = ItemPathPrefix @ i" by (metis cutPrefix_append option.distinct(1))
    then show ?thesis using Cons.IH [of s acc] Cons.prems None by auto
  next
    case (Some i)
    then have p: "p = ItemPathPrefix @ i" by (simp add: cutPrefix_Some)
    obtain res b' where g: "bGet S i (bst s) = (res, b')" by fastforce
    note law = get_law [OF Cons.prems(1) g]
    show ?thesis
    proof (cases "contents (bst s) i")
      case None
      then show ?thesis
        using Cons.IH [of "s\<lparr>bst := b'\<rparr>" acc] Cons.prems law g Some assms(1) p by auto
    next
      case it: (Some it)
      obtain pv s1 where enc: "encryptSecret env sess (secretBytes it) (s\<lparr>bst := b'\<rparr>) = (Inr pv, s1)"
        "readable env sess (mkSecret session pv) (secretBytes it)" "sessions s1 = sessions s" "bst s1 = b'"
        using encrypt_readable [OF assms(2,3), of "secretBytes it" "s\<lparr>bst := b'\<rparr>" session] by auto
      have run: "getSecretsLoop env sess session paths (mput acc p (mkSecret session pv)) s1 = (m, s')"
        using Cons.prems(2) Some g law it enc(1) assms(1) by simp
      have "ok (bst s1)" "contents (bst s1) = contents (bst s)" using law enc(4) by auto
      note IH = Cons.IH [OF this(1) run, unfolded this(2)]
      have "ds_session (mkSecret session pv) = session" by (simp add: mkSecret_def)
      then have "\<exists>sec. mget m p = Some sec \<and> readable env sess sec (secretBytes it) \<and> ds_session sec = session"
        using IH it enc(2) p by (cases "p \<in> set paths") auto
      then show ?thesis using IH enc(3,4) it p by auto
    qed
  qed
qed simp

lemma createItem_spec:
  assumes "backend env = S" "ok (bst s)" "CreateItem env props secret replace s = (Inr (path, prompt), s')"
    and "getSession s (ds_session secret) = Some sess"
    and "\<And>i. i = '''' \<or> contents (bst s) i \<noteq> None \<Longrightarrow>
      (\<forall>l pt. readable env sess secret pt \<longrightarrow> adm \<lparr>ID = i, Label = l, Attributes = propAttributes props, Secret = Some pt\<rparr>)"
  shows "\<exists>it pt. path = ItemPathPrefix @ ID it \<and> ID it \<noteq> '''' \<and> readable env sess secret pt
    \<and> propLabel props = Some (Label it) \<and> Attributes it = propAttributes props \<and> Secret it = Some pt
    \<and> ok (bst s') \<and> contents (bst s') = (contents (bst s))(ID it \<mapsto> it) \<and> sessions s' = sessions s
    \<and> (\<forall>x xs b. replace \<and> bSearch S (propAttributes props) (bst s) = (Inr (x # xs), b) \<and> ID x \<noteq> '''' \<longrightarrow>
          ID it = ID x \<and> contents (bst s) (ID x) \<noteq> None)"
proof -
  obtain label where l: "propLabel props = Some label"
    using assms(3) by (auto simp: CreateItem_def split: option.splits)
  obtain pt where pt: "decryptSecret env sess (ds_parameters secret) (ds_value secret) = Inr pt"
    using assms(3,4) l by (auto simp: CreateItem_def Let_def split: option.splits sum.splits)
  obtain i b1 where t: "replaceTarget env replace (propAttributes props) (bst s) = (i, b1)" by fastforce
  let ?it = "\<lparr>ID = i, Label = label, Attributes = propAttributes props, Secret = Some pt\<rparr>"
  obtain err it' b2 where sv: "bSave S ?it b1 = ((err, it'), b2)" by (metis surj_pair)
  have err: "err = None" and ex: "ExportItem env it' (s\<lparr>bst := b2\<rparr>) = (True, s')" "path = ItemPathPrefix @ ID it'"
    using assms(1,3,4) l pt t sv by (auto simp: CreateItem_def Let_def split: option.splits prod.splits bool.splits)
  obtain found b where sr: "bSearch S (propAttributes props) (bst s) = (found, b)" by fastforce
  note law = search_law [OF assms(2) sr]
  have found: "contents (bst s) (ID x) \<noteq> None" if f: "found = Inr (x # xs)" for x xs
  proof -
    have "withoutSecret x \<in> withoutSecret ` set (x # xs)" by simp
    then obtain it where "contents (bst s) (ID it) = Some it" "withoutSecret x = withoutSecret it"
      using law f by metis
    then show ?thesis by (metis option.distinct(1) withoutSecret_sel(1))
  qed
  have b1: "ok b1" "contents b1 = contents (bst s)"
    using t assms(1,2) sr law by (auto simp: replaceTarget_def split: if_splits sum.splits list.splits)
  have i: "i = '''' \<or> contents (bst s) i \<noteq> None"
    using t assms(1) sr found by (auto simp: replaceTarget_def split: if_splits sum.splits list.splits)
  have "adm ?it" using assms(5) [OF i] pt by (simp add: readable_def)
  note save = save_law [OF b1(1) this sv [unfolded err]]
  have same: "ID it' = ID x \<and> contents (bst s) (ID x) \<noteq> None"
    if "replace" "bSearch S (propAttributes props) (bst s) = (Inr (x # xs), b0)" "ID x \<noteq> ''''" for x xs b0
  proof -
    have "i = ID x" using t assms(1) that by (simp add: replaceTarget_def)
    then show ?thesis using save found [of x xs] sr that by simp
  qed
  have "sessions s' = sessions s \<and> bst s' = b2" using ExportItem_sel [OF ex(1)] by simp
  then show ?thesis
    using save ex(2) pt l b1 same
    by (intro exI [of _ it'] exI [of _ pt]) (cases it', auto simp: readable_def)
qed

end

lemma storage_backend_cached_mem:
  assumes "raw cenv = inMemoryRaw ord0" "order_ok ord0" "order_ok ord" "memguard_ok cenv"
    and "CacheMetadata (opts cenv)" "CacheSecrets (opts cenv)"
  shows "storage_backend (cachedStorage cenv ord clock) (cached_contents mem_contents)
    (cached_ok mem_contents mem_ok) storable"
  by (rule raw_storage_total.storage_backend_cached [OF raw_storage_total_mem [OF assms(2)] assms(1,4,3,5,6)])

subsection \<open>Properties\<close>

text \<open>
  C34. Secrets travel end to end over an encrypted session: when a client with a key pair of its own
  opens a session with its public key, the public key in the answer lets it compute the very
  key the service holds for the session; what \<open>GetSecret\<close> then sends decrypts under that
  key to the stored secret, and what the client encrypts under it (with any 16-byte IV) is what the
  service reads. The block cipher, key derivation and random sources behave as documented.
\<close>

theorem encrypted_session_end_to_end:
  assumes "crypto_ok env" "sessions_wf s"
    and "\<And>m r. rc m = Some r \<Longrightarrow> 0 \<le> r \<and> r < m" "GenerateDHKeypair rc = Inr client" "BigIntToBytes (Public client) = Inr cp"
    and "OpenSession env AlgorithmDH (VBytes cp) s = (Inr (out, path), s1)"
    and "getSession s2 path = getSession s1 path"
    and "bGet (backend env) (io_id item) (bst s2) = (Inr it, b')"
  shows "\<exists>sp shared key. out = VBytes sp \<and> ComputeSharedSecret sp (Private client) = Inr shared
    \<and> DeriveAESKey (hkdf env) shared = Inr key
    \<and> (\<exists>sec s3. GetSecret env item path s2 = (Inr sec, s3)
        \<and> AESCBCDecrypt (aesD env) key (ds_parameters sec) (ds_value sec) = Inr (secretBytes it))
    \<and> (\<forall>rnd iv pt. rnd BlockSize = Some iv \<and> length iv = BlockSize \<longrightarrow>
        (\<exists>ct. AESCBCEncrypt (aesE env) rnd key pt = Inr (iv, ct)
          \<and> (\<exists>sess. getSession s2 path = Some sess \<and> decryptSecret env sess iv ct = Inr pt)))"
proof -
  obtain kp shared key pub where o: "GenerateDHKeypair (dhRand env (reads s)) = Inr kp"
    "ComputeSharedSecret cp (Private kp) = Inr shared" "DeriveAESKey (hkdf env) shared = Inr key"
    "BigIntToBytes (Public kp) = Inr pub" "out = VBytes pub"
    "getSession s1 path = Some \<lparr>ss_algorithm = AlgorithmDH, ss_aesKey = Some key\<rparr>"
    using OpenSession_DH [OF assms(6,2)] by metis
  have range: "dhRand env (reads s) m = Some r \<Longrightarrow> 0 \<le> r \<and> r < m" for m r
    using assms(1) by (auto simp: crypto_ok_def)
  have client: "ComputeSharedSecret pub (Private client) = Inr shared"
    using shared_secrets_agree [OF assms(3) range assms(4) o(1)] o(2,4) assms(5) by auto
  have len: "length key = 16" using DeriveAESKey_length [OF assms(1) o(3)] .
  let ?sess = "\<lparr>ss_algorithm = AlgorithmDH, ss_aesKey = Some key\<rparr>"
  obtain iv ct s3 where e: "encryptSecret env ?sess (secretBytes it) (s2\<lparr>bst := b'\<rparr>) = (Inr (iv, ct), s3)"
    "AESCBCDecrypt (aesD env) key iv ct = Inr (secretBytes it)"
    using encrypt_session [OF assms(1) len] by metis
  have get: "GetSecret env item path s2 = (Inr (mkSecret path (iv, ct)), s3)"
    using assms(7,8) o(6) e(1) by (simp add: GetSecret_def)
  have set: "\<exists>ct. AESCBCEncrypt (aesE env) rnd key pt = Inr (iv, ct) \<and> decryptSecret env ?sess iv ct = Inr pt"
    if "rnd BlockSize = Some iv" "length iv = BlockSize" for rnd iv pt
  proof -
    have "block_inverse (aesE env key) (aesD env key)" "length key \<in> {16, 24, 32}"
      using assms(1) len by (simp_all add: crypto_ok_def)
    then have "\<exists>ct. AESCBCEncrypt (aesE env) rnd key pt = Inr (iv, ct) \<and> AESCBCDecrypt (aesD env) key iv ct = Inr pt"
      using that by (intro cbc_encrypt_decrypt)
    then show ?thesis using that(2) by (auto simp: decryptSecret_def BlockSize_def)
  qed
  show ?thesis
    using client o(3,5,6) get e(2) set assms(7)
    by (intro exI [of _ pub] exI [of _ shared] exI [of _ key]) (auto simp: mkSecret_def)
qed

text \<open>
  Sessions are isolated: opening one gives a path that no open session has, adds that session
  and touches no other, and leaves the backend alone; when opening fails without a panic the table of
  sessions is unchanged; closing removes exactly that session; and the numbering of paths is kept, so
  this holds for every sequence of openings and closings.
\<close>

theorem session_isolation:
  assumes "sessions_wf s"
  shows "(\<forall>alg input res s'. OpenSession env alg input s = (res, s') \<longrightarrow>
      sessions_wf s' \<and> bst s' = bst s
      \<and> (\<forall>out path. res = Inr (out, path) \<longrightarrow> getSession s path = None
          \<and> (\<exists>sess. \<forall>p. getSession s' p = (if p = path then Some sess else getSession s p)))
      \<and> (\<forall>e. res = Inl e \<and> e \<noteq> DBusPanic \<longrightarrow> getSession s' = getSession s))
    \<and> (\<forall>path. sessions_wf (CloseSession path s)
        \<and> (\<forall>p. getSession (CloseSession path s) p = (if p = path then None else getSession s p)))"
proof (intro conjI allI impI)
  fix alg input res s'
  assume open_s: "OpenSession env alg input s = (res, s')"
  then have main: "sessions_wf s' \<and> bst s' = bst s
      \<and> (\<forall>out path. res = Inr (out, path) \<longrightarrow> mget (sessions s) path = None
          \<and> (\<exists>sess. mget (sessions s') = (mget (sessions s))(path \<mapsto> sess)))
      \<and> (\<forall>e. res = Inl e \<and> e \<noteq> DBusPanic \<longrightarrow> mget (sessions s') = mget (sessions s))"
    using OpenSession_opened [OF assms] unfolding opened_def by blast
  show "sessions_wf s'" "bst s' = bst s" using main by auto
  show "getSession s path = None" if "res = Inr (out, path)" for out path
    using main that by (simp add: getSession_def)
  show "\<exists>sess. \<forall>p. getSession s' p = (if p = path then Some sess else getSession s p)"
    if "res = Inr (out, path)" for out path
    using main that by (auto simp: getSession_def)
  show "getSession s' = getSession s" if "res = Inl e \<and> e \<noteq> DBusPanic" for e
    using main that by (auto simp: getSession_def fun_eq_iff)
next
  fix path p
  show "sessions_wf (CloseSession path s)"
    using assms by (auto simp: CloseSession_def sessions_wf_def split: if_splits)
  show "getSession (CloseSession path s) p = (if p = path then None else getSession s p)"
    by (simp add: CloseSession_def getSession_def)
qed

text \<open>A service to apply the properties to: the caching layer over an in-memory backend, a block
  cipher that adds the key, and constant random sources.\<close>

definition demo_env :: "InMemoryBackend cached_store service_env" where
  "demo_env =
     \<lparr>backend = cachedStorage witness_env (\<lambda>xs. xs) int, conn = Some (\<lambda>path iface. True),
      aesE = (\<lambda>k b. xorBytes b k), aesD = (\<lambda>k b. xorBytes b k), hkdf = (\<lambda>x n. Some (replicate n 5)),
      ivRand = (\<lambda>k n. Some (replicate n 7)), dhRand = (\<lambda>k m. if 0 < m then Some 0 else None)\<rparr>"

definition demo_service :: "InMemoryBackend cached_store ServiceObject" where
  "demo_service = (NewServiceObject
     \<lparr>cs_cache = (snd (NewCachedBackend (raw witness_env) (opts witness_env) (newBuffer witness_env)
        (destroyBuffer witness_env)))\<lparr>metaLoaded := True\<rparr>,
      cs_raw = NewInMemoryBackend [Some [1, 2, 3, 4, 5, 6, 7, 8]], cs_tick = 0\<rparr>)
     \<lparr>sessions := [(SessionPath @ ''0'', \<lparr>ss_algorithm = AlgorithmPlain, ss_aesKey = None\<rparr>)], nextID := 1\<rparr>"

lemma demo_crypto: "crypto_ok demo_env"
  by (auto simp: crypto_ok_def demo_env_def block_inverse_xor BlockSize_def split: if_splits)

lemma demo_sessions: "sessions_wf demo_service"
proof -
  have "decimal 0 = ''0''" by code_simp
  then show ?thesis by (auto simp: sessions_wf_def demo_service_def NewServiceObject_def)
qed

theorem session_isolation_witness:
  "let (res, s') = OpenSession demo_env AlgorithmPlain VEmpty demo_service
   in getSession s' (SessionPath @ ''0'') = getSession demo_service (SessionPath @ ''0'') \<and> sessions_wf s'"
proof -
  obtain res s' where o: "OpenSession demo_env AlgorithmPlain VEmpty demo_service = (res, s')" by fastforce
  note iso = session_isolation [OF demo_sessions, THEN conjunct1, rule_format, OF o]
  have ok: "\<exists>out path. res = Inr (out, path)"
    using o by (auto simp: OpenSession_def registerSession_def newSessionPath_def Let_def demo_env_def)
  then obtain out path where r: "res = Inr (out, path)" by blast
  have "getSession demo_service path = None" using iso r by blast
  moreover have "getSession demo_service (SessionPath @ ''0'') \<noteq> None"
    by (simp add: getSession_def demo_service_def NewServiceObject_def)
  ultimately have "path \<noteq> SessionPath @ ''0''" by metis
  then have "getSession s' (SessionPath @ ''0'') = getSession demo_service (SessionPath @ ''0'')"
    using iso r by metis
  then show ?thesis using iso by (simp add: o)
qed

definition demo_held :: "InMemoryBackend cached_store ServiceObject" where
  "demo_held = demo_service\<lparr>bst := (bst demo_service)\<lparr>cs_raw := \<lparr>items = [(''i'', witness_item)], entropy = []\<rparr>\<rparr>\<rparr>"

lemma demo_open:
  "\<exists>out path s1. OpenSession demo_env AlgorithmDH (VBytes (beBytes 128 8)) demo_held = (Inr (out, path), s1)"
proof -
  have a: "0 \<le> r \<and> r < m" if "(if 0 < m then Some (0::int) else None) = Some r" for m r
    using that by (simp split: if_splits)
  have b: "0 \<le> r \<and> r < m" if "(if 1 < m then Some (1::int) else None) = Some r" for m r
    using that by (simp split: if_splits)
  have 8: "BigIntToBytes 8 = Inr (beBytes 128 8)" by (simp add: BigIntToBytes_def)
  obtain pa shared where ag: "BigIntToBytes 4 = Inr pa" "length (beBytes 128 8) = 128"
    "ComputeSharedSecret (beBytes 128 8) 2 = Inr shared"
    using shared_secrets_agree [OF a b GenerateDHKeypair_0 GenerateDHKeypair_1] 8 by auto
  have ne: "beBytes 128 8 \<noteq> []" using ag(2) by (metis list.size(3) zero_neq_numeral)
  have alg: "AlgorithmDH \<noteq> AlgorithmPlain" by (simp add: AlgorithmDH_def AlgorithmPlain_def)
  have kp: "GenerateDHKeypair (dhRand demo_env n) = Inr \<lparr>Private = 2, Public = 4\<rparr>" for n
    using GenerateDHKeypair_0 by (simp add: demo_env_def)
  have key: "DeriveAESKey (hkdf demo_env) shared = Inr (replicate 16 5)"
    by (simp add: DeriveAESKey_def demo_env_def)
  have con: "conn demo_env = Some (\<lambda>path iface. True)" by (simp add: demo_env_def)
  show ?thesis
    using alg ne ag(1,3) kp key con
    by (simp add: OpenSession_def Let_def registerSession_def newSessionPath_def)
qed

theorem encrypted_session_end_to_end_witness:
  "\<exists>out path s1 sp shared key sec s3.
     OpenSession demo_env AlgorithmDH (VBytes (beBytes 128 8)) demo_held = (Inr (out, path), s1)
     \<and> out = VBytes sp \<and> ComputeSharedSecret sp 3 = Inr shared \<and> DeriveAESKey (hkdf demo_env) shared = Inr key
     \<and> GetSecret demo_env \<lparr>io_id = ''i'', io_label = '''', io_attributes = []\<rparr> path s1 = (Inr sec, s3)
     \<and> AESCBCDecrypt (aesD demo_env) key (ds_parameters sec) (ds_value sec) = Inr [7]"
proof -
  obtain out path s1 where o: "OpenSession demo_env AlgorithmDH (VBytes (beBytes 128 8)) demo_held = (Inr (out, path), s1)"
    using demo_open by blast
  have wf: "sessions_wf demo_held" using demo_sessions by (simp add: sessions_wf_def demo_held_def)
  have b: "0 \<le> r \<and> r < m" if "(if 1 < m then Some (1::int) else None) = Some r" for m r
    using that by (simp split: if_splits)
  have cp: "BigIntToBytes (Public \<lparr>Private = 3, Public = 8\<rparr>) = Inr (beBytes 128 8)" by (simp add: BigIntToBytes_def)
  have "bst s1 = bst demo_held" using OpenSession_opened [OF wf o] by (simp add: opened_def)
  moreover have "fst (bGet (backend demo_env) ''i'' (bst demo_held)) = Inr witness_item"
    by (simp add: demo_env_def demo_held_def demo_service_def NewServiceObject_def cachedStorage_def lift_cached_def
        cb_Get_def Let_def resolveID_def NewCachedBackend_def getCachedSecret_absent witness_env_def inMemoryRaw_def
        mem_Get_def copySecretItem_def copyAttributes_def copyBytes_def witness_item_def)
  ultimately obtain b' where get: "bGet (backend demo_env) (io_id \<lparr>io_id = ''i'', io_label = '''', io_attributes = []\<rparr>) (bst s1)
      = (Inr witness_item, b')"
    by (metis ItemObject.select_convs(1) prod.collapse)
  have pt: "secretBytes witness_item = [7]" by (simp add: secretBytes_def witness_item_def)
  show ?thesis
    using encrypted_session_end_to_end [OF demo_crypto wf b GenerateDHKeypair_1 cp o refl get] o pt by auto
qed

text \<open>
  \<open>GetSecrets\<close> through the caching layer answers exactly the requested items that exist:
  for every requested path of a held item the answer has an entry the client can read to the stored
  secret, no other path is in the answer, and nothing that is stored changes.
\<close>

theorem get_secrets_exact:
  assumes "backend env = cachedStorage cenv ord clock" "raw cenv = inMemoryRaw ord0" "order_ok ord0" "order_ok ord"
    and "memguard_ok cenv" "CacheMetadata (opts cenv)" "CacheSecrets (opts cenv)"
    and "crypto_ok env" "session_ok sess" "getSession s session = Some sess" "cached_ok mem_contents mem_ok (bst s)"
  shows "\<exists>m s'. GetSecrets env paths session s = (Inr m, s')
    \<and> cached_contents mem_contents (bst s') = cached_contents mem_contents (bst s)
    \<and> (\<forall>i it. ItemPathPrefix @ i \<in> set paths \<and> cached_contents mem_contents (bst s) i = Some it \<longrightarrow>
        (\<exists>sec. mget m (ItemPathPrefix @ i) = Some sec \<and> readable env sess sec (secretBytes it)))
    \<and> (\<forall>path. mget m path \<noteq> None \<longrightarrow> path \<in> set paths
        \<and> (\<exists>i it. path = ItemPathPrefix @ i \<and> cached_contents mem_contents (bst s) i = Some it))"
proof -
  obtain m s' where run: "getSecretsLoop env sess session paths [] s = (m, s')" by fastforce
  note spec = storage_backend.getSecretsLoop_spec [OF storage_backend_cached_mem [OF assms(2-7)] assms(1,8,9,11) run]
  have "GetSecrets env paths session s = (Inr m, s')" using assms(10) run by (simp add: GetSecrets_def)
  moreover have "path \<in> set paths \<and> (\<exists>i it. path = ItemPathPrefix @ i \<and> cached_contents mem_contents (bst s) i = Some it)"
    if "mget m path \<noteq> None" for path
    using spec that by (metis map_of.simps(1))
  ultimately show ?thesis using spec by blast
qed

text \<open>
  An item created over one session can be read over any other: when \<open>CreateItem\<close> has
  accepted a non-empty secret the client sent, \<open>GetSecrets\<close> of the returned path answers with that
  secret, readable in the asking session; every other stored item is as before; and with
  \<open>replace\<close> the item written is the first the search finds, if any.
\<close>

theorem create_then_get:
  assumes "backend env = cachedStorage cenv ord clock" "raw cenv = inMemoryRaw ord0" "order_ok ord0" "order_ok ord"
    and "memguard_ok cenv" "CacheMetadata (opts cenv)" "CacheSecrets (opts cenv)"
    and "crypto_ok env" "cached_ok mem_contents mem_ok (bst s)"
    and "\<forall>i. cached_contents mem_contents (bst s) i \<noteq> None \<longrightarrow> \<not> isPendingID i"
    and "getSession s (ds_session secret) = Some sess" "readable env sess secret pt" "pt \<noteq> []"
    and "CreateItem env props secret replace s = (Inr (path, prompt), s1)"
    and "getSession s session = Some sess2" "session_ok sess2"
  shows "\<exists>m s2 sec. GetSecrets env [path] session s1 = (Inr m, s2) \<and> mget m path = Some sec
    \<and> readable env sess2 sec pt
    \<and> (\<forall>j. path \<noteq> ItemPathPrefix @ j \<longrightarrow> cached_contents mem_contents (bst s1) j = cached_contents mem_contents (bst s) j)
    \<and> (\<forall>x xs b. replace \<and> bSearch (backend env) (propAttributes props) (bst s) = (Inr (x # xs), b) \<and> ID x \<noteq> '''' \<longrightarrow>
        path = ItemPathPrefix @ ID x)"
proof -
  note store = storage_backend_cached_mem [OF assms(2-7), of clock]
  have uniq: "readable env sess secret q \<Longrightarrow> q = pt" for q using assms(12) by (simp add: readable_def)
  have adm: "\<forall>l q. readable env sess secret q \<longrightarrow>
      storable \<lparr>ID = i, Label = l, Attributes = propAttributes props, Secret = Some q\<rparr>"
    if "i = '''' \<or> cached_contents mem_contents (bst s) i \<noteq> None" for i
    using that uniq assms(10,13) isPendingID_nonempty by (auto simp: storable_def has_secret_def)
  obtain it q where it: "path = ItemPathPrefix @ ID it" "readable env sess secret q" "Secret it = Some q"
    "cached_ok mem_contents mem_ok (bst s1)" "sessions s1 = sessions s"
    "cached_contents mem_contents (bst s1) = (cached_contents mem_contents (bst s))(ID it \<mapsto> it)"
    "\<forall>x xs b. replace \<and> bSearch (backend env) (propAttributes props) (bst s) = (Inr (x # xs), b) \<and> ID x \<noteq> '''' \<longrightarrow>
          ID it = ID x \<and> cached_contents mem_contents (bst s) (ID x) \<noteq> None"
    using storage_backend.createItem_spec [OF store assms(1,9,14,11) adm] assms(1) by auto
  obtain m s2 where run: "getSecretsLoop env sess2 session [path] [] s1 = (m, s2)" by fastforce
  note spec = storage_backend.getSecretsLoop_spec [OF store assms(1,8,16) it(4) run]
  have "getSession s1 session = Some sess2" using assms(15) it(5) by (simp add: getSession_def)
  then have "GetSecrets env [path] session s1 = (Inr m, s2)" using run by (simp add: GetSecrets_def)
  moreover have "secretBytes it = pt" using it(2,3) uniq by (simp add: secretBytes_def)
  ultimately show ?thesis using spec it(1,6,7) by auto
qed

lemma demo_coherent:
  assumes "cs_cache st = cs_cache (bst demo_service)" "cs_raw st = NewInMemoryBackend es" "mem_ok (NewInMemoryBackend es)"
  shows "cached_ok mem_contents mem_ok st"
proof -
  have "cache_inv (cs_cache (bst demo_service))"
    using cache_inv_new [of "raw witness_env" "opts witness_env" "newBuffer witness_env" "destroyBuffer witness_env"]
    by (simp add: demo_service_def NewServiceObject_def cache_inv_def)
  then show ?thesis
    using assms by (simp add: cached_ok_def coherent_def mem_contents_def NewInMemoryBackend_def demo_service_def
        NewServiceObject_def NewCachedBackend_def Let_def)
qed

lemma demo_store: "cached_ok mem_contents mem_ok (bst demo_service)"
  by (rule demo_coherent [OF refl, of "[Some [1, 2, 3, 4, 5, 6, 7, 8]]"])
    (auto simp: demo_service_def NewServiceObject_def mem_ok_def NewInMemoryBackend_def)

lemma demo_cenv: "raw witness_env = inMemoryRaw (\<lambda>xs. xs)" "CacheMetadata (opts witness_env)" "CacheSecrets (opts witness_env)"
  "backend demo_env = cachedStorage witness_env (\<lambda>xs. xs) int"
  by (simp_all add: witness_env_def demo_env_def)

lemma demo_session:
  "getSession demo_service (SessionPath @ ''0'') = Some \<lparr>ss_algorithm = AlgorithmPlain, ss_aesKey = None\<rparr>"
  "session_ok \<lparr>ss_algorithm = AlgorithmPlain, ss_aesKey = None\<rparr>"
  by (simp_all add: getSession_def demo_service_def NewServiceObject_def session_ok_def)

theorem get_secrets_exact_witness:
  "\<exists>m s'. GetSecrets demo_env [ItemPathPrefix @ ''nope'', ''/other''] (SessionPath @ ''0'') demo_service = (Inr m, s')
     \<and> mget m ''/other'' = None \<and> mget m (ItemPathPrefix @ ''nope'') = None"
proof -
  have empty: "cached_contents mem_contents (bst demo_service) i = None" for i
    by (simp add: cached_contents_def mem_contents_def demo_service_def NewServiceObject_def NewInMemoryBackend_def)
  show ?thesis
    using get_secrets_exact [OF demo_cenv(4,1) order_ok_id order_ok_id witness_env_ok demo_cenv(2,3) demo_crypto
        demo_session(2,1) demo_store, of "[ItemPathPrefix @ ''nope'', ''/other'']"] empty
    by (metis option.distinct(1))
qed

definition demo_secret :: DBusSecret where
  "demo_secret = \<lparr>ds_session = SessionPath @ ''0'', ds_parameters = [], ds_value = [42], ds_contentType = ''text/plain''\<rparr>"

lemma demo_create: "\<exists>path prompt s1. CreateItem demo_env [] demo_secret True demo_service = (Inr (path, prompt), s1)"
  by (simp add: CreateItem_def propLabel_def propAttributes_def Let_def demo_secret_def demo_session decryptSecret_def
      replaceTarget_def demo_env_def cachedStorage_def lift_cached_def cb_Search_def metadata_def witness_env_def
      demo_service_def NewServiceObject_def NewCachedBackend_def copySecretItemsWithoutSecrets_def cb_SaveSync_def
      inMemoryRaw_def mem_Save_def nextRand_def NewInMemoryBackend_def ExportItem_def exportOne_def getSession_def
      argOr_def)

theorem create_then_get_witness:
  "\<exists>path prompt s1 m s2 sec. CreateItem demo_env [] demo_secret True demo_service = (Inr (path, prompt), s1)
     \<and> GetSecrets demo_env [path] (SessionPath @ ''0'') s1 = (Inr m, s2) \<and> mget m path = Some sec \<and> ds_value sec = [42]"
proof -
  obtain path prompt s1 where c: "CreateItem demo_env [] demo_secret True demo_service = (Inr (path, prompt), s1)"
    using demo_create by blast
  have empty: "\<forall>i. cached_contents mem_contents (bst demo_service) i \<noteq> None \<longrightarrow> \<not> isPendingID i"
    by (simp add: cached_contents_def mem_contents_def demo_service_def NewServiceObject_def NewInMemoryBackend_def)
  have sess: "getSession demo_service (ds_session demo_secret) = Some \<lparr>ss_algorithm = AlgorithmPlain, ss_aesKey = None\<rparr>"
    using demo_session(1) by (simp add: demo_secret_def)
  have read: "readable demo_env \<lparr>ss_algorithm = AlgorithmPlain, ss_aesKey = None\<rparr> demo_secret [42]"
    by (simp add: readable_def decryptSecret_def demo_secret_def)
  obtain m s2 sec where "GetSecrets demo_env [path] (SessionPath @ ''0'') s1 = (Inr m, s2)" "mget m path = Some sec"
    "readable demo_env \<lparr>ss_algorithm = AlgorithmPlain, ss_aesKey = None\<rparr> sec [42]"
    using create_then_get [OF demo_cenv(4,1) order_ok_id order_ok_id witness_env_ok demo_cenv(2,3) demo_crypto demo_store
        empty sess read _ c demo_session] by auto
  then show ?thesis using c by (auto simp: readable_def decryptSecret_def)
qed

end
