(* ===== verification/Replica_File.thy ===== *)
theory Replica_File
  imports Go_Prelude
begin

text \<open>
  The read-only replica file of the Litestream VFS
  (\<^verbatim>\<open>cmd/litestream-vfs-wrapper/replica_file.go\<close>, and the parts of
  \<^verbatim>\<open>replica_poller.go\<close> that install an update): the state of \<^verbatim>\<open>replicaFile\<close>, the page
  lookup with its retries, \<open>ReadAt\<close> with the updates of the poller interleaved at every point
  where the code does not hold its mutex, the locks, and the staging of updates.

  The packages outside the repository are parameters: fetching a page of an LTX file
  (\<open>fetchPage\<close>, by attempt), the context (\<open>ctxErr\<close>), the random bytes of the change counter
  (\<open>rand4\<close>), and what the LRU cache evicts (\<open>evict\<close>). Transaction identifiers are 64-bit and
  page numbers 32-bit words, as in the code; SQLite never reads at a negative offset.
\<close>

subsection \<open>Data\<close>

type_synonym txid = "64 word"
type_synonym pgno = "32 word"

record PageIndexElem =
  el_Level :: int
  el_MinTXID :: txid
  el_MaxTXID :: txid
  el_Offset :: int
  el_Size :: int

record Pos =
  TXID :: txid
  PostApplyChecksum :: "64 word"

type_synonym page_index = "(pgno, PageIndexElem) gomap"

record replicaUpdate =
  up_index :: page_index
  up_replace :: bool
  up_commit :: "32 word"
  up_pos :: Pos
  up_maxTXID1 :: txid

record replicaSnapshot =
  sn_index :: page_index
  sn_commit :: "32 word"
  sn_pos :: Pos
  sn_maxTXID1 :: txid

text \<open>What the classifier of fetch errors asks about an error.\<close>

record fetch_error =
  fe_canceled :: bool
  fe_unexpectedEOF :: bool
  fe_deadline :: bool
  fe_notExist :: bool
  fe_mentionsEOF :: bool
  fe_temporary :: "bool option"

datatype rerror =
    REOF
  | RBusy
  | RPageNotFound pgno
  | RFetch pgno fetch_error
  | RPgnoMismatch
  | RPageSizeMismatch
  | RCtx
  | RRand
  | RReadOnly
  | RInvalidDowngrade
  | RInvalidUnlock
  | RPanic

text \<open>The errors of a poll; those of the client, a package outside the repository, are strings.\<close>

datatype poll_error =
    PLtxFiles string
  | PIterate string
  | PCloseIterator string
  | PNonContiguous int txid txid txid
  | PFetchPageIndex string
  | PFetchHeader string
  | PPageSizeMismatch "32 word" "32 word"
  | PTxidRangeMismatch txid txid txid txid
  | PRestorePlan string
  | PRestorePlanEmpty
  | PUnsupportedPageSize "32 word"
  | PNoLtxFile
  | PCreateCache string
  | PPollL0 poll_error
  | PPollL1 poll_error

datatype LockLevel = LOCK_NONE | LOCK_SHARED | LOCK_RESERVED | LOCK_PENDING | LOCK_EXCLUSIVE

fun lockNum :: "LockLevel \<Rightarrow> nat" where
  "lockNum LOCK_NONE = 0" | "lockNum LOCK_SHARED = 1" | "lockNum LOCK_RESERVED = 2"
| "lockNum LOCK_PENDING = 3" | "lockNum LOCK_EXCLUSIVE = 4"

record replicaFile =
  pageSize :: "32 word"
  rf_commit :: "32 word"
  rf_index :: page_index
  rf_pos :: Pos
  rf_maxTXID1 :: txid
  pollPos :: Pos
  pollMaxTXID1 :: txid
  pollCommit :: "32 word"
  lastPollSuccess :: "int option"
  lastPollErr :: "poll_error option"
  rf_pending :: "replicaUpdate option"
  visibleGeneration :: "64 word"
  rf_cache :: "(pgno, bytes) gomap"
  rf_lock :: LockLevel

record replica_env =
  fetchPage :: "PageIndexElem \<Rightarrow> nat \<Rightarrow> fetch_error + pgno \<times> bytes"
  ctxErr :: "nat \<Rightarrow> bool"
  rand4 :: "bytes option"
  evict :: "(pgno, bytes) gomap \<Rightarrow> (pgno, bytes) gomap"

definition isSupportedPageSize :: "32 word \<Rightarrow> bool" where
  "isSupportedPageSize n = (n \<in> {512, 1024, 2048, 4096, 8192, 16384, 32768, 65536})"

subsection \<open>Fetching a page\<close>

definition pageFetchMaxAttempts :: nat where
  "pageFetchMaxAttempts = 3"

definition isRetryablePageError :: "fetch_error \<Rightarrow> bool" where
  "isRetryablePageError e =
     (if fe_canceled e then False
      else if fe_unexpectedEOF e \<or> fe_deadline e \<or> fe_notExist e then True
      else if fe_mentionsEOF e then True
      else fe_temporary e = Some True)"

text \<open>
  The attempts from number \<open>attempt\<close> on, with \<open>left\<close> to go. The context is looked at before
  each attempt and during the delay before each but the first (\<open>ctxErr (2 * attempt)\<close> and
  \<open>ctxErr (2 * attempt + 1)\<close>).
\<close>

fun fetchAttempts ::
    "replica_env \<Rightarrow> 32 word \<Rightarrow> pgno \<Rightarrow> PageIndexElem \<Rightarrow> nat \<Rightarrow> nat \<Rightarrow> rerror + bytes" where
  "fetchAttempts env psize pg elem attempt 0 = Inl RBusy"
| "fetchAttempts env psize pg elem attempt (Suc left) =
     (if ctxErr env (2 * attempt) then Inl RCtx
      else if attempt > 0 \<and> ctxErr env (2 * attempt + 1) then Inl RCtx
      else
        case fetchPage env elem attempt of
          Inl err \<Rightarrow>
            if isRetryablePageError err then fetchAttempts env psize pg elem (Suc attempt) left
            else Inl (RFetch pg err)
        | Inr (hdrPgno, data) \<Rightarrow>
            if hdrPgno \<noteq> pg then Inl RPgnoMismatch
            else if (word_of_nat (length data) :: 32 word) \<noteq> psize then Inl RPageSizeMismatch
            else Inr data)"

definition fetchPageWithRetry ::
    "replica_env \<Rightarrow> 32 word \<Rightarrow> pgno \<Rightarrow> PageIndexElem \<Rightarrow> rerror + bytes" where
  "fetchPageWithRetry env psize pg elem = fetchAttempts env psize pg elem 0 pageFetchMaxAttempts"

subsection \<open>Installing updates\<close>

fun copyInto :: "page_index \<Rightarrow> page_index \<Rightarrow> page_index" where
  "copyInto m [] = m"
| "copyInto m ((k, v) # kvs) = copyInto (mput m k v) kvs"

fun removeAllKeys :: "(pgno, bytes) gomap \<Rightarrow> page_index \<Rightarrow> (pgno, bytes) gomap" where
  "removeAllKeys c [] = c"
| "removeAllKeys c ((k, v) # kvs) = removeAllKeys (mdel c k) kvs"

definition applyUpdateLocked :: "replicaUpdate \<Rightarrow> replicaFile \<Rightarrow> replicaFile" where
  "applyUpdateLocked u f =
     (let f1 = (if up_replace u
                then f\<lparr>rf_index := filter (\<lambda>(pg, _). \<not> pg > up_commit u) (up_index u), rf_cache := []\<rparr>
                else f\<lparr>rf_index := copyInto (rf_index f) (up_index u),
                       rf_cache := removeAllKeys (rf_cache f) (up_index u)\<rparr>)
      in f1\<lparr>rf_commit := up_commit u, rf_pos := up_pos u, rf_maxTXID1 := up_maxTXID1 u,
            visibleGeneration := visibleGeneration f + 1\<rparr>)"

definition mergePendingLocked :: "replicaUpdate \<Rightarrow> replicaFile \<Rightarrow> replicaFile" where
  "mergePendingLocked u f =
     (if up_replace u then f\<lparr>rf_pending := Some u\<rparr>
      else
        case rf_pending f of
          None \<Rightarrow> f\<lparr>rf_pending := Some u\<rparr>
        | Some p \<Rightarrow>
            f\<lparr>rf_pending := Some (p\<lparr>up_index := copyInto (up_index p) (up_index u), up_commit := up_commit u,
               up_pos := up_pos u, up_maxTXID1 := up_maxTXID1 u\<rparr>)\<rparr>)"

definition stageUpdateLocked :: "replicaUpdate \<Rightarrow> replicaFile \<Rightarrow> replicaFile" where
  "stageUpdateLocked u f =
     (if \<not> up_replace u \<and> up_index u = [] \<and>
         (case rf_pending f of
            None \<Rightarrow> up_pos u = rf_pos f \<and> up_commit u = rf_commit f \<and> up_maxTXID1 u = rf_maxTXID1 f
          | Some p \<Rightarrow> up_pos u = up_pos p \<and> up_commit u = up_commit p \<and> up_maxTXID1 u = up_maxTXID1 p)
      then f
      else if lockNum (rf_lock f) \<ge> lockNum LOCK_SHARED then mergePendingLocked u f
      else applyUpdateLocked u f)"

subsection \<open>Locks\<close>

definition rf_Lock :: "LockLevel \<Rightarrow> replicaFile \<Rightarrow> rerror option \<times> replicaFile" where
  "rf_Lock l f =
     (if lockNum l < lockNum (rf_lock f) then (Some RInvalidDowngrade, f)
      else if lockNum l \<ge> lockNum LOCK_RESERVED then (Some RReadOnly, f)
      else (None, f\<lparr>rf_lock := l\<rparr>))"

definition rf_Unlock :: "LockLevel \<Rightarrow> replicaFile \<Rightarrow> rerror option \<times> replicaFile" where
  "rf_Unlock l f =
     (if l \<noteq> LOCK_NONE \<and> l \<noteq> LOCK_SHARED then (Some RInvalidUnlock, f)
      else
        let f1 = f\<lparr>rf_lock := l\<rparr>
        in case rf_pending f1 of
             Some p \<Rightarrow>
               if l = LOCK_NONE then (None, (applyUpdateLocked p f1)\<lparr>rf_pending := None\<rparr>) else (None, f1)
           | None \<Rightarrow> (None, f1))"

definition rf_CheckReservedLock :: bool where
  "rf_CheckReservedLock = False"

definition rf_WriteAt :: "bytes \<Rightarrow> int \<Rightarrow> int \<times> rerror" where
  "rf_WriteAt p off = (0, RReadOnly)"

definition rf_Truncate :: "int \<Rightarrow> rerror" where
  "rf_Truncate n = RReadOnly"

definition rf_Size :: "replicaFile \<Rightarrow> int" where
  "rf_Size f = uint (rf_commit f) * uint (pageSize f)"

subsection \<open>Reading\<close>

text \<open>What other goroutines may do between two sections of a reader: the poller stages an
  update, locks change, another reader stores the page it fetched.\<close>

datatype rf_action =
    Stage replicaUpdate
  | ALock LockLevel
  | AUnlock LockLevel
  | ACache "64 word" pgno PageIndexElem bytes

text \<open>The two locked sections of \<open>page\<close>.\<close>

datatype page_begin = PBErr rerror | PBHit bytes | PBFetch PageIndexElem

definition pageBegin :: "pgno \<Rightarrow> 64 word \<Rightarrow> replicaFile \<Rightarrow> page_begin" where
  "pageBegin pg generation f =
     (if generation \<noteq> visibleGeneration f then PBErr RBusy
      else
        case mget (rf_cache f) pg of
          Some data \<Rightarrow> PBHit data
        | None \<Rightarrow> (case mget (rf_index f) pg of None \<Rightarrow> PBErr (RPageNotFound pg) | Some elem \<Rightarrow> PBFetch elem))"

definition pageCommit ::
    "replica_env \<Rightarrow> pgno \<Rightarrow> 64 word \<Rightarrow> PageIndexElem \<Rightarrow> bytes \<Rightarrow> replicaFile \<Rightarrow> (rerror + bytes) \<times> replicaFile" where
  "pageCommit env pg generation elem data f =
     (if generation \<noteq> visibleGeneration f then (Inl RBusy, f)
      else if mget (rf_index f) pg \<noteq> Some elem then (Inl RBusy, f)
      else
        case mget (rf_cache f) pg of
          Some cached \<Rightarrow> (Inr cached, f)
        | None \<Rightarrow> (Inr data, f\<lparr>rf_cache := evict env (mput (rf_cache f) pg data)\<rparr>))"

fun rf_act :: "replica_env \<Rightarrow> rf_action \<Rightarrow> replicaFile \<Rightarrow> replicaFile" where
  "rf_act env (Stage u) f = stageUpdateLocked u f"
| "rf_act env (ALock l) f = snd (rf_Lock l f)"
| "rf_act env (AUnlock l) f = snd (rf_Unlock l f)"
| "rf_act env (ACache generation pg elem data) f = snd (pageCommit env pg generation elem data f)"

definition interfere :: "replica_env \<Rightarrow> rf_action list \<Rightarrow> replicaFile \<Rightarrow> replicaFile" where
  "interfere env as f = fold (rf_act env) as f"

text \<open>\<open>page\<close>; \<open>during\<close> is what happens while the page is fetched.\<close>

definition rf_page ::
    "replica_env \<Rightarrow> rf_action list \<Rightarrow> pgno \<Rightarrow> 64 word \<Rightarrow> replicaFile \<Rightarrow> (rerror + bytes) \<times> replicaFile" where
  "rf_page env during pg generation f =
     (case pageBegin pg generation f of
        PBErr e \<Rightarrow> (Inl e, f)
      | PBHit data \<Rightarrow> (Inr data, f)
      | PBFetch elem \<Rightarrow>
          (let f1 = interfere env during f in
           case fetchPageWithRetry env (pageSize f) pg elem of
             Inl e \<Rightarrow> (Inl e, f1)
           | Inr data \<Rightarrow> pageCommit env pg generation elem data f1))"

text \<open>Writing the rollback-journal version and a random change counter into the header.\<close>

definition patchHeader :: "bytes \<Rightarrow> bytes \<Rightarrow> bytes" where
  "patchHeader r4 p = p[18 := 1, 19 := 1, 24 := r4 ! 0, 25 := r4 ! 1, 26 := r4 ! 2, 27 := r4 ! 3]"

text \<open>
  One round of the loop of \<open>ReadAt\<close>: it returns (number of bytes read, error, buffer) or goes on
  with a new buffer, offset and count. What other goroutines do is
  \<open>sched (3 * k)\<close> before the \<open>k\<close>-th page is looked up, \<open>sched (3 * k + 1)\<close> during its fetch
  and \<open>sched (3 * k + 2)\<close> before the generation is checked again.
\<close>

datatype read_round =
    Done "nat \<times> rerror option \<times> bytes"
  | Continue bytes nat nat

definition readCopy ::
    "replica_env \<Rightarrow> bytes \<Rightarrow> nat \<Rightarrow> bytes \<Rightarrow> nat \<Rightarrow> nat \<Rightarrow> read_round" where
  "readCopy env page pageOff p off tot =
     (if length page < pageOff then Done (tot, Some RPanic, p)
      else
        let n = min (length p - tot) (length page - pageOff);
            p1 = take tot p @ take n (drop pageOff page) @ drop (tot + n) p
        in if off = 0 \<and> tot = 0 \<and> n \<ge> 28
           then (case rand4 env of
                   None \<Rightarrow> Done (0, Some RRand, p1)
                 | Some r4 \<Rightarrow> Continue (patchHeader r4 p1) (off + n) (tot + n))
           else Continue p1 (off + n) (tot + n))"

definition readRound ::
    "replica_env \<Rightarrow> (nat \<Rightarrow> rf_action list) \<Rightarrow> nat \<Rightarrow> 64 word \<Rightarrow> nat \<Rightarrow> bytes \<Rightarrow> nat \<Rightarrow> nat \<Rightarrow> replicaFile
      \<Rightarrow> read_round \<times> replicaFile" where
  "readRound env sched k generation psize p off tot f =
     (let f0 = interfere env (sched (3 * k)) f;
          pg = word_of_nat (off div psize) + 1
      in case rf_page env (sched (3 * k + 1)) pg generation f0 of
           (Inl e, f1) \<Rightarrow> (Done (tot, Some e, p), f1)
         | (Inr page, f1) \<Rightarrow>
             (let f2 = interfere env (sched (3 * k + 2)) f1
              in if visibleGeneration f2 \<noteq> generation then (Done (tot, Some RBusy, p), f2)
                 else (readCopy env page (off mod psize) p off tot, f2)))"

text \<open>The loop; running out of fuel is \<open>None\<close>.\<close>

fun readLoop ::
    "replica_env \<Rightarrow> (nat \<Rightarrow> rf_action list) \<Rightarrow> nat \<Rightarrow> nat \<Rightarrow> 64 word \<Rightarrow> nat \<Rightarrow> nat \<Rightarrow> bytes \<Rightarrow> nat \<Rightarrow> nat \<Rightarrow> replicaFile
      \<Rightarrow> ((nat \<times> rerror option \<times> bytes) \<times> replicaFile) option" where
  "readLoop env sched 0 k generation psize sz p off tot f = None"
| "readLoop env sched (Suc fuel) k generation psize sz p off tot f =
     (if \<not> (tot < length p \<and> off < sz)
      then Some ((tot, if tot < length p then Some REOF else None, p), f)
      else
        case readRound env sched k generation psize p off tot f of
          (Done out, f') \<Rightarrow> Some (out, f')
        | (Continue p' off' tot', f') \<Rightarrow> readLoop env sched fuel (Suc k) generation psize sz p' off' tot' f')"

definition rf_ReadAt ::
    "replica_env \<Rightarrow> (nat \<Rightarrow> rf_action list) \<Rightarrow> bytes \<Rightarrow> nat \<Rightarrow> replicaFile
      \<Rightarrow> ((nat \<times> rerror option \<times> bytes) \<times> replicaFile) option" where
  "rf_ReadAt env sched p off f =
     (if p = [] then Some ((0, None, p), f)
      else
        let generation = visibleGeneration f;
            psize = unat (pageSize f);
            sz = unat (rf_commit f) * psize
        in if off \<ge> sz then Some ((0, Some REOF, p), f)
           else readLoop env sched (Suc (length p)) 0 generation psize sz p off 0 f)"

subsection \<open>Lemmas on updates\<close>

lemma mget_copyInto: "mget (copyInto m kvs) k = (case mget (rev kvs) k of Some v \<Rightarrow> Some v | None \<Rightarrow> mget m k)"
  by (induction m kvs rule: copyInto.induct) (auto simp: map_add_def split: option.splits)

lemma mget_removeAllKeys: "mget (removeAllKeys c kvs) k = (if k \<in> fst ` set kvs then None else mget c k)"
  by (induction c kvs rule: removeAllKeys.induct) auto

lemma mwf_copyInto: "mwf m \<Longrightarrow> mwf (copyInto m kvs)"
  by (induction m kvs rule: copyInto.induct) simp_all

text \<open>
  The invariant of the file: the cached pages are the pages the index points to. \<open>content\<close> gives
  the bytes of a page of an LTX file, which never change once the file is written.
\<close>

definition file_ok :: "(PageIndexElem \<Rightarrow> bytes) \<Rightarrow> replicaFile \<Rightarrow> bool" where
  "file_ok content f \<longleftrightarrow> isSupportedPageSize (pageSize f)
     \<and> (\<forall>pg d. mget (rf_cache f) pg = Some d \<longrightarrow>
          (\<exists>e. mget (rf_index f) pg = Some e \<and> d = content e \<and> length d = unat (pageSize f)))"

definition env_ok :: "(PageIndexElem \<Rightarrow> bytes) \<Rightarrow> replica_env \<Rightarrow> bool" where
  "env_ok content env \<longleftrightarrow>
     (\<forall>e a pg d. fetchPage env e a = Inr (pg, d) \<longrightarrow> d = content e)
     \<and> (\<forall>m k v. mget (evict env m) k = Some v \<longrightarrow> mget m k = Some v)
     \<and> (\<forall>r4. rand4 env = Some r4 \<longrightarrow> length r4 = 4)
     \<and> (\<forall>e. length (content e) < 2 ^ 32)"

fun action_ok :: "(PageIndexElem \<Rightarrow> bytes) \<Rightarrow> nat \<Rightarrow> rf_action \<Rightarrow> bool" where
  "action_ok content psize (ACache g pg e d) = (d = content e \<and> length d = psize)"
| "action_ok content psize _ = True"

lemma page_index_rev: "mget (rev kvs) k = None \<longleftrightarrow> k \<notin> fst ` set kvs"
  by (auto simp: map_of_eq_None_iff)

lemma apply_ok: "file_ok content f \<Longrightarrow> file_ok content (applyUpdateLocked u f)"
proof (cases "up_replace u")
  case False
  assume ok: "file_ok content f"
  have "\<exists>e. mget (copyInto (rf_index f) (up_index u)) pg = Some e \<and> d = content e \<and> length d = unat (pageSize f)"
    if "mget (removeAllKeys (rf_cache f) (up_index u)) pg = Some d" for pg d
    using ok that page_index_rev [of "up_index u" pg]
    by (auto simp: file_ok_def mget_removeAllKeys mget_copyInto split: if_splits option.splits)
  then show ?thesis using ok False by (simp add: applyUpdateLocked_def Let_def file_ok_def)
qed (simp add: applyUpdateLocked_def Let_def file_ok_def)

lemma stage_ok:
  assumes "file_ok content f"
  shows "file_ok content (stageUpdateLocked u f)"
proof -
  have "file_ok content (mergePendingLocked u f)"
    using assms by (auto simp: mergePendingLocked_def file_ok_def split: option.split)
  then show ?thesis using assms apply_ok [OF assms, of u] by (simp add: stageUpdateLocked_def)
qed

lemma unlock_ok: "file_ok content f \<Longrightarrow> file_ok content (snd (rf_Unlock l f))"
proof -
  assume "file_ok content f"
  then have "file_ok content (applyUpdateLocked p (f\<lparr>rf_lock := l\<rparr>))" for p
    by (intro apply_ok) (simp add: file_ok_def)
  then show ?thesis using \<open>file_ok content f\<close>
    by (auto simp: rf_Unlock_def Let_def file_ok_def split: option.split)
qed

lemma pageCommit_ok:
  assumes "env_ok content env" "file_ok content f" "data = content elem" "length data = unat (pageSize f)"
  shows "file_ok content (snd (pageCommit env pg generation elem data f))"
proof -
  have sub: "mget (evict env m) k = Some v \<Longrightarrow> mget m k = Some v" for m k v
    using assms(1) unfolding env_ok_def by blast
  have "file_ok content (f\<lparr>rf_cache := evict env (mput (rf_cache f) pg data)\<rparr>)" if "mget (rf_index f) pg = Some elem"
    unfolding file_ok_def
  proof (intro conjI allI impI)
    show "isSupportedPageSize (pageSize (f\<lparr>rf_cache := evict env (mput (rf_cache f) pg data)\<rparr>))"
      using assms(2) by (simp add: file_ok_def)
    fix pg' d
    assume "mget (rf_cache (f\<lparr>rf_cache := evict env (mput (rf_cache f) pg data)\<rparr>)) pg' = Some d"
    then have "mget (evict env (mput (rf_cache f) pg data)) pg' = Some d" by simp
    from sub [OF this] have "mget (mput (rf_cache f) pg data) pg' = Some d" .
    then show "\<exists>e. mget (rf_index (f\<lparr>rf_cache := evict env (mput (rf_cache f) pg data)\<rparr>)) pg' = Some e \<and> d = content e
        \<and> length d = unat (pageSize (f\<lparr>rf_cache := evict env (mput (rf_cache f) pg data)\<rparr>))"
    proof (cases "pg' = pg")
      case True
      then show ?thesis using \<open>mget (mput (rf_cache f) pg data) pg' = Some d\<close> assms(3,4) that by simp
    next
      case False
      then have "mget (rf_cache f) pg' = Some d" using \<open>mget (mput (rf_cache f) pg data) pg' = Some d\<close> by simp
      then have "\<exists>e. mget (rf_index f) pg' = Some e \<and> d = content e \<and> length d = unat (pageSize f)"
        using assms(2) unfolding file_ok_def by blast
      then show ?thesis by simp
    qed
  qed
  then show ?thesis using assms(2) by (auto simp: pageCommit_def split: option.split)
qed

text \<open>How a file evolves: \<open>m\<close> updates became visible.\<close>

definition evolves :: "nat \<Rightarrow> replicaFile \<Rightarrow> replicaFile \<Rightarrow> bool" where
  "evolves m f f' \<longleftrightarrow> visibleGeneration f' = visibleGeneration f + word_of_nat m \<and> pageSize f' = pageSize f
     \<and> (m = 0 \<longrightarrow> rf_index f' = rf_index f \<and> rf_commit f' = rf_commit f)"

lemma evolves_refl [simp]: "evolves 0 f f"
  by (simp add: evolves_def)

lemma evolves_trans: "evolves m f f' \<Longrightarrow> evolves n f' f'' \<Longrightarrow> evolves (m + n) f f''"
  by (auto simp: evolves_def)

lemma evolves_apply: "evolves 1 f (applyUpdateLocked u f)"
  by (simp add: evolves_def applyUpdateLocked_def Let_def)

lemma evolves_act:
  assumes "env_ok content env" "file_ok content f" "action_ok content (unat (pageSize f)) a"
  shows "file_ok content (rf_act env a f) \<and> (\<exists>m \<le> 1. evolves m f (rf_act env a f))"
proof (cases a)
  case (Stage u)
  have "evolves 0 f (mergePendingLocked u f)"
    by (auto simp: evolves_def mergePendingLocked_def split: option.split)
  then have "\<exists>m \<le> 1. evolves m f (stageUpdateLocked u f)"
    using evolves_apply [of f u] evolves_refl [of f] by (auto simp: stageUpdateLocked_def)
  then show ?thesis using stage_ok [OF assms(2)] Stage by simp
next
  case (ALock l)
  then show ?thesis using assms(2)
    by (auto simp: rf_Lock_def file_ok_def evolves_def intro!: exI [of _ 0])
next
  case (AUnlock l)
  have "evolves 1 f ((applyUpdateLocked p (f\<lparr>rf_lock := l\<rparr>))\<lparr>rf_pending := None\<rparr>)" for p
    by (simp add: evolves_def applyUpdateLocked_def Let_def)
  moreover have "evolves 0 f (f\<lparr>rf_lock := l\<rparr>)" by (simp add: evolves_def)
  ultimately show ?thesis using assms(2) AUnlock unlock_ok [of content f l]
    by (auto simp: rf_Unlock_def Let_def split: option.split)
next
  case (ACache g pg e d)
  have "evolves 0 f (snd (pageCommit env pg g e d f))"
    by (auto simp: evolves_def pageCommit_def split: option.split)
  then show ?thesis using pageCommit_ok [OF assms(1,2), of d e pg g] assms(3) ACache by auto
qed

lemma evolves_interfere:
  assumes "env_ok content env" "file_ok content f" "\<forall>a \<in> set as. action_ok content (unat (pageSize f)) a"
  shows "file_ok content (interfere env as f) \<and> (\<exists>m \<le> length as. evolves m f (interfere env as f))"
  using assms(2,3)
proof (induction as arbitrary: f)
  case (Cons a as)
  obtain m where m: "m \<le> 1" "evolves m f (rf_act env a f)" "file_ok content (rf_act env a f)"
    using evolves_act [OF assms(1) Cons.prems(1), of a] Cons.prems(2) by auto
  have "\<forall>x \<in> set as. action_ok content (unat (pageSize (rf_act env a f))) x"
    using Cons.prems(2) m(2) by (simp add: evolves_def)
  then obtain n where "n \<le> length as" "evolves n (rf_act env a f) (interfere env as (rf_act env a f))"
    "file_ok content (interfere env as (rf_act env a f))"
    using Cons.IH [OF m(3)] by blast
  moreover from this have "evolves (m + n) f (interfere env (a # as) f)"
    using evolves_trans [OF m(2)] by (simp add: interfere_def)
  moreover have "m + n \<le> length (a # as)" using m(1) \<open>n \<le> length as\<close> by simp
  moreover have "interfere env (a # as) f = interfere env as (rf_act env a f)" by (simp add: interfere_def)
  ultimately show ?case by metis
qed (auto simp: interfere_def)

subsection \<open>What a page lookup returns\<close>

text \<open>A file that came from \<open>f0\<close> by at most \<open>n\<close> steps of other goroutines.\<close>

definition traced :: "(PageIndexElem \<Rightarrow> bytes) \<Rightarrow> nat \<Rightarrow> replicaFile \<Rightarrow> replicaFile \<Rightarrow> bool" where
  "traced content n f0 f \<longleftrightarrow> file_ok content f \<and> (\<exists>m \<le> n. evolves m f0 f)"

lemma traced_interfere:
  assumes "env_ok content env" "traced content n f0 f"
    "\<forall>a \<in> set as. action_ok content (unat (pageSize f0)) a"
  shows "traced content (n + length as) f0 (interfere env as f)"
proof -
  obtain m where m: "m \<le> n" "evolves m f0 f" and ok: "file_ok content f"
    using assms(2) by (auto simp: traced_def)
  have "pageSize f = pageSize f0" using m(2) by (simp add: evolves_def)
  with assms(3) have "\<forall>a \<in> set as. action_ok content (unat (pageSize f)) a" by simp
  then obtain k where "k \<le> length as" "evolves k f (interfere env as f)" "file_ok content (interfere env as f)"
    using evolves_interfere [OF assms(1) ok] by blast
  then show ?thesis using m(1) evolves_trans [OF m(2)]
    unfolding traced_def by (metis add_mono)
qed

lemma traced_visible:
  assumes "traced content n f0 f" "n < 2 ^ 64" "visibleGeneration f = visibleGeneration f0"
  shows "rf_index f = rf_index f0 \<and> rf_commit f = rf_commit f0"
proof -
  obtain m where m: "m \<le> n" "evolves m f0 f" using assms(1) by (auto simp: traced_def)
  then have "(word_of_nat m :: 64 word) = 0" using assms(3) by (simp add: evolves_def)
  then have "(2::nat) ^ 64 dvd m" by (simp add: word_of_nat_eq_0_iff)
  then have "m = 0" using m(1) assms(2) by (auto dest: dvd_imp_le)
  then show ?thesis using m(2) by (simp add: evolves_def)
qed

lemma traced_pageSize: "traced content n f0 f \<Longrightarrow> pageSize f = pageSize f0"
  by (auto simp: traced_def evolves_def)

lemma traced_mono: "traced content n f0 f \<Longrightarrow> n \<le> n' \<Longrightarrow> traced content n' f0 f"
  unfolding traced_def by (meson le_trans)

lemma fetchAttempts_sound:
  assumes "env_ok content env"
  shows "fetchAttempts env psize pg elem attempt left = Inr d \<Longrightarrow> d = content elem \<and> length d = unat psize"
proof (induction left arbitrary: attempt)
  case (Suc left)
  have len: "length (content elem) < 2 ^ 32" using assms by (simp add: env_ok_def)
  have cont: "\<And>pg' d'. fetchPage env elem attempt = Inr (pg', d') \<Longrightarrow> d' = content elem"
    using assms unfolding env_ok_def by blast
  have "unat (word_of_nat (length (content elem)) :: 32 word) = length (content elem)"
    using len by (simp add: unat_of_nat)
  then show ?case using Suc.prems Suc.IH [of "Suc attempt"] cont
    by (auto split: if_splits sum.splits)
qed simp

lemma fetchAttempts_not_eof: "fetchAttempts env psize pg elem attempt left = Inl e \<Longrightarrow> e \<noteq> REOF"
  by (induction left arbitrary: attempt) (auto split: if_splits sum.splits)

lemma page_sound:
  assumes env: "env_ok content env" and tr: "traced content n f0 f"
    and acts: "\<forall>a \<in> set during. action_ok content (unat (pageSize f0)) a"
    and bound: "n + length during < 2 ^ 64"
    and page: "rf_page env during pg (visibleGeneration f0) f = (r, f1)"
  shows "traced content (n + length during) f0 f1 \<and>
    (case r of
       Inr d \<Rightarrow> \<exists>e. mget (rf_index f0) pg = Some e \<and> d = content e \<and> length d = unat (pageSize f0)
     | Inl e \<Rightarrow> e \<noteq> REOF)"
proof (cases "pageBegin pg (visibleGeneration f0) f")
  case (PBErr e)
  then have "f1 = f" "r = Inl e" "e \<noteq> REOF"
    using page by (auto simp: rf_page_def pageBegin_def split: if_splits option.splits)
  then show ?thesis using traced_mono [OF tr] by simp
next
  case (PBHit d)
  then have same: "visibleGeneration f = visibleGeneration f0" "mget (rf_cache f) pg = Some d"
    by (auto simp: pageBegin_def split: if_splits option.splits)
  have "\<exists>e. mget (rf_index f) pg = Some e \<and> d = content e \<and> length d = unat (pageSize f)"
    using tr same(2) unfolding traced_def file_ok_def by blast
  then show ?thesis using page PBHit traced_mono [OF tr] traced_visible [OF tr _ same(1)] bound traced_pageSize [OF tr]
    by (auto simp: rf_page_def)
next
  case (PBFetch elem)
  define f' where "f' = interfere env during f"
  have tr': "traced content (n + length during) f0 f'"
    unfolding f'_def by (rule traced_interfere [OF env tr acts])
  show ?thesis
  proof (cases "fetchPageWithRetry env (pageSize f) pg elem")
    case (Inl e)
    then have "r = Inl e" "f1 = f'" using page PBFetch by (simp_all add: rf_page_def f'_def Let_def)
    then show ?thesis using tr' Inl fetchAttempts_not_eof by (auto simp: fetchPageWithRetry_def)
  next
    case (Inr d)
    then have d: "d = content elem" "length d = unat (pageSize f0)"
      using fetchAttempts_sound [OF env] traced_pageSize [OF tr] unfolding fetchPageWithRetry_def by metis+
    have pc: "pageCommit env pg (visibleGeneration f0) elem d f' = (r, f1)"
      using page PBFetch Inr by (simp add: rf_page_def f'_def Let_def)
    have "file_ok content (snd (pageCommit env pg (visibleGeneration f0) elem d f'))"
      using tr' d traced_pageSize [OF tr'] by (intro pageCommit_ok [OF env]) (simp_all add: traced_def)
    moreover have "evolves 0 f' f1" using pc by (auto simp: evolves_def pageCommit_def split: if_splits option.splits)
    ultimately have tr1: "traced content (n + length during) f0 f1"
      using tr' pc evolves_trans [of _ f0 f' 0 f1] unfolding traced_def by auto
    have "\<exists>e. mget (rf_index f0) pg = Some e \<and> x = content e \<and> length x = unat (pageSize f0)" if "r = Inr x" for x
    proof -
      have g: "visibleGeneration f' = visibleGeneration f0" "mget (rf_index f') pg = Some elem"
        and x: "x = d \<or> mget (rf_cache f') pg = Some x"
        using pc that by (auto simp: pageCommit_def split: if_splits option.splits)
      have ix: "rf_index f' = rf_index f0" using traced_visible [OF tr' bound g(1)] by simp
      have "mget (rf_cache f') pg = Some x \<Longrightarrow> x = content elem \<and> length x = unat (pageSize f')"
        using tr' g(2) unfolding traced_def file_ok_def by fastforce
      then show ?thesis using x d g(2) ix traced_pageSize [OF tr'] by auto
    qed
    moreover have "r \<noteq> Inl REOF" using pc by (auto simp: pageCommit_def split: if_splits option.splits)
    ultimately show ?thesis using tr1 by (auto split: sum.split)
  qed
qed

subsection \<open>What a read returns\<close>

text \<open>The byte of the database at an offset, as the visible index of \<open>f\<close> has it.\<close>

definition fileByte :: "(PageIndexElem \<Rightarrow> bytes) \<Rightarrow> replicaFile \<Rightarrow> nat \<Rightarrow> 8 word option" where
  "fileByte content f x =
     (case mget (rf_index f) (word_of_nat (x div unat (pageSize f)) + 1) of
        None \<Rightarrow> None
      | Some e \<Rightarrow> Some (content e ! (x mod unat (pageSize f))))"

text \<open>The bytes of the header that a read from the start of the file overwrites.\<close>

definition headerByte :: "nat \<Rightarrow> nat \<Rightarrow> nat \<Rightarrow> bool" where
  "headerByte off len j \<longleftrightarrow> off = 0 \<and> len \<ge> 28 \<and> j \<in> {18, 19, 24, 25, 26, 27}"

definition filled :: "(PageIndexElem \<Rightarrow> bytes) \<Rightarrow> replicaFile \<Rightarrow> nat \<Rightarrow> bytes \<Rightarrow> nat \<Rightarrow> bool" where
  "filled content f off p n \<longleftrightarrow>
     (\<forall>j < n. if headerByte off (length p) j then (j \<in> {18, 19} \<longrightarrow> p ! j = 1)
              else fileByte content f (off + j) = Some (p ! j))"

lemma div_mod_within:
  fixes x i ps :: nat
  assumes "x mod ps + i < ps"
  shows "(x + i) div ps = x div ps" "(x + i) mod ps = x mod ps + i"
proof -
  have *: "x + i = (x mod ps + i) + x div ps * ps" by simp
  show "(x + i) div ps = x div ps" unfolding * using assms by (subst div_mult_self1) simp_all
  show "(x + i) mod ps = x mod ps + i" unfolding * using assms by (subst mod_mult_self1) simp
qed

lemma supported_large: "isSupportedPageSize n \<Longrightarrow> unat n \<ge> 512"
  by (auto simp: isSupportedPageSize_def)

lemma readCopy_sound:
  fixes off tot :: nat and f0 :: replicaFile
  defines "ps \<equiv> unat (pageSize f0)"
  assumes e: "mget (rf_index f0) (word_of_nat ((off + tot) div ps) + 1) = Some e"
    and page: "pg = content e" "length pg = ps" and ps: "ps \<ge> 512"
    and p: "tot < length p" "filled content f0 off p tot"
    and r4: "\<And>r4. rand4 env = Some r4 \<Longrightarrow> length r4 = 4"
    and first: "off = 0 \<Longrightarrow> tot = 0 \<or> tot \<ge> 28"
  shows "case readCopy env pg ((off + tot) mod ps) p (off + tot) tot of
           Done (n, err, q) \<Rightarrow> n = 0 \<and> err = Some RRand \<and> length q = length p
         | Continue q off' tot' \<Rightarrow> off' = off + tot' \<and> tot < tot' \<and> tot' \<le> length p
             \<and> tot' - tot \<le> ps - (off + tot) mod ps
             \<and> length q = length p \<and> filled content f0 off q tot'
             \<and> (off = 0 \<longrightarrow> tot' \<ge> 28 \<or> tot' = length p)"
proof -
  define po where "po = (off + tot) mod ps"
  define n where "n = min (length p - tot) (ps - po)"
  define p1 where "p1 = take tot p @ take n (drop po pg) @ drop (tot + n) p"
  have po: "po < ps" using ps by (simp add: po_def)
  have n: "n > 0" "tot + n \<le> length p" "n \<le> ps - po" using po p(1) by (auto simp: n_def)
  have len: "length p1 = length p" using n page(2) by (simp add: p1_def)
  have old: "p1 ! j = p ! j" if "j < tot" for j using that p(1) by (simp add: p1_def nth_append)
  have new: "fileByte content f0 (off + j) = Some (p1 ! j)" if "tot \<le> j" "j < tot + n" for j
  proof -
    have "(off + tot) mod ps + (j - tot) < ps" using that n(3) po by (simp add: po_def)
    from div_mod_within [OF this] that
    have "(off + j) div ps = (off + tot) div ps" "(off + j) mod ps = po + (j - tot)" by (simp_all add: po_def)
    moreover have "j - tot < n" using that by linarith
    then have "p1 ! j = pg ! (po + (j - tot))"
      using that p(1) n(3) page(2) by (simp add: p1_def nth_append)
    ultimately show ?thesis using e page(1) by (simp add: fileByte_def ps_def)
  qed
  have rc: "readCopy env pg ((off + tot) mod ps) p (off + tot) tot =
      (if off + tot = 0 \<and> tot = 0 \<and> n \<ge> 28
       then (case rand4 env of None \<Rightarrow> Done (0, Some RRand, p1)
             | Some r4 \<Rightarrow> Continue (patchHeader r4 p1) (off + tot + n) (tot + n))
       else Continue p1 (off + tot + n) (tot + n))"
    using po unfolding readCopy_def po_def [symmetric] Let_def page(2) n_def [symmetric] p1_def [symmetric]
    by (simp only: if_False if_not_P [of "ps < po"] not_less order.strict_implies_order)
  show ?thesis
  proof (cases "off + tot = 0 \<and> tot = 0 \<and> n \<ge> 28")
    case True
    have "po = 0" using True by (simp add: po_def)
    have l28: "length p \<ge> 28" using True n(2) by simp
    have "filled content f0 off (patchHeader r p1) (tot + n)" if "length r = 4" for r
      unfolding filled_def
    proof (intro allI impI)
      fix j assume "j < tot + n"
      then show "if headerByte off (length (patchHeader r p1)) j then j \<in> {18, 19} \<longrightarrow> patchHeader r p1 ! j = 1
          else fileByte content f0 (off + j) = Some (patchHeader r p1 ! j)"
        using new [of j] True l28 by (auto simp: headerByte_def patchHeader_def len nth_list_update)
    qed
    moreover have "length (patchHeader r p1) = length p" for r by (simp add: patchHeader_def len)
    ultimately show ?thesis unfolding rc using True n r4 len
      by (auto simp: po_def [symmetric] split: option.split)
  next
    case False
    have hd: "\<not> headerByte off (length p) j" if "tot \<le> j" "j < tot + n" for j
    proof (cases "tot = 0")
      case True
      then have "off \<noteq> 0 \<or> n < 28" using False by auto
      moreover have "po = 0" if "off = 0" using that True by (simp add: po_def)
      ultimately show ?thesis using True ps by (auto simp: headerByte_def n_def)
    qed (use first that in \<open>auto simp: headerByte_def\<close>)
    have "filled content f0 off p1 (tot + n)"
      unfolding filled_def
    proof (intro allI impI)
      fix j assume j: "j < tot + n"
      show "if headerByte off (length p1) j then j \<in> {18, 19} \<longrightarrow> p1 ! j = 1
          else fileByte content f0 (off + j) = Some (p1 ! j)"
        using p(2) old [of j] new [of j] hd [of j] j len by (cases "j < tot") (auto simp: filled_def)
    qed
    moreover have "off = 0 \<longrightarrow> tot + n \<ge> 28 \<or> tot + n = length p"
      using first ps p(1) by (cases "tot = 0") (auto simp: n_def po_def trans_le_add1)
    ultimately show ?thesis unfolding rc using False n len by (auto simp: po_def [symmetric])
  qed
qed

lemma page_end:
  fixes x c ps :: nat
  assumes "x < c * ps"
  shows "x + (ps - x mod ps) \<le> c * ps"
proof -
  have "ps > 0" using assms by (cases ps) auto
  then have "x div ps < c" using assms by (simp add: div_less_iff_less_mult)
  then have "(x div ps + 1) * ps \<le> c * ps" by (intro mult_right_mono) simp_all
  moreover have "x + (ps - x mod ps) = (x div ps + 1) * ps"
  proof -
    have "x = x div ps * ps + x mod ps" "x mod ps < ps" using \<open>ps > 0\<close> by simp_all
    moreover have "(x div ps + 1) * ps = x div ps * ps + ps" by simp
    ultimately show ?thesis by linarith
  qed
  ultimately show ?thesis by simp
qed

text \<open>The number of steps other goroutines take in the first \<open>k\<close> slots of the schedule.\<close>

definition used :: "(nat \<Rightarrow> rf_action list) \<Rightarrow> nat \<Rightarrow> nat" where
  "used sched k = (\<Sum>i<k. length (sched i))"

lemma used_mono: "j \<le> k \<Longrightarrow> used sched j \<le> used sched k"
  unfolding used_def by (rule sum_mono2) auto

lemma used_round: "used sched (3 * Suc k) =
    used sched (3 * k) + length (sched (3 * k)) + length (sched (3 * k + 1)) + length (sched (3 * k + 2))"
  by (simp add: used_def numeral_3_eq_3)

definition sched_ok :: "(PageIndexElem \<Rightarrow> bytes) \<Rightarrow> nat \<Rightarrow> (nat \<Rightarrow> rf_action list) \<Rightarrow> bool" where
  "sched_ok content ps sched \<longleftrightarrow> (\<forall>i. \<forall>a \<in> set (sched i). action_ok content ps a)"

definition readOk ::
    "(PageIndexElem \<Rightarrow> bytes) \<Rightarrow> replicaFile \<Rightarrow> nat \<Rightarrow> nat \<Rightarrow> nat \<times> rerror option \<times> bytes \<Rightarrow> bool" where
  "readOk content f off len out = (case out of (n, err, q) \<Rightarrow>
     length q = len \<and> n \<le> len \<and> (err = None \<longleftrightarrow> n = len)
     \<and> (err = Some REOF \<longrightarrow> n = unat (rf_commit f) * unat (pageSize f) - off)
     \<and> filled content f off q n)"

text \<open>A round either ends the read or copies a part of a page of the snapshot it started on.\<close>

lemma readRound_sound:
  fixes off tot :: nat and f0 :: replicaFile
  defines "ps \<equiv> unat (pageSize f0)"
  assumes env: "env_ok content env" and sched: "sched_ok content ps sched"
    and bound: "used sched (3 * Suc k) < 2 ^ 64"
    and tr: "traced content (used sched (3 * k)) f0 f"
    and p: "tot < length p" "filled content f0 off p tot" "off = 0 \<Longrightarrow> tot = 0 \<or> tot \<ge> 28"
    and rr: "readRound env sched k (visibleGeneration f0) ps p (off + tot) tot f = (r, f')"
  shows "traced content (used sched (3 * Suc k)) f0 f' \<and>
    (case r of
       Done (n, err, q) \<Rightarrow> length q = length p \<and> (n = 0 \<or> n = tot \<and> q = p) \<and> err \<noteq> None \<and> err \<noteq> Some REOF
     | Continue q off' tot' \<Rightarrow> off' = off + tot' \<and> tot < tot' \<and> tot' \<le> length p
         \<and> tot' - tot \<le> ps - (off + tot) mod ps
         \<and> length q = length p \<and> filled content f0 off q tot' \<and> (off = 0 \<longrightarrow> tot' \<ge> 28 \<or> tot' = length p))"
proof -
  define fa where "fa = interfere env (sched (3 * k)) f"
  define pg :: pgno where "pg = word_of_nat ((off + tot) div ps) + 1"
  obtain x fb where page: "rf_page env (sched (3 * k + 1)) pg (visibleGeneration f0) fa = (x, fb)"
    by (cases "rf_page env (sched (3 * k + 1)) pg (visibleGeneration f0) fa")
  have acts: "\<forall>a \<in> set (sched i). action_ok content (unat (pageSize f0)) a" for i
    using sched by (simp add: sched_ok_def ps_def)
  have tra: "traced content (used sched (3 * k) + length (sched (3 * k))) f0 fa"
    unfolding fa_def by (rule traced_interfere [OF env tr acts])
  have "used sched (3 * k) + length (sched (3 * k)) + length (sched (3 * k + 1)) < 2 ^ 64"
    using bound unfolding used_round by linarith
  note ps1 = page_sound [OF env tra acts this page]
  define fc where "fc = interfere env (sched (3 * k + 2)) fb"
  have trb: "traced content (used sched (3 * k) + length (sched (3 * k)) + length (sched (3 * k + 1))) f0 fb"
    using ps1 by blast
  have trc: "traced content (used sched (3 * Suc k)) f0 fc"
    unfolding used_round fc_def by (rule traced_interfere [OF env trb acts])
  show ?thesis
  proof (cases x)
    case (Inl e)
    then have "r = Done (tot, Some e, p)" "f' = fb"
      using rr page by (simp_all add: readRound_def fa_def pg_def)
    moreover have "traced content (used sched (3 * Suc k)) f0 fb"
      using traced_mono [OF trb] unfolding used_round by simp
    ultimately show ?thesis using ps1 Inl by simp
  next
    case (Inr d)
    then obtain e where e: "mget (rf_index f0) pg = Some e" "d = content e" "length d = ps"
      using ps1 by (auto simp: ps_def)
    have r: "f' = fc" "r = (if visibleGeneration fc \<noteq> visibleGeneration f0 then Done (tot, Some RBusy, p)
        else readCopy env d ((off + tot) mod ps) p (off + tot) tot)"
      using rr page Inr by (simp_all add: readRound_def fa_def pg_def fc_def Let_def split: if_splits)
    have "unat (pageSize f0) \<ge> 512"
      using trc traced_pageSize [OF trc] supported_large [of "pageSize f0"] by (simp add: traced_def file_ok_def)
    moreover have "\<And>r4. rand4 env = Some r4 \<Longrightarrow> length r4 = 4" using env by (simp add: env_ok_def)
    ultimately have "case readCopy env d ((off + tot) mod ps) p (off + tot) tot of
           Done (n, err, q) \<Rightarrow> n = 0 \<and> err = Some RRand \<and> length q = length p
         | Continue q off' tot' \<Rightarrow> off' = off + tot' \<and> tot < tot' \<and> tot' \<le> length p
             \<and> tot' - tot \<le> ps - (off + tot) mod ps
             \<and> length q = length p \<and> filled content f0 off q tot'
             \<and> (off = 0 \<longrightarrow> tot' \<ge> 28 \<or> tot' = length p)"
      using e p unfolding ps_def pg_def by (intro readCopy_sound) simp_all
    then show ?thesis using trc r by (auto split: read_round.splits)
  qed
qed

lemma readLoop_sound:
  fixes off tot :: nat and f0 :: replicaFile
  defines "ps \<equiv> unat (pageSize f0)"
  defines "sz \<equiv> unat (rf_commit f0) * ps"
  assumes env: "env_ok content env" and sched: "sched_ok content ps sched"
    and bound: "used sched (3 * length p) < 2 ^ 64"
    and tr: "traced content (used sched (3 * k)) f0 f"
    and p: "k \<le> tot" "tot \<le> length p" "filled content f0 off p tot"
      "off = 0 \<Longrightarrow> tot = 0 \<or> tot \<ge> 28 \<or> tot = length p"
    and sz: "off + tot \<le> sz" and fuel: "length p - tot < fuel"
  shows "\<exists>out f'. readLoop env sched fuel k (visibleGeneration f0) ps sz p (off + tot) tot f = Some (out, f')
    \<and> readOk content f0 off (length p) out"
  using bound tr p sz fuel
proof (induction fuel arbitrary: k p tot f)
  case (Suc fuel)
  show ?case
  proof (cases "tot < length p \<and> off + tot < sz")
    case False
    then show ?thesis using Suc.prems by (auto simp: readOk_def sz_def ps_def)
  next
    case True
    obtain r f' where rr: "readRound env sched k (visibleGeneration f0) ps p (off + tot) tot f = (r, f')"
      by (cases "readRound env sched k (visibleGeneration f0) ps p (off + tot) tot f")
    have "3 * Suc k \<le> 3 * length p" using Suc.prems(3) True by simp
    from used_mono [OF this] Suc.prems(1) have "used sched (3 * Suc k) < 2 ^ 64" by (rule le_less_trans)
    note step = readRound_sound [OF env sched [unfolded ps_def] this Suc.prems(2) _ Suc.prems(5) _ rr [unfolded ps_def],
        folded ps_def]
    show ?thesis
    proof (cases r)
      case (Done out)
      obtain n err q where out: "out = (n, err, q)" by (cases out)
      have "length q = length p" "n = 0 \<or> n = tot \<and> q = p" "err \<noteq> None" "err \<noteq> Some REOF"
        using step Suc.prems(6) True Done out by auto
      then have "readOk content f0 off (length p) out"
        using out True Suc.prems(5) by (auto simp: readOk_def filled_def)
      then show ?thesis using True rr Done by simp
    next
      case (Continue q off' tot')
      have c: "traced content (used sched (3 * Suc k)) f0 f'" "off' = off + tot'" "tot < tot'" "tot' \<le> length p"
        "tot' - tot \<le> ps - (off + tot) mod ps" "length q = length p" "filled content f0 off q tot'"
        "off = 0 \<Longrightarrow> tot' \<ge> 28 \<or> tot' = length p"
        using step Suc.prems(6) True Continue by auto
      have "off + tot' \<le> sz"
        using page_end [of "off + tot" "unat (rf_commit f0)" ps] conjunct2 [OF True] c(3,5)
        unfolding sz_def by linarith
      then have "\<exists>out g. readLoop env sched fuel (Suc k) (visibleGeneration f0) ps sz q (off + tot') tot' f' = Some (out, g)
          \<and> readOk content f0 off (length q) out"
        using Suc.prems(1,3,8) c by (intro Suc.IH) auto
      then show ?thesis using True rr Continue c(2,6) by simp
    qed
  qed
qed simp

lemma rf_ReadAt_sound:
  assumes "file_ok content f" "env_ok content env" "sched_ok content (unat (pageSize f)) sched"
    and "used sched (3 * length p) < 2 ^ 64"
  shows "\<exists>out f'. rf_ReadAt env sched p off f = Some (out, f') \<and> readOk content f off (length p) out"
proof (cases "p = [] \<or> unat (rf_commit f) * unat (pageSize f) \<le> off")
  case True
  then show ?thesis by (auto simp: rf_ReadAt_def readOk_def filled_def Let_def)
next
  case False
  have "traced content (used sched (3 * 0)) f f"
    using assms(1) by (auto simp: traced_def used_def intro: exI [of _ 0])
  then have "\<exists>out f'. readLoop env sched (Suc (length p)) 0 (visibleGeneration f) (unat (pageSize f))
      (unat (rf_commit f) * unat (pageSize f)) p (off + 0) 0 f = Some (out, f') \<and> readOk content f off (length p) out"
    using assms False by (intro readLoop_sound) (auto simp: filled_def)
  then show ?thesis using False by (simp add: rf_ReadAt_def Let_def)
qed

text \<open>
  C9. A read of the replica file returns, whatever the poller and other readers do meanwhile
  (fewer than \<open>2 ^ 64\<close> steps, so that the generation does not wrap around), and every byte it
  reports comes from the one snapshot that was visible when the read started: no read mixes two
  snapshots. It is complete unless it reports an error other than end of file; only the
  journal version and the change counter of the header are replaced.
\<close>

theorem read_snapshot_consistent:
  assumes "file_ok content f" "env_ok content env" "sched_ok content (unat (pageSize f)) sched"
    and "used sched (3 * length p) < 2 ^ 64"
  shows "\<exists>n err q f'. rf_ReadAt env sched p off f = Some ((n, err, q), f')
    \<and> length q = length p \<and> n \<le> length p \<and> (err = None \<longleftrightarrow> n = length p)
    \<and> (err = Some REOF \<longrightarrow> n = unat (rf_commit f) * unat (pageSize f) - off)
    \<and> (\<forall>j < n. headerByte off (length p) j \<or> fileByte content f (off + j) = Some (q ! j))"
proof -
  obtain n err q f' where "rf_ReadAt env sched p off f = Some ((n, err, q), f')" "readOk content f off (length p) (n, err, q)"
    using rf_ReadAt_sound [OF assms, of off] by auto
  note out = this
  have "\<forall>j < n. headerByte off (length p) j \<or> fileByte content f (off + j) = Some (q ! j)"
  proof (intro allI impI)
    fix j assume "j < n"
    moreover have "filled content f off q n" "length q = length p" using out(2) by (simp_all add: readOk_def)
    ultimately show "headerByte off (length p) j \<or> fileByte content f (off + j) = Some (q ! j)"
      by (cases "headerByte off (length p) j") (simp_all add: filled_def)
  qed
  then show ?thesis using out by (auto simp: readOk_def)
qed

text \<open>A file of three pages of 512 bytes, with an update staged during the fetch of the second.\<close>

definition replica_elem :: "int \<Rightarrow> txid \<Rightarrow> PageIndexElem" where
  "replica_elem offset t = \<lparr>el_Level = 0, el_MinTXID = t, el_MaxTXID = t, el_Offset = offset, el_Size = 512\<rparr>"

definition replica_content :: "PageIndexElem \<Rightarrow> bytes" where
  "replica_content e = replicate 512 (word_of_int (el_Offset e))"

definition replica_file :: replicaFile where
  "replica_file = \<lparr>pageSize = 512, rf_commit = 3,
     rf_index = [(1, replica_elem 1 1), (2, replica_elem 2 1), (3, replica_elem 3 1)],
     rf_pos = \<lparr>TXID = 1, PostApplyChecksum = 0\<rparr>, rf_maxTXID1 = 0,
     pollPos = \<lparr>TXID = 1, PostApplyChecksum = 0\<rparr>, pollMaxTXID1 = 0, pollCommit = 3,
     lastPollSuccess = None, lastPollErr = None, rf_pending = None, visibleGeneration = 0, rf_cache = [], rf_lock = LOCK_SHARED\<rparr>"

definition replica_env0 :: replica_env where
  "replica_env0 = \<lparr>fetchPage = (\<lambda>e a. Inr (word_of_int (el_Offset e), replica_content e)), ctxErr = (\<lambda>_. False),
     rand4 = Some [9, 9, 9, 9], evict = (\<lambda>m. m)\<rparr>"

definition replica_update :: replicaUpdate where
  "replica_update = \<lparr>up_index = [(2, replica_elem 7 2)], up_replace = False, up_commit = 3,
     up_pos = \<lparr>TXID = 2, PostApplyChecksum = 0\<rparr>, up_maxTXID1 = 0\<rparr>"

definition replica_sched :: "nat \<Rightarrow> rf_action list" where
  "replica_sched i = (if i = 4 then [Stage replica_update, AUnlock LOCK_NONE] else [])"

lemma replica_env0_ok: "env_ok replica_content replica_env0"
  by (auto simp: env_ok_def replica_env0_def replica_content_def)

lemma replica_file_ok: "file_ok replica_content replica_file"
  by (simp add: file_ok_def replica_file_def isSupportedPageSize_def)

theorem read_snapshot_consistent_witness:
  "\<exists>n err q f'. rf_ReadAt replica_env0 replica_sched (replicate 30 0) 500 replica_file = Some ((n, err, q), f')
     \<and> length q = 30 \<and> (\<forall>j < n. headerByte 500 30 j \<or> fileByte replica_content replica_file (500 + j) = Some (q ! j))"
proof -
  have "used replica_sched 90 \<le> 2 * 90"
    unfolding used_def by (rule order_trans [OF sum_bounded_above [where K = 2]]) (auto simp: replica_sched_def)
  then have "used replica_sched (3 * length (replicate 30 0 :: bytes)) < 2 ^ 64" by simp
  moreover have "sched_ok replica_content (unat (pageSize replica_file)) replica_sched"
    by (simp add: sched_ok_def replica_sched_def)
  ultimately show ?thesis
    using read_snapshot_consistent [OF replica_file_ok replica_env0_ok, of replica_sched "replicate 30 0" 500]
    by (simp only: length_replicate) blast
qed

end
