(* ===== verification/Replica_Staging.thy ===== *)
theory Replica_Staging
  imports Replica_File
begin

text \<open>
  What readers of the replica file can rely on: the bound on the attempts of a page fetch, the
  isolation of a reader that holds the SHARED lock from the updates the poller stages, and that
  the updates held back meanwhile become visible together, as if each had been applied when it
  arrived.
\<close>

subsection \<open>Fetching a page\<close>

text \<open>Attempt \<open>a\<close> is made: the context is still open, and every earlier attempt failed in a
  way worth repeating.\<close>

definition retryableFailure :: "replica_env \<Rightarrow> PageIndexElem \<Rightarrow> nat \<Rightarrow> bool" where
  "retryableFailure env e a = (case fetchPage env e a of Inl err \<Rightarrow> isRetryablePageError err | Inr _ \<Rightarrow> False)"

definition contextOpen :: "replica_env \<Rightarrow> nat \<Rightarrow> bool" where
  "contextOpen env a \<longleftrightarrow> \<not> ctxErr env (2 * a) \<and> (a > 0 \<longrightarrow> \<not> ctxErr env (2 * a + 1))"

definition attempted :: "replica_env \<Rightarrow> PageIndexElem \<Rightarrow> nat \<Rightarrow> nat \<Rightarrow> bool" where
  "attempted env e a0 a \<longleftrightarrow> (\<forall>b. a0 \<le> b \<and> b \<le> a \<longrightarrow> contextOpen env b)
     \<and> (\<forall>b. a0 \<le> b \<and> b < a \<longrightarrow> retryableFailure env e b)"

lemma attempted_here: "attempted env e a a \<longleftrightarrow> contextOpen env a"
  by (auto simp: attempted_def dest: le_antisym)

lemma attempted_later:
  assumes "a > a0"
  shows "attempted env e a0 a \<longleftrightarrow> contextOpen env a0 \<and> retryableFailure env e a0 \<and> attempted env e (Suc a0) a"
proof -
  have "a0 \<le> b \<and> b \<le> a \<longleftrightarrow> b = a0 \<or> Suc a0 \<le> b \<and> b \<le> a" "a0 \<le> b \<and> b < a \<longleftrightarrow> b = a0 \<or> Suc a0 \<le> b \<and> b < a" for b
    using assms by auto
  note range = this
  show ?thesis unfolding attempted_def range by blast
qed

lemma ex_split: "(\<exists>a. a0 \<le> a \<and> a < a0 + Suc n \<and> P a) \<longleftrightarrow> P a0 \<or> (\<exists>a. Suc a0 \<le> a \<and> a < Suc a0 + n \<and> P a)"
proof -
  have "a0 \<le> a \<and> a < a0 + Suc n \<and> P a \<longleftrightarrow> a = a0 \<and> P a \<or> Suc a0 \<le> a \<and> a < Suc a0 + n \<and> P a" for a
    by auto
  note range = this
  show ?thesis unfolding range by blast
qed

lemma fetchAttempts_success:
  "fetchAttempts env psize pg e a0 n = Inr d \<longleftrightarrow>
     (\<exists>a. a0 \<le> a \<and> a < a0 + n \<and> attempted env e a0 a
        \<and> fetchPage env e a = Inr (pg, d) \<and> word_of_nat (length d) = psize)"
proof (induction n arbitrary: a0)
  case (Suc n)
  have step: "fetchAttempts env psize pg e a0 (Suc n) = Inr d \<longleftrightarrow> contextOpen env a0 \<and>
      (fetchPage env e a0 = Inr (pg, d) \<and> word_of_nat (length d) = psize
       \<or> retryableFailure env e a0 \<and> fetchAttempts env psize pg e (Suc a0) n = Inr d)"
    by (auto simp: contextOpen_def retryableFailure_def split: sum.splits)
  have later: "Suc a0 \<le> a \<and> a < Suc a0 + n \<and> attempted env e a0 a \<and> Q \<longleftrightarrow> (contextOpen env a0 \<and> retryableFailure env e a0)
      \<and> (Suc a0 \<le> a \<and> a < Suc a0 + n \<and> attempted env e (Suc a0) a \<and> Q)" for Q a
    using attempted_later [of a0 a env e] by auto
  show ?case unfolding step ex_split Suc.IH attempted_here later by blast
qed simp

lemma fetchAttempts_busy:
  "fetchAttempts env psize pg e a0 n = Inl RBusy \<longleftrightarrow>
     (\<forall>b. a0 \<le> b \<and> b < a0 + n \<longrightarrow> contextOpen env b \<and> retryableFailure env e b)"
proof (induction n arbitrary: a0)
  case (Suc n)
  have step: "fetchAttempts env psize pg e a0 (Suc n) = Inl RBusy \<longleftrightarrow> contextOpen env a0 \<and>
      retryableFailure env e a0 \<and> fetchAttempts env psize pg e (Suc a0) n = Inl RBusy"
    by (auto simp: contextOpen_def retryableFailure_def split: sum.splits)
  show ?case unfolding step Suc.IH
    using ex_split [of a0 n "\<lambda>b. \<not> (contextOpen env b \<and> retryableFailure env e b)"] by blast
qed auto

text \<open>
  A page fetch makes at most three attempts: it succeeds exactly when one of them returns
  the page asked for with the right size after only retryable failures, and it reports BUSY
  exactly when all three fail in a retryable way.
\<close>

theorem fetch_retry_outcome:
  "(fetchPageWithRetry env psize pg e = Inr d \<longleftrightarrow>
      (\<exists>a. a < 3 \<and> attempted env e 0 a \<and> fetchPage env e a = Inr (pg, d) \<and> word_of_nat (length d) = psize))
   \<and> (fetchPageWithRetry env psize pg e = Inl RBusy \<longleftrightarrow>
      attempted env e 0 2 \<and> retryableFailure env e 2)"
proof -
  have "(\<forall>b. 0 \<le> b \<and> b < 0 + 3 \<longrightarrow> contextOpen env b \<and> retryableFailure env e b) \<longleftrightarrow>
      attempted env e 0 2 \<and> retryableFailure env e 2"
    unfolding attempted_def by (auto simp: less_Suc_eq_le numeral_3_eq_3 numeral_2_eq_2 le_Suc_eq)
  then show ?thesis unfolding fetchPageWithRetry_def pageFetchMaxAttempts_def fetchAttempts_busy fetchAttempts_success
    by simp
qed

subsection \<open>Isolation of a reader\<close>

text \<open>The lock never goes above SHARED, and an update is held back only while it is SHARED.\<close>

definition lock_ok :: "replicaFile \<Rightarrow> bool" where
  "lock_ok f \<longleftrightarrow> rf_lock f \<in> {LOCK_NONE, LOCK_SHARED} \<and> (rf_pending f = None \<or> rf_lock f = LOCK_SHARED)"

lemma lockNum_shared: "lockNum LOCK_SHARED \<le> lockNum l \<longleftrightarrow> l \<noteq> LOCK_NONE"
  by (cases l) simp_all

lemma stage_lock [simp]: "rf_lock (stageUpdateLocked u f) = rf_lock f"
  by (auto simp: stageUpdateLocked_def mergePendingLocked_def applyUpdateLocked_def Let_def split: option.split)

lemma pageCommit_frame [simp]:
  "rf_lock (snd (pageCommit env pg g e d f)) = rf_lock f"
  "rf_pending (snd (pageCommit env pg g e d f)) = rf_pending f"
  by (auto simp: pageCommit_def split: option.split)

lemma apply_frame [simp]:
  "rf_lock (applyUpdateLocked u f) = rf_lock f" "rf_pending (applyUpdateLocked u f) = rf_pending f"
  by (auto simp: applyUpdateLocked_def Let_def)

lemma apply_visible [simp]:
  "rf_commit (applyUpdateLocked u f) = up_commit u" "rf_pos (applyUpdateLocked u f) = up_pos u"
  "rf_maxTXID1 (applyUpdateLocked u f) = up_maxTXID1 u"
  by (auto simp: applyUpdateLocked_def Let_def)

lemma lock_ok_act: "lock_ok f \<Longrightarrow> lock_ok (rf_act env a f)"
proof (cases a)
  case (Stage u)
  assume "lock_ok f"
  then show ?thesis using Stage
    by (auto simp: lock_ok_def stageUpdateLocked_def mergePendingLocked_def split: option.split)
next
  case (ALock l)
  assume "lock_ok f"
  then show ?thesis using ALock by (cases l) (auto simp: lock_ok_def rf_Lock_def)
next
  case (AUnlock l)
  assume "lock_ok f"
  then show ?thesis using AUnlock by (auto simp: lock_ok_def rf_Unlock_def Let_def split: option.split)
qed (simp add: lock_ok_def)

lemma shared_act:
  assumes "rf_lock f = LOCK_SHARED" "a \<noteq> AUnlock LOCK_NONE"
  shows "rf_lock (rf_act env a f) = LOCK_SHARED \<and> evolves 0 f (rf_act env a f)"
proof (cases a)
  case (Stage u)
  then show ?thesis using assms
    by (auto simp: stageUpdateLocked_def mergePendingLocked_def evolves_def split: option.split)
next
  case (ALock l)
  then show ?thesis using assms by (cases l) (auto simp: rf_Lock_def evolves_def)
next
  case (AUnlock l)
  then show ?thesis using assms by (auto simp: rf_Unlock_def Let_def evolves_def split: option.split)
next
  case (ACache g pg e d)
  then show ?thesis using assms by (auto simp: pageCommit_def evolves_def split: option.split)
qed

text \<open>
  While a connection holds the SHARED lock, nothing that happens to the file short of its
  release (polls, further lock requests, downgrades to SHARED, other readers filling the page
  cache) changes the snapshot it reads: the page index, the size and the generation stay. A
  request for a stronger lock does not change the lock.
\<close>

theorem shared_lock_isolation:
  assumes "rf_lock f = LOCK_SHARED" "AUnlock LOCK_NONE \<notin> set as"
  shows "rf_index (interfere env as f) = rf_index f \<and> rf_commit (interfere env as f) = rf_commit f
    \<and> visibleGeneration (interfere env as f) = visibleGeneration f \<and> rf_lock (interfere env as f) = LOCK_SHARED"
proof -
  have "rf_lock (interfere env as f) = LOCK_SHARED \<and> evolves 0 f (interfere env as f)"
    using assms
  proof (induction as arbitrary: f)
    case (Cons a as)
    have s: "rf_lock (rf_act env a f) = LOCK_SHARED" "evolves 0 f (rf_act env a f)"
      using shared_act [of f a env] Cons.prems by auto
    then have "rf_lock (interfere env as (rf_act env a f)) = LOCK_SHARED \<and> evolves 0 (rf_act env a f) (interfere env as (rf_act env a f))"
      using Cons by simp
    then show ?case using evolves_trans [OF s(2)] by (fastforce simp: interfere_def)
  qed (simp add: interfere_def)
  then show ?thesis by (simp add: evolves_def)
qed

theorem shared_lock_isolation_witness:
  "rf_index (interfere replica_env0 [Stage replica_update, ALock LOCK_EXCLUSIVE] replica_file) = rf_index replica_file
   \<and> rf_lock replica_file = LOCK_SHARED"
  using shared_lock_isolation [of replica_file "[Stage replica_update, ALock LOCK_EXCLUSIVE]" replica_env0]
  by (simp add: replica_file_def)

text \<open>
  The lock protocol of a read-only file: from a file that is not locked, no sequence of
  operations takes a lock above SHARED, an update is held back only while the lock is SHARED, and
  the outcome of a lock request is decided by the level alone (write locks are refused with
  READONLY, giving up SHARED through Lock is an error).
\<close>

theorem lock_protocol:
  assumes "lock_ok f"
  shows "lock_ok (interfere env as f)
    \<and> fst (rf_Lock l (interfere env as f)) =
        (case l of
           LOCK_NONE \<Rightarrow> if rf_lock (interfere env as f) = LOCK_SHARED then Some RInvalidDowngrade else None
         | LOCK_SHARED \<Rightarrow> None
         | _ \<Rightarrow> Some RReadOnly)
    \<and> (rf_pending (interfere env as f) = None \<or> rf_lock (interfere env as f) = LOCK_SHARED)"
proof -
  have "lock_ok (interfere env as f)"
    using assms unfolding interfere_def by (induction as arbitrary: f) (simp_all add: lock_ok_act)
  then show ?thesis by (auto simp: lock_ok_def rf_Lock_def split: LockLevel.split)
qed

theorem lock_protocol_witness:
  "lock_ok replica_file \<and> lock_ok (interfere replica_env0 [Stage replica_update, AUnlock LOCK_NONE] replica_file)"
proof -
  have "lock_ok replica_file" by (simp add: lock_ok_def replica_file_def)
  from this lock_protocol [OF this] show ?thesis by blast
qed

subsection \<open>Updates held back\<close>

text \<open>What a reader can see: the pages up to the size of the database, and the position.\<close>

definition view :: "replicaFile \<Rightarrow> (pgno \<Rightarrow> PageIndexElem option) \<times> 32 word \<times> Pos \<times> txid" where
  "view f = (\<lambda>pg. if pg \<le> rf_commit f then mget (rf_index f) pg else None, rf_commit f, rf_pos f, rf_maxTXID1 f)"

text \<open>
  Updates that describe transactions on a database of \<open>c\<close> pages: an update that is not a whole
  snapshot has every page by which the database grows. (The pages of an update are a map.)
\<close>

fun growing :: "32 word \<Rightarrow> replicaUpdate list \<Rightarrow> bool" where
  "growing c [] = True"
| "growing c (u # us) = (mwf (up_index u)
     \<and> (up_replace u \<or> (\<forall>pg. c < pg \<and> pg \<le> up_commit u \<longrightarrow> mget (up_index u) pg \<noteq> None))
     \<and> growing (up_commit u) us)"

lemma mget_copyInto_map: "mwf kvs \<Longrightarrow> mget (copyInto m kvs) k = (case mget kvs k of Some v \<Rightarrow> Some v | None \<Rightarrow> mget m k)"
  using map_of_inject_set [of "rev kvs" kvs] by (simp add: mget_copyInto rev_map [symmetric])

text \<open>The file with its pending update applied.\<close>

definition released :: "replicaFile \<Rightarrow> replicaFile" where
  "released f = (case rf_pending f of None \<Rightarrow> f | Some p \<Rightarrow> applyUpdateLocked p f)"

definition pending_wf :: "replicaFile \<Rightarrow> bool" where
  "pending_wf f = (case rf_pending f of None \<Rightarrow> True | Some p \<Rightarrow> mwf (up_index p))"

lemma view_apply:
  assumes "mwf (up_index u)"
  shows "view (applyUpdateLocked u f) =
    (\<lambda>pg. if pg \<le> up_commit u then
        (if up_replace u then mget (up_index u) pg
         else case mget (up_index u) pg of Some v \<Rightarrow> Some v | None \<Rightarrow> mget (rf_index f) pg) else None,
     up_commit u, up_pos u, up_maxTXID1 u)"
  using assms by (auto simp: view_def applyUpdateLocked_def Let_def mget_copyInto_map mget_filter_key not_less)

lemma view_eq:
  "view f = view g \<longleftrightarrow> rf_commit f = rf_commit g \<and> rf_pos f = rf_pos g \<and> rf_maxTXID1 f = rf_maxTXID1 g
     \<and> (\<forall>pg \<le> rf_commit g. mget (rf_index f) pg = mget (rf_index g) pg)"
  unfolding view_def by (simp only: prod.inject fun_eq_iff) metis

lemma view_commit: "view f = view g \<Longrightarrow> rf_commit f = rf_commit g"
  by (simp add: view_eq)

lemma released_pending:
  assumes "rf_pending f = Some p"
  shows "rf_commit (released f) = up_commit p" "rf_pos (released f) = up_pos p" "rf_maxTXID1 (released f) = up_maxTXID1 p"
  using assms by (simp_all add: released_def)

definition noop :: "replicaUpdate \<Rightarrow> replicaFile \<Rightarrow> bool" where
  "noop u f \<longleftrightarrow> \<not> up_replace u \<and> up_index u = []
     \<and> up_pos u = rf_pos f \<and> up_commit u = rf_commit f \<and> up_maxTXID1 u = rf_maxTXID1 f"

lemma stage_direct:
  "rf_pending f = None \<Longrightarrow> rf_lock f = LOCK_NONE \<Longrightarrow>
     stageUpdateLocked u f = (if noop u f then f else applyUpdateLocked u f)"
  by (auto simp: stageUpdateLocked_def noop_def)

lemma stage_deferred:
  "rf_lock f = LOCK_SHARED \<Longrightarrow> stageUpdateLocked u f = (if noop u (released f) then f else mergePendingLocked u f)"
  by (cases "rf_pending f") (auto simp: stageUpdateLocked_def noop_def released_pending released_def)

lemma merge_view:
  assumes wf: "pending_wf f" "mwf (up_index u)" and same: "view (released f) = view g"
    and grow: "up_replace u \<or> (\<forall>pg. rf_commit g < pg \<and> pg \<le> up_commit u \<longrightarrow> mget (up_index u) pg \<noteq> None)"
  shows "pending_wf (mergePendingLocked u f) \<and> view (released (mergePendingLocked u f)) = view (applyUpdateLocked u g)"
proof -
  have old: "mget (rf_index (released f)) pg = mget (rf_index g) pg"
    if "\<not> up_replace u" "pg \<le> up_commit u" "mget (up_index u) pg = None" for pg
    using that grow same unfolding view_eq by (metis not_less)
  show ?thesis
  proof (cases "up_replace u \<or> rf_pending f = None")
    case True
    then show ?thesis using wf(2) old
      by (auto simp: mergePendingLocked_def pending_wf_def released_def view_apply fun_eq_iff split: option.splits)
  next
    case False
    then obtain p where p: "rf_pending f = Some p" "\<not> up_replace u" by auto
    define p' where "p' = p\<lparr>up_index := copyInto (up_index p) (up_index u), up_commit := up_commit u,
        up_pos := up_pos u, up_maxTXID1 := up_maxTXID1 u\<rparr>"
    have m: "mergePendingLocked u f = f\<lparr>rf_pending := Some p'\<rparr>" using p by (simp add: mergePendingLocked_def p'_def)
    have wf': "mwf (up_index p)" "mwf (up_index p')" using wf(1) p(1) by (simp_all add: pending_wf_def p'_def mwf_copyInto)
    have "mget (rf_index (released f)) pg =
        (if up_replace p then mget (up_index p) pg else case mget (up_index p) pg of Some v \<Rightarrow> Some v | None \<Rightarrow> mget (rf_index f) pg)"
      if "pg \<le> up_commit u" "mget (up_index u) pg = None" for pg
    proof -
      have "\<not> rf_commit g < pg" using grow that p(2) by blast
      then have "pg \<le> up_commit p" using view_commit [OF same] released_pending(1) [OF p(1)] by simp
      then show ?thesis using p(1) wf'(1)
        by (simp add: released_def applyUpdateLocked_def Let_def mget_copyInto_map mget_filter_key not_less split: option.split)
    qed
    then have "view (applyUpdateLocked p' (f\<lparr>rf_pending := Some p'\<rparr>)) = view (applyUpdateLocked u g)"
      using old p(2) wf(2) wf'
      by (auto simp: view_apply p'_def mget_copyInto_map fun_eq_iff split: option.splits)
    then show ?thesis using wf'(2) by (simp add: m pending_wf_def released_def)
  qed
qed

lemma stage_simulation:
  assumes "rf_lock f = LOCK_SHARED" "rf_lock g = LOCK_NONE" "rf_pending g = None" "pending_wf f"
    "view (released f) = view g" "growing (rf_commit g) us"
  shows "rf_lock (fold stageUpdateLocked us f) = LOCK_SHARED
    \<and> view (released (fold stageUpdateLocked us f)) = view (fold stageUpdateLocked us g)"
  using assms
proof (induction us arbitrary: f g)
  case (Cons u us)
  have wf: "mwf (up_index u)" using Cons.prems(6) by simp
  have grow: "up_replace u \<or> (\<forall>pg. rf_commit g < pg \<and> pg \<le> up_commit u \<longrightarrow> mget (up_index u) pg \<noteq> None)"
    using Cons.prems(6) unfolding growing.simps by blast
  have noop: "noop u (released f) \<longleftrightarrow> noop u g" using Cons.prems(5) by (auto simp: noop_def view_eq)
  have s: "pending_wf (stageUpdateLocked u f) \<and> view (released (stageUpdateLocked u f)) = view (stageUpdateLocked u g)"
    using stage_deferred [OF Cons.prems(1), of u] stage_direct [OF Cons.prems(3,2), of u] noop Cons.prems(4,5)
      merge_view [OF Cons.prems(4) wf Cons.prems(5) grow] by simp
  have g: "rf_pending (stageUpdateLocked u g) = None" "rf_commit (stageUpdateLocked u g) = up_commit u"
    using stage_direct [OF Cons.prems(3,2), of u] Cons.prems(3)
    by (auto simp: noop_def)
  show ?case using Cons.IH [of "stageUpdateLocked u f" "stageUpdateLocked u g"] Cons.prems(1,2,6) s g by simp
qed simp

text \<open>
  C33. Updates that arrive while a reader holds the SHARED lock are held back, and its release
  makes them visible together: afterwards readers see exactly the database, size and position
  they would see had every update been applied when it arrived.
\<close>

theorem held_back_updates_published:
  assumes "rf_lock f = LOCK_SHARED" "rf_pending f = None" "growing (rf_commit f) us"
  shows "view (snd (rf_Unlock LOCK_NONE (fold stageUpdateLocked us f))) =
         view (fold stageUpdateLocked us (f\<lparr>rf_lock := LOCK_NONE\<rparr>))
    \<and> rf_pending (snd (rf_Unlock LOCK_NONE (fold stageUpdateLocked us f))) = None"
proof -
  let ?fs = "fold stageUpdateLocked us f"
  have "view (released ?fs) = view (fold stageUpdateLocked us (f\<lparr>rf_lock := LOCK_NONE\<rparr>))"
  proof (rule conjunct2 [OF stage_simulation])
    show "view (released f) = view (f\<lparr>rf_lock := LOCK_NONE\<rparr>)" using assms(2) by (simp add: released_def view_eq)
  qed (use assms in \<open>simp_all add: pending_wf_def\<close>)
  moreover have "view (snd (rf_Unlock LOCK_NONE ?fs)) = view (released ?fs)"
    by (auto simp: rf_Unlock_def released_def view_def applyUpdateLocked_def Let_def split: option.split)
  moreover have "rf_pending (snd (rf_Unlock LOCK_NONE ?fs)) = None"
    by (auto simp: rf_Unlock_def Let_def split: option.split)
  ultimately show ?thesis by simp
qed

definition replica_rebuild :: replicaUpdate where
  "replica_rebuild = \<lparr>up_index = [(1, replica_elem 8 3), (2, replica_elem 9 3)], up_replace = True, up_commit = 1,
     up_pos = \<lparr>TXID = 3, PostApplyChecksum = 0\<rparr>, up_maxTXID1 = 0\<rparr>"

theorem held_back_updates_published_witness:
  "view (snd (rf_Unlock LOCK_NONE (fold stageUpdateLocked [replica_update, replica_rebuild] replica_file))) =
     view (fold stageUpdateLocked [replica_update, replica_rebuild] (replica_file\<lparr>rf_lock := LOCK_NONE\<rparr>))"
proof (rule conjunct1 [OF held_back_updates_published])
  show "growing (rf_commit replica_file) [replica_update, replica_rebuild]"
    by (simp add: replica_file_def replica_update_def replica_rebuild_def not_le)
qed (simp_all add: replica_file_def)

end
