(* ===== verification/Replica_Poller.thy ===== *)
theory Replica_Poller
  imports Replica_Staging
begin

text \<open>
  Opening a replica file and following the replica
  (\<^verbatim>\<open>cmd/litestream-vfs-wrapper/replica_file.go\<close>: \<open>openReplicaFile\<close>, \<open>detectPageSize\<close>,
  \<open>buildSnapshot\<close>; \<^verbatim>\<open>replica_poller.go\<close>: everything but the staging of updates, which
  is in \<open>Replica_File\<close>), and the VFS that opens the files (\<^verbatim>\<open>vfs.go\<close>,
  \<^verbatim>\<open>temp_file.go\<close>).

  The replica client is a package outside the repository: a record of what its calls answer.
  A poll talks to the client in four phases (level 0, level 1, the search for a superseding
  snapshot, the restore plan), and each has a client of its own, since the replica may change
  between them.
\<close>

subsection \<open>The replica client\<close>

record FileInfo =
  fi_Level :: int
  fi_MinTXID :: txid
  fi_MaxTXID :: txid
  fi_Pos :: Pos

record LTXHeader =
  hdr_PageSize :: "32 word"
  hdr_Commit :: "32 word"
  hdr_MinTXID :: txid
  hdr_MaxTXID :: txid

text \<open>An iterator over files: its items, its error after \<open>n\<close> of them, what closing it answers.\<close>

record ltx_iterator =
  it_items :: "FileInfo list"
  it_err :: "nat \<Rightarrow> string option"
  it_close :: "string option"

record ReplicaClient =
  LTXFiles :: "int \<Rightarrow> txid \<Rightarrow> string + ltx_iterator"
  FetchPageIndex :: "FileInfo \<Rightarrow> string + page_index"
  FetchLTXHeader :: "FileInfo \<Rightarrow> string + LTXHeader"
  CalcRestorePlan :: "string + FileInfo list"

subsection \<open>Building a snapshot\<close>

fun detectPageSizeLoop :: "ReplicaClient \<Rightarrow> string option \<Rightarrow> FileInfo list \<Rightarrow> poll_error + 32 word" where
  "detectPageSizeLoop c lastErr [] = (case lastErr of Some e \<Rightarrow> Inl (PFetchHeader e) | None \<Rightarrow> Inl PNoLtxFile)"
| "detectPageSizeLoop c lastErr (info # infos) =
     (case FetchLTXHeader c info of
        Inl e \<Rightarrow> detectPageSizeLoop c (Some e) infos
      | Inr hdr \<Rightarrow>
          if \<not> isSupportedPageSize (hdr_PageSize hdr) then Inl (PUnsupportedPageSize (hdr_PageSize hdr))
          else Inr (hdr_PageSize hdr))"

definition detectPageSize :: "ReplicaClient \<Rightarrow> FileInfo list \<Rightarrow> poll_error + 32 word" where
  "detectPageSize c infos = detectPageSizeLoop c None (rev infos)"

text \<open>Fetching the index and the header of a file and checking them, as both loops do.\<close>

definition fetchFile :: "ReplicaClient \<Rightarrow> 32 word \<Rightarrow> FileInfo \<Rightarrow> poll_error + page_index \<times> LTXHeader" where
  "fetchFile c psize info =
     (case FetchPageIndex c info of
        Inl e \<Rightarrow> Inl (PFetchPageIndex e)
      | Inr idx \<Rightarrow>
          (case FetchLTXHeader c info of
             Inl e \<Rightarrow> Inl (PFetchHeader e)
           | Inr hdr \<Rightarrow>
               if hdr_PageSize hdr \<noteq> psize then Inl (PPageSizeMismatch psize (hdr_PageSize hdr))
               else if hdr_MinTXID hdr \<noteq> fi_MinTXID info \<or> hdr_MaxTXID hdr \<noteq> fi_MaxTXID info
               then Inl (PTxidRangeMismatch (fi_MinTXID info) (fi_MaxTXID info) (hdr_MinTXID hdr) (hdr_MaxTXID hdr))
               else Inr (idx, hdr)))"

fun buildSnapshotLoop :: "ReplicaClient \<Rightarrow> 32 word \<Rightarrow> replicaSnapshot \<Rightarrow> FileInfo list \<Rightarrow> poll_error + replicaSnapshot" where
  "buildSnapshotLoop c psize s [] = Inr s"
| "buildSnapshotLoop c psize s (info # infos) =
     (case fetchFile c psize info of
        Inl e \<Rightarrow> Inl e
      | Inr (idx, hdr) \<Rightarrow>
          buildSnapshotLoop c psize
            (s\<lparr>sn_index := copyInto (sn_index s) idx, sn_commit := hdr_Commit hdr,
               sn_pos := (if fi_MaxTXID info > TXID (sn_pos s) then fi_Pos info else sn_pos s),
               sn_maxTXID1 := (if fi_Level info = 1 \<and> fi_MaxTXID info > sn_maxTXID1 s then fi_MaxTXID info
                               else sn_maxTXID1 s)\<rparr>) infos)"

definition emptySnapshot :: replicaSnapshot where
  "emptySnapshot = \<lparr>sn_index = [], sn_commit = 0, sn_pos = \<lparr>TXID = 0, PostApplyChecksum = 0\<rparr>, sn_maxTXID1 = 0\<rparr>"

definition buildSnapshot :: "ReplicaClient \<Rightarrow> FileInfo list \<Rightarrow> 32 word \<Rightarrow> poll_error + replicaSnapshot" where
  "buildSnapshot c infos psize = buildSnapshotLoop c psize emptySnapshot infos"

definition rebuildLatest :: "ReplicaClient \<Rightarrow> 32 word \<Rightarrow> poll_error + replicaUpdate" where
  "rebuildLatest c psize =
     (case CalcRestorePlan c of
        Inl e \<Rightarrow> Inl (PRestorePlan e)
      | Inr infos \<Rightarrow>
          if infos = [] then Inl PRestorePlanEmpty
          else
            case buildSnapshot c infos psize of
              Inl e \<Rightarrow> Inl e
            | Inr s \<Rightarrow> Inr \<lparr>up_index = sn_index s, up_replace = True, up_commit = sn_commit s,
                            up_pos = sn_pos s, up_maxTXID1 = sn_maxTXID1 s\<rparr>)"

subsection \<open>Opening\<close>

definition DefaultCacheSize :: int where
  "DefaultCacheSize = 10 * 1024 * 1024"

text \<open>\<open>openReplicaFile\<close> answers the file and the number of pages its cache holds;
  \<open>newCache\<close> is what creating the LRU cache answers.\<close>

definition openReplicaFile ::
    "ReplicaClient \<Rightarrow> (int \<Rightarrow> string option) \<Rightarrow> int \<Rightarrow> poll_error + replicaFile \<times> int" where
  "openReplicaFile c newCache cacheSize0 =
     (let cacheSize = (if cacheSize0 \<le> 0 then DefaultCacheSize else cacheSize0) in
      case CalcRestorePlan c of
        Inl e \<Rightarrow> Inl (PRestorePlan e)
      | Inr infos \<Rightarrow>
          if infos = [] then Inl PRestorePlanEmpty
          else
            case detectPageSize c infos of
              Inl e \<Rightarrow> Inl e
            | Inr psize \<Rightarrow>
                (let entries = max (cacheSize div uint psize) 1 in
                 case newCache entries of
                   Some e \<Rightarrow> Inl (PCreateCache e)
                 | None \<Rightarrow>
                     (case buildSnapshot c infos psize of
                        Inl e \<Rightarrow> Inl e
                      | Inr s \<Rightarrow> Inr (\<lparr>pageSize = psize, rf_commit = sn_commit s, rf_index = sn_index s,
                          rf_pos = sn_pos s, rf_maxTXID1 = sn_maxTXID1 s, pollPos = sn_pos s,
                          pollMaxTXID1 = sn_maxTXID1 s, pollCommit = sn_commit s,
                          lastPollSuccess = None, lastPollErr = None, rf_pending = None,
                          visibleGeneration = 0, rf_cache = [], rf_lock = LOCK_NONE\<rparr>, entries))))"

subsection \<open>Polling one level\<close>

record pollLevelResult =
  pl_maxTXID :: txid
  pl_index :: page_index
  pl_commit :: "32 word"
  pl_gapAt :: txid
  pl_replace :: bool
  pl_fromRoot :: bool

definition takeFile :: "FileInfo \<Rightarrow> page_index \<Rightarrow> LTXHeader \<Rightarrow> pollLevelResult \<Rightarrow> pollLevelResult" where
  "takeFile info idx hdr r =
     (let r1 = (if hdr_Commit hdr < pl_commit r \<or> hdr_MinTXID hdr = 1
                then r\<lparr>pl_replace := True, pl_fromRoot := (hdr_MinTXID hdr = 1), pl_index := []\<rparr> else r)
      in r1\<lparr>pl_commit := hdr_Commit hdr, pl_index := copyInto (pl_index r1) idx, pl_maxTXID := fi_MaxTXID info\<rparr>)"

text \<open>The loop over the iterator, \<open>n\<close> items of which are read; then the error of the iterator.\<close>

fun pollLevelLoop ::
    "ReplicaClient \<Rightarrow> 32 word \<Rightarrow> int \<Rightarrow> (nat \<Rightarrow> string option) \<Rightarrow> nat \<Rightarrow> pollLevelResult \<Rightarrow> FileInfo list
      \<Rightarrow> poll_error + pollLevelResult" where
  "pollLevelLoop c psize level err n r [] = (case err n of Some e \<Rightarrow> Inl (PIterate e) | None \<Rightarrow> Inr r)"
| "pollLevelLoop c psize level err n r (info # infos) =
     (if fi_MinTXID info \<noteq> pl_maxTXID r + 1 then
        if level = 0 \<and> fi_MinTXID info > pl_maxTXID r + 1
        then (case err (Suc n) of Some e \<Rightarrow> Inl (PIterate e) | None \<Rightarrow> Inr (r\<lparr>pl_gapAt := fi_MinTXID info\<rparr>))
        else Inl (PNonContiguous level (pl_maxTXID r) (fi_MinTXID info) (fi_MaxTXID info))
      else
        case fetchFile c psize info of
          Inl e \<Rightarrow> Inl e
        | Inr (idx, hdr) \<Rightarrow> pollLevelLoop c psize level err (Suc n) (takeFile info idx hdr r) infos)"

definition pollLevel :: "ReplicaClient \<Rightarrow> 32 word \<Rightarrow> int \<Rightarrow> txid \<Rightarrow> 32 word \<Rightarrow> poll_error + pollLevelResult" where
  "pollLevel c psize level previous baseCommit =
     (let r0 = \<lparr>pl_maxTXID = previous, pl_index = [], pl_commit = baseCommit, pl_gapAt = 0,
                pl_replace = False, pl_fromRoot = False\<rparr>
      in case LTXFiles c level (previous + 1) of
           Inl e \<Rightarrow> Inl (PLtxFiles e)
         | Inr itr \<Rightarrow>
             (case pollLevelLoop c psize level (it_err itr) 0 r0 (it_items itr) of
                Inl e \<Rightarrow> Inl e
              | Inr r \<Rightarrow> (case it_close itr of Some e \<Rightarrow> Inl (PCloseIterator e) | None \<Rightarrow> Inr r)))"

subsection \<open>Combining the levels\<close>

text \<open>The pages of level 1 that are not older than the page of level 0 they replace.\<close>

fun mergeIndex :: "page_index \<Rightarrow> page_index \<Rightarrow> page_index" where
  "mergeIndex index [] = index"
| "mergeIndex index ((pg, elem) # rest) =
     mergeIndex (case mget index pg of
                   Some existing \<Rightarrow> if el_MaxTXID elem \<ge> el_MaxTXID existing then mput index pg elem else index
                 | None \<Rightarrow> mput index pg elem) rest"

definition mergePollLevelResults ::
    "Pos \<Rightarrow> txid \<Rightarrow> 32 word \<Rightarrow> pollLevelResult \<Rightarrow> pollLevelResult \<Rightarrow> replicaUpdate" where
  "mergePollLevelResults pos0 max1 commit0 l0 l1 =
     (let index = mergeIndex (pl_index l0) (pl_index l1);
          commit = (if pl_maxTXID l0 \<ge> pl_maxTXID l1 \<and> (pl_maxTXID l0 > TXID pos0 \<or> pl_index l0 \<noteq> [])
                    then pl_commit l0
                    else if pl_maxTXID l1 > max1 \<or> pl_index l1 \<noteq> [] then pl_commit l1
                    else commit0);
          pos1 = (if pl_maxTXID l0 > TXID pos0 then pos0\<lparr>TXID := pl_maxTXID l0\<rparr> else pos0);
          pos2 = (if pl_maxTXID l1 > TXID pos1 then pos1\<lparr>TXID := pl_maxTXID l1\<rparr> else pos1)
      in \<lparr>up_index = index, up_replace = False, up_commit = commit, up_pos = pos2, up_maxTXID1 = pl_maxTXID l1\<rparr>)"

definition isNoopPollUpdate :: "Pos \<Rightarrow> txid \<Rightarrow> 32 word \<Rightarrow> replicaUpdate \<Rightarrow> bool" where
  "isNoopPollUpdate pos0 max1 commit0 u \<longleftrightarrow> \<not> up_replace u \<and> up_index u = [] \<and> up_pos u = pos0
     \<and> up_maxTXID1 u = max1 \<and> up_commit u = commit0"

definition isProvablyCompleteSnapshot :: "pollLevelResult \<Rightarrow> pollLevelResult \<Rightarrow> bool" where
  "isProvablyCompleteSnapshot l0 l1 =
     (if pl_replace l1 then pl_fromRoot l1 else if pl_replace l0 then pl_fromRoot l0 else False)"

fun supersedingLoop :: "ReplicaClient \<Rightarrow> txid \<Rightarrow> int list \<Rightarrow> poll_error + bool" where
  "supersedingLoop c t [] = Inr False"
| "supersedingLoop c t (level # levels) =
     (case LTXFiles c level 1 of
        Inl e \<Rightarrow> Inl (PLtxFiles e)
      | Inr itr \<Rightarrow>
          if list_ex (\<lambda>info. fi_MinTXID info = 1 \<and> fi_MaxTXID info > t) (it_items itr)
          then (case it_close itr of Some e \<Rightarrow> Inl (PCloseIterator e) | None \<Rightarrow> Inr True)
          else
            case it_err itr (length (it_items itr)) of
              Some e \<Rightarrow> Inl (PIterate e)
            | None \<Rightarrow> (case it_close itr of Some e \<Rightarrow> Inl (PCloseIterator e) | None \<Rightarrow> supersedingLoop c t levels))"

definition hasSupersedingSnapshot :: "ReplicaClient \<Rightarrow> txid \<Rightarrow> poll_error + bool" where
  "hasSupersedingSnapshot c t = supersedingLoop c t [0, 1]"

subsection \<open>A poll\<close>

text \<open>The client in the four phases of a poll.\<close>

record poll_clients =
  cl_l0 :: ReplicaClient
  cl_l1 :: ReplicaClient
  cl_super :: ReplicaClient
  cl_plan :: ReplicaClient

text \<open>The gap of level 0 is closed by level 1.\<close>

definition gapBridged :: "pollLevelResult \<Rightarrow> pollLevelResult \<Rightarrow> bool" where
  "gapBridged l0 l1 \<longleftrightarrow> pl_gapAt l0 \<noteq> 0 \<and> pl_maxTXID l1 + 1 \<ge> pl_gapAt l0"

definition safeBridgedReplace :: "pollLevelResult \<Rightarrow> pollLevelResult \<Rightarrow> bool" where
  "safeBridgedReplace l0 l1 \<longleftrightarrow>
     gapBridged l0 l1 \<and> (pl_replace l0 \<or> pl_replace l1) \<and> isProvablyCompleteSnapshot l0 l1"

definition needRebuild :: "pollLevelResult \<Rightarrow> pollLevelResult \<Rightarrow> bool" where
  "needRebuild l0 l1 \<longleftrightarrow> (pl_gapAt l0 \<noteq> 0 \<and> \<not> gapBridged l0 l1)
     \<or> ((pl_replace l0 \<or> pl_replace l1) \<and> \<not> safeBridgedReplace l0 l1)"

text \<open>The update of a poll after both levels succeeded.\<close>

definition pollUpdate ::
    "poll_clients \<Rightarrow> 32 word \<Rightarrow> Pos \<Rightarrow> txid \<Rightarrow> 32 word \<Rightarrow> pollLevelResult \<Rightarrow> pollLevelResult \<Rightarrow> poll_error + replicaUpdate" where
  "pollUpdate cs psize pos0 max1 commit0 l0 l1 =
     (if needRebuild l0 l1 then rebuildLatest (cl_plan cs) psize
      else
        let u0 = mergePollLevelResults pos0 max1 commit0 l0 l1;
            u = (if safeBridgedReplace l0 l1 then u0\<lparr>up_replace := True\<rparr> else u0)
        in if isNoopPollUpdate pos0 max1 commit0 u
           then (case hasSupersedingSnapshot (cl_super cs) (TXID pos0) of
                   Inl e \<Rightarrow> Inl e
                 | Inr superseded \<Rightarrow> if superseded then rebuildLatest (cl_plan cs) psize else Inr u)
           else Inr u)"

text \<open>What a poll fetches from the cursors: the update, or the error it records and the error it
  returns.\<close>

definition pollFetch :: "poll_clients \<Rightarrow> replicaFile \<Rightarrow> poll_error \<times> poll_error + replicaUpdate" where
  "pollFetch cs f =
     (case pollLevel (cl_l0 cs) (pageSize f) 0 (TXID (pollPos f)) (pollCommit f) of
        Inl e \<Rightarrow> Inl (e, PPollL0 e)
      | Inr l0 \<Rightarrow>
          (case pollLevel (cl_l1 cs) (pageSize f) 1 (pollMaxTXID1 f) (pl_commit l0) of
             Inl e \<Rightarrow> Inl (e, PPollL1 e)
           | Inr l1 \<Rightarrow>
               (case pollUpdate cs (pageSize f) (pollPos f) (pollMaxTXID1 f) (pollCommit f) l0 l1 of
                  Inl e \<Rightarrow> Inl (e, e)
                | Inr u \<Rightarrow> Inr u)))"

definition recordPollFailure :: "poll_error \<Rightarrow> replicaFile \<Rightarrow> replicaFile" where
  "recordPollFailure e f = f\<lparr>lastPollErr := Some e\<rparr>"

definition finishPoll :: "int \<Rightarrow> replicaUpdate \<Rightarrow> replicaFile \<Rightarrow> replicaFile" where
  "finishPoll now u f =
     (stageUpdateLocked u (f\<lparr>pollPos := up_pos u, pollMaxTXID1 := up_maxTXID1 u, pollCommit := up_commit u\<rparr>))
       \<lparr>lastPollSuccess := Some now, lastPollErr := None\<rparr>"

text \<open>A poll; \<open>during\<close> is what readers do between its two locked sections.\<close>

definition pollReplicaClient ::
    "replica_env \<Rightarrow> poll_clients \<Rightarrow> rf_action list \<Rightarrow> int \<Rightarrow> replicaFile \<Rightarrow> poll_error option \<times> replicaFile" where
  "pollReplicaClient env cs during now f =
     (let f1 = interfere env during f in
      case pollFetch cs f of
        Inl (recorded, returned) \<Rightarrow> (Some returned, recordPollFailure recorded f1)
      | Inr u \<Rightarrow> (None, finishPoll now u f1))"

text \<open>The polling goroutine: a poll at every tick until the context is done.\<close>

fun monitorReplicaClient :: "replica_env \<Rightarrow> (poll_clients \<times> rf_action list \<times> int) list \<Rightarrow> replicaFile \<Rightarrow> replicaFile" where
  "monitorReplicaClient env [] f = f"
| "monitorReplicaClient env ((cs, during, now) # ticks) f =
     monitorReplicaClient env ticks (snd (pollReplicaClient env cs during now f))"

end
