(* ===== verification/Replica_History.thy ===== *)
theory Replica_History
  imports Replica_Poller
begin

text \<open>
  That the replica file follows the database it replicates. The database is a history: its pages
  and its size after every transaction. An LTX file holds the pages its range of transactions
  wrote, as they are at the end of the range. A poll whose update becomes visible takes the file
  from the database after one transaction to the database after a later one, unless a compaction
  of level 1 that ends before the visible position arrives alone, in which case it takes pages
  back (the last theorem).
\<close>

subsection \<open>Histories and files\<close>

record history =
  hi_page :: "nat \<Rightarrow> pgno \<Rightarrow> bytes option"
  hi_size :: "nat \<Rightarrow> 32 word"

definition history_ok :: "history \<Rightarrow> bool" where
  "history_ok h \<longleftrightarrow> (\<forall>pg. hi_page h 0 pg = None) \<and> (\<forall>t pg d. hi_page h t pg = Some d \<longrightarrow> pg \<le> hi_size h t)"

text \<open>What the client promises of a file it answers, index and header included.\<close>

definition ltx_ok :: "(PageIndexElem \<Rightarrow> bytes) \<Rightarrow> history \<Rightarrow> FileInfo \<Rightarrow> page_index \<Rightarrow> LTXHeader \<Rightarrow> bool" where
  "ltx_ok content h info idx hdr \<longleftrightarrow>
     (let lo = unat (fi_MinTXID info); hi = unat (fi_MaxTXID info) in
      0 < lo \<and> lo \<le> hi \<and> hi + 1 < 2 ^ 64 \<and> mwf idx \<and> hdr_Commit hdr = hi_size h hi \<and> TXID (fi_Pos info) = fi_MaxTXID info
      \<and> (\<forall>pg e. mget idx pg = Some e \<longrightarrow> el_MaxTXID e = fi_MaxTXID info \<and> hi_page h hi pg = Some (content e))
      \<and> (\<forall>pg d t. mget idx pg = None \<longrightarrow> hi_page h hi pg = Some d \<longrightarrow> lo - 1 \<le> t \<longrightarrow> t \<le> hi
            \<longrightarrow> hi_page h t pg = Some d))"

definition client_ok :: "(PageIndexElem \<Rightarrow> bytes) \<Rightarrow> history \<Rightarrow> ReplicaClient \<Rightarrow> bool" where
  "client_ok content h c \<longleftrightarrow>
     (\<forall>info idx hdr. FetchPageIndex c info = Inr idx \<longrightarrow> FetchLTXHeader c info = Inr hdr \<longrightarrow> ltx_ok content h info idx hdr)"

text \<open>A restore plan reaches from the first transaction to its last without a hole.\<close>

fun plan_ok :: "txid \<Rightarrow> FileInfo list \<Rightarrow> bool" where
  "plan_ok t [] = True"
| "plan_ok t (info # infos) =
     (unat (fi_MinTXID info) \<le> unat t + 1 \<and> t \<le> fi_MaxTXID info \<and> plan_ok (fi_MaxTXID info) infos)"

subsection \<open>Indexes that cover a range of transactions\<close>

text \<open>
  \<open>covers content h idx s m\<close>: with \<open>idx\<close> on top of the database after \<open>s\<close> one has the database
  after \<open>m\<close>. Moreover an entry is right from its own transaction on, and a page without an
  entry has been the same since \<open>s\<close>.
\<close>

definition covers :: "(PageIndexElem \<Rightarrow> bytes) \<Rightarrow> history \<Rightarrow> page_index \<Rightarrow> nat \<Rightarrow> nat \<Rightarrow> bool" where
  "covers content h idx s m \<longleftrightarrow>
     (\<forall>pg e. mget idx pg = Some e \<longrightarrow> unat (el_MaxTXID e) \<le> m)
     \<and> (\<forall>pg d e t. hi_page h m pg = Some d \<longrightarrow> mget idx pg = Some e \<longrightarrow>
          d = content e \<and> (unat (el_MaxTXID e) \<le> t \<longrightarrow> t \<le> m \<longrightarrow> hi_page h t pg = Some d))
     \<and> (\<forall>pg d t. hi_page h m pg = Some d \<longrightarrow> mget idx pg = None \<longrightarrow> s \<le> t \<longrightarrow> t \<le> m \<longrightarrow> hi_page h t pg = Some d)"

lemma covers_bound: "covers content h idx s m \<Longrightarrow> mget idx pg = Some e \<Longrightarrow> unat (el_MaxTXID e) \<le> m"
  unfolding covers_def by blast

lemma covers_entry:
  assumes "covers content h idx s m" "hi_page h m pg = Some d" "mget idx pg = Some e"
  shows "d = content e" "unat (el_MaxTXID e) \<le> t \<Longrightarrow> t \<le> m \<Longrightarrow> hi_page h t pg = Some d"
  using assms unfolding covers_def by blast+

lemma covers_absent:
  assumes "covers content h idx s m" "hi_page h m pg = Some d" "mget idx pg = None" "s \<le> t" "t \<le> m"
  shows "hi_page h t pg = Some d"
  using assms unfolding covers_def by blast

lemma coversI:
  assumes "\<And>pg e. mget idx pg = Some e \<Longrightarrow> unat (el_MaxTXID e) \<le> m"
    and "\<And>pg d e. hi_page h m pg = Some d \<Longrightarrow> mget idx pg = Some e \<Longrightarrow> d = content e"
    and "\<And>pg d e t. hi_page h m pg = Some d \<Longrightarrow> mget idx pg = Some e \<Longrightarrow> unat (el_MaxTXID e) \<le> t \<Longrightarrow> t \<le> m \<Longrightarrow>
      hi_page h t pg = Some d"
    and "\<And>pg d t. hi_page h m pg = Some d \<Longrightarrow> mget idx pg = None \<Longrightarrow> s \<le> t \<Longrightarrow> t \<le> m \<Longrightarrow> hi_page h t pg = Some d"
  shows "covers content h idx s m"
  unfolding covers_def by (intro conjI allI impI) (fact assms)+

lemma covers_empty: "covers content h [] s s"
  by (rule coversI) (auto dest: le_antisym)

text \<open>One more file.\<close>

lemma covers_file:
  assumes cov: "covers content h idx s m" and ok: "ltx_ok content h info fidx hdr"
    and lo: "unat (fi_MinTXID info) \<le> m + 1" and hi: "m \<le> unat (fi_MaxTXID info)"
  shows "covers content h (copyInto idx fidx) s (unat (fi_MaxTXID info))"
proof -
  let ?M = "unat (fi_MaxTXID info)"
  have wf: "mwf fidx" using ok by (simp add: ltx_ok_def Let_def)
  have entry: "el_MaxTXID e = fi_MaxTXID info" "hi_page h ?M pg = Some (content e)" if "mget fidx pg = Some e" for pg e
    using ok that unfolding ltx_ok_def Let_def by blast+
  have same: "hi_page h t pg = Some d" if "mget fidx pg = None" "hi_page h ?M pg = Some d" "m \<le> t" "t \<le> ?M" for pg d t
  proof -
    have "unat (fi_MinTXID info) - 1 \<le> t" using lo that(3) by linarith
    then show ?thesis using ok that unfolding ltx_ok_def Let_def by blast
  qed
  have get: "mget (copyInto idx fidx) pg = Some e \<Longrightarrow> mget fidx pg = Some e \<or> mget fidx pg = None \<and> mget idx pg = Some e"
    "mget (copyInto idx fidx) pg = None \<Longrightarrow> mget fidx pg = None \<and> mget idx pg = None" for pg e
    using wf by (auto simp: mget_copyInto_map split: option.splits)
  show ?thesis
  proof (rule coversI)
    fix pg e
    assume "mget (copyInto idx fidx) pg = Some e"
    from get(1) [OF this] show "unat (el_MaxTXID e) \<le> ?M"
      using entry(1) [of pg e] covers_bound [OF cov, of pg e] hi by auto
  next
    fix pg d e
    assume d: "hi_page h ?M pg = Some d" and e: "mget (copyInto idx fidx) pg = Some e"
    from get(1) [OF e] show "d = content e"
      using entry(2) [of pg e] d same [of pg d m] covers_entry(1) [OF cov, of pg d e] hi by auto
  next
    fix pg d e t
    assume d: "hi_page h ?M pg = Some d" and e: "mget (copyInto idx fidx) pg = Some e"
      and t: "unat (el_MaxTXID e) \<le> t" "t \<le> ?M"
    from get(1) [OF e] show "hi_page h t pg = Some d"
    proof (elim disjE conjE)
      assume "mget fidx pg = Some e"
      then have "t = ?M" using entry(1) t by simp
      then show ?thesis using d by simp
    next
      assume n: "mget fidx pg = None" "mget idx pg = Some e"
      have dm: "hi_page h m pg = Some d" using same [OF n(1) d] hi by blast
      show ?thesis using same [OF n(1) d, of t] covers_entry(2) [OF cov dm n(2) t(1)] t(2)
        by (cases "t \<le> m") simp_all
    qed
  next
    fix pg d t
    assume d: "hi_page h ?M pg = Some d" and e: "mget (copyInto idx fidx) pg = None" and t: "s \<le> t" "t \<le> ?M"
    from get(2) [OF e] have n: "mget fidx pg = None" "mget idx pg = None" by simp_all
    have dm: "hi_page h m pg = Some d" using same [OF n(1) d] hi by blast
    show "hi_page h t pg = Some d"
      using same [OF n(1) d, of t] covers_absent [OF cov dm n(2) t(1)] t(2)
      by (cases "t \<le> m") simp_all
  qed
qed

subsection \<open>Two levels together\<close>

lemma mget_mergeIndex:
  "mwf i1 \<Longrightarrow> mget (mergeIndex i0 i1) pg =
     (case mget i1 pg of
        None \<Rightarrow> mget i0 pg
      | Some e1 \<Rightarrow> (case mget i0 pg of
          None \<Rightarrow> Some e1
        | Some e0 \<Rightarrow> if el_MaxTXID e1 \<ge> el_MaxTXID e0 then Some e1 else Some e0))"
proof (induction i0 i1 rule: mergeIndex.induct)
  case (2 index pg' elem rest)
  have "pg' = pg \<Longrightarrow> mget rest pg = None" using 2(2) by (auto simp: map_of_eq_None_iff)
  then show ?case using 2 by (auto split: option.split)
qed simp

lemma mwf_mergeIndex: "mwf i0 \<Longrightarrow> mwf (mergeIndex i0 i1)"
  by (induction i0 i1 rule: mergeIndex.induct) (auto split: option.split)

lemma covers_merge:
  assumes c0: "covers content h i0 s0 m0" and c1: "covers content h i1 s1 m1" and wf: "mwf i1"
    and s: "s1 \<le> s0" "s0 \<le> m0" and fresh: "s0 \<le> m1 \<or> i1 = [] \<and> m1 \<le> m0"
  shows "covers content h (mergeIndex i0 i1) s0 (max m0 m1)"
proof (rule coversI)
  fix pg e
  assume "mget (mergeIndex i0 i1) pg = Some e"
  then show "unat (el_MaxTXID e) \<le> max m0 m1"
    using covers_bound [OF c0, of pg e] covers_bound [OF c1, of pg e] wf
    by (auto simp: mget_mergeIndex split: option.splits if_splits)
next
  fix pg d t
  assume d: "hi_page h (max m0 m1) pg = Some d" and n: "mget (mergeIndex i0 i1) pg = None" and t: "s0 \<le> t" "t \<le> max m0 m1"
  have n: "mget i0 pg = None" "mget i1 pg = None" using n wf by (auto simp: mget_mergeIndex split: option.splits if_splits)
  show "hi_page h t pg = Some d"
  proof (cases "m0 \<le> m1")
    case True
    then show ?thesis using covers_absent [OF c1 _ n(2), of d t] d t s by (simp add: max_def)
  next
    case False
    then show ?thesis using covers_absent [OF c0 _ n(1), of d t] d t by (simp add: max_def)
  qed
next
  have both: "d = content e \<and> (unat (el_MaxTXID e) \<le> t \<longrightarrow> t \<le> max m0 m1 \<longrightarrow> hi_page h t pg = Some d)"
    if d: "hi_page h (max m0 m1) pg = Some d" and e: "mget (mergeIndex i0 i1) pg = Some e" for pg d e t
  proof (cases "mget i1 pg = Some e \<and> (\<forall>e0. mget i0 pg = Some e0 \<longrightarrow> el_MaxTXID e0 \<le> el_MaxTXID e)")
    case True
    show ?thesis
    proof (cases "m0 \<le> m1")
      case m: True
      then show ?thesis using covers_entry [OF c1 _ conjunct1 [OF True], of d] d by (simp add: max_def)
    next
      case m: False
      have d0: "hi_page h m0 pg = Some d" using d m by (simp add: max_def)
      have "i1 \<noteq> []" using True by auto
      then have "s0 \<le> m1" using fresh by simp
      have b: "unat (el_MaxTXID e) \<le> m1" by (rule covers_bound [OF c1 conjunct1 [OF True]])
      have up: "hi_page h x pg = Some d" if "m1 \<le> x" "x \<le> m0" for x
      proof (cases "mget i0 pg")
        case None
        then show ?thesis using covers_absent [OF c0 d0 None] that \<open>s0 \<le> m1\<close> by simp
      next
        case (Some e0)
        then have "unat (el_MaxTXID e0) \<le> unat (el_MaxTXID e)" using True by (simp add: word_le_nat_alt)
        then show ?thesis using covers_entry(2) [OF c0 d0 Some] that b by simp
      qed
      have "hi_page h m1 pg = Some d" using up [of m1] m by simp
      note c = covers_entry [OF c1 this conjunct1 [OF True]]
      show ?thesis using c(1) c(2) [of t] up [of t] m by (cases "t \<le> m1") (auto simp: max_def)
    qed
  next
    case False
    then have e0: "mget i0 pg = Some e" and e1: "\<And>x. mget i1 pg = Some x \<Longrightarrow> el_MaxTXID x < el_MaxTXID e"
      using e wf by (auto simp: mget_mergeIndex split: option.splits if_splits)
    show ?thesis
    proof (cases "m0 \<le> m1")
      case m: False
      then show ?thesis using covers_entry [OF c0 _ e0, of d] d by (simp add: max_def)
    next
      case m: True
      have d1: "hi_page h m1 pg = Some d" using d m by (simp add: max_def)
      have b: "unat (el_MaxTXID e) \<le> m0" by (rule covers_bound [OF c0 e0])
      have up: "hi_page h x pg = Some d" if "m0 \<le> x" "x \<le> m1" for x
      proof (cases "mget i1 pg")
        case None
        then show ?thesis using covers_absent [OF c1 d1 None] that s by simp
      next
        case (Some e')
        then have "unat (el_MaxTXID e') < unat (el_MaxTXID e)" using e1 by (simp add: word_less_nat_alt)
        then show ?thesis using covers_entry(2) [OF c1 d1 Some] that b by simp
      qed
      have "hi_page h m0 pg = Some d" using up [of m0] m by simp
      note c = covers_entry [OF c0 this e0]
      show ?thesis using c(1) c(2) [of t] up [of t] m by (cases "t \<le> m0") (auto simp: max_def)
    qed
  qed
  show "\<And>pg d e. hi_page h (max m0 m1) pg = Some d \<Longrightarrow> mget (mergeIndex i0 i1) pg = Some e \<Longrightarrow> d = content e"
    "\<And>pg d e t. hi_page h (max m0 m1) pg = Some d \<Longrightarrow> mget (mergeIndex i0 i1) pg = Some e \<Longrightarrow>
      unat (el_MaxTXID e) \<le> t \<Longrightarrow> t \<le> max m0 m1 \<Longrightarrow> hi_page h t pg = Some d"
    using both by blast+
qed

subsection \<open>What a level answers\<close>

definition level_ok ::
    "(PageIndexElem \<Rightarrow> bytes) \<Rightarrow> history \<Rightarrow> txid \<Rightarrow> 32 word \<Rightarrow> pollLevelResult \<Rightarrow> bool" where
  "level_ok content h prev base r \<longleftrightarrow>
     mwf (pl_index r) \<and> prev \<le> pl_maxTXID r \<and> unat (pl_maxTXID r) + 1 < 2 ^ 64
     \<and> (pl_gapAt r = 0 \<or> pl_maxTXID r + 1 < pl_gapAt r)
     \<and> (pl_maxTXID r = prev \<and> pl_index r = [] \<and> pl_commit r = base \<and> \<not> pl_replace r
        \<or> prev < pl_maxTXID r \<and> pl_commit r = hi_size h (unat (pl_maxTXID r)))
     \<and> (\<exists>s \<le> unat (pl_maxTXID r). covers content h (pl_index r) s (unat (pl_maxTXID r))
          \<and> (\<not> pl_replace r \<longrightarrow> s = unat prev) \<and> (pl_replace r \<longrightarrow> pl_fromRoot r \<longrightarrow> s = 0))"

lemma fetchFile_ok:
  assumes "client_ok content h c" "fetchFile c psize info = Inr (idx, hdr)"
  shows "ltx_ok content h info idx hdr" "hdr_MinTXID hdr = fi_MinTXID info"
  using assms by (auto simp: fetchFile_def client_ok_def split: sum.splits if_splits)

lemma unat_succ: "unat (t :: 64 word) + 1 < 2 ^ 64 \<Longrightarrow> unat (t + 1) = unat t + 1"
  by (simp add: unat_word_ariths unat_of_nat)

lemma ltx_bounds:
  assumes "ltx_ok content h info idx hdr"
  shows "mwf idx" "0 < unat (fi_MinTXID info)" "unat (fi_MinTXID info) \<le> unat (fi_MaxTXID info)"
    "unat (fi_MaxTXID info) + 1 < 2 ^ 64" "hdr_Commit hdr = hi_size h (unat (fi_MaxTXID info))"
    "TXID (fi_Pos info) = fi_MaxTXID info"
  using assms by (simp_all add: ltx_ok_def Let_def)

lemma takeFile_ok:
  assumes r: "level_ok content h prev base r" and ok: "ltx_ok content h info idx hdr"
    and min: "fi_MinTXID info = pl_maxTXID r + 1" "hdr_MinTXID hdr = fi_MinTXID info" and gap: "pl_gapAt r = 0"
  shows "level_ok content h prev base (takeFile info idx hdr r)"
proof -
  let ?m = "unat (pl_maxTXID r)" and ?M = "unat (fi_MaxTXID info)"
  note b = ltx_bounds [OF ok]
  have m: "?m + 1 < 2 ^ 64" "prev \<le> pl_maxTXID r" using r by (simp_all add: level_ok_def)
  have lo: "unat (fi_MinTXID info) = ?m + 1" unfolding min(1) by (rule unat_succ [OF m(1)])
  have hi: "?m < ?M" using lo b(3) by simp
  have lt: "prev < fi_MaxTXID info" using m(2) hi by (simp add: word_less_nat_alt word_le_nat_alt)
  obtain s where s: "s \<le> ?m" "covers content h (pl_index r) s ?m" "\<not> pl_replace r \<longrightarrow> s = unat prev"
    "pl_replace r \<longrightarrow> pl_fromRoot r \<longrightarrow> s = 0" using r unfolding level_ok_def by blast
  have cov: "covers content h (copyInto (pl_index r) idx) s ?M"
    using covers_file [OF s(2) ok] lo hi by simp
  have reset: "covers content h (copyInto [] idx) ?m ?M"
    using covers_file [OF covers_empty ok] lo hi by simp
  have root: "?m = 0" if "hdr_MinTXID hdr = 1" using that lo min(2) by simp
  show ?thesis
  proof (cases "hdr_Commit hdr < pl_commit r \<or> hdr_MinTXID hdr = 1")
    case True
    then show ?thesis using reset root b lt hi gap
      by (auto simp: level_ok_def takeFile_def Let_def mwf_copyInto less_imp_le intro!: exI [of _ ?m])
  next
    case False
    then show ?thesis using cov s b lt hi gap r
      by (auto simp: level_ok_def takeFile_def Let_def mwf_copyInto less_imp_le intro!: exI [of _ s])
  qed
qed

lemma takeFile_gap [simp]: "pl_gapAt (takeFile info idx hdr r) = pl_gapAt r"
  by (simp add: takeFile_def Let_def)

lemma pollLevelLoop_ok:
  assumes c: "client_ok content h c"
  shows "pollLevelLoop c psize level err n r infos = Inr r' \<Longrightarrow> level_ok content h prev base r \<Longrightarrow> pl_gapAt r = 0 \<Longrightarrow>
    level_ok content h prev base r'"
proof (induction infos arbitrary: n r)
  case (Cons info infos)
  show ?case
  proof (cases "fi_MinTXID info = pl_maxTXID r + 1")
    case False
    then have "pl_maxTXID r + 1 < fi_MinTXID info" "r' = r\<lparr>pl_gapAt := fi_MinTXID info\<rparr>"
      using Cons.prems(1) by (auto split: if_splits option.splits)
    then show ?thesis using Cons.prems(2) by (simp add: level_ok_def)
  next
    case True
    then obtain idx hdr where f: "fetchFile c psize info = Inr (idx, hdr)"
      and rest: "pollLevelLoop c psize level err (Suc n) (takeFile info idx hdr r) infos = Inr r'"
      using Cons.prems(1) by (auto split: sum.splits)
    note ok = fetchFile_ok [OF c f]
    show ?thesis using Cons.IH [OF rest takeFile_ok [OF Cons.prems(2) ok(1) True ok(2) Cons.prems(3)]] Cons.prems(3) by simp
  qed
qed (auto split: option.splits)

lemma pollLevel_ok:
  assumes "client_ok content h c" "pollLevel c psize level prev base = Inr r" "unat prev + 1 < 2 ^ 64"
  shows "level_ok content h prev base r"
proof -
  let ?r0 = "\<lparr>pl_maxTXID = prev, pl_index = [], pl_commit = base, pl_gapAt = 0, pl_replace = False, pl_fromRoot = False\<rparr>"
  have "level_ok content h prev base ?r0" using assms(3) by (auto simp: level_ok_def covers_empty)
  moreover obtain itr :: ltx_iterator where "pollLevelLoop c psize level (it_err itr) 0 ?r0 (it_items itr) = Inr r"
    using assms(2) by (auto simp: pollLevel_def Let_def split: sum.splits option.splits)
  ultimately show ?thesis using pollLevelLoop_ok [OF assms(1)] by simp
qed

subsection \<open>What a rebuilt snapshot answers\<close>

definition snapshot_ok :: "(PageIndexElem \<Rightarrow> bytes) \<Rightarrow> history \<Rightarrow> replicaSnapshot \<Rightarrow> bool" where
  "snapshot_ok content h s \<longleftrightarrow> (let t = TXID (sn_pos s) in
     mwf (sn_index s) \<and> covers content h (sn_index s) 0 (unat t) \<and> sn_maxTXID1 s \<le> t \<and> unat t + 1 < 2 ^ 64
     \<and> (t \<noteq> 0 \<longrightarrow> sn_commit s = hi_size h (unat t)))"

lemma buildSnapshotLoop_ok:
  assumes c: "client_ok content h c"
  shows "buildSnapshotLoop c psize s infos = Inr s' \<Longrightarrow> snapshot_ok content h s \<Longrightarrow> plan_ok (TXID (sn_pos s)) infos \<Longrightarrow>
    snapshot_ok content h s' \<and> TXID (sn_pos s) \<le> TXID (sn_pos s') \<and> (infos \<noteq> [] \<longrightarrow> TXID (sn_pos s') \<noteq> 0)"
proof (induction infos arbitrary: s)
  case (Cons info infos)
  let ?t = "TXID (sn_pos s)" and ?M = "fi_MaxTXID info"
  obtain idx hdr where f: "fetchFile c psize info = Inr (idx, hdr)"
    using Cons.prems(1) by (auto split: sum.splits)
  define s1 where "s1 = s\<lparr>sn_index := copyInto (sn_index s) idx, sn_commit := hdr_Commit hdr,
      sn_pos := (if ?M > ?t then fi_Pos info else sn_pos s),
      sn_maxTXID1 := (if fi_Level info = 1 \<and> ?M > sn_maxTXID1 s then ?M else sn_maxTXID1 s)\<rparr>"
  have rest: "buildSnapshotLoop c psize s1 infos = Inr s'" using Cons.prems(1) f by (simp add: s1_def)
  note ok = fetchFile_ok(1) [OF c f] and b = ltx_bounds [OF fetchFile_ok(1) [OF c f]]
  have p: "unat (fi_MinTXID info) \<le> unat ?t + 1" "?t \<le> ?M" "plan_ok ?M infos" using Cons.prems(3) by simp_all
  have pos: "TXID (sn_pos s1) = ?M" using p(2) b(6) by (auto simp: s1_def)
  have cov: "covers content h (copyInto (sn_index s) idx) 0 (unat ?M)"
    using Cons.prems(2) p(1,2) by (intro covers_file [OF _ ok]) (auto simp: snapshot_ok_def Let_def word_le_nat_alt)
  have "sn_maxTXID1 s1 \<le> ?M" using Cons.prems(2) p(2) by (auto simp: s1_def snapshot_ok_def Let_def)
  moreover have "mwf (sn_index s1)" "covers content h (sn_index s1) 0 (unat ?M)" "sn_commit s1 = hi_size h (unat ?M)"
    using Cons.prems(2) cov b(5) by (simp_all add: s1_def snapshot_ok_def Let_def mwf_copyInto)
  ultimately have s1: "snapshot_ok content h s1" using b(4) unfolding snapshot_ok_def Let_def pos by simp
  have "?M \<noteq> 0" using b(2,3) by (metis le_zero_eq less_irrefl unat_0)
  then show ?case using Cons.IH [OF rest s1] p pos by auto
qed simp

text \<open>
  An update that takes the database from after transaction \<open>t\<close> to after the transaction of its
  position, or is a whole snapshot of it.
\<close>

definition update_ok :: "(PageIndexElem \<Rightarrow> bytes) \<Rightarrow> history \<Rightarrow> nat \<Rightarrow> replicaUpdate \<Rightarrow> bool" where
  "update_ok content h t u \<longleftrightarrow> (let t' = unat (TXID (up_pos u)) in
     mwf (up_index u) \<and> covers content h (up_index u) (if up_replace u then 0 else t) t'
     \<and> up_commit u = hi_size h t' \<and> (\<not> up_replace u \<longrightarrow> t \<le> t') \<and> up_maxTXID1 u \<le> TXID (up_pos u) \<and> t' + 1 < 2 ^ 64)"

lemma rebuildLatest_ok:
  assumes "client_ok content h c" "\<And>infos. CalcRestorePlan c = Inr infos \<Longrightarrow> plan_ok 0 infos"
    "rebuildLatest c psize = Inr u"
  shows "update_ok content h t u"
proof -
  obtain infos s where i: "CalcRestorePlan c = Inr infos" "infos \<noteq> []" "buildSnapshot c infos psize = Inr s"
    and u: "u = \<lparr>up_index = sn_index s, up_replace = True, up_commit = sn_commit s, up_pos = sn_pos s, up_maxTXID1 = sn_maxTXID1 s\<rparr>"
    using assms(3) by (auto simp: rebuildLatest_def split: sum.splits if_splits)
  have "snapshot_ok content h emptySnapshot"
    using covers_empty [of content h 0] by (simp add: snapshot_ok_def emptySnapshot_def)
  then have "snapshot_ok content h s \<and> TXID (sn_pos s) \<noteq> 0"
    using buildSnapshotLoop_ok [OF assms(1) i(3) [unfolded buildSnapshot_def]] assms(2) [OF i(1)] i(2)
    by (simp add: emptySnapshot_def)
  then show ?thesis by (simp add: u update_ok_def snapshot_ok_def Let_def)
qed

subsection \<open>What the combination of two levels answers\<close>

text \<open>Level 1 does not lag behind the position: it is past it, or has nothing new.\<close>

definition l1_current :: "Pos \<Rightarrow> txid \<Rightarrow> pollLevelResult \<Rightarrow> bool" where
  "l1_current pos0 max1 l1 \<longleftrightarrow> TXID pos0 \<le> pl_maxTXID l1 \<or> pl_index l1 = [] \<and> pl_maxTXID l1 = max1"

definition top_txid :: "pollLevelResult \<Rightarrow> pollLevelResult \<Rightarrow> txid" where
  "top_txid l0 l1 = max (pl_maxTXID l0) (pl_maxTXID l1)"

lemma unat_max: "unat (max a b :: 'a :: len word) = max (unat a) (unat b)"
  by (simp add: max_def word_le_nat_alt)

lemma merge_pos:
  assumes "level_ok content h (TXID pos0) commit0 l0"
  shows "TXID (up_pos (mergePollLevelResults pos0 max1 commit0 l0 l1)) = top_txid l0 l1"
  using assms by (auto simp: mergePollLevelResults_def Let_def top_txid_def level_ok_def max_def)

lemma merge_commit:
  assumes l0: "level_ok content h (TXID pos0) commit0 l0" and l1: "level_ok content h max1 (pl_commit l0) l1"
    and commit0: "commit0 = hi_size h (unat (TXID pos0))" and max1: "max1 \<le> TXID pos0" and cur: "l1_current pos0 max1 l1"
  shows "up_commit (mergePollLevelResults pos0 max1 commit0 l0 l1) = hi_size h (unat (top_txid l0 l1))"
proof -
  let ?a = "pl_maxTXID l0" and ?b = "pl_maxTXID l1"
  have c0: "pl_commit l0 = hi_size h (unat ?a)" and a: "TXID pos0 \<le> ?a"
    and none0: "?a = TXID pos0 \<or> TXID pos0 < ?a" using l0 commit0 by (auto simp: level_ok_def)
  have c1: "?b = max1 \<and> pl_index l1 = [] \<or> max1 < ?b \<and> pl_commit l1 = hi_size h (unat ?b)"
    using l1 by (auto simp: level_ok_def)
  show ?thesis
  proof (cases "?b \<le> ?a")
    case True
    then have top: "top_txid l0 l1 = ?a" by (simp add: top_txid_def max_def)
    show ?thesis
    proof (cases "TXID pos0 < ?a \<or> pl_index l0 \<noteq> []")
      case new: True
      then show ?thesis using True c0 top by (simp add: mergePollLevelResults_def Let_def)
    next
      case new: False
      then have a': "?a = TXID pos0" using none0 by auto
      show ?thesis
      proof (cases "max1 < ?b \<or> pl_index l1 \<noteq> []")
        case False
        then show ?thesis using new a' top commit0 by (simp add: mergePollLevelResults_def Let_def)
      next
        case n1: True
        then have "max1 < ?b \<and> pl_commit l1 = hi_size h (unat ?b)" using c1 by auto
        moreover from this have "?b = ?a" using cur True a' by (auto simp: l1_current_def)
        ultimately show ?thesis using new n1 top by (simp add: mergePollLevelResults_def Let_def)
      qed
    qed
  next
    case False
    then have "max1 < ?b" "top_txid l0 l1 = ?b" using a max1 by (auto simp: top_txid_def max_def)
    then show ?thesis using c1 False by (auto simp: mergePollLevelResults_def Let_def)
  qed
qed

lemma covers_mono: "covers content h idx s m \<Longrightarrow> s \<le> s' \<Longrightarrow> covers content h idx s' m"
  unfolding covers_def by (meson le_trans)

lemma covers_complete:
  assumes "covers content h idx s m" "\<And>pg d. hi_page h m pg = Some d \<Longrightarrow> mget idx pg \<noteq> None"
  shows "covers content h idx 0 m"
proof (rule coversI)
  show "\<And>pg e. mget idx pg = Some e \<Longrightarrow> unat (el_MaxTXID e) \<le> m" by (rule covers_bound [OF assms(1)])
  show "\<And>pg d e. hi_page h m pg = Some d \<Longrightarrow> mget idx pg = Some e \<Longrightarrow> d = content e"
    by (rule covers_entry(1) [OF assms(1)])
  show "\<And>pg d e t. hi_page h m pg = Some d \<Longrightarrow> mget idx pg = Some e \<Longrightarrow> unat (el_MaxTXID e) \<le> t \<Longrightarrow> t \<le> m \<Longrightarrow>
      hi_page h t pg = Some d"
    by (rule covers_entry(2) [OF assms(1)])
  show "\<And>pg d t. hi_page h m pg = Some d \<Longrightarrow> mget idx pg = None \<Longrightarrow> 0 \<le> t \<Longrightarrow> t \<le> m \<Longrightarrow> hi_page h t pg = Some d"
    by (drule assms(2)) (erule notE, assumption)
qed

lemma gapBridged_above:
  assumes "level_ok content h p0 b0 l0" "level_ok content h p1 b1 l1" "gapBridged l0 l1"
  shows "pl_maxTXID l0 < pl_maxTXID l1"
proof -
  have "pl_maxTXID l0 + 1 < pl_gapAt l0" "pl_gapAt l0 \<le> pl_maxTXID l1 + 1"
    using assms by (auto simp: level_ok_def gapBridged_def)
  then have "unat (pl_maxTXID l0 + 1) < unat (pl_maxTXID l1 + 1)" by (simp add: word_less_nat_alt word_le_nat_alt)
  moreover have "unat (pl_maxTXID l0 + 1) = unat (pl_maxTXID l0) + 1" "unat (pl_maxTXID l1 + 1) = unat (pl_maxTXID l1) + 1"
    using assms(1,2) unfolding level_ok_def by (simp_all only: unat_succ)
  ultimately show ?thesis by (simp add: word_less_nat_alt)
qed

text \<open>A bridged gap with a complete snapshot on one level: the combination is complete.\<close>

lemma covers_bridged:
  assumes h: "history_ok h" and l0: "level_ok content h p0 b0 l0" and l1: "level_ok content h p1 b1 l1"
    and le: "p1 \<le> p0" and safe: "safeBridgedReplace l0 l1"
  shows "covers content h (mergeIndex (pl_index l0) (pl_index l1)) 0 (unat (top_txid l0 l1))"
proof -
  let ?m0 = "unat (pl_maxTXID l0)" and ?m1 = "unat (pl_maxTXID l1)"
  have lt: "?m0 < ?m1" using gapBridged_above [OF l0 l1] safe by (simp add: safeBridgedReplace_def word_less_nat_alt)
  have top: "unat (top_txid l0 l1) = max ?m0 ?m1" by (simp add: top_txid_def unat_max)
  have max: "max ?m0 ?m1 = ?m1" using lt by simp
  have wf: "mwf (pl_index l1)" using l1 by (simp add: level_ok_def)
  have p1: "unat p1 \<le> ?m0" using le l0 by (auto simp: level_ok_def word_le_nat_alt)
  obtain s0 where s0: "s0 \<le> ?m0" "covers content h (pl_index l0) s0 ?m0" "pl_replace l0 \<longrightarrow> pl_fromRoot l0 \<longrightarrow> s0 = 0"
    using l0 unfolding level_ok_def by blast
  obtain s1 where s1: "s1 \<le> ?m1" "covers content h (pl_index l1) s1 ?m1" "\<not> pl_replace l1 \<longrightarrow> s1 = unat p1"
    "pl_replace l1 \<longrightarrow> pl_fromRoot l1 \<longrightarrow> s1 = 0" using l1 unfolding level_ok_def by blast
  have zero: "hi_page h 0 pg \<noteq> Some d" for pg d using h by (simp add: history_ok_def)
  have absent: "mget (pl_index l0) pg = None \<and> mget (pl_index l1) pg = None"
    if "mget (mergeIndex (pl_index l0) (pl_index l1)) pg = None" for pg
    using that wf by (auto simp: mget_mergeIndex split: option.splits if_splits)
  show ?thesis
  proof (cases "pl_replace l1")
    case True
    then have z: "s1 = 0" using s1(4) safe by (simp add: safeBridgedReplace_def isProvablyCompleteSnapshot_def)
    have "covers content h (mergeIndex (pl_index l0) (pl_index l1)) s0 (max ?m0 ?m1)"
      using covers_merge [OF s0(2) s1(2) wf] z s0(1) lt by simp
    then show ?thesis unfolding top
    proof (rule covers_complete)
      fix pg d assume "hi_page h (max ?m0 ?m1) pg = Some d"
      then have d: "hi_page h ?m1 pg = Some d" unfolding max .
      show "mget (mergeIndex (pl_index l0) (pl_index l1)) pg \<noteq> None"
      proof
        assume "mget (mergeIndex (pl_index l0) (pl_index l1)) pg = None"
        then have "mget (pl_index l1) pg = None" using absent by simp
        from covers_absent [OF s1(2) d this, of 0] show False using z zero by simp
      qed
    qed
  next
    case False
    then have z: "s0 = 0" "s1 = unat p1"
      using s0(3) s1(3) safe by (auto simp: safeBridgedReplace_def isProvablyCompleteSnapshot_def split: if_splits)
    have "covers content h (mergeIndex (pl_index l0) (pl_index l1)) s1 (max ?m0 ?m1)"
      using covers_merge [OF covers_mono [OF s0(2)] s1(2) wf, of s1] z p1 s1(1) by simp
    then show ?thesis unfolding top
    proof (rule covers_complete)
      fix pg d assume d: "hi_page h (max ?m0 ?m1) pg = Some d"
      show "mget (mergeIndex (pl_index l0) (pl_index l1)) pg \<noteq> None"
      proof
        assume "mget (mergeIndex (pl_index l0) (pl_index l1)) pg = None"
        then have n: "mget (pl_index l0) pg = None" "mget (pl_index l1) pg = None" using absent by simp_all
        have "hi_page h ?m0 pg = Some d"
          using covers_absent [OF s1(2) _ n(2), of d ?m0] d lt p1 z unfolding max by simp
        from covers_absent [OF s0(2) this n(1), of 0] show False using z zero by simp
      qed
    qed
  qed
qed

lemma covers_levels:
  assumes l0: "level_ok content h (TXID pos0) b0 l0" and l1: "level_ok content h max1 b1 l1"
    and le: "max1 \<le> TXID pos0" and cur: "l1_current pos0 max1 l1" and no: "\<not> pl_replace l0" "\<not> pl_replace l1"
  shows "covers content h (mergeIndex (pl_index l0) (pl_index l1)) (unat (TXID pos0)) (unat (top_txid l0 l1))"
proof -
  have "covers content h (pl_index l0) (unat (TXID pos0)) (unat (pl_maxTXID l0))" "TXID pos0 \<le> pl_maxTXID l0"
    "covers content h (pl_index l1) (unat max1) (unat (pl_maxTXID l1))" "mwf (pl_index l1)"
    using l0 l1 no unfolding level_ok_def by auto
  then show ?thesis unfolding top_txid_def unat_max
    using le cur by (intro covers_merge) (auto simp: l1_current_def word_le_nat_alt)
qed

lemma pollUpdate_ok:
  assumes h: "history_ok h" and l0: "level_ok content h (TXID pos0) commit0 l0"
    and l1: "level_ok content h max1 (pl_commit l0) l1"
    and commit0: "commit0 = hi_size h (unat (TXID pos0))" and max1: "max1 \<le> TXID pos0" and cur: "l1_current pos0 max1 l1"
    and plan: "client_ok content h (cl_plan cs)" "\<And>infos. CalcRestorePlan (cl_plan cs) = Inr infos \<Longrightarrow> plan_ok 0 infos"
    and u: "pollUpdate cs psize pos0 max1 commit0 l0 l1 = Inr u"
  shows "update_ok content h (unat (TXID pos0)) u"
proof (cases "rebuildLatest (cl_plan cs) psize = Inr u")
  case True
  show ?thesis by (rule rebuildLatest_ok [OF plan(1) plan(2) True])
next
  case False
  define u0 where "u0 = mergePollLevelResults pos0 max1 commit0 l0 l1"
  have nr: "\<not> needRebuild l0 l1" using u False by (auto simp: pollUpdate_def)
  have ueq: "u = (if safeBridgedReplace l0 l1 then u0\<lparr>up_replace := True\<rparr> else u0)"
    using u False nr by (auto simp: pollUpdate_def u0_def Let_def split: if_splits sum.splits)
  have f: "up_index u0 = mergeIndex (pl_index l0) (pl_index l1)" "\<not> up_replace u0" "up_maxTXID1 u0 = pl_maxTXID l1"
    by (simp_all add: u0_def mergePollLevelResults_def Let_def)
  have pos: "TXID (up_pos u0) = top_txid l0 l1" unfolding u0_def by (rule merge_pos [OF l0])
  have commit: "up_commit u0 = hi_size h (unat (top_txid l0 l1))"
    unfolding u0_def by (rule merge_commit [OF l0 l1 commit0 max1 cur])
  have wf: "mwf (up_index u0)" using l0 by (simp add: f(1) level_ok_def mwf_mergeIndex)
  have "unat (pl_maxTXID l0) + 1 < 2 ^ 64" "unat (pl_maxTXID l1) + 1 < 2 ^ 64" "TXID pos0 \<le> pl_maxTXID l0"
    using l0 l1 unfolding level_ok_def by simp_all
  then have b: "unat (top_txid l0 l1) + 1 < 2 ^ 64" "pl_maxTXID l1 \<le> top_txid l0 l1" "TXID pos0 \<le> top_txid l0 l1"
    unfolding top_txid_def by (simp_all add: unat_max le_max_iff_disj)
  show ?thesis
  proof (cases "safeBridgedReplace l0 l1")
    case True
    then show ?thesis using covers_bridged [OF h l0 l1 max1 True] f pos commit wf b ueq
      by (simp add: update_ok_def Let_def)
  next
    case noSafe: False
    then have "\<not> pl_replace l0" "\<not> pl_replace l1" using nr by (auto simp: needRebuild_def)
    from covers_levels [OF l0 l1 max1 cur this] show ?thesis using noSafe f pos commit wf b ueq
      by (simp add: update_ok_def Let_def word_le_nat_alt)
  qed
qed

subsection \<open>The visible snapshot\<close>

definition represents :: "(PageIndexElem \<Rightarrow> bytes) \<Rightarrow> history \<Rightarrow> replicaFile \<Rightarrow> nat \<Rightarrow> bool" where
  "represents content h f t \<longleftrightarrow> rf_commit f = hi_size h t
     \<and> (\<forall>pg d. hi_page h t pg = Some d \<longrightarrow> (\<exists>e. mget (rf_index f) pg = Some e \<and> content e = d))"

text \<open>Looking up a page after an update was applied, or merged into the pending one.\<close>

lemma lookup_applied:
  assumes "mwf (up_index u)" "pg \<le> up_commit u"
  shows "mget (up_index u) pg = Some e \<Longrightarrow> mget (rf_index (applyUpdateLocked u f)) pg = Some e"
    "mget (up_index u) pg = None \<Longrightarrow> \<not> up_replace u \<Longrightarrow> mget (rf_index (applyUpdateLocked u f)) pg = mget (rf_index f) pg"
  using assms by (auto simp: applyUpdateLocked_def Let_def mget_copyInto_map mget_filter_key not_less)

lemma lookup_merged:
  assumes wf: "mwf (up_index u)" "pending_wf f" and pg: "pg \<le> up_commit u"
  shows "mget (up_index u) pg = Some e \<Longrightarrow> mget (rf_index (released (mergePendingLocked u f))) pg = Some e"
    "mget (up_index u) pg = None \<Longrightarrow> \<not> up_replace u \<Longrightarrow> mget (rf_index (released f)) pg = Some e \<Longrightarrow>
       mget (rf_index (released (mergePendingLocked u f))) pg = Some e"
proof -
  assume e: "mget (up_index u) pg = Some e"
  show "mget (rf_index (released (mergePendingLocked u f))) pg = Some e"
    using lookup_applied(1) [OF _ _ e] wf pg e
    by (auto simp: mergePendingLocked_def released_def pending_wf_def mwf_copyInto mget_copyInto_map
        intro!: lookup_applied(1) split: option.splits)
next
  assume n: "mget (up_index u) pg = None" "\<not> up_replace u" and old: "mget (rf_index (released f)) pg = Some e"
  show "mget (rf_index (released (mergePendingLocked u f))) pg = Some e"
  proof (cases "rf_pending f")
    case None
    then show ?thesis using n wf pg old by (simp add: mergePendingLocked_def released_def lookup_applied)
  next
    case (Some p)
    let ?p = "p\<lparr>up_index := copyInto (up_index p) (up_index u), up_commit := up_commit u,
        up_pos := up_pos u, up_maxTXID1 := up_maxTXID1 u\<rparr>"
    have wfp: "mwf (up_index p)" using wf(2) Some by (simp add: pending_wf_def)
    have get: "mget (up_index ?p) pg = mget (up_index p) pg" using n(1) wf(1) by (simp add: mget_copyInto_map)
    have old': "mget (rf_index (applyUpdateLocked p f)) pg = Some e" using old Some by (simp add: released_def)
    have "mget (rf_index (applyUpdateLocked ?p (f\<lparr>rf_pending := Some ?p\<rparr>))) pg = Some e"
    proof (cases "mget (up_index p) pg")
      case none: None
      then have r: "\<not> up_replace p" "mget (rf_index f) pg = Some e"
        using old' wfp by (auto simp: applyUpdateLocked_def Let_def mget_copyInto_map mget_filter_key split: if_splits)
      then show ?thesis using lookup_applied(2) [of ?p pg] get none pg wfp by (simp add: mwf_copyInto)
    next
      case (Some e')
      then have "e' = e"
        using old' wfp by (auto simp: applyUpdateLocked_def Let_def mget_copyInto_map mget_filter_key split: if_splits)
      then show ?thesis using lookup_applied(1) [of ?p pg e] get Some pg wfp by (simp add: mwf_copyInto)
    qed
    then show ?thesis using Some n(2) by (simp add: mergePendingLocked_def released_def)
  qed
qed

lemma represents_advance:
  assumes h: "history_ok h" and u: "update_ok content h t u" and f: "represents content h f t"
    and commit: "rf_commit g = up_commit u"
    and new: "\<And>pg e. pg \<le> up_commit u \<Longrightarrow> mget (up_index u) pg = Some e \<Longrightarrow> mget (rf_index g) pg = Some e"
    and old: "\<And>pg e. pg \<le> up_commit u \<Longrightarrow> mget (up_index u) pg = None \<Longrightarrow> \<not> up_replace u \<Longrightarrow>
      mget (rf_index f) pg = Some e \<Longrightarrow> mget (rf_index g) pg = Some e"
  shows "represents content h g (unat (TXID (up_pos u)))"
proof -
  let ?t = "unat (TXID (up_pos u))"
  have cov: "covers content h (up_index u) (if up_replace u then 0 else t) ?t" and c: "up_commit u = hi_size h ?t"
    and le: "\<not> up_replace u \<Longrightarrow> t \<le> ?t" using u by (simp_all add: update_ok_def Let_def)
  have "\<exists>e. mget (rf_index g) pg = Some e \<and> content e = d" if d: "hi_page h ?t pg = Some d" for pg d
  proof -
    have pg: "pg \<le> up_commit u" using h d c by (simp add: history_ok_def)
    show ?thesis
    proof (cases "mget (up_index u) pg")
      case (Some e)
      then show ?thesis using new [OF pg Some] covers_entry(1) [OF cov d Some] by simp
    next
      case None
      have "\<not> up_replace u" using covers_absent [OF cov d None, of 0] h by (auto simp: history_ok_def)
      then have "hi_page h t pg = Some d" using covers_absent [OF cov d None, of t] le by simp
      then obtain e where "mget (rf_index f) pg = Some e" "content e = d" using f by (auto simp: represents_def)
      then show ?thesis using old [OF pg None \<open>\<not> up_replace u\<close>] by simp
    qed
  qed
  then show ?thesis using commit c by (simp add: represents_def)
qed

text \<open>The file follows the history: with the pending update, if any, it has the database after the
  transaction of the poll cursor.\<close>

definition tracks :: "(PageIndexElem \<Rightarrow> bytes) \<Rightarrow> history \<Rightarrow> replicaFile \<Rightarrow> bool" where
  "tracks content h f \<longleftrightarrow>
     represents content h (released f) (unat (TXID (pollPos f))) \<and> rf_pos (released f) = pollPos f
     \<and> pollCommit f = hi_size h (unat (TXID (pollPos f))) \<and> pollMaxTXID1 f \<le> TXID (pollPos f)
     \<and> unat (TXID (pollPos f)) + 1 < 2 ^ 64 \<and> pending_wf f \<and> lock_ok f"

fun by_reader :: "rf_action \<Rightarrow> bool" where
  "by_reader (Stage u) = False"
| "by_reader a = True"

lemma released_cong:
  "rf_index f = rf_index g \<Longrightarrow> rf_commit f = rf_commit g \<Longrightarrow> rf_pos f = rf_pos g \<Longrightarrow> rf_pending f = rf_pending g \<Longrightarrow>
     rf_index (released f) = rf_index (released g) \<and> rf_commit (released f) = rf_commit (released g)
     \<and> rf_pos (released f) = rf_pos (released g)"
  by (auto simp: released_def applyUpdateLocked_def Let_def split: option.split)

definition same_released :: "replicaFile \<Rightarrow> replicaFile \<Rightarrow> bool" where
  "same_released f g \<longleftrightarrow> rf_index (released f) = rf_index (released g) \<and> rf_commit (released f) = rf_commit (released g)
     \<and> rf_pos (released f) = rf_pos (released g) \<and> pollPos f = pollPos g \<and> pollCommit f = pollCommit g
     \<and> pollMaxTXID1 f = pollMaxTXID1 g \<and> (pending_wf g \<longrightarrow> pending_wf f) \<and> (lock_ok g \<longrightarrow> lock_ok f) \<and> pageSize f = pageSize g"

lemma tracks_same: "same_released f g \<Longrightarrow> tracks content h g \<Longrightarrow> tracks content h f"
  by (simp add: tracks_def same_released_def represents_def)

lemma reader_same:
  assumes "by_reader a"
  shows "same_released (rf_act env a f) f"
proof (cases a)
  case (Stage u)
  then show ?thesis using assms by simp
next
  case (ALock l)
  have "same_released (snd (rf_Lock l f)) f"
    using released_cong [of "snd (rf_Lock l f)" f] lock_ok_act [of f env a] ALock
    by (auto simp: same_released_def rf_Lock_def pending_wf_def)
  then show ?thesis using ALock by simp
next
  case (AUnlock l)
  have "same_released (snd (rf_Unlock l f)) f"
  proof (cases "rf_pending f = None \<or> l \<noteq> LOCK_NONE")
    case True
    then show ?thesis using released_cong [of "snd (rf_Unlock l f)" f] lock_ok_act [of f env a] AUnlock
      by (auto simp: same_released_def rf_Unlock_def pending_wf_def Let_def split: option.splits)
  next
    case False
    then show ?thesis
      by (auto simp: same_released_def rf_Unlock_def pending_wf_def released_def applyUpdateLocked_def lock_ok_def Let_def)
  qed
  then show ?thesis using AUnlock by simp
next
  case (ACache g pg e d)
  have "rf_index (snd (pageCommit env pg g e d f)) = rf_index f" "rf_commit (snd (pageCommit env pg g e d f)) = rf_commit f"
    "rf_pos (snd (pageCommit env pg g e d f)) = rf_pos f" "pollPos (snd (pageCommit env pg g e d f)) = pollPos f"
    "pollCommit (snd (pageCommit env pg g e d f)) = pollCommit f" "pageSize (snd (pageCommit env pg g e d f)) = pageSize f"
    "pollMaxTXID1 (snd (pageCommit env pg g e d f)) = pollMaxTXID1 f"
    by (auto simp: pageCommit_def split: option.split)
  then show ?thesis using released_cong [of "snd (pageCommit env pg g e d f)" f] lock_ok_act [of f env a] ACache
    by (simp add: same_released_def pending_wf_def)
qed

lemma readers_same:
  assumes "list_all by_reader as"
  shows "same_released (interfere env as f) f"
  using assms
proof (induction as arbitrary: f)
  case (Cons a as)
  have "same_released (rf_act env a f) f" by (rule reader_same) (use Cons.prems in simp)
  moreover have "same_released (interfere env as (rf_act env a f)) (rf_act env a f)" using Cons by simp
  ultimately show ?case by (simp add: same_released_def interfere_def)
qed (simp add: interfere_def same_released_def)

subsection \<open>A poll\<close>

lemma pending_wf_merge: "pending_wf f \<Longrightarrow> mwf (up_index u) \<Longrightarrow> pending_wf (mergePendingLocked u f)"
  by (auto simp: mergePendingLocked_def pending_wf_def mwf_copyInto split: option.splits)

lemma released_merge:
  "rf_commit (released (mergePendingLocked u f)) = up_commit u" "rf_pos (released (mergePendingLocked u f)) = up_pos u"
  by (auto simp: mergePendingLocked_def released_def split: option.splits)

lemma released_applied: "rf_pending f = None \<Longrightarrow> released (applyUpdateLocked u f) = applyUpdateLocked u f"
  by (simp add: released_def)

text \<open>Staging an update advances what the file has once the pending update is applied.\<close>

lemma stage_advances:
  assumes h: "history_ok h" and u: "update_ok content h t u" and f: "represents content h (released f) t"
    "lock_ok f" "pending_wf f" and pos: "unat (TXID (rf_pos (released f))) = t"
  shows "represents content h (released (stageUpdateLocked u f)) (unat (TXID (up_pos u)))
    \<and> rf_pos (released (stageUpdateLocked u f)) = up_pos u \<and> pending_wf (stageUpdateLocked u f)"
proof -
  have wf: "mwf (up_index u)" using u by (simp add: update_ok_def Let_def)
  consider (noop) "noop u (released f)" "stageUpdateLocked u f = f"
    | (direct) "rf_pending f = None" "stageUpdateLocked u f = applyUpdateLocked u f"
    | (merge) "stageUpdateLocked u f = mergePendingLocked u f"
    using f(2) stage_direct [of f u] stage_deferred [of f u] by (auto simp: lock_ok_def released_def split: if_splits)
  then show ?thesis
  proof cases
    case noop
    then show ?thesis using f pos by (auto simp: noop_def)
  next
    case direct
    have "represents content h (applyUpdateLocked u f) (unat (TXID (up_pos u)))"
      using lookup_applied [OF wf] direct(1) f(1)
      by (intro represents_advance [OF h u, of f]) (auto simp: released_def)
    then show ?thesis using direct f(3) by (simp add: released_applied) (simp add: pending_wf_def)
  next
    case merge
    have "represents content h (released (mergePendingLocked u f)) (unat (TXID (up_pos u)))"
      using lookup_merged [OF wf f(3)] by (intro represents_advance [OF h u f(1)]) (auto simp: released_merge)
    then show ?thesis using merge pending_wf_merge [OF f(3) wf] by (simp add: released_merge)
  qed
qed

lemma finishPoll_tracks:
  assumes "history_ok h" "update_ok content h (unat (TXID (pollPos f))) u" "tracks content h f"
  shows "tracks content h (finishPoll now u f)"
proof -
  let ?f = "f\<lparr>pollPos := up_pos u, pollMaxTXID1 := up_maxTXID1 u, pollCommit := up_commit u\<rparr>"
  let ?g = "stageUpdateLocked u ?f"
  have rel: "rf_index (released ?f) = rf_index (released f)" "rf_commit (released ?f) = rf_commit (released f)"
    "rf_pos (released ?f) = rf_pos (released f)" using released_cong [of ?f f] by simp_all
  have t: "represents content h (released ?f) (unat (TXID (pollPos f)))" "lock_ok ?f" "pending_wf ?f"
    "unat (TXID (rf_pos (released ?f))) = unat (TXID (pollPos f))"
    using assms(3) rel by (simp_all add: tracks_def represents_def lock_ok_def pending_wf_def)
  have adv: "represents content h (released ?g) (unat (TXID (up_pos u)))" "rf_pos (released ?g) = up_pos u" "pending_wf ?g"
    using stage_advances [OF assms(1,2) t] by simp_all
  have cur: "pollPos ?g = up_pos u" "pollMaxTXID1 ?g = up_maxTXID1 u" "pollCommit ?g = up_commit u"
    by (auto simp: stageUpdateLocked_def mergePendingLocked_def applyUpdateLocked_def Let_def split: option.split)
  have "lock_ok ?g" using lock_ok_act [OF t(2), of _ "Stage u"] by simp
  then have "tracks content h ?g" using adv cur assms(2) by (simp add: tracks_def update_ok_def Let_def)
  moreover have "same_released (finishPoll now u f) ?g"
    using released_cong [of "finishPoll now u f" ?g] by (simp add: same_released_def finishPoll_def pending_wf_def lock_ok_def)
  ultimately show ?thesis using tracks_same by blast
qed

definition clients_ok :: "(PageIndexElem \<Rightarrow> bytes) \<Rightarrow> history \<Rightarrow> poll_clients \<Rightarrow> bool" where
  "clients_ok content h cs \<longleftrightarrow> client_ok content h (cl_l0 cs) \<and> client_ok content h (cl_l1 cs) \<and> client_ok content h (cl_plan cs)
     \<and> (\<forall>infos. CalcRestorePlan (cl_plan cs) = Inr infos \<longrightarrow> plan_ok 0 infos)"

text \<open>No compaction of level 1 that ends before the position arrives in this poll.\<close>

definition no_late_l1 :: "poll_clients \<Rightarrow> replicaFile \<Rightarrow> bool" where
  "no_late_l1 cs f =
     (case pollLevel (cl_l0 cs) (pageSize f) 0 (TXID (pollPos f)) (pollCommit f) of
        Inl _ \<Rightarrow> True
      | Inr l0 \<Rightarrow>
          (case pollLevel (cl_l1 cs) (pageSize f) 1 (pollMaxTXID1 f) (pl_commit l0) of
             Inl _ \<Rightarrow> True
           | Inr l1 \<Rightarrow> l1_current (pollPos f) (pollMaxTXID1 f) l1))"

lemma pollFetch_ok:
  assumes h: "history_ok h" and cs: "clients_ok content h cs" and f: "tracks content h f" and l: "no_late_l1 cs f"
    and u: "pollFetch cs f = Inr u"
  shows "update_ok content h (unat (TXID (pollPos f))) u"
proof -
  obtain l0 l1 where p: "pollLevel (cl_l0 cs) (pageSize f) 0 (TXID (pollPos f)) (pollCommit f) = Inr l0"
    "pollLevel (cl_l1 cs) (pageSize f) 1 (pollMaxTXID1 f) (pl_commit l0) = Inr l1"
    "pollUpdate cs (pageSize f) (pollPos f) (pollMaxTXID1 f) (pollCommit f) l0 l1 = Inr u"
    using u by (auto simp: pollFetch_def split: sum.splits)
  have t: "pollCommit f = hi_size h (unat (TXID (pollPos f)))" "pollMaxTXID1 f \<le> TXID (pollPos f)"
    "unat (TXID (pollPos f)) + 1 < 2 ^ 64" using f by (simp_all add: tracks_def)
  have "unat (pollMaxTXID1 f) + 1 < 2 ^ 64" using t(2,3) by (simp add: word_le_nat_alt)
  then have l1: "level_ok content h (pollMaxTXID1 f) (pl_commit l0) l1"
    using cs p(2) by (intro pollLevel_ok) (auto simp: clients_ok_def)
  have l0: "level_ok content h (TXID (pollPos f)) (pollCommit f) l0"
    using cs p(1) t(3) by (intro pollLevel_ok) (auto simp: clients_ok_def)
  have plan: "client_ok content h (cl_plan cs)" "\<And>infos. CalcRestorePlan (cl_plan cs) = Inr infos \<Longrightarrow> plan_ok 0 infos"
    using cs by (simp_all add: clients_ok_def)
  have cur: "l1_current (pollPos f) (pollMaxTXID1 f) l1" using l p(1,2) by (simp add: no_late_l1_def)
  show ?thesis by (rule pollUpdate_ok [OF h l0 l1 t(1,2) cur plan(1) plan(2) p(3)])
qed

lemma poll_tracks:
  assumes "history_ok h" "clients_ok content h cs" "tracks content h f" "no_late_l1 cs f" "list_all by_reader during"
  shows "tracks content h (snd (pollReplicaClient env cs during now f))"
proof -
  let ?f = "interfere env during f"
  note same = readers_same [OF assms(5), of env f]
  have tr: "tracks content h ?f" using tracks_same [OF same assms(3)] .
  show ?thesis
  proof (cases "pollFetch cs f")
    case (Inr u)
    then have "update_ok content h (unat (TXID (pollPos ?f))) u"
      using pollFetch_ok [OF assms(1-4)] same by (simp add: same_released_def)
    then show ?thesis using finishPoll_tracks [OF assms(1) _ tr] Inr by (simp add: pollReplicaClient_def)
  next
    case (Inl e)
    have "same_released (recordPollFailure x ?f) ?f" for x
      using released_cong [of "recordPollFailure x ?f" ?f]
      by (simp add: same_released_def recordPollFailure_def pending_wf_def lock_ok_def)
    then show ?thesis using Inl tracks_same [OF _ tr] by (cases e) (simp add: pollReplicaClient_def)
  qed
qed

lemma open_tracks:
  assumes h: "history_ok h" and c: "client_ok content h c" "\<And>infos. CalcRestorePlan c = Inr infos \<Longrightarrow> plan_ok 0 infos"
    and opened: "openReplicaFile c newCache cacheSize = Inr (f, entries)"
  shows "tracks content h f \<and> isSupportedPageSize (pageSize f) \<and> rf_cache f = [] \<and> rf_pending f = None"
proof -
  obtain infos s where i: "CalcRestorePlan c = Inr infos" "infos \<noteq> []" "buildSnapshot c infos (pageSize f) = Inr s"
    and det: "detectPageSize c infos = Inr (pageSize f)"
    and f: "rf_index f = sn_index s" "rf_commit f = sn_commit s" "rf_pos f = sn_pos s" "pollPos f = sn_pos s"
      "pollMaxTXID1 f = sn_maxTXID1 s" "pollCommit f = sn_commit s" "rf_pending f = None" "rf_lock f = LOCK_NONE" "rf_cache f = []"
    using opened by (auto simp: openReplicaFile_def Let_def split: sum.splits if_splits option.splits)
  have supp: "detectPageSizeLoop c e xs = Inr n \<Longrightarrow> isSupportedPageSize n" for e xs n
    by (induction c e xs rule: detectPageSizeLoop.induct) (auto split: option.splits sum.splits if_splits)
  have "snapshot_ok content h emptySnapshot"
    using covers_empty [of content h 0] by (simp add: snapshot_ok_def emptySnapshot_def)
  then have s: "snapshot_ok content h s" "TXID (sn_pos s) \<noteq> 0"
    using buildSnapshotLoop_ok [OF c(1) i(3) [unfolded buildSnapshot_def]] c(2) [OF i(1)] i(2)
    by (simp_all add: emptySnapshot_def)
  have cov: "covers content h (sn_index s) 0 (unat (TXID (sn_pos s)))" using s(1) by (simp add: snapshot_ok_def Let_def)
  have "\<exists>e. mget (sn_index s) pg = Some e \<and> content e = d" if d: "hi_page h (unat (TXID (sn_pos s))) pg = Some d" for pg d
  proof (cases "mget (sn_index s) pg")
    case None
    then show ?thesis using covers_absent [OF cov d None, of 0] h by (auto simp: history_ok_def)
  next
    case (Some e)
    then show ?thesis using covers_entry(1) [OF cov d Some] by simp
  qed
  then have "represents content h (released f) (unat (TXID (pollPos f)))"
    using s f by (simp add: represents_def released_def snapshot_ok_def Let_def)
  then show ?thesis using s f supp det
    by (auto simp: tracks_def released_def snapshot_ok_def Let_def pending_wf_def lock_ok_def detectPageSize_def)
qed

subsection \<open>Following the database\<close>

text \<open>What the ticks of the polling goroutine find.\<close>

fun ticks_ok ::
    "(PageIndexElem \<Rightarrow> bytes) \<Rightarrow> history \<Rightarrow> replica_env \<Rightarrow> (poll_clients \<times> rf_action list \<times> int) list \<Rightarrow> replicaFile \<Rightarrow> bool" where
  "ticks_ok content h env [] f = True"
| "ticks_ok content h env ((cs, during, now) # ticks) f = (clients_ok content h cs \<and> no_late_l1 cs f
     \<and> list_all by_reader during \<and> ticks_ok content h env ticks (snd (pollReplicaClient env cs during now f)))"

lemma monitor_tracks:
  "history_ok h \<Longrightarrow> tracks content h f \<Longrightarrow> ticks_ok content h env ticks f \<Longrightarrow>
     tracks content h (monitorReplicaClient env ticks f)"
  by (induction env ticks f rule: monitorReplicaClient.induct) (auto simp: poll_tracks)

text \<open>
  C2. The replica file follows its database: once opened, and after every number of polls,
  successful or failed, with gaps bridged or snapshots rebuilt and readers coming and going, the
  file has (with the update it holds back, if any) every page and the size of the database after
  the transaction of its cursor. Level 1 compactions must not arrive after the position has
  passed their end (lemma \<open>late_l1_reverts_page\<close>).
\<close>

theorem replica_follows_database:
  assumes "history_ok h" "client_ok content h c" "case CalcRestorePlan c of Inl _ \<Rightarrow> True | Inr infos \<Rightarrow> plan_ok 0 infos"
    and "openReplicaFile c newCache cacheSize = Inr (f, entries)" "ticks_ok content h env ticks f"
  shows "represents content h (released (monitorReplicaClient env ticks f))
      (unat (TXID (pollPos (monitorReplicaClient env ticks f))))
    \<and> rf_pos (released (monitorReplicaClient env ticks f)) = pollPos (monitorReplicaClient env ticks f)"
proof -
  have "plan_ok 0 infos" if "CalcRestorePlan c = Inr infos" for infos using assms(3) that by simp
  from open_tracks [OF assms(1,2) this assms(4)] have "tracks content h f" by simp
  from monitor_tracks [OF assms(1) this assms(5)] show ?thesis by (simp add: tracks_def)
qed

text \<open>
  C35. A poll that fails, at whatever point, changes nothing a reader or a later poll can see:
  neither cursors nor index nor size nor the pending update; the failure is recorded. A poll that
  succeeds moves the cursors to the update it staged.
\<close>

theorem poll_all_or_nothing:
  "case pollReplicaClient env cs during now f of
     (Some err, f') \<Rightarrow> \<exists>e. lastPollErr f' = Some e \<and> f' = (interfere env during f)\<lparr>lastPollErr := Some e\<rparr>
   | (None, f') \<Rightarrow> \<exists>u. pollFetch cs f = Inr u \<and> pollPos f' = up_pos u \<and> pollMaxTXID1 f' = up_maxTXID1 u
       \<and> pollCommit f' = up_commit u \<and> lastPollErr f' = None
       \<and> view (released f') = view (released (stageUpdateLocked u (interfere env during f)))"
proof (cases "pollFetch cs f")
  case (Inl e)
  then show ?thesis by (cases e) (simp add: pollReplicaClient_def recordPollFailure_def)
next
  case (Inr u)
  let ?f = "interfere env during f"
  have "view (released (finishPoll now u ?f)) = view (released (stageUpdateLocked u ?f))"
    by (auto simp: finishPoll_def stageUpdateLocked_def mergePendingLocked_def applyUpdateLocked_def released_def view_def
        Let_def split: option.split)
  moreover have "pollPos (finishPoll now u ?f) = up_pos u" "pollMaxTXID1 (finishPoll now u ?f) = up_maxTXID1 u"
    "pollCommit (finishPoll now u ?f) = up_commit u"
    by (auto simp: finishPoll_def stageUpdateLocked_def mergePendingLocked_def applyUpdateLocked_def Let_def split: option.split)
  ultimately show ?thesis using Inr by (simp add: pollReplicaClient_def finishPoll_def)
qed

text \<open>
  A reader of a file that follows its database reads the database: in a file with nothing
  held back, each byte a read reports is that of the database after the transaction of the
  file's position, however the poller and other readers interleave with the read.
\<close>

theorem reads_follow_database:
  assumes "tracks content h f" "rf_pending f = None" "file_ok content f" "env_ok content env"
    and "sched_ok content (unat (pageSize f)) sched" "used sched (3 * length p) < 2 ^ 64"
    and "hi_page h (unat (TXID (rf_pos f))) (word_of_nat ((off + j) div unat (pageSize f)) + 1) = Some d"
    and "rf_ReadAt env sched p off f = Some ((n, err, q), f')" "j < n" "\<not> headerByte off (length p) j"
  shows "q ! j = d ! ((off + j) mod unat (pageSize f))"
proof -
  have "filled content f off q n" "length q = length p"
    using rf_ReadAt_sound [OF assms(3-6), of off] assms(8) by (auto simp: readOk_def)
  then have byte: "fileByte content f (off + j) = Some (q ! j)" using assms(9,10) by (auto simp: filled_def)
  have "represents content h f (unat (TXID (rf_pos f)))"
    using assms(1,2) by (auto simp: tracks_def released_def)
  then obtain e where "mget (rf_index f) (word_of_nat ((off + j) div unat (pageSize f)) + 1) = Some e" "content e = d"
    using assms(7) unfolding represents_def by blast
  then show ?thesis using byte by (simp add: fileByte_def)
qed

subsection \<open>A replica of one page\<close>

text \<open>One page of 512 bytes that every transaction fills with its own number. Level 0 has a file
  per transaction; \<open>infos\<close> are the files the replica lists.\<close>

definition page_of :: "nat \<Rightarrow> bytes" where
  "page_of t = replicate 512 (word_of_nat t)"

definition one_page :: history where
  "one_page = \<lparr>hi_page = (\<lambda>t pg. if t = 0 \<or> pg \<noteq> 1 then None else Some (page_of t)), hi_size = (\<lambda>t. if t = 0 then 0 else 1)\<rparr>"

definition page_content :: "PageIndexElem \<Rightarrow> bytes" where
  "page_content e = page_of (unat (el_MaxTXID e))"

definition file_of :: "int \<Rightarrow> txid \<Rightarrow> FileInfo" where
  "file_of level t = \<lparr>fi_Level = level, fi_MinTXID = t, fi_MaxTXID = t, fi_Pos = \<lparr>TXID = t, PostApplyChecksum = 0\<rparr>\<rparr>"

definition listing :: "FileInfo list \<Rightarrow> int \<Rightarrow> txid \<Rightarrow> ltx_iterator" where
  "listing infos level from =
     \<lparr>it_items = filter (\<lambda>i. fi_Level i = level \<and> fi_MinTXID i \<ge> from) infos, it_err = (\<lambda>_. None), it_close = None\<rparr>"

definition elem_of :: "FileInfo \<Rightarrow> PageIndexElem" where
  "elem_of info = \<lparr>el_Level = fi_Level info, el_MinTXID = fi_MinTXID info, el_MaxTXID = fi_MaxTXID info, el_Offset = 0, el_Size = 512\<rparr>"

definition one_page_client :: "FileInfo list \<Rightarrow> FileInfo list \<Rightarrow> ReplicaClient" where
  "one_page_client infos plan =
     \<lparr>LTXFiles = (\<lambda>level from. Inr (listing infos level from)),
      FetchPageIndex = (\<lambda>info. if info \<in> set (plan @ infos) then Inr [(1, elem_of info)] else Inl ''not found''),
      FetchLTXHeader = (\<lambda>info. Inr \<lparr>hdr_PageSize = 512, hdr_Commit = 1, hdr_MinTXID = fi_MinTXID info, hdr_MaxTXID = fi_MaxTXID info\<rparr>),
      CalcRestorePlan = Inr plan\<rparr>"

lemma one_page_ok: "history_ok one_page"
  by (auto simp: history_ok_def one_page_def split: if_splits)

definition good_info :: "FileInfo \<Rightarrow> bool" where
  "good_info i \<longleftrightarrow> 0 < unat (fi_MinTXID i) \<and> unat (fi_MinTXID i) \<le> unat (fi_MaxTXID i)
     \<and> unat (fi_MaxTXID i) + 1 < 2 ^ 64 \<and> TXID (fi_Pos i) = fi_MaxTXID i"

lemma one_page_plan [simp]: "CalcRestorePlan (one_page_client infos plan) = Inr plan"
  by (simp add: one_page_client_def)

lemma one_page_client_ok:
  assumes "list_all good_info (plan @ infos)"
  shows "client_ok page_content one_page (one_page_client infos plan)"
  unfolding client_ok_def
proof (intro allI impI)
  fix info idx hdr
  assume "FetchPageIndex (one_page_client infos plan) info = Inr idx"
    and hdr: "FetchLTXHeader (one_page_client infos plan) info = Inr hdr"
  then have i: "info \<in> set (plan @ infos)" "idx = [(1, elem_of info)]"
    by (auto simp: one_page_client_def split: if_splits)
  have "good_info info" using assms i(1) by (auto simp: list_all_iff)
  then show "ltx_ok page_content one_page info idx hdr"
    using i(2) hdr unfolding good_info_def
    by (auto simp: ltx_ok_def Let_def one_page_client_def one_page_def page_content_def elem_of_def split: if_splits)
qed

definition one_page_clients :: "FileInfo list \<Rightarrow> FileInfo list \<Rightarrow> poll_clients" where
  "one_page_clients infos plan = \<lparr>cl_l0 = one_page_client infos plan, cl_l1 = one_page_client infos plan,
     cl_super = one_page_client infos plan, cl_plan = one_page_client infos plan\<rparr>"

definition one_page_file :: replicaFile where
  "one_page_file = \<lparr>pageSize = 512, rf_commit = 1, rf_index = [(1, elem_of (file_of 0 1))],
     rf_pos = \<lparr>TXID = 1, PostApplyChecksum = 0\<rparr>, rf_maxTXID1 = 0,
     pollPos = \<lparr>TXID = 1, PostApplyChecksum = 0\<rparr>, pollMaxTXID1 = 0, pollCommit = 1,
     lastPollSuccess = None, lastPollErr = None, rf_pending = None, visibleGeneration = 0, rf_cache = [],
     rf_lock = LOCK_NONE\<rparr>"

lemma one_page_open:
  "openReplicaFile (one_page_client infos [file_of 0 1]) (\<lambda>_. None) 4096 = Inr (one_page_file, 8)"
  by (simp add: openReplicaFile_def one_page_client_def detectPageSize_def buildSnapshot_def fetchFile_def
      emptySnapshot_def one_page_file_def file_of_def isSupportedPageSize_def)

lemma one_page_tick:
  "ticks_ok page_content one_page replica_env0 [(one_page_clients [file_of 0 2] [file_of 0 1], [ALock LOCK_SHARED], 5)] one_page_file"
proof -
  have "client_ok page_content one_page (one_page_client [file_of 0 2] [file_of 0 1])"
    by (rule one_page_client_ok) (simp add: file_of_def good_info_def)
  then have "clients_ok page_content one_page (one_page_clients [file_of 0 2] [file_of 0 1])"
    unfolding clients_ok_def one_page_clients_def by (simp add: file_of_def)
  moreover have "no_late_l1 (one_page_clients [file_of 0 2] [file_of 0 1]) one_page_file"
    by (simp add: no_late_l1_def one_page_clients_def one_page_client_def one_page_file_def pollLevel_def listing_def file_of_def
        fetchFile_def takeFile_def l1_current_def)
  ultimately show ?thesis by simp
qed

lemma one_page_start: "client_ok page_content one_page (one_page_client [] [file_of 0 1])"
  by (rule one_page_client_ok) (simp add: file_of_def good_info_def)

theorem replica_follows_database_witness:
  "represents page_content one_page
     (released (monitorReplicaClient replica_env0 [(one_page_clients [file_of 0 2] [file_of 0 1], [ALock LOCK_SHARED], 5)] one_page_file))
     (unat (TXID (pollPos (monitorReplicaClient replica_env0 [(one_page_clients [file_of 0 2] [file_of 0 1], [ALock LOCK_SHARED], 5)] one_page_file))))"
proof -
  have "case CalcRestorePlan (one_page_client [] [file_of 0 1]) of Inl _ \<Rightarrow> True | Inr infos \<Rightarrow> plan_ok 0 infos"
    by (simp add: file_of_def)
  from replica_follows_database [OF one_page_ok one_page_start this one_page_open one_page_tick] show ?thesis ..
qed

lemma one_page_tracks: "tracks page_content one_page one_page_file"
proof -
  have "plan_ok 0 infos" if "CalcRestorePlan (one_page_client [] [file_of 0 1]) = Inr infos" for infos
    using that by (auto simp: file_of_def)
  from open_tracks [OF one_page_ok one_page_start this one_page_open] show ?thesis ..
qed

lemma one_page_file_ok: "file_ok page_content one_page_file"
  by (simp add: file_ok_def one_page_file_def isSupportedPageSize_def)

definition one_page_env :: replica_env where
  "one_page_env = \<lparr>fetchPage = (\<lambda>e a. Inr (1, page_content e)), ctxErr = (\<lambda>_. False), rand4 = None, evict = (\<lambda>m. m)\<rparr>"

lemma one_page_env_ok: "env_ok page_content one_page_env"
  by (auto simp: env_ok_def one_page_env_def page_content_def page_of_def)

lemma one_page_fetch: "fetchPageWithRetry one_page_env 512 1 e = Inr (page_content e)"
  by (simp add: fetchPageWithRetry_def pageFetchMaxAttempts_def numeral_3_eq_3 one_page_env_def page_content_def page_of_def)

theorem reads_follow_database_witness:
  "\<exists>n err q f'. rf_ReadAt one_page_env (\<lambda>_. []) [0, 0] 100 one_page_file = Some ((n, err, q), f') \<and> n = 2
     \<and> q ! 1 = page_of 1 ! 101"
proof -
  have used: "used (\<lambda>_. []) (3 * length ([0, 0] :: bytes)) < 2 ^ 64" by (simp add: used_def)
  have sched: "sched_ok page_content (unat (pageSize one_page_file)) (\<lambda>_. [])" by (simp add: sched_ok_def)
  have pend: "rf_pending one_page_file = None" by (simp add: one_page_file_def)
  obtain q f' where r: "rf_ReadAt one_page_env (\<lambda>_. []) [0, 0] 100 one_page_file = Some ((2, None, q), f')"
    by (simp add: rf_ReadAt_def one_page_file_def readRound_def interfere_def rf_page_def pageBegin_def one_page_fetch
        pageCommit_def readCopy_def Let_def page_content_def page_of_def)
  have "q ! 1 = page_of 1 ! ((100 + 1) mod unat (pageSize one_page_file))"
    by (rule reads_follow_database [OF one_page_tracks pend one_page_file_ok one_page_env_ok sched used _ r])
      (simp_all add: one_page_file_def one_page_def headerByte_def)
  then show ?thesis using r by (simp add: one_page_file_def)
qed

text \<open>The file after two more transactions of level 0, with level 1 compacted up to the first.\<close>

definition ahead_file :: replicaFile where
  "ahead_file = one_page_file\<lparr>rf_index := [(1, elem_of (file_of 0 3))], rf_pos := \<lparr>TXID = 3, PostApplyChecksum = 0\<rparr>,
     rf_maxTXID1 := 1, pollPos := \<lparr>TXID = 3, PostApplyChecksum = 0\<rparr>, pollMaxTXID1 := 1\<rparr>"

text \<open>
  A compaction of level 1 that arrives after the position has passed its end takes pages
  back: the file has the database after transaction 3, the next poll finds no new file of level 0
  and a level 1 file that ends at transaction 2, succeeds, and the page it serves is the one
  after transaction 2, at position 3.
\<close>

lemma late_l1_reverts_page:
  "tracks page_content one_page ahead_file
   \<and> clients_ok page_content one_page (one_page_clients [file_of 1 2] [file_of 0 1])
   \<and> (case pollReplicaClient replica_env0 (one_page_clients [file_of 1 2] [file_of 0 1]) [] 5 ahead_file of
        (err, f') \<Rightarrow> err = None \<and> TXID (rf_pos f') = 3 \<and> hi_page one_page 3 1 = Some (page_of 3)
          \<and> map_option page_content (mget (rf_index f') 1) = Some (page_of 2) \<and> page_of 2 \<noteq> page_of 3)"
proof (intro conjI)
  have "client_ok page_content one_page (one_page_client [file_of 1 2] [file_of 0 1])"
    by (rule one_page_client_ok) (simp add: file_of_def good_info_def)
  then show "clients_ok page_content one_page (one_page_clients [file_of 1 2] [file_of 0 1])"
    unfolding clients_ok_def one_page_clients_def by (simp add: file_of_def)
  show "tracks page_content one_page ahead_file"
    by (auto simp: tracks_def ahead_file_def one_page_file_def represents_def released_def one_page_def pending_wf_def lock_ok_def
        page_content_def elem_of_def file_of_def split: if_splits)
  have "page_of 2 ! 0 \<noteq> page_of 3 ! 0" by (simp add: page_of_def)
  then have "page_of 2 \<noteq> page_of 3" by metis
  then show "case pollReplicaClient replica_env0 (one_page_clients [file_of 1 2] [file_of 0 1]) [] 5 ahead_file of
        (err, f') \<Rightarrow> err = None \<and> TXID (rf_pos f') = 3 \<and> hi_page one_page 3 1 = Some (page_of 3)
          \<and> map_option page_content (mget (rf_index f') 1) = Some (page_of 2) \<and> page_of 2 \<noteq> page_of 3"
    by (simp add: pollReplicaClient_def pollFetch_def pollLevel_def one_page_clients_def one_page_client_def listing_def
        ahead_file_def one_page_file_def file_of_def elem_of_def fetchFile_def takeFile_def Let_def pollUpdate_def needRebuild_def
        gapBridged_def safeBridgedReplace_def mergePollLevelResults_def isNoopPollUpdate_def interfere_def finishPoll_def
        stageUpdateLocked_def applyUpdateLocked_def page_content_def one_page_def)
qed

end
