(* ===== verification/Bridge_Db.thy ===== *)
theory Bridge_Db
  imports Go_Prelude "HOL-Library.Char_ord" "HOL-Library.List_Lexorder" "HOL-Library.Product_Lexorder"
begin

text \<open>
  The state database of the Nostr bridge: the tables of
  \<^verbatim>\<open>cmd/nostr-bridge/store/sql/schema.sql\<close> as a record, one definition per statement
  of \<^verbatim>\<open>store/sqlc/query.sql.go\<close>, and transactions. A statement may fail at any point,
  which is an oracle of the state (\<open>sq_faults\<close>, one entry per statement); a statement that
  violates a constraint of the schema fails too. Times are nanoseconds since the epoch; the
  database has one connection, so transactions run one after the other.
\<close>

subsection \<open>Tables\<close>

record SourceScope =
  Provider :: string
  Account :: string

record SourceRef =
  Scope :: SourceScope
  URI :: string

record EventMapping =
  em_Source :: SourceRef
  NostrEventID :: string
  SourceKind :: string
  AuthorPubKey :: string
  em_UpdatedAt :: int

record OutboxRow =
  ob_id :: int
  ob_key :: string
  ob_seq :: int
  ob_op :: string
  ob_pubkey :: string
  ob_payload :: string
  ob_attempts :: int
  ob_avail :: int
  ob_lasterr :: string
  ob_token :: string
  ob_until :: int

record OAuthSession =
  os_State :: string
  os_Payload :: bytes
  os_ExpiresAt :: int

record OAuthToken =
  ot_AccountDID :: string
  ot_Payload :: bytes
  ot_UpdatedAt :: int
  ot_LastRefreshAt :: int
  ot_ReauthRequired :: bool
  ot_ErrorClass :: string

record StoredVAPIDKeys =
  vk_Private :: string
  vk_Public :: string
  vk_Subject :: string
  vk_CreatedAt :: int

record StoredSubscription =
  sub_Endpoint :: string
  sub_P256dh :: string
  sub_Auth :: string
  sub_CreatedAt :: int
  sub_UpdatedAt :: int

record bridge_db =
  outbox :: "OutboxRow list"
  last_id :: int
  outbox_sequences :: "(string, int) gomap"
  bridge_events :: "(SourceRef, EventMapping) gomap"
  publisher_registrations :: "(string, int) gomap"
  publisher_purges :: "(string, string \<times> int) gomap"
  sync_targets :: "(SourceScope \<times> string) list"
  sync_cursors :: "(SourceScope \<times> string, string) gomap"
  source_operations :: "(SourceRef, string) gomap"
  oauth_sessions :: "(SourceScope \<times> string, OAuthSession) gomap"
  oauth_tokens :: "(SourceScope \<times> string, OAuthToken) gomap"
  vapid_keys :: "StoredVAPIDKeys option"
  subscriptions :: "(string, StoredSubscription) gomap"

definition empty_db :: bridge_db where
  "empty_db = \<lparr>outbox = [], last_id = 0, outbox_sequences = [], bridge_events = [], publisher_registrations = [],
     publisher_purges = [], sync_targets = [], sync_cursors = [], source_operations = [], oauth_sessions = [],
     oauth_tokens = [], vapid_keys = None, subscriptions = []\<rparr>"

definition OutboxAllowPublisher :: string where
  "OutboxAllowPublisher = ''allow-publisher''"

definition OutboxPublishEvent :: string where
  "OutboxPublishEvent = ''publish-event''"

definition OutboxUnallowPublisher :: string where
  "OutboxUnallowPublisher = ''unallow-publisher''"

definition unix :: "int \<Rightarrow> int" where
  "unix ns = ns div 1000000000"

subsection \<open>Constraints of the outbox\<close>

definition outbox_unique :: "OutboxRow list \<Rightarrow> bool" where
  "outbox_unique rows \<longleftrightarrow> distinct (map (\<lambda>r. (ob_key r, ob_seq r)) rows)"

definition outbox_check :: "string \<Rightarrow> bool" where
  "outbox_check op \<longleftrightarrow> op \<in> {OutboxAllowPublisher, OutboxPublishEvent, OutboxUnallowPublisher}"

definition put_outbox :: "OutboxRow list \<Rightarrow> bridge_db \<Rightarrow> bridge_db option" where
  "put_outbox rows d = (if outbox_unique rows \<and> list_all (\<lambda>r. outbox_check (ob_op r)) rows then Some (d\<lparr>outbox := rows\<rparr>) else None)"

subsection \<open>Statements on the outbox\<close>

definition q_AdvanceOutboxSequence :: "string \<Rightarrow> bridge_db \<Rightarrow> bridge_db" where
  "q_AdvanceOutboxSequence k d =
     d\<lparr>outbox_sequences := mput (outbox_sequences d) k
        (case mget (outbox_sequences d) k of None \<Rightarrow> 1 | Some n \<Rightarrow> n + 1)\<rparr>"

definition insert_outbox :: "string \<Rightarrow> int \<Rightarrow> string \<Rightarrow> string \<Rightarrow> string \<Rightarrow> int \<Rightarrow> bridge_db \<Rightarrow> bridge_db option" where
  "insert_outbox k sq op pk payload avail d =
     map_option (\<lambda>d'. d'\<lparr>last_id := last_id d + 1\<rparr>)
       (put_outbox (outbox d @ [\<lparr>ob_id = last_id d + 1, ob_key = k, ob_seq = sq, ob_op = op, ob_pubkey = pk,
          ob_payload = payload, ob_attempts = 0, ob_avail = avail, ob_lasterr = [], ob_token = [], ob_until = 0\<rparr>]) d)"

definition q_EnqueueOutbox :: "string \<Rightarrow> string \<Rightarrow> string \<Rightarrow> string \<Rightarrow> int \<Rightarrow> bridge_db \<Rightarrow> bridge_db option" where
  "q_EnqueueOutbox k op pk payload avail d =
     (case mget (outbox_sequences d) k of
        None \<Rightarrow> Some d
      | Some n \<Rightarrow> insert_outbox k n op pk payload avail d)"

definition q_OutboxCount :: "bridge_db \<Rightarrow> int" where
  "q_OutboxCount d = int (length (outbox d))"

definition unclaimed :: "int \<Rightarrow> OutboxRow \<Rightarrow> bool" where
  "unclaimed now r \<longleftrightarrow> ob_token r = [] \<or> ob_until r \<le> now"

definition no_prior :: "bridge_db \<Rightarrow> OutboxRow \<Rightarrow> bool" where
  "no_prior d r \<longleftrightarrow> \<not> list_ex (\<lambda>p. ob_key p = ob_key r \<and> ob_seq p < ob_seq r) (outbox d)"

definition claim_order :: "OutboxRow \<Rightarrow> int \<times> int" where
  "claim_order r = (ob_avail r, ob_id r)"

definition claimable_ids :: "int \<Rightarrow> int \<Rightarrow> int \<Rightarrow> bridge_db \<Rightarrow> int list" where
  "claimable_ids now secs lim d =
     map ob_id (take (nat lim)
       (sort_key claim_order (filter (\<lambda>r. unclaimed now r \<and> ob_avail r \<le> secs \<and> no_prior d r) (outbox d))))"

definition q_ClaimOutbox :: "string \<Rightarrow> int \<Rightarrow> int \<Rightarrow> int \<Rightarrow> int \<Rightarrow> bridge_db \<Rightarrow> OutboxRow list \<times> bridge_db" where
  "q_ClaimOutbox token claimedUntil now secs lim d =
     (let ids = claimable_ids now secs lim d;
          hit = (\<lambda>r. ob_id r \<in> set ids \<and> unclaimed now r);
          rows = map (\<lambda>r. if hit r then r\<lparr>ob_token := token, ob_until := claimedUntil\<rparr> else r) (outbox d)
      in (filter hit (outbox d), d\<lparr>outbox := rows\<rparr>))"

definition owns :: "int \<Rightarrow> string \<Rightarrow> int \<Rightarrow> OutboxRow \<Rightarrow> bool" where
  "owns i token now r \<longleftrightarrow> ob_id r = i \<and> ob_token r = token \<and> ob_token r \<noteq> [] \<and> ob_until r > now"

text \<open>Both answer the number of rows they affected.\<close>

definition q_CompleteOutbox :: "int \<Rightarrow> string \<Rightarrow> int \<Rightarrow> bridge_db \<Rightarrow> int \<times> bridge_db" where
  "q_CompleteOutbox i token now d =
     (int (length (filter (owns i token now) (outbox d))), d\<lparr>outbox := filter (\<lambda>r. \<not> owns i token now r) (outbox d)\<rparr>)"

definition q_RetryOutbox :: "int \<Rightarrow> string \<Rightarrow> int \<Rightarrow> string \<Rightarrow> int \<Rightarrow> bridge_db \<Rightarrow> int \<times> bridge_db" where
  "q_RetryOutbox avail lasterr i token now d =
     (int (length (filter (owns i token now) (outbox d))),
      d\<lparr>outbox := map (\<lambda>r. if owns i token now r
          then r\<lparr>ob_attempts := ob_attempts r + 1, ob_avail := avail, ob_lasterr := lasterr, ob_token := [], ob_until := 0\<rparr>
          else r) (outbox d)\<rparr>)"

definition q_ClaimedPublishEvent :: "int \<Rightarrow> string \<Rightarrow> int \<Rightarrow> bridge_db \<Rightarrow> (string \<times> int \<times> string) option" where
  "q_ClaimedPublishEvent i token now d =
     map_option (\<lambda>r. (ob_key r, ob_seq r, ob_payload r))
       (List.find (\<lambda>r. owns i token now r \<and> ob_op r = OutboxPublishEvent) (outbox d))"

definition q_ResetRejectedPublishAsRegistration :: "int \<Rightarrow> int \<Rightarrow> bridge_db \<Rightarrow> bridge_db" where
  "q_ResetRejectedPublishAsRegistration avail i d =
     d\<lparr>outbox := map (\<lambda>r. if ob_id r = i
        then r\<lparr>ob_op := OutboxAllowPublisher, ob_payload := [], ob_attempts := 0, ob_lasterr := [], ob_token := [],
               ob_until := 0, ob_avail := avail\<rparr>
        else r) (outbox d)\<rparr>"

definition q_NegateLaterOutboxSequences :: "string \<Rightarrow> int \<Rightarrow> bridge_db \<Rightarrow> bridge_db option" where
  "q_NegateLaterOutboxSequences k sq d =
     put_outbox (map (\<lambda>r. if ob_key r = k \<and> ob_seq r > sq then r\<lparr>ob_seq := - ob_seq r\<rparr> else r) (outbox d)) d"

definition q_ShiftNegatedOutboxSequences :: "string \<Rightarrow> bridge_db \<Rightarrow> bridge_db option" where
  "q_ShiftNegatedOutboxSequences k d =
     put_outbox (map (\<lambda>r. if ob_key r = k \<and> ob_seq r < 0 then r\<lparr>ob_seq := - ob_seq r + 1\<rparr> else r) (outbox d)) d"

definition q_IncrementOutboxLastSequence :: "string \<Rightarrow> bridge_db \<Rightarrow> bridge_db" where
  "q_IncrementOutboxLastSequence k d =
     (case mget (outbox_sequences d) k of
        None \<Rightarrow> d
      | Some n \<Rightarrow> d\<lparr>outbox_sequences := mput (outbox_sequences d) k (n + 1)\<rparr>)"

definition q_InsertRecoveredPublish :: "string \<Rightarrow> int \<Rightarrow> string \<Rightarrow> string \<Rightarrow> int \<Rightarrow> bridge_db \<Rightarrow> bridge_db option" where
  "q_InsertRecoveredPublish k sq pk payload avail = insert_outbox k sq OutboxPublishEvent pk payload avail"

subsection \<open>Statements on publishers and mappings\<close>

definition q_PublisherPurged :: "string \<Rightarrow> bridge_db \<Rightarrow> bool" where
  "q_PublisherPurged pk d = (mget (publisher_purges d) pk \<noteq> None)"

definition q_PublisherPurgeEvent :: "string \<Rightarrow> bridge_db \<Rightarrow> string option" where
  "q_PublisherPurgeEvent pk d = map_option fst (mget (publisher_purges d) pk)"

definition q_InsertPublisherPurge :: "string \<Rightarrow> string \<Rightarrow> int \<Rightarrow> bridge_db \<Rightarrow> bridge_db option" where
  "q_InsertPublisherPurge pk ev created d =
     (if q_PublisherPurged pk d then None else Some (d\<lparr>publisher_purges := mput (publisher_purges d) pk (ev, created)\<rparr>))"

definition q_PublisherUnallowPending :: "string \<Rightarrow> bridge_db \<Rightarrow> bool" where
  "q_PublisherUnallowPending k d = list_ex (\<lambda>r. ob_key r = k \<and> ob_op r = OutboxUnallowPublisher) (outbox d)"

definition q_PublisherRegistered :: "string \<Rightarrow> bridge_db \<Rightarrow> bool" where
  "q_PublisherRegistered pk d = (mget (publisher_registrations d) pk \<noteq> None)"

definition q_PublisherRegisteredOrPending :: "string \<Rightarrow> string \<Rightarrow> bridge_db \<Rightarrow> bool" where
  "q_PublisherRegisteredOrPending pk k d =
     (q_PublisherRegistered pk d \<or> list_ex (\<lambda>r. ob_key r = k \<and> ob_op r = OutboxAllowPublisher) (outbox d))"

definition q_SetPublisherRegistered :: "string \<Rightarrow> int \<Rightarrow> bridge_db \<Rightarrow> bridge_db" where
  "q_SetPublisherRegistered pk secs d = d\<lparr>publisher_registrations := mput (publisher_registrations d) pk secs\<rparr>"

definition q_ClearPublisherRegistration :: "string \<Rightarrow> bridge_db \<Rightarrow> bridge_db" where
  "q_ClearPublisherRegistration pk d = d\<lparr>publisher_registrations := mdel (publisher_registrations d) pk\<rparr>"

definition q_UpsertEventMapping :: "EventMapping \<Rightarrow> bridge_db \<Rightarrow> bridge_db" where
  "q_UpsertEventMapping m d = d\<lparr>bridge_events := mput (bridge_events d) (em_Source m) m\<rparr>"

definition q_EventMappingBySourceURI :: "SourceRef \<Rightarrow> bridge_db \<Rightarrow> EventMapping option" where
  "q_EventMappingBySourceURI ref d = mget (bridge_events d) ref"

definition q_EventIDBySourceURI :: "SourceRef \<Rightarrow> bridge_db \<Rightarrow> string option" where
  "q_EventIDBySourceURI ref d = map_option NostrEventID (mget (bridge_events d) ref)"

definition q_EventAuthorBySourceURI :: "SourceRef \<Rightarrow> bridge_db \<Rightarrow> string option" where
  "q_EventAuthorBySourceURI ref d = map_option AuthorPubKey (mget (bridge_events d) ref)"

definition q_EventIDsByAuthor :: "string \<Rightarrow> bridge_db \<Rightarrow> string list" where
  "q_EventIDsByAuthor pk d =
     sort (remdups (map (NostrEventID \<circ> snd) (filter (\<lambda>(_, m). AuthorPubKey m = pk) (bridge_events d))))"

definition q_DeleteEventMapping :: "SourceRef \<Rightarrow> bridge_db \<Rightarrow> bridge_db" where
  "q_DeleteEventMapping ref d = d\<lparr>bridge_events := mdel (bridge_events d) ref\<rparr>"

definition q_DeletePublisherMappings :: "string \<Rightarrow> bridge_db \<Rightarrow> bridge_db" where
  "q_DeletePublisherMappings pk d = d\<lparr>bridge_events := filter (\<lambda>(_, m). AuthorPubKey m \<noteq> pk) (bridge_events d)\<rparr>"

definition q_DeletePublisherSourceOperations :: "string \<Rightarrow> bridge_db \<Rightarrow> bridge_db" where
  "q_DeletePublisherSourceOperations pk d =
     d\<lparr>source_operations := filter (\<lambda>(ref, _). \<not> list_ex (\<lambda>(ref', m). ref' = ref \<and> AuthorPubKey m = pk) (bridge_events d))
        (source_operations d)\<rparr>"

definition q_SaveSourceOperation :: "SourceRef \<Rightarrow> string \<Rightarrow> bridge_db \<Rightarrow> bridge_db" where
  "q_SaveSourceOperation ref ident d = d\<lparr>source_operations := mput (source_operations d) ref ident\<rparr>"

definition q_SourceOperationBySourceURI :: "SourceRef \<Rightarrow> bridge_db \<Rightarrow> string option" where
  "q_SourceOperationBySourceURI ref d = mget (source_operations d) ref"

definition q_DeleteSourceOperation :: "SourceRef \<Rightarrow> bridge_db \<Rightarrow> bridge_db" where
  "q_DeleteSourceOperation ref d = d\<lparr>source_operations := mdel (source_operations d) ref\<rparr>"

subsection \<open>Statements on targets and cursors\<close>

definition q_ReplaceSyncTargetsDelete :: "SourceScope \<Rightarrow> bridge_db \<Rightarrow> bridge_db" where
  "q_ReplaceSyncTargetsDelete scope d = d\<lparr>sync_targets := filter (\<lambda>(s, _). s \<noteq> scope) (sync_targets d)\<rparr>"

definition q_InsertSyncTarget :: "SourceScope \<Rightarrow> string \<Rightarrow> bridge_db \<Rightarrow> bridge_db" where
  "q_InsertSyncTarget scope t d =
     (if (scope, t) \<in> set (sync_targets d) then d else d\<lparr>sync_targets := sync_targets d @ [(scope, t)]\<rparr>)"

definition q_SyncTargets :: "SourceScope \<Rightarrow> bridge_db \<Rightarrow> string list" where
  "q_SyncTargets scope d = sort (map snd (filter (\<lambda>(s, _). s = scope) (sync_targets d)))"

definition q_SaveCursor :: "SourceScope \<Rightarrow> string \<Rightarrow> string \<Rightarrow> bridge_db \<Rightarrow> bridge_db" where
  "q_SaveCursor scope name val d = d\<lparr>sync_cursors := mput (sync_cursors d) (scope, name) val\<rparr>"

definition q_Cursor :: "SourceScope \<Rightarrow> string \<Rightarrow> bridge_db \<Rightarrow> string option" where
  "q_Cursor scope name d = mget (sync_cursors d) (scope, name)"

subsection \<open>Statements on OAuth and Web Push\<close>

definition q_SaveOAuthSession :: "SourceScope \<Rightarrow> OAuthSession \<Rightarrow> bridge_db \<Rightarrow> bridge_db" where
  "q_SaveOAuthSession scope s d = d\<lparr>oauth_sessions := mput (oauth_sessions d) (scope, os_State s) s\<rparr>"

definition q_OAuthSessionByState :: "SourceScope \<Rightarrow> string \<Rightarrow> bridge_db \<Rightarrow> OAuthSession option" where
  "q_OAuthSessionByState scope st d = mget (oauth_sessions d) (scope, st)"

definition q_DeleteOAuthSession :: "SourceScope \<Rightarrow> string \<Rightarrow> bridge_db \<Rightarrow> bridge_db" where
  "q_DeleteOAuthSession scope st d = d\<lparr>oauth_sessions := mdel (oauth_sessions d) (scope, st)\<rparr>"

definition q_SaveOAuthToken :: "SourceScope \<Rightarrow> OAuthToken \<Rightarrow> bridge_db \<Rightarrow> bridge_db" where
  "q_SaveOAuthToken scope t d = d\<lparr>oauth_tokens := mput (oauth_tokens d) (scope, ot_AccountDID t) t\<rparr>"

definition q_OAuthTokenByAccountDID :: "SourceScope \<Rightarrow> string \<Rightarrow> bridge_db \<Rightarrow> OAuthToken option" where
  "q_OAuthTokenByAccountDID scope did d = mget (oauth_tokens d) (scope, did)"

definition q_UpdateOAuthTokenRefreshFailure :: "string \<Rightarrow> bool \<Rightarrow> SourceScope \<Rightarrow> string \<Rightarrow> bridge_db \<Rightarrow> bridge_db" where
  "q_UpdateOAuthTokenRefreshFailure cls reauth scope did d =
     (case mget (oauth_tokens d) (scope, did) of
        None \<Rightarrow> d
      | Some t \<Rightarrow> d\<lparr>oauth_tokens := mput (oauth_tokens d) (scope, did) (t\<lparr>ot_ErrorClass := cls, ot_ReauthRequired := reauth\<rparr>)\<rparr>)"

definition q_GetVAPIDKeys :: "bridge_db \<Rightarrow> StoredVAPIDKeys option" where
  "q_GetVAPIDKeys d = vapid_keys d"

definition q_SaveVAPIDKeys :: "StoredVAPIDKeys \<Rightarrow> bridge_db \<Rightarrow> bridge_db" where
  "q_SaveVAPIDKeys k d =
     d\<lparr>vapid_keys := (case vapid_keys d of None \<Rightarrow> Some k | Some old \<Rightarrow> Some (k\<lparr>vk_CreatedAt := vk_CreatedAt old\<rparr>))\<rparr>"

definition q_SaveVAPIDKeysIfAbsent :: "StoredVAPIDKeys \<Rightarrow> bridge_db \<Rightarrow> bridge_db" where
  "q_SaveVAPIDKeysIfAbsent k d = d\<lparr>vapid_keys := (case vapid_keys d of None \<Rightarrow> Some k | Some old \<Rightarrow> Some old)\<rparr>"

definition q_UpsertSubscription :: "StoredSubscription \<Rightarrow> bridge_db \<Rightarrow> bridge_db" where
  "q_UpsertSubscription s d =
     d\<lparr>subscriptions := mput (subscriptions d) (sub_Endpoint s)
        (case mget (subscriptions d) (sub_Endpoint s) of None \<Rightarrow> s | Some old \<Rightarrow> s\<lparr>sub_CreatedAt := sub_CreatedAt old\<rparr>)\<rparr>"

definition q_DeleteSubscription :: "string \<Rightarrow> bridge_db \<Rightarrow> bridge_db" where
  "q_DeleteSubscription e d = d\<lparr>subscriptions := mdel (subscriptions d) e\<rparr>"

definition q_ListSubscriptions :: "bridge_db \<Rightarrow> StoredSubscription list" where
  "q_ListSubscriptions d = sort_key sub_CreatedAt (map snd (subscriptions d))"

definition q_CountSubscriptions :: "bridge_db \<Rightarrow> int" where
  "q_CountSubscriptions d = int (length (subscriptions d))"

definition q_CountSubscriptionsByEndpoint :: "string \<Rightarrow> bridge_db \<Rightarrow> int" where
  "q_CountSubscriptionsByEndpoint e d = (if mget (subscriptions d) e = None then 0 else 1)"

subsection \<open>Running statements\<close>

datatype store_error =
    ErrSQL string
  | ErrNoRows string
  | ErrClaimLost
  | ErrInvalidLease
  | ErrOutboxFull
  | ErrPurgePending
  | ErrPurgeConflict
  | ErrAuthorMismatch
  | ErrInvalidOutboxPayload
  | ErrSourceScopeMismatch
  | ErrInvalidPurge
  | ErrPurgeNotCovering
  | ErrNotRegistered
  | ErrMaxSubscriptionsReached
  | ErrClaimToken
  | ErrMarshal
  | ErrNoStore

record sq =
  sq_faults :: "bool list"
  sq_db :: bridge_db

type_synonym 'a act = "sq \<Rightarrow> (store_error + 'a) \<times> sq"

definition fault :: "sq \<Rightarrow> bool" where
  "fault s = (case sq_faults s of [] \<Rightarrow> False | b # _ \<Rightarrow> b)"

definition passed :: "sq \<Rightarrow> sq" where
  "passed s = s\<lparr>sq_faults := tl (sq_faults s)\<rparr>"

definition return_ok :: "'a \<Rightarrow> 'a act" where
  "return_ok x s = (Inr x, s)"

definition return_err :: "store_error \<Rightarrow> 'a act" where
  "return_err e s = (Inl e, s)"

text \<open>A statement: it fails, or its answer and the new database go on to the rest.\<close>

definition stmt :: "string \<Rightarrow> (bridge_db \<Rightarrow> ('b \<times> bridge_db) option) \<Rightarrow> ('b \<Rightarrow> 'a act) \<Rightarrow> 'a act" where
  "stmt what f k s =
     (if fault s then (Inl (ErrSQL what), passed s)
      else
        case f (sq_db s) of
          None \<Rightarrow> (Inl (ErrSQL what), passed s)
        | Some (x, d) \<Rightarrow> k x ((passed s)\<lparr>sq_db := d\<rparr>))"

definition exec :: "string \<Rightarrow> (bridge_db \<Rightarrow> bridge_db) \<Rightarrow> 'a act \<Rightarrow> 'a act" where
  "exec what f k = stmt what (\<lambda>d. Some ((), f d)) (\<lambda>_. k)"

definition exec_checked :: "string \<Rightarrow> (bridge_db \<Rightarrow> bridge_db option) \<Rightarrow> 'a act \<Rightarrow> 'a act" where
  "exec_checked what f k = stmt what (\<lambda>d. map_option (Pair ()) (f d)) (\<lambda>_. k)"

definition query :: "string \<Rightarrow> (bridge_db \<Rightarrow> 'b) \<Rightarrow> ('b \<Rightarrow> 'a act) \<Rightarrow> 'a act" where
  "query what f k = stmt what (\<lambda>d. Some (f d, d)) k"

definition exec_result :: "string \<Rightarrow> (bridge_db \<Rightarrow> 'b \<times> bridge_db) \<Rightarrow> ('b \<Rightarrow> 'a act) \<Rightarrow> 'a act" where
  "exec_result what f k = stmt what (\<lambda>d. Some (f d)) k"

text \<open>A transaction: its body says whether to commit; anything else rolls back.\<close>

definition transaction :: "string \<Rightarrow> string \<Rightarrow> bool act \<Rightarrow> unit act" where
  "transaction beginMsg commitMsg body s =
     (if fault s then (Inl (ErrSQL beginMsg), passed s)
      else
        case body (passed s) of
          (Inl e, s2) \<Rightarrow> (Inl e, s2\<lparr>sq_db := sq_db s\<rparr>)
        | (Inr commit, s2) \<Rightarrow>
            if \<not> commit then (Inr (), s2\<lparr>sq_db := sq_db s\<rparr>)
            else if fault s2 then (Inl (ErrSQL commitMsg), (passed s2)\<lparr>sq_db := sq_db s\<rparr>)
            else (Inr (), passed s2))"

end
