(* ===== verification/Bridge_Store.thy ===== *)
theory Bridge_Store
  imports Bridge_Db
begin

text \<open>
  The operations of the bridge's state store (\<^verbatim>\<open>cmd/nostr-bridge/store/sqlite.go\<close>), each
  with its validation, its transaction and the order of its statements. Parsing of keys and
  events is in a package outside the repository: \<open>pubKeyHex\<close> answers the canonical
  hexadecimal form of a key (nothing for an invalid one), \<open>decodeEvent\<close> the event of a
  payload with the outcome of its identifier and signature checks.
\<close>

subsection \<open>Requests\<close>

record NostrEvent =
  ev_ID :: string
  ev_PubKey :: string
  ev_Kind :: int
  ev_Tags :: "string list list"
  ev_CreatedAt :: int
  ev_Content :: string
  ev_CheckID :: bool
  ev_VerifySignature :: bool

record nostr_env =
  pubKeyHex :: "string \<Rightarrow> string option"
  decodeEvent :: "string \<Rightarrow> NostrEvent option"
  encodeEvent :: "NostrEvent \<Rightarrow> string option"

record OutboxRequest =
  rq_AggregateKey :: string
  rq_Operation :: string
  rq_PubKey :: string
  rq_Payload :: string
  rq_AvailableAt :: int

record OutboxItem =
  it_ID :: int
  it_AggregateKey :: string
  it_Sequence :: int
  it_Operation :: string
  it_PubKey :: string
  it_Payload :: string
  it_Attempts :: int
  it_AvailableAt :: int
  it_LastError :: string
  it_ClaimToken :: string
  it_ClaimedUntil :: int

record CursorUpdate =
  cu_Name :: string
  cu_Value :: string

record EventEnqueueRequest =
  ee_Mapping :: EventMapping
  ee_Event :: OutboxRequest
  ee_Limit :: int
  ee_Cursor :: "CursorUpdate option"
  ee_SourceOperation :: string

record ReconciliationRequest =
  rc_Scope :: SourceScope
  rc_Targets :: "string list"
  rc_Events :: "EventEnqueueRequest list"
  rc_Limit :: int

record ReconciliationBatchRequest =
  rb_TargetScope :: SourceScope
  rb_Targets :: "string list"
  rb_EventScopes :: "SourceScope list"
  rb_Events :: "EventEnqueueRequest list"
  rb_CursorScope :: SourceScope
  rb_Cursor :: "CursorUpdate option"
  rb_Limit :: int

record DeleteEnqueueRequest =
  de_Source :: SourceRef
  de_Event :: OutboxRequest
  de_Limit :: int
  de_Cursor :: "CursorUpdate option"

record UpdateEnqueueRequest =
  ue_Mapping :: EventMapping
  ue_Deletion :: OutboxRequest
  ue_Replacement :: OutboxRequest
  ue_SourceOperation :: string
  ue_Limit :: int
  ue_Cursor :: "CursorUpdate option"

record PurgeRequest =
  pr_PubKey :: string
  pr_Payload :: string
  pr_AvailableAt :: int
  pr_Limit :: int

definition outboxItem :: "OutboxRow \<Rightarrow> OutboxItem" where
  "outboxItem r = \<lparr>it_ID = ob_id r, it_AggregateKey = ob_key r, it_Sequence = ob_seq r, it_Operation = ob_op r,
     it_PubKey = ob_pubkey r, it_Payload = ob_payload r, it_Attempts = ob_attempts r,
     it_AvailableAt = ob_avail r * 1000000000, it_LastError = ob_lasterr r, it_ClaimToken = [], it_ClaimedUntil = 0\<rparr>"

subsection \<open>Shared parts\<close>

definition enqueueOutbox :: "OutboxRequest \<Rightarrow> 'a act \<Rightarrow> 'a act" where
  "enqueueOutbox r k =
     exec ''advance outbox sequence'' (q_AdvanceOutboxSequence (rq_AggregateKey r))
       (exec_checked ''enqueue outbox item''
          (q_EnqueueOutbox (rq_AggregateKey r) (rq_Operation r) (rq_PubKey r) (rq_Payload r) (unix (rq_AvailableAt r))) k)"

definition rejectPurged :: "string \<Rightarrow> 'a act \<Rightarrow> 'a act" where
  "rejectPurged pk k =
     query ''check publisher purge'' (q_PublisherPurged pk) (\<lambda>purged. if purged then return_err ErrPurgePending else k)"

definition upsertEventMapping :: "string \<Rightarrow> EventMapping \<Rightarrow> 'a act \<Rightarrow> 'a act" where
  "upsertEventMapping what m k = exec what (q_UpsertEventMapping m) k"

definition saveSourceOperation :: "string \<Rightarrow> SourceRef \<Rightarrow> string \<Rightarrow> 'a act \<Rightarrow> 'a act" where
  "saveSourceOperation what ref ident k = exec what (q_SaveSourceOperation ref ident) k"

definition saveCursor :: "string \<Rightarrow> SourceScope \<Rightarrow> CursorUpdate \<Rightarrow> 'a act \<Rightarrow> 'a act" where
  "saveCursor what scope c k = exec what (q_SaveCursor scope (cu_Name c) (cu_Value c)) k"

definition saveCursorOpt :: "string \<Rightarrow> SourceScope \<Rightarrow> CursorUpdate option \<Rightarrow> 'a act \<Rightarrow> 'a act" where
  "saveCursorOpt what scope c k = (case c of None \<Rightarrow> k | Some u \<Rightarrow> saveCursor what scope u k)"

definition allowRequest :: "OutboxRequest \<Rightarrow> OutboxRequest" where
  "allowRequest r = \<lparr>rq_AggregateKey = rq_AggregateKey r, rq_Operation = OutboxAllowPublisher, rq_PubKey = rq_PubKey r,
     rq_Payload = [], rq_AvailableAt = rq_AvailableAt r\<rparr>"

text \<open>The identity of the author: the key is canonical and is the key of the aggregate.\<close>

definition authorOk :: "nostr_env \<Rightarrow> OutboxRequest \<Rightarrow> bool" where
  "authorOk env r \<longleftrightarrow> pubKeyHex env (rq_PubKey r) = Some (rq_PubKey r) \<and> rq_AggregateKey r = rq_PubKey r"

definition validateEvent :: "nostr_env \<Rightarrow> OutboxRequest \<Rightarrow> store_error option" where
  "validateEvent env r =
     (case decodeEvent env (rq_Payload r) of
        None \<Rightarrow> Some ErrInvalidOutboxPayload
      | Some e \<Rightarrow>
          if \<not> ev_CheckID e \<or> \<not> ev_VerifySignature e then Some ErrInvalidOutboxPayload
          else if ev_PubKey e \<noteq> rq_PubKey r then Some ErrAuthorMismatch
          else None)"

definition validatePublishRequest :: "nostr_env \<Rightarrow> OutboxRequest \<Rightarrow> store_error option" where
  "validatePublishRequest env r =
     (if rq_Operation r \<noteq> OutboxPublishEvent then Some ErrInvalidOutboxPayload
      else if \<not> authorOk env r then Some ErrAuthorMismatch
      else validateEvent env r)"

definition validateMappingEventID :: "nostr_env \<Rightarrow> EventMapping \<Rightarrow> OutboxRequest \<Rightarrow> store_error option" where
  "validateMappingEventID env m r =
     (case decodeEvent env (rq_Payload r) of
        None \<Rightarrow> Some ErrInvalidOutboxPayload
      | Some e \<Rightarrow> if NostrEventID m \<noteq> ev_ID e then Some ErrInvalidOutboxPayload else None)"

text \<open>\<^verbatim>\<open>errors.Is(err, sql.ErrNoRows)\<close>.\<close>

definition isNoRows :: "store_error \<Rightarrow> bool" where
  "isNoRows e = (case e of ErrNoRows _ \<Rightarrow> True | _ \<Rightarrow> False)"

text \<open>A check that returns its error, or goes on.\<close>

definition check :: "store_error option \<Rightarrow> 'a act \<Rightarrow> 'a act" where
  "check e k = (case e of Some err \<Rightarrow> return_err err | None \<Rightarrow> k)"

definition guard :: "bool \<Rightarrow> store_error \<Rightarrow> 'a act \<Rightarrow> 'a act" where
  "guard bad e k = (if bad then return_err e else k)"

subsection \<open>Enqueueing\<close>

definition EnqueueOutbox :: "nostr_env \<Rightarrow> OutboxRequest \<Rightarrow> unit act" where
  "EnqueueOutbox env r =
     guard (rq_Operation r \<in> {OutboxAllowPublisher, OutboxPublishEvent, OutboxUnallowPublisher} \<and> \<not> authorOk env r) ErrAuthorMismatch
     (check (if rq_Operation r = OutboxPublishEvent then validateEvent env r else None)
     (transaction ''begin enqueue outbox transaction'' ''commit enqueue outbox transaction''
        (let rest = enqueueOutbox r (return_ok True)
         in if rq_Operation r \<noteq> OutboxUnallowPublisher then rejectPurged (rq_PubKey r) rest else rest)))"

definition SaveEventAndEnqueue :: "nostr_env \<Rightarrow> EventMapping \<Rightarrow> OutboxRequest \<Rightarrow> unit act" where
  "SaveEventAndEnqueue env ev r =
     guard (rq_PubKey r \<noteq> AuthorPubKey ev) ErrAuthorMismatch
     (check (validatePublishRequest env r)
     (check (validateMappingEventID env ev r)
     (transaction ''begin save event and enqueue transaction'' ''commit save event and enqueue transaction''
        (rejectPurged (rq_PubKey r)
        (upsertEventMapping ''save bridge event'' ev
        (enqueueOutbox r (return_ok True)))))))"

text \<open>Room for what is needed, and the registration of the publisher first when it is missing.\<close>

definition withRegistration :: "string \<Rightarrow> OutboxRequest \<Rightarrow> int \<Rightarrow> int \<Rightarrow> bool act \<Rightarrow> bool act" where
  "withRegistration what r lim needed0 k =
     query ''count outbox items'' q_OutboxCount (\<lambda>count.
     query what (q_PublisherRegisteredOrPending (rq_PubKey r) (rq_AggregateKey r)) (\<lambda>registered.
       let needed = (if \<not> registered then needed0 + 1 else needed0) in
       guard (lim \<le> 0 \<or> count + needed > lim) ErrOutboxFull
         (if \<not> registered then enqueueOutbox (allowRequest r) k else k)))"

definition EnqueueEvent :: "nostr_env \<Rightarrow> EventEnqueueRequest \<Rightarrow> unit act" where
  "EnqueueEvent env r =
     guard (rq_PubKey (ee_Event r) \<noteq> AuthorPubKey (ee_Mapping r)) ErrAuthorMismatch
     (check (validatePublishRequest env (ee_Event r))
     (check (validateMappingEventID env (ee_Mapping r) (ee_Event r))
     (transaction ''begin durable event enqueue'' ''commit durable event enqueue''
        (rejectPurged (rq_PubKey (ee_Event r))
        (withRegistration ''find publisher registration'' (ee_Event r) (ee_Limit r) 1
        (upsertEventMapping ''save bridge event'' (ee_Mapping r)
        (enqueueOutbox (ee_Event r)
        (saveCursorOpt ''save sync cursor'' (Scope (em_Source (ee_Mapping r))) (ee_Cursor r)
        (if ee_SourceOperation r \<noteq> []
         then saveSourceOperation ''save source operation'' (em_Source (ee_Mapping r)) (ee_SourceOperation r) (return_ok True)
         else return_ok True)))))))))"

definition EnqueueDelete :: "nostr_env \<Rightarrow> DeleteEnqueueRequest \<Rightarrow> unit act" where
  "EnqueueDelete env r =
     transaction ''begin durable delete enqueue'' ''commit durable delete enqueue''
       (query ''find delete mapping author'' (q_EventAuthorBySourceURI (de_Source r)) (\<lambda>author.
          case author of
            None \<Rightarrow> return_err (ErrNoRows ''find delete mapping author'')
          | Some stored \<Rightarrow>
              guard (rq_PubKey (de_Event r) \<noteq> stored) ErrAuthorMismatch
              (check (validatePublishRequest env (de_Event r))
              (rejectPurged (rq_PubKey (de_Event r))
              (withRegistration [] (de_Event r) (de_Limit r) 1
              (exec ''delete bridge event'' (q_DeleteEventMapping (de_Source r))
              (exec ''delete source operation'' (q_DeleteSourceOperation (de_Source r))
              (enqueueOutbox (de_Event r)
              (saveCursorOpt [] (Scope (de_Source r)) (de_Cursor r) (return_ok True))))))))))"

definition EnqueueUpdate :: "nostr_env \<Rightarrow> UpdateEnqueueRequest \<Rightarrow> unit act" where
  "EnqueueUpdate env r =
     guard (rq_PubKey (ue_Deletion r) \<noteq> rq_PubKey (ue_Replacement r) \<or> rq_PubKey (ue_Replacement r) \<noteq> AuthorPubKey (ue_Mapping r))
       ErrAuthorMismatch
     (check (validatePublishRequest env (ue_Deletion r))
     (check (validatePublishRequest env (ue_Replacement r))
     (check (validateMappingEventID env (ue_Mapping r) (ue_Replacement r))
     (transaction ''begin durable update enqueue'' ''commit durable update enqueue''
        (rejectPurged (rq_PubKey (ue_Replacement r))
        (withRegistration [] (ue_Replacement r) (ue_Limit r) 2
        (enqueueOutbox (ue_Deletion r)
        (upsertEventMapping ''replace bridge event'' (ue_Mapping r)
        (enqueueOutbox (ue_Replacement r)
        (let rest = saveCursorOpt ''save sync cursor'' (Scope (em_Source (ue_Mapping r))) (ue_Cursor r) (return_ok True)
         in if ue_SourceOperation r \<noteq> []
            then saveSourceOperation ''save source operation'' (em_Source (ue_Mapping r)) (ue_SourceOperation r) rest
            else rest))))))))))"

subsection \<open>Purging a publisher\<close>

text \<open>The identifiers a deletion event tags.\<close>

fun taggedIDs :: "string list list \<Rightarrow> string list" where
  "taggedIDs [] = []"
| "taggedIDs (t # ts) = (case t of name # val # _ \<Rightarrow> if name = ''e'' then val # taggedIDs ts else taggedIDs ts | _ \<Rightarrow> taggedIDs ts)"

text \<open>The sets have the same size and every known identifier is tagged.\<close>

definition coversKnown :: "string list list \<Rightarrow> string list \<Rightarrow> bool" where
  "coversKnown tags ids \<longleftrightarrow>
     length (remdups (taggedIDs tags)) = length (remdups ids) \<and> list_all (\<lambda>i. i \<in> set (taggedIDs tags)) (remdups ids)"

definition purgeRequests :: "PurgeRequest \<Rightarrow> OutboxRequest \<times> OutboxRequest" where
  "purgeRequests r =
     (\<lparr>rq_AggregateKey = pr_PubKey r, rq_Operation = OutboxPublishEvent, rq_PubKey = pr_PubKey r, rq_Payload = pr_Payload r,
       rq_AvailableAt = pr_AvailableAt r\<rparr>,
      \<lparr>rq_AggregateKey = pr_PubKey r, rq_Operation = OutboxUnallowPublisher, rq_PubKey = pr_PubKey r, rq_Payload = [],
       rq_AvailableAt = pr_AvailableAt r\<rparr>)"

definition EnqueuePurge :: "nostr_env \<Rightarrow> PurgeRequest \<Rightarrow> unit act" where
  "EnqueuePurge env r =
     transaction ''begin purge enqueue'' ''commit purge enqueue''
       (case decodeEvent env (pr_Payload r) of
          None \<Rightarrow> return_err ErrInvalidPurge
        | Some del \<Rightarrow>
            guard (ev_Kind del \<noteq> 5 \<or> ev_PubKey del \<noteq> pr_PubKey r \<or> \<not> ev_CheckID del \<or> \<not> ev_VerifySignature del) ErrInvalidPurge
            (query [] (q_EventIDsByAuthor (pr_PubKey r)) (\<lambda>ids.
             guard (\<not> coversKnown (ev_Tags del) ids) ErrPurgeNotCovering
             (query [] (q_PublisherPurgeEvent (pr_PubKey r)) (\<lambda>marked.
              case marked of
                Some m \<Rightarrow> if m = ev_ID del then return_ok False else return_err ErrPurgePending
              | None \<Rightarrow>
                  query [] (q_PublisherUnallowPending (pr_PubKey r)) (\<lambda>unallowExists.
                  guard unallowExists ErrPurgeConflict
                  (query [] (q_PublisherRegistered (pr_PubKey r)) (\<lambda>registered.
                   guard (\<not> registered) ErrNotRegistered
                   (query [] q_OutboxCount (\<lambda>count.
                    guard (pr_Limit r \<le> 0 \<or> count + 2 > pr_Limit r) ErrOutboxFull
                    (exec_checked ''mark publisher purge''
                       (q_InsertPublisherPurge (pr_PubKey r) (ev_ID del) (unix (pr_AvailableAt r)))
                    (enqueueOutbox (fst (purgeRequests r))
                    (enqueueOutbox (snd (purgeRequests r)) (return_ok True))))))))))))))"

subsection \<open>Claiming and completing\<close>

definition item_order :: "OutboxItem \<Rightarrow> int \<times> int" where
  "item_order i = (it_AvailableAt i, it_ID i)"

text \<open>\<open>token\<close> is what the random source answers.\<close>

definition ClaimOutbox :: "string option \<Rightarrow> int \<Rightarrow> int \<Rightarrow> int \<Rightarrow> OutboxItem list act" where
  "ClaimOutbox token now lease lim =
     guard (lease \<le> 0) ErrInvalidLease
     (if lim \<le> 0 then return_ok []
      else
        case token of
          None \<Rightarrow> return_err ErrClaimToken
        | Some tok \<Rightarrow>
            exec_result ''select claimable outbox items'' (q_ClaimOutbox tok (now + lease) now (unix now) lim) (\<lambda>rows.
              return_ok (sort_key item_order
                (map (\<lambda>r. (outboxItem r)\<lparr>it_ClaimToken := tok, it_ClaimedUntil := now + lease\<rparr>) rows))))"

definition requireClaimOwner :: "int \<Rightarrow> 'a act \<Rightarrow> 'a act" where
  "requireClaimOwner rows k = guard (rows = 0) ErrClaimLost k"

definition CompleteOutbox :: "int \<Rightarrow> string \<Rightarrow> int \<Rightarrow> unit act" where
  "CompleteOutbox i tok now =
     exec_result ''complete outbox item'' (q_CompleteOutbox i tok now) (\<lambda>rows. requireClaimOwner rows (return_ok ()))"

definition CompletePublisherRegistration :: "int \<Rightarrow> string \<Rightarrow> string \<Rightarrow> int \<Rightarrow> unit act" where
  "CompletePublisherRegistration i tok pk now =
     transaction ''begin publisher registration completion'' ''commit publisher registration completion''
       (exec_result ''complete publisher registration outbox item'' (q_CompleteOutbox i tok now) (\<lambda>rows.
        requireClaimOwner rows
        (exec ''set publisher registered'' (q_SetPublisherRegistered pk (unix now)) (return_ok True))))"

definition RecoverPublisherRegistration :: "int \<Rightarrow> string \<Rightarrow> string \<Rightarrow> int \<Rightarrow> unit act" where
  "RecoverPublisherRegistration i tok pk now =
     transaction ''begin publisher recovery'' ''commit publisher recovery''
       (query ''load rejected publish'' (q_ClaimedPublishEvent i tok now) (\<lambda>claimed.
          case claimed of
            None \<Rightarrow> return_err ErrClaimLost
          | Some (k, sq, payload) \<Rightarrow>
              guard (k \<noteq> pk) ErrAuthorMismatch
              (exec [] (q_ClearPublisherRegistration pk)
              (exec [] (q_ResetRejectedPublishAsRegistration (unix now) i)
              (exec_checked [] (q_NegateLaterOutboxSequences k sq)
              (exec_checked [] (q_ShiftNegatedOutboxSequences k)
              (exec [] (q_IncrementOutboxLastSequence k)
              (exec_checked [] (q_InsertRecoveredPublish k (sq + 1) pk payload (unix now))
              (return_ok True)))))))))"

definition CompletePublisherUnregistration :: "int \<Rightarrow> string \<Rightarrow> int \<Rightarrow> string \<Rightarrow> unit act" where
  "CompletePublisherUnregistration i tok now pk =
     transaction ''begin publisher unregistration completion'' ''commit publisher unregistration completion''
       (exec_result ''complete publisher unregistration outbox item'' (q_CompleteOutbox i tok now) (\<lambda>rows.
        requireClaimOwner rows
        (exec ''clear publisher registration'' (q_ClearPublisherRegistration pk)
        (exec ''delete publisher source operations'' (q_DeletePublisherSourceOperations pk)
        (exec ''delete publisher mappings'' (q_DeletePublisherMappings pk) (return_ok True))))))"

definition RetryOutbox :: "int \<Rightarrow> string \<Rightarrow> int \<Rightarrow> int \<Rightarrow> string \<Rightarrow> unit act" where
  "RetryOutbox i tok now availableAt lasterr =
     exec_result ''retry outbox item'' (q_RetryOutbox (unix availableAt) lasterr i tok now) (\<lambda>rows.
       requireClaimOwner rows (return_ok ()))"

subsection \<open>Reconciliation\<close>

text \<open>
  The first loop of \<open>ReconcileBatch\<close>: which events are not stored yet, how many outbox items
  they need, and which of their publishers are registered. It reads only.
\<close>

definition scanPending ::
    "EventEnqueueRequest \<Rightarrow> (string, bool) gomap \<Rightarrow> int \<Rightarrow> ((string, bool) gomap \<Rightarrow> int \<Rightarrow> 'a act) \<Rightarrow> 'a act" where
  "scanPending e registered needed k =
     (case mget registered (rq_PubKey (ee_Event e)) of
        Some _ \<Rightarrow> k registered (needed + 1)
      | None \<Rightarrow>
          query ''find publisher registration''
            (q_PublisherRegisteredOrPending (rq_PubKey (ee_Event e)) (rq_AggregateKey (ee_Event e))) (\<lambda>allowed.
            k (mput registered (rq_PubKey (ee_Event e)) allowed) (if allowed then needed + 1 else needed + 2)))"

fun scanEvents ::
    "nostr_env \<Rightarrow> SourceScope list \<Rightarrow> EventEnqueueRequest list \<Rightarrow> (string, bool) gomap \<Rightarrow> EventEnqueueRequest list \<Rightarrow> int
      \<Rightarrow> ((string, bool) gomap \<Rightarrow> EventEnqueueRequest list \<Rightarrow> int \<Rightarrow> 'a act) \<Rightarrow> 'a act" where
  "scanEvents env scopes [] registered pending needed k = k registered pending needed"
| "scanEvents env scopes (e # es) registered pending needed k =
     guard (Scope (em_Source (ee_Mapping e)) \<notin> set scopes) ErrSourceScopeMismatch
     (guard (rq_PubKey (ee_Event e) \<noteq> AuthorPubKey (ee_Mapping e)) ErrAuthorMismatch
     (check (validatePublishRequest env (ee_Event e))
     (check (validateMappingEventID env (ee_Mapping e) (ee_Event e))
     (rejectPurged (rq_PubKey (ee_Event e))
     (query ''find reconciliation mapping'' (q_EventIDBySourceURI (em_Source (ee_Mapping e))) (\<lambda>existing.
        let skip = scanEvents env scopes es registered pending needed k;
            add = scanPending e registered needed (\<lambda>registered' needed'.
                    scanEvents env scopes es registered' (pending @ [e]) needed' k)
        in case existing of
             None \<Rightarrow> add
           | Some ident \<Rightarrow>
               if ee_SourceOperation e \<noteq> [] then
                 query ''find reconciliation identity'' (q_SourceOperationBySourceURI (em_Source (ee_Mapping e))) (\<lambda>op.
                   if op = Some (ee_SourceOperation e) then skip else add)
               else if ident = NostrEventID (ee_Mapping e) then skip else add))))))"

fun insertTargets :: "SourceScope \<Rightarrow> string list \<Rightarrow> 'a act \<Rightarrow> 'a act" where
  "insertTargets scope [] k = k"
| "insertTargets scope (t # ts) k = exec ''save sync target'' (q_InsertSyncTarget scope t) (insertTargets scope ts k)"

text \<open>The second loop: what is pending is written, each registration before the first event of
  its publisher.\<close>

fun writePending :: "(string, bool) gomap \<Rightarrow> string list \<Rightarrow> EventEnqueueRequest list \<Rightarrow> 'a act \<Rightarrow> 'a act" where
  "writePending registered queued [] k = k"
| "writePending registered queued (e # es) k =
     (let pk = rq_PubKey (ee_Event e);
          allow = (mget registered pk \<noteq> Some True \<and> pk \<notin> set queued);
          rest = upsertEventMapping ''save reconciliation mapping'' (ee_Mapping e)
            (let enq = enqueueOutbox (ee_Event e) (writePending registered (if allow then pk # queued else queued) es k)
             in if ee_SourceOperation e \<noteq> []
                then saveSourceOperation ''save reconciliation identity'' (em_Source (ee_Mapping e)) (ee_SourceOperation e) enq
                else enq)
      in if allow then enqueueOutbox (allowRequest (ee_Event e)) rest else rest)"

definition ReconcileBatch :: "nostr_env \<Rightarrow> ReconciliationBatchRequest \<Rightarrow> unit act" where
  "ReconcileBatch env r =
     transaction ''begin reconciliation'' ''commit reconciliation''
       (query ''count outbox items'' q_OutboxCount (\<lambda>count.
        guard (rb_Cursor r \<noteq> None \<and> rb_CursorScope r \<notin> set (rb_EventScopes r)) ErrSourceScopeMismatch
        (scanEvents env (rb_EventScopes r) (rb_Events r) [] [] 0 (\<lambda>registered pending needed.
           guard (rb_Limit r \<le> 0 \<or> count + needed > rb_Limit r) ErrOutboxFull
           (exec ''clear sync targets'' (q_ReplaceSyncTargetsDelete (rb_TargetScope r))
           (insertTargets (rb_TargetScope r) (rb_Targets r)
           (writePending registered [] pending
           (saveCursorOpt ''save reconciliation cursor'' (rb_CursorScope r) (rb_Cursor r) (return_ok True)))))))))"

definition Reconcile :: "nostr_env \<Rightarrow> ReconciliationRequest \<Rightarrow> unit act" where
  "Reconcile env r =
     ReconcileBatch env \<lparr>rb_TargetScope = rc_Scope r, rb_Targets = rc_Targets r, rb_EventScopes = [rc_Scope r],
       rb_Events = rc_Events r, rb_CursorScope = \<lparr>Provider = [], Account = []\<rparr>, rb_Cursor = None, rb_Limit = rc_Limit r\<rparr>"

subsection \<open>The remaining operations\<close>

definition EventIDsByAuthor :: "string \<Rightarrow> string list act" where
  "EventIDsByAuthor pk = query ''query author event IDs'' (q_EventIDsByAuthor pk) return_ok"

definition OutboxCount :: "int act" where
  "OutboxCount = query ''count outbox items'' q_OutboxCount return_ok"

definition SetPublisherRegistered :: "string \<Rightarrow> int \<Rightarrow> unit act" where
  "SetPublisherRegistered pk at = exec ''set publisher registered'' (q_SetPublisherRegistered pk (unix at)) (return_ok ())"

definition ClearPublisherRegistration :: "string \<Rightarrow> unit act" where
  "ClearPublisherRegistration pk = exec ''clear publisher registration'' (q_ClearPublisherRegistration pk) (return_ok ())"

definition PublisherRegistered :: "string \<Rightarrow> bool act" where
  "PublisherRegistered pk = query ''find publisher registration'' (q_PublisherRegistered pk) return_ok"

definition ReplaceSyncTargets :: "SourceScope \<Rightarrow> string list \<Rightarrow> unit act" where
  "ReplaceSyncTargets scope targets =
     transaction ''begin replace sync targets transaction'' ''commit replace sync targets transaction''
       (exec ''clear sync targets'' (q_ReplaceSyncTargetsDelete scope) (insertTargets scope targets (return_ok True)))"

definition SyncTargets :: "SourceScope \<Rightarrow> string list act" where
  "SyncTargets scope = query ''query sync targets'' (q_SyncTargets scope) return_ok"

definition queryRow :: "string \<Rightarrow> (bridge_db \<Rightarrow> 'a option) \<Rightarrow> 'a act" where
  "queryRow what f = query what f (\<lambda>row. case row of None \<Rightarrow> return_err (ErrNoRows what) | Some x \<Rightarrow> return_ok x)"

definition EventMappingBySourceURI :: "SourceRef \<Rightarrow> EventMapping act" where
  "EventMappingBySourceURI ref = queryRow ''find bridge event by source URI'' (q_EventMappingBySourceURI ref)"

definition SaveEventMapping :: "EventMapping \<Rightarrow> unit act" where
  "SaveEventMapping m = upsertEventMapping ''save event mapping'' m (return_ok ())"

definition DeleteEventBySourceURI :: "SourceRef \<Rightarrow> unit act" where
  "DeleteEventBySourceURI ref =
     transaction ''begin delete bridge event transaction'' ''commit delete bridge event transaction''
       (exec ''delete bridge event by source URI'' (q_DeleteEventMapping ref) (return_ok True))"

definition SaveSourceOperation :: "SourceRef \<Rightarrow> string \<Rightarrow> unit act" where
  "SaveSourceOperation ref ident = saveSourceOperation ''save source operation'' ref ident (return_ok ())"

definition SourceOperationBySourceURI :: "SourceRef \<Rightarrow> string act" where
  "SourceOperationBySourceURI ref = queryRow ''find source operation by source URI'' (q_SourceOperationBySourceURI ref)"

definition SaveCursor :: "SourceScope \<Rightarrow> string \<Rightarrow> string \<Rightarrow> unit act" where
  "SaveCursor scope name val = saveCursor ''save sync cursor'' scope \<lparr>cu_Name = name, cu_Value = val\<rparr> (return_ok ())"

definition Cursor :: "SourceScope \<Rightarrow> string \<Rightarrow> string act" where
  "Cursor scope name = queryRow ''find sync cursor'' (q_Cursor scope name)"

definition SaveOAuthSession :: "SourceScope \<Rightarrow> OAuthSession \<Rightarrow> unit act" where
  "SaveOAuthSession scope x = exec ''save OAuth session'' (q_SaveOAuthSession scope x) (return_ok ())"

definition OAuthSessionByState :: "SourceScope \<Rightarrow> string \<Rightarrow> OAuthSession act" where
  "OAuthSessionByState scope st = queryRow ''find OAuth session by state'' (q_OAuthSessionByState scope st)"

definition DeleteOAuthSession :: "SourceScope \<Rightarrow> string \<Rightarrow> unit act" where
  "DeleteOAuthSession scope st = exec ''delete OAuth session'' (q_DeleteOAuthSession scope st) (return_ok ())"

definition SaveOAuthToken :: "SourceScope \<Rightarrow> OAuthToken \<Rightarrow> unit act" where
  "SaveOAuthToken scope t = exec ''save OAuth token'' (q_SaveOAuthToken scope t) (return_ok ())"

definition UpdateOAuthTokenRefreshFailure :: "SourceScope \<Rightarrow> string \<Rightarrow> string \<Rightarrow> bool \<Rightarrow> unit act" where
  "UpdateOAuthTokenRefreshFailure scope did cls reauth =
     exec ''update OAuth token refresh failure'' (q_UpdateOAuthTokenRefreshFailure cls reauth scope did) (return_ok ())"

definition OAuthTokenByAccountDID :: "SourceScope \<Rightarrow> string \<Rightarrow> OAuthToken act" where
  "OAuthTokenByAccountDID scope did = queryRow ''find OAuth token by account DID'' (q_OAuthTokenByAccountDID scope did)"

definition GetVAPIDKeys :: "StoredVAPIDKeys option act" where
  "GetVAPIDKeys = query ''find VAPID keys'' q_GetVAPIDKeys return_ok"

definition SaveVAPIDKeys :: "StoredVAPIDKeys \<Rightarrow> unit act" where
  "SaveVAPIDKeys keys = exec ''save VAPID keys'' (q_SaveVAPIDKeys keys) (return_ok ())"

definition SaveVAPIDKeysIfAbsent :: "StoredVAPIDKeys \<Rightarrow> unit act" where
  "SaveVAPIDKeysIfAbsent keys = exec ''save VAPID keys if absent'' (q_SaveVAPIDKeysIfAbsent keys) (return_ok ())"

definition UpsertSubscriptionWithLimit :: "StoredSubscription \<Rightarrow> int \<Rightarrow> unit act" where
  "UpsertSubscriptionWithLimit sub maxLimit =
     transaction ''begin transaction'' ''commit subscription transaction''
       (let write = exec ''upsert subscription in transaction'' (q_UpsertSubscription sub) (return_ok True)
        in if maxLimit > 0 then
             query ''check existing subscription'' (q_CountSubscriptionsByEndpoint (sub_Endpoint sub)) (\<lambda>existing.
               if existing = 0 then
                 query ''count subscriptions'' q_CountSubscriptions (\<lambda>count.
                   guard (count \<ge> maxLimit) ErrMaxSubscriptionsReached write)
               else write)
           else write)"

definition DeleteSubscription :: "string \<Rightarrow> unit act" where
  "DeleteSubscription e = exec ''delete subscription'' (q_DeleteSubscription e) (return_ok ())"

definition ListSubscriptions :: "StoredSubscription list act" where
  "ListSubscriptions = query ''list subscriptions'' q_ListSubscriptions return_ok"

end
