(* ===== verification/Bridge_Outbox.thy ===== *)
theory Bridge_Outbox
  imports Bridge_Store
begin

text \<open>
  What the outbox promises. Abstractly it is a first-in first-out queue per aggregate (the
  publisher): \<open>queue d k\<close>. A calculus of what holds after a statement, a transaction and an
  operation (\<open>after\<close>) reduces each operation to its statements; the lemmas of this theory say
  what each does to the queues and that all keep the invariant of the table.
\<close>

subsection \<open>What holds after a program that succeeds\<close>

lemma sq_eta [simp]: "\<lparr>sq_faults = sq_faults s, sq_db = sq_db s\<rparr> = s"
  by simp

definition after :: "'a act \<Rightarrow> ('a \<Rightarrow> bridge_db \<Rightarrow> bool) \<Rightarrow> bridge_db \<Rightarrow> bool" where
  "after m Q d \<longleftrightarrow> (\<forall>fs x s'. m \<lparr>sq_faults = fs, sq_db = d\<rparr> = (Inr x, s') \<longrightarrow> Q x (sq_db s'))"

named_theorems after_simps \<open>what holds after a program, by its first statement\<close>

lemma after_return_ok [after_simps]: "after (return_ok x) Q d \<longleftrightarrow> Q x d"
  by (simp add: after_def return_ok_def)

lemma after_return_err [after_simps]: "after (return_err e) Q d \<longleftrightarrow> True"
  by (simp add: after_def return_err_def)

lemma after_stmt:
  assumes "\<And>x d'. f d = Some (x, d') \<Longrightarrow> after (k x) Q d'"
  shows "after (stmt what f k) Q d"
  unfolding after_def
proof (intro allI impI)
  fix fs x s'
  assume run: "stmt what f k \<lparr>sq_faults = fs, sq_db = d\<rparr> = (Inr x, s')"
  then obtain y d' where "f d = Some (y, d')" "k y \<lparr>sq_faults = tl fs, sq_db = d'\<rparr> = (Inr x, s')"
    by (auto simp: stmt_def passed_def split: if_splits option.splits)
  then show "Q x (sq_db s')" using assms unfolding after_def by blast
qed

lemma after_exec [after_simps]: "after k Q (f d) \<Longrightarrow> after (exec what f k) Q d"
  unfolding exec_def by (rule after_stmt) auto

lemma after_exec_checked: "(\<And>d'. f d = Some d' \<Longrightarrow> after k Q d') \<Longrightarrow> after (exec_checked what f k) Q d"
  unfolding exec_checked_def by (rule after_stmt) auto

lemma after_query: "after (k (f d)) Q d \<Longrightarrow> after (query what f k) Q d"
  unfolding query_def by (rule after_stmt) auto

lemma after_exec_result: "(\<And>x d'. f d = (x, d') \<Longrightarrow> after (k x) Q d') \<Longrightarrow> after (exec_result what f k) Q d"
  unfolding exec_result_def by (rule after_stmt) auto

lemma after_guard: "(\<not> bad \<Longrightarrow> after k Q d) \<Longrightarrow> after (guard bad e k) Q d"
  by (auto simp: guard_def after_return_err)

lemma after_check: "(e = None \<Longrightarrow> after k Q d) \<Longrightarrow> after (check e k) Q d"
  by (auto simp: check_def after_return_err split: option.split)

lemma after_mono: "after m Q d \<Longrightarrow> (\<And>x d'. Q x d' \<Longrightarrow> Q' x d') \<Longrightarrow> after m Q' d"
  unfolding after_def by blast

text \<open>An operation either fails and leaves the database alone, or succeeds with \<open>Q\<close>.\<close>

definition atomic_op :: "'a act \<Rightarrow> ('a \<Rightarrow> bridge_db \<Rightarrow> bool) \<Rightarrow> bridge_db \<Rightarrow> bool" where
  "atomic_op m Q d \<longleftrightarrow> (\<forall>fs. case m \<lparr>sq_faults = fs, sq_db = d\<rparr> of
     (Inl e, s') \<Rightarrow> sq_db s' = d
   | (Inr x, s') \<Rightarrow> Q x (sq_db s'))"

lemma atomic_transaction:
  assumes "after body (\<lambda>commit d'. if commit then Q () d' else Q () d) d"
  shows "atomic_op (transaction b c body) Q d"
  unfolding atomic_op_def
proof (rule allI)
  fix fs
  obtain r s2 where run: "body \<lparr>sq_faults = tl fs, sq_db = d\<rparr> = (r, s2)"
    by (cases "body \<lparr>sq_faults = tl fs, sq_db = d\<rparr>")
  have "r = Inr commit \<Longrightarrow> if commit then Q () (sq_db s2) else Q () d" for commit
    using assms run unfolding after_def by fastforce
  then show "case transaction b c body \<lparr>sq_faults = fs, sq_db = d\<rparr> of (Inl e, s') \<Rightarrow> sq_db s' = d | (Inr x, s') \<Rightarrow> Q x (sq_db s')"
    using run by (auto simp: transaction_def passed_def split: sum.split if_splits)
qed

lemma atomic_guard: "(\<not> bad \<Longrightarrow> atomic_op m Q d) \<Longrightarrow> atomic_op (guard bad e m) Q d"
  by (auto simp: guard_def atomic_op_def return_err_def)

lemma atomic_check: "(e = None \<Longrightarrow> atomic_op m Q d) \<Longrightarrow> atomic_op (check e m) Q d"
  by (auto simp: check_def atomic_op_def return_err_def split: option.split)

lemma atomic_exec: "Q () (f d) \<Longrightarrow> atomic_op (exec what f (return_ok ())) Q d"
  by (auto simp: atomic_op_def exec_def stmt_def return_ok_def passed_def)

lemma atomic_query: "(\<And>x. Q x d) \<Longrightarrow> atomic_op (query what f return_ok) Q d"
  by (auto simp: atomic_op_def query_def stmt_def return_ok_def passed_def)

lemma atomic_queryRow: "(\<And>x. Q x d) \<Longrightarrow> atomic_op (queryRow what f) Q d"
  by (auto simp: atomic_op_def queryRow_def query_def stmt_def return_ok_def return_err_def passed_def split: option.split)

lemma atomic_mono: "atomic_op m Q d \<Longrightarrow> (\<And>x d'. Q x d' \<Longrightarrow> Q' x d') \<Longrightarrow> atomic_op m Q' d"
  unfolding atomic_op_def by (fastforce split: prod.splits sum.splits)

lemma atomic_run:
  assumes "atomic_op m Q (sq_db s)" "m s = (r, s')"
  shows "case r of Inl e \<Rightarrow> sq_db s' = sq_db s | Inr x \<Rightarrow> Q x (sq_db s')"
  using assms(1) [unfolded atomic_op_def, rule_format, of "sq_faults s"] assms(2) by simp

text \<open>A query of one row finds it, finds none, or fails; it changes nothing.\<close>

lemma row_cases [case_names found missing failed]:
  obtains x s1 where "queryRow what f s = (Inr x, s1)" "f (sq_db s) = Some x" "sq_db s1 = sq_db s"
  | e s1 where "queryRow what f s = (Inl e, s1)" "isNoRows e" "f (sq_db s) = None" "sq_db s1 = sq_db s"
  | e s1 where "queryRow what f s = (Inl e, s1)" "\<not> isNoRows e" "sq_db s1 = sq_db s"
proof (cases "fault s")
  case True
  then have "queryRow what f s = (Inl (ErrSQL what), passed s)" by (simp add: queryRow_def query_def stmt_def)
  then show ?thesis using that(3) by (simp add: isNoRows_def passed_def)
next
  case False
  then show ?thesis
    using that(1,2) by (cases "f (sq_db s)") (auto simp: queryRow_def query_def stmt_def passed_def return_ok_def return_err_def isNoRows_def)
qed

subsection \<open>Queues\<close>

definition aggregate :: "bridge_db \<Rightarrow> string \<Rightarrow> OutboxRow list" where
  "aggregate d k = sort_key ob_seq (filter (\<lambda>r. ob_key r = k) (outbox d))"

definition queue_entry :: "OutboxRow \<Rightarrow> string \<times> string \<times> string" where
  "queue_entry r = (ob_op r, ob_pubkey r, ob_payload r)"

definition queue :: "bridge_db \<Rightarrow> string \<Rightarrow> (string \<times> string \<times> string) list" where
  "queue d k = map queue_entry (aggregate d k)"

definition outbox_inv :: "bridge_db \<Rightarrow> bool" where
  "outbox_inv d \<longleftrightarrow> distinct (map ob_id (outbox d)) \<and> (\<forall>r \<in> set (outbox d). ob_id r \<le> last_id d)
     \<and> outbox_unique (outbox d) \<and> list_all (\<lambda>r. outbox_check (ob_op r)) (outbox d)
     \<and> (\<forall>r \<in> set (outbox d). \<exists>n. mget (outbox_sequences d) (ob_key r) = Some n \<and> 1 \<le> ob_seq r \<and> ob_seq r \<le> n)
     \<and> (\<forall>r \<in> set (outbox d). ob_token r \<noteq> [] \<longrightarrow> no_prior d r)
     \<and> (\<forall>k n. mget (outbox_sequences d) k = Some n \<longrightarrow> 1 \<le> n)"

lemma outbox_inv_empty: "outbox_inv empty_db"
  by (simp add: outbox_inv_def empty_db_def outbox_unique_def)

lemma seq_inj: "outbox_unique rows \<Longrightarrow> inj_on ob_seq (set (filter (\<lambda>r. ob_key r = k) rows))"
  unfolding outbox_unique_def by (auto simp: distinct_map inj_on_def)

text \<open>The rows of an aggregate in order, found by any sorted listing of them.\<close>

lemma aggregateI:
  assumes "outbox_unique (outbox d)" "mset ys = mset (filter (\<lambda>r. ob_key r = k) (outbox d))" "sorted (map ob_seq ys)"
  shows "aggregate d k = ys"
  unfolding aggregate_def using assms seq_inj [OF assms(1), of k]
  by (intro sort_key_inj_key_eq) (auto dest: sym)

lemma aggregate_cong: "filter (\<lambda>r. ob_key r = k) (outbox d) = filter (\<lambda>r. ob_key r = k) (outbox d') \<Longrightarrow> aggregate d k = aggregate d' k"
  by (simp add: aggregate_def)

lemma mset_aggregate [simp]: "mset (aggregate d k) = mset (filter (\<lambda>r. ob_key r = k) (outbox d))"
  by (simp add: aggregate_def)

lemma set_aggregate [simp]: "set (aggregate d k) = {r \<in> set (outbox d). ob_key r = k}"
  by (simp add: aggregate_def)

lemma sorted_aggregate [simp]: "sorted (map ob_seq (aggregate d k))"
  by (simp add: aggregate_def)

text \<open>The row without a predecessor is the head.\<close>

lemma aggregate_head:
  assumes u: "outbox_unique (outbox d)" and r: "r \<in> set (outbox d)" "no_prior d r"
  shows "aggregate d (ob_key r) = r # tl (aggregate d (ob_key r))"
proof (cases "aggregate d (ob_key r)")
  case Nil
  then have "set (aggregate d (ob_key r)) = {}" by simp
  then show ?thesis using r(1) by auto
next
  case (Cons x xs)
  have x: "x \<in> set (outbox d)" "ob_key x = ob_key r"
    using set_aggregate [of d "ob_key r"] Cons by (metis (mono_tags, lifting) list.set_intros(1) mem_Collect_eq)+
  have "r \<in> set (x # xs)" using set_aggregate [of d "ob_key r"] Cons r(1) by auto
  then have "ob_seq x \<le> ob_seq r" using sorted_aggregate [of d "ob_key r"] Cons by auto
  moreover have "\<not> ob_seq x < ob_seq r" using r(2) x by (auto simp: no_prior_def list_ex_iff)
  ultimately have "ob_seq x = ob_seq r" by simp
  then have "x = r" using u x r(1) unfolding outbox_unique_def by (auto simp: distinct_map inj_on_def)
  then show ?thesis using Cons by simp
qed

subsection \<open>Enqueueing appends\<close>

text \<open>The tables beside the outbox.\<close>

definition same_rest :: "bridge_db \<Rightarrow> bridge_db \<Rightarrow> bool" where
  "same_rest d d' \<longleftrightarrow> bridge_events d' = bridge_events d \<and> publisher_registrations d' = publisher_registrations d
     \<and> publisher_purges d' = publisher_purges d \<and> sync_targets d' = sync_targets d \<and> sync_cursors d' = sync_cursors d
     \<and> source_operations d' = source_operations d \<and> oauth_sessions d' = oauth_sessions d \<and> oauth_tokens d' = oauth_tokens d
     \<and> vapid_keys d' = vapid_keys d \<and> subscriptions d' = subscriptions d"

text \<open>Rows that are new or changed are unclaimed, or claimed with a token of \<open>T\<close>.\<close>

definition no_new_claims :: "string set \<Rightarrow> bridge_db \<Rightarrow> bridge_db \<Rightarrow> bool" where
  "no_new_claims T d d' \<longleftrightarrow> (\<forall>r \<in> set (outbox d'). r \<in> set (outbox d) \<or> ob_token r = [] \<or> ob_token r \<in> T)"

definition request_entry :: "OutboxRequest \<Rightarrow> string \<times> string \<times> string" where
  "request_entry r = (rq_Operation r, rq_PubKey r, rq_Payload r)"

definition appended :: "OutboxRequest \<Rightarrow> bridge_db \<Rightarrow> bridge_db \<Rightarrow> bool" where
  "appended r d d' \<longleftrightarrow> outbox_inv d' \<and> same_rest d d' \<and> outbox_check (rq_Operation r)
     \<and> length (outbox d') = length (outbox d) + 1 \<and> set (outbox d) \<subseteq> set (outbox d')
     \<and> no_new_claims {} d d'
     \<and> (\<forall>k. queue d' k = (if k = rq_AggregateKey r then queue d k @ [request_entry r] else queue d k))"

lemma put_outbox_SomeD:
  "put_outbox rows d = Some d' \<Longrightarrow> outbox_unique rows \<and> list_all (\<lambda>r. outbox_check (ob_op r)) rows \<and> d' = d\<lparr>outbox := rows\<rparr>"
  by (auto simp: put_outbox_def split: if_splits)

lemma enqueue_appends:
  assumes inv: "outbox_inv d"
    and enq: "q_EnqueueOutbox k op pk payload av (q_AdvanceOutboxSequence k d) = Some d'"
  shows "appended \<lparr>rq_AggregateKey = k, rq_Operation = op, rq_PubKey = pk, rq_Payload = payload, rq_AvailableAt = a\<rparr> d d'"
proof -
  define n where "n = (case mget (outbox_sequences d) k of None \<Rightarrow> 1 | Some n \<Rightarrow> n + 1)"
  define row where "row = \<lparr>ob_id = last_id d + 1, ob_key = k, ob_seq = n, ob_op = op, ob_pubkey = pk, ob_payload = payload,
     ob_attempts = 0, ob_avail = av, ob_lasterr = [], ob_token = [], ob_until = 0\<rparr>"
  have seqs: "1 \<le> ob_seq x \<and> (\<exists>m. mget (outbox_sequences d) (ob_key x) = Some m \<and> ob_seq x \<le> m)" if "x \<in> set (outbox d)" for x
    using inv that by (auto simp: outbox_inv_def)
  have above: "ob_seq x < n" if "x \<in> set (outbox d)" "ob_key x = k" for x
    using seqs [OF that(1)] that(2) by (auto simp: n_def)
  have "insert_outbox k n op pk payload av (q_AdvanceOutboxSequence k d) = Some d'"
    using enq by (auto simp: q_EnqueueOutbox_def q_AdvanceOutboxSequence_def n_def)
  then have d': "d' = d\<lparr>outbox := outbox d @ [row], last_id := last_id d + 1, outbox_sequences := mput (outbox_sequences d) k n\<rparr>"
    and u: "outbox_unique (outbox d @ [row])" and c: "list_all (\<lambda>r. outbox_check (ob_op r)) (outbox d @ [row])"
    by (auto simp: insert_outbox_def q_AdvanceOutboxSequence_def n_def row_def dest!: put_outbox_SomeD)
  have "1 \<le> m" if "mget (outbox_sequences d) k = Some m" for m using inv that unfolding outbox_inv_def by blast
  then have "1 \<le> n" by (force simp: n_def split: option.split)
  have inv': "outbox_inv d'"
    unfolding outbox_inv_def
  proof (intro conjI ballI allI impI)
    show "distinct (map ob_id (outbox d'))" "outbox_unique (outbox d')" "list_all (\<lambda>r. outbox_check (ob_op r)) (outbox d')"
      using inv u c by (force simp: outbox_inv_def d' row_def)+
    show "\<And>r. r \<in> set (outbox d') \<Longrightarrow> ob_id r \<le> last_id d'"
      using inv by (force simp: outbox_inv_def d' row_def)
    show "\<And>r. r \<in> set (outbox d') \<Longrightarrow> \<exists>m. mget (outbox_sequences d') (ob_key r) = Some m \<and> 1 \<le> ob_seq r \<and> ob_seq r \<le> m"
      using seqs above \<open>1 \<le> n\<close> by (force simp: d' row_def)
    fix r assume r: "r \<in> set (outbox d')" "ob_token r \<noteq> []"
    then have "r \<in> set (outbox d)" by (auto simp: d' row_def)
    then have "no_prior d r" using inv r(2) unfolding outbox_inv_def by blast
    then show "no_prior d' r" using above [OF \<open>r \<in> set (outbox d)\<close>] by (auto simp: no_prior_def d' row_def)
  next
    show "\<And>x m. mget (outbox_sequences d') x = Some m \<Longrightarrow> 1 \<le> m"
      using inv \<open>1 \<le> n\<close> by (auto simp: outbox_inv_def d' split: if_splits)
  qed
  have agg: "aggregate d' x = (if x = k then aggregate d x @ [row] else aggregate d x)" for x
  proof (cases "x = k")
    case True
    have "aggregate d' k = aggregate d k @ [row]"
      using u above by (intro aggregateI) (auto simp: d' row_def sorted_append less_imp_le)
    then show ?thesis using True by simp
  next
    case False
    then show ?thesis by (simp add: aggregate_def d' row_def)
  qed
  have "same_rest d d'" by (simp add: same_rest_def d')
  moreover have "outbox_check op" using c by (simp add: row_def)
  ultimately show ?thesis using inv' agg
    by (auto simp: appended_def no_new_claims_def queue_def request_entry_def queue_entry_def d' row_def)
qed

lemma after_enqueueOutbox:
  assumes "outbox_inv d" "\<And>d'. appended r d d' \<Longrightarrow> after k Q d'"
  shows "after (enqueueOutbox r k) Q d"
  unfolding enqueueOutbox_def
proof (rule after_exec, rule after_exec_checked)
  fix d'
  assume "q_EnqueueOutbox (rq_AggregateKey r) (rq_Operation r) (rq_PubKey r) (rq_Payload r) (unix (rq_AvailableAt r))
      (q_AdvanceOutboxSequence (rq_AggregateKey r) d) = Some d'"
  from enqueue_appends [OF assms(1) this, of "rq_AvailableAt r"] have "appended r d d'" by (cases r) simp
  then show "after k Q d'" by (rule assms(2))
qed

subsection \<open>Claiming, completing and retrying\<close>

lemma inv_unique: "outbox_inv d \<Longrightarrow> outbox_unique (outbox d)"
  by (simp add: outbox_inv_def)

lemma inv_same_id: "outbox_inv d \<Longrightarrow> r \<in> set (outbox d) \<Longrightarrow> r' \<in> set (outbox d) \<Longrightarrow> ob_id r = ob_id r' \<Longrightarrow> r = r'"
  by (auto simp: outbox_inv_def distinct_map inj_on_def)

lemma inv_claimed_head: "outbox_inv d \<Longrightarrow> r \<in> set (outbox d) \<Longrightarrow> ob_token r \<noteq> [] \<Longrightarrow> no_prior d r"
  unfolding outbox_inv_def by blast

text \<open>Updates of rows in place, which keep their keys and order.\<close>

definition in_place :: "(OutboxRow \<Rightarrow> OutboxRow) \<Rightarrow> bool" where
  "in_place g \<longleftrightarrow> (\<forall>r. ob_key (g r) = ob_key r \<and> ob_seq (g r) = ob_seq r \<and> ob_id (g r) = ob_id r)"

lemma unique_map: "in_place g \<Longrightarrow> outbox_unique (map g rows) \<longleftrightarrow> outbox_unique rows"
  by (simp add: outbox_unique_def in_place_def o_def)

lemma aggregate_map:
  assumes "in_place g" "outbox_unique (outbox d)"
  shows "aggregate (d\<lparr>outbox := map g (outbox d)\<rparr>) k = map g (aggregate d k)"
proof (rule aggregateI)
  have "filter (\<lambda>r. ob_key r = k) (map g (outbox d)) = map g (filter (\<lambda>r. ob_key r = k) (outbox d))"
    using assms(1) by (simp add: filter_map o_def in_place_def)
  then show "mset (map g (aggregate d k)) = mset (filter (\<lambda>r. ob_key r = k) (outbox (d\<lparr>outbox := map g (outbox d)\<rparr>)))" by simp
  have "ob_seq \<circ> g = ob_seq" using assms(1) by (auto simp: in_place_def)
  then show "sorted (map ob_seq (map g (aggregate d k)))" by simp
qed (use assms in \<open>simp add: unique_map\<close>)

lemma no_prior_map: "in_place g \<Longrightarrow> no_prior (d\<lparr>outbox := map g (outbox d)\<rparr>) (g r) \<longleftrightarrow> no_prior d r"
  by (auto simp: no_prior_def list_ex_iff in_place_def)

lemma inv_map:
  assumes inv: "outbox_inv d" and g: "in_place g" and ops: "\<And>r. r \<in> set (outbox d) \<Longrightarrow> outbox_check (ob_op (g r))"
    and tok: "\<And>r. r \<in> set (outbox d) \<Longrightarrow> ob_token (g r) \<noteq> [] \<Longrightarrow> no_prior d r"
  shows "outbox_inv (d\<lparr>outbox := map g (outbox d)\<rparr>)"
proof -
  have "ob_id \<circ> g = ob_id" using g by (auto simp: in_place_def)
  then have "distinct (map ob_id (map g (outbox d)))" using inv by (simp add: outbox_inv_def)
  moreover have "outbox_unique (map g (outbox d))" using inv g by (simp add: unique_map inv_unique)
  moreover have "\<forall>r \<in> set (map g (outbox d)). ob_token r \<noteq> [] \<longrightarrow> no_prior (d\<lparr>outbox := map g (outbox d)\<rparr>) r"
    using tok no_prior_map [OF g] by auto
  ultimately show ?thesis using inv g ops
    unfolding outbox_inv_def by (auto simp: list_all_iff in_place_def)
qed

lemma claim_keeps:
  assumes inv: "outbox_inv d" and c: "q_ClaimOutbox tok until now secs lim d = (rows, d')"
  shows "outbox_inv d' \<and> same_rest d d' \<and> queue d' = queue d \<and> length (outbox d') = length (outbox d)
    \<and> (\<forall>r \<in> set rows. r \<in> set (outbox d) \<and> no_prior d r \<and> unclaimed now r \<and> ob_avail r \<le> secs
          \<and> r\<lparr>ob_token := tok, ob_until := until\<rparr> \<in> set (outbox d'))
    \<and> (\<forall>r \<in> set (outbox d). \<not> unclaimed now r \<longrightarrow> r \<in> set (outbox d')) \<and> no_new_claims {tok} d d'"
proof -
  define ids where "ids = claimable_ids now secs lim d"
  define g where "g = (\<lambda>r. if ob_id r \<in> set ids \<and> unclaimed now r then r\<lparr>ob_token := tok, ob_until := until\<rparr> else r)"
  have d': "d' = d\<lparr>outbox := map g (outbox d)\<rparr>" and rows: "rows = filter (\<lambda>r. ob_id r \<in> set ids \<and> unclaimed now r) (outbox d)"
    using c by (auto simp: q_ClaimOutbox_def Let_def ids_def g_def)
  have g: "in_place g" by (simp add: in_place_def g_def)
  have hit: "no_prior d r \<and> ob_avail r \<le> secs" if r: "r \<in> set (outbox d)" "ob_id r \<in> set ids" for r
  proof -
    obtain r' where "r' \<in> set (outbox d)" "no_prior d r'" "ob_avail r' \<le> secs" "ob_id r' = ob_id r"
      using r(2) by (auto simp: ids_def claimable_ids_def dest!: in_set_takeD)
    then show ?thesis using inv_same_id [OF inv] r(1) by metis
  qed
  have "outbox_inv d'" unfolding d'
  proof (rule inv_map [OF inv g])
    fix r assume r: "r \<in> set (outbox d)"
    show "outbox_check (ob_op (g r))" using inv r by (auto simp: g_def outbox_inv_def list_all_iff)
    assume "ob_token (g r) \<noteq> []"
    then show "no_prior d r" using hit [OF r] inv_claimed_head [OF inv r] by (auto simp: g_def split: if_splits)
  qed
  moreover have "queue d' k = queue d k" for k
    unfolding d' queue_def aggregate_map [OF g inv_unique [OF inv]] by (simp add: queue_entry_def g_def)
  moreover have "r\<lparr>ob_token := tok, ob_until := until\<rparr> \<in> set (outbox d')" if "r \<in> set rows" for r
  proof -
    have "g r = r\<lparr>ob_token := tok, ob_until := until\<rparr>" "r \<in> set (outbox d)" using that by (auto simp: rows g_def)
    then show ?thesis unfolding d' by (metis (no_types) bridge_db.select_convs(1) bridge_db.surjective bridge_db.update_convs(1) image_eqI list.set_map)
  qed
  moreover have "r \<in> set (outbox d')" if "r \<in> set (outbox d)" "\<not> unclaimed now r" for r
  proof -
    have "g r = r" using that(2) by (simp add: g_def)
    then show ?thesis using that(1) unfolding d' by (auto simp: image_iff intro: bexI [of _ r])
  qed
  moreover have "no_new_claims {tok} d d'" unfolding no_new_claims_def d' by (auto simp: g_def)
  ultimately show ?thesis using hit by (auto simp: rows same_rest_def d')
qed

lemma inv_filter: "outbox_inv d \<Longrightarrow> outbox_inv (d\<lparr>outbox := filter P (outbox d)\<rparr>)"
proof -
  assume inv: "outbox_inv d"
  have "distinct (map ob_id (filter P (outbox d)))" "outbox_unique (filter P (outbox d))"
    "list_all (\<lambda>r. outbox_check (ob_op r)) (filter P (outbox d))"
    using inv by (simp_all add: outbox_inv_def outbox_unique_def distinct_map_filter list_all_iff)
  moreover have "no_prior d r \<Longrightarrow> no_prior (d\<lparr>outbox := filter P (outbox d)\<rparr>) r" for r
    by (auto simp: no_prior_def list_ex_iff)
  ultimately show ?thesis using inv unfolding outbox_inv_def by simp
qed

text \<open>Completing takes the head off its queue.\<close>

definition took :: "OutboxRow \<Rightarrow> bridge_db \<Rightarrow> bridge_db \<Rightarrow> bool" where
  "took r d d' \<longleftrightarrow> outbox_inv d' \<and> r \<in> set (outbox d) \<and> length (outbox d) = length (outbox d') + 1
     \<and> set (outbox d) - {r} \<subseteq> set (outbox d') \<and> no_new_claims {} d d' \<and> queue d (ob_key r) = queue_entry r # queue d' (ob_key r)
     \<and> (\<forall>k. k \<noteq> ob_key r \<longrightarrow> queue d' k = queue d k)"

lemma owns_unique:
  assumes "outbox_inv d" "r \<in> set (outbox d)" "owns i tok now r" "r' \<in> set (outbox d)"
  shows "owns i tok now r' \<longleftrightarrow> r' = r"
  using inv_same_id [OF assms(1,2,4)] assms(3) unfolding owns_def by metis

lemma complete_takes:
  assumes inv: "outbox_inv d" and c: "q_CompleteOutbox i tok now d = (n, d')" "n \<noteq> 0"
  shows "\<exists>r. owns i tok now r \<and> took r d d' \<and> same_rest d d'"
proof -
  have d': "d' = d\<lparr>outbox := filter (\<lambda>r. \<not> owns i tok now r) (outbox d)\<rparr>"
    and "filter (owns i tok now) (outbox d) \<noteq> []" using c by (auto simp: q_CompleteOutbox_def)
  then obtain r where r: "r \<in> set (outbox d)" "owns i tok now r" by (auto simp: filter_empty_conv)
  have own: "owns i tok now x \<longleftrightarrow> x = r" if "x \<in> set (outbox d)" for x by (rule owns_unique [OF inv r that])
  have rows: "outbox d' = filter (\<lambda>x. x \<noteq> r) (outbox d)" using own by (auto simp: d' intro: filter_cong)
  have dist: "distinct (outbox d)" using inv by (simp add: outbox_inv_def distinct_map)
  have agg: "aggregate d' k = filter (\<lambda>x. x \<noteq> r) (aggregate d k)" for k
    by (simp add: aggregate_def rows filter_sort conj_commute)
  have "ob_token r \<noteq> []" using r(2) unfolding owns_def by blast
  then have head: "aggregate d (ob_key r) = r # tl (aggregate d (ob_key r))"
    by (rule aggregate_head [OF inv_unique [OF inv] r(1) inv_claimed_head [OF inv r(1)]])
  have "distinct (aggregate d (ob_key r))" using dist by (simp add: aggregate_def)
  then have "r \<notin> set (tl (aggregate d (ob_key r)))" using head by (metis distinct.simps(2))
  then have tl: "aggregate d' (ob_key r) = tl (aggregate d (ob_key r))"
    unfolding agg by (subst head) (auto intro: filter_True)
  have inv': "outbox_inv d'" unfolding d' by (rule inv_filter [OF inv])
  have "outbox d' = remove1 r (outbox d)"
    unfolding rows by (simp add: distinct_remove1_removeAll [OF dist] removeAll_filter_not_eq eq_commute)
  then have "length (outbox d) = length (outbox d') + 1"
    using r(1) by (simp add: length_remove1) (metis Suc_pred length_pos_if_in_set)
  moreover have "queue d (ob_key r) = queue_entry r # queue d' (ob_key r)"
    unfolding queue_def tl by (subst head) simp
  moreover have "queue d' k = queue d k" if "k \<noteq> ob_key r" for k
  proof -
    have "aggregate d' k = aggregate d k" unfolding agg using that by (auto intro!: filter_True)
    then show ?thesis by (simp add: queue_def)
  qed
  moreover have "set (outbox d) - {r} \<subseteq> set (outbox d')" "no_new_claims {} d d'" unfolding no_new_claims_def rows by auto
  ultimately show ?thesis using inv' r by (auto simp: took_def same_rest_def d')
qed

lemma retry_keeps:
  assumes inv: "outbox_inv d" and c: "q_RetryOutbox av err i tok now d = (n, d')"
  shows "outbox_inv d' \<and> same_rest d d' \<and> queue d' = queue d \<and> length (outbox d') = length (outbox d)
    \<and> (\<forall>r \<in> set (outbox d). \<not> owns i tok now r \<longrightarrow> r \<in> set (outbox d')) \<and> no_new_claims {} d d'"
proof -
  define g where "g = (\<lambda>r. if owns i tok now r then r\<lparr>ob_attempts := ob_attempts r + 1, ob_avail := av, ob_lasterr := err,
      ob_token := [], ob_until := 0\<rparr> else r)"
  have d': "d' = d\<lparr>outbox := map g (outbox d)\<rparr>" using c by (auto simp: q_RetryOutbox_def g_def)
  have g: "in_place g" by (simp add: in_place_def g_def)
  have "outbox_inv d'" unfolding d'
    using inv_claimed_head [OF inv] inv by (intro inv_map [OF inv g]) (auto simp: g_def outbox_inv_def list_all_iff split: if_splits)
  moreover have "queue d' k = queue d k" for k
    unfolding d' queue_def aggregate_map [OF g inv_unique [OF inv]] by (simp add: queue_entry_def g_def)
  moreover have "r \<in> set (outbox d')" if "r \<in> set (outbox d)" "\<not> owns i tok now r" for r
  proof -
    have "g r = r" using that(2) by (simp add: g_def)
    then show ?thesis using that(1) unfolding d' by (auto simp: image_iff intro: bexI [of _ r])
  qed
  moreover have "no_new_claims {} d d'" unfolding no_new_claims_def d' by (auto simp: g_def)
  ultimately show ?thesis by (auto simp: same_rest_def d')
qed

subsection \<open>Recovering a rejected publish\<close>

text \<open>The four statements on the outbox together: the rejected publish becomes a registration,
  later items move up by one, and the publish comes back right behind the registration.\<close>

definition recovered_row :: "int \<Rightarrow> int \<Rightarrow> string \<Rightarrow> int \<Rightarrow> OutboxRow \<Rightarrow> OutboxRow" where
  "recovered_row av i k sq r =
     (let r1 = (if ob_id r = i then r\<lparr>ob_op := OutboxAllowPublisher, ob_payload := [], ob_attempts := 0, ob_lasterr := [],
                  ob_token := [], ob_until := 0, ob_avail := av\<rparr> else r)
      in if ob_key r = k \<and> ob_seq r > sq then r1\<lparr>ob_seq := ob_seq r + 1\<rparr> else r1)"

definition recovered :: "OutboxRow \<Rightarrow> string \<Rightarrow> bridge_db \<Rightarrow> bridge_db \<Rightarrow> bool" where
  "recovered r pk d d' \<longleftrightarrow> outbox_inv d' \<and> length (outbox d') = length (outbox d) + 1
     \<and> (\<forall>x \<in> set (outbox d). ob_key x \<noteq> ob_key r \<longrightarrow> x \<in> set (outbox d')) \<and> no_new_claims {} d d'
     \<and> ob_op r = OutboxPublishEvent \<and> queue d (ob_key r) = queue_entry r # tl (queue d (ob_key r))
     \<and> queue d' (ob_key r) = (OutboxAllowPublisher, ob_pubkey r, []) # (OutboxPublishEvent, pk, ob_payload r) # tl (queue d (ob_key r))
     \<and> (\<forall>k. k \<noteq> ob_key r \<longrightarrow> queue d' k = queue d k)"

lemma recover_rows:
  assumes inv: "outbox_inv d"
    and n: "q_NegateLaterOutboxSequences k sq (q_ResetRejectedPublishAsRegistration av i (q_ClearPublisherRegistration pk d)) = Some d3"
    and s: "q_ShiftNegatedOutboxSequences k d3 = Some d4"
    and x: "q_InsertRecoveredPublish k (sq + 1) pk payload av (q_IncrementOutboxLastSequence k d4) = Some d'"
    and sq: "0 < sq" and m: "mget (outbox_sequences d) k = Some m"
  shows "outbox d' = map (recovered_row av i k sq) (outbox d) @ [\<lparr>ob_id = last_id d + 1, ob_key = k, ob_seq = sq + 1,
       ob_op = OutboxPublishEvent, ob_pubkey = pk, ob_payload = payload, ob_attempts = 0, ob_avail = av, ob_lasterr = [],
       ob_token = [], ob_until = 0\<rparr>]
    \<and> last_id d' = last_id d + 1 \<and> outbox_sequences d' = mput (outbox_sequences d) k (m + 1) \<and> outbox_unique (outbox d')
    \<and> list_all (\<lambda>r. outbox_check (ob_op r)) (outbox d')
    \<and> same_rest (q_ClearPublisherRegistration pk d) d'"
proof -
  define reset :: "OutboxRow \<Rightarrow> OutboxRow" where "reset = (\<lambda>r. if ob_id r = i then r\<lparr>ob_op := OutboxAllowPublisher, ob_payload := [], ob_attempts := 0,
      ob_lasterr := [], ob_token := [], ob_until := 0, ob_avail := av\<rparr> else r)"
  define neg :: "OutboxRow \<Rightarrow> OutboxRow" where "neg = (\<lambda>r. if ob_key r = k \<and> ob_seq r > sq then r\<lparr>ob_seq := - ob_seq r\<rparr> else r)"
  define shift :: "OutboxRow \<Rightarrow> OutboxRow" where "shift = (\<lambda>r. if ob_key r = k \<and> ob_seq r < 0 then r\<lparr>ob_seq := - ob_seq r + 1\<rparr> else r)"
  have pos: "0 < ob_seq r" if "r \<in> set (outbox d)" for r using inv that unfolding outbox_inv_def by fastforce
  have d3: "d3 = (q_ClearPublisherRegistration pk d)\<lparr>outbox := map (neg \<circ> reset) (outbox d)\<rparr>"
    using n by (auto simp: q_NegateLaterOutboxSequences_def q_ResetRejectedPublishAsRegistration_def q_ClearPublisherRegistration_def
        neg_def reset_def o_def dest!: put_outbox_SomeD)
  have d4: "d4 = (q_ClearPublisherRegistration pk d)\<lparr>outbox := map (shift \<circ> neg \<circ> reset) (outbox d)\<rparr>"
    using s by (auto simp: q_ShiftNegatedOutboxSequences_def d3 shift_def o_def dest!: put_outbox_SomeD)
  have "shift (neg (reset r)) = recovered_row av i k sq r" if "r \<in> set (outbox d)" for r
    using pos [OF that] sq by (auto simp: shift_def neg_def reset_def recovered_row_def Let_def)
  then have rows: "map (shift \<circ> neg \<circ> reset) (outbox d) = map (recovered_row av i k sq) (outbox d)" by simp
  show ?thesis using x m unfolding d4 rows
    by (auto simp: q_InsertRecoveredPublish_def insert_outbox_def q_IncrementOutboxLastSequence_def q_ClearPublisherRegistration_def
        same_rest_def dest!: put_outbox_SomeD)
qed

lemma recover_requeues:
  assumes inv: "outbox_inv d" and c: "q_ClaimedPublishEvent i tok now d = Some (k, sq, payload)"
    and n: "q_NegateLaterOutboxSequences k sq (q_ResetRejectedPublishAsRegistration av i (q_ClearPublisherRegistration pk d)) = Some d3"
    and s: "q_ShiftNegatedOutboxSequences k d3 = Some d4"
    and x: "q_InsertRecoveredPublish k (sq + 1) pk payload av (q_IncrementOutboxLastSequence k d4) = Some d'"
  shows "\<exists>r. r \<in> set (outbox d) \<and> owns i tok now r \<and> ob_key r = k \<and> recovered r pk d d' \<and> same_rest (q_ClearPublisherRegistration pk d) d'"
proof -
  obtain r where "List.find (\<lambda>r. owns i tok now r \<and> ob_op r = OutboxPublishEvent) (outbox d) = Some r"
    and krow: "k = ob_key r" "sq = ob_seq r" "payload = ob_payload r"
    using c by (auto simp: q_ClaimedPublishEvent_def)
  then have r: "r \<in> set (outbox d)" "owns i tok now r" "ob_op r = OutboxPublishEvent"
    by (auto simp: find_Some_iff)
  obtain m where m: "mget (outbox_sequences d) k = Some m" "1 \<le> sq" "sq \<le> m"
    using inv r(1) krow unfolding outbox_inv_def by blast
  let ?g = "recovered_row av i k sq"
  define new where "new = \<lparr>ob_id = last_id d + 1, ob_key = k, ob_seq = sq + 1,
       ob_op = OutboxPublishEvent, ob_pubkey = pk, ob_payload = payload, ob_attempts = 0, ob_avail = av, ob_lasterr = [],
       ob_token = [], ob_until = 0\<rparr>"
  have rows: "outbox d' = map ?g (outbox d) @ [new]" "last_id d' = last_id d + 1"
      "outbox_sequences d' = mput (outbox_sequences d) k (m + 1)" "outbox_unique (outbox d')"
      "list_all (\<lambda>r. outbox_check (ob_op r)) (outbox d')" "same_rest (q_ClearPublisherRegistration pk d) d'"
  proof -
    have "0 < sq" using m(2) by simp
    from recover_rows [OF inv n s x this m(1)]
    show "outbox d' = map ?g (outbox d) @ [new]" "last_id d' = last_id d + 1"
      "outbox_sequences d' = mput (outbox_sequences d) k (m + 1)" "outbox_unique (outbox d')"
      "list_all (\<lambda>r. outbox_check (ob_op r)) (outbox d')" "same_rest (q_ClearPublisherRegistration pk d) d'"
      unfolding new_def by blast+
  qed
  have tok: "ob_token r \<noteq> []" "ob_id r = i" using r(2) unfolding owns_def by blast+
  have head: "aggregate d k = r # tl (aggregate d k)"
    using aggregate_head [OF inv_unique [OF inv] r(1) inv_claimed_head [OF inv r(1) tok(1)]] krow(1) by simp
  define rest where "rest = tl (aggregate d k)"
  have agg: "aggregate d k = r # rest" using head by (simp add: rest_def)
  have sorted: "sorted (map ob_seq (r # rest))" using sorted_aggregate [of d k] agg by simp
  have dist: "distinct (map ob_seq (aggregate d k))"
    using inv seq_inj [OF inv_unique [OF inv], of k] by (simp add: distinct_map outbox_inv_def aggregate_def)
  have later: "y \<in> set (outbox d) \<and> ob_key y = k \<and> sq < ob_seq y \<and> ob_id y \<noteq> i" if "y \<in> set rest" for y
  proof -
    have y: "y \<in> set (outbox d)" "ob_key y = k" using that set_aggregate [of d k] agg by auto
    have "ob_seq r \<le> ob_seq y" using sorted that by auto
    moreover have "ob_seq r \<noteq> ob_seq y" using dist that agg by auto
    moreover from this have "ob_id y \<noteq> i" using inv_same_id [OF inv r(1) y(1)] tok(2) by metis
    ultimately show ?thesis using y krow(2) by linarith
  qed
  have others: "\<not> (ob_key y = k \<and> sq < ob_seq y) \<Longrightarrow> ob_id y \<noteq> i \<Longrightarrow> ?g y = y" for y
    by (auto simp: recovered_row_def Let_def)
  have gr: "?g r = r\<lparr>ob_op := OutboxAllowPublisher, ob_payload := [], ob_attempts := 0, ob_lasterr := [],
      ob_token := [], ob_until := 0, ob_avail := av\<rparr>" using tok(2) krow by (simp add: recovered_row_def Let_def)
  have gy: "?g y = y\<lparr>ob_seq := ob_seq y + 1\<rparr>" if "y \<in> set rest" for y
    using later [OF that] by (simp add: recovered_row_def Let_def)
  have key: "ob_key (?g y) = ob_key y" "ob_id (?g y) = ob_id y" for y by (auto simp: recovered_row_def Let_def)
  have aggk: "aggregate d' k = ?g r # new # map ?g rest"
  proof (rule aggregateI [OF rows(4)])
    have "mset (filter (\<lambda>r. ob_key r = k) (map ?g (outbox d))) = image_mset ?g (mset (aggregate d k))"
      by (simp add: filter_map o_def key)
    then show "mset (?g r # new # map ?g rest) = mset (filter (\<lambda>r. ob_key r = k) (outbox d'))"
      by (simp add: rows(1) agg) (simp add: new_def)
    have "map ob_seq (map ?g rest) = map (\<lambda>y. ob_seq y + 1) rest" using gy by simp
    moreover have "sorted (map (\<lambda>y. ob_seq y + 1) rest)" using sorted by (simp add: sorted_map)
    ultimately have "sorted (map ob_seq (map ?g rest))" by (simp only:)
    moreover have "\<forall>y \<in> set rest. sq + 1 \<le> ob_seq (?g y)" "\<forall>y \<in> set rest. sq \<le> ob_seq (?g y)"
      using later gy by fastforce+
    moreover have "ob_seq (?g r) = sq" unfolding gr using krow(2) by simp
    moreover have "ob_seq new = sq + 1" by (simp add: new_def)
    ultimately show "sorted (map ob_seq (?g r # new # map ?g rest))" by simp
  qed
  have keep: "?g y = y" if "y \<in> set (outbox d)" "ob_key y \<noteq> k" for y
  proof -
    have "ob_id y \<noteq> i" using that krow(1) tok(2) inv_same_id [OF inv that(1) r(1)] by metis
    then show ?thesis using others [of y] that(2) by blast
  qed
  have aggx: "aggregate d' x = aggregate d x" if "x \<noteq> k" for x
  proof (rule aggregate_cong)
    have "filter (\<lambda>r. ob_key r = x) (map ?g (outbox d)) = map ?g (filter (\<lambda>r. ob_key r = x) (outbox d))"
      by (simp add: filter_map o_def key)
    also have "\<dots> = filter (\<lambda>r. ob_key r = x) (outbox d)" using keep that by (intro map_idI) auto
    finally show "filter (\<lambda>r. ob_key r = x) (outbox d') = filter (\<lambda>r. ob_key r = x) (outbox d)"
      using that by (simp add: rows(1) new_def)
  qed
  have claimed: "y \<in> set (outbox d)" "ob_key y \<noteq> k" if y: "y \<in> set (outbox d')" "ob_token y \<noteq> []" for y
  proof -
    obtain z where z: "z \<in> set (outbox d)" "y = ?g z" using y by (auto simp: rows(1) new_def)
    have "z \<noteq> r" using y(2) z(2) gr by auto
    moreover have "ob_token z \<noteq> []" using y(2) z(2) by (auto simp: recovered_row_def Let_def split: if_splits)
    then have np: "no_prior d z" using inv_claimed_head [OF inv z(1)] by simp
    ultimately have zk: "ob_key z \<noteq> k" using aggregate_head [OF inv_unique [OF inv] z(1) np] agg by auto
    then show "y \<in> set (outbox d)" "ob_key y \<noteq> k" using keep z by simp_all
  qed
  have "outbox_inv d'"
    unfolding outbox_inv_def
  proof (intro conjI ballI allI impI)
    have "ob_id \<circ> ?g = ob_id" using key(2) by auto
    then have "map ob_id (outbox d') = map ob_id (outbox d) @ [last_id d + 1]" by (simp add: rows(1) new_def)
    then show "distinct (map ob_id (outbox d'))" using inv by (fastforce simp: outbox_inv_def)
    show "\<And>y. y \<in> set (outbox d') \<Longrightarrow> ob_id y \<le> last_id d'"
      using inv by (fastforce simp: outbox_inv_def rows(1,2) key(2) new_def)
    show "\<And>y. y \<in> set (outbox d') \<Longrightarrow> \<exists>n. mget (outbox_sequences d') (ob_key y) = Some n \<and> 1 \<le> ob_seq y \<and> ob_seq y \<le> n"
    proof -
      fix y assume "y \<in> set (outbox d')"
      then consider "y = new" | z where "z \<in> set (outbox d)" "y = ?g z" by (auto simp: rows(1))
      then show "\<exists>n. mget (outbox_sequences d') (ob_key y) = Some n \<and> 1 \<le> ob_seq y \<and> ob_seq y \<le> n"
      proof cases
        case 1
        then show ?thesis using m by (simp add: rows(3) new_def)
      next
        case 2
        obtain n where "mget (outbox_sequences d) (ob_key z) = Some n" "1 \<le> ob_seq z" "ob_seq z \<le> n"
          using inv 2(1) unfolding outbox_inv_def by blast
        then show ?thesis using m(1) 2(2) by (auto simp: rows(3) recovered_row_def Let_def)
      qed
    qed
    show "\<And>x n. mget (outbox_sequences d') x = Some n \<Longrightarrow> 1 \<le> n"
      using inv m by (fastforce simp: outbox_inv_def rows(3) split: if_splits)
    fix y assume y: "y \<in> set (outbox d')" "ob_token y \<noteq> []"
    note c = claimed [OF y]
    have np: "no_prior d y" using inv_claimed_head [OF inv c(1) y(2)] .
    have "p \<in> set (outbox d)" if "p \<in> set (outbox d')" "ob_key p = ob_key y" for p
      using that c(2) keep key(1) by (auto simp: rows(1) new_def)
    then show "no_prior d' y" using np by (auto simp: no_prior_def list_ex_iff)
  qed (use rows in auto)
  moreover have "length (outbox d') = length (outbox d) + 1" by (simp add: rows(1))
  moreover have "queue d' k = (OutboxAllowPublisher, ob_pubkey r, []) # (OutboxPublishEvent, pk, payload) # map queue_entry rest"
  proof -
    have "map queue_entry (map ?g rest) = map queue_entry rest" using gy by (simp add: queue_entry_def)
    moreover have "queue_entry (?g r) = (OutboxAllowPublisher, ob_pubkey r, [])" unfolding gr by (simp add: queue_entry_def)
    moreover have "queue_entry new = (OutboxPublishEvent, pk, payload)" by (simp add: new_def queue_entry_def)
    ultimately show ?thesis unfolding queue_def aggk by simp
  qed
  moreover have "queue d k = queue_entry r # map queue_entry rest" by (simp add: queue_def agg)
  moreover have "queue d' x = queue d x" if "x \<noteq> k" for x using aggx [OF that] by (simp add: queue_def)
  moreover have "no_new_claims {} d d'" using claimed unfolding no_new_claims_def by blast
  moreover have "\<forall>x \<in> set (outbox d). ob_key x \<noteq> k \<longrightarrow> x \<in> set (outbox d')"
    using keep unfolding rows(1) by (auto simp: image_iff intro: bexI [rotated])
  ultimately have "recovered r pk d d'" unfolding recovered_def krow(1,3) [symmetric] using r(3) by simp
  then show ?thesis using r krow rows(6) by blast
qed

end
