(* ===== verification/Bridge_Fifo.thy ===== *)
theory Bridge_Fifo
  imports Bridge_Outbox
begin

text \<open>
  The outbox over whole histories of the store. \<open>bridge_op\<close> is every operation of
  \<^verbatim>\<open>store/sqlite.go\<close> that changes the database; whatever operations run, in whatever order and
  with whatever statement failures, the table keeps its invariant, a queue changes only at its
  two ends, and the queue of a purged publisher stays closed by the withdrawal of its permission.
\<close>

subsection \<open>The invariant of the store\<close>

definition sealed :: "bridge_db \<Rightarrow> bool" where
  "sealed d \<longleftrightarrow> (\<forall>pk. q_PublisherPurged pk d \<longrightarrow> queue d pk = [] \<or> fst (last (queue d pk)) = OutboxUnallowPublisher)"

definition store_inv :: "bridge_db \<Rightarrow> bool" where
  "store_inv d \<longleftrightarrow> outbox_inv d \<and> sealed d"

text \<open>How the queues may change when items are enqueued.\<close>

definition grew :: "bridge_db \<Rightarrow> bridge_db \<Rightarrow> bool" where
  "grew d d' \<longleftrightarrow> store_inv d' \<and> set (outbox d) \<subseteq> set (outbox d') \<and> no_new_claims {} d d' \<and> publisher_purges d' = publisher_purges d \<and> (\<forall>k. \<exists>xs. queue d' k = queue d k @ xs)"

lemma grew_refl: "store_inv d \<Longrightarrow> grew d d"
  by (simp add: grew_def no_new_claims_def)

lemma grew_trans: "grew d d' \<Longrightarrow> grew d' d'' \<Longrightarrow> grew d d''"
  unfolding grew_def no_new_claims_def by (metis append_assoc subset_trans)

lemma queue_cong: "outbox d' = outbox d \<Longrightarrow> queue d' = queue d"
  by (simp add: queue_def aggregate_def fun_eq_iff)

text \<open>Statements on the other tables.\<close>

definition off_queue :: "bridge_db \<Rightarrow> bridge_db \<Rightarrow> bool" where
  "off_queue d d' \<longleftrightarrow> outbox d' = outbox d \<and> last_id d' = last_id d \<and> outbox_sequences d' = outbox_sequences d
     \<and> publisher_purges d' = publisher_purges d"

lemma off_queue_grew: "store_inv d \<Longrightarrow> off_queue d d' \<Longrightarrow> grew d d'"
proof -
  assume inv: "store_inv d" and off: "off_queue d d'"
  have q: "queue d' = queue d" using off by (intro queue_cong) (simp add: off_queue_def)
  have eqs: "outbox d' = outbox d" "last_id d' = last_id d" "outbox_sequences d' = outbox_sequences d"
    "publisher_purges d' = publisher_purges d" using off by (simp_all add: off_queue_def)
  have np: "no_prior d' = no_prior d" by (simp add: no_prior_def fun_eq_iff eqs)
  have "outbox_inv d' = outbox_inv d" unfolding outbox_inv_def eqs np ..
  moreover have "sealed d' = sealed d" unfolding sealed_def q_PublisherPurged_def eqs q ..
  ultimately have "store_inv d'" using inv by (simp add: store_inv_def)
  then show ?thesis using off q by (simp add: grew_def off_queue_def no_new_claims_def)
qed

lemma off_queue_simps [simp]:
  "off_queue d (q_UpsertEventMapping m d)" "off_queue d (q_SaveSourceOperation ref ident d)"
  "off_queue d (q_SaveCursor scope name val d)" "off_queue d (q_DeleteEventMapping ref d)"
  "off_queue d (q_DeleteSourceOperation ref d)" "off_queue d (q_ReplaceSyncTargetsDelete scope d)"
  "off_queue d (q_InsertSyncTarget scope t d)" "off_queue d (q_SetPublisherRegistered pk secs d)"
  "off_queue d (q_ClearPublisherRegistration pk d)" "off_queue d (q_DeletePublisherMappings pk d)"
  "off_queue d (q_DeletePublisherSourceOperations pk d)" "off_queue d (q_SaveOAuthSession scope os d)"
  "off_queue d (q_DeleteOAuthSession scope st d)" "off_queue d (q_SaveOAuthToken scope ot d)"
  "off_queue d (q_UpdateOAuthTokenRefreshFailure cls b scope did d)" "off_queue d (q_SaveVAPIDKeys vk d)"
  "off_queue d (q_SaveVAPIDKeysIfAbsent vk d)" "off_queue d (q_UpsertSubscription sub d)"
  "off_queue d (q_DeleteSubscription e d)"
  by (simp_all add: off_queue_def q_UpsertEventMapping_def q_SaveSourceOperation_def q_SaveCursor_def q_DeleteEventMapping_def
      q_DeleteSourceOperation_def q_ReplaceSyncTargetsDelete_def q_InsertSyncTarget_def q_SetPublisherRegistered_def
      q_ClearPublisherRegistration_def q_DeletePublisherMappings_def q_DeletePublisherSourceOperations_def q_SaveOAuthSession_def
      q_DeleteOAuthSession_def q_SaveOAuthToken_def q_UpdateOAuthTokenRefreshFailure_def q_SaveVAPIDKeys_def
      q_SaveVAPIDKeysIfAbsent_def q_UpsertSubscription_def q_DeleteSubscription_def split: option.split)

lemma appended_grew:
  assumes inv: "store_inv d" and app: "appended r d d'"
    and ok: "rq_Operation r = OutboxUnallowPublisher \<or> \<not> q_PublisherPurged (rq_AggregateKey r) d"
  shows "grew d d'"
proof -
  have same: "publisher_purges d' = publisher_purges d" using app by (simp add: appended_def same_rest_def)
  have q: "queue d' k = (if k = rq_AggregateKey r then queue d k @ [request_entry r] else queue d k)" for k
    using app by (simp add: appended_def)
  have "sealed d'"
    using inv ok same unfolding sealed_def store_inv_def q q_PublisherPurged_def by (auto simp: request_entry_def)
  then show ?thesis using app same q by (auto simp: grew_def store_inv_def appended_def)
qed

subsection \<open>Programs that only enqueue\<close>

text \<open>A program that goes on from a database that grew from \<open>d0\<close>.\<close>

lemma after_off_queue:
  assumes "grew d0 d" "off_queue d (f d)" "\<And>d'. grew d0 d' \<Longrightarrow> after k Q d'"
  shows "after (exec what f k) Q d"
proof (rule after_exec)
  have "store_inv d" using assms(1) by (simp add: grew_def)
  then show "after k Q (f d)" using assms(3) [OF grew_trans [OF assms(1) off_queue_grew]] assms(2) by simp
qed

lemma after_enqueue:
  assumes "grew d0 d" "rq_Operation r = OutboxUnallowPublisher \<or> \<not> q_PublisherPurged (rq_AggregateKey r) d0"
    "\<And>d'. grew d0 d' \<Longrightarrow> after k Q d'"
  shows "after (enqueueOutbox r k) Q d"
proof (rule after_enqueueOutbox)
  show "outbox_inv d" using assms(1) by (simp add: grew_def store_inv_def)
  fix d' assume app: "appended r d d'"
  have "grew d d'" using assms(1,2) by (intro appended_grew [OF _ app]) (auto simp: grew_def q_PublisherPurged_def)
  then show "after k Q d'" using assms(3) grew_trans [OF assms(1)] by blast
qed

lemma after_rejectPurged: "(\<not> q_PublisherPurged pk d \<Longrightarrow> after k Q d) \<Longrightarrow> after (rejectPurged pk k) Q d"
  unfolding rejectPurged_def by (rule after_query) (auto simp: after_return_err)

lemma after_saveCursorOpt:
  assumes "grew d0 d" "\<And>d'. grew d0 d' \<Longrightarrow> after k Q d'"
  shows "after (saveCursorOpt what scope c k) Q d"
  using assms by (cases c) (auto simp: saveCursorOpt_def saveCursor_def intro: after_off_queue)

lemma after_withRegistration:
  assumes "grew d0 d" "\<not> q_PublisherPurged (rq_AggregateKey r) d0" "\<And>d'. grew d0 d' \<Longrightarrow> after k Q d'"
  shows "after (withRegistration what r lim n k) Q d"
  unfolding withRegistration_def Let_def
  using assms by (intro after_query after_guard) (auto simp: allowRequest_def intro!: after_enqueue)

lemma after_insertTargets:
  assumes "\<And>d'. grew d0 d' \<Longrightarrow> after k Q d'"
  shows "grew d0 d \<Longrightarrow> after (insertTargets scope ts k) Q d"
  by (induction ts arbitrary: d) (auto simp: assms intro: after_off_queue)

lemmas enqueue_rules = after_off_queue after_enqueue after_saveCursorOpt after_withRegistration after_insertTargets

text \<open>What validation guarantees of a publish request.\<close>

lemma validPublishD:
  "validatePublishRequest env r = None \<Longrightarrow> rq_AggregateKey r = rq_PubKey r \<and> rq_Operation r = OutboxPublishEvent
     \<and> pubKeyHex env (rq_PubKey r) = Some (rq_PubKey r)"
  by (auto simp: validatePublishRequest_def authorOk_def split: if_splits)

subsection \<open>Every operation changes queues at their ends\<close>

definition fifo :: "(string \<times> string \<times> string) list \<Rightarrow> (string \<times> string \<times> string) list \<Rightarrow> bool" where
  "fifo q q' \<longleftrightarrow> (\<exists>xs. q' = q @ xs) \<or> (\<exists>x. q = x # q')
     \<or> (\<exists>pk pk' p rest. q = (OutboxPublishEvent, pk, p) # rest
          \<and> q' = (OutboxAllowPublisher, pk, []) # (OutboxPublishEvent, pk', p) # rest)"

text \<open>\<open>P\<close> are the rows the operation may take or change, \<open>T\<close> the token it claims with.\<close>

definition fifo_change :: "(OutboxRow \<Rightarrow> bool) \<Rightarrow> string set \<Rightarrow> bridge_db \<Rightarrow> bridge_db \<Rightarrow> bool" where
  "fifo_change P T d d' \<longleftrightarrow> store_inv d' \<and> (\<forall>k. fifo (queue d k) (queue d' k))
     \<and> (\<forall>pk. q_PublisherPurged pk d \<longrightarrow> q_PublisherPurged pk d')
     \<and> (\<forall>r \<in> set (outbox d). \<not> P r \<longrightarrow> r \<in> set (outbox d')) \<and> no_new_claims T d d'
     \<and> ((\<forall>r. \<not> P r) \<longrightarrow> (\<forall>k. \<exists>xs. queue d' k = queue d k @ xs))"

lemma grew_fifo: "grew d d' \<Longrightarrow> fifo_change P T d d'"
  unfolding grew_def fifo_change_def fifo_def q_PublisherPurged_def no_new_claims_def by auto

definition safe_op :: "(OutboxRow \<Rightarrow> bool) \<Rightarrow> string set \<Rightarrow> 'a act \<Rightarrow> bool" where
  "safe_op P T m \<longleftrightarrow> (\<forall>d. store_inv d \<longrightarrow> atomic_op m (\<lambda>_ d'. fifo_change P T d d') d)"

lemma safe_transaction:
  assumes "\<And>d. store_inv d \<Longrightarrow> after body (\<lambda>_ d'. fifo_change P T d d') d"
  shows "safe_op P T (transaction b c body)"
  unfolding safe_op_def
proof (intro allI impI)
  fix d assume "store_inv d"
  then have "fifo_change P T d d" using grew_fifo grew_refl by blast
  then show "atomic_op (transaction b c body) (\<lambda>_ d'. fifo_change P T d d') d"
    using assms [OF \<open>store_inv d\<close>] by (intro atomic_transaction) (auto elim!: after_mono)
qed

lemma safe_guard: "(\<not> bad \<Longrightarrow> safe_op P T m) \<Longrightarrow> safe_op P T (guard bad e m)"
  unfolding safe_op_def by (blast intro: atomic_guard)

lemma safe_check: "(e = None \<Longrightarrow> safe_op P T m) \<Longrightarrow> safe_op P T (check e m)"
  unfolding safe_op_def by (blast intro: atomic_check)

lemma safe_exec: "(\<And>d. off_queue d (f d)) \<Longrightarrow> safe_op P T (exec what f (return_ok ()))"
  unfolding safe_op_def by (blast intro: atomic_exec grew_fifo off_queue_grew)

lemma after_grew: "grew d0 d \<Longrightarrow> after (return_ok True) (\<lambda>_ d'. fifo_change P T d0 d') d"
  by (simp add: after_return_ok grew_fifo)

lemma safe_EnqueueOutbox: "safe_op P T (EnqueueOutbox env r)"
  unfolding EnqueueOutbox_def Let_def
proof (intro safe_guard safe_check safe_transaction)
  fix d
  assume author: "\<not> (rq_Operation r \<in> {OutboxAllowPublisher, OutboxPublishEvent, OutboxUnallowPublisher} \<and> \<not> authorOk env r)"
    and inv: "store_inv d"
  have enq: "after (enqueueOutbox r (return_ok True)) (\<lambda>_ d'. fifo_change P T d d') d"
    if np: "rq_Operation r = OutboxUnallowPublisher \<or> \<not> q_PublisherPurged (rq_PubKey r) d"
  proof (rule after_enqueueOutbox)
    show "outbox_inv d" using inv by (simp add: store_inv_def)
    fix d' assume app: "appended r d d'"
    then have "authorOk env r" using author by (auto simp: appended_def outbox_check_def)
    then have "grew d d'" using np by (intro appended_grew [OF inv app]) (simp add: authorOk_def)
    then show "after (return_ok True) (\<lambda>_ d'. fifo_change P T d d') d'" by (rule after_grew)
  qed
  show "after (if rq_Operation r \<noteq> OutboxUnallowPublisher then rejectPurged (rq_PubKey r) (enqueueOutbox r (return_ok True))
      else enqueueOutbox r (return_ok True)) (\<lambda>_ d'. fifo_change P T d d') d"
    using enq by (auto intro: after_rejectPurged)
qed

lemma safe_SaveEventAndEnqueue: "safe_op P T (SaveEventAndEnqueue env ev r)"
  unfolding SaveEventAndEnqueue_def upsertEventMapping_def
  by (intro safe_guard safe_check safe_transaction after_rejectPurged)
    (auto dest!: validPublishD intro!: enqueue_rules grew_refl after_grew)

lemma safe_EnqueueEvent: "safe_op P T (EnqueueEvent env r)"
  unfolding EnqueueEvent_def upsertEventMapping_def saveSourceOperation_def
  by (intro safe_guard safe_check safe_transaction after_rejectPurged)
    (auto dest!: validPublishD intro!: enqueue_rules grew_refl after_grew)

lemma safe_EnqueueUpdate: "safe_op P T (EnqueueUpdate env r)"
  unfolding EnqueueUpdate_def upsertEventMapping_def saveSourceOperation_def Let_def
  by (intro safe_guard safe_check safe_transaction after_rejectPurged)
    (auto dest!: validPublishD intro!: enqueue_rules grew_refl after_grew)

lemma safe_EnqueueDelete: "safe_op P T (EnqueueDelete env r)"
  unfolding EnqueueDelete_def
proof (intro safe_transaction after_query)
  fix d assume "store_inv d"
  then show "after (case q_EventAuthorBySourceURI (de_Source r) d of
      None \<Rightarrow> return_err (ErrNoRows ''find delete mapping author'')
    | Some stored \<Rightarrow>
        guard (rq_PubKey (de_Event r) \<noteq> stored) ErrAuthorMismatch
        (check (validatePublishRequest env (de_Event r))
        (rejectPurged (rq_PubKey (de_Event r))
        (withRegistration [] (de_Event r) (de_Limit r) 1
        (exec ''delete bridge event'' (q_DeleteEventMapping (de_Source r))
        (exec ''delete source operation'' (q_DeleteSourceOperation (de_Source r))
        (enqueueOutbox (de_Event r)
        (saveCursorOpt [] (Scope (de_Source r)) (de_Cursor r) (return_ok True))))))))) (\<lambda>_ d'. fifo_change P T d d') d"
    by (cases "q_EventAuthorBySourceURI (de_Source r) d")
      (auto simp: after_return_err dest!: validPublishD intro!: after_guard after_check after_rejectPurged enqueue_rules grew_refl after_grew)
qed

lemma after_option:
  "(x = None \<Longrightarrow> after a Q d) \<Longrightarrow> (\<And>y. x = Some y \<Longrightarrow> after (b y) Q d) \<Longrightarrow>
     after (case x of None \<Rightarrow> a | Some y \<Rightarrow> b y) Q d"
  by (cases x) auto

lemma after_if: "(P \<Longrightarrow> after a Q d) \<Longrightarrow> (\<not> P \<Longrightarrow> after b Q d) \<Longrightarrow> after (if P then a else b) Q d"
  by simp

text \<open>A purge marks the publisher and closes its queue in one transaction.\<close>

lemma off_mark: "q_InsertPublisherPurge pk ev secs d = Some d' \<Longrightarrow>
    outbox d' = outbox d \<and> last_id d' = last_id d \<and> outbox_sequences d' = outbox_sequences d
    \<and> publisher_purges d' = mput (publisher_purges d) pk (ev, secs)"
  by (auto simp: q_InsertPublisherPurge_def split: if_splits)

lemma outbox_inv_cong:
  "outbox d' = outbox d \<Longrightarrow> last_id d' = last_id d \<Longrightarrow> outbox_sequences d' = outbox_sequences d \<Longrightarrow> outbox_inv d' = outbox_inv d"
  unfolding outbox_inv_def no_prior_def by simp

lemma purge_closes:
  assumes inv: "store_inv d" and mark: "q_InsertPublisherPurge pk ev secs d = Some d1"
    and r1: "appended r1 d1 d2" "rq_AggregateKey r1 = pk" and r2: "appended r2 d2 d3" "rq_AggregateKey r2 = pk"
    and op: "rq_Operation r2 = OutboxUnallowPublisher"
  shows "fifo_change P T d d3 \<and> q_PublisherPurged pk d3 \<and> queue d3 pk = queue d pk @ [request_entry r1, request_entry r2]"
proof -
  note m = off_mark [OF mark]
  have q1: "queue d1 = queue d" using m by (intro queue_cong) simp
  have q3: "queue d3 k = (if k = pk then queue d k @ [request_entry r1, request_entry r2] else queue d k)" for k
    using r1 r2 by (simp add: appended_def q1)
  have p3: "publisher_purges d3 = mput (publisher_purges d) pk (ev, secs)"
    using r1 r2 m by (simp add: appended_def same_rest_def)
  have "sealed d3"
    using inv op unfolding sealed_def q3 q_PublisherPurged_def p3 store_inv_def by (auto simp: request_entry_def)
  moreover have "outbox_inv d3" using r2(1) by (simp add: appended_def)
  moreover have "fifo (queue d k) (queue d3 k)" for k unfolding q3 fifo_def by simp
  moreover have "set (outbox d) \<subseteq> set (outbox d3)" "no_new_claims T d d3" using r1(1) r2(1) m by (auto simp: appended_def no_new_claims_def)
  ultimately show ?thesis using q3 p3 by (auto simp: fifo_change_def store_inv_def q_PublisherPurged_def)
qed

lemma after_purge_writes:
  assumes inv: "store_inv d"
    and Q: "\<And>d3. fifo_change P T d d3 \<Longrightarrow> q_PublisherPurged (pr_PubKey r) d3 \<Longrightarrow>
      queue d3 (pr_PubKey r) = queue d (pr_PubKey r) @ [request_entry (fst (purgeRequests r)), request_entry (snd (purgeRequests r))] \<Longrightarrow> Q True d3"
  shows "after (exec_checked what (q_InsertPublisherPurge (pr_PubKey r) ev secs)
      (enqueueOutbox (fst (purgeRequests r)) (enqueueOutbox (snd (purgeRequests r)) (return_ok True)))) Q d"
proof (rule after_exec_checked)
  fix d1 assume mark: "q_InsertPublisherPurge (pr_PubKey r) ev secs d = Some d1"
  have inv1: "outbox_inv d1" using off_mark [OF mark] inv outbox_inv_cong [of d1 d] by (simp add: store_inv_def)
  show "after (enqueueOutbox (fst (purgeRequests r)) (enqueueOutbox (snd (purgeRequests r)) (return_ok True))) Q d1"
  proof (rule after_enqueueOutbox [OF inv1])
    fix d2 assume r1: "appended (fst (purgeRequests r)) d1 d2"
    then have "outbox_inv d2" by (simp add: appended_def)
    then show "after (enqueueOutbox (snd (purgeRequests r)) (return_ok True)) Q d2"
    proof (rule after_enqueueOutbox)
      fix d3 assume "appended (snd (purgeRequests r)) d2 d3"
      from purge_closes [OF inv mark r1 _ this] show "after (return_ok True) Q d3"
        using Q by (simp add: after_return_ok purgeRequests_def)
    qed
  qed
qed

lemma safe_EnqueuePurge: "safe_op P T (EnqueuePurge env r)"
  unfolding EnqueuePurge_def
proof (rule safe_transaction)
  fix d assume inv: "store_inv d"
  have same: "after (return_ok False) (\<lambda>_ d'. fifo_change P T d d') d"
    using grew_fifo [OF grew_refl [OF inv]] by (simp add: after_return_ok)
  show "after (case decodeEvent env (pr_Payload r) of
          None \<Rightarrow> return_err ErrInvalidPurge
        | Some del \<Rightarrow>
            guard (ev_Kind del \<noteq> 5 \<or> ev_PubKey del \<noteq> pr_PubKey r \<or> \<not> ev_CheckID del \<or> \<not> ev_VerifySignature del) ErrInvalidPurge
            (query [] (q_EventIDsByAuthor (pr_PubKey r)) (\<lambda>ids.
             guard (\<not> coversKnown (ev_Tags del) ids) ErrPurgeNotCovering
             (query [] (q_PublisherPurgeEvent (pr_PubKey r)) (\<lambda>marked.
              case marked of
                Some m \<Rightarrow> if m = ev_ID del then return_ok False else return_err ErrPurgePending
              | None \<Rightarrow>
                  query [] (q_PublisherUnallowPending (pr_PubKey r)) (\<lambda>unallowExists.
                  guard unallowExists ErrPurgeConflict
                  (query [] (q_PublisherRegistered (pr_PubKey r)) (\<lambda>registered.
                   guard (\<not> registered) ErrNotRegistered
                   (query [] q_OutboxCount (\<lambda>count.
                    guard (pr_Limit r \<le> 0 \<or> count + 2 > pr_Limit r) ErrOutboxFull
                    (exec_checked ''mark publisher purge''
                       (q_InsertPublisherPurge (pr_PubKey r) (ev_ID del) (unix (pr_AvailableAt r)))
                    (enqueueOutbox (fst (purgeRequests r))
                    (enqueueOutbox (snd (purgeRequests r)) (return_ok True)))))))))))))) (\<lambda>_ d'. fifo_change P T d d') d"
    using same after_purge_writes [OF inv, where Q = "\<lambda>_ d'. fifo_change P T d d'"]
    by (intro after_option after_if after_guard after_query) (auto simp: after_return_err)
qed

text \<open>Reconciliation reads, then enqueues what is pending.\<close>

definition publishable :: "nostr_env \<Rightarrow> bridge_db \<Rightarrow> EventEnqueueRequest \<Rightarrow> bool" where
  "publishable env d e \<longleftrightarrow> validatePublishRequest env (ee_Event e) = None \<and> \<not> q_PublisherPurged (rq_PubKey (ee_Event e)) d
     \<and> rq_PubKey (ee_Event e) = AuthorPubKey (ee_Mapping e)"

lemma after_scanEvents:
  assumes k: "\<And>registered pending needed. list_all (publishable env d) pending \<Longrightarrow> after (k registered pending needed) Q d"
  shows "list_all (publishable env d) pending \<Longrightarrow> after (scanEvents env scopes es registered pending needed k) Q d"
proof (induction es arbitrary: registered pending needed)
  case (Cons e es)
  have add: "after (scanPending e registered needed (\<lambda>registered' needed'.
      scanEvents env scopes es registered' (pending @ [e]) needed' k)) Q d" if "publishable env d e"
    using Cons that by (auto simp: scanPending_def split: option.split intro!: after_query)
  show ?case
    unfolding scanEvents.simps Let_def
    using Cons add
    by (intro after_guard after_check after_rejectPurged after_query)
      (auto simp: publishable_def split: option.split intro!: after_query)
qed (simp add: k)

lemma after_writePending:
  assumes k: "\<And>d'. grew d0 d' \<Longrightarrow> after k Q d'"
  shows "grew d0 d \<Longrightarrow> list_all (publishable env d0) pending \<Longrightarrow> after (writePending registered queued pending k) Q d"
proof (induction pending arbitrary: d queued)
  case (Cons e es)
  have e: "rq_AggregateKey (ee_Event e) = rq_PubKey (ee_Event e)" "\<not> q_PublisherPurged (rq_PubKey (ee_Event e)) d0"
    using Cons.prems(2) by (auto simp: publishable_def dest: validPublishD)
  show ?case
    using Cons e unfolding writePending.simps Let_def upsertEventMapping_def saveSourceOperation_def
    by (auto simp: allowRequest_def intro!: after_off_queue after_enqueue)
qed (simp add: k)

lemma safe_ReconcileBatch: "safe_op P T (ReconcileBatch env r)"
  unfolding ReconcileBatch_def
proof (intro safe_transaction after_query after_guard)
  fix d assume inv: "store_inv d"
  show "after (scanEvents env (rb_EventScopes r) (rb_Events r) [] [] 0 (\<lambda>registered pending needed.
           guard (rb_Limit r \<le> 0 \<or> q_OutboxCount d + needed > rb_Limit r) ErrOutboxFull
           (exec ''clear sync targets'' (q_ReplaceSyncTargetsDelete (rb_TargetScope r))
           (insertTargets (rb_TargetScope r) (rb_Targets r)
           (writePending registered [] pending
           (saveCursorOpt ''save reconciliation cursor'' (rb_CursorScope r) (rb_Cursor r) (return_ok True)))))))
      (\<lambda>_ d'. fifo_change P T d d') d"
    by (rule after_scanEvents)
      (auto intro!: after_guard after_off_queue after_insertTargets after_writePending after_saveCursorOpt after_grew grew_refl inv)
qed

text \<open>Claims and their ends.\<close>

lemma took_fifo:
  assumes inv: "store_inv d" and t: "took r d d'" and p: "publisher_purges d' = publisher_purges d" and P: "P r"
  shows "fifo_change P T d d'"
proof -
  have q: "queue d (ob_key r) = queue_entry r # queue d' (ob_key r)" "\<And>k. k \<noteq> ob_key r \<Longrightarrow> queue d' k = queue d k"
    using t by (simp_all add: took_def)
  have "sealed d'"
    unfolding sealed_def
  proof (intro allI impI)
    fix pk assume "q_PublisherPurged pk d'"
    then have "queue d pk = [] \<or> fst (last (queue d pk)) = OutboxUnallowPublisher"
      using inv p by (simp add: store_inv_def sealed_def q_PublisherPurged_def)
    then show "queue d' pk = [] \<or> fst (last (queue d' pk)) = OutboxUnallowPublisher"
      using q(1) q(2) [of pk] by (cases "pk = ob_key r"; cases "queue d' (ob_key r)") auto
  qed
  moreover have "fifo (queue d k) (queue d' k)" for k using q(1) q(2) [of k] by (cases "k = ob_key r") (auto simp: fifo_def queue_entry_def)
  moreover have "x \<in> set (outbox d')" if "x \<in> set (outbox d)" "\<not> P x" for x
    using t P that unfolding took_def by blast
  moreover have "no_new_claims T d d'" using t by (auto simp: took_def no_new_claims_def)
  ultimately show ?thesis using t p P by (auto simp: fifo_change_def store_inv_def took_def q_PublisherPurged_def)
qed

lemma claimed_same_key:
  assumes "outbox_inv d" "r \<in> set (outbox d)" "ob_token r \<noteq> []" "x \<in> set (outbox d)" "ob_token x \<noteq> []" "ob_key x = ob_key r"
  shows "x = r"
  using aggregate_head [OF inv_unique, OF assms(1,2) inv_claimed_head, OF assms(1,2,3)]
    aggregate_head [OF inv_unique, OF assms(1,4) inv_claimed_head, OF assms(1,4,5)] assms(6) by (metis list.inject)

lemma recovered_fifo:
  assumes inv: "store_inv d" and t: "recovered r pk d d'" and p: "publisher_purges d' = publisher_purges d"
    and r: "r \<in> set (outbox d)" "P r" "ob_token r \<noteq> []" and P: "\<And>x. ob_token x = [] \<Longrightarrow> P x"
  shows "fifo_change P T d d'"
proof -
  define rest where "rest = tl (queue d (ob_key r))"
  have q: "queue d (ob_key r) = (OutboxPublishEvent, ob_pubkey r, ob_payload r) # rest"
    "queue d' (ob_key r) = (OutboxAllowPublisher, ob_pubkey r, []) # (OutboxPublishEvent, pk, ob_payload r) # rest"
    "\<And>k. k \<noteq> ob_key r \<Longrightarrow> queue d' k = queue d k"
    using t unfolding rest_def recovered_def queue_entry_def by (elim conjE; metis)+
  have "sealed d'"
    unfolding sealed_def
  proof (intro allI impI)
    fix x assume "q_PublisherPurged x d'"
    then have "queue d x = [] \<or> fst (last (queue d x)) = OutboxUnallowPublisher"
      using inv p by (simp add: store_inv_def sealed_def q_PublisherPurged_def)
    then show "queue d' x = [] \<or> fst (last (queue d' x)) = OutboxUnallowPublisher"
      using q(1,2) q(3) [of x]
      by (cases "x = ob_key r") (auto simp: OutboxPublishEvent_def OutboxUnallowPublisher_def split: if_splits)
  qed
  moreover have "fifo (queue d k) (queue d' k)" for k
    using q(1,2) q(3) [of k] unfolding fifo_def by (cases "k = ob_key r") auto
  moreover have "x \<in> set (outbox d')" if "x \<in> set (outbox d)" "\<not> P x" for x
  proof -
    have "outbox_inv d" "ob_token x \<noteq> []" "x \<noteq> r" using inv P r(2) that(2) by (auto simp: store_inv_def)
    then have "ob_key x \<noteq> ob_key r" using claimed_same_key r that(1) by blast
    then show ?thesis using t that(1) unfolding recovered_def by blast
  qed
  moreover have "no_new_claims T d d'" using t unfolding recovered_def no_new_claims_def by blast
  ultimately show ?thesis using t p r(2) by (auto simp: fifo_change_def store_inv_def recovered_def q_PublisherPurged_def)
qed

lemma kept_fifo:
  assumes "store_inv d" "outbox_inv d' \<and> same_rest d d' \<and> queue d' = queue d"
    "\<And>r. r \<in> set (outbox d) \<Longrightarrow> \<not> P r \<Longrightarrow> r \<in> set (outbox d')"
    "no_new_claims T d d'"
  shows "fifo_change P T d d'"
proof -
  have "sealed d'" using assms by (simp add: store_inv_def sealed_def same_rest_def q_PublisherPurged_def)
  then show ?thesis using assms(2,3,4) by (simp add: fifo_change_def store_inv_def fifo_def same_rest_def q_PublisherPurged_def)
qed

lemma complete_nothing: "q_CompleteOutbox i tok now d = (0, d') \<Longrightarrow> d' = d"
  by (auto simp: q_CompleteOutbox_def filter_empty_conv intro!: bridge_db.equality filter_True)

lemma retry_nothing: "q_RetryOutbox av err i tok now d = (0, d') \<Longrightarrow> d' = d"
  by (auto simp: q_RetryOutbox_def filter_empty_conv intro!: bridge_db.equality map_idI)

lemma atomic_owned:
  assumes none: "\<And>d'. f d = (0, d') \<Longrightarrow> d' = d" and some: "\<And>n d'. f d = (n, d') \<Longrightarrow> n \<noteq> 0 \<Longrightarrow> Q () d'"
  shows "atomic_op (exec_result what f (\<lambda>rows. requireClaimOwner rows (return_ok ()))) Q d"
proof -
  obtain n d' where f: "f d = (n, d')" by (cases "f d")
  then show ?thesis using none some
    by (cases "n = 0") (auto simp: atomic_op_def exec_result_def stmt_def requireClaimOwner_def guard_def return_ok_def
        return_err_def passed_def)
qed

lemma safe_CompleteOutbox: "safe_op (owns i tok now) T (CompleteOutbox i tok now)"
  unfolding safe_op_def CompleteOutbox_def
proof (intro allI impI atomic_owned)
  fix d n d' assume inv: "store_inv d" and c: "q_CompleteOutbox i tok now d = (n, d')" "n \<noteq> 0"
  obtain r where "owns i tok now r" "took r d d'" "same_rest d d'" using complete_takes [OF _ c] inv by (auto simp: store_inv_def)
  then show "fifo_change (owns i tok now) T d d'" using took_fifo [OF inv] by (simp add: same_rest_def)
qed (simp add: complete_nothing)

lemma safe_RetryOutbox: "safe_op (owns i tok now) T (RetryOutbox i tok now av err)"
  unfolding safe_op_def RetryOutbox_def
proof (intro allI impI atomic_owned)
  fix d n d' assume inv: "store_inv d" and c: "q_RetryOutbox (unix av) err i tok now d = (n, d')"
  show "fifo_change (owns i tok now) T d d'" using retry_keeps [OF _ c] inv by (intro kept_fifo [OF inv]) (auto simp: store_inv_def no_new_claims_def)
qed (simp add: retry_nothing)

lemma safe_ClaimOutbox: "safe_op (unclaimed now) (set_option tok) (ClaimOutbox tok now lease lim)"
  unfolding safe_op_def
proof (intro allI impI)
  fix d assume inv: "store_inv d"
  have fifo: "fifo_change (unclaimed now) (set_option tok) d d'" if "q_ClaimOutbox t u now secs l d = (rows, d')" "tok = Some t" for t u secs l rows d'
    using claim_keeps [OF _ that(1)] inv that(2) by (intro kept_fifo [OF inv]) (auto simp: store_inv_def)
  have refl: "fifo_change (unclaimed now) (set_option tok) d d" using grew_fifo [OF grew_refl [OF inv]] .
  show "atomic_op (ClaimOutbox tok now lease lim) (\<lambda>_ d'. fifo_change (unclaimed now) (set_option tok) d d') d"
    unfolding ClaimOutbox_def
  proof (rule atomic_guard)
    show "atomic_op (if lim \<le> 0 then return_ok []
      else case tok of None \<Rightarrow> return_err ErrClaimToken
        | Some tok \<Rightarrow> exec_result ''select claimable outbox items'' (q_ClaimOutbox tok (now + lease) now (unix now) lim) (\<lambda>rows.
              return_ok (sort_key item_order
                (map (\<lambda>r. (outboxItem r)\<lparr>it_ClaimToken := tok, it_ClaimedUntil := now + lease\<rparr>) rows)))) (\<lambda>_ d'. fifo_change (unclaimed now) (set_option tok) d d') d"
      using fifo refl
      by (auto simp: atomic_op_def return_ok_def return_err_def exec_result_def stmt_def passed_def split: option.split prod.split)
  qed
qed

text \<open>After completing, the transaction touches other tables only.\<close>

lemma after_completed:
  assumes inv: "store_inv d" and k: "\<And>d'. fifo_change (owns i tok now) T d d' \<Longrightarrow> after k Q d'"
  shows "after (exec_result what (q_CompleteOutbox i tok now) (\<lambda>rows. requireClaimOwner rows k)) Q d"
  unfolding requireClaimOwner_def
proof (intro after_exec_result after_guard)
  fix n d' assume c: "q_CompleteOutbox i tok now d = (n, d')" "n \<noteq> 0"
  obtain r where "owns i tok now r" "took r d d'" "same_rest d d'" using complete_takes [OF _ c] inv by (auto simp: store_inv_def)
  then show "after k Q d'" using took_fifo [OF inv] k by (simp add: same_rest_def)
qed

lemma after_aside:
  assumes "fifo_change P T d0 d" "off_queue d (f d)" "\<And>d'. fifo_change P T d0 d' \<Longrightarrow> after k Q d'"
  shows "after (exec what f k) Q d"
proof (rule after_exec)
  have "store_inv d" using assms(1) by (simp add: fifo_change_def)
  then have "store_inv (f d)" "queue (f d) = queue d"
    using off_queue_grew [OF _ assms(2)] assms(2) queue_cong [of "f d" d] by (auto simp: grew_def off_queue_def)
  moreover have "outbox (f d) = outbox d" "publisher_purges (f d) = publisher_purges d" using assms(2) by (simp_all add: off_queue_def)
  ultimately show "after k Q (f d)" using assms(1) by (intro assms(3)) (simp add: fifo_change_def q_PublisherPurged_def no_new_claims_def)
qed

lemma safe_CompletePublisherRegistration: "safe_op (owns i tok now) T (CompletePublisherRegistration i tok pk now)"
  unfolding CompletePublisherRegistration_def
  by (intro safe_transaction after_completed after_aside) (auto simp: after_return_ok)

lemma safe_CompletePublisherUnregistration: "safe_op (owns i tok now) T (CompletePublisherUnregistration i tok now pk)"
  unfolding CompletePublisherUnregistration_def
  by (intro safe_transaction after_completed after_aside) (auto simp: after_return_ok)

lemma safe_RecoverPublisherRegistration: "safe_op (\<lambda>r. owns i tok now r \<or> ob_token r = []) T (RecoverPublisherRegistration i tok pk now)"
  unfolding RecoverPublisherRegistration_def
proof (intro safe_transaction after_query after_option)
  fix d and c :: "string \<times> int \<times> string"
  assume inv: "store_inv d" and c: "q_ClaimedPublishEvent i tok now d = Some c"
  obtain k sq payload where p: "c = (k, sq, payload)" by (cases c)
  have "fifo_change (\<lambda>r. owns i tok now r \<or> ob_token r = []) T d d'"
    if "q_NegateLaterOutboxSequences k sq (q_ResetRejectedPublishAsRegistration (unix now) i (q_ClearPublisherRegistration pk d)) = Some d3"
      "q_ShiftNegatedOutboxSequences k d3 = Some d4"
      "q_InsertRecoveredPublish k (sq + 1) pk payload (unix now) (q_IncrementOutboxLastSequence k d4) = Some d'" for d3 d4 d'
  proof -
    have "outbox_inv d" using inv by (simp add: store_inv_def)
    from recover_requeues [OF this c [unfolded p] that(1) that(2) that(3)]
    obtain r where "recovered r pk d d'" "same_rest (q_ClearPublisherRegistration pk d) d'" "r \<in> set (outbox d)" "owns i tok now r"
      by blast
    then show ?thesis
      by (intro recovered_fifo [OF inv]) (auto simp: same_rest_def q_ClearPublisherRegistration_def owns_def)
  qed
  then show "after (case c of (k, sq, payload) \<Rightarrow>
              guard (k \<noteq> pk) ErrAuthorMismatch
              (exec [] (q_ClearPublisherRegistration pk)
              (exec [] (q_ResetRejectedPublishAsRegistration (unix now) i)
              (exec_checked [] (q_NegateLaterOutboxSequences k sq)
              (exec_checked [] (q_ShiftNegatedOutboxSequences k)
              (exec [] (q_IncrementOutboxLastSequence k)
              (exec_checked [] (q_InsertRecoveredPublish k (sq + 1) pk payload (unix now))
              (return_ok True)))))))) (\<lambda>_ d'. fifo_change (\<lambda>r. owns i tok now r \<or> ob_token r = []) T d d') d"
    unfolding p by (auto simp: after_return_ok intro!: after_guard after_exec after_exec_checked)
qed (simp add: after_return_err)


lemma safe_ReplaceSyncTargets: "safe_op P T (ReplaceSyncTargets scope ts)"
  unfolding ReplaceSyncTargets_def
  by (intro safe_transaction) (auto intro!: enqueue_rules grew_refl after_grew)

lemma safe_DeleteEventBySourceURI: "safe_op P T (DeleteEventBySourceURI ref)"
  unfolding DeleteEventBySourceURI_def
  by (intro safe_transaction) (auto intro!: enqueue_rules grew_refl after_grew)

lemma safe_UpsertSubscriptionWithLimit: "safe_op P T (UpsertSubscriptionWithLimit sub n)"
  unfolding UpsertSubscriptionWithLimit_def Let_def
  by (intro safe_transaction after_if after_query after_guard) (auto intro!: enqueue_rules grew_refl after_grew)

subsection \<open>Histories\<close>

datatype bridge_op =
    OpEnqueueOutbox OutboxRequest
  | OpSaveEventAndEnqueue EventMapping OutboxRequest
  | OpEnqueueEvent EventEnqueueRequest
  | OpEnqueueDelete DeleteEnqueueRequest
  | OpEnqueueUpdate UpdateEnqueueRequest
  | OpEnqueuePurge PurgeRequest
  | OpReconcileBatch ReconciliationBatchRequest
  | OpReconcile ReconciliationRequest
  | OpClaimOutbox "string option" int int int
  | OpCompleteOutbox int string int
  | OpCompletePublisherRegistration int string string int
  | OpCompletePublisherUnregistration int string int string
  | OpRecoverPublisherRegistration int string string int
  | OpRetryOutbox int string int int string
  | OpSetPublisherRegistered string int
  | OpClearPublisherRegistration string
  | OpReplaceSyncTargets SourceScope "string list"
  | OpSaveEventMapping EventMapping
  | OpDeleteEventBySourceURI SourceRef
  | OpSaveSourceOperation SourceRef string
  | OpSaveCursor SourceScope string string
  | OpSaveOAuthSession SourceScope OAuthSession
  | OpDeleteOAuthSession SourceScope string
  | OpSaveOAuthToken SourceScope OAuthToken
  | OpUpdateOAuthTokenRefreshFailure SourceScope string string bool
  | OpSaveVAPIDKeys StoredVAPIDKeys
  | OpSaveVAPIDKeysIfAbsent StoredVAPIDKeys
  | OpUpsertSubscriptionWithLimit StoredSubscription int
  | OpDeleteSubscription string

definition run_act :: "'a act \<Rightarrow> bool list \<Rightarrow> bridge_db \<Rightarrow> bridge_db" where
  "run_act m fs d = sq_db (snd (m \<lparr>sq_faults = fs, sq_db = d\<rparr>))"

fun run_op :: "nostr_env \<Rightarrow> bridge_op \<Rightarrow> bool list \<Rightarrow> bridge_db \<Rightarrow> bridge_db" where
  "run_op env (OpEnqueueOutbox r) = run_act (EnqueueOutbox env r)"
| "run_op env (OpSaveEventAndEnqueue ev r) = run_act (SaveEventAndEnqueue env ev r)"
| "run_op env (OpEnqueueEvent r) = run_act (EnqueueEvent env r)"
| "run_op env (OpEnqueueDelete r) = run_act (EnqueueDelete env r)"
| "run_op env (OpEnqueueUpdate r) = run_act (EnqueueUpdate env r)"
| "run_op env (OpEnqueuePurge r) = run_act (EnqueuePurge env r)"
| "run_op env (OpReconcileBatch r) = run_act (ReconcileBatch env r)"
| "run_op env (OpReconcile r) = run_act (Reconcile env r)"
| "run_op env (OpClaimOutbox tok now lease lim) = run_act (ClaimOutbox tok now lease lim)"
| "run_op env (OpCompleteOutbox i tok now) = run_act (CompleteOutbox i tok now)"
| "run_op env (OpCompletePublisherRegistration i tok pk now) = run_act (CompletePublisherRegistration i tok pk now)"
| "run_op env (OpCompletePublisherUnregistration i tok now pk) = run_act (CompletePublisherUnregistration i tok now pk)"
| "run_op env (OpRecoverPublisherRegistration i tok pk now) = run_act (RecoverPublisherRegistration i tok pk now)"
| "run_op env (OpRetryOutbox i tok now av err) = run_act (RetryOutbox i tok now av err)"
| "run_op env (OpSetPublisherRegistered pk at) = run_act (SetPublisherRegistered pk at)"
| "run_op env (OpClearPublisherRegistration pk) = run_act (ClearPublisherRegistration pk)"
| "run_op env (OpReplaceSyncTargets scope ts) = run_act (ReplaceSyncTargets scope ts)"
| "run_op env (OpSaveEventMapping m) = run_act (SaveEventMapping m)"
| "run_op env (OpDeleteEventBySourceURI ref) = run_act (DeleteEventBySourceURI ref)"
| "run_op env (OpSaveSourceOperation ref ident) = run_act (SaveSourceOperation ref ident)"
| "run_op env (OpSaveCursor scope name val) = run_act (SaveCursor scope name val)"
| "run_op env (OpSaveOAuthSession scope x) = run_act (SaveOAuthSession scope x)"
| "run_op env (OpDeleteOAuthSession scope st) = run_act (DeleteOAuthSession scope st)"
| "run_op env (OpSaveOAuthToken scope t) = run_act (SaveOAuthToken scope t)"
| "run_op env (OpUpdateOAuthTokenRefreshFailure scope did cls b) = run_act (UpdateOAuthTokenRefreshFailure scope did cls b)"
| "run_op env (OpSaveVAPIDKeys k) = run_act (SaveVAPIDKeys k)"
| "run_op env (OpSaveVAPIDKeysIfAbsent k) = run_act (SaveVAPIDKeysIfAbsent k)"
| "run_op env (OpUpsertSubscriptionWithLimit s n) = run_act (UpsertSubscriptionWithLimit s n)"
| "run_op env (OpDeleteSubscription e) = run_act (DeleteSubscription e)"

text \<open>A history: the operations in the order in which the single connection runs them, each with
  the statements of it that fail.\<close>

fun run_ops :: "nostr_env \<Rightarrow> (bridge_op \<times> bool list) list \<Rightarrow> bridge_db \<Rightarrow> bridge_db" where
  "run_ops env [] d = d"
| "run_ops env ((op, fs) # ops) d = run_ops env ops (run_op env op fs d)"

lemma run_ops_append: "run_ops env (xs @ ys) d = run_ops env ys (run_ops env xs d)"
  by (induction xs arbitrary: d) auto

lemma run_act_safe:
  assumes "safe_op P T m" "store_inv d"
  shows "fifo_change P T d (run_act m fs d)"
proof -
  obtain x s' where run: "m \<lparr>sq_faults = fs, sq_db = d\<rparr> = (x, s')" by (cases "m \<lparr>sq_faults = fs, sq_db = d\<rparr>")
  have refl: "fifo_change P T d d" using grew_fifo [OF grew_refl [OF assms(2)]] .
  have "atomic_op m (\<lambda>_ d'. fifo_change P T d d') d" using assms by (simp add: safe_op_def)
  from this [unfolded atomic_op_def, rule_format, of fs]
  show ?thesis using refl by (simp add: run run_act_def split: sum.splits)
qed

lemmas safe_ops = safe_EnqueueOutbox safe_SaveEventAndEnqueue safe_EnqueueEvent safe_EnqueueDelete safe_EnqueueUpdate
  safe_EnqueuePurge safe_ReconcileBatch safe_ClaimOutbox safe_CompleteOutbox safe_CompletePublisherRegistration
  safe_CompletePublisherUnregistration safe_RecoverPublisherRegistration safe_RetryOutbox safe_ReplaceSyncTargets
  safe_DeleteEventBySourceURI safe_UpsertSubscriptionWithLimit

text \<open>The rows an operation may take or change: those whose claim it owns, and those without a
  valid claim when it claims.\<close>

fun op_touches :: "bridge_op \<Rightarrow> OutboxRow \<Rightarrow> bool" where
  "op_touches (OpClaimOutbox tok now lease lim) = unclaimed now"
| "op_touches (OpCompleteOutbox i tok now) = owns i tok now"
| "op_touches (OpCompletePublisherRegistration i tok pk now) = owns i tok now"
| "op_touches (OpCompletePublisherUnregistration i tok now pk) = owns i tok now"
| "op_touches (OpRecoverPublisherRegistration i tok pk now) = (\<lambda>r. owns i tok now r \<or> ob_token r = [])"
| "op_touches (OpRetryOutbox i tok now av err) = owns i tok now"
| "op_touches _ = (\<lambda>_. False)"

fun op_token :: "bridge_op \<Rightarrow> string set" where
  "op_token (OpClaimOutbox tok now lease lim) = set_option tok"
| "op_token _ = {}"

lemma run_op_fifo: "store_inv d \<Longrightarrow> fifo_change (op_touches op) (op_token op) d (run_op env op fs d)"
  by (cases op) (auto intro!: run_act_safe safe_ops safe_exec simp: Reconcile_def SetPublisherRegistered_def
      ClearPublisherRegistration_def SaveEventMapping_def upsertEventMapping_def SaveSourceOperation_def saveSourceOperation_def
      SaveCursor_def saveCursor_def SaveOAuthSession_def DeleteOAuthSession_def SaveOAuthToken_def
      UpdateOAuthTokenRefreshFailure_def SaveVAPIDKeys_def SaveVAPIDKeysIfAbsent_def DeleteSubscription_def)

lemma store_inv_empty: "store_inv empty_db"
  using outbox_inv_empty by (simp add: store_inv_def sealed_def q_PublisherPurged_def empty_db_def)

lemma run_ops_inv: "store_inv d \<Longrightarrow> store_inv (run_ops env ops d)"
proof (induction ops arbitrary: d)
  case (Cons x ops)
  then show ?case using run_op_fifo [OF Cons.prems] by (cases x) (auto simp: fifo_change_def)
qed simp

lemma run_ops_purged: "store_inv d \<Longrightarrow> q_PublisherPurged pk d \<Longrightarrow> q_PublisherPurged pk (run_ops env ops d)"
proof (induction ops arbitrary: d)
  case (Cons x ops)
  then show ?case using run_op_fifo [OF Cons.prems(1)] by (cases x) (auto simp: fifo_change_def)
qed simp

lemma run_ops_keeps:
  "store_inv d \<Longrightarrow> r \<in> set (outbox d) \<Longrightarrow> list_all (\<lambda>(op, _). \<not> op_touches op r) ops \<Longrightarrow> r \<in> set (outbox (run_ops env ops d))"
proof (induction ops arbitrary: d)
  case (Cons x ops)
  then show ?case using run_op_fifo [OF Cons.prems(1)] by (cases x) (auto simp: fifo_change_def)
qed simp


text \<open>C4. The outbox is a first-in first-out queue per publisher. In the database that any
  operations of the store leave, run in any order and with any failures of their statements, the
  table keeps its invariant (identifiers and sequence numbers unique, only the first item of a
  publisher claimed), and the next operation leaves each queue as it is, appends to it, takes its
  first item, or puts a registration in front of a first item that was rejected.\<close>

theorem outbox_fifo:
  "store_inv (run_ops env ops empty_db)
     \<and> fifo (queue (run_ops env ops empty_db) k) (queue (run_ops env (ops @ [(op, fs)]) empty_db) k)"
  using run_op_fifo [OF run_ops_inv [OF store_inv_empty, of env ops], of op env fs] run_ops_inv [OF store_inv_empty, of env ops]
  by (simp add: run_ops_append fifo_change_def)

text \<open>C15. A purge is final: whatever runs after it, the publisher stays purged, and nothing but
  the withdrawal of its permission ever stands last in its queue, so no event of the publisher is
  published after the permission is withdrawn.\<close>

theorem purge_is_final:
  assumes "q_PublisherPurged pk (run_ops env ops empty_db)"
  shows "q_PublisherPurged pk (run_ops env (ops @ later) empty_db)
    \<and> (queue (run_ops env (ops @ later) empty_db) pk = []
        \<or> fst (last (queue (run_ops env (ops @ later) empty_db) pk)) = OutboxUnallowPublisher)"
proof -
  have "store_inv (run_ops env ops empty_db)" by (rule run_ops_inv [OF store_inv_empty])
  from run_ops_purged [OF this assms, of env later] run_ops_inv [OF this, of env later]
  show ?thesis by (auto simp: run_ops_append store_inv_def sealed_def)
qed

definition sample_event :: NostrEvent where
  "sample_event = \<lparr>ev_ID = ''id5'', ev_PubKey = ''aa'', ev_Kind = 5, ev_Tags = [], ev_CreatedAt = 0, ev_Content = [], ev_CheckID = True, ev_VerifySignature = True\<rparr>"

definition sample_env :: nostr_env where
  "sample_env = \<lparr>pubKeyHex = (\<lambda>k. if k = [] then None else Some k), decodeEvent = (\<lambda>p. if p = ''del'' then Some sample_event else None),
     encodeEvent = (\<lambda>e. if e = sample_event then Some ''del'' else None)\<rparr>"

definition sample_purge :: PurgeRequest where
  "sample_purge = \<lparr>pr_PubKey = ''aa'', pr_Payload = ''del'', pr_AvailableAt = 0, pr_Limit = 10\<rparr>"

lemmas sample_simps = sample_event_def sample_env_def sample_purge_def empty_db_def run_act_def

theorem purge_is_final_witness:
  "q_PublisherPurged ''aa'' (run_ops sample_env ([(OpSetPublisherRegistered ''aa'' 0, []), (OpEnqueuePurge sample_purge, [])] @
       [(OpEnqueueOutbox \<lparr>rq_AggregateKey = ''aa'', rq_Operation = OutboxAllowPublisher, rq_PubKey = ''aa'', rq_Payload = [],
          rq_AvailableAt = 0\<rparr>, [])]) empty_db)"
proof -
  have "q_PublisherPurged ''aa'' (run_ops sample_env [(OpSetPublisherRegistered ''aa'' 0, []), (OpEnqueuePurge sample_purge, [])] empty_db)"
    by code_simp
  from purge_is_final [OF this] show ?thesis by blast
qed

subsection \<open>Claims\<close>

text \<open>Operations of others while a claim with this token and end is held: they use other tokens
  and claim before the end.\<close>

fun keeps_lease :: "string \<Rightarrow> int \<Rightarrow> bridge_op \<Rightarrow> bool" where
  "keeps_lease tok until (OpClaimOutbox t now lease lim) = (now < until)"
| "keeps_lease tok until (OpCompleteOutbox i t now) = (t \<noteq> tok)"
| "keeps_lease tok until (OpCompletePublisherRegistration i t pk now) = (t \<noteq> tok)"
| "keeps_lease tok until (OpCompletePublisherUnregistration i t now pk) = (t \<noteq> tok)"
| "keeps_lease tok until (OpRecoverPublisherRegistration i t pk now) = (t \<noteq> tok)"
| "keeps_lease tok until (OpRetryOutbox i t now av err) = (t \<noteq> tok)"
| "keeps_lease tok until _ = True"

lemma keeps_lease_untouched: "keeps_lease tok until op \<Longrightarrow> ob_token r = tok \<Longrightarrow> tok \<noteq> [] \<Longrightarrow> ob_until r = until \<Longrightarrow> \<not> op_touches op r"
  by (cases op) (auto simp: unclaimed_def owns_def)

lemma claim_items:
  assumes "ClaimOutbox (Some tok) now lease lim \<lparr>sq_faults = fs, sq_db = d\<rparr> = (Inr items, s')"
  shows "items = [] \<and> sq_db s' = d \<or> 0 < lease \<and> (\<exists>rows. q_ClaimOutbox tok (now + lease) now (unix now) lim d = (rows, sq_db s')
    \<and> items = sort_key item_order (map (\<lambda>r. (outboxItem r)\<lparr>it_ClaimToken := tok, it_ClaimedUntil := now + lease\<rparr>) rows))"
  using assms by (auto simp: ClaimOutbox_def guard_def return_err_def return_ok_def exec_result_def stmt_def passed_def
      split: if_splits prod.splits)

lemma claim_row:
  assumes inv: "outbox_inv d" and run: "ClaimOutbox (Some tok) now lease lim \<lparr>sq_faults = fs, sq_db = d\<rparr> = (Inr items, s')"
    and it: "it \<in> set items"
  shows "0 < lease \<and> (\<exists>r \<in> set (outbox d). it = (outboxItem r)\<lparr>it_ClaimToken := tok, it_ClaimedUntil := now + lease\<rparr>
    \<and> unclaimed now r \<and> no_prior d r \<and> ob_avail r \<le> unix now \<and> r\<lparr>ob_token := tok, ob_until := now + lease\<rparr> \<in> set (outbox (sq_db s')))"
proof -
  obtain rows where q: "0 < lease" "q_ClaimOutbox tok (now + lease) now (unix now) lim d = (rows, sq_db s')"
    and items: "items = sort_key item_order (map (\<lambda>r. (outboxItem r)\<lparr>it_ClaimToken := tok, it_ClaimedUntil := now + lease\<rparr>) rows)"
    using claim_items [OF run] it by auto
  from claim_keeps [OF inv q(2)] show ?thesis using items it q(1) by auto
qed

lemma owner_completes:
  assumes "r \<in> set (outbox d)" "owns i tok now r"
  shows "fst (CompleteOutbox i tok now \<lparr>sq_faults = [], sq_db = d\<rparr>) = Inr ()"
proof -
  have "filter (owns i tok now) (outbox d) \<noteq> []" using assms by (auto simp: filter_empty_conv)
  then show ?thesis
    by (simp add: CompleteOutbox_def exec_result_def stmt_def fault_def passed_def q_CompleteOutbox_def requireClaimOwner_def
        guard_def return_ok_def)
qed

text \<open>C13. A claim is exclusive while its lease lasts. Whatever others do meanwhile, with their own
  tokens and at times before the lease ends, none of them is handed an item of the claim, and its
  holder can still complete every one of them.\<close>

theorem lease_is_exclusive:
  assumes "ClaimOutbox (Some tok) now lease lim \<lparr>sq_faults = fs, sq_db = run_ops env ops empty_db\<rparr> = (Inr items, s')"
    and "tok \<noteq> []" and "list_all (\<lambda>(op, _). keeps_lease tok (now + lease) op) others" and "now2 < now + lease"
    and "ClaimOutbox (Some tok2) now2 lease2 lim2 \<lparr>sq_faults = fs2, sq_db = run_ops env others (sq_db s')\<rparr> = (Inr items2, s2)"
  shows "set (map it_ID items) \<inter> set (map it_ID items2) = {}
    \<and> list_all (\<lambda>it. fst (CompleteOutbox (it_ID it) tok now \<lparr>sq_faults = [], sq_db = run_ops env others (sq_db s')\<rparr>) = Inr ()) items"
proof -
  define d where "d = run_ops env ops empty_db"
  have inv: "store_inv d" using run_ops_inv [OF store_inv_empty] by (simp add: d_def)
  have "fifo_change (unclaimed now) (set_option (Some tok)) d (run_act (ClaimOutbox (Some tok) now lease lim) fs d)"
    by (rule run_act_safe [OF safe_ClaimOutbox inv])
  then have inv1: "store_inv (sq_db s')" using assms(1) by (simp add: fifo_change_def run_act_def d_def)
  define d2 where "d2 = run_ops env others (sq_db s')"
  have inv2: "outbox_inv d2" using run_ops_inv [OF inv1] by (simp add: d2_def store_inv_def)
  have held: "\<exists>r \<in> set (outbox d2). ob_id r = it_ID it \<and> owns (it_ID it) tok now r \<and> \<not> unclaimed now2 r" if "it \<in> set items" for it
  proof -
    obtain r :: OutboxRow where r: "0 < lease" "it = (outboxItem r)\<lparr>it_ClaimToken := tok, it_ClaimedUntil := now + lease\<rparr>"
      "r\<lparr>ob_token := tok, ob_until := now + lease\<rparr> \<in> set (outbox (sq_db s'))"
      using claim_row [OF _ assms(1) \<open>it \<in> set items\<close>] inv by (auto simp: store_inv_def d_def)
    let ?r = "r\<lparr>ob_token := tok, ob_until := now + lease\<rparr>"
    have "list_all (\<lambda>(op, _). \<not> op_touches op ?r) others"
      using assms(2,3) keeps_lease_untouched [of tok "now + lease" _ ?r] by (auto simp: list_all_iff)
    from run_ops_keeps [OF inv1 r(3) this] have "?r \<in> set (outbox d2)" by (simp add: d2_def)
    then show ?thesis using r assms(2,4) by (intro bexI [of _ ?r]) (auto simp: outboxItem_def owns_def unclaimed_def)
  qed
  have "it_ID it \<notin> set (map it_ID items2)" if "it \<in> set items" for it
  proof
    assume "it_ID it \<in> set (map it_ID items2)"
    then obtain it2 where "it2 \<in> set items2" "it_ID it2 = it_ID it" by auto
    then obtain r2 where "r2 \<in> set (outbox d2)" "ob_id r2 = it_ID it" "unclaimed now2 r2"
      using claim_row [OF inv2, of tok2 now2 lease2 lim2 fs2 items2 s2 it2] assms(5) by (auto simp: d2_def outboxItem_def)
    then show False using held [OF that] inv_same_id [OF inv2] by metis
  qed
  moreover have "fst (CompleteOutbox (it_ID it) tok now \<lparr>sq_faults = [], sq_db = d2\<rparr>) = Inr ()" if "it \<in> set items" for it
    using held [OF that] owner_completes by blast
  ultimately show ?thesis by (auto simp: list_all_iff d2_def)
qed


definition sample_allow :: OutboxRequest where
  "sample_allow = \<lparr>rq_AggregateKey = ''aa'', rq_Operation = OutboxAllowPublisher, rq_PubKey = ''aa'', rq_Payload = [], rq_AvailableAt = 0\<rparr>"

definition sample_items :: "OutboxItem list" where
  "sample_items = [\<lparr>it_ID = 1, it_AggregateKey = ''aa'', it_Sequence = 1, it_Operation = OutboxAllowPublisher, it_PubKey = ''aa'',
     it_Payload = [], it_Attempts = 0, it_AvailableAt = 0, it_LastError = [], it_ClaimToken = ''t1'', it_ClaimedUntil = 60\<rparr>]"

theorem lease_is_exclusive_witness:
  "\<exists>s'. ClaimOutbox (Some ''t1'') 0 60 1 \<lparr>sq_faults = [], sq_db = run_ops sample_env [(OpEnqueueOutbox sample_allow, [])] empty_db\<rparr>
       = (Inr sample_items, s')
     \<and> list_all (\<lambda>it. fst (CompleteOutbox (it_ID it) ''t1'' 0 \<lparr>sq_faults = [],
          sq_db = run_ops sample_env [(OpClaimOutbox (Some ''t2'') 30 60 1, []), (OpEnqueueOutbox sample_allow, [])] (sq_db s')\<rparr>) = Inr ())
        sample_items"
proof -
  let ?c = "ClaimOutbox (Some ''t1'') 0 60 1 \<lparr>sq_faults = [], sq_db = run_ops sample_env [(OpEnqueueOutbox sample_allow, [])] empty_db\<rparr>"
  let ?o = "[(OpClaimOutbox (Some ''t2'') 30 60 1, []), (OpEnqueueOutbox sample_allow, [])]"
  let ?c2 = "ClaimOutbox (Some ''t3'') 40 60 5 \<lparr>sq_faults = [], sq_db = run_ops sample_env ?o (sq_db (snd ?c))\<rparr>"
  have c: "?c = (Inr sample_items, snd ?c)" by code_simp
  have c2: "?c2 = (Inr [], snd ?c2)" by code_simp
  have "list_all (\<lambda>(op, _). keeps_lease ''t1'' (0 + 60) op) ?o" by simp
  from lease_is_exclusive [OF c _ this _ c2] c show ?thesis by auto
qed

end
