(* ===== verification/Bridge_Enqueue.thy ===== *)
theory Bridge_Enqueue
  imports Bridge_Fifo
begin

text \<open>
  What enqueueing an event does exactly: when it is refused and with which error, and what is in
  the database when it is not. The lemmas on runs without failing statements also say that no
  enqueue is ever refused by a constraint of the schema.
\<close>

subsection \<open>Runs without failing statements\<close>

named_theorems calm \<open>one statement of a run in which none fails\<close>

lemma calm_exec [calm]: "exec what f k \<lparr>sq_faults = [], sq_db = d\<rparr> = k \<lparr>sq_faults = [], sq_db = f d\<rparr>"
  by (simp add: exec_def stmt_def fault_def passed_def)

lemma calm_query [calm]: "query what f k \<lparr>sq_faults = [], sq_db = d\<rparr> = k (f d) \<lparr>sq_faults = [], sq_db = d\<rparr>"
  by (simp add: query_def stmt_def fault_def passed_def)

lemma calm_exec_checked [calm]:
  "f d = Some d' \<Longrightarrow> exec_checked what f k \<lparr>sq_faults = [], sq_db = d\<rparr> = k \<lparr>sq_faults = [], sq_db = d'\<rparr>"
  by (simp add: exec_checked_def stmt_def fault_def passed_def)

lemma calm_exec_result [calm]: "f d = (x, d') \<Longrightarrow> exec_result what f k \<lparr>sq_faults = [], sq_db = d\<rparr> = k x \<lparr>sq_faults = [], sq_db = d'\<rparr>"
  by (simp add: exec_result_def stmt_def fault_def passed_def)

lemma calm_transaction:
  "transaction b c body \<lparr>sq_faults = [], sq_db = d\<rparr> =
     (case body \<lparr>sq_faults = [], sq_db = d\<rparr> of
        (Inl e, s2) \<Rightarrow> (Inl e, s2\<lparr>sq_db := d\<rparr>)
      | (Inr commit, s2) \<Rightarrow>
          if \<not> commit then (Inr (), s2\<lparr>sq_db := d\<rparr>)
          else if fault s2 then (Inl (ErrSQL c), (passed s2)\<lparr>sq_db := d\<rparr>)
          else (Inr (), passed s2))"
  by (auto simp: transaction_def fault_def passed_def split: prod.split sum.split)

lemma calm_enqueueOutbox:
  assumes inv: "outbox_inv d" and op: "outbox_check (rq_Operation r)"
  obtains d' where "appended r d d'" "\<And>k. enqueueOutbox r k \<lparr>sq_faults = [], sq_db = d\<rparr> = k \<lparr>sq_faults = [], sq_db = d'\<rparr>"
proof -
  define k where "k = rq_AggregateKey r"
  define n where "n = (case mget (outbox_sequences d) k of None \<Rightarrow> 1 | Some n \<Rightarrow> n + 1)"
  have fresh: "ob_seq x \<noteq> n" if "x \<in> set (outbox d)" "ob_key x = k" for x
    using inv that by (force simp: outbox_inv_def n_def)
  have "(k, n) \<notin> set (map (\<lambda>x. (ob_key x, ob_seq x)) (outbox d))" using fresh by auto
  then have "insert_outbox k n (rq_Operation r) (rq_PubKey r) (rq_Payload r) (unix (rq_AvailableAt r)) (q_AdvanceOutboxSequence k d) \<noteq> None"
    using inv op by (simp add: outbox_inv_def insert_outbox_def put_outbox_def outbox_unique_def q_AdvanceOutboxSequence_def)
  moreover have "mget (outbox_sequences (q_AdvanceOutboxSequence k d)) k = Some n" by (simp add: q_AdvanceOutboxSequence_def n_def)
  ultimately obtain d' where enq: "q_EnqueueOutbox k (rq_Operation r) (rq_PubKey r) (rq_Payload r) (unix (rq_AvailableAt r))
      (q_AdvanceOutboxSequence k d) = Some d'"
    by (auto simp: q_EnqueueOutbox_def)
  have "appended r d d'"
    using enqueue_appends [OF inv enq, of "rq_AvailableAt r"] unfolding k_def by (cases r) simp
  moreover have "enqueueOutbox r c \<lparr>sq_faults = [], sq_db = d\<rparr> = c \<lparr>sq_faults = [], sq_db = d'\<rparr>" for c :: "'a act"
    using enq by (simp add: enqueueOutbox_def calm k_def)
  ultimately show ?thesis using that by blast
qed

lemma calm_queryRow:
  "queryRow what f \<lparr>sq_faults = [], sq_db = d\<rparr> =
     (case f d of None \<Rightarrow> (Inl (ErrNoRows what), \<lparr>sq_faults = [], sq_db = d\<rparr>) | Some x \<Rightarrow> (Inr x, \<lparr>sq_faults = [], sq_db = d\<rparr>))"
  by (simp add: queryRow_def calm return_ok_def return_err_def split: option.split)

lemmas calm_lookups = EventMappingBySourceURI_def SourceOperationBySourceURI_def Cursor_def calm_queryRow isNoRows_def

lemma reachable_outbox_inv: "outbox_inv (run_ops env ops empty_db)"
  using run_ops_inv [OF store_inv_empty] by (simp add: store_inv_def)

subsection \<open>Enqueueing an event\<close>

text \<open>Items that an event needs: itself, and the registration of its publisher unless it is
  registered or waits for it.\<close>

definition registration_entries :: "OutboxRequest \<Rightarrow> bridge_db \<Rightarrow> (string \<times> string \<times> string) list" where
  "registration_entries r d =
     (if q_PublisherRegisteredOrPending (rq_PubKey r) (rq_AggregateKey r) d then [] else [(OutboxAllowPublisher, rq_PubKey r, [])])"

definition event_refused :: "nostr_env \<Rightarrow> EventEnqueueRequest \<Rightarrow> bridge_db \<Rightarrow> store_error option" where
  "event_refused env r d =
     (if rq_PubKey (ee_Event r) \<noteq> AuthorPubKey (ee_Mapping r) then Some ErrAuthorMismatch
      else case validatePublishRequest env (ee_Event r) of
        Some e \<Rightarrow> Some e
      | None \<Rightarrow>
          (case validateMappingEventID env (ee_Mapping r) (ee_Event r) of
             Some e \<Rightarrow> Some e
           | None \<Rightarrow>
               if q_PublisherPurged (rq_PubKey (ee_Event r)) d then Some ErrPurgePending
               else if ee_Limit r \<le> 0 \<or> int (length (outbox d) + length (registration_entries (ee_Event r) d)) + 1 > ee_Limit r
                 then Some ErrOutboxFull
               else None))"

definition cursor_saved :: "SourceScope \<Rightarrow> CursorUpdate option \<Rightarrow> bridge_db \<Rightarrow> bridge_db" where
  "cursor_saved scope c d = (case c of None \<Rightarrow> d | Some u \<Rightarrow> q_SaveCursor scope (cu_Name u) (cu_Value u) d)"

definition finish :: "EventEnqueueRequest \<Rightarrow> bridge_db \<Rightarrow> bridge_db" where
  "finish r d =
     (let d1 = (case ee_Cursor r of None \<Rightarrow> d | Some c \<Rightarrow> q_SaveCursor (Scope (em_Source (ee_Mapping r))) (cu_Name c) (cu_Value c) d)
      in if ee_SourceOperation r \<noteq> [] then q_SaveSourceOperation (em_Source (ee_Mapping r)) (ee_SourceOperation r) d1 else d1)"

definition event_enqueued :: "EventEnqueueRequest \<Rightarrow> bridge_db \<Rightarrow> bridge_db \<Rightarrow> bool" where
  "event_enqueued r d d' \<longleftrightarrow> outbox_inv d' \<and> int (length (outbox d')) \<le> ee_Limit r
     \<and> (\<forall>k. queue d' k = (if k = rq_PubKey (ee_Event r)
          then queue d k @ registration_entries (ee_Event r) d @ [(OutboxPublishEvent, k, rq_Payload (ee_Event r))] else queue d k))
     \<and> q_EventMappingBySourceURI (em_Source (ee_Mapping r)) d' = Some (ee_Mapping r)
     \<and> sync_cursors d' = sync_cursors (cursor_saved (Scope (em_Source (ee_Mapping r))) (ee_Cursor r) d)
     \<and> (ee_SourceOperation r \<noteq> [] \<longrightarrow> q_SourceOperationBySourceURI (em_Source (ee_Mapping r)) d' = Some (ee_SourceOperation r))
     \<and> same_rest (finish r (q_UpsertEventMapping (ee_Mapping r) d)) d'"

definition event_writes :: "EventEnqueueRequest \<Rightarrow> bool act" where
  "event_writes r =
     upsertEventMapping ''save bridge event'' (ee_Mapping r)
     (enqueueOutbox (ee_Event r)
     (saveCursorOpt ''save sync cursor'' (Scope (em_Source (ee_Mapping r))) (ee_Cursor r)
     (if ee_SourceOperation r \<noteq> []
      then saveSourceOperation ''save source operation'' (em_Source (ee_Mapping r)) (ee_SourceOperation r) (return_ok True)
      else return_ok True)))"

lemma outbox_inv_finish [simp]: "outbox_inv (finish r d) = outbox_inv d"
  by (rule outbox_inv_cong) (simp_all add: finish_def Let_def q_SaveCursor_def q_SaveSourceOperation_def split: option.split)

lemma finish_rest [simp]: "outbox (finish r d) = outbox d" "bridge_events (finish r d) = bridge_events d"
  by (simp_all add: finish_def Let_def q_SaveCursor_def q_SaveSourceOperation_def split: option.split)

lemma cursor_saved_cong: "sync_cursors d = sync_cursors d' \<Longrightarrow> sync_cursors (cursor_saved scope c d) = sync_cursors (cursor_saved scope c d')"
  by (cases c) (simp_all add: cursor_saved_def q_SaveCursor_def)

lemma finish_cursor: "sync_cursors (finish r d) = sync_cursors (cursor_saved (Scope (em_Source (ee_Mapping r))) (ee_Cursor r) d)"
  by (simp add: finish_def Let_def cursor_saved_def q_SaveCursor_def q_SaveSourceOperation_def split: option.split)

lemma finish_operation:
  "ee_SourceOperation r \<noteq> [] \<Longrightarrow> q_SourceOperationBySourceURI (em_Source (ee_Mapping r)) (finish r d) = Some (ee_SourceOperation r)"
  by (simp add: finish_def Let_def q_SaveSourceOperation_def q_SourceOperationBySourceURI_def)

lemma upsert_rest [simp]: "outbox (q_UpsertEventMapping m d) = outbox d" "queue (q_UpsertEventMapping m d) = queue d"
  by (auto simp: q_UpsertEventMapping_def intro: queue_cong)

lemma outbox_inv_upsert [simp]: "outbox_inv (q_UpsertEventMapping m d) = outbox_inv d"
  by (rule outbox_inv_cong) (simp_all add: q_UpsertEventMapping_def)

lemma after_event_writes:
  assumes "outbox_inv d1" "\<And>d2. appended (ee_Event r) (q_UpsertEventMapping (ee_Mapping r) d1) d2 \<Longrightarrow> Q True (finish r d2)"
  shows "after (event_writes r) Q d1"
  unfolding event_writes_def upsertEventMapping_def
proof (rule after_exec, rule after_enqueueOutbox)
  fix d2 assume "appended (ee_Event r) (q_UpsertEventMapping (ee_Mapping r) d1) d2"
  then have "Q True (finish r d2)" by (rule assms(2))
  then show "after (saveCursorOpt ''save sync cursor'' (Scope (em_Source (ee_Mapping r))) (ee_Cursor r)
     (if ee_SourceOperation r \<noteq> []
      then saveSourceOperation ''save source operation'' (em_Source (ee_Mapping r)) (ee_SourceOperation r) (return_ok True)
      else return_ok True)) Q d2"
    by (cases "ee_Cursor r")
      (auto simp: finish_def saveCursorOpt_def saveCursor_def saveSourceOperation_def after_return_ok intro!: after_exec)
qed (simp add: assms(1))

lemma calm_event_writes:
  assumes "outbox_inv d1" "outbox_check (rq_Operation (ee_Event r))"
  shows "\<exists>d2. event_writes r \<lparr>sq_faults = [], sq_db = d1\<rparr> = (Inr True, \<lparr>sq_faults = [], sq_db = d2\<rparr>)"
proof -
  obtain d2 where "\<And>k :: bool act. enqueueOutbox (ee_Event r) k \<lparr>sq_faults = [], sq_db = q_UpsertEventMapping (ee_Mapping r) d1\<rparr>
      = k \<lparr>sq_faults = [], sq_db = d2\<rparr>"
    using calm_enqueueOutbox [of "q_UpsertEventMapping (ee_Mapping r) d1" "ee_Event r"] assms by auto
  then show ?thesis
    by (cases "ee_Cursor r") (auto simp: event_writes_def upsertEventMapping_def saveCursorOpt_def saveCursor_def
        saveSourceOperation_def calm return_ok_def)
qed

lemma writes_enqueued:
  assumes event: "rq_AggregateKey (ee_Event r) = rq_PubKey (ee_Event r)" "rq_Operation (ee_Event r) = OutboxPublishEvent"
    and room: "int (length (outbox d) + length (registration_entries (ee_Event r) d)) + 1 \<le> ee_Limit r"
    and d1: "length (outbox d1) = length (outbox d) + length (registration_entries (ee_Event r) d)"
      "\<And>k. queue d1 k = (if k = rq_PubKey (ee_Event r) then queue d k @ registration_entries (ee_Event r) d else queue d k)"
      "same_rest d d1"
    and app: "appended (ee_Event r) (q_UpsertEventMapping (ee_Mapping r) d1) d2"
  shows "event_enqueued r d (finish r d2)"
proof -
  have "sync_cursors d2 = sync_cursors d" using app d1(3) by (simp add: appended_def same_rest_def q_UpsertEventMapping_def)
  note cursors = cursor_saved_cong [OF this]
  have inv2: "outbox_inv d2" using app by (simp add: appended_def)
  have rest: "same_rest (finish r (q_UpsertEventMapping (ee_Mapping r) d)) (finish r d2)"
    using app d1(3) by (cases "ee_Cursor r") (auto simp: appended_def same_rest_def finish_def Let_def q_UpsertEventMapping_def q_SaveCursor_def q_SaveSourceOperation_def)
  have q: "queue (finish r d2) = queue d2" by (rule queue_cong) simp
  have "length (outbox d2) = length (outbox d1) + 1" using app by (simp add: appended_def)
  then have "int (length (outbox d2)) \<le> ee_Limit r" using room d1(1) by simp
  moreover have "mget (bridge_events d2) (em_Source (ee_Mapping r)) = Some (ee_Mapping r)"
    using app by (simp add: appended_def same_rest_def q_UpsertEventMapping_def)
  moreover have "queue d2 k = (if k = rq_PubKey (ee_Event r)
      then queue d k @ registration_entries (ee_Event r) d @ [(OutboxPublishEvent, k, rq_Payload (ee_Event r))] else queue d k)" for k
    using app event d1(2) [of k] by (cases "k = rq_PubKey (ee_Event r)") (simp_all add: appended_def request_entry_def)
  ultimately show ?thesis
    using finish_cursor [of r] finish_operation [of r] by (simp add: event_enqueued_def q q_EventMappingBySourceURI_def cursors rest inv2)
qed

lemma registration_step:
  assumes inv: "outbox_inv d" and key: "rq_AggregateKey r = rq_PubKey r"
    and app: "appended (allowRequest r) d d1" and not_yet: "\<not> q_PublisherRegisteredOrPending (rq_PubKey r) (rq_AggregateKey r) d"
  shows "length (outbox d1) = length (outbox d) + length (registration_entries r d)"
    and "queue d1 k = (if k = rq_PubKey r then queue d k @ registration_entries r d else queue d k)"
  using app not_yet key by (simp_all add: appended_def registration_entries_def allowRequest_def request_entry_def)

lemma event_body:
  "EnqueueEvent env r =
     guard (rq_PubKey (ee_Event r) \<noteq> AuthorPubKey (ee_Mapping r)) ErrAuthorMismatch
     (check (validatePublishRequest env (ee_Event r))
     (check (validateMappingEventID env (ee_Mapping r) (ee_Event r))
     (transaction ''begin durable event enqueue'' ''commit durable event enqueue''
        (rejectPurged (rq_PubKey (ee_Event r))
        (withRegistration ''find publisher registration'' (ee_Event r) (ee_Limit r) 1 (event_writes r))))))"
  by (simp add: EnqueueEvent_def event_writes_def)

lemma enqueue_event_atomic:
  assumes inv: "outbox_inv d"
  shows "atomic_op (EnqueueEvent env r) (\<lambda>_ d'. event_enqueued r d d') d"
  unfolding event_body
proof (intro atomic_guard atomic_check atomic_transaction after_rejectPurged)
  assume v: "validatePublishRequest env (ee_Event r) = None"
  note ev = validPublishD [OF v]
  let ?Q = "\<lambda>commit d'. if commit then event_enqueued r d d' else event_enqueued r d d"
  show "after (withRegistration ''find publisher registration'' (ee_Event r) (ee_Limit r) 1 (event_writes r)) ?Q d"
    unfolding withRegistration_def Let_def
  proof (intro after_query after_guard)
    let ?reg = "q_PublisherRegisteredOrPending (rq_PubKey (ee_Event r)) (rq_AggregateKey (ee_Event r)) d"
    assume "\<not> (ee_Limit r \<le> 0 \<or> ee_Limit r < q_OutboxCount d + (if \<not> ?reg then 1 + 1 else 1))"
    then have room: "int (length (outbox d) + length (registration_entries (ee_Event r) d)) + 1 \<le> ee_Limit r"
      by (simp add: registration_entries_def q_OutboxCount_def split: if_splits)
    show "after (if \<not> ?reg then enqueueOutbox (allowRequest (ee_Event r)) (event_writes r) else event_writes r) ?Q d"
    proof (rule after_if)
      assume not_yet: "\<not> ?reg"
      show "after (enqueueOutbox (allowRequest (ee_Event r)) (event_writes r)) ?Q d"
      proof (rule after_enqueueOutbox [OF inv])
        fix d1 assume a: "appended (allowRequest (ee_Event r)) d d1"
        note d1 = registration_step [OF inv conjunct1 [OF ev] a not_yet]
        have "outbox_inv d1" "same_rest d d1" using a by (simp_all add: appended_def)
        then show "after (event_writes r) ?Q d1"
          using writes_enqueued [OF _ _ room d1] ev by (intro after_event_writes) auto
      qed
    next
      assume "\<not> \<not> ?reg"
      then have none: "registration_entries (ee_Event r) d = []" by (simp add: registration_entries_def)
      show "after (event_writes r) ?Q d"
        using writes_enqueued [OF _ _ room, of d] ev none by (intro after_event_writes inv) (auto simp: same_rest_def)
    qed
  qed
qed

lemma enqueue_event_answer:
  assumes inv: "outbox_inv d"
  shows "fst (EnqueueEvent env r \<lparr>sq_faults = [], sq_db = d\<rparr>) = (case event_refused env r d of Some e \<Rightarrow> Inl e | None \<Rightarrow> Inr ())"
proof (cases "event_refused env r d")
  case (Some e)
  then show ?thesis
    by (auto simp: event_refused_def event_body guard_def check_def return_err_def calm_transaction rejectPurged_def calm
        withRegistration_def Let_def registration_entries_def q_OutboxCount_def split: if_splits option.splits)
next
  case None
  then have ok: "rq_PubKey (ee_Event r) = AuthorPubKey (ee_Mapping r)" "validatePublishRequest env (ee_Event r) = None"
    "validateMappingEventID env (ee_Mapping r) (ee_Event r) = None" "\<not> q_PublisherPurged (rq_PubKey (ee_Event r)) d" "\<not> ee_Limit r \<le> 0"
    "\<not> int (length (outbox d) + length (registration_entries (ee_Event r) d)) + 1 > ee_Limit r"
    by (auto simp: event_refused_def split: if_splits option.splits)
  have op: "outbox_check (rq_Operation (ee_Event r))" "outbox_check (rq_Operation (allowRequest (ee_Event r)))"
    using validPublishD [OF ok(2)] by (simp_all add: outbox_check_def allowRequest_def)
  obtain d1 where d1: "appended (allowRequest (ee_Event r)) d d1"
    "\<And>k :: bool act. enqueueOutbox (allowRequest (ee_Event r)) k \<lparr>sq_faults = [], sq_db = d\<rparr> = k \<lparr>sq_faults = [], sq_db = d1\<rparr>"
    using calm_enqueueOutbox [OF inv op(2)] by blast
  then have "outbox_inv d1" by (simp add: appended_def)
  then obtain d2 d3 where "event_writes r \<lparr>sq_faults = [], sq_db = d\<rparr> = (Inr True, \<lparr>sq_faults = [], sq_db = d2\<rparr>)"
    "event_writes r \<lparr>sq_faults = [], sq_db = d1\<rparr> = (Inr True, \<lparr>sq_faults = [], sq_db = d3\<rparr>)"
    using calm_event_writes inv op(1) by metis
  then show ?thesis using ok None d1(2)
    by (auto simp: event_body guard_def check_def calm_transaction rejectPurged_def calm withRegistration_def Let_def
        registration_entries_def q_OutboxCount_def fault_def return_err_def)
qed

subsection \<open>Updates and deletions\<close>

text \<open>The registration of a publisher is in its queue, or was there, and nothing else changed.\<close>

definition registered_first :: "OutboxRequest \<Rightarrow> bridge_db \<Rightarrow> bridge_db \<Rightarrow> bool" where
  "registered_first r d d1 \<longleftrightarrow> outbox_inv d1 \<and> same_rest d d1
     \<and> (\<forall>k. queue d1 k = (if k = rq_PubKey r then queue d k @ registration_entries r d else queue d k))"

lemma after_withRegistration_first:
  assumes inv: "outbox_inv d" and key: "rq_AggregateKey r = rq_PubKey r"
    and rest: "\<And>d1. registered_first r d d1 \<Longrightarrow> after k Q d1"
  shows "after (withRegistration what r lim needed k) Q d"
  unfolding withRegistration_def Let_def
proof (intro after_query after_guard after_if)
  assume not_yet: "\<not> q_PublisherRegisteredOrPending (rq_PubKey r) (rq_AggregateKey r) d"
  show "after (enqueueOutbox (allowRequest r) k) Q d"
  proof (rule after_enqueueOutbox [OF inv])
    fix d1 assume a: "appended (allowRequest r) d d1"
    then show "after k Q d1"
      using registration_step(2) [OF inv key a not_yet] by (intro rest) (simp add: registered_first_def appended_def)
  qed
next
  assume "\<not> \<not> q_PublisherRegisteredOrPending (rq_PubKey r) (rq_AggregateKey r) d"
  then show "after k Q d" using inv by (intro rest) (simp add: registered_first_def same_rest_def registration_entries_def)
qed

lemma same_rest_queries:
  assumes "same_rest d d'"
  shows "q_EventMappingBySourceURI ref d' = q_EventMappingBySourceURI ref d"
    "q_SourceOperationBySourceURI ref d' = q_SourceOperationBySourceURI ref d" "q_Cursor scope name d' = q_Cursor scope name d"
  using assms by (simp_all add: same_rest_def q_EventMappingBySourceURI_def q_SourceOperationBySourceURI_def q_Cursor_def)

lemma appended_same: "appended r d d' \<Longrightarrow> same_rest d d'"
  by (simp add: appended_def)

lemma appended_inv: "appended r d d' \<Longrightarrow> outbox_inv d'"
  by (simp add: appended_def)

lemma registered_first_inv: "registered_first r d d1 \<Longrightarrow> outbox_inv d1"
  by (simp add: registered_first_def)

text \<open>What the queues hold after entries for one publisher were added.\<close>

definition entriesAdded :: "OutboxRequest \<Rightarrow> string list \<Rightarrow> bridge_db \<Rightarrow> bridge_db \<Rightarrow> bool" where
  "entriesAdded r payloads d d' \<longleftrightarrow> (\<forall>k. queue d' k = (if k = rq_PubKey r
     then queue d k @ registration_entries r d @ map (\<lambda>p. (OutboxPublishEvent, k, p)) payloads else queue d k))"

definition operation_saved :: "UpdateEnqueueRequest \<Rightarrow> bridge_db \<Rightarrow> bridge_db" where
  "operation_saved r d = (if ue_SourceOperation r \<noteq> [] then q_SaveSourceOperation (em_Source (ue_Mapping r)) (ue_SourceOperation r) d else d)"

definition event_updated :: "UpdateEnqueueRequest \<Rightarrow> bridge_db \<Rightarrow> bridge_db \<Rightarrow> bool" where
  "event_updated r d d' \<longleftrightarrow> outbox_inv d' \<and> entriesAdded (ue_Replacement r) [rq_Payload (ue_Deletion r), rq_Payload (ue_Replacement r)] d d'
     \<and> q_EventMappingBySourceURI (em_Source (ue_Mapping r)) d' = Some (ue_Mapping r)
     \<and> sync_cursors d' = sync_cursors (cursor_saved (Scope (em_Source (ue_Mapping r))) (ue_Cursor r) d)
     \<and> (ue_SourceOperation r \<noteq> [] \<longrightarrow> q_SourceOperationBySourceURI (em_Source (ue_Mapping r)) d' = Some (ue_SourceOperation r))
     \<and> same_rest (cursor_saved (Scope (em_Source (ue_Mapping r))) (ue_Cursor r) (operation_saved r (q_UpsertEventMapping (ue_Mapping r) d))) d'"

definition event_deleted :: "DeleteEnqueueRequest \<Rightarrow> bridge_db \<Rightarrow> bridge_db \<Rightarrow> bool" where
  "event_deleted r d d' \<longleftrightarrow> outbox_inv d' \<and> q_EventAuthorBySourceURI (de_Source r) d = Some (rq_PubKey (de_Event r))
     \<and> entriesAdded (de_Event r) [rq_Payload (de_Event r)] d d'
     \<and> q_EventMappingBySourceURI (de_Source r) d' = None \<and> q_SourceOperationBySourceURI (de_Source r) d' = None
     \<and> sync_cursors d' = sync_cursors (cursor_saved (Scope (de_Source r)) (de_Cursor r) d)
     \<and> same_rest (cursor_saved (Scope (de_Source r)) (de_Cursor r) (q_DeleteSourceOperation (de_Source r) (q_DeleteEventMapping (de_Source r) d))) d'"

lemma after_cursor_saved: "after k Q (cursor_saved scope c d) \<Longrightarrow> after (saveCursorOpt what scope c k) Q d"
  by (cases c) (auto simp: saveCursorOpt_def saveCursor_def cursor_saved_def intro!: after_exec)

lemma off_queue_rest:
  "queue (cursor_saved scope c d) = queue d" "queue (q_SaveSourceOperation ref i d) = queue d"
  "queue (q_DeleteEventMapping ref d) = queue d" "queue (q_DeleteSourceOperation ref d) = queue d"
  by (auto simp: cursor_saved_def q_SaveCursor_def q_SaveSourceOperation_def q_DeleteEventMapping_def q_DeleteSourceOperation_def
      intro: queue_cong split: option.split)

lemma cursor_saved_queries:
  "q_EventMappingBySourceURI ref (cursor_saved scope c d) = q_EventMappingBySourceURI ref d"
  "q_SourceOperationBySourceURI ref (cursor_saved scope c d) = q_SourceOperationBySourceURI ref d"
  "c = Some u \<Longrightarrow> q_Cursor scope (cu_Name u) (cursor_saved scope c d) = Some (cu_Value u)"
  by (simp_all add: cursor_saved_def q_SaveCursor_def q_EventMappingBySourceURI_def q_SourceOperationBySourceURI_def q_Cursor_def
      split: option.split)

text \<open>The cursor that is stored, read back.\<close>

lemma cursor_read:
  "sync_cursors d' = sync_cursors (cursor_saved scope (Some c) d) \<Longrightarrow> q_Cursor scope (cu_Name c) d' = Some (cu_Value c)"
  by (simp add: cursor_saved_def q_SaveCursor_def q_Cursor_def)

lemma operation_saved_queries:
  "q_EventMappingBySourceURI ref (q_SaveSourceOperation ref' i d) = q_EventMappingBySourceURI ref d"
  "q_SourceOperationBySourceURI ref (q_SaveSourceOperation ref i d) = Some i"
  by (simp_all add: q_SaveSourceOperation_def q_EventMappingBySourceURI_def q_SourceOperationBySourceURI_def)

lemma outbox_inv_deletes [simp]:
  "outbox_inv (q_DeleteSourceOperation ref d) = outbox_inv d" "outbox_inv (q_DeleteEventMapping ref d) = outbox_inv d"
  by (rule outbox_inv_cong; simp add: q_DeleteSourceOperation_def q_DeleteEventMapping_def)+

lemma outbox_inv_saved [simp]:
  "outbox_inv (cursor_saved scope c d) = outbox_inv d" "outbox_inv (q_SaveSourceOperation ref i d) = outbox_inv d"
  by (rule outbox_inv_cong; simp add: cursor_saved_def q_SaveCursor_def q_SaveSourceOperation_def split: option.split)+

lemmas enqueue_effects = off_queue_rest cursor_saved_queries operation_saved_queries

lemma enqueue_update_atomic:
  assumes inv: "outbox_inv d"
  shows "atomic_op (EnqueueUpdate env r) (\<lambda>_ d'. event_updated r d d') d"
  unfolding EnqueueUpdate_def
proof (intro atomic_guard atomic_check atomic_transaction after_rejectPurged)
  assume keys: "\<not> (rq_PubKey (ue_Deletion r) \<noteq> rq_PubKey (ue_Replacement r) \<or> rq_PubKey (ue_Replacement r) \<noteq> AuthorPubKey (ue_Mapping r))"
    and v: "validatePublishRequest env (ue_Deletion r) = None" "validatePublishRequest env (ue_Replacement r) = None"
  note ev = validPublishD [OF v(1)] validPublishD [OF v(2)]
  let ?Q = "\<lambda>commit d'. if commit then event_updated r d d' else event_updated r d d"
  let ?ref = "em_Source (ue_Mapping r)"
  let ?save = "saveCursorOpt ''save sync cursor'' (Scope ?ref) (ue_Cursor r) (return_ok True)"
  let ?last = "if ue_SourceOperation r \<noteq> [] then saveSourceOperation ''save source operation'' ?ref (ue_SourceOperation r) ?save else ?save"
  have last: "after ?last ?Q d3"
    if first: "registered_first (ue_Replacement r) d d1" and del: "appended (ue_Deletion r) d1 d2"
      and rep: "appended (ue_Replacement r) (q_UpsertEventMapping (ue_Mapping r) d2) d3" for d1 d2 d3
  proof -
    have q: "entriesAdded (ue_Replacement r) [rq_Payload (ue_Deletion r), rq_Payload (ue_Replacement r)] d d3"
      using first del rep ev keys by (auto simp: entriesAdded_def registered_first_def appended_def request_entry_def)
    have m: "q_EventMappingBySourceURI ?ref d3 = Some (ue_Mapping r)"
      by (simp add: same_rest_queries [OF appended_same [OF rep]]) (simp add: q_UpsertEventMapping_def q_EventMappingBySourceURI_def)
    have "sync_cursors d3 = sync_cursors d"
      using first appended_same [OF del] appended_same [OF rep] by (simp add: registered_first_def same_rest_def q_UpsertEventMapping_def)
    then have c: "sync_cursors (cursor_saved (Scope ?ref) (ue_Cursor r)
        (if ue_SourceOperation r \<noteq> [] then q_SaveSourceOperation ?ref (ue_SourceOperation r) d3 else d3))
        = sync_cursors (cursor_saved (Scope ?ref) (ue_Cursor r) d)"
      by (intro cursor_saved_cong) (simp add: q_SaveSourceOperation_def)
    have rest: "same_rest (cursor_saved (Scope ?ref) (ue_Cursor r) (operation_saved r (q_UpsertEventMapping (ue_Mapping r) d)))
        (cursor_saved (Scope ?ref) (ue_Cursor r) (if ue_SourceOperation r \<noteq> [] then q_SaveSourceOperation ?ref (ue_SourceOperation r) d3 else d3))"
      using first appended_same [OF del] appended_same [OF rep] by (cases "ue_Cursor r") (auto simp: registered_first_def same_rest_def
          q_UpsertEventMapping_def operation_saved_def cursor_saved_def q_SaveCursor_def q_SaveSourceOperation_def)
    have *: "event_updated r d (cursor_saved (Scope ?ref) (ue_Cursor r)
        (if ue_SourceOperation r \<noteq> [] then q_SaveSourceOperation ?ref (ue_SourceOperation r) d3 else d3))"
      using q m c rest appended_inv [OF rep] by (auto simp: event_updated_def enqueue_effects entriesAdded_def)
    show ?thesis
      using * by (cases "ue_SourceOperation r = []")
        (auto simp: saveSourceOperation_def after_return_ok intro!: after_exec after_cursor_saved)
  qed
  show "after (withRegistration [] (ue_Replacement r) (ue_Limit r) 2
        (enqueueOutbox (ue_Deletion r)
        (upsertEventMapping ''replace bridge event'' (ue_Mapping r)
        (enqueueOutbox (ue_Replacement r) (let rest = ?save in
          if ue_SourceOperation r \<noteq> [] then saveSourceOperation ''save source operation'' ?ref (ue_SourceOperation r) rest else rest))))) ?Q d"
    unfolding Let_def upsertEventMapping_def
    by (intro after_withRegistration_first after_exec after_enqueueOutbox)
      (rule inv, rule conjunct1 [OF ev(2)], erule registered_first_inv, simp add: appended_inv, erule (2) last)
qed

lemma enqueue_delete_atomic:
  assumes inv: "outbox_inv d"
  shows "atomic_op (EnqueueDelete env r) (\<lambda>_ d'. event_deleted r d d') d"
  unfolding EnqueueDelete_def
proof (rule atomic_transaction, rule after_query)
  let ?Q = "\<lambda>commit d'. if commit then event_deleted r d d' else event_deleted r d d"
  let ?save = "saveCursorOpt [] (Scope (de_Source r)) (de_Cursor r) (return_ok True)"
  let ?del = "\<lambda>d. q_DeleteSourceOperation (de_Source r) (q_DeleteEventMapping (de_Source r) d)"
  have last: "after ?save ?Q d2"
    if first: "registered_first (de_Event r) d d1" and app: "appended (de_Event r) (?del d1) d2"
      and v: "validatePublishRequest env (de_Event r) = None"
      and author: "q_EventAuthorBySourceURI (de_Source r) d = Some (rq_PubKey (de_Event r))" for d1 d2
  proof -
    have "entriesAdded (de_Event r) [rq_Payload (de_Event r)] d d2"
      using first app validPublishD [OF v] by (auto simp: entriesAdded_def registered_first_def appended_def request_entry_def off_queue_rest)
    moreover have "q_EventMappingBySourceURI (de_Source r) d2 = None" "q_SourceOperationBySourceURI (de_Source r) d2 = None"
      by (simp_all add: same_rest_queries [OF appended_same [OF app]])
        (simp_all add: q_EventMappingBySourceURI_def q_SourceOperationBySourceURI_def q_DeleteSourceOperation_def q_DeleteEventMapping_def)
    moreover have "sync_cursors (cursor_saved (Scope (de_Source r)) (de_Cursor r) d2) = sync_cursors (cursor_saved (Scope (de_Source r)) (de_Cursor r) d)"
      using first appended_same [OF app]
      by (intro cursor_saved_cong) (simp add: registered_first_def same_rest_def q_DeleteSourceOperation_def q_DeleteEventMapping_def)
    moreover have "same_rest (cursor_saved (Scope (de_Source r)) (de_Cursor r) (?del d)) (cursor_saved (Scope (de_Source r)) (de_Cursor r) d2)"
      using first appended_same [OF app] by (cases "de_Cursor r") (auto simp: registered_first_def same_rest_def
          cursor_saved_def q_SaveCursor_def q_DeleteSourceOperation_def q_DeleteEventMapping_def)
    ultimately have "event_deleted r d (cursor_saved (Scope (de_Source r)) (de_Cursor r) d2)"
      using appended_inv [OF app] by (simp add: event_deleted_def enqueue_effects entriesAdded_def author)
    then show ?thesis by (auto simp: after_return_ok intro!: after_cursor_saved)
  qed
  have reg: "after (withRegistration [] (de_Event r) (de_Limit r) 1
              (exec ''delete bridge event'' (q_DeleteEventMapping (de_Source r))
              (exec ''delete source operation'' (q_DeleteSourceOperation (de_Source r))
              (enqueueOutbox (de_Event r) ?save)))) ?Q d"
    if v: "validatePublishRequest env (de_Event r) = None" and author: "q_EventAuthorBySourceURI (de_Source r) d = Some (rq_PubKey (de_Event r))"
    by (intro after_withRegistration_first after_exec after_enqueueOutbox)
      (rule inv, rule conjunct1 [OF validPublishD [OF v]], simp add: registered_first_inv, erule (1) last, rule v, rule author)
  show "after (case q_EventAuthorBySourceURI (de_Source r) d of
            None \<Rightarrow> return_err (ErrNoRows ''find delete mapping author'')
          | Some stored \<Rightarrow>
              guard (rq_PubKey (de_Event r) \<noteq> stored) ErrAuthorMismatch
              (check (validatePublishRequest env (de_Event r))
              (rejectPurged (rq_PubKey (de_Event r))
              (withRegistration [] (de_Event r) (de_Limit r) 1
              (exec ''delete bridge event'' (q_DeleteEventMapping (de_Source r))
              (exec ''delete source operation'' (q_DeleteSourceOperation (de_Source r))
              (enqueueOutbox (de_Event r) ?save))))))) ?Q d"
  proof (cases "q_EventAuthorBySourceURI (de_Source r) d")
    case (Some a)
    show ?thesis unfolding Some option.case
      by (intro after_guard after_check after_rejectPurged reg) (simp_all add: Some)
  qed (simp add: after_return_err)
qed

text \<open>C14. Enqueueing an event is all or nothing, and bounded. From any reachable database and with
  any statement failing: an error leaves the database as it was; success leaves at most the limit
  of items in the outbox, the event last in the queue of its publisher with the registration
  before it when the publisher has none, every other queue as it was, the mapping, the cursor and
  the source operation stored, and all other tables as they were. When no statement fails, it is refused in exactly the cases of
  \<open>event_refused\<close>, with that error, and otherwise succeeds: no constraint of the schema stops it.\<close>

theorem enqueue_event_exact:
  "(case EnqueueEvent env r \<lparr>sq_faults = fs, sq_db = run_ops env ops empty_db\<rparr> of
      (Inl e, s') \<Rightarrow> sq_db s' = run_ops env ops empty_db
    | (Inr _, s') \<Rightarrow> event_enqueued r (run_ops env ops empty_db) (sq_db s'))
   \<and> fst (EnqueueEvent env r \<lparr>sq_faults = [], sq_db = run_ops env ops empty_db\<rparr>)
     = (case event_refused env r (run_ops env ops empty_db) of Some e \<Rightarrow> Inl e | None \<Rightarrow> Inr ())"
  using enqueue_event_atomic [OF reachable_outbox_inv [of env ops], of env r, unfolded atomic_op_def, rule_format, of fs]
    enqueue_event_answer [OF reachable_outbox_inv [of env ops], of env r]
  by blast

end
