(* ===== verification/Bridge_Dispatcher.thy ===== *)
theory Bridge_Dispatcher
  imports Bridge_Enqueue "HOL-Library.Sublist"
begin

text \<open>
  The delivery worker of the outbox (\<^verbatim>\<open>cmd/nostr-bridge/outbox/dispatcher.go\<close>) and the
  command that enqueues a purge (\<^verbatim>\<open>outbox/purge.go\<close>). The worker sees the store through the
  interface \<open>DispatcherStore\<close> and the relay through one answer per call; between its claim and
  the end of the delivery other parts of the bridge use the store. The time limit of a delivery
  is part of the relay's answer: a call that is cut off is a call that fails.
\<close>

subsection \<open>The worker\<close>

record Dispatcher =
  HasStore :: bool
  HasManagement :: bool
  HasPublisher :: bool
  HasObserver :: bool
  BaseBackoff :: int
  MaxBackoff :: int
  LeaseDuration :: int
  PollInterval :: int

record 's DispatcherStore =
  ds_ClaimOutbox :: "string option \<Rightarrow> int \<Rightarrow> int \<Rightarrow> int \<Rightarrow> 's \<Rightarrow> (store_error + OutboxItem list) \<times> 's"
  ds_CompleteOutbox :: "int \<Rightarrow> string \<Rightarrow> int \<Rightarrow> 's \<Rightarrow> (store_error + unit) \<times> 's"
  ds_CompletePublisherRegistration :: "int \<Rightarrow> string \<Rightarrow> string \<Rightarrow> int \<Rightarrow> 's \<Rightarrow> (store_error + unit) \<times> 's"
  ds_CompletePublisherUnregistration :: "int \<Rightarrow> string \<Rightarrow> int \<Rightarrow> string \<Rightarrow> 's \<Rightarrow> (store_error + unit) \<times> 's"
  ds_RecoverPublisherRegistration :: "int \<Rightarrow> string \<Rightarrow> string \<Rightarrow> int \<Rightarrow> 's \<Rightarrow> (store_error + unit) \<times> 's"
  ds_RetryOutbox :: "int \<Rightarrow> string \<Rightarrow> int \<Rightarrow> int \<Rightarrow> string \<Rightarrow> 's \<Rightarrow> (store_error + unit) \<times> 's"

text \<open>Calls to the relay, and what they answer.\<close>

datatype relay_call =
    AllowPubKey string string
  | UnallowPubKey string string
  | Publish NostrEvent

datatype delivery_error =
    PublisherNotAllowedError string
  | DeliveryError string

fun errorText :: "delivery_error \<Rightarrow> string" where
  "errorText (PublisherNotAllowedError s) = s"
| "errorText (DeliveryError s) = s"

type_synonym relay = "relay_call \<Rightarrow> delivery_error option"

text \<open>What a delivery asks of the relay; an error when it cannot ask.\<close>

definition relayCall :: "Dispatcher \<Rightarrow> nostr_env \<Rightarrow> string \<Rightarrow> string \<Rightarrow> string \<Rightarrow> delivery_error + relay_call" where
  "relayCall dp env op pk payload =
     (case pubKeyHex env pk of
        None \<Rightarrow> Inl (DeliveryError ''invalid outbox pubkey'')
      | Some pubkey \<Rightarrow>
          if op = OutboxAllowPublisher then
            if \<not> HasManagement dp then Inl (DeliveryError ''management client is required'')
            else Inr (AllowPubKey pubkey ''nostr-bridge publisher'')
          else if op = OutboxUnallowPublisher then
            if \<not> HasManagement dp then Inl (DeliveryError ''management client is required'')
            else Inr (UnallowPubKey pubkey ''nostr-bridge publisher'')
          else if op = OutboxPublishEvent then
            if \<not> HasPublisher dp then Inl (DeliveryError ''publisher client is required'')
            else
              case decodeEvent env payload of
                None \<Rightarrow> Inl (DeliveryError ''invalid publish event payload'')
              | Some event \<Rightarrow> Inr (Publish event)
          else Inl (DeliveryError (''unsupported outbox operation '' @ [CHR 0x22] @ op @ [CHR 0x22])))"

definition deliver :: "Dispatcher \<Rightarrow> nostr_env \<Rightarrow> relay \<Rightarrow> OutboxItem \<Rightarrow> delivery_error option" where
  "deliver dp env net item =
     (case relayCall dp env (it_Operation item) (it_PubKey item) (it_Payload item) of
        Inl e \<Rightarrow> Some e
      | Inr call \<Rightarrow> net call)"

text \<open>The loop, by the number of rounds left.\<close>

fun backoffLoop :: "nat \<Rightarrow> int \<Rightarrow> int \<Rightarrow> int" where
  "backoffLoop 0 delay mx = (if delay > mx then mx else delay)"
| "backoffLoop (Suc n) delay mx =
     (if \<not> delay < mx then (if delay > mx then mx else delay)
      else if delay > mx div 2 then mx
      else backoffLoop n (int64 (delay * 2)) mx)"

definition baseDelay :: "Dispatcher \<Rightarrow> int" where
  "baseDelay dp = (if BaseBackoff dp \<le> 0 then 1000000000 else BaseBackoff dp)"

definition maxDelay :: "Dispatcher \<Rightarrow> int" where
  "maxDelay dp = (if MaxBackoff dp \<le> 0 then 60000000000 else MaxBackoff dp)"

definition backoff :: "Dispatcher \<Rightarrow> int \<Rightarrow> int" where
  "backoff dp attempts = backoffLoop (nat attempts) (baseDelay dp) (maxDelay dp)"

definition maxStoredError :: nat where
  "maxStoredError = 256"

definition sanitize :: "delivery_error \<Rightarrow> string" where
  "sanitize e = (let s = joinSpace (Fields (errorText e) []) in if length s > maxStoredError then take maxStoredError s else s)"

subsection \<open>One delivery\<close>

text \<open>What a call of \<open>DispatchOne\<close> returns, whether the observer was told, and the store.\<close>

record 's dispatched =
  dd_worked :: bool
  dd_err :: "store_error option"
  dd_observed :: bool
  dd_store :: 's

definition leaseOf :: "Dispatcher \<Rightarrow> int" where
  "leaseOf dp = (if LeaseDuration dp \<le> 0 then 60000000000 else LeaseDuration dp)"

text \<open>The end of a delivery. A lost claim is not an error.\<close>

definition unlessLost :: "(store_error + unit) \<times> 's \<Rightarrow> 's dispatched" where
  "unlessLost res =
     (case res of
        (Inl e, s) \<Rightarrow> \<lparr>dd_worked = True, dd_err = (if e \<noteq> ErrClaimLost then Some e else None), dd_observed = False, dd_store = s\<rparr>
      | (Inr _, s) \<Rightarrow> \<lparr>dd_worked = True, dd_err = None, dd_observed = False, dd_store = s\<rparr>)"

definition settleFailure ::
    "'s DispatcherStore \<Rightarrow> Dispatcher \<Rightarrow> OutboxItem \<Rightarrow> int \<Rightarrow> delivery_error \<Rightarrow> 's \<Rightarrow> 's dispatched" where
  "settleFailure st dp item now err s =
     (case err of
        PublisherNotAllowedError _ \<Rightarrow>
          if it_Operation item = OutboxPublishEvent
          then unlessLost (ds_RecoverPublisherRegistration st (it_ID item) (it_ClaimToken item) (it_PubKey item) now s)
          else unlessLost (ds_RetryOutbox st (it_ID item) (it_ClaimToken item) now (now + backoff dp (it_Attempts item)) (sanitize err) s)
      | DeliveryError _ \<Rightarrow>
          unlessLost (ds_RetryOutbox st (it_ID item) (it_ClaimToken item) now (now + backoff dp (it_Attempts item)) (sanitize err) s))"

definition settleSuccess :: "'s DispatcherStore \<Rightarrow> Dispatcher \<Rightarrow> OutboxItem \<Rightarrow> int \<Rightarrow> 's \<Rightarrow> 's dispatched" where
  "settleSuccess st dp item now s =
     (let res =
        (if it_Operation item = OutboxAllowPublisher
         then ds_CompletePublisherRegistration st (it_ID item) (it_ClaimToken item) (it_PubKey item) now s
         else if it_Operation item = OutboxUnallowPublisher
         then ds_CompletePublisherUnregistration st (it_ID item) (it_ClaimToken item) now (it_PubKey item) s
         else ds_CompleteOutbox st (it_ID item) (it_ClaimToken item) now s)
      in (unlessLost res)\<lparr>dd_observed := \<not> isl (fst res) \<and> HasObserver dp\<rparr>)"

text \<open>\<open>others\<close> is what the rest of the bridge does to the store during the delivery.\<close>

definition DispatchOne ::
    "'s DispatcherStore \<Rightarrow> Dispatcher \<Rightarrow> nostr_env \<Rightarrow> string option \<Rightarrow> int \<Rightarrow> relay \<Rightarrow> ('s \<Rightarrow> 's) \<Rightarrow> 's \<Rightarrow> 's dispatched" where
  "DispatchOne st dp env tok now net others s =
     (if \<not> HasStore dp then \<lparr>dd_worked = False, dd_err = Some ErrNoStore, dd_observed = False, dd_store = s\<rparr>
      else
        case ds_ClaimOutbox st tok now (leaseOf dp) 1 s of
          (Inl e, s1) \<Rightarrow> \<lparr>dd_worked = False, dd_err = Some e, dd_observed = False, dd_store = s1\<rparr>
        | (Inr [], s1) \<Rightarrow> \<lparr>dd_worked = False, dd_err = None, dd_observed = False, dd_store = s1\<rparr>
        | (Inr (item # _), s1) \<Rightarrow>
            (case deliver dp env net item of
               Some err \<Rightarrow> settleFailure st dp item now err (others s1)
             | None \<Rightarrow> settleSuccess st dp item now (others s1)))"

text \<open>The loop, by rounds: each has the inputs of one call, what the rest of the bridge does
  before and during it, and whether the context is cancelled in the pause after it. The end of the
  rounds is a worker that is still running.\<close>

record 's dispatch_round =
  rd_before :: "'s \<Rightarrow> 's"
  rd_token :: "string option"
  rd_now :: int
  rd_net :: relay
  rd_during :: "'s \<Rightarrow> 's"
  rd_cancelled :: bool

datatype run_end = StillRunning | RunError store_error | Cancelled

fun Run :: "'s DispatcherStore \<Rightarrow> Dispatcher \<Rightarrow> nostr_env \<Rightarrow> 's dispatch_round list \<Rightarrow> 's \<Rightarrow> run_end \<times> 's" where
  "Run st dp env [] s = (StillRunning, s)"
| "Run st dp env (r # rs) s =
     (let d = DispatchOne st dp env (rd_token r) (rd_now r) (rd_net r) (rd_during r) (rd_before r s)
      in case dd_err d of
           Some e \<Rightarrow> (RunError e, dd_store d)
         | None \<Rightarrow>
             if dd_worked d then Run st dp env rs (dd_store d)
             else if rd_cancelled r then (Cancelled, dd_store d)
             else Run st dp env rs (dd_store d))"

subsection \<open>Enqueueing a purge\<close>

text \<open>\<open>now\<close> is the clock. The checks are made before the store is asked, which makes them again.\<close>

definition EnqueuePurgeCommand :: "nostr_env \<Rightarrow> string \<Rightarrow> NostrEvent \<Rightarrow> int \<Rightarrow> int \<Rightarrow> unit act" where
  "EnqueuePurgeCommand env pubkey deletion lim now =
     guard (ev_Kind deletion \<noteq> 5 \<or> ev_PubKey deletion \<noteq> pubkey \<or> \<not> ev_CheckID deletion \<or> \<not> ev_VerifySignature deletion) ErrInvalidPurge
     (\<lambda>s. case EventIDsByAuthor pubkey s of
         (Inl e, s1) \<Rightarrow> (Inl e, s1)
       | (Inr known, s1) \<Rightarrow>
           guard (\<not> coversKnown (ev_Tags deletion) known) ErrPurgeNotCovering
           (case encodeEvent env deletion of
              None \<Rightarrow> return_err ErrMarshal
            | Some payload \<Rightarrow>
                EnqueuePurge env \<lparr>pr_PubKey = pubkey, pr_Payload = payload, pr_AvailableAt = now, pr_Limit = lim\<rparr>) s1)"

end
