(* ===== verification/Bridge_Delivery.thy ===== *)
theory Bridge_Delivery
  imports Bridge_Dispatcher
begin

text \<open>
  Correctness of the delivery worker. The locale \<open>dispatcher_store\<close> is the contract of the
  interface it uses: queues, and who holds which item. Inside it, whatever the rest of the bridge
  does meanwhile, an item leaves its queue only when the relay accepted it; the store of
  \<^verbatim>\<open>store/sqlite.go\<close> is shown to keep the contract.
\<close>

subsection \<open>The contract\<close>

type_synonym entry = "string \<times> string \<times> string"

definition item_entry :: "OutboxItem \<Rightarrow> entry" where
  "item_entry it = (it_Operation it, it_PubKey it, it_Payload it)"

definition accepted :: "Dispatcher \<Rightarrow> nostr_env \<Rightarrow> relay \<Rightarrow> entry \<Rightarrow> bool" where
  "accepted dp env net x \<longleftrightarrow> (case x of (op, pk, payload) \<Rightarrow>
     (case relayCall dp env op pk payload of Inl _ \<Rightarrow> False | Inr call \<Rightarrow> net call = None))"

lemma deliver_accepted: "deliver dp env net it = None \<longleftrightarrow> accepted dp env net (item_entry it)"
  by (simp add: deliver_def accepted_def item_entry_def split: sum.split)

text \<open>The queues before and after the end of one delivery.\<close>

definition settled :: "(entry \<Rightarrow> bool) \<Rightarrow> (string \<Rightarrow> entry list) \<Rightarrow> (string \<Rightarrow> entry list) \<Rightarrow> bool" where
  "settled ok q q' \<longleftrightarrow> q' = q
     \<or> (\<exists>k x. q = q'(k := x # q' k) \<and> ok x)
     \<or> (\<exists>k pk pk' p rest. q k = (OutboxPublishEvent, pk, p) # rest
          \<and> q' = q(k := (OutboxAllowPublisher, pk, []) # (OutboxPublishEvent, pk', p) # rest))"

lemma settled_refl [simp]: "settled ok q q"
  by (simp add: settled_def)

lemma settled_take: "q = q'(k := x # q' k) \<Longrightarrow> ok x \<Longrightarrow> settled ok q q'"
  unfolding settled_def by blast

lemma settled_recover:
  "q k = (OutboxPublishEvent, pk, p) # rest \<Longrightarrow> q' = q(k := (OutboxAllowPublisher, pk, []) # (OutboxPublishEvent, pk', p) # rest)
     \<Longrightarrow> settled ok q q'"
  unfolding settled_def by blast

definition publishes :: "entry list \<Rightarrow> string list" where
  "publishes q = map (\<lambda>x. snd (snd x)) (filter (\<lambda>x. fst x = OutboxPublishEvent) q)"

lemma publishes_append [simp]: "publishes (xs @ ys) = publishes xs @ publishes ys"
  by (simp add: publishes_def)

locale dispatcher_store =
  fixes st :: "'s DispatcherStore"
    and inv :: "'s \<Rightarrow> bool"
    and queues :: "'s \<Rightarrow> string \<Rightarrow> entry list"
    and held :: "'s \<Rightarrow> int \<Rightarrow> string \<Rightarrow> (string \<times> entry) option"
  assumes claim: "inv s \<Longrightarrow> tok \<noteq> Some [] \<Longrightarrow> 0 < lease \<Longrightarrow> ds_ClaimOutbox st tok now lease n s = (got, s') \<Longrightarrow>
      inv s' \<and> queues s' = queues s
        \<and> (\<forall>xs it. got = Inr xs \<longrightarrow> it \<in> set xs \<longrightarrow>
             tok = Some (it_ClaimToken it) \<and> held s' (it_ID it) (it_ClaimToken it) = Some (it_AggregateKey it, item_entry it))"
    and complete: "inv s \<Longrightarrow>
      (res, s') \<in> {ds_CompleteOutbox st i t now s, ds_CompletePublisherRegistration st i t pk now s,
                   ds_CompletePublisherUnregistration st i t now pk s} \<Longrightarrow>
      inv s' \<and> (case res of Inl _ \<Rightarrow> queues s' = queues s
        | Inr _ \<Rightarrow> (\<exists>k x. held s i t = Some (k, x) \<and> queues s = (queues s')(k := x # queues s' k)))"
    and retry: "inv s \<Longrightarrow> ds_RetryOutbox st i t now avail err s = (res, s') \<Longrightarrow> inv s' \<and> queues s' = queues s"
    and recover: "inv s \<Longrightarrow> ds_RecoverPublisherRegistration st i t pk now s = (res, s') \<Longrightarrow>
      inv s' \<and> (case res of Inl _ \<Rightarrow> queues s' = queues s
        | Inr _ \<Rightarrow> (\<exists>k x p rest. held s i t = Some (k, (OutboxPublishEvent, x, p)) \<and> queues s k = (OutboxPublishEvent, x, p) # rest
            \<and> queues s' = (queues s)(k := (OutboxAllowPublisher, x, []) # (OutboxPublishEvent, pk, p) # rest)))"
begin

text \<open>What the rest of the bridge may do while an item is held with token \<open>t\<close>: append to queues
  or take items of its own, never claim with \<open>t\<close> or change what is claimed with it.\<close>

definition polite :: "string option \<Rightarrow> ('s \<Rightarrow> 's) \<Rightarrow> bool" where
  "polite tok others \<longleftrightarrow> (\<forall>s i t. inv s \<longrightarrow> inv (others s)
     \<and> (tok = Some t \<longrightarrow> held (others s) i t = held s i t \<or> held (others s) i t = None))"

definition appends :: "('s \<Rightarrow> 's) \<Rightarrow> bool" where
  "appends others \<longleftrightarrow> (\<forall>s k. inv s \<longrightarrow> (\<exists>xs. queues (others s) k = queues s k @ xs))"

lemma settle_failure:
  assumes "inv s"
  shows "inv (dd_store (settleFailure st dp it now err s)) \<and> settled ok (queues s) (queues (dd_store (settleFailure st dp it now err s)))"
proof -
  have ret: "inv (dd_store (unlessLost (ds_RetryOutbox st i t n av e s))) \<and> queues (dd_store (unlessLost (ds_RetryOutbox st i t n av e s))) = queues s"
    for i t n av e
    using retry [OF assms, of i t n av e] by (cases "ds_RetryOutbox st i t n av e s") (auto simp: unlessLost_def split: sum.split)
  have rec: "inv (dd_store (unlessLost (ds_RecoverPublisherRegistration st i t pk n s)))
      \<and> settled ok (queues s) (queues (dd_store (unlessLost (ds_RecoverPublisherRegistration st i t pk n s))))" for i t pk n
  proof (cases "ds_RecoverPublisherRegistration st i t pk n s")
    case (Pair res s')
    from recover [OF assms this] show ?thesis
      by (cases res) (auto simp: Pair unlessLost_def intro: settled_recover)
  qed
  show ?thesis using ret rec by (cases err) (auto simp: settleFailure_def)
qed

lemma settle_success:
  assumes inv: "inv s" and held: "held s (it_ID it) (it_ClaimToken it) = Some (k, item_entry it) \<or> held s (it_ID it) (it_ClaimToken it) = None"
    and ok: "ok (item_entry it)"
  shows "inv (dd_store (settleSuccess st dp it now s)) \<and> settled ok (queues s) (queues (dd_store (settleSuccess st dp it now s)))"
proof -
  have "inv (dd_store (unlessLost res)) \<and> settled ok (queues s) (queues (dd_store (unlessLost res)))"
    if res: "res \<in> {ds_CompleteOutbox st (it_ID it) (it_ClaimToken it) now s,
        ds_CompletePublisherRegistration st (it_ID it) (it_ClaimToken it) (it_PubKey it) now s,
        ds_CompletePublisherUnregistration st (it_ID it) (it_ClaimToken it) now (it_PubKey it) s}" for res
  proof (cases res)
    case (Pair a s')
    have "(a, s') \<in> {ds_CompleteOutbox st (it_ID it) (it_ClaimToken it) now s,
        ds_CompletePublisherRegistration st (it_ID it) (it_ClaimToken it) (it_PubKey it) now s,
        ds_CompletePublisherUnregistration st (it_ID it) (it_ClaimToken it) now (it_PubKey it) s}" using res Pair by simp
    from complete [OF inv this] show ?thesis
      using held ok by (cases a) (auto simp: Pair unlessLost_def intro: settled_take)
  qed
  then show ?thesis by (simp add: settleSuccess_def Let_def)
qed

lemma dispatch_step:
  assumes inv: "inv s" and tok: "tok \<noteq> Some []" and others: "polite tok others"
  shows "\<exists>s1 s2. inv s1 \<and> queues s1 = queues s \<and> (s2 = s1 \<or> s2 = others s1) \<and> inv (dd_store (DispatchOne st dp env tok now net others s))
    \<and> settled (accepted dp env net) (queues s2) (queues (dd_store (DispatchOne st dp env tok now net others s)))"
proof (cases "HasStore dp")
  case True
  obtain res s1 where run: "ds_ClaimOutbox st tok now (leaseOf dp) 1 s = (res, s1)"
    by (cases "ds_ClaimOutbox st tok now (leaseOf dp) 1 s")
  have "0 < leaseOf dp" by (simp add: leaseOf_def)
  note c = claim [OF inv tok this run]
  have inv2: "inv (others s1)" using others c by (auto simp: polite_def)
  show ?thesis
  proof (cases "\<exists>it its. res = Inr (it # its)")
    case True
    then obtain it its where res: "res = Inr (it # its)" by blast
    have t: "tok = Some (it_ClaimToken it)" "held s1 (it_ID it) (it_ClaimToken it) = Some (it_AggregateKey it, item_entry it)"
      using c res by auto
    then have "held (others s1) (it_ID it) (it_ClaimToken it) = Some (it_AggregateKey it, item_entry it)
        \<or> held (others s1) (it_ID it) (it_ClaimToken it) = None"
      using others c unfolding polite_def by metis
    from settle_success [OF inv2 this, of "accepted dp env net" dp now] settle_failure [OF inv2, of dp it now _ "accepted dp env net"]
    have "inv (dd_store (DispatchOne st dp env tok now net others s))
      \<and> settled (accepted dp env net) (queues (others s1)) (queues (dd_store (DispatchOne st dp env tok now net others s)))"
      using \<open>HasStore dp\<close> by (simp add: DispatchOne_def run res deliver_accepted split: option.split)
    then show ?thesis using c by blast
  next
    case False
    then have "dd_store (DispatchOne st dp env tok now net others s) = s1"
      using \<open>HasStore dp\<close> by (auto simp: DispatchOne_def run split: sum.split list.split)
    then show ?thesis using c by (intro exI [of _ s1]) auto
  qed
next
  case False
  then show ?thesis using inv by (intro exI [of _ s]) (auto simp: DispatchOne_def)
qed

text \<open>Publishes in order, by payload, and what happened to those of a queue: the first ones were
  accepted by the relay, the others are still there, in order.\<close>

definition delivered_or_queued :: "(string \<Rightarrow> bool) \<Rightarrow> 's \<Rightarrow> 's \<Rightarrow> bool" where
  "delivered_or_queued ok s s' \<longleftrightarrow> (\<forall>k. \<exists>gone kept added. publishes (queues s k) = gone @ kept \<and> publishes (queues s' k) = kept @ added
     \<and> list_all ok gone)"

lemma delivered_none: "publishes (queues s' k) = publishes (queues s k) @ added \<Longrightarrow>
    \<exists>gone kept added. publishes (queues s k) = gone @ kept \<and> publishes (queues s' k) = kept @ added \<and> list_all ok gone"
  by (intro exI [of _ "[]"] exI [of _ "publishes (queues s k)"] exI [of _ added]) simp

lemma delivered_trans:
  assumes "delivered_or_queued ok s s1" "delivered_or_queued ok s1 s2"
  shows "delivered_or_queued ok s s2"
  unfolding delivered_or_queued_def
proof
  fix k
  obtain g1 k1 a1 g2 k2 a2 where 1: "publishes (queues s k) = g1 @ k1" "publishes (queues s1 k) = k1 @ a1" "list_all ok g1"
    and 2: "publishes (queues s1 k) = g2 @ k2" "publishes (queues s2 k) = k2 @ a2" "list_all ok g2"
    using assms unfolding delivered_or_queued_def by meson
  have "k1 @ a1 = g2 @ k2" using 1 2 by simp
  then consider us where "k1 = g2 @ us" "us @ a1 = k2" | us where "k1 @ us = g2" "a1 = us @ k2"
    by (auto simp: append_eq_append_conv2)
  then show "\<exists>gone kept added. publishes (queues s k) = gone @ kept \<and> publishes (queues s2 k) = kept @ added \<and> list_all ok gone"
  proof cases
    case 1
    then show ?thesis using \<open>publishes (queues s k) = g1 @ k1\<close> \<open>list_all ok g1\<close> 2
      by (intro exI [of _ "g1 @ g2"] exI [of _ us] exI [of _ "a1 @ a2"]) auto
  next
    case 2
    then show ?thesis using 1 \<open>publishes (queues s2 k) = k2 @ a2\<close> \<open>list_all ok g2\<close>
      by (intro exI [of _ "g1 @ k1"] exI [of _ "[]"] exI [of _ "k2 @ a2"]) auto
  qed
qed

lemma delivered_appends: "inv s \<Longrightarrow> appends f \<Longrightarrow> delivered_or_queued ok s (f s)"
  unfolding delivered_or_queued_def appends_def
proof
  fix k assume "inv s" "\<forall>s k. inv s \<longrightarrow> (\<exists>xs. queues (f s) k = queues s k @ xs)"
  then obtain xs where "queues (f s) k = queues s k @ xs" by blast
  then show "\<exists>gone kept added. publishes (queues s k) = gone @ kept \<and> publishes (queues (f s) k) = kept @ added \<and> list_all ok gone"
    by (intro delivered_none [of _ _ _ "publishes xs"]) simp
qed

lemma delivered_settled:
  assumes "settled ok' (queues s) (queues s')" "\<And>pk p. ok' (OutboxPublishEvent, pk, p) \<Longrightarrow> ok p"
  shows "delivered_or_queued ok s s'"
  unfolding delivered_or_queued_def
proof
  fix k
  from assms(1) consider "queues s' = queues s" | x k' where "queues s = (queues s')(k' := x # queues s' k')" "ok' x"
    | pk pk' p rest k' where "queues s k' = (OutboxPublishEvent, pk, p) # rest"
        "queues s' = (queues s)(k' := (OutboxAllowPublisher, pk, []) # (OutboxPublishEvent, pk', p) # rest)"
    unfolding settled_def by blast
  then show "\<exists>gone kept added. publishes (queues s k) = gone @ kept \<and> publishes (queues s' k) = kept @ added \<and> list_all ok gone"
  proof cases
    case 2
    show ?thesis
    proof (cases "k = k' \<and> fst x = OutboxPublishEvent")
      case True
      then have "publishes (queues s k) = [snd (snd x)] @ publishes (queues s' k)" using 2(1) by (simp add: publishes_def)
      moreover have "ok (snd (snd x))" using 2(2) True assms(2) [of "fst (snd x)" "snd (snd x)"] by (metis prod.collapse)
      ultimately show ?thesis
        by (intro exI [of _ "[snd (snd x)]"] exI [of _ "publishes (queues s' k)"] exI [of _ "[]"]) simp
    next
      case False
      then have "publishes (queues s k) = publishes (queues s' k)" using 2(1) by (auto simp: publishes_def)
      then show ?thesis by (intro delivered_none [of _ _ _ "[]"]) simp
    qed
  next
    case 3
    then have "publishes (queues s k) = publishes (queues s' k)"
      by (auto simp: publishes_def OutboxAllowPublisher_def OutboxPublishEvent_def)
    then show ?thesis by (intro delivered_none [of _ _ _ "[]"]) simp
  qed (intro delivered_none [of _ _ _ "[]"], simp)
qed

definition friendly :: "'s dispatch_round \<Rightarrow> bool" where
  "friendly r \<longleftrightarrow> rd_token r \<noteq> Some [] \<and> polite (rd_token r) (rd_before r) \<and> appends (rd_before r)
     \<and> polite (rd_token r) (rd_during r) \<and> appends (rd_during r)"

lemma dispatch_delivers:
  assumes inv: "inv s" and r: "friendly r" and ok: "\<And>pk p. accepted dp env (rd_net r) (OutboxPublishEvent, pk, p) \<Longrightarrow> ok p"
  defines "s' \<equiv> dd_store (DispatchOne st dp env (rd_token r) (rd_now r) (rd_net r) (rd_during r) (rd_before r s))"
  shows "inv s' \<and> delivered_or_queued ok s s'"
proof -
  have invb: "inv (rd_before r s)" using r inv by (auto simp: friendly_def polite_def)
  have pol: "rd_token r \<noteq> Some []" "polite (rd_token r) (rd_during r)" using r by (auto simp: friendly_def)
  obtain s1 s2 where 1: "inv s1" "queues s1 = queues (rd_before r s)" "s2 = s1 \<or> s2 = rd_during r s1" "inv s'"
    "settled (accepted dp env (rd_net r)) (queues s2) (queues s')"
    using dispatch_step [OF invb pol, of dp env "rd_now r" "rd_net r"] unfolding s'_def by blast
  have "delivered_or_queued ok s (rd_before r s)" using r by (intro delivered_appends [OF inv]) (simp add: friendly_def)
  moreover have "delivered_or_queued ok (rd_before r s) s1"
    using 1(2) by (intro delivered_settled [where ok' = "\<lambda>_. False"]) auto
  moreover have "delivered_or_queued ok s1 s2"
  proof (cases "s2 = s1")
    case True
    then show ?thesis by (intro delivered_settled [where ok' = "\<lambda>_. False"]) auto
  next
    case False
    then show ?thesis using 1 r delivered_appends by (auto simp: friendly_def)
  qed
  moreover have "delivered_or_queued ok s2 s'" by (rule delivered_settled [OF 1(5)]) (rule ok)
  ultimately show ?thesis using 1(4) delivered_trans by blast
qed

lemma run_delivers:
  assumes "inv s" "list_all friendly rs"
  shows "inv (snd (Run st dp env rs s))
    \<and> delivered_or_queued (\<lambda>p. \<exists>r \<in> set rs. \<exists>pk. accepted dp env (rd_net r) (OutboxPublishEvent, pk, p)) s (snd (Run st dp env rs s))"
  using assms
proof (induction rs arbitrary: s)
  case Nil
  then show ?case unfolding delivered_or_queued_def by (auto simp del: ex_simps intro!: delivered_none [of s _ s "[]", simplified])
next
  case (Cons r rs)
  let ?ok = "\<lambda>rs p. \<exists>r \<in> set rs. \<exists>pk. accepted dp env (rd_net r) (OutboxPublishEvent, pk, p)"
  define s' where "s' = dd_store (DispatchOne st dp env (rd_token r) (rd_now r) (rd_net r) (rd_during r) (rd_before r s))"
  have step: "inv s' \<and> delivered_or_queued (?ok (r # rs)) s s'"
    unfolding s'_def by (rule dispatch_delivers) (use Cons.prems in auto)
  then have rest: "inv (snd (Run st dp env rs s')) \<and> delivered_or_queued (?ok rs) s' (snd (Run st dp env rs s'))"
    using Cons by simp
  have "delivered_or_queued (?ok (r # rs)) s' (snd (Run st dp env rs s'))"
    using rest unfolding delivered_or_queued_def list_all_iff by (metis list.set_intros(2))
  then have "inv (snd (Run st dp env rs s')) \<and> delivered_or_queued (?ok (r # rs)) s (snd (Run st dp env rs s'))"
    using step rest delivered_trans by blast
  moreover have "snd (Run st dp env (r # rs) s) = s' \<or> snd (Run st dp env (r # rs) s) = snd (Run st dp env rs s')"
    by (simp add: Let_def s'_def split: option.split)
  ultimately show ?case using step by auto
qed

end


subsection \<open>The store keeps the contract\<close>

definition sqlite_store :: "sq DispatcherStore" where
  "sqlite_store = \<lparr>ds_ClaimOutbox = ClaimOutbox, ds_CompleteOutbox = CompleteOutbox,
     ds_CompletePublisherRegistration = CompletePublisherRegistration,
     ds_CompletePublisherUnregistration = CompletePublisherUnregistration,
     ds_RecoverPublisherRegistration = RecoverPublisherRegistration, ds_RetryOutbox = RetryOutbox\<rparr>"

definition held_row :: "bridge_db \<Rightarrow> int \<Rightarrow> string \<Rightarrow> OutboxRow option" where
  "held_row d i tok = (if tok = [] then None else List.find (\<lambda>r. ob_id r = i \<and> ob_token r = tok) (outbox d))"

definition held_entry :: "bridge_db \<Rightarrow> int \<Rightarrow> string \<Rightarrow> (string \<times> entry) option" where
  "held_entry d i tok = map_option (\<lambda>r. (ob_key r, queue_entry r)) (held_row d i tok)"

lemma held_entry_row:
  assumes "outbox_inv d" "r \<in> set (outbox d)" "ob_token r = tok" "tok \<noteq> []"
  shows "held_entry d (ob_id r) tok = Some (ob_key r, queue_entry r)"
proof -
  have "held_row d (ob_id r) tok \<noteq> None" using assms by (auto simp: held_row_def find_None_iff)
  then obtain r' where r': "held_row d (ob_id r) tok = Some r'" by blast
  then have "r' \<in> set (outbox d)" "ob_id r' = ob_id r" using assms(4) by (auto simp: held_row_def find_Some_iff)
  then have "r' = r" using inv_same_id [OF assms(1)] assms(2) by blast
  then show ?thesis using r' by (simp add: held_entry_def)
qed

lemma held_entryD:
  assumes "held_entry d i tok = Some (k, x)"
  shows "tok \<noteq> [] \<and> (\<exists>r \<in> set (outbox d). ob_id r = i \<and> ob_token r = tok \<and> k = ob_key r \<and> x = queue_entry r)"
  using assms by (auto simp: held_entry_def held_row_def find_Some_iff split: if_splits)

text \<open>What an operation of the store does, whether it fails or not.\<close>

lemma atomic_cases:
  assumes "atomic_op m Q d" "m \<lparr>sq_faults = fs, sq_db = d\<rparr> = (res, s')"
  shows "case res of Inl _ \<Rightarrow> sq_db s' = d | Inr x \<Rightarrow> Q x (sq_db s')"
  using assms(1) [unfolded atomic_op_def, rule_format, of fs] assms(2) by (simp split: sum.splits)

definition queue_taken :: "int \<Rightarrow> string \<Rightarrow> bridge_db \<Rightarrow> bridge_db \<Rightarrow> bool" where
  "queue_taken i tok d d' \<longleftrightarrow> (\<exists>k x. held_entry d i tok = Some (k, x) \<and> queue d = (queue d')(k := x # queue d' k))"

lemma took_queue:
  assumes "outbox_inv d" "owns i tok now r" "took r d d'"
  shows "queue_taken i tok d d'"
proof -
  have "ob_token r = tok" "tok \<noteq> []" "ob_id r = i" "r \<in> set (outbox d)" using assms(2,3) by (auto simp: owns_def took_def)
  then have "held_entry d i tok = Some (ob_key r, queue_entry r)" using held_entry_row [OF assms(1)] by blast
  moreover have "queue d k = ((queue d')(ob_key r := queue_entry r # queue d' (ob_key r))) k" for k
    using assms(3) by (simp add: took_def)
  ultimately show ?thesis unfolding queue_taken_def by blast
qed

lemma completes_take:
  assumes "store_inv d" "\<And>d1. fifo_change (owns i tok now) {} d d1 \<Longrightarrow> queue_taken i tok d d1 \<Longrightarrow> after k Q d1"
  shows "after (exec_result what (q_CompleteOutbox i tok now) (\<lambda>rows. requireClaimOwner rows k)) Q d"
  unfolding requireClaimOwner_def
proof (intro after_exec_result after_guard)
  fix n d1 assume c: "q_CompleteOutbox i tok now d = (n, d1)" "n \<noteq> 0"
  have inv: "outbox_inv d" using assms(1) by (simp add: store_inv_def)
  obtain r where r: "owns i tok now r" "took r d d1" "same_rest d d1" using complete_takes [OF inv c] by blast
  then have "fifo_change (owns i tok now) {} d d1" using took_fifo [OF assms(1)] by (simp add: same_rest_def)
  then show "after k Q d1" using assms(2) took_queue [OF inv r(1,2)] by blast
qed

lemma after_beside:
  assumes "off_queue d1 (f d1)" "queue_taken i tok d d1" "\<And>d2. queue_taken i tok d d2 \<Longrightarrow> after k Q d2"
  shows "after (exec what f k) Q d1"
proof (rule after_exec)
  have "queue (f d1) = queue d1" using assms(1) by (intro queue_cong) (simp add: off_queue_def)
  then show "after k Q (f d1)" using assms(2) by (intro assms(3)) (simp add: queue_taken_def)
qed

lemma complete_queue:
  assumes "store_inv d"
  shows "atomic_op (CompleteOutbox i tok now) (\<lambda>_. queue_taken i tok d) d"
    and "atomic_op (CompletePublisherRegistration i tok pk now) (\<lambda>_. queue_taken i tok d) d"
    and "atomic_op (CompletePublisherUnregistration i tok now pk) (\<lambda>_. queue_taken i tok d) d"
proof -
  have inv: "outbox_inv d" using assms by (simp add: store_inv_def)
  show "atomic_op (CompleteOutbox i tok now) (\<lambda>_. queue_taken i tok d) d"
    unfolding CompleteOutbox_def
  proof (rule atomic_owned)
    fix n d' assume c: "q_CompleteOutbox i tok now d = (n, d')" "n \<noteq> 0"
    then show "queue_taken i tok d d'" using complete_takes [OF inv c] took_queue [OF inv] by blast
  qed (rule complete_nothing)
  show "atomic_op (CompletePublisherRegistration i tok pk now) (\<lambda>_. queue_taken i tok d) d"
    unfolding CompletePublisherRegistration_def
    by (intro atomic_transaction completes_take [OF assms] after_beside) (auto simp: after_return_ok)
  show "atomic_op (CompletePublisherUnregistration i tok now pk) (\<lambda>_. queue_taken i tok d) d"
    unfolding CompletePublisherUnregistration_def
    by (intro atomic_transaction completes_take [OF assms] after_beside) (auto simp: after_return_ok)
qed

definition queue_recovered :: "int \<Rightarrow> string \<Rightarrow> string \<Rightarrow> bridge_db \<Rightarrow> bridge_db \<Rightarrow> bool" where
  "queue_recovered i tok pk d d' \<longleftrightarrow> (\<exists>k x p rest. held_entry d i tok = Some (k, (OutboxPublishEvent, x, p))
     \<and> queue d k = (OutboxPublishEvent, x, p) # rest
     \<and> queue d' = (queue d)(k := (OutboxAllowPublisher, x, []) # (OutboxPublishEvent, pk, p) # rest))"

lemma recovered_queue:
  assumes "outbox_inv d" "r \<in> set (outbox d)" "owns i tok now r" "recovered r pk d d'"
  shows "queue_recovered i tok pk d d'"
proof -
  have tok: "ob_token r = tok" "tok \<noteq> []" "ob_id r = i" using assms(3) by (auto simp: owns_def)
  have entry: "queue_entry r = (OutboxPublishEvent, ob_pubkey r, ob_payload r)"
    using assms(4) by (simp add: recovered_def queue_entry_def)
  have head: "queue d (ob_key r) = (OutboxPublishEvent, ob_pubkey r, ob_payload r) # tl (queue d (ob_key r))"
    using assms(4) entry unfolding recovered_def by metis
  have "held_entry d i tok = Some (ob_key r, (OutboxPublishEvent, ob_pubkey r, ob_payload r))"
    using held_entry_row [OF assms(1,2) tok(1,2)] tok(3) entry by simp
  moreover have "queue d' = (queue d)(ob_key r := (OutboxAllowPublisher, ob_pubkey r, []) # (OutboxPublishEvent, pk, ob_payload r) # tl (queue d (ob_key r)))"
    using assms(4) unfolding recovered_def fun_eq_iff by simp
  ultimately show ?thesis using head unfolding queue_recovered_def by blast
qed

lemma recover_queue:
  assumes "store_inv d"
  shows "atomic_op (RecoverPublisherRegistration i tok pk now) (\<lambda>_. queue_recovered i tok pk d) d"
  unfolding RecoverPublisherRegistration_def
proof (intro atomic_transaction after_query after_option)
  fix c :: "string \<times> int \<times> string" assume c: "q_ClaimedPublishEvent i tok now d = Some c"
  obtain k sq payload where p: "c = (k, sq, payload)" by (cases c)
  have inv: "outbox_inv d" using assms by (simp add: store_inv_def)
  have "queue_recovered i tok pk d d'"
    if "q_NegateLaterOutboxSequences k sq (q_ResetRejectedPublishAsRegistration (unix now) i (q_ClearPublisherRegistration pk d)) = Some d3"
      "q_ShiftNegatedOutboxSequences k d3 = Some d4"
      "q_InsertRecoveredPublish k (sq + 1) pk payload (unix now) (q_IncrementOutboxLastSequence k d4) = Some d'" for d3 d4 d'
    using recover_requeues [OF inv c [unfolded p] that(1) that(2) that(3)] recovered_queue [OF inv] by blast
  then show "after (case c of (k, sq, payload) \<Rightarrow>
              guard (k \<noteq> pk) ErrAuthorMismatch
              (exec [] (q_ClearPublisherRegistration pk)
              (exec [] (q_ResetRejectedPublishAsRegistration (unix now) i)
              (exec_checked [] (q_NegateLaterOutboxSequences k sq)
              (exec_checked [] (q_ShiftNegatedOutboxSequences k)
              (exec [] (q_IncrementOutboxLastSequence k)
              (exec_checked [] (q_InsertRecoveredPublish k (sq + 1) pk payload (unix now))
              (return_ok True)))))))) (\<lambda>commit d'. if commit then queue_recovered i tok pk d d' else queue_recovered i tok pk d d) d"
    unfolding p by (auto simp: after_return_ok intro!: after_guard after_exec after_exec_checked)
qed (simp add: after_return_err)


lemma run_keeps_inv:
  assumes "safe_op P T m" "store_inv (sq_db s)" "m s = (res, s')"
  shows "store_inv (sq_db s')"
  using run_act_safe [OF assms(1,2), of "sq_faults s"] assms(3) by (simp add: fifo_change_def run_act_def)

lemma run_cases:
  assumes "atomic_op m Q (sq_db s)" "m s = (res, s')"
  shows "case res of Inl _ \<Rightarrow> sq_db s' = sq_db s | Inr x \<Rightarrow> Q x (sq_db s')"
  using atomic_cases [OF assms(1), of "sq_faults s" res s'] assms(2) by simp

lemma claim_contract:
  assumes inv: "store_inv (sq_db s)" and tok: "tok \<noteq> Some []" and run: "ClaimOutbox tok now lease n s = (got, s')"
  shows "queue (sq_db s') = queue (sq_db s) \<and> (\<forall>xs it. got = Inr xs \<longrightarrow> it \<in> set xs \<longrightarrow>
      tok = Some (it_ClaimToken it) \<and> held_entry (sq_db s') (it_ID it) (it_ClaimToken it) = Some (it_AggregateKey it, item_entry it))"
proof -
  have oinv: "outbox_inv (sq_db s)" using inv by (simp add: store_inv_def)
  have inv': "outbox_inv (sq_db s')" using run_keeps_inv [OF safe_ClaimOutbox inv run] by (simp add: store_inv_def)
  have same: "queue (sq_db s') = queue (sq_db s)"
  proof (cases "\<exists>t rows. q_ClaimOutbox t (now + lease) now (unix now) n (sq_db s) = (rows, sq_db s')")
    case True
    then show ?thesis using claim_keeps [OF oinv] by blast
  next
    case False
    then have "sq_db s' = sq_db s"
      using run by (auto simp: ClaimOutbox_def guard_def return_err_def return_ok_def exec_result_def stmt_def passed_def
          split: if_splits option.splits prod.splits)
    then show ?thesis by simp
  qed
  have item: "tok = Some (it_ClaimToken it) \<and> held_entry (sq_db s') (it_ID it) (it_ClaimToken it) = Some (it_AggregateKey it, item_entry it)"
    if it: "got = Inr xs" "it \<in> set xs" for xs it
  proof -
    obtain t where t: "tok = Some t" using run it
      by (cases tok) (auto simp: ClaimOutbox_def guard_def return_err_def return_ok_def split: if_splits)
    have "ClaimOutbox (Some t) now lease n \<lparr>sq_faults = sq_faults s, sq_db = sq_db s\<rparr> = (Inr xs, s')" using run t it(1) by simp
    from claim_row [OF oinv this it(2)] obtain r :: OutboxRow
      where r: "it = (outboxItem r)\<lparr>it_ClaimToken := t, it_ClaimedUntil := now + lease\<rparr>"
        "r\<lparr>ob_token := t, ob_until := now + lease\<rparr> \<in> set (outbox (sq_db s'))" by blast
    from held_entry_row [OF inv' r(2)] show ?thesis
      using tok t by (simp add: r(1) outboxItem_def item_entry_def queue_entry_def)
  qed
  show ?thesis using same item by blast
qed

lemma retry_contract:
  assumes inv: "store_inv (sq_db s)" and run: "RetryOutbox i t now avail err s = (res, s')"
  shows "queue (sq_db s') = queue (sq_db s)"
proof -
  have "atomic_op (RetryOutbox i t now avail err) (\<lambda>_ d'. queue d' = queue (sq_db s)) (sq_db s)"
    unfolding RetryOutbox_def
  proof (rule atomic_owned)
    fix m d' assume c: "q_RetryOutbox (unix avail) err i t now (sq_db s) = (m, d')"
    show "queue d' = queue (sq_db s)" using retry_keeps [OF _ c] inv by (simp add: store_inv_def)
  qed (rule retry_nothing)
  from run_cases [OF this run] show ?thesis by (simp split: sum.splits)
qed

interpretation sqlite: dispatcher_store sqlite_store "\<lambda>s. store_inv (sq_db s)" "\<lambda>s. queue (sq_db s)" "\<lambda>s. held_entry (sq_db s)"
proof (unfold_locales, goal_cases)
  case (1 s tok lease now n got s')
  then show ?case using claim_contract [of s tok now lease n got s'] run_keeps_inv [OF safe_ClaimOutbox, of s tok now lease n got s']
    by (simp add: sqlite_store_def)
next
  case (2 s res s' i t now pk)
  then consider "CompleteOutbox i t now s = (res, s')" | "CompletePublisherRegistration i t pk now s = (res, s')"
    | "CompletePublisherUnregistration i t now pk s = (res, s')"
    by (auto simp: sqlite_store_def)
  then show ?case
    using run_keeps_inv [OF safe_CompleteOutbox 2(1)] run_keeps_inv [OF safe_CompletePublisherRegistration 2(1)]
      run_keeps_inv [OF safe_CompletePublisherUnregistration 2(1)]
      run_cases [OF complete_queue(1) [OF 2(1)]] run_cases [OF complete_queue(2) [OF 2(1)]] run_cases [OF complete_queue(3) [OF 2(1)]]
    by cases (cases res; fastforce simp: queue_taken_def)+
next
  case (3 s i t now avail err res s')
  then show ?case using retry_contract [of s i t now avail err res s'] run_keeps_inv [OF safe_RetryOutbox, of s i t now avail err res s']
    by (simp add: sqlite_store_def)
next
  case (4 s i t pk now res s')
  then have run: "RecoverPublisherRegistration i t pk now s = (res, s')" by (simp add: sqlite_store_def)
  from run_cases [OF recover_queue [OF 4(1)] run] run_keeps_inv [OF safe_RecoverPublisherRegistration 4(1) run]
  show ?case by (cases res) (simp_all add: queue_recovered_def)
qed


subsection \<open>The rest of the bridge\<close>

text \<open>Operations of the other parts of the bridge: all but those of the interface.\<close>

fun producer :: "bridge_op \<Rightarrow> bool" where
  "producer (OpClaimOutbox tok now lease lim) = False"
| "producer (OpCompleteOutbox i tok now) = False"
| "producer (OpCompletePublisherRegistration i tok pk now) = False"
| "producer (OpCompletePublisherUnregistration i tok now pk) = False"
| "producer (OpRecoverPublisherRegistration i tok pk now) = False"
| "producer (OpRetryOutbox i tok now av err) = False"
| "producer _ = True"

lemma producer_touches: "producer op \<Longrightarrow> op_touches op = (\<lambda>_. False) \<and> op_token op = {}"
  by (cases op) auto

definition others :: "nostr_env \<Rightarrow> (bridge_op \<times> bool list) list \<Rightarrow> sq \<Rightarrow> sq" where
  "others env ops s = s\<lparr>sq_db := run_ops env ops (sq_db s)\<rparr>"

lemma others_Nil [simp]: "others env [] = (\<lambda>s. s)"
  by (simp add: others_def fun_eq_iff)

lemma held_after_op:
  assumes inv: "store_inv d" and t: "t \<notin> op_token op"
  shows "held_entry (run_op env op fs d) i t = held_entry d i t \<or> held_entry (run_op env op fs d) i t = None"
proof (cases "held_entry (run_op env op fs d) i t")
  case (Some y)
  obtain k x where y: "y = (k, x)" by (cases y)
  note f = run_op_fifo [OF inv, of op env fs]
  obtain r where r: "t \<noteq> []" "r \<in> set (outbox (run_op env op fs d))" "ob_id r = i" "ob_token r = t" "k = ob_key r" "x = queue_entry r"
    using held_entryD Some y by blast
  then have "r \<in> set (outbox d)" using f t by (auto simp: fifo_change_def no_new_claims_def)
  then have "held_entry d i t = Some (k, x)" using held_entry_row [of d r t] inv r by (simp add: store_inv_def)
  then show ?thesis using Some y by simp
qed simp

lemma held_after_ops:
  assumes "store_inv d" "list_all (\<lambda>(op, _). producer op) ops"
  shows "held_entry (run_ops env ops d) i t = held_entry d i t \<or> held_entry (run_ops env ops d) i t = None"
  using assms
proof (induction ops arbitrary: d)
  case (Cons x ops)
  obtain op fs where x: "x = (op, fs)" by (cases x)
  have "store_inv (run_op env op fs d)" using run_op_fifo [OF Cons.prems(1)] by (simp add: fifo_change_def)
  then have "held_entry (run_ops env ops (run_op env op fs d)) i t = held_entry (run_op env op fs d) i t
      \<or> held_entry (run_ops env ops (run_op env op fs d)) i t = None" using Cons x by simp
  moreover have "t \<notin> op_token op" using Cons.prems(2) x producer_touches [of op] by simp
  ultimately show ?case using held_after_op [OF Cons.prems(1), of t op env fs i] x by auto
qed simp

lemma queue_after_ops:
  assumes "store_inv d" "list_all (\<lambda>(op, _). producer op) ops"
  shows "\<exists>xs. queue (run_ops env ops d) k = queue d k @ xs"
  using assms
proof (induction ops arbitrary: d)
  case (Cons x ops)
  obtain op fs where x: "x = (op, fs)" by (cases x)
  have f: "fifo_change (\<lambda>_. False) {} d (run_op env op fs d)"
    using run_op_fifo [OF Cons.prems(1), of op env fs] producer_touches [of op] Cons.prems(2) x by simp
  then obtain ys where "queue (run_op env op fs d) k = queue d k @ ys" unfolding fifo_change_def by blast
  moreover have "\<exists>xs. queue (run_ops env ops (run_op env op fs d)) k = queue (run_op env op fs d) k @ xs"
    using Cons x f by (simp add: fifo_change_def)
  ultimately show ?case using x by auto
qed simp

lemma others_polite: "list_all (\<lambda>(op, _). producer op) ops \<Longrightarrow> sqlite.polite tok (others env ops)"
  unfolding sqlite.polite_def using held_after_ops run_ops_inv by (simp add: others_def)

lemma others_append: "list_all (\<lambda>(op, _). producer op) ops \<Longrightarrow> sqlite.appends (others env ops)"
  unfolding sqlite.appends_def using queue_after_ops by (simp add: others_def)

record round_input =
  in_before :: "(bridge_op \<times> bool list) list"
  in_token :: "string option"
  in_now :: int
  in_net :: relay
  in_during :: "(bridge_op \<times> bool list) list"
  in_cancelled :: bool

definition bridge_round :: "nostr_env \<Rightarrow> round_input \<Rightarrow> sq dispatch_round" where
  "bridge_round env i = \<lparr>rd_before = others env (in_before i), rd_token = in_token i, rd_now = in_now i, rd_net = in_net i,
     rd_during = others env (in_during i), rd_cancelled = in_cancelled i\<rparr>"

definition ordinary :: "round_input \<Rightarrow> bool" where
  "ordinary i \<longleftrightarrow> in_token i \<noteq> Some [] \<and> list_all (\<lambda>(op, _). producer op) (in_before i) \<and> list_all (\<lambda>(op, _). producer op) (in_during i)"

text \<open>C1. Delivery is at least once and in order. Start from any reachable database and let the
  worker run for any number of rounds, the rest of the bridge using the store before and during
  each, statements failing anywhere and the relay answering anything. Then the publishes that were
  queued for a publisher split in two: the first ones were accepted by the relay in some round,
  the others are still queued, in the same order and in front of whatever was added.\<close>

theorem at_least_once:
  assumes "list_all ordinary ins"
  shows "\<exists>gone kept added. publishes (queue (run_ops env ops empty_db) k) = gone @ kept
    \<and> publishes (queue (sq_db (snd (Run sqlite_store dp env (map (bridge_round env) ins)
        \<lparr>sq_faults = fs, sq_db = run_ops env ops empty_db\<rparr>))) k) = kept @ added
    \<and> list_all (\<lambda>p. \<exists>i \<in> set ins. \<exists>pk. accepted dp env (in_net i) (OutboxPublishEvent, pk, p)) gone"
proof -
  have "list_all sqlite.friendly (map (bridge_round env) ins)"
    using assms by (auto simp: list_all_iff ordinary_def sqlite.friendly_def bridge_round_def intro!: others_polite others_append)
  from sqlite.run_delivers [OF _ this, of "\<lparr>sq_faults = fs, sq_db = run_ops env ops empty_db\<rparr>" dp env]
  have "sqlite.delivered_or_queued (\<lambda>p. \<exists>r \<in> set (map (bridge_round env) ins). \<exists>pk. accepted dp env (rd_net r) (OutboxPublishEvent, pk, p))
    \<lparr>sq_faults = fs, sq_db = run_ops env ops empty_db\<rparr>
    (snd (Run sqlite_store dp env (map (bridge_round env) ins) \<lparr>sq_faults = fs, sq_db = run_ops env ops empty_db\<rparr>))"
    using run_ops_inv [OF store_inv_empty] by simp
  then show ?thesis unfolding sqlite.delivered_or_queued_def by (simp add: bridge_round_def)
qed


definition sample_publish_event :: NostrEvent where
  "sample_publish_event = \<lparr>ev_ID = ''id1'', ev_PubKey = ''aa'', ev_Kind = 1, ev_Tags = [], ev_CreatedAt = 0, ev_Content = [], ev_CheckID = True, ev_VerifySignature = True\<rparr>"

definition publish_env :: nostr_env where
  "publish_env = \<lparr>pubKeyHex = Some, decodeEvent = (\<lambda>p. if p = ''note'' then Some sample_publish_event else None), encodeEvent = (\<lambda>_. None)\<rparr>"

definition sample_publish :: OutboxRequest where
  "sample_publish = \<lparr>rq_AggregateKey = ''aa'', rq_Operation = OutboxPublishEvent, rq_PubKey = ''aa'', rq_Payload = ''note'', rq_AvailableAt = 0\<rparr>"

definition sample_dispatcher :: Dispatcher where
  "sample_dispatcher = \<lparr>HasStore = True, HasManagement = True, HasPublisher = True, HasObserver = False, BaseBackoff = 0, MaxBackoff = 0,
     LeaseDuration = 0, PollInterval = 0\<rparr>"

definition sample_round :: round_input where
  "sample_round = \<lparr>in_before = [], in_token = Some ''t'', in_now = 0, in_net = (\<lambda>_. None), in_during = [(OpEnqueueOutbox sample_publish, [])],
     in_cancelled = False\<rparr>"

lemma sample_run:
  "publishes (queue (run_ops publish_env [(OpEnqueueOutbox sample_publish, [])] empty_db) ''aa'') = [''note'']"
  by code_simp

theorem at_least_once_witness:
  "\<exists>gone kept added. [''note''] = gone @ kept
    \<and> publishes (queue (sq_db (snd (Run sqlite_store sample_dispatcher publish_env (map (bridge_round publish_env) [sample_round])
        \<lparr>sq_faults = [], sq_db = run_ops publish_env [(OpEnqueueOutbox sample_publish, [])] empty_db\<rparr>))) ''aa'') = kept @ added
    \<and> list_all (\<lambda>p. \<exists>i \<in> set [sample_round]. \<exists>pk. accepted sample_dispatcher publish_env (in_net i) (OutboxPublishEvent, pk, p)) gone"
proof -
  have "list_all ordinary [sample_round]" by (simp add: ordinary_def sample_round_def)
  from at_least_once [OF this, of publish_env "[(OpEnqueueOutbox sample_publish, [])]" "''aa''" sample_dispatcher "[]"]
  show ?thesis unfolding sample_run .
qed

end
