(* ===== verification/Bridge_Progress.thy ===== *)
theory Bridge_Progress
  imports Bridge_Delivery
begin

text \<open>
  Progress of the delivery worker: the waiting time after a failure, what a failed delivery leaves
  in the database, and that a relay that accepts everything empties the outbox.
\<close>

subsection \<open>Waiting\<close>

lemma backoffLoop_min:
  assumes "0 < delay" "0 < mx" "delay < 2 ^ 63" "mx < 2 ^ 63"
  shows "backoffLoop n delay mx = min mx (delay * 2 ^ n)"
  using assms
proof (induction n arbitrary: delay)
  case (Suc n)
  consider "mx \<le> delay" | "delay < mx" "mx div 2 < delay" | "delay \<le> mx div 2" by linarith
  then show ?case
  proof cases
    case 1
    have "delay * 1 \<le> delay * 2 ^ Suc n" using Suc.prems(1) by (intro mult_left_mono one_le_power) simp_all
    then show ?thesis using 1 by simp
  next
    case 2
    have "delay * 2 \<le> delay * 2 ^ Suc n" using Suc.prems(1) by simp
    then show ?thesis using 2 by simp
  next
    case 3
    then have double: "delay * 2 \<le> mx" by linarith
    then have "int64 (delay * 2) = delay * 2" using Suc.prems by (intro int64_id) simp_all
    moreover have "backoffLoop n (delay * 2) mx = min mx (delay * 2 * 2 ^ n)"
      using Suc.IH [of "delay * 2"] Suc.prems double by simp
    ultimately show ?thesis using 3 double Suc.prems(1) by (simp add: ac_simps)
  qed
qed auto

text \<open>C39. The waiting time doubles with every attempt up to the maximum, exactly: the smaller of
  the maximum and the base times two to the number of attempts, for every pair of 64-bit settings
  and every number of attempts. The doubling never overflows.\<close>

theorem backoff_exact:
  assumes "BaseBackoff dp < 2 ^ 63" "MaxBackoff dp < 2 ^ 63"
  shows "backoff dp attempts = min (maxDelay dp) (baseDelay dp * 2 ^ nat attempts)"
  unfolding backoff_def using assms by (intro backoffLoop_min) (simp_all add: baseDelay_def maxDelay_def)

theorem backoff_exact_witness: "backoff (sample_dispatcher\<lparr>MaxBackoff := 2 ^ 63 - 1\<rparr>) 1000 = 2 ^ 63 - 1"
proof -
  have "min (2 ^ 63 - 1) (1000000000 * 2 ^ 1000) = (2 ^ 63 - 1 :: int)" by simp
  then show ?thesis
    using backoff_exact [of "sample_dispatcher\<lparr>MaxBackoff := 2 ^ 63 - 1\<rparr>" 1000]
    by (simp add: sample_dispatcher_def baseDelay_def maxDelay_def)
qed

text \<open>The stored error text: bounded, and on one line.\<close>

lemma spaceLen_0: "spaceLen (c # cs) = 0 \<Longrightarrow> c \<notin> {CHR 0x09, CHR 0x0A, CHR 0x0B, CHR 0x0C, CHR 0x0D, CHR 0x20}"
  by (auto simp: spaceLen_def split: if_splits)

definition plain :: "string \<Rightarrow> bool" where
  "plain w \<longleftrightarrow> set w \<inter> {CHR 0x09, CHR 0x0A, CHR 0x0B, CHR 0x0C, CHR 0x0D, CHR 0x20} = {}"

lemma Fields_plain: "plain w \<Longrightarrow> list_all plain (Fields s w)"
proof (induction s w rule: Fields.induct)
  case (2 c cs w)
  show ?case
  proof (cases "spaceLen (c # cs)")
    case 0
    then have "plain (w @ [c])" using 2(3) spaceLen_0 [OF 0] unfolding plain_def by auto
    then show ?thesis using 2(1) 0 by simp
  next
    case (Suc n)
    moreover have "plain []" by (simp add: plain_def)
    ultimately have "list_all plain (Fields (drop n cs) [])" using 2(2) by blast
    then show ?thesis using Suc 2(3) by simp
  qed
qed simp

lemma joinSpace_line: "list_all plain ws \<Longrightarrow> set (joinSpace ws) \<inter> {CHR 0x09, CHR 0x0A, CHR 0x0B, CHR 0x0C, CHR 0x0D} = {}"
  by (induction ws rule: joinSpace.induct) (auto simp: plain_def)

lemma sanitize_line: "length (sanitize e) \<le> 256 \<and> set (sanitize e) \<inter> {CHR 0x09, CHR 0x0A, CHR 0x0B, CHR 0x0C, CHR 0x0D} = {}"
proof -
  have "list_all plain (Fields (errorText e) [])" by (rule Fields_plain) (simp add: plain_def)
  from joinSpace_line [OF this] show ?thesis
    by (auto simp: sanitize_def Let_def maxStoredError_def dest: in_set_takeD)
qed


subsection \<open>One delivery without failing statements\<close>

lemma claim_one:
  assumes inv: "outbox_inv d" and ready: "\<And>r. r \<in> set (outbox d) \<Longrightarrow> ob_avail r \<le> unix now \<and> unclaimed now r"
    and some: "outbox d \<noteq> []"
  obtains r where "r \<in> set (outbox d)" "no_prior d r" "claimable_ids now (unix now) 1 d = [ob_id r]"
proof -
  define c where "c = filter (\<lambda>r. unclaimed now r \<and> ob_avail r \<le> unix now \<and> no_prior d r) (outbox d)"
  define m where "m = Min (ob_seq ` set (outbox d))"
  have "m \<in> ob_seq ` set (outbox d)" using some by (auto simp: m_def)
  then obtain x where x: "x \<in> set (outbox d)" "ob_seq x = m" by auto
  have "m \<le> ob_seq p" if "p \<in> set (outbox d)" for p using that by (simp add: m_def)
  then have "no_prior d x" unfolding no_prior_def list_ex_iff x(2) by (meson not_less)
  then have "x \<in> set (sort_key claim_order c)" using x ready by (simp add: c_def)
  then have "sort_key claim_order c \<noteq> []" by force
  then obtain r rest where s: "sort_key claim_order c = r # rest" by (cases "sort_key claim_order c") auto
  then have "r \<in> set (sort_key claim_order c)" by simp
  then have "r \<in> set c" by simp
  then show ?thesis using that [of r] s by (simp add: claimable_ids_def c_def)
qed

lemma filter_one: "distinct xs \<Longrightarrow> r \<in> set xs \<Longrightarrow> filter (\<lambda>x. x = r) xs = [r]"
  by (induction xs) (auto simp: filter_empty_conv)

lemma length_without: "distinct xs \<Longrightarrow> r \<in> set xs \<Longrightarrow> length (filter (\<lambda>x. x \<noteq> r) xs) = length xs - 1"
  using sum_length_filter_compl [of "\<lambda>x. x = r" xs] by (simp add: filter_one)

definition with_row :: "OutboxRow \<Rightarrow> OutboxRow \<Rightarrow> bridge_db \<Rightarrow> bridge_db" where
  "with_row r r' d = d\<lparr>outbox := map (\<lambda>x. if x = r then r' else x) (outbox d)\<rparr>"

definition claimed_row :: "OutboxRow \<Rightarrow> string \<Rightarrow> int \<Rightarrow> OutboxRow" where
  "claimed_row r t until = r\<lparr>ob_token := t, ob_until := until\<rparr>"

lemma claim_run:
  assumes inv: "outbox_inv d" and r: "r \<in> set (outbox d)" "unclaimed now r" and ids: "claimable_ids now (unix now) 1 d = [ob_id r]"
    and lease: "0 < lease"
  shows "ClaimOutbox (Some t) now lease 1 \<lparr>sq_faults = [], sq_db = d\<rparr> =
    (Inr [(outboxItem r)\<lparr>it_ClaimToken := t, it_ClaimedUntil := now + lease\<rparr>], \<lparr>sq_faults = [], sq_db = with_row r (claimed_row r t (now + lease)) d\<rparr>)"
proof -
  have hit: "ob_id x = ob_id r \<and> unclaimed now x \<longleftrightarrow> x = r" if "x \<in> set (outbox d)" for x
    using inv_same_id [OF inv that r(1)] r(2) by blast
  have "filter (\<lambda>x. ob_id x = ob_id r \<and> unclaimed now x) (outbox d) = filter (\<lambda>x. x = r) (outbox d)"
    using hit by (intro filter_cong) auto
  also have "\<dots> = [r]"
    using filter_one [OF _ r(1)] inv by (simp add: outbox_inv_def distinct_map)
  finally have rows: "filter (\<lambda>x. ob_id x = ob_id r \<and> unclaimed now x) (outbox d) = [r]" .
  have "map (\<lambda>x. if ob_id x = ob_id r \<and> unclaimed now x then x\<lparr>ob_token := t, ob_until := now + lease\<rparr> else x) (outbox d) =
      map (\<lambda>x. if x = r then claimed_row r t (now + lease) else x) (outbox d)"
    using hit by (intro map_cong) (auto simp: claimed_row_def)
  then have "q_ClaimOutbox t (now + lease) now (unix now) 1 d = ([r], with_row r (claimed_row r t (now + lease)) d)"
    by (simp add: q_ClaimOutbox_def ids rows with_row_def)
  then show ?thesis using lease by (simp add: ClaimOutbox_def guard_def calm return_ok_def)
qed


lemma with_row_owner:
  assumes inv: "outbox_inv d" and r: "r \<in> set (outbox d)" and t: "t \<noteq> []" and until: "now < until"
    and x: "x \<in> set (outbox (with_row r (claimed_row r t until) d))"
  shows "owns (ob_id r) t now x \<longleftrightarrow> x = claimed_row r t until"
proof -
  consider "x = claimed_row r t until" | "x \<in> set (outbox d)" "x \<noteq> r" using x by (auto simp: with_row_def split: if_splits)
  then show ?thesis
  proof cases
    case 2
    then have "ob_id x \<noteq> ob_id r" using inv_same_id [OF inv 2(1) r] by blast
    then show ?thesis by (auto simp: owns_def claimed_row_def)
  qed (use t until in \<open>simp add: owns_def claimed_row_def\<close>)
qed

lemma claimed_not_other:
  assumes inv: "outbox_inv d" and r: "r \<in> set (outbox d)" and x: "x \<in> set (outbox d)" "x \<noteq> r"
  shows "x \<noteq> claimed_row r t until"
  using inv_same_id [OF inv x(1) r] x(2) by (auto simp: claimed_row_def)

lemma filter_map_row:
  assumes "outbox_inv d" "r \<in> set (outbox d)"
  shows "filter (\<lambda>x. x \<noteq> claimed_row r t until) (map (\<lambda>x. if x = r then claimed_row r t until else x) (outbox d)) = filter (\<lambda>x. x \<noteq> r) (outbox d)"
proof -
  have "filter (\<lambda>x. (if x = r then claimed_row r t until else x) \<noteq> claimed_row r t until) (outbox d) = filter (\<lambda>x. x \<noteq> r) (outbox d)"
    using claimed_not_other [OF assms] by (intro filter_cong) auto
  moreover have "map (\<lambda>x. if x = r then claimed_row r t until else x) (filter (\<lambda>x. x \<noteq> r) (outbox d)) = filter (\<lambda>x. x \<noteq> r) (outbox d)"
    by (rule map_idI) auto
  ultimately show ?thesis by (simp add: filter_map o_def)
qed

lemma complete_claimed:
  assumes inv: "outbox_inv d" and r: "r \<in> set (outbox d)" and t: "t \<noteq> []" and until: "now < until"
  shows "\<exists>n. n \<noteq> 0 \<and> q_CompleteOutbox (ob_id r) t now (with_row r (claimed_row r t until) d) = (n, d\<lparr>outbox := filter (\<lambda>x. x \<noteq> r) (outbox d)\<rparr>)"
proof -
  let ?d = "with_row r (claimed_row r t until) d"
  have own: "owns (ob_id r) t now x \<longleftrightarrow> x = claimed_row r t until" if "x \<in> set (outbox ?d)" for x
    using with_row_owner [OF inv r t until that] .
  have "filter (\<lambda>x. \<not> owns (ob_id r) t now x) (outbox ?d) = filter (\<lambda>x. x \<noteq> claimed_row r t until) (outbox ?d)"
    using own by (intro filter_cong) auto
  then have "filter (\<lambda>x. \<not> owns (ob_id r) t now x) (outbox ?d) = filter (\<lambda>x. x \<noteq> r) (outbox d)"
    using filter_map_row [OF inv r, of t until] by (simp add: with_row_def)
  moreover have "claimed_row r t until \<in> set (outbox ?d)" using r by (auto simp: with_row_def)
  then have "filter (owns (ob_id r) t now) (outbox ?d) \<noteq> []" using own by (auto simp: filter_empty_conv)
  ultimately show ?thesis by (simp add: q_CompleteOutbox_def) (simp add: with_row_def)
qed

text \<open>A success takes the row; what else it writes are other tables.\<close>

lemma settle_success_run:
  assumes inv: "outbox_inv d" and r: "r \<in> set (outbox d)" and t: "t \<noteq> []" and until: "now < until" and id: "it_ID it = ob_id r" "it_ClaimToken it = t"
  shows "\<exists>d'. dd_store (settleSuccess sqlite_store dp it now \<lparr>sq_faults = [], sq_db = with_row r (claimed_row r t until) d\<rparr>) = \<lparr>sq_faults = [], sq_db = d'\<rparr>
    \<and> outbox d' = filter (\<lambda>x. x \<noteq> r) (outbox d)
    \<and> dd_worked (settleSuccess sqlite_store dp it now \<lparr>sq_faults = [], sq_db = with_row r (claimed_row r t until) d\<rparr>)
    \<and> dd_err (settleSuccess sqlite_store dp it now \<lparr>sq_faults = [], sq_db = with_row r (claimed_row r t until) d\<rparr>) = None"
proof -
  obtain n where n: "n \<noteq> 0"
    "q_CompleteOutbox (ob_id r) t now (with_row r (claimed_row r t until) d) = (n, d\<lparr>outbox := filter (\<lambda>x. x \<noteq> r) (outbox d)\<rparr>)"
    using complete_claimed [OF inv r t until] by blast
  note ops = calm_exec_result [of "q_CompleteOutbox (ob_id r) t now", OF n(2)] calm_exec calm_transaction
  show ?thesis
    by (simp add: settleSuccess_def unlessLost_def sqlite_store_def id CompleteOutbox_def CompletePublisherRegistration_def
        CompletePublisherUnregistration_def ops requireClaimOwner_def guard_def n(1) return_ok_def fault_def passed_def
        q_SetPublisherRegistered_def q_ClearPublisherRegistration_def q_DeletePublisherSourceOperations_def q_DeletePublisherMappings_def Let_def)
qed

lemma dispatch_takes:
  assumes inv: "store_inv d" and some: "outbox d \<noteq> []" and hs: "HasStore dp" and t: "t \<noteq> []"
    and ready: "\<And>r. r \<in> set (outbox d) \<Longrightarrow> ob_avail r \<le> unix now \<and> unclaimed now r \<and> accepted dp env net (queue_entry r)"
  defines "res \<equiv> DispatchOne sqlite_store dp env (Some t) now net (\<lambda>s. s) \<lparr>sq_faults = [], sq_db = d\<rparr>"
  shows "\<exists>d'. dd_store res = \<lparr>sq_faults = [], sq_db = d'\<rparr> \<and> store_inv d' \<and> (\<exists>r \<in> set (outbox d). outbox d' = filter (\<lambda>x. x \<noteq> r) (outbox d))
    \<and> dd_worked res \<and> dd_err res = None"
proof -
  have oinv: "outbox_inv d" using inv by (simp add: store_inv_def)
  obtain r where r: "r \<in> set (outbox d)" "claimable_ids now (unix now) 1 d = [ob_id r]"
    using claim_one [OF oinv _ some, of now] ready by blast
  have lease: "0 < leaseOf dp" by (simp add: leaseOf_def)
  let ?it = "(outboxItem r)\<lparr>it_ClaimToken := t, it_ClaimedUntil := now + leaseOf dp\<rparr>"
  have it: "it_ID ?it = ob_id r" "it_ClaimToken ?it = t" "item_entry ?it = queue_entry r"
    by (simp_all add: outboxItem_def item_entry_def queue_entry_def)
  have ok: "deliver dp env net ?it = None" using ready [OF r(1)] unfolding deliver_accepted it(3) by blast
  have run: "res = settleSuccess sqlite_store dp ?it now \<lparr>sq_faults = [], sq_db = with_row r (claimed_row r t (now + leaseOf dp)) d\<rparr>"
    unfolding res_def DispatchOne_def using claim_run [OF oinv r(1) _ r(2) lease, of t] ready [OF r(1)] hs ok
    by (simp add: sqlite_store_def)
  have "now < now + leaseOf dp" using lease by simp
  from settle_success_run [OF oinv r(1) t this it(1,2), of dp]
  obtain d' where d': "dd_store res = \<lparr>sq_faults = [], sq_db = d'\<rparr>" "outbox d' = filter (\<lambda>x. x \<noteq> r) (outbox d)"
    "dd_worked res" "dd_err res = None" unfolding run by blast
  have "sqlite.polite (Some t) (\<lambda>s. s)" unfolding sqlite.polite_def by simp
  from sqlite.dispatch_step [OF _ _ this, of "\<lparr>sq_faults = [], sq_db = d\<rparr>" dp env now net] inv t
  have "store_inv (sq_db (dd_store res))" unfolding res_def by auto
  then show ?thesis using d' r(1) by auto
qed

definition draining :: "Dispatcher \<Rightarrow> nostr_env \<Rightarrow> bridge_db \<Rightarrow> round_input \<Rightarrow> bool" where
  "draining dp env d i \<longleftrightarrow> in_before i = [] \<and> in_during i = [] \<and> (\<exists>t. in_token i = Some t \<and> t \<noteq> [])
     \<and> list_all (\<lambda>r. ob_avail r \<le> unix (in_now i) \<and> unclaimed (in_now i) r \<and> accepted dp env (in_net i) (queue_entry r)) (outbox d)"

lemma draining_subset: "draining dp env d i \<Longrightarrow> set (outbox d') \<subseteq> set (outbox d) \<Longrightarrow> draining dp env d' i"
  unfolding draining_def list_all_iff by blast

lemma run_drains:
  assumes "store_inv d" "HasStore dp" "list_all (draining dp env d) ins" "length ins = length (outbox d)"
  shows "\<exists>d'. Run sqlite_store dp env (map (bridge_round env) ins) \<lparr>sq_faults = [], sq_db = d\<rparr> = (StillRunning, \<lparr>sq_faults = [], sq_db = d'\<rparr>)
    \<and> outbox d' = []"
  using assms
proof (induction ins arbitrary: d)
  case (Cons i ins)
  have i: "in_before i = []" "in_during i = []" using Cons.prems(3) by (auto simp: draining_def)
  obtain t where t: "in_token i = Some t" "t \<noteq> []" using Cons.prems(3) by (auto simp: draining_def)
  have ready: "ob_avail r \<le> unix (in_now i) \<and> unclaimed (in_now i) r \<and> accepted dp env (in_net i) (queue_entry r)" if "r \<in> set (outbox d)" for r
    using Cons.prems(3) that by (auto simp: draining_def list_all_iff)
  have "outbox d \<noteq> []" using Cons.prems(4) by auto
  from dispatch_takes [OF Cons.prems(1) this Cons.prems(2) t(2) ready]
  obtain d1 r where step: "dd_store (DispatchOne sqlite_store dp env (Some t) (in_now i) (in_net i) (\<lambda>s. s) \<lparr>sq_faults = [], sq_db = d\<rparr>) = \<lparr>sq_faults = [], sq_db = d1\<rparr>"
    "dd_worked (DispatchOne sqlite_store dp env (Some t) (in_now i) (in_net i) (\<lambda>s. s) \<lparr>sq_faults = [], sq_db = d\<rparr>)"
    "dd_err (DispatchOne sqlite_store dp env (Some t) (in_now i) (in_net i) (\<lambda>s. s) \<lparr>sq_faults = [], sq_db = d\<rparr>) = None"
    and d1: "store_inv d1" "r \<in> set (outbox d)" "outbox d1 = filter (\<lambda>x. x \<noteq> r) (outbox d)" by blast
  have "distinct (outbox d)" using Cons.prems(1) by (simp add: store_inv_def outbox_inv_def distinct_map)
  then have "length (outbox d1) = length (outbox d) - 1"
    using d1(2) by (simp add: d1(3) length_without)
  then have "length ins = length (outbox d1)" using Cons.prems(4) by simp
  moreover have "list_all (draining dp env d1) ins"
    using Cons.prems(3) d1(3) draining_subset [of dp env d _ d1] by (auto simp: list_all_iff)
  ultimately show ?case using Cons.IH [OF d1(1) Cons.prems(2)] step i t by (simp add: bridge_round_def)
qed simp

text \<open>C32. A relay that accepts everything empties the outbox: from any reachable database whose items
  are all due and unclaimed, one round per item, in each of which the relay accepts what is asked
  of it and no statement fails, ends with an empty outbox and the worker still running.\<close>

theorem outbox_drains:
  assumes "HasStore dp" "list_all (draining dp env (run_ops env ops empty_db)) ins" "length ins = length (outbox (run_ops env ops empty_db))"
  shows "\<exists>d'. Run sqlite_store dp env (map (bridge_round env) ins) \<lparr>sq_faults = [], sq_db = run_ops env ops empty_db\<rparr>
      = (StillRunning, \<lparr>sq_faults = [], sq_db = d'\<rparr>) \<and> outbox d' = []"
  by (rule run_drains [OF run_ops_inv [OF store_inv_empty] assms])


definition drain_round :: round_input where
  "drain_round = \<lparr>in_before = [], in_token = Some ''t'', in_now = 0, in_net = (\<lambda>_. None), in_during = [], in_cancelled = False\<rparr>"

theorem outbox_drains_witness:
  "\<exists>d'. Run sqlite_store sample_dispatcher publish_env (map (bridge_round publish_env) [drain_round, drain_round])
     \<lparr>sq_faults = [], sq_db = run_ops publish_env [(OpEnqueueOutbox sample_allow, []), (OpEnqueueOutbox sample_publish, [])] empty_db\<rparr>
      = (StillRunning, \<lparr>sq_faults = [], sq_db = d'\<rparr>) \<and> outbox d' = []"
proof -
  let ?d = "run_ops publish_env [(OpEnqueueOutbox sample_allow, []), (OpEnqueueOutbox sample_publish, [])] empty_db"
  have "list_all (\<lambda>r. ob_avail r \<le> unix (in_now drain_round) \<and> unclaimed (in_now drain_round) r
      \<and> accepted sample_dispatcher publish_env (in_net drain_round) (queue_entry r)) (outbox ?d)" by code_simp
  then have "draining sample_dispatcher publish_env ?d drain_round" by (simp add: draining_def drain_round_def)
  moreover have "length (outbox ?d) = 2" by code_simp
  ultimately show ?thesis
    using outbox_drains [of sample_dispatcher publish_env "[(OpEnqueueOutbox sample_allow, []), (OpEnqueueOutbox sample_publish, [])]"
        "[drain_round, drain_round]"]
    by (simp add: sample_dispatcher_def)
qed

subsection \<open>A delivery that fails\<close>

definition failed_row :: "OutboxRow \<Rightarrow> int \<Rightarrow> string \<Rightarrow> OutboxRow" where
  "failed_row r avail err = r\<lparr>ob_attempts := ob_attempts r + 1, ob_avail := avail, ob_lasterr := err, ob_token := [], ob_until := 0\<rparr>"

lemma retry_claimed:
  assumes inv: "outbox_inv d" and r: "r \<in> set (outbox d)" and t: "t \<noteq> []" and until: "now < until"
  shows "\<exists>n. n \<noteq> 0 \<and> q_RetryOutbox avail err (ob_id r) t now (with_row r (claimed_row r t until) d) = (n, with_row r (failed_row r avail err) d)"
proof -
  let ?d = "with_row r (claimed_row r t until) d"
  have own: "owns (ob_id r) t now x \<longleftrightarrow> x = claimed_row r t until" if "x \<in> set (outbox ?d)" for x
    using with_row_owner [OF inv r t until that] .
  define g where "g = (\<lambda>x. if owns (ob_id r) t now x then failed_row x avail err else x)"
  have "g (if x = r then claimed_row r t until else x) = (if x = r then failed_row r avail err else x)" if "x \<in> set (outbox d)" for x
  proof (cases "x = r")
    case True
    have "claimed_row r t until \<in> set (outbox ?d)" using r by (auto simp: with_row_def)
    then show ?thesis using own True by (simp add: g_def failed_row_def claimed_row_def)
  next
    case False
    then have "x \<in> set (outbox ?d)" using that by (auto simp: with_row_def)
    then show ?thesis using own False claimed_not_other [OF inv r that False] by (simp add: g_def)
  qed
  then have "map g (outbox ?d) = outbox (with_row r (failed_row r avail err) d)" by (simp add: with_row_def)
  moreover have "claimed_row r t until \<in> set (outbox ?d)" using r by (auto simp: with_row_def)
  then have "filter (owns (ob_id r) t now) (outbox ?d) \<noteq> []" using own by (auto simp: filter_empty_conv)
  then have "fst (q_RetryOutbox avail err (ob_id r) t now ?d) \<noteq> 0" by (simp add: q_RetryOutbox_def)
  moreover have "snd (q_RetryOutbox avail err (ob_id r) t now ?d) = ?d\<lparr>outbox := map g (outbox ?d)\<rparr>"
    by (simp add: q_RetryOutbox_def g_def failed_row_def)
  ultimately have "snd (q_RetryOutbox avail err (ob_id r) t now ?d) = with_row r (failed_row r avail err) d"
    by (simp add: with_row_def)
  with \<open>fst (q_RetryOutbox avail err (ob_id r) t now ?d) \<noteq> 0\<close> show ?thesis by (metis prod.collapse)
qed

text \<open>A delivery that fails costs nothing but time. When the item in turn cannot be delivered,
  the worker reports no error, and the only change of the database is in the row of that item: one
  more attempt, not due before the waiting time is over (the smaller of the maximum and the
  doubled base), the error on one line of at most 256 bytes, and the claim released.\<close>

theorem failed_delivery_waits:
  assumes "r \<in> set (outbox (run_ops env ops empty_db))" "unclaimed now r" "claimable_ids now (unix now) 1 (run_ops env ops empty_db) = [ob_id r]"
    and "HasStore dp" "t \<noteq> []" "BaseBackoff dp < 2 ^ 63" "MaxBackoff dp < 2 ^ 63"
    and "deliver dp env net (outboxItem r) = Some (DeliveryError msg)"
  shows "\<exists>text. DispatchOne sqlite_store dp env (Some t) now net (\<lambda>s. s) \<lparr>sq_faults = [], sq_db = run_ops env ops empty_db\<rparr> =
      \<lparr>dd_worked = True, dd_err = None, dd_observed = False, dd_store = \<lparr>sq_faults = [],
        sq_db = with_row r (failed_row r (unix (now + min (maxDelay dp) (baseDelay dp * 2 ^ nat (ob_attempts r)))) text) (run_ops env ops empty_db)\<rparr>\<rparr>
    \<and> length text \<le> 256 \<and> set text \<inter> {CHR 0x09, CHR 0x0A, CHR 0x0B, CHR 0x0C, CHR 0x0D} = {}"
proof -
  define d where "d = run_ops env ops empty_db"
  have inv: "outbox_inv d" using run_ops_inv [OF store_inv_empty] by (simp add: store_inv_def d_def)
  have lease: "0 < leaseOf dp" "now < now + leaseOf dp" by (simp_all add: leaseOf_def)
  let ?it = "(outboxItem r)\<lparr>it_ClaimToken := t, it_ClaimedUntil := now + leaseOf dp\<rparr>"
  let ?av = "unix (now + backoff dp (ob_attempts r))"
  have err: "deliver dp env net ?it = Some (DeliveryError msg)" using assms(8) by (simp add: deliver_def)
  have it: "it_ID ?it = ob_id r" "it_ClaimToken ?it = t" "it_Attempts ?it = ob_attempts r" by (simp_all add: outboxItem_def)
  have claim: "ClaimOutbox (Some t) now (leaseOf dp) 1 \<lparr>sq_faults = [], sq_db = d\<rparr> =
      (Inr [?it], \<lparr>sq_faults = [], sq_db = with_row r (claimed_row r t (now + leaseOf dp)) d\<rparr>)"
    using claim_run [OF inv _ _ _ lease(1)] assms(1,2,3) by (simp add: d_def)
  obtain n where n: "n \<noteq> 0" "q_RetryOutbox ?av (sanitize (DeliveryError msg)) (ob_id r) t now (with_row r (claimed_row r t (now + leaseOf dp)) d)
      = (n, with_row r (failed_row r ?av (sanitize (DeliveryError msg))) d)"
    using retry_claimed [OF inv assms(1) [folded d_def] assms(5) lease(2)] by blast
  have "RetryOutbox (ob_id r) t now (now + backoff dp (ob_attempts r)) (sanitize (DeliveryError msg))
      \<lparr>sq_faults = [], sq_db = with_row r (claimed_row r t (now + leaseOf dp)) d\<rparr>
      = (Inr (), \<lparr>sq_faults = [], sq_db = with_row r (failed_row r ?av (sanitize (DeliveryError msg))) d\<rparr>)"
    unfolding RetryOutbox_def calm_exec_result [of "q_RetryOutbox ?av (sanitize (DeliveryError msg)) (ob_id r) t now", OF n(2)]
    using n(1) by (simp add: requireClaimOwner_def guard_def return_ok_def)
  then have "DispatchOne sqlite_store dp env (Some t) now net (\<lambda>s. s) \<lparr>sq_faults = [], sq_db = d\<rparr> =
      \<lparr>dd_worked = True, dd_err = None, dd_observed = False, dd_store = \<lparr>sq_faults = [],
        sq_db = with_row r (failed_row r ?av (sanitize (DeliveryError msg))) d\<rparr>\<rparr>"
    using assms(4) claim err it by (simp add: DispatchOne_def settleFailure_def unlessLost_def sqlite_store_def)
  moreover have "backoff dp (ob_attempts r) = min (maxDelay dp) (baseDelay dp * 2 ^ nat (ob_attempts r))"
    unfolding backoff_def using assms(6,7) by (intro backoffLoop_min) (simp_all add: baseDelay_def maxDelay_def)
  ultimately show ?thesis using sanitize_line [of "DeliveryError msg"] unfolding d_def by auto
qed

definition stuck_row :: OutboxRow where
  "stuck_row = \<lparr>ob_id = 1, ob_key = ''aa'', ob_seq = 1, ob_op = OutboxPublishEvent, ob_pubkey = ''aa'', ob_payload = ''note'', ob_attempts = 0,
     ob_avail = 0, ob_lasterr = [], ob_token = [], ob_until = 0\<rparr>"

theorem failed_delivery_waits_witness:
  "\<exists>text. DispatchOne sqlite_store sample_dispatcher publish_env (Some ''t'') 0 (\<lambda>_. Some (DeliveryError ''relay down'')) (\<lambda>s. s)
      \<lparr>sq_faults = [], sq_db = run_ops publish_env [(OpEnqueueOutbox sample_publish, [])] empty_db\<rparr> =
      \<lparr>dd_worked = True, dd_err = None, dd_observed = False, dd_store = \<lparr>sq_faults = [],
        sq_db = with_row stuck_row (failed_row stuck_row 1 text) (run_ops publish_env [(OpEnqueueOutbox sample_publish, [])] empty_db)\<rparr>\<rparr>"
proof -
  let ?ops = "[(OpEnqueueOutbox sample_publish, [])]"
  have rows: "outbox (run_ops publish_env ?ops empty_db) = [stuck_row]" by code_simp
  have ids: "claimable_ids 0 (unix 0) 1 (run_ops publish_env ?ops empty_db) = [ob_id stuck_row]" by code_simp
  have err: "deliver sample_dispatcher publish_env (\<lambda>_. Some (DeliveryError ''relay down'')) (outboxItem stuck_row) = Some (DeliveryError ''relay down'')"
    by code_simp
  have "unix (0 + min (maxDelay sample_dispatcher) (baseDelay sample_dispatcher * 2 ^ nat (ob_attempts stuck_row))) = 1" by code_simp
  then show ?thesis
    using failed_delivery_waits [OF _ _ ids _ _ _ _ err, of "''t''"] rows by (auto simp: sample_dispatcher_def unclaimed_def stuck_row_def)
qed

end
