(* ===== verification/Bridge_Nostrmap.thy ===== *)
theory Bridge_Nostrmap
  imports Bridge_Store
begin

text \<open>
  Source records as signed Nostr events (\<^verbatim>\<open>cmd/nostr-bridge/source\<close>,
  \<^verbatim>\<open>cmd/nostr-bridge/nostrmap\<close>). Key derivation (HKDF), public keys, signing and the JSON
  encoder are in packages outside the repository or in the standard library's encoders and are
  the fields of \<open>nostr_keys\<close>.
\<close>

record ActorIdentity =
  ai_Provider :: string
  ai_ID :: string

record Attachment =
  at_URL :: string
  at_MIMEType :: string
  at_Description :: string
  at_Blurhash :: string
  at_Width :: int
  at_Height :: int

record Profile =
  pf_Identity :: ActorIdentity
  pf_DisplayName :: string
  pf_Description :: string
  pf_AvatarURL :: string
  pf_ProfileURL :: string

record Post =
  po_ID :: string
  po_Author :: ActorIdentity
  po_SourceURL :: string
  po_Text :: string
  po_ReplyToID :: string
  po_ContentWarning :: string
  po_CreatedAt :: int
  po_Attachments :: "Attachment list"
  po_Links :: "string list"

record SourceList =
  sl_ID :: string
  sl_Title :: string
  sl_Description :: string
  sl_Members :: "ActorIdentity list"

record nostr_keys =
  hkdfKey :: "string \<Rightarrow> string \<Rightarrow> string option"
  publicHex :: "string \<Rightarrow> string"
  zeroPK :: string
  signEvent :: "string \<Rightarrow> NostrEvent \<Rightarrow> NostrEvent option"
  marshalStrings :: "(string, string) gomap \<Rightarrow> string option"

datatype map_error =
    ErrEmptySeed
  | ErrEmptyProvider
  | ErrEmptyActor
  | ErrDerive
  | ErrInvalidKey
  | ErrSign
  | ErrMarshalContent

subsection \<open>Keys\<close>

definition keyInfoPrefix :: string where
  "keyInfoPrefix = ''nostr-bridge/''"

definition DeriveActorKey :: "nostr_keys \<Rightarrow> string \<Rightarrow> ActorIdentity \<Rightarrow> map_error + string" where
  "DeriveActorKey ks seed ident =
     (if seed = [] then Inl ErrEmptySeed
      else if isBlank (ai_Provider ident) then Inl ErrEmptyProvider
      else if isBlank (ai_ID ident) then Inl ErrEmptyActor
      else
        case hkdfKey ks seed (keyInfoPrefix @ ai_Provider ident @ [CHR 0x00] @ ai_ID ident) of
          None \<Rightarrow> Inl ErrDerive
        | Some key \<Rightarrow> if publicHex ks key = zeroPK ks then Inl ErrInvalidKey else Inr key)"

definition DeriveKey :: "nostr_keys \<Rightarrow> string \<Rightarrow> string \<Rightarrow> map_error + string" where
  "DeriveKey ks seed did = DeriveActorKey ks seed \<lparr>ai_Provider = ''bluesky'', ai_ID = did\<rparr>"

definition signedEvent :: "nostr_keys \<Rightarrow> string \<Rightarrow> NostrEvent \<Rightarrow> map_error + NostrEvent" where
  "signedEvent ks key e = (case signEvent ks key e of None \<Rightarrow> Inl ErrSign | Some e' \<Rightarrow> Inr e')"

text \<open>An event before it is signed.\<close>

definition draft :: "int \<Rightarrow> int \<Rightarrow> string list list \<Rightarrow> string \<Rightarrow> NostrEvent" where
  "draft created kind tags content = \<lparr>ev_ID = [], ev_PubKey = [], ev_Kind = kind, ev_Tags = tags, ev_CreatedAt = created,
     ev_Content = content, ev_CheckID = False, ev_VerifySignature = False\<rparr>"

subsection \<open>Profiles and follows\<close>

definition ProfileEvent :: "nostr_keys \<Rightarrow> string \<Rightarrow> Profile \<Rightarrow> int \<Rightarrow> map_error + NostrEvent" where
  "ProfileEvent ks seed p created =
     (case DeriveActorKey ks seed (pf_Identity p) of
        Inl e \<Rightarrow> Inl e
      | Inr key \<Rightarrow>
          (case marshalStrings ks [(''name'', pf_DisplayName p), (''about'', pf_Description p), (''picture'', pf_AvatarURL p),
                  (''website'', pf_ProfileURL p)] of
             None \<Rightarrow> Inl ErrMarshalContent
           | Some content \<Rightarrow> signedEvent ks key (draft created 0 [] content)))"

definition identity_order :: "ActorIdentity \<Rightarrow> string \<times> string" where
  "identity_order i = (ai_Provider i, ai_ID i)"

fun pTagsOf :: "nostr_keys \<Rightarrow> string \<Rightarrow> ActorIdentity list \<Rightarrow> map_error + string list list" where
  "pTagsOf ks seed [] = Inr []"
| "pTagsOf ks seed (i # is) =
     (case DeriveActorKey ks seed i of
        Inl e \<Rightarrow> Inl e
      | Inr key \<Rightarrow> map_sum id (Cons [''p'', publicHex ks key]) (pTagsOf ks seed is))"

text \<open>The set of identities is a list without repetitions, in any order.\<close>

definition pTags :: "nostr_keys \<Rightarrow> string \<Rightarrow> ActorIdentity list \<Rightarrow> map_error + string list list" where
  "pTags ks seed ids = pTagsOf ks seed (sort_key identity_order ids)"

definition FollowEvent :: "nostr_keys \<Rightarrow> string \<Rightarrow> ActorIdentity \<Rightarrow> ActorIdentity list \<Rightarrow> int \<Rightarrow> map_error + NostrEvent" where
  "FollowEvent ks seed owner follows created =
     (case DeriveActorKey ks seed owner of
        Inl e \<Rightarrow> Inl e
      | Inr key \<Rightarrow>
          (case pTags ks seed follows of
             Inl e \<Rightarrow> Inl e
           | Inr tags \<Rightarrow> signedEvent ks key (draft created 3 tags [])))"

definition FollowSetEvent :: "nostr_keys \<Rightarrow> string \<Rightarrow> ActorIdentity \<Rightarrow> SourceList \<Rightarrow> int \<Rightarrow> map_error + NostrEvent" where
  "FollowSetEvent ks seed owner l created =
     (case DeriveActorKey ks seed owner of
        Inl e \<Rightarrow> Inl e
      | Inr key \<Rightarrow>
          (case pTags ks seed (sl_Members l) of
             Inl e \<Rightarrow> Inl e
           | Inr tags \<Rightarrow>
               signedEvent ks key (draft created 30000
                 ([[''d'', sl_ID l], [''title'', sl_Title l], [''description'', sl_Description l]] @ tags) [])))"

subsection \<open>Posts\<close>

text \<open>The text with one more line; \<open>n\<close> counts the lines added so far.\<close>

definition appendLine :: "nat \<Rightarrow> string \<Rightarrow> string \<Rightarrow> string" where
  "appendLine n content line =
     (if n > 0 then content @ [CHR 0x0A] else if content \<noteq> [] then content @ [CHR 0x0A, CHR 0x0A] else content) @ line"

text \<open>The loop over the links: links seen, tagged addresses, lines added, tags and text so far.\<close>

fun appendLinks :: "string list \<Rightarrow> string list \<Rightarrow> string list \<Rightarrow> nat \<Rightarrow> string list list \<Rightarrow> string \<Rightarrow> string list list \<times> string" where
  "appendLinks [] seen tagged n tags content = (tags, content)"
| "appendLinks (url # urls) seen tagged n tags content =
     (if url = [] \<or> url \<in> set seen then appendLinks urls seen tagged n tags content
      else
        let tags' = (if url \<in> set tagged then tags else tags @ [[''r'', url]]);
            tagged' = (if url \<in> set tagged then tagged else url # tagged)
        in if containsText content url then appendLinks urls (url # seen) tagged' n tags' content
           else appendLinks urls (url # seen) tagged' (Suc n) tags' (appendLine n content url))"

definition imeta :: "Attachment \<Rightarrow> string list" where
  "imeta a = [''imeta'', ''url '' @ at_URL a]
     @ (if at_MIMEType a \<noteq> [] then [''m '' @ at_MIMEType a] else [])
     @ (if at_Description a \<noteq> [] then [''alt '' @ at_Description a] else [])
     @ (if at_Blurhash a \<noteq> [] then [''blurhash '' @ at_Blurhash a] else [])
     @ (if at_Width a > 0 \<and> at_Height a > 0 then [''dim '' @ sprint (at_Width a) @ ''x'' @ sprint (at_Height a)] else [])"

fun appendImages :: "Attachment list \<Rightarrow> string list \<Rightarrow> nat \<Rightarrow> string list list \<Rightarrow> string \<Rightarrow> string list list \<times> string" where
  "appendImages [] seen n tags content = (tags, content)"
| "appendImages (a # as) seen n tags content =
     (if at_URL a = [] \<or> at_URL a \<in> set seen then appendImages as seen n tags content
      else appendImages as (at_URL a # seen) (Suc n) (tags @ [imeta a]) (appendLine n content (at_URL a)))"

text \<open>\<open>parents\<close> has, by source identifier, the event and the key of mapped posts.\<close>

definition postDraft :: "Post \<Rightarrow> (string, string \<times> string) gomap \<Rightarrow> NostrEvent" where
  "postDraft p parents =
     (let tags0 = [[''r'', po_SourceURL p]] @ (if po_ContentWarning p \<noteq> [] then [[''content-warning'', po_ContentWarning p]] else []);
          tags1 = (case mget parents (po_ReplyToID p) of
                     Some (pid, pk) \<Rightarrow> if po_ReplyToID p \<noteq> [] then tags0 @ [[''e'', pid, [], ''reply''], [''p'', pk]] else tags0
                   | None \<Rightarrow> tags0);
          (tags2, content1) = appendLinks (po_Links p) [] [po_SourceURL p] 0 tags1 (po_Text p);
          (tags3, content2) = appendImages (po_Attachments p) [] 0 tags2 content1
      in draft (unix (po_CreatedAt p)) 1 tags3 content2)"

definition PostEvent :: "nostr_keys \<Rightarrow> string \<Rightarrow> Post \<Rightarrow> (string, string \<times> string) gomap \<Rightarrow> map_error + NostrEvent" where
  "PostEvent ks seed p parents =
     (case DeriveActorKey ks seed (po_Author p) of
        Inl e \<Rightarrow> Inl e
      | Inr key \<Rightarrow> signedEvent ks key (postDraft p parents))"

subsection \<open>What a post carries\<close>

text \<open>The addresses of a list in order of first appearance, without empty ones.\<close>

fun firsts :: "string list \<Rightarrow> string list \<Rightarrow> string list" where
  "firsts [] seen = []"
| "firsts (u # us) seen = (if u = [] \<or> u \<in> set seen then firsts us seen else u # firsts us (u # seen))"

lemma firsts_spec: "distinct (firsts us seen) \<and> set (firsts us seen) = set us - set seen - {[]}"
  by (induction us seen rule: firsts.induct) auto

lemma appendLine_append: "\<exists>sep. appendLine n content line = content @ sep @ line"
  by (simp add: appendLine_def)

lemma contains_empty [simp]: "containsText s []"
  unfolding containsText_iff by (intro exI [of _ "[]"] exI [of _ s]) simp

lemma contains_append [simp]: "containsText (s @ t) t"
  unfolding containsText_iff by (intro exI [of _ s] exI [of _ "[]"]) simp

lemma contains_append2 [simp]: "containsText (s @ r @ t) t"
  unfolding append_assoc [symmetric] by (rule contains_append)

lemma contains_mono: "containsText s t \<Longrightarrow> containsText (s @ r) t"
  unfolding containsText_iff by (metis append.assoc)

definition rTags :: "string list list \<Rightarrow> string list" where
  "rTags tags = map (\<lambda>t. t ! 1) (filter (\<lambda>t. length t = 2 \<and> hd t = ''r'') tags)"

lemma appendLinks_spec:
  assumes "appendLinks urls seen tagged n tags content = (tags', content')"
    and "set seen \<subseteq> set tagged" "list_all (containsText content) seen"
  shows "(\<exists>rest. content' = content @ rest) \<and> list_all (containsText content') urls
    \<and> tags' = tags @ map (\<lambda>u. [''r'', u]) (firsts urls tagged)"
  using assms
proof (induction urls arbitrary: seen tagged n tags content)
  case (Cons url urls)
  show ?case
  proof (cases "url = [] \<or> url \<in> set seen")
    case True
    then have ih: "(\<exists>rest. content' = content @ rest) \<and> list_all (containsText content') urls
      \<and> tags' = tags @ map (\<lambda>u. [''r'', u]) (firsts urls tagged)" using Cons by simp
    have "containsText content url" using True Cons.prems(3) by (auto simp: list_all_iff)
    then have "containsText content' url" using ih contains_mono by blast
    moreover have "firsts (url # urls) tagged = firsts urls tagged" using True Cons.prems(2) by auto
    ultimately show ?thesis using ih by simp
  next
    case False
    define tags1 where "tags1 = (if url \<in> set tagged then tags else tags @ [[''r'', url]])"
    define tagged1 where "tagged1 = (if url \<in> set tagged then tagged else url # tagged)"
    define content1 where "content1 = (if containsText content url then content else appendLine n content url)"
    define n1 where "n1 = (if containsText content url then n else Suc n)"
    have run: "appendLinks urls (url # seen) tagged1 n1 tags1 content1 = (tags', content')"
      using Cons.prems(1) False by (simp add: tags1_def tagged1_def content1_def n1_def Let_def split: if_splits)
    obtain sep where sep: "appendLine n content url = content @ sep @ url" using appendLine_append by blast
    then have "\<exists>r. content1 = content @ r" by (cases "containsText content url") (auto simp: content1_def)
    then obtain r where r: "content1 = content @ r" by blast
    have c1: "containsText content1 url"
      by (cases "containsText content url") (auto simp: content1_def sep)
    have "list_all (containsText content1) (url # seen)" using c1 Cons.prems(3) by (auto simp: list_all_iff r contains_mono)
    moreover have "set (url # seen) \<subseteq> set tagged1" using Cons.prems(2) by (auto simp: tagged1_def)
    ultimately have ih: "(\<exists>rest. content' = content1 @ rest) \<and> list_all (containsText content') urls
      \<and> tags' = tags1 @ map (\<lambda>u. [''r'', u]) (firsts urls tagged1)" using Cons.IH [OF run] by blast
    then have "containsText content' url" using c1 contains_mono by blast
    then show ?thesis using ih False r by (auto simp: tags1_def tagged1_def)
  qed
qed simp

lemma appendImages_spec:
  assumes "appendImages as seen n tags content = (tags', content')" "list_all (containsText content) seen"
  shows "(\<exists>rest. content' = content @ rest) \<and> list_all (\<lambda>a. containsText content' (at_URL a)) as
    \<and> (\<exists>bs. tags' = tags @ map imeta bs \<and> map at_URL bs = firsts (map at_URL as) seen \<and> set bs \<subseteq> set as)"
  using assms
proof (induction as arbitrary: seen n tags content)
  case (Cons a as)
  show ?case
  proof (cases "at_URL a = [] \<or> at_URL a \<in> set seen")
    case True
    then have ih: "(\<exists>rest. content' = content @ rest) \<and> list_all (\<lambda>a. containsText content' (at_URL a)) as
      \<and> (\<exists>bs. tags' = tags @ map imeta bs \<and> map at_URL bs = firsts (map at_URL as) seen \<and> set bs \<subseteq> set as)" using Cons by simp
    have "containsText content (at_URL a)" using True Cons.prems(2) by (auto simp: list_all_iff)
    then have "containsText content' (at_URL a)" using ih contains_mono by blast
    then show ?thesis using ih True by auto
  next
    case False
    define content1 where "content1 = appendLine n content (at_URL a)"
    have run: "appendImages as (at_URL a # seen) (Suc n) (tags @ [imeta a]) content1 = (tags', content')"
      using Cons.prems(1) False by (simp add: content1_def)
    obtain r where r: "content1 = content @ r @ at_URL a" using appendLine_append [of n content "at_URL a"] by (auto simp: content1_def)
    have c1: "containsText content1 (at_URL a)" unfolding r by simp
    have "list_all (containsText content1) (at_URL a # seen)" using c1 Cons.prems(2) by (auto simp: list_all_iff r contains_mono)
    from Cons.IH [OF run this]
    obtain bs rest where ih: "content' = content1 @ rest" "list_all (\<lambda>a. containsText content' (at_URL a)) as"
      "tags' = (tags @ [imeta a]) @ map imeta bs" "map at_URL bs = firsts (map at_URL as) (at_URL a # seen)" "set bs \<subseteq> set as"
      by blast
    have "containsText content' (at_URL a)" using c1 ih(1) contains_mono by blast
    moreover have "tags' = tags @ map imeta (a # bs)" "map at_URL (a # bs) = firsts (map at_URL (a # as)) seen" "set (a # bs) \<subseteq> set (a # as)"
      using ih False by auto
    moreover have "content' = content @ (r @ at_URL a @ rest)" using ih(1) r by simp
    ultimately show ?thesis using ih(2) by (intro conjI) (blast, simp, blast)
  qed
qed simp

lemma rTags_append [simp]: "rTags (xs @ ys) = rTags xs @ rTags ys"
  by (simp add: rTags_def)

lemma rTags_links [simp]: "rTags (map (\<lambda>u. [''r'', u]) us) = us"
  by (induction us) (simp_all add: rTags_def)

lemma rTags_imeta [simp]: "rTags (map imeta as) = []"
  by (induction as) (simp_all add: rTags_def imeta_def)

definition replyTags :: "string list list \<Rightarrow> string list list" where
  "replyTags tags = filter (\<lambda>t. hd t = ''e'' \<or> hd t = ''p'') tags"

lemma replyTags_append [simp]: "replyTags (xs @ ys) = replyTags xs @ replyTags ys"
  by (simp add: replyTags_def)

lemma replyTags_other [simp]: "replyTags (map (\<lambda>u. [''r'', u]) us) = []" "replyTags (map imeta as) = []"
  by (simp_all add: replyTags_def imeta_def filter_empty_conv)

text \<open>What a note mirrors of a post. Its text starts with the text of the post and contains the
  address of every link and every attachment; its address tags are the address of the post
  followed by those of the links, each once and in order; there is one metadata tag per attached
  address; and it is tagged as a reply exactly when the post answers one that was mirrored.\<close>

theorem post_draft_complete:
  "(\<exists>rest. ev_Content (postDraft p parents) = po_Text p @ rest)
   \<and> list_all (containsText (ev_Content (postDraft p parents))) (po_Links p @ map at_URL (po_Attachments p))
   \<and> rTags (ev_Tags (postDraft p parents)) = po_SourceURL p # firsts (po_Links p) [po_SourceURL p]
   \<and> distinct (rTags (ev_Tags (postDraft p parents)))
   \<and> set (rTags (ev_Tags (postDraft p parents))) = {po_SourceURL p} \<union> (set (po_Links p) - {[]})
   \<and> (\<exists>as before. ev_Tags (postDraft p parents) = before @ map imeta as \<and> map at_URL as = firsts (map at_URL (po_Attachments p)) []
        \<and> set as \<subseteq> set (po_Attachments p))
   \<and> replyTags (ev_Tags (postDraft p parents)) =
       (case mget parents (po_ReplyToID p) of
          Some (pid, pk) \<Rightarrow> if po_ReplyToID p \<noteq> [] then [[''e'', pid, [], ''reply''], [''p'', pk]] else []
        | None \<Rightarrow> [])"
proof -
  define tags0 where "tags0 = [[''r'', po_SourceURL p]] @ (if po_ContentWarning p \<noteq> [] then [[''content-warning'', po_ContentWarning p]] else [])"
  define reply where "reply = (case mget parents (po_ReplyToID p) of
      Some (pid, pk) \<Rightarrow> if po_ReplyToID p \<noteq> [] then [[''e'', pid, [], ''reply''], [''p'', pk]] else [] | None \<Rightarrow> [])"
  obtain tags2 content1 where l: "appendLinks (po_Links p) [] [po_SourceURL p] 0 (tags0 @ reply) (po_Text p) = (tags2, content1)"
    by (metis prod.collapse)
  obtain tags3 content2 where a: "appendImages (po_Attachments p) [] 0 tags2 content1 = (tags3, content2)" by (metis prod.collapse)
  have tags1: "(case mget parents (po_ReplyToID p) of
        Some (pid, pk) \<Rightarrow> if po_ReplyToID p \<noteq> [] then tags0 @ [[''e'', pid, [], ''reply''], [''p'', pk]] else tags0
      | None \<Rightarrow> tags0) = tags0 @ reply" by (auto simp: reply_def split: option.split)
  have "postDraft p parents = draft (unix (po_CreatedAt p)) 1 tags3 content2"
    unfolding postDraft_def Let_def tags0_def [symmetric] tags1 l a prod.case ..
  then have e: "ev_Content (postDraft p parents) = content2" "ev_Tags (postDraft p parents) = tags3" by (simp_all add: draft_def)
  obtain r1 where l': "content1 = po_Text p @ r1" "list_all (containsText content1) (po_Links p)"
    "tags2 = (tags0 @ reply) @ map (\<lambda>u. [''r'', u]) (firsts (po_Links p) [po_SourceURL p])"
    using appendLinks_spec [OF l] by auto
  obtain r2 as where a': "content2 = content1 @ r2" "list_all (\<lambda>a. containsText content2 (at_URL a)) (po_Attachments p)"
    "tags3 = tags2 @ map imeta as" "map at_URL as = firsts (map at_URL (po_Attachments p)) []" "set as \<subseteq> set (po_Attachments p)"
    using appendImages_spec [OF a] by auto
  have r: "rTags tags0 = [po_SourceURL p]" "rTags reply = []" "replyTags tags0 = []" "replyTags reply = reply"
    by (auto simp: tags0_def reply_def rTags_def replyTags_def split: option.splits)
  have f: "distinct (firsts (po_Links p) [po_SourceURL p])" "set (firsts (po_Links p) [po_SourceURL p]) = set (po_Links p) - {po_SourceURL p} - {[]}"
    using firsts_spec [of "po_Links p" "[po_SourceURL p]"] by auto
  have tags: "rTags tags3 = po_SourceURL p # firsts (po_Links p) [po_SourceURL p]" "replyTags tags3 = reply"
    using r l'(3) a'(3) by simp_all
  have "list_all (containsText content2) (po_Links p @ map at_URL (po_Attachments p))"
    using l'(2) a'(1,2) contains_mono by (auto simp: list_all_iff)
  moreover have "\<exists>rest. content2 = po_Text p @ rest" using l'(1) a'(1) by simp
  moreover have "distinct (po_SourceURL p # firsts (po_Links p) [po_SourceURL p])"
    "set (po_SourceURL p # firsts (po_Links p) [po_SourceURL p]) = {po_SourceURL p} \<union> (set (po_Links p) - {[]})" using f by auto
  moreover have "\<exists>as before. tags3 = before @ map imeta as \<and> map at_URL as = firsts (map at_URL (po_Attachments p)) [] \<and> set as \<subseteq> set (po_Attachments p)"
    using a'(3,4,5) by blast
  ultimately show ?thesis unfolding e tags reply_def [symmetric] by blast
qed

end
