(* ===== verification/Bridge_Syncer.thy ===== *)
theory Bridge_Syncer
  imports Bridge_Nostrmap Bridge_Enqueue
begin

text \<open>
  The Bluesky synchroniser (\<^verbatim>\<open>cmd/nostr-bridge/syncer\<close>): repository events from the Jetstream
  service and pages of the timeline become signed notes in the outbox. Decoding of JSON records
  and messages, the hash of a record and the parsing of identifiers are fields of \<open>sync_env\<close>;
  observers, which only count, are left out.
\<close>

subsection \<open>Events and options\<close>

definition postCollection :: string where
  "postCollection = ''app.bsky.feed.post''"

definition repostCollection :: string where
  "repostCollection = ''app.bsky.feed.repost''"

definition jetstreamCursor :: string where
  "jetstreamCursor = ''jetstream_time_us''"

record Event =
  je_DID :: string
  je_Collection :: string
  je_RKey :: string
  je_CID :: string
  je_Operation :: string
  je_TimeUS :: int
  je_Record :: string

definition eventURI :: "Event \<Rightarrow> string" where
  "eventURI e = ''at://'' @ je_DID e @ ''/'' @ je_Collection e @ ''/'' @ je_RKey e"

record image_source =
  is_Alt :: string
  is_Link :: string
  is_MIMEType :: string
  is_AspectRatio :: "(int \<times> int) option"

datatype imageEmbed = ImageEmbed (ie_Images: "image_source list") (ie_Media: "imageEmbed option") (ie_External: string)

record Image =
  im_URL :: string
  im_MIMEType :: string
  im_Alt :: string
  im_Width :: int
  im_Height :: int

record BskyRecord =
  br_Text :: string
  br_CreatedAt :: int
  br_ReplyParent :: "string option"
  br_Subject :: string
  br_Embed :: imageEmbed
  br_Facets :: "(string \<times> string) list list"

record BskyPost =
  bp_URI :: string
  bp_AuthorDID :: string
  bp_Text :: string
  bp_CreatedAt :: int
  bp_ReplyToURI :: string
  bp_Images :: "Image list"
  bp_Links :: "string list"

record Page =
  pg_Posts :: "BskyPost list"
  pg_Cursor :: string

record SyncOptions =
  so_Scope :: SourceScope
  so_HasSource :: bool
  so_HasStore :: bool
  so_OutboxLimit :: int
  so_MasterSeed :: string
  so_Targets :: "string list option"
  so_TargetProvider :: "string list option"
  so_BackfillLimit :: int
  so_JetstreamURL :: string
  so_Rewind :: int

record sync_env =
  se_nostr :: nostr_env
  se_keys :: nostr_keys
  unmarshalRecord :: "string \<Rightarrow> BskyRecord option"
  unmarshalMessage :: "string \<Rightarrow> Event option"
  sha256hex :: "string \<Rightarrow> string"
  idFromHex :: "string \<Rightarrow> string option"
  parseURL :: "string \<Rightarrow> (string \<times> (string \<times> string) list) option"

datatype sync_error =
    SyncStore string store_error
  | SyncMap string map_error
  | SyncMsg string

type_synonym 'a sync = "sq \<Rightarrow> (sync_error + 'a) \<times> sq"

definition fromStore :: "string \<Rightarrow> 'a act \<Rightarrow> 'a sync" where
  "fromStore what m s = (case m s of (Inl e, s1) \<Rightarrow> (Inl (SyncStore what e), s1) | (Inr x, s1) \<Rightarrow> (Inr x, s1))"

definition sourceRef :: "SyncOptions \<Rightarrow> string \<Rightarrow> SourceRef" where
  "sourceRef opts uri = \<lparr>Scope = so_Scope opts, URI = uri\<rparr>"

definition targets :: "SyncOptions \<Rightarrow> string list" where
  "targets opts = (case so_TargetProvider opts of Some ts \<Rightarrow> ts | None \<Rightarrow> (case so_Targets opts of Some ts \<Rightarrow> ts | None \<Rightarrow> []))"

text \<open>The set to filter by, or nothing when there is no filter.\<close>

definition targetFilter :: "SyncOptions \<Rightarrow> string list option" where
  "targetFilter opts = (case so_TargetProvider opts of Some ts \<Rightarrow> Some ts | None \<Rightarrow> so_Targets opts)"

definition wanted :: "SyncOptions \<Rightarrow> string \<Rightarrow> bool" where
  "wanted opts did = (case targetFilter opts of Some ts \<Rightarrow> did \<in> set ts | None \<Rightarrow> True)"

definition New :: "SyncOptions \<Rightarrow> SyncOptions" where
  "New opts =
     opts\<lparr>so_BackfillLimit := (if so_BackfillLimit opts \<le> 0 then 100 else so_BackfillLimit opts),
          so_Rewind := (if so_Rewind opts \<le> 0 then 3000000000 else so_Rewind opts)\<rparr>"

definition outboxLimit :: "SyncOptions \<Rightarrow> int" where
  "outboxLimit opts = (if so_OutboxLimit opts \<le> 0 then 10000 else so_OutboxLimit opts)"

definition cursorUpdate :: "int \<Rightarrow> CursorUpdate option" where
  "cursorUpdate t = (if t > 0 then Some \<lparr>cu_Name = jetstreamCursor, cu_Value = sprint t\<rparr> else None)"

subsection \<open>Records\<close>

definition updateIdentity :: "sync_env \<Rightarrow> Event \<Rightarrow> string" where
  "updateIdentity env e =
     (if je_CID e \<noteq> [] then ''cid:'' @ je_CID e
      else ''time-us:'' @ sprint (je_TimeUS e) @ '':record:'' @ sha256hex env (je_Record e))"

fun externalURI :: "imageEmbed \<Rightarrow> string" where
  "externalURI (ImageEmbed imgs (Some m) ext) = (if ext \<noteq> [] then ext else externalURI m)"
| "externalURI (ImageEmbed imgs None ext) = ext"

definition imageExtension :: "string \<Rightarrow> string" where
  "imageExtension mime =
     (let m = toLower mime in
      if m = ''image/jpeg'' then ''jpeg''
      else if m = ''image/png'' then ''png''
      else if m = ''image/webp'' then ''webp''
      else if m = ''image/gif'' then ''gif''
      else [])"

definition jetstreamImage :: "string \<Rightarrow> image_source \<Rightarrow> Image option" where
  "jetstreamImage did src =
     (let ext = imageExtension (is_MIMEType src) in
      if is_Link src = [] \<or> ext = [] then None
      else Some \<lparr>im_URL = ''https://cdn.bsky.app/img/feed_fullsize/plain/'' @ did @ ''/'' @ is_Link src @ ''@'' @ ext,
        im_MIMEType = is_MIMEType src, im_Alt = is_Alt src,
        im_Width = (case is_AspectRatio src of Some (w, h) \<Rightarrow> w | None \<Rightarrow> 0),
        im_Height = (case is_AspectRatio src of Some (w, h) \<Rightarrow> h | None \<Rightarrow> 0)\<rparr>)"

fun jetstreamImages :: "string \<Rightarrow> imageEmbed \<Rightarrow> Image list" where
  "jetstreamImages did (ImageEmbed imgs (Some m) ext) = jetstreamImages did m"
| "jetstreamImages did (ImageEmbed imgs None ext) = List.map_filter (jetstreamImage did) imgs"

definition LinksFromFacetsAndExternal :: "(string \<times> string) list list \<Rightarrow> string \<Rightarrow> string list" where
  "LinksFromFacetsAndExternal facets ext =
     map snd (filter (\<lambda>(ty, uri). ty = ''app.bsky.richtext.facet#link'' \<and> uri \<noteq> []) (concat facets))
       @ (if ext \<noteq> [] then [ext] else [])"

definition blueskyIdentity :: "string \<Rightarrow> ActorIdentity" where
  "blueskyIdentity did = \<lparr>ai_Provider = ''bluesky'', ai_ID = did\<rparr>"

definition blueskyAttachments :: "Image list \<Rightarrow> Attachment list" where
  "blueskyAttachments = map (\<lambda>i. \<lparr>at_URL = im_URL i, at_MIMEType = im_MIMEType i, at_Description = im_Alt i, at_Blurhash = [],
     at_Width = im_Width i, at_Height = im_Height i\<rparr>)"

definition blueskyPostURL :: "string \<Rightarrow> string option" where
  "blueskyPostURL uri =
     (case cutPrefix uri ''at://'' of
        None \<Rightarrow> None
      | Some rest \<Rightarrow>
          (case splitChar (CHR ''/'') rest of
             [did, coll, rkey] \<Rightarrow>
               if did = [] \<or> coll \<noteq> postCollection \<or> rkey = [] then None
               else Some (''https://bsky.app/profile/'' @ did @ ''/post/'' @ rkey)
           | _ \<Rightarrow> None))"

subsection \<open>Publishing\<close>

definition enqueueMappedEvent :: "sync_env \<Rightarrow> SyncOptions \<Rightarrow> int \<Rightarrow> string \<Rightarrow> NostrEvent \<Rightarrow> string \<Rightarrow> int \<Rightarrow> string \<Rightarrow> unit sync" where
  "enqueueMappedEvent env opts now uri e payload cursor op =
     fromStore ''save mapped event and enqueue'' (EnqueueEvent (se_nostr env)
       \<lparr>ee_Mapping = \<lparr>em_Source = sourceRef opts uri, NostrEventID = ev_ID e, SourceKind = postCollection, AuthorPubKey = ev_PubKey e,
          em_UpdatedAt = unix now\<rparr>,
        ee_Event = \<lparr>rq_AggregateKey = ev_PubKey e, rq_Operation = OutboxPublishEvent, rq_PubKey = ev_PubKey e, rq_Payload = payload,
          rq_AvailableAt = now\<rparr>,
        ee_Limit = outboxLimit opts, ee_Cursor = cursorUpdate cursor, ee_SourceOperation = op\<rparr>)"

text \<open>The mapped parent of a reply, by its source address.\<close>

definition lookupParent :: "sync_env \<Rightarrow> SyncOptions \<Rightarrow> string \<Rightarrow> (string, string \<times> string) gomap sync" where
  "lookupParent env opts replyTo s =
     (if replyTo = [] then (Inr [], s)
      else
        case EventMappingBySourceURI (sourceRef opts replyTo) s of
          (Inr parent, s1) \<Rightarrow>
            (case (idFromHex env (NostrEventID parent), pubKeyHex (se_nostr env) (AuthorPubKey parent)) of
               (Some pid, Some pk) \<Rightarrow> (Inr [(replyTo, (pid, pk))], s1)
             | _ \<Rightarrow> (Inl (SyncMsg ''invalid persisted parent mapping''), s1))
        | (Inl e, s1) \<Rightarrow> if isNoRows e then (Inr [], s1) else (Inl (SyncStore ''lookup reply parent'' e), s1))"

definition blueskyPost :: "string \<Rightarrow> string \<Rightarrow> string \<Rightarrow> string \<Rightarrow> int \<Rightarrow> string \<Rightarrow> Image list \<Rightarrow> string list \<Rightarrow> Post" where
  "blueskyPost uri did url txt created replyTo images links =
     \<lparr>po_ID = uri, po_Author = blueskyIdentity did, po_SourceURL = url, po_Text = txt, po_ReplyToID = replyTo, po_ContentWarning = [],
      po_CreatedAt = created, po_Attachments = blueskyAttachments images, po_Links = links\<rparr>"

definition publishPost ::
    "sync_env \<Rightarrow> SyncOptions \<Rightarrow> int \<Rightarrow> string \<Rightarrow> string \<Rightarrow> string \<Rightarrow> int \<Rightarrow> string \<Rightarrow> Image list \<Rightarrow> string list \<Rightarrow> int \<Rightarrow> string \<Rightarrow> string option
      \<Rightarrow> unit sync" where
  "publishPost env opts now sourceURI did txt created replyTo images links cursor op mappedURI s =
     (if \<not> so_HasStore opts then (Inl (SyncMsg ''syncer store is required''), s)
      else
        case EventMappingBySourceURI (sourceRef opts sourceURI) s of
          (Inr _, s1) \<Rightarrow> (Inr (), s1)
        | (Inl e, s1) \<Rightarrow>
            if \<not> isNoRows e then (Inl (SyncStore ''lookup source event'' e), s1)
            else
              let uri = (case mappedURI of Some u \<Rightarrow> u | None \<Rightarrow> sourceURI) in
              (case lookupParent env opts replyTo s1 of
                 (Inl e, s2) \<Rightarrow> (Inl e, s2)
               | (Inr parents, s2) \<Rightarrow>
                   (case blueskyPostURL uri of
                      None \<Rightarrow> (Inl (SyncMsg ''map Bluesky post''), s2)
                    | Some url \<Rightarrow>
                        (case PostEvent (se_keys env) (so_MasterSeed opts) (blueskyPost uri did url txt created replyTo images links) parents of
                           Inl e \<Rightarrow> (Inl (SyncMap ''map Bluesky post'' e), s2)
                         | Inr e \<Rightarrow>
                             (case encodeEvent (se_nostr env) e of
                                None \<Rightarrow> (Inl (SyncMsg ''encode Nostr event''), s2)
                              | Some payload \<Rightarrow> enqueueMappedEvent env opts now sourceURI e payload cursor op s2)))))"

definition deletionDraft :: "int \<Rightarrow> string \<Rightarrow> string \<Rightarrow> NostrEvent" where
  "deletionDraft now ident content = draft (unix now) 5 [[''e'', ident]] content"

definition publishRequest :: "string \<Rightarrow> string \<Rightarrow> int \<Rightarrow> OutboxRequest" where
  "publishRequest pk payload now =
     \<lparr>rq_AggregateKey = pk, rq_Operation = OutboxPublishEvent, rq_PubKey = pk, rq_Payload = payload, rq_AvailableAt = now\<rparr>"

text \<open>The encoding of an event, an error of which is ignored.\<close>

definition payloadOf :: "sync_env \<Rightarrow> NostrEvent \<Rightarrow> string" where
  "payloadOf env e = (case encodeEvent (se_nostr env) e of Some p \<Rightarrow> p | None \<Rightarrow> [])"

definition enqueueReplacement ::
    "sync_env \<Rightarrow> SyncOptions \<Rightarrow> int \<Rightarrow> Event \<Rightarrow> string \<Rightarrow> string \<Rightarrow> int \<Rightarrow> string \<Rightarrow> Image list \<Rightarrow> string list \<Rightarrow> unit sync" where
  "enqueueReplacement env opts now src mappedURI txt created replyTo images links s =
     (case EventMappingBySourceURI (sourceRef opts (eventURI src)) s of
        (Inl e, s1) \<Rightarrow> (Inl (SyncStore ''lookup source event'' e), s1)
      | (Inr old, s1) \<Rightarrow>
          (case DeriveKey (se_keys env) (so_MasterSeed opts) (je_DID src) of
             Inl e \<Rightarrow> (Inl (SyncMap [] e), s1)
           | Inr key \<Rightarrow>
               (case idFromHex env (NostrEventID old) of
                  None \<Rightarrow> (Inl (SyncMsg ''invalid mapped event ID''), s1)
                | Some oldID \<Rightarrow>
                    (case signEvent (se_keys env) key (deletionDraft now oldID ''source record replaced'') of
                       None \<Rightarrow> (Inl (SyncMsg ''sign deletion event''), s1)
                     | Some deletion \<Rightarrow>
                         (case blueskyPostURL mappedURI of
                            None \<Rightarrow> (Inl (SyncMsg ''invalid Bluesky post URI''), s1)
                          | Some url \<Rightarrow>
                              (case PostEvent (se_keys env) (so_MasterSeed opts)
                                  (blueskyPost mappedURI (je_DID src) url txt created replyTo images links) [] of
                                 Inl e \<Rightarrow> (Inl (SyncMap [] e), s1)
                               | Inr replacement \<Rightarrow>
                                   let pk = ev_PubKey replacement in
                                      fromStore [] (EnqueueUpdate (se_nostr env)
                                        \<lparr>ue_Mapping = \<lparr>em_Source = sourceRef opts (eventURI src), NostrEventID = ev_ID replacement,
                                           SourceKind = postCollection, AuthorPubKey = pk, em_UpdatedAt = unix now\<rparr>,
                                         ue_Deletion = publishRequest pk (payloadOf env deletion) now,
                                         ue_Replacement = publishRequest pk (payloadOf env replacement) now,
                                         ue_SourceOperation = updateIdentity env src, ue_Limit = outboxLimit opts,
                                         ue_Cursor = cursorUpdate (je_TimeUS src)\<rparr>) s1))))))"

definition publishRecord :: "sync_env \<Rightarrow> SyncOptions \<Rightarrow> int \<Rightarrow> Event \<Rightarrow> unit sync" where
  "publishRecord env opts now e s =
     (case unmarshalRecord env (je_Record e) of
        None \<Rightarrow> (Inl (SyncMsg (''decode '' @ je_Collection e @ '' record'')), s)
      | Some r \<Rightarrow>
          let replyTo = (case br_ReplyParent r of Some u \<Rightarrow> u | None \<Rightarrow> []);
              postURI = (if je_Collection e = repostCollection then br_Subject r else eventURI e);
              images = jetstreamImages (je_DID e) (br_Embed r);
              links = LinksFromFacetsAndExternal (br_Facets r) (externalURI (br_Embed r))
          in if postURI = [] then (Inl (SyncMsg ''repost record has no subject URI''), s)
             else if je_Operation e = ''update'' \<and> so_HasStore opts
             then enqueueReplacement env opts now e postURI (br_Text r) (br_CreatedAt r) replyTo images links s
             else publishPost env opts now (eventURI e) (je_DID e) (br_Text r) (br_CreatedAt r) replyTo images links (je_TimeUS e)
                    (if je_Operation e = ''update'' then updateIdentity env e else []) (Some postURI) s)"

definition saveEventCursor :: "SyncOptions \<Rightarrow> int \<Rightarrow> unit sync" where
  "saveEventCursor opts t s =
     (if t > 0 then fromStore [] (SaveCursor (so_Scope opts) jetstreamCursor (sprint t)) s else (Inr (), s))"

definition deleteSource :: "sync_env \<Rightarrow> SyncOptions \<Rightarrow> int \<Rightarrow> string \<Rightarrow> string \<Rightarrow> int \<Rightarrow> unit sync" where
  "deleteSource env opts now uri did cursor s =
     (if \<not> so_HasStore opts then (Inl (SyncMsg ''syncer store is required''), s)
      else
        case EventMappingBySourceURI (sourceRef opts uri) s of
          (Inl e, s1) \<Rightarrow> if isNoRows e then saveEventCursor opts cursor s1 else (Inl (SyncStore ''lookup source event'' e), s1)
        | (Inr persisted, s1) \<Rightarrow>
            (case DeriveKey (se_keys env) (so_MasterSeed opts) did of
               Inl e \<Rightarrow> (Inl (SyncMap ''derive deletion key'' e), s1)
             | Inr key \<Rightarrow>
                 (case idFromHex env (NostrEventID persisted) of
                    None \<Rightarrow> (Inl (SyncMsg ''invalid mapped event ID''), s1)
                  | Some ident \<Rightarrow>
                      (case signEvent (se_keys env) key (deletionDraft now ident ''source record deleted'') of
                         None \<Rightarrow> (Inl (SyncMsg ''sign deletion event''), s1)
                       | Some deletion \<Rightarrow>
                           (case encodeEvent (se_nostr env) deletion of
                              None \<Rightarrow> (Inl (SyncMsg ''encode deletion event''), s1)
                            | Some payload \<Rightarrow>
                                fromStore [] (EnqueueDelete (se_nostr env)
                                  \<lparr>de_Source = sourceRef opts uri, de_Event = publishRequest (ev_PubKey deletion) payload now,
                                   de_Limit = outboxLimit opts, de_Cursor = cursorUpdate cursor\<rparr>) s1)))))"

definition Handle :: "sync_env \<Rightarrow> SyncOptions \<Rightarrow> int \<Rightarrow> Event \<Rightarrow> unit sync" where
  "Handle env opts now e s =
     (if je_Collection e \<noteq> postCollection \<and> je_Collection e \<noteq> repostCollection then (Inr (), s)
      else if \<not> wanted opts (je_DID e) then (Inr (), s)
      else if je_Operation e = ''create'' then
        if \<not> so_HasStore opts then (Inl (SyncMsg ''syncer store is required''), s)
        else
          case EventMappingBySourceURI (sourceRef opts (eventURI e)) s of
            (Inr _, s1) \<Rightarrow> saveEventCursor opts (je_TimeUS e) s1
          | (Inl err, s1) \<Rightarrow>
              if \<not> isNoRows err then (Inl (SyncStore ''lookup source event'' err), s1) else publishRecord env opts now e s1
      else if je_Operation e = ''update'' then
        if \<not> so_HasStore opts then (Inl (SyncMsg ''syncer store is required''), s)
        else
          case SourceOperationBySourceURI (sourceRef opts (eventURI e)) s of
            (Inr previous, s1) \<Rightarrow>
              if previous = updateIdentity env e then saveEventCursor opts (je_TimeUS e) s1 else publishRecord env opts now e s1
          | (Inl err, s1) \<Rightarrow>
              if \<not> isNoRows err then (Inl (SyncStore ''lookup source operation'' err), s1) else publishRecord env opts now e s1
      else if je_Operation e = ''delete'' then deleteSource env opts now (eventURI e) (je_DID e) (je_TimeUS e) s
      else (Inl (SyncMsg ''unsupported repository operation''), s))"

subsection \<open>Backfill\<close>

text \<open>The posts of a page: what remains of the limit, and whether it is used up.\<close>

fun backfillPosts :: "sync_env \<Rightarrow> SyncOptions \<Rightarrow> int \<Rightarrow> BskyPost list \<Rightarrow> int \<Rightarrow> (int \<times> bool) sync" where
  "backfillPosts env opts now [] remaining s = (Inr (remaining, False), s)"
| "backfillPosts env opts now (p # ps) remaining s =
     (if \<not> wanted opts (bp_AuthorDID p) then backfillPosts env opts now ps remaining s
      else
        case publishPost env opts now (bp_URI p) (bp_AuthorDID p) (bp_Text p) (bp_CreatedAt p) (bp_ReplyToURI p) (bp_Images p)
               (bp_Links p) 0 [] None s of
          (Inl e, s1) \<Rightarrow> (Inl e, s1)
        | (Inr _, s1) \<Rightarrow>
            if remaining - 1 = 0 then (Inr (0, True), s1) else backfillPosts env opts now ps (remaining - 1) s1)"

text \<open>\<open>timeline k\<close> answers the k-th request. Running out of fuel is \<open>None\<close>.\<close>

fun backfillLoop ::
    "sync_env \<Rightarrow> SyncOptions \<Rightarrow> int \<Rightarrow> (nat \<Rightarrow> string \<Rightarrow> int \<Rightarrow> Page option) \<Rightarrow> nat \<Rightarrow> nat \<Rightarrow> int \<Rightarrow> string \<Rightarrow> sq
      \<Rightarrow> ((sync_error + unit) \<times> sq) option" where
  "backfillLoop env opts now timeline 0 k remaining cursor s = None"
| "backfillLoop env opts now timeline (Suc fuel) k remaining cursor s =
     (if \<not> remaining > 0 then Some (Inr (), s)
      else
        case timeline k cursor remaining of
          None \<Rightarrow> Some (Inl (SyncMsg ''read timeline''), s)
        | Some page \<Rightarrow>
            (case backfillPosts env opts now (pg_Posts page) remaining s of
               (Inl e, s1) \<Rightarrow> Some (Inl e, s1)
             | (Inr (remaining', finished), s1) \<Rightarrow>
                 if finished then Some (Inr (), s1)
                 else if pg_Cursor page = [] \<or> pg_Cursor page = cursor then Some (Inr (), s1)
                 else backfillLoop env opts now timeline fuel (Suc k) remaining' (pg_Cursor page) s1))"

definition Backfill ::
    "sync_env \<Rightarrow> SyncOptions \<Rightarrow> int \<Rightarrow> (nat \<Rightarrow> string \<Rightarrow> int \<Rightarrow> Page option) \<Rightarrow> nat \<Rightarrow> sq \<Rightarrow> ((sync_error + unit) \<times> sq) option" where
  "Backfill env opts now timeline fuel s =
     (if \<not> so_HasSource opts then Some (Inl (SyncMsg ''syncer source is required''), s)
      else backfillLoop env opts now timeline fuel 0 (so_BackfillLimit opts) [] s)"

subsection \<open>The stream\<close>

definition Decode :: "sync_env \<Rightarrow> string \<Rightarrow> sync_error + Event" where
  "Decode env message =
     (case unmarshalMessage env message of
        None \<Rightarrow> Inl (SyncMsg ''decode Jetstream message'')
      | Some e \<Rightarrow>
          if je_DID e = [] \<or> je_Collection e = [] \<or> je_RKey e = []
          then Inl (SyncMsg ''decode Jetstream message: missing commit identity'')
          else Inr e)"

datatype stream_end = StreamOpen | ReadFailed | StreamError sync_error

text \<open>What a connection reads, one entry per call, a failed read being the last one.\<close>

fun consume :: "sync_env \<Rightarrow> SyncOptions \<Rightarrow> int \<Rightarrow> string option list \<Rightarrow> sq \<Rightarrow> stream_end \<times> sq" where
  "consume env opts now [] s = (StreamOpen, s)"
| "consume env opts now (None # rs) s = (ReadFailed, s)"
| "consume env opts now (Some message # rs) s =
     (case Decode env message of
        Inl e \<Rightarrow> (StreamError e, s)
      | Inr e \<Rightarrow>
          (case Handle env opts now e s of
             (Inl err, s1) \<Rightarrow> (StreamError err, s1)
           | (Inr _, s1) \<Rightarrow> consume env opts now rs s1))"

text \<open>The microseconds of a duration, and the query of a subscription: the parameters of the
  address, the wanted accounts in order, the collections, and the cursor moved back.\<close>

definition microseconds :: "int \<Rightarrow> int" where
  "microseconds d = d div 1000"

definition setParam :: "string \<Rightarrow> string \<Rightarrow> (string \<times> string) list \<Rightarrow> (string \<times> string) list" where
  "setParam k v q = filter (\<lambda>(k', _). k' \<noteq> k) q @ [(k, v)]"

definition rewound :: "SyncOptions \<Rightarrow> int \<Rightarrow> int" where
  "rewound opts cursor = max 0 (cursor - microseconds (so_Rewind opts))"

definition Subscription :: "sync_env \<Rightarrow> SyncOptions \<Rightarrow> string \<Rightarrow> (string \<times> (string \<times> string) list) sync" where
  "Subscription env opts endpoint s =
     (if \<not> so_HasStore opts then (Inl (SyncMsg ''syncer store is required''), s)
      else if targets opts = [] then (Inl (SyncMsg ''Jetstream subscription requires at least one target DID''), s)
      else
        case parseURL env endpoint of
          None \<Rightarrow> (Inl (SyncMsg ''parse Jetstream URL''), s)
        | Some (base, q0) \<Rightarrow>
            let q1 = q0 @ map (\<lambda>did. (''wantedDids'', did)) (sort (remdups (targets opts)))
                       @ [(''wantedCollections'', postCollection), (''wantedCollections'', repostCollection)];
                finish = (\<lambda>raw s1.
                  if raw = [] then (Inr (base, q1), s1)
                  else
                    case parseInt64 raw of
                      None \<Rightarrow> (Inl (SyncMsg ''parse Jetstream cursor''), s1)
                    | Some cursor \<Rightarrow>
                        if cursor > 0 then (Inr (base, setParam ''cursor'' (sprint (rewound opts cursor)) q1), s1) else (Inr (base, q1), s1))
            in case Cursor (so_Scope opts) jetstreamCursor s of
                 (Inl e, s1) \<Rightarrow> if isNoRows e then finish [] s1 else (Inl (SyncStore ''load Jetstream cursor'' e), s1)
               | (Inr raw, s1) \<Rightarrow> finish raw s1)"

text \<open>The connections of a run, one entry per attempt: nothing when it cannot connect, otherwise
  what is read on it. A change of the targets only ends the reading. After the last entry the
  context is cancelled.\<close>

fun streamLoop :: "sync_env \<Rightarrow> SyncOptions \<Rightarrow> int \<Rightarrow> string option list option list \<Rightarrow> unit sync" where
  "streamLoop env opts now [] s = (Inr (), s)"
| "streamLoop env opts now (attempt # attempts) s =
     (case Subscription env opts (so_JetstreamURL opts) s of
        (Inl e, s1) \<Rightarrow> (Inl e, s1)
      | (Inr _, s1) \<Rightarrow>
          (case attempt of
             None \<Rightarrow> streamLoop env opts now attempts s1
           | Some reads \<Rightarrow> streamLoop env opts now attempts (snd (consume env opts now reads s1))))"

definition RunSyncer ::
    "sync_env \<Rightarrow> SyncOptions \<Rightarrow> int \<Rightarrow> (nat \<Rightarrow> string \<Rightarrow> int \<Rightarrow> Page option) \<Rightarrow> nat \<Rightarrow> string option list option list \<Rightarrow> sq
      \<Rightarrow> ((sync_error + unit) \<times> sq) option" where
  "RunSyncer env opts now timeline fuel attempts s =
     (case Backfill env opts now timeline fuel s of
        None \<Rightarrow> None
      | Some (Inl e, s1) \<Rightarrow> Some (Inl e, s1)
      | Some (Inr _, s1) \<Rightarrow> if isBlank (so_JetstreamURL opts) then Some (Inr (), s1) else Some (streamLoop env opts now attempts s1))"

subsection \<open>What an event leaves behind\<close>

text \<open>The database after an event was applied: its mapping or its absence, the identity of an
  update, and the cursor.\<close>

definition relevant :: "SyncOptions \<Rightarrow> Event \<Rightarrow> bool" where
  "relevant opts e \<longleftrightarrow> (je_Collection e = postCollection \<or> je_Collection e = repostCollection) \<and> wanted opts (je_DID e)"

abbreviation evRef :: "SyncOptions \<Rightarrow> Event \<Rightarrow> SourceRef" where
  "evRef opts e \<equiv> sourceRef opts (eventURI e)"

definition applied :: "sync_env \<Rightarrow> SyncOptions \<Rightarrow> Event \<Rightarrow> bridge_db \<Rightarrow> bool" where
  "applied env opts e d \<longleftrightarrow> so_HasStore opts
     \<and> (if je_Operation e = ''delete'' then q_EventMappingBySourceURI (evRef opts e) d = None
        else if je_Operation e = ''update'' then q_SourceOperationBySourceURI (evRef opts e) d = Some (updateIdentity env e)
        else je_Operation e = ''create'' \<and> q_EventMappingBySourceURI (evRef opts e) d \<noteq> None)
     \<and> (je_TimeUS e > 0 \<longrightarrow> q_Cursor (so_Scope opts) jetstreamCursor d = Some (sprint (je_TimeUS e)))"

text \<open>The note of a record, with the parent its reply points to when that one is mapped.\<close>

definition recordURI :: "Event \<Rightarrow> BskyRecord \<Rightarrow> string" where
  "recordURI e r = (if je_Collection e = repostCollection then br_Subject r else eventURI e)"

definition recordPost :: "Event \<Rightarrow> BskyRecord \<Rightarrow> string \<Rightarrow> Post" where
  "recordPost e r url =
     blueskyPost (recordURI e r) (je_DID e) url (br_Text r) (br_CreatedAt r)
       (case br_ReplyParent r of Some u \<Rightarrow> u | None \<Rightarrow> []) (jetstreamImages (je_DID e) (br_Embed r))
       (LinksFromFacetsAndExternal (br_Facets r) (externalURI (br_Embed r)))"

definition parentsIn :: "sync_env \<Rightarrow> SyncOptions \<Rightarrow> bridge_db \<Rightarrow> string \<Rightarrow> (string, string \<times> string) gomap" where
  "parentsIn env opts d replyTo =
     (if replyTo = [] then []
      else
        case q_EventMappingBySourceURI (sourceRef opts replyTo) d of
          None \<Rightarrow> []
        | Some parent \<Rightarrow> [(replyTo, (the (idFromHex env (NostrEventID parent)), the (pubKeyHex (se_nostr env) (AuthorPubKey parent))))])"

definition noteOf :: "sync_env \<Rightarrow> SyncOptions \<Rightarrow> Event \<Rightarrow> (string \<Rightarrow> (string, string \<times> string) gomap) \<Rightarrow> EventMapping \<Rightarrow> string \<Rightarrow> bool" where
  "noteOf env opts e parents m p \<longleftrightarrow> (\<exists>r url ev. unmarshalRecord env (je_Record e) = Some r
     \<and> PostEvent (se_keys env) (so_MasterSeed opts) (recordPost e r url) (parents (po_ReplyToID (recordPost e r url))) = Inr ev
     \<and> blueskyPostURL (recordURI e r) = Some url
     \<and> NostrEventID m = ev_ID ev \<and> AuthorPubKey m = ev_PubKey ev \<and> p = payloadOf env ev)"

text \<open>The request to delete the note of a mapping, signed by the author of the record.\<close>

definition deletes :: "sync_env \<Rightarrow> SyncOptions \<Rightarrow> int \<Rightarrow> Event \<Rightarrow> string \<Rightarrow> EventMapping \<Rightarrow> string \<Rightarrow> bool" where
  "deletes env opts now e content old p \<longleftrightarrow> (\<exists>key i ev. DeriveKey (se_keys env) (so_MasterSeed opts) (je_DID e) = Inr key
     \<and> idFromHex env (NostrEventID old) = Some i \<and> signEvent (se_keys env) key (deletionDraft now i content) = Some ev
     \<and> p = payloadOf env ev)"

definition queuedFor :: "string \<Rightarrow> string list \<Rightarrow> bridge_db \<Rightarrow> bridge_db \<Rightarrow> bool" where
  "queuedFor pk payloads d d' \<longleftrightarrow> (\<forall>k. queue d' k = (if k = pk
     then queue d k @ (if q_PublisherRegisteredOrPending pk pk d then [] else [(OutboxAllowPublisher, pk, [])])
            @ map (\<lambda>p. (OutboxPublishEvent, k, p)) payloads
     else queue d k))"

text \<open>What an event adds to the outbox.\<close>

definition published :: "sync_env \<Rightarrow> SyncOptions \<Rightarrow> int \<Rightarrow> Event \<Rightarrow> bridge_db \<Rightarrow> bridge_db \<Rightarrow> bool" where
  "published env opts now e d d' \<longleftrightarrow>
     (if je_Operation e = ''delete'' then
        (case q_EventMappingBySourceURI (evRef opts e) d of
           None \<Rightarrow> queue d' = queue d
         | Some old \<Rightarrow> q_SourceOperationBySourceURI (evRef opts e) d' = None
             \<and> (\<exists>p. deletes env opts now e ''source record deleted'' old p \<and> queuedFor (AuthorPubKey old) [p] d d'))
      else if je_Operation e = ''update'' then
        if q_SourceOperationBySourceURI (evRef opts e) d = Some (updateIdentity env e) then queue d' = queue d
        else \<exists>old m p q. q_EventMappingBySourceURI (evRef opts e) d = Some old \<and> q_EventMappingBySourceURI (evRef opts e) d' = Some m
          \<and> deletes env opts now e ''source record replaced'' old p \<and> noteOf env opts e (\<lambda>_. []) m q \<and> queuedFor (AuthorPubKey m) [p, q] d d'
      else if q_EventMappingBySourceURI (evRef opts e) d \<noteq> None then queue d' = queue d
      else \<exists>m p. q_EventMappingBySourceURI (evRef opts e) d' = Some m \<and> noteOf env opts e (parentsIn env opts d) m p
          \<and> queuedFor (AuthorPubKey m) [p] d d')"

subsection \<open>Programs that fail without effect or succeed\<close>

definition settles :: "bridge_db \<Rightarrow> (bridge_db \<Rightarrow> bool) \<Rightarrow> (sync_error + 'a) \<times> sq \<Rightarrow> bool" where
  "settles d Q res \<longleftrightarrow> (case res of (Inl e, s') \<Rightarrow> sq_db s' = d | (Inr x, s') \<Rightarrow> Q (sq_db s'))"

lemma settles_simps [simp]: "settles d Q (Inl e, s') \<longleftrightarrow> sq_db s' = d" "settles d Q (Inr x, s') \<longleftrightarrow> Q (sq_db s')"
  by (simp_all add: settles_def)

lemma settles_mono: "settles d Q res \<Longrightarrow> (\<And>d'. Q d' \<Longrightarrow> Q' d') \<Longrightarrow> settles d Q' res"
  by (auto simp: settles_def split: prod.splits sum.splits)

lemma settles_fromStore:
  assumes "atomic_op m (\<lambda>_ d'. Q d') d" "sq_db s = d"
  shows "settles d Q (fromStore what m s)"
proof -
  obtain r s' where run: "m s = (r, s')" by (rule prod.exhaust)
  then show ?thesis using atomic_run [of m "\<lambda>_ d'. Q d'" s r s'] assms by (cases r) (auto simp: fromStore_def)
qed

lemmas lookup_cases = row_cases [of "''find bridge event by source URI''" "q_EventMappingBySourceURI ref" s for ref s, folded EventMappingBySourceURI_def, case_names found missing failed]
lemmas operation_cases = row_cases [of "''find source operation by source URI''" "q_SourceOperationBySourceURI ref" s for ref s, folded SourceOperationBySourceURI_def, case_names found missing failed]

subsection \<open>Each part of the handler\<close>

definition cursorKept :: "SyncOptions \<Rightarrow> int \<Rightarrow> bridge_db \<Rightarrow> bool" where
  "cursorKept opts t d \<longleftrightarrow> (t > 0 \<longrightarrow> q_Cursor (so_Scope opts) jetstreamCursor d = Some (sprint t))"

lemma entriesAdded_queuedFor: "rq_AggregateKey r = rq_PubKey r \<Longrightarrow> entriesAdded r ps d d' \<longleftrightarrow> queuedFor (rq_PubKey r) ps d d'"
  by (simp add: entriesAdded_def queuedFor_def registration_entries_def)

lemma settles_saveEventCursor:
  "sq_db s = d \<Longrightarrow> settles d (\<lambda>d'. cursorKept opts t d' \<and> queue d' = queue d \<and> bridge_events d' = bridge_events d
     \<and> source_operations d' = source_operations d) (saveEventCursor opts t s)"
  unfolding saveEventCursor_def SaveCursor_def saveCursor_def
  by (auto simp: cursorKept_def q_SaveCursor_def q_Cursor_def intro!: settles_fromStore atomic_exec queue_cong)

lemma settles_enqueueMappedEvent:
  assumes "outbox_inv d" "sq_db s = d"
  shows "settles d (\<lambda>d'. \<exists>m. q_EventMappingBySourceURI (sourceRef opts uri) d' = Some m \<and> NostrEventID m = ev_ID e
      \<and> AuthorPubKey m = ev_PubKey e \<and> queuedFor (AuthorPubKey m) [payload] d d' \<and> cursorKept opts cursor d')
     (enqueueMappedEvent env opts now uri e payload cursor op s)"
  unfolding enqueueMappedEvent_def
proof (rule settles_fromStore [OF _ assms(2)], rule atomic_mono [OF enqueue_event_atomic [OF assms(1)]])
qed (auto simp: event_enqueued_def queuedFor_def registration_entries_def cursorKept_def cursorUpdate_def sourceRef_def dest!: cursor_read)

lemma updateIdentity_nonempty [simp]: "updateIdentity env e \<noteq> []"
  by (simp add: updateIdentity_def)

abbreviation recordReply :: "BskyRecord \<Rightarrow> string" where
  "recordReply r \<equiv> (case br_ReplyParent r of Some u \<Rightarrow> u | None \<Rightarrow> [])"

abbreviation recordImages :: "Event \<Rightarrow> BskyRecord \<Rightarrow> Image list" where
  "recordImages e r \<equiv> jetstreamImages (je_DID e) (br_Embed r)"

abbreviation recordLinks :: "BskyRecord \<Rightarrow> string list" where
  "recordLinks r \<equiv> LinksFromFacetsAndExternal (br_Facets r) (externalURI (br_Embed r))"

lemma settles_replacement:
  assumes inv: "outbox_inv d" and d: "sq_db s = d" and r: "unmarshalRecord env (je_Record e) = Some r"
  shows "settles d (\<lambda>d'. (\<exists>old m p q. q_EventMappingBySourceURI (evRef opts e) d = Some old \<and> q_EventMappingBySourceURI (evRef opts e) d' = Some m
      \<and> deletes env opts now e ''source record replaced'' old p \<and> noteOf env opts e (\<lambda>_. []) m q \<and> queuedFor (AuthorPubKey m) [p, q] d d')
      \<and> q_SourceOperationBySourceURI (evRef opts e) d' = Some (updateIdentity env e) \<and> cursorKept opts (je_TimeUS e) d')
     (enqueueReplacement env opts now e (recordURI e r) (br_Text r) (br_CreatedAt r) (recordReply r) (recordImages e r) (recordLinks r) s)"
    (is "settles d ?Q _")
proof (cases rule: lookup_cases [of "evRef opts e" s])
  case (found old s1)
  have "settles d ?Q (fromStore [] (EnqueueUpdate (se_nostr env)
      \<lparr>ue_Mapping = \<lparr>em_Source = evRef opts e, NostrEventID = ev_ID rep, SourceKind = postCollection, AuthorPubKey = ev_PubKey rep,
         em_UpdatedAt = unix now\<rparr>,
       ue_Deletion = publishRequest (ev_PubKey rep) (payloadOf env del) now,
       ue_Replacement = publishRequest (ev_PubKey rep) (payloadOf env rep) now,
       ue_SourceOperation = updateIdentity env e, ue_Limit = outboxLimit opts, ue_Cursor = cursorUpdate (je_TimeUS e)\<rparr>) s1)"
    if sent: "DeriveKey (se_keys env) (so_MasterSeed opts) (je_DID e) = Inr key" "idFromHex env (NostrEventID old) = Some i"
      "signEvent (se_keys env) key (deletionDraft now i ''source record replaced'') = Some del" "blueskyPostURL (recordURI e r) = Some url"
      "PostEvent (se_keys env) (so_MasterSeed opts) (recordPost e r url) [] = Inr rep" for key i del url rep
  proof (rule settles_fromStore, rule atomic_mono [OF enqueue_update_atomic [OF inv]])
    fix x d' let ?m = "\<lparr>em_Source = evRef opts e, NostrEventID = ev_ID rep, SourceKind = postCollection, AuthorPubKey = ev_PubKey rep,
         em_UpdatedAt = unix now\<rparr>"
    assume u: "event_updated \<lparr>ue_Mapping = ?m,
       ue_Deletion = publishRequest (ev_PubKey rep) (payloadOf env del) now,
       ue_Replacement = publishRequest (ev_PubKey rep) (payloadOf env rep) now,
       ue_SourceOperation = updateIdentity env e, ue_Limit = outboxLimit opts, ue_Cursor = cursorUpdate (je_TimeUS e)\<rparr> d d'"
    have "deletes env opts now e ''source record replaced'' old (payloadOf env del)" using sent by (auto simp: deletes_def)
    moreover have "noteOf env opts e (\<lambda>_. []) ?m (payloadOf env rep)" using sent r by (auto simp: noteOf_def)
    moreover have "queuedFor (AuthorPubKey ?m) [payloadOf env del, payloadOf env rep] d d'"
      using u by (simp add: event_updated_def entriesAdded_queuedFor publishRequest_def)
    ultimately show "?Q d'" using u found(2) d
      by (auto simp: event_updated_def cursorKept_def cursorUpdate_def sourceRef_def dest!: cursor_read)
  qed (use found d in simp)
  then show ?thesis using found d
    by (auto simp: enqueueReplacement_def Let_def recordPost_def split: sum.split option.split)
qed (use d in \<open>auto simp: enqueueReplacement_def\<close>)

lemma lookupParent_reads:
  "\<exists>s1. sq_db s1 = sq_db s \<and> (lookupParent env opts replyTo s = (Inr (parentsIn env opts (sq_db s) replyTo), s1)
     \<or> (\<exists>e. lookupParent env opts replyTo s = (Inl e, s1)))"
proof (cases "replyTo = []")
  case True
  then show ?thesis by (auto simp: lookupParent_def parentsIn_def)
next
  case False
  then show ?thesis
    by (cases rule: lookup_cases [of "sourceRef opts replyTo" s]) (auto simp: lookupParent_def parentsIn_def split: option.splits)
qed

lemma recordPost_simps [simp]: "po_ID (recordPost e r url) = recordURI e r" "po_ReplyToID (recordPost e r url) = recordReply r"
  by (simp_all add: recordPost_def blueskyPost_def)

lemma settles_publishPost:
  assumes inv: "outbox_inv d" and d: "sq_db s = d" and r: "unmarshalRecord env (je_Record e) = Some r"
    and new: "q_EventMappingBySourceURI (evRef opts e) d = None"
  shows "settles d (\<lambda>d'. (\<exists>m p. q_EventMappingBySourceURI (evRef opts e) d' = Some m \<and> noteOf env opts e (parentsIn env opts d) m p
      \<and> queuedFor (AuthorPubKey m) [p] d d') \<and> cursorKept opts (je_TimeUS e) d')
     (publishPost env opts now (eventURI e) (je_DID e) (br_Text r) (br_CreatedAt r) (recordReply r) (recordImages e r) (recordLinks r)
       (je_TimeUS e) op (Some (recordURI e r)) s)" (is "settles d ?Q _")
proof (cases rule: lookup_cases [of "evRef opts e" s])
  case (missing err s1)
  have enq: "settles d ?Q (enqueueMappedEvent env opts now (eventURI e) ev payload (je_TimeUS e) op s2)"
    if "sq_db s2 = d" "blueskyPostURL (recordURI e r) = Some url" "encodeEvent (se_nostr env) ev = Some payload"
      "PostEvent (se_keys env) (so_MasterSeed opts) (recordPost e r url) (parentsIn env opts d (recordReply r)) = Inr ev" for ev url payload s2
    using that(2-) r by (intro settles_mono [OF settles_enqueueMappedEvent [OF inv that(1)]]) (auto simp: noteOf_def payloadOf_def)
  then show ?thesis
    using missing d lookupParent_reads [of s1 env opts "recordReply r"]
    by (auto simp: publishPost_def recordPost_def Let_def split: option.split sum.split)
qed (use new d in \<open>auto simp: publishPost_def\<close>)

lemma settles_deleteSource:
  assumes inv: "outbox_inv d" and d: "sq_db s = d" and op: "je_Operation e = ''delete''"
  shows "settles d (\<lambda>d'. applied env opts e d' \<and> published env opts now e d d') (deleteSource env opts now (eventURI e) (je_DID e) (je_TimeUS e) s)"
    (is "settles d ?Q _")
proof (cases rule: lookup_cases [of "evRef opts e" s])
  case (found old s1)
  have "settles d ?Q (fromStore [] (EnqueueDelete (se_nostr env)
      \<lparr>de_Source = evRef opts e, de_Event = publishRequest (ev_PubKey del) payload now, de_Limit = outboxLimit opts,
       de_Cursor = cursorUpdate (je_TimeUS e)\<rparr>) s1)"
    if sent: "so_HasStore opts" "DeriveKey (se_keys env) (so_MasterSeed opts) (je_DID e) = Inr key" "idFromHex env (NostrEventID old) = Some i"
      "signEvent (se_keys env) key (deletionDraft now i ''source record deleted'') = Some del" "encodeEvent (se_nostr env) del = Some payload"
    for key i del payload
  proof (rule settles_fromStore, rule atomic_mono [OF enqueue_delete_atomic [OF inv]])
    fix x d'
    assume u: "event_deleted \<lparr>de_Source = evRef opts e, de_Event = publishRequest (ev_PubKey del) payload now, de_Limit = outboxLimit opts,
       de_Cursor = cursorUpdate (je_TimeUS e)\<rparr> d d'"
    have "deletes env opts now e ''source record deleted'' old payload" using sent by (auto simp: deletes_def payloadOf_def)
    moreover have "queuedFor (AuthorPubKey old) [payload] d d'"
      using u found(2) d by (simp add: event_deleted_def entriesAdded_queuedFor publishRequest_def q_EventAuthorBySourceURI_def q_EventMappingBySourceURI_def)
    moreover have "applied env opts e d'"
      using u op sent(1) by (auto simp: event_deleted_def applied_def cursorUpdate_def sourceRef_def split: if_splits dest!: cursor_read)
    ultimately show "?Q d'" using op found(2) d u by (auto simp: published_def event_deleted_def)
  qed (use found d in simp)
  then show ?thesis using found d by (auto simp: deleteSource_def split: sum.split option.split)
next
  case (missing err s1)
  have "settles d ?Q (saveEventCursor opts (je_TimeUS e) s1)" if "so_HasStore opts"
    using missing d op that
    by (intro settles_mono [OF settles_saveEventCursor]) (auto simp: applied_def published_def cursorKept_def q_EventMappingBySourceURI_def)
  then show ?thesis using missing d by (simp add: deleteSource_def)
qed (use d in \<open>auto simp: deleteSource_def\<close>)

lemma settles_publishRecord_create:
  assumes "outbox_inv d" "sq_db s = d" "q_EventMappingBySourceURI (evRef opts e) d = None" "je_Operation e = ''create''" "so_HasStore opts"
  shows "settles d (\<lambda>d'. applied env opts e d' \<and> published env opts now e d d') (publishRecord env opts now e s)"
proof (cases "unmarshalRecord env (je_Record e)")
  case (Some r)
  show ?thesis
    using settles_mono [OF settles_publishPost [OF assms(1,2) Some assms(3)], where Q' = "\<lambda>d'. applied env opts e d' \<and> published env opts now e d d'"]
      assms Some
    by (auto simp: publishRecord_def Let_def recordURI_def [symmetric] applied_def published_def cursorKept_def)
qed (simp add: publishRecord_def assms)

lemma settles_publishRecord_update:
  assumes "outbox_inv d" "sq_db s = d" "q_SourceOperationBySourceURI (evRef opts e) d \<noteq> Some (updateIdentity env e)"
    "je_Operation e = ''update''" "so_HasStore opts"
  shows "settles d (\<lambda>d'. applied env opts e d' \<and> published env opts now e d d') (publishRecord env opts now e s)"
proof (cases "unmarshalRecord env (je_Record e)")
  case (Some r)
  show ?thesis
    using settles_mono [OF settles_replacement [OF assms(1,2) Some], where Q' = "\<lambda>d'. applied env opts e d' \<and> published env opts now e d d'"]
      assms Some
    by (auto simp: publishRecord_def Let_def recordURI_def [symmetric] applied_def published_def cursorKept_def)
qed (simp add: publishRecord_def assms)

lemma settles_saved:
  assumes "sq_db s = d" "so_HasStore opts"
    "je_Operation e = ''create'' \<and> q_EventMappingBySourceURI (evRef opts e) d \<noteq> None
     \<or> je_Operation e = ''update'' \<and> q_SourceOperationBySourceURI (evRef opts e) d = Some (updateIdentity env e)"
  shows "settles d (\<lambda>d'. applied env opts e d' \<and> published env opts now e d d') (saveEventCursor opts (je_TimeUS e) s)"
  using assms
  by (intro settles_mono [OF settles_saveEventCursor])
    (auto simp: applied_def published_def cursorKept_def q_EventMappingBySourceURI_def q_SourceOperationBySourceURI_def)

lemma settles_Handle:
  assumes inv: "outbox_inv d" and d: "sq_db s = d"
  shows "settles d (\<lambda>d'. if relevant opts e then applied env opts e d' \<and> published env opts now e d d' else d' = d) (Handle env opts now e s)"
    (is "settles d ?Q _")
proof (cases "relevant opts e \<and> so_HasStore opts")
  case True
  then have rel: "relevant opts e" and st: "so_HasStore opts" by auto
  note rec = settles_publishRecord_create [OF inv, of _ opts e env now] settles_publishRecord_update [OF inv, of _ opts e env now]
    settles_saved [of _ d opts e env now]
  consider "je_Operation e = ''create''" | "je_Operation e = ''update''" | "je_Operation e = ''delete''"
    | "je_Operation e \<notin> {''create'', ''update'', ''delete''}" by auto
  then show ?thesis
  proof cases
    case 1
    show ?thesis using 1 rel st d rec
      by (cases rule: lookup_cases [of "evRef opts e" s]) (auto simp: Handle_def relevant_def)
  next
    case 2
    show ?thesis using 2 rel st d rec
      by (cases rule: operation_cases [of "evRef opts e" s]) (auto simp: Handle_def relevant_def)
  next
    case 3
    show ?thesis using 3 rel settles_deleteSource [OF inv d 3, of env opts now] by (auto simp: Handle_def relevant_def)
  next
    case 4
    then show ?thesis using rel d by (auto simp: Handle_def relevant_def)
  qed
next
  case False
  then show ?thesis using d by (auto simp: Handle_def relevant_def deleteSource_def)
qed

text \<open>C10. Handling a repository event is all or nothing. From any reachable database, whatever
  statement fails: an error leaves the database as it was. Success leaves an irrelevant event
  without effect; for a relevant one the mapping (or its absence after a deletion), the identity
  of an update and the cursor of the stream are stored, and the queue of the publisher received
  exactly what the event calls for: nothing when it was already applied, otherwise its
  registration when it has none, followed by the note of a created record (pointing to the mapped
  parent of a reply), the deletion and the new note of an updated one, or the deletion of the
  mapped note; all other queues are as they were.\<close>

theorem handle_exact:
  "case Handle env opts now e \<lparr>sq_faults = fs, sq_db = run_ops (se_nostr env) ops empty_db\<rparr> of
     (Inl err, s') \<Rightarrow> sq_db s' = run_ops (se_nostr env) ops empty_db
   | (Inr _, s') \<Rightarrow>
       if relevant opts e
       then applied env opts e (sq_db s') \<and> published env opts now e (run_ops (se_nostr env) ops empty_db) (sq_db s')
       else sq_db s' = run_ops (se_nostr env) ops empty_db"
  using settles_Handle [OF reachable_outbox_inv [of "se_nostr env" ops], of "\<lparr>sq_faults = fs, sq_db = run_ops (se_nostr env) ops empty_db\<rparr>"]
  by (simp add: settles_def)

subsection \<open>Replays\<close>

lemma saveEventCursor_same:
  assumes "cursorKept opts t d"
  shows "saveEventCursor opts t \<lparr>sq_faults = [], sq_db = d\<rparr> = (Inr (), \<lparr>sq_faults = [], sq_db = d\<rparr>)"
  using assms
  by (auto simp: saveEventCursor_def fromStore_def SaveCursor_def saveCursor_def calm return_ok_def cursorKept_def q_SaveCursor_def
      q_Cursor_def mput_same)

lemma handle_applied:
  assumes "relevant opts e" "applied env opts e d"
  shows "Handle env opts now e \<lparr>sq_faults = [], sq_db = d\<rparr> = (Inr (), \<lparr>sq_faults = [], sq_db = d\<rparr>)"
proof -
  have "saveEventCursor opts (je_TimeUS e) \<lparr>sq_faults = [], sq_db = d\<rparr> = (Inr (), \<lparr>sq_faults = [], sq_db = d\<rparr>)"
    using assms(2) by (intro saveEventCursor_same) (simp add: applied_def cursorKept_def)
  moreover have "Handle env opts now e \<lparr>sq_faults = [], sq_db = d\<rparr> = saveEventCursor opts (je_TimeUS e) \<lparr>sq_faults = [], sq_db = d\<rparr>"
  proof -
    have st: "so_HasStore opts" using assms(2) by (simp add: applied_def)
    have rel: "\<not> (je_Collection e \<noteq> postCollection \<and> je_Collection e \<noteq> repostCollection)" "wanted opts (je_DID e)"
      using assms(1) by (auto simp: relevant_def)
    show ?thesis
    proof (cases "je_Operation e = ''delete''")
      case True
      with assms(2) have "q_EventMappingBySourceURI (evRef opts e) d = None" by (simp add: applied_def)
      then show ?thesis using True rel st by (auto simp: Handle_def deleteSource_def calm_lookups)
    next
      case no_delete: False
      show ?thesis
      proof (cases "je_Operation e = ''update''")
        case True
        with assms(2) have "q_SourceOperationBySourceURI (evRef opts e) d = Some (updateIdentity env e)" by (simp add: applied_def)
        then show ?thesis using True rel st by (auto simp: Handle_def calm_lookups)
      next
        case False
        with assms(2) no_delete have "je_Operation e = ''create''" "q_EventMappingBySourceURI (evRef opts e) d \<noteq> None"
          by (simp_all add: applied_def)
        then show ?thesis using rel st by (auto simp: Handle_def calm_lookups)
      qed
    qed
  qed
  ultimately show ?thesis by simp
qed

text \<open>C11. Handling is idempotent: when an event was handled, from any reachable database and with any
  statement failing, then handling the same event once more on the database that was left,
  whatever the clock reads and with no statement failing, succeeds and leaves the database exactly as
  it is; when handling failed, the database is unchanged. This is about a repetition with nothing
  in between; after other events the repetition may fail or move the cursor.\<close>

theorem handle_idempotent:
  "case Handle env opts now e \<lparr>sq_faults = fs, sq_db = run_ops (se_nostr env) ops empty_db\<rparr> of
     (Inl err, s') \<Rightarrow> sq_db s' = run_ops (se_nostr env) ops empty_db
   | (Inr _, s') \<Rightarrow> Handle env opts now' e \<lparr>sq_faults = [], sq_db = sq_db s'\<rparr> = (Inr (), \<lparr>sq_faults = [], sq_db = sq_db s'\<rparr>)"
proof (cases "relevant opts e")
  case True
  let ?d = "run_ops (se_nostr env) ops empty_db"
  obtain r s' where run: "Handle env opts now e \<lparr>sq_faults = fs, sq_db = ?d\<rparr> = (r, s')" by (rule prod.exhaust)
  have "settles ?d (\<lambda>d'. if relevant opts e then applied env opts e d' \<and> published env opts now e ?d d' else d' = ?d) (r, s')"
    unfolding run [symmetric] by (rule settles_Handle [OF reachable_outbox_inv]) simp
  then show ?thesis using handle_applied [OF True, of env "sq_db s'" now'] True
    unfolding run by (cases r) simp_all
next
  case False
  then have "Handle env opts t e s = (Inr (), s)" for t s by (auto simp: Handle_def relevant_def)
  then show ?thesis by simp
qed

end
