(* ===== verification/Bridge_Stream.thy ===== *)
theory Bridge_Stream
  imports Bridge_Syncer
begin

text \<open>
  The synchroniser over time: where a subscription resumes, when the backfill ends, and a sequence
  of events after which the stream makes no more progress.
\<close>

subsection \<open>Resuming\<close>

lemma setParam_only: "filter (\<lambda>(k', _). k' = k) (setParam k v q) = [(k, v)]"
  by (auto simp: setParam_def filter_empty_conv)

lemma subscription_cursor:
  assumes "so_HasStore opts" "targets opts \<noteq> []" "parseURL env endpoint = Some (base, q0)"
    and "q_Cursor (so_Scope opts) jetstreamCursor d = Some (sprint t)" "0 < t" "t < 2 ^ 63"
  obtains q where "Subscription env opts endpoint \<lparr>sq_faults = [], sq_db = d\<rparr> = (Inr (base, q), \<lparr>sq_faults = [], sq_db = d\<rparr>)"
    "filter (\<lambda>(k, _). k = ''cursor'') q = [(''cursor'', sprint (rewound opts t))]"
proof -
  have p: "parseInt64 (sprint t) = Some t" using assms(5,6) by (simp add: parseInt64_sprint)
  moreover have "sprint t \<noteq> []" using p by (auto simp: parseInt64_def)
  ultimately show ?thesis using assms that by (simp add: Subscription_def Let_def calm_lookups setParam_only)
qed

text \<open>A subscription resumes behind the last event that was handled. Once an event with a
  time is handled, the next subscription succeeds and carries exactly one cursor: the time of that
  event moved back by the configured interval, and zero when that is negative.\<close>

theorem resume_rewinds:
  assumes "Handle env opts now e \<lparr>sq_faults = fs, sq_db = run_ops (se_nostr env) ops empty_db\<rparr> = (Inr (), s')"
    and "relevant opts e" and "0 < je_TimeUS e" and "je_TimeUS e < 2 ^ 63"
    and "targets opts \<noteq> []" and "parseURL env endpoint = Some (base, q0)"
  shows "\<exists>q. Subscription env opts endpoint \<lparr>sq_faults = [], sq_db = sq_db s'\<rparr> = (Inr (base, q), \<lparr>sq_faults = [], sq_db = sq_db s'\<rparr>)
    \<and> filter (\<lambda>(k, _). k = ''cursor'') q = [(''cursor'', sprint (max 0 (je_TimeUS e - microseconds (so_Rewind opts))))]"
proof -
  have "applied env opts e (sq_db s')"
    using settles_Handle [OF reachable_outbox_inv [of "se_nostr env" ops], of "\<lparr>sq_faults = fs, sq_db = run_ops (se_nostr env) ops empty_db\<rparr>" opts e env now]
      assms(1,2) by simp
  then have "so_HasStore opts" "q_Cursor (so_Scope opts) jetstreamCursor (sq_db s') = Some (sprint (je_TimeUS e))"
    using assms(3) by (simp_all add: applied_def)
  then show ?thesis using subscription_cursor [OF _ assms(5,6) _ assms(3,4), of "sq_db s'"] by (auto simp: rewound_def)
qed

subsection \<open>The backfill ends\<close>

lemma backfillPosts_count:
  assumes "backfillPosts env opts now ps remaining s = (Inr (rest, finished), s')" "0 < remaining"
  shows "if finished then rest = 0 else rest = remaining - int (length (filter (\<lambda>p. wanted opts (bp_AuthorDID p)) ps)) \<and> 0 < rest"
  using assms
proof (induction ps arbitrary: remaining s)
  case (Cons p ps)
  show ?case
  proof (cases "wanted opts (bp_AuthorDID p)")
    case True
    obtain r s1 where run: "publishPost env opts now (bp_URI p) (bp_AuthorDID p) (bp_Text p) (bp_CreatedAt p) (bp_ReplyToURI p)
        (bp_Images p) (bp_Links p) 0 [] None s = (r, s1)" by (rule prod.exhaust)
    then obtain u where "r = Inr u" using Cons.prems(1) True by (cases r) simp_all
    then show ?thesis using Cons.prems Cons.IH [of "remaining - 1" s1] True run by (cases "remaining = 1") (simp_all split: if_splits)
  next
    case False
    then show ?thesis using Cons.prems Cons.IH [of remaining s] by (simp split: if_splits)
  qed
qed auto

definition useful :: "SyncOptions \<Rightarrow> Page \<Rightarrow> bool" where
  "useful opts page \<longleftrightarrow> pg_Cursor page = [] \<or> list_ex (\<lambda>p. wanted opts (bp_AuthorDID p)) (pg_Posts page)"

lemma useful_decreases:
  assumes "useful opts page" "pg_Cursor page \<noteq> []" "backfillPosts env opts now (pg_Posts page) remaining s = (Inr (rest, False), s')" "0 < remaining"
  shows "0 < rest \<and> rest < remaining"
proof -
  have "filter (\<lambda>p. wanted opts (bp_AuthorDID p)) (pg_Posts page) \<noteq> []"
    using assms(1,2) by (auto simp: useful_def list_ex_iff filter_empty_conv)
  then show ?thesis using backfillPosts_count [OF assms(3,4)] by (simp add: length_greater_0_conv [symmetric] del: length_greater_0_conv)
qed

lemma backfillLoop_ends:
  assumes pages: "\<And>i cursor lim page. blank \<le> i \<Longrightarrow> timeline i cursor lim = Some page \<Longrightarrow> useful opts page"
  shows "nat remaining + (blank - k) < fuel \<Longrightarrow> \<exists>r s'. backfillLoop env opts now timeline fuel k remaining cursor s = Some (r, s')"
proof (induction fuel arbitrary: k remaining cursor s)
  case (Suc fuel)
  show ?case
  proof (cases "remaining > 0")
    case True
    have step: "nat rest + (blank - Suc k) < fuel"
      if "timeline k cursor remaining = Some page" "pg_Cursor page \<noteq> []"
        "backfillPosts env opts now (pg_Posts page) remaining s = (Inr (rest, False), s1)" for page rest s1
    proof (cases "blank \<le> k")
      case late: True
      then show ?thesis using useful_decreases [OF pages [OF late that(1)] that(2,3) True] Suc.prems by linarith
    next
      case False
      then show ?thesis using backfillPosts_count [OF that(3) True] Suc.prems by auto
    qed
    show ?thesis using True Suc.IH [OF step]
      by (auto split: option.split prod.split sum.split)
  qed simp
qed simp

text \<open>C40. The backfill ends. When from some page on every page of the timeline has a post of a
  wanted account or is the last one, the loop stops after at most as many requests as the limit
  allows posts, besides those pages before: with that much fuel it returns.\<close>

theorem backfill_terminates:
  assumes "\<And>i cursor lim page. blank \<le> i \<Longrightarrow> timeline i cursor lim = Some page \<Longrightarrow> useful opts page"
    and "nat (so_BackfillLimit (New opts)) + blank < fuel"
  shows "\<exists>r s'. Backfill env (New opts) now timeline fuel s = Some (r, s')"
proof -
  have "targetFilter (New opts) = targetFilter opts" by (cases "so_TargetProvider opts") (simp_all add: targetFilter_def New_def)
  then have "useful (New opts) = useful opts" by (simp add: useful_def wanted_def fun_eq_iff)
  then show ?thesis
    using backfillLoop_ends [of blank timeline "New opts" "so_BackfillLimit (New opts)" 0 fuel env now "[]" s] assms by (simp add: Backfill_def)
qed

subsection \<open>An update that arrives after the deletion\<close>

lemma update_unknown:
  assumes "q_EventMappingBySourceURI (evRef opts e) (sq_db s) = None" "q_SourceOperationBySourceURI (evRef opts e) (sq_db s) = None"
    and "relevant opts e" "je_Operation e = ''update''"
  shows "\<exists>err s'. Handle env opts now e s = (Inl err, s') \<and> sq_db s' = sq_db s"
proof -
  have rep: "\<exists>err s'. enqueueReplacement env opts now e uri content created replyTo images links s1 = (Inl err, s') \<and> sq_db s' = sq_db s"
    if "sq_db s1 = sq_db s" for s1 uri content created replyTo images links
    using that assms(1) by (cases rule: lookup_cases [of "evRef opts e" s1]) (auto simp: enqueueReplacement_def)
  have rec: "\<exists>err s'. publishRecord env opts now e s1 = (Inl err, s') \<and> sq_db s' = sq_db s" if "sq_db s1 = sq_db s" "so_HasStore opts" for s1
    using that assms(4) rep [OF that(1)] by (auto simp: publishRecord_def Let_def split: option.split)
  show ?thesis using assms rec
    by (cases rule: operation_cases [of "evRef opts e" s]; cases "so_HasStore opts") (auto simp: Handle_def relevant_def)
qed

definition replays :: "string \<Rightarrow> string option list option \<Rightarrow> bool" where
  "replays message attempt = (case attempt of Some (Some m # _) \<Rightarrow> m = message | _ \<Rightarrow> True)"

lemma blocked_consume:
  assumes "replays message (Some reads)" "Decode env message = Inr e"
    and "q_EventMappingBySourceURI (evRef opts e) (sq_db s) = None" "q_SourceOperationBySourceURI (evRef opts e) (sq_db s) = None"
    and "relevant opts e" "je_Operation e = ''update''"
  shows "sq_db (snd (consume env opts now reads s)) = sq_db s"
proof (cases reads)
  case (Cons r rs)
  then show ?thesis using assms(1,2) update_unknown [OF assms(3-6), of env now] by (cases r) (auto simp: replays_def)
qed simp

lemma subscription_reads: "sq_db (snd (Subscription env opts endpoint s)) = sq_db s"
  by (cases rule: row_cases [of "''find sync cursor''" "q_Cursor (so_Scope opts) jetstreamCursor" s, folded Cursor_def])
    (auto simp: Subscription_def Let_def split: option.split)

lemma blocked_stream:
  assumes "list_all (replays message) attempts" "Decode env message = Inr e"
    and "relevant opts e" "je_Operation e = ''update''"
    and "q_EventMappingBySourceURI (evRef opts e) (sq_db s) = None" "q_SourceOperationBySourceURI (evRef opts e) (sq_db s) = None"
  shows "sq_db (snd (streamLoop env opts now attempts s)) = sq_db s"
  using assms
proof (induction attempts arbitrary: s)
  case (Cons attempt attempts)
  obtain r s1 where sub: "Subscription env opts (so_JetstreamURL opts) s = (r, s1)" by (rule prod.exhaust)
  then have d1: "sq_db s1 = sq_db s" using subscription_reads [of env opts "so_JetstreamURL opts" s] by simp
  have "sq_db (snd (consume env opts now reads s1)) = sq_db s1" if "attempt = Some reads" for reads
    using blocked_consume [of message reads env e opts s1 now] Cons.prems that d1 by simp
  then show ?case using Cons sub d1 by (cases r; cases attempt) simp_all
qed simp

text \<open>C12. An update and a deletion of the same record within the interval by which the cursor is
  moved back stop the stream for good. After the deletion was handled, the replayed update finds
  neither the mapping nor the identity it would need; handling it fails, the connection is closed,
  the cursor stays, and every further connection that begins with the same message leaves the
  database unchanged, however many there are.\<close>

theorem replayed_update_blocks_stream:
  assumes "relevant opts upd" and "je_Operation upd = ''update''" and "Decode env message = Inr upd"
    and "relevant opts del" and "je_Operation del = ''delete''" and "eventURI del = eventURI upd"
    and "q_EventMappingBySourceURI (evRef opts upd) (run_ops (se_nostr env) ops empty_db) \<noteq> None"
    and "Handle env opts now del \<lparr>sq_faults = fs, sq_db = run_ops (se_nostr env) ops empty_db\<rparr> = (Inr (), s')"
    and "list_all (replays message) attempts"
  shows "sq_db (snd (streamLoop env opts now' attempts s')) = sq_db s'"
proof -
  let ?d = "run_ops (se_nostr env) ops empty_db"
  have "applied env opts del (sq_db s') \<and> published env opts now del ?d (sq_db s')"
    using settles_Handle [OF reachable_outbox_inv [of "se_nostr env" ops], of "\<lparr>sq_faults = fs, sq_db = ?d\<rparr>" opts del env now] assms(4,8) by simp
  then have "q_EventMappingBySourceURI (evRef opts upd) (sq_db s') = None" "q_SourceOperationBySourceURI (evRef opts upd) (sq_db s') = None"
    using assms(5-7) by (auto simp: applied_def published_def)
  then show ?thesis using blocked_stream assms by blast
qed

subsection \<open>A concrete run\<close>

definition run_event :: "string \<Rightarrow> NostrEvent" where
  "run_event i = \<lparr>ev_ID = i, ev_PubKey = ''aa'', ev_Kind = 1, ev_Tags = [], ev_CreatedAt = 0, ev_Content = i, ev_CheckID = True,
     ev_VerifySignature = True\<rparr>"

definition run_env :: "Event \<Rightarrow> sync_env" where
  "run_env e = \<lparr>se_nostr = \<lparr>pubKeyHex = Some, decodeEvent = (\<lambda>p. Some (run_event p)), encodeEvent = (\<lambda>e. Some (ev_Content e))\<rparr>,
     se_keys = \<lparr>hkdfKey = (\<lambda>seed info. Some seed), publicHex = (\<lambda>_. ''aa''), zeroPK = ''00'',
       signEvent = (\<lambda>key e. Some (run_event (ev_Content e))), marshalStrings = (\<lambda>_. None)\<rparr>,
     unmarshalRecord = (\<lambda>_. None), unmarshalMessage = (\<lambda>_. Some e), sha256hex = (\<lambda>r. r), idFromHex = Some,
     parseURL = (\<lambda>u. Some (u, []))\<rparr>"

definition run_options :: SyncOptions where
  "run_options = New \<lparr>so_Scope = \<lparr>Provider = ''bluesky'', Account = ''did''\<rparr>, so_HasSource = True, so_HasStore = True, so_OutboxLimit = 0,
     so_MasterSeed = ''seed'', so_Targets = Some [''did''], so_TargetProvider = None, so_BackfillLimit = 0, so_JetstreamURL = ''wss://js'',
     so_Rewind = 4000\<rparr>"

definition run_change :: "string \<Rightarrow> int \<Rightarrow> Event" where
  "run_change op t = \<lparr>je_DID = ''did'', je_Collection = postCollection, je_RKey = ''k'', je_CID = ''c'', je_Operation = op, je_TimeUS = t,
     je_Record = []\<rparr>"

definition run_mapping :: EventMapping where
  "run_mapping = \<lparr>em_Source = sourceRef run_options (eventURI (run_change ''create'' 1)), NostrEventID = ''id1'', SourceKind = postCollection,
     AuthorPubKey = ''aa'', em_UpdatedAt = 0\<rparr>"

lemmas run_simps = relevant_def wanted_def targetFilter_def targets_def run_options_def New_def run_change_def run_env_def

theorem resume_rewinds_witness:
  "\<exists>q s'. Handle (run_env (run_change ''delete'' 9)) run_options 0 (run_change ''delete'' 9) \<lparr>sq_faults = [], sq_db = empty_db\<rparr> = (Inr (), s')
     \<and> filter (\<lambda>(k, _). k = ''cursor'') q = [(''cursor'', sprint 5)]
     \<and> fst (Subscription (run_env (run_change ''delete'' 9)) run_options ''wss://js'' \<lparr>sq_faults = [], sq_db = sq_db s'\<rparr>) = Inr (''wss://js'', q)"
proof -
  let ?e = "run_change ''delete'' 9"
  let ?h = "Handle (run_env ?e) run_options 0 ?e \<lparr>sq_faults = [], sq_db = run_ops (se_nostr (run_env ?e)) [] empty_db\<rparr>"
  have h: "?h = (Inr (), snd ?h)" by code_simp
  have "\<exists>q. Subscription (run_env ?e) run_options ''wss://js'' \<lparr>sq_faults = [], sq_db = sq_db (snd ?h)\<rparr>
       = (Inr (''wss://js'', q), \<lparr>sq_faults = [], sq_db = sq_db (snd ?h)\<rparr>)
     \<and> filter (\<lambda>(k, _). k = ''cursor'') q = [(''cursor'', sprint (max 0 (je_TimeUS ?e - microseconds (so_Rewind run_options))))]"
    by (rule resume_rewinds [OF h]) (simp_all add: run_simps)
  moreover have "max 0 (je_TimeUS ?e - microseconds (so_Rewind run_options)) = 5"
    by (simp add: run_simps microseconds_def)
  moreover have "run_ops (se_nostr (run_env ?e)) [] empty_db = empty_db" by simp
  ultimately show ?thesis using h by (metis fst_conv)
qed

theorem backfill_terminates_witness:
  "\<exists>r s'. Backfill (run_env (run_change ''create'' 1)) (New run_options) 0
     (\<lambda>i cursor lim. Some (if i < 3 then \<lparr>pg_Posts = [], pg_Cursor = replicate (Suc i) CHR ''x''\<rparr>
       else \<lparr>pg_Posts = [], pg_Cursor = []\<rparr>)) 104 \<lparr>sq_faults = [], sq_db = empty_db\<rparr> = Some (r, s')"
proof (rule backfill_terminates [where blank = 3])
  show "useful run_options page"
    if "3 \<le> i" "Some (if i < 3 then \<lparr>pg_Posts = [], pg_Cursor = replicate (Suc i) CHR ''x''\<rparr> else \<lparr>pg_Posts = [], pg_Cursor = []\<rparr>) = Some page"
    for i :: nat and page
    using that by (auto simp: useful_def)
qed (simp add: run_options_def New_def)

theorem replayed_update_blocks_stream_witness:
  "\<exists>s'. Handle (run_env (run_change ''update'' 1)) run_options 0 (run_change ''delete'' 2)
       \<lparr>sq_faults = [], sq_db = run_ops (se_nostr (run_env (run_change ''update'' 1))) [(OpSaveEventMapping run_mapping, [])] empty_db\<rparr> = (Inr (), s')
     \<and> sq_db (snd (streamLoop (run_env (run_change ''update'' 1)) run_options 0 (replicate 5 (Some [Some ''m''])) s')) = sq_db s'"
proof -
  let ?u = "run_change ''update'' 1" and ?o = "[(OpSaveEventMapping run_mapping, [])]"
  let ?h = "Handle (run_env ?u) run_options 0 (run_change ''delete'' 2) \<lparr>sq_faults = [], sq_db = run_ops (se_nostr (run_env ?u)) ?o empty_db\<rparr>"
  have h: "?h = (Inr (), snd ?h)" by code_simp
  have m: "q_EventMappingBySourceURI (evRef run_options ?u) (run_ops (se_nostr (run_env ?u)) ?o empty_db) \<noteq> None" by code_simp
  have "sq_db (snd (streamLoop (run_env ?u) run_options 0 (replicate 5 (Some [Some ''m''])) (snd ?h))) = sq_db (snd ?h)"
    by (rule replayed_update_blocks_stream [OF _ _ _ _ _ _ m h, of "''m''"])
      (simp_all add: run_simps Decode_def eventURI_def postCollection_def replays_def list_all_iff)
  then show ?thesis using h by blast
qed

end
