(* ===== verification/Bridge_Reconcile.thy ===== *)
theory Bridge_Reconcile
  imports Bridge_Enqueue
begin

text \<open>
  What a reconciliation does exactly (\<open>ReconcileBatch\<close> of \<^verbatim>\<open>store/sqlite.go\<close>): which events are
  pending, what they add to the queues, and the tables afterwards.
\<close>

subsection \<open>What is pending\<close>

abbreviation ee_ref :: "EventEnqueueRequest \<Rightarrow> SourceRef" where
  "ee_ref e \<equiv> em_Source (ee_Mapping e)"

abbreviation ee_pk :: "EventEnqueueRequest \<Rightarrow> string" where
  "ee_pk e \<equiv> rq_PubKey (ee_Event e)"

text \<open>An event is current when its mapping is stored with the same identity.\<close>

definition current :: "bridge_db \<Rightarrow> EventEnqueueRequest \<Rightarrow> bool" where
  "current d e =
     (case q_EventIDBySourceURI (ee_ref e) d of
        None \<Rightarrow> False
      | Some ident \<Rightarrow>
          if ee_SourceOperation e \<noteq> [] then q_SourceOperationBySourceURI (ee_ref e) d = Some (ee_SourceOperation e)
          else ident = NostrEventID (ee_Mapping e))"

definition known :: "bridge_db \<Rightarrow> string \<Rightarrow> bool" where
  "known d pk = q_PublisherRegisteredOrPending pk pk d"

definition acceptable :: "nostr_env \<Rightarrow> SourceScope list \<Rightarrow> bridge_db \<Rightarrow> EventEnqueueRequest \<Rightarrow> bool" where
  "acceptable env scopes d e \<longleftrightarrow> Scope (ee_ref e) \<in> set scopes \<and> publishable env d e
     \<and> validateMappingEventID env (ee_Mapping e) (ee_Event e) = None"

lemma acceptable_event:
  "acceptable env scopes d e \<Longrightarrow> rq_AggregateKey (ee_Event e) = ee_pk e \<and> rq_Operation (ee_Event e) = OutboxPublishEvent"
  by (auto simp: acceptable_def publishable_def dest: validPublishD)

text \<open>What the first loop knows: the registrations it looked up, and the room they need.\<close>

definition newcomers :: "(string, bool) gomap \<Rightarrow> string list \<Rightarrow> nat" where
  "newcomers registered queued = length (filter (\<lambda>(pk, b). \<not> b \<and> pk \<notin> set queued) registered)"

definition scanned :: "bridge_db \<Rightarrow> (string, bool) gomap \<Rightarrow> EventEnqueueRequest list \<Rightarrow> int \<Rightarrow> bool" where
  "scanned d registered pending needed \<longleftrightarrow> (\<forall>(pk, b) \<in> set registered. b = known d pk)
     \<and> (\<forall>e \<in> set pending. mget registered (ee_pk e) \<noteq> None) \<and> needed = int (length pending + newcomers registered [])"

lemma newcomers_mput:
  "mget registered pk = None \<Longrightarrow> newcomers (mput registered pk b) [] = newcomers registered [] + (if b then 0 else 1)"
  by (induction registered) (auto simp: newcomers_def split: if_splits)

lemma set_mput_new: "mget m k = None \<Longrightarrow> set (mput m k v) = insert (k, v) (set m)"
  by (induction m) (auto split: if_splits)

lemma after_scanPending:
  assumes "scanned d registered pending needed" "rq_AggregateKey (ee_Event e) = ee_pk e"
    and "\<And>registered' needed'. scanned d registered' (pending @ [e]) needed' \<Longrightarrow> after (k registered' needed') Q d"
  shows "after (scanPending e registered needed k) Q d"
proof (cases "mget registered (ee_pk e)")
  case None
  have "scanned d (mput registered (ee_pk e) (known d (ee_pk e))) (pending @ [e]) (if known d (ee_pk e) then needed + 1 else needed + 2)"
    using assms(1) None by (auto simp: scanned_def newcomers_mput set_mput_new)
  then show ?thesis using None assms(2,3) by (auto simp: scanPending_def known_def intro!: after_query)
next
  case (Some b)
  then have "scanned d registered (pending @ [e]) (needed + 1)" using assms(1) by (auto simp: scanned_def)
  then show ?thesis using Some assms(3) by (simp add: scanPending_def)
qed

lemma after_scan:
  assumes k: "\<And>registered pending' needed. scanned d registered pending' needed \<Longrightarrow> pending' = pending @ filter (\<lambda>e. \<not> current d e) es \<Longrightarrow>
      list_all (acceptable env scopes d) es \<Longrightarrow> after (k registered pending' needed) Q d"
  shows "scanned d registered pending needed \<Longrightarrow> after (scanEvents env scopes es registered pending needed k) Q d"
  using k
proof (induction es arbitrary: registered pending needed)
  case (Cons e es)
  note prem = Cons.prems
  show ?case unfolding scanEvents.simps Let_def
  proof (intro after_guard after_check after_rejectPurged after_query)
    assume ok: "\<not> Scope (ee_ref e) \<notin> set scopes" "\<not> ee_pk e \<noteq> AuthorPubKey (ee_Mapping e)"
      "validatePublishRequest env (ee_Event e) = None" "validateMappingEventID env (ee_Mapping e) (ee_Event e) = None"
      "\<not> q_PublisherPurged (ee_pk e) d"
    then have acc: "acceptable env scopes d e" by (simp add: acceptable_def publishable_def)
    have skip: "after (scanEvents env scopes es registered pending needed k) Q d" if "current d e"
      using prem that acc by (intro Cons.IH) auto
    have add: "after (scanPending e registered needed (\<lambda>registered' needed'.
        scanEvents env scopes es registered' (pending @ [e]) needed' k)) Q d" if "\<not> current d e"
      using acceptable_event [OF acc] prem that acc by (intro after_scanPending [OF prem(1)] Cons.IH) auto
    show "after (case q_EventIDBySourceURI (ee_ref e) d of
          None \<Rightarrow> scanPending e registered needed (\<lambda>registered' needed'. scanEvents env scopes es registered' (pending @ [e]) needed' k)
        | Some ident \<Rightarrow>
            if ee_SourceOperation e \<noteq> [] then
              query ''find reconciliation identity'' (q_SourceOperationBySourceURI (ee_ref e)) (\<lambda>op.
                if op = Some (ee_SourceOperation e) then scanEvents env scopes es registered pending needed k
                else scanPending e registered needed (\<lambda>registered' needed'. scanEvents env scopes es registered' (pending @ [e]) needed' k))
            else if ident = NostrEventID (ee_Mapping e) then scanEvents env scopes es registered pending needed k
            else scanPending e registered needed (\<lambda>registered' needed'. scanEvents env scopes es registered' (pending @ [e]) needed' k)) Q d"
      using skip add by (auto simp: current_def split: option.split intro!: after_query)
  qed
qed simp

subsection \<open>What is written\<close>

fun batchEntries :: "(string \<Rightarrow> bool) \<Rightarrow> string list \<Rightarrow> EventEnqueueRequest list \<Rightarrow> string \<Rightarrow> (string \<times> string \<times> string) list" where
  "batchEntries reg queued [] k = []"
| "batchEntries reg queued (e # es) k =
     (if ee_pk e = k
      then (if \<not> reg k \<and> k \<notin> set queued then [(OutboxAllowPublisher, k, [])] else [])
             @ [(OutboxPublishEvent, k, rq_Payload (ee_Event e))] @ batchEntries reg (k # queued) es k
      else batchEntries reg queued es k)"

lemma batchEntries_queued: "set queued \<inter> {k} = set queued' \<inter> {k} \<Longrightarrow> batchEntries reg queued es k = batchEntries reg queued' es k"
proof (induction es arbitrary: queued queued')
  case (Cons e es)
  have mem: "k \<in> set queued \<longleftrightarrow> k \<in> set queued'" using Cons.prems by blast
  have "set (k # queued) \<inter> {k} = set (k # queued') \<inter> {k}" by simp
  from Cons.IH [OF this] Cons.IH [OF Cons.prems] show ?case using mem by simp
qed simp

text \<open>The registration once, before the first event of its publisher, and the events in order.\<close>

lemma batchEntries_eq:
  "batchEntries reg queued es k =
     (let mine = filter (\<lambda>e. ee_pk e = k) es in
      if mine = [] then []
      else (if reg k \<or> k \<in> set queued then [] else [(OutboxAllowPublisher, k, [])])
             @ map (\<lambda>e. (OutboxPublishEvent, k, rq_Payload (ee_Event e))) mine)"
  by (induction es arbitrary: queued) (auto simp: Let_def)

definition tables_written :: "EventEnqueueRequest list \<Rightarrow> bridge_db \<Rightarrow> bridge_db \<Rightarrow> bool" where
  "tables_written pending d d' \<longleftrightarrow>
     bridge_events d' = fold (\<lambda>e m. mput m (ee_ref e) (ee_Mapping e)) pending (bridge_events d)
     \<and> source_operations d' = fold (\<lambda>e m. if ee_SourceOperation e \<noteq> [] then mput m (ee_ref e) (ee_SourceOperation e) else m)
         pending (source_operations d)
     \<and> sync_targets d' = sync_targets d \<and> sync_cursors d' = sync_cursors d
     \<and> publisher_registrations d' = publisher_registrations d \<and> publisher_purges d' = publisher_purges d"

definition batch_written ::
    "(string, bool) gomap \<Rightarrow> (string \<Rightarrow> bool) \<Rightarrow> string list \<Rightarrow> EventEnqueueRequest list \<Rightarrow> bridge_db \<Rightarrow> bridge_db \<Rightarrow> bool" where
  "batch_written registered reg queued pending d d' \<longleftrightarrow> outbox_inv d' \<and> tables_written pending d d'
     \<and> (\<forall>k. queue d' k = queue d k @ batchEntries reg queued pending k)
     \<and> length (outbox d') \<le> length (outbox d) + length pending + newcomers registered queued"

lemma newcomers_Cons:
  "(pk, False) \<in> set registered \<Longrightarrow> pk \<notin> set queued \<Longrightarrow> Suc (newcomers registered (pk # queued)) \<le> newcomers registered queued"
proof -
  assume a: "(pk, False) \<in> set registered" "pk \<notin> set queued"
  let ?P = "\<lambda>(k, b). \<not> b \<and> k \<notin> set (pk # queued)" and ?Q = "\<lambda>(k, b). \<not> b \<and> k \<notin> set queued"
  have "filter ?P registered = filter ?P (filter ?Q registered)" by (auto simp: filter_filter intro: filter_cong)
  also have "length \<dots> < length (filter ?Q registered)" using a by (intro length_filter_less [of "(pk, False)"]) auto
  finally show ?thesis by (simp add: newcomers_def)
qed

lemma newcomers_mono: "newcomers registered (pk # queued) \<le> newcomers registered queued"
  unfolding newcomers_def by (induction registered) auto

definition event_saved :: "EventEnqueueRequest \<Rightarrow> bridge_db \<Rightarrow> bridge_db" where
  "event_saved e d =
     (let d1 = q_UpsertEventMapping (ee_Mapping e) d
      in if ee_SourceOperation e \<noteq> [] then q_SaveSourceOperation (ee_ref e) (ee_SourceOperation e) d1 else d1)"

lemma event_saved_simps [simp]:
  "outbox (event_saved e d) = outbox d" "queue (event_saved e d) = queue d"
  "bridge_events (event_saved e d) = mput (bridge_events d) (ee_ref e) (ee_Mapping e)"
  "source_operations (event_saved e d) =
     (if ee_SourceOperation e \<noteq> [] then mput (source_operations d) (ee_ref e) (ee_SourceOperation e) else source_operations d)"
  "sync_targets (event_saved e d) = sync_targets d" "sync_cursors (event_saved e d) = sync_cursors d"
  "publisher_registrations (event_saved e d) = publisher_registrations d" "publisher_purges (event_saved e d) = publisher_purges d"
  by (auto simp: event_saved_def q_UpsertEventMapping_def q_SaveSourceOperation_def Let_def intro: queue_cong)

lemma outbox_inv_event_saved [simp]: "outbox_inv (event_saved e d) = outbox_inv d"
  by (rule outbox_inv_cong) (simp_all add: event_saved_def q_UpsertEventMapping_def q_SaveSourceOperation_def Let_def)

text \<open>One event of the second loop: the registration if it is due, then the event.\<close>

lemma after_write_event:
  assumes inv: "outbox_inv d" and key: "rq_AggregateKey (ee_Event e) = ee_pk e"
    and k: "\<And>d1 d2. (if allow then appended (allowRequest (ee_Event e)) d d1 else d1 = d) \<Longrightarrow>
      appended (ee_Event e) (event_saved e d1) d2 \<Longrightarrow> after k Q d2"
  shows "after (let rest = upsertEventMapping ''save reconciliation mapping'' (ee_Mapping e)
            (let enq = enqueueOutbox (ee_Event e) k
             in if ee_SourceOperation e \<noteq> []
                then saveSourceOperation ''save reconciliation identity'' (ee_ref e) (ee_SourceOperation e) enq
                else enq)
      in if allow then enqueueOutbox (allowRequest (ee_Event e)) rest else rest) Q d"
proof -
  have rest: "after (upsertEventMapping ''save reconciliation mapping'' (ee_Mapping e)
            (if ee_SourceOperation e \<noteq> []
             then saveSourceOperation ''save reconciliation identity'' (ee_ref e) (ee_SourceOperation e) (enqueueOutbox (ee_Event e) k)
             else enqueueOutbox (ee_Event e) k)) Q d1"
    if "outbox_inv d1" "\<And>d2. appended (ee_Event e) (event_saved e d1) d2 \<Longrightarrow> after k Q d2" for d1
  proof -
    have "after (enqueueOutbox (ee_Event e) k) Q (event_saved e d1)" using that by (intro after_enqueueOutbox) simp_all
    then show ?thesis unfolding upsertEventMapping_def saveSourceOperation_def event_saved_def Let_def
      by (cases "ee_SourceOperation e = []") (auto intro!: after_exec)
  qed
  show ?thesis unfolding Let_def
  proof (rule after_if)
    assume allow
    then show "after (enqueueOutbox (allowRequest (ee_Event e)) (upsertEventMapping ''save reconciliation mapping'' (ee_Mapping e)
            (if ee_SourceOperation e \<noteq> []
             then saveSourceOperation ''save reconciliation identity'' (ee_ref e) (ee_SourceOperation e) (enqueueOutbox (ee_Event e) k)
             else enqueueOutbox (ee_Event e) k))) Q d"
      using k by (intro after_enqueueOutbox [OF inv] rest) (auto simp: appended_inv)
  next
    assume "\<not> allow"
    then show "after (upsertEventMapping ''save reconciliation mapping'' (ee_Mapping e)
            (if ee_SourceOperation e \<noteq> []
             then saveSourceOperation ''save reconciliation identity'' (ee_ref e) (ee_SourceOperation e) (enqueueOutbox (ee_Event e) k)
             else enqueueOutbox (ee_Event e) k)) Q d"
      using k inv by (intro rest) auto
  qed
qed

lemma write_event_step:
  assumes reg: "mget registered (ee_pk e) = Some (reg (ee_pk e))"
    and ev: "rq_AggregateKey (ee_Event e) = ee_pk e" "rq_Operation (ee_Event e) = OutboxPublishEvent"
    and allow: "allow \<longleftrightarrow> \<not> reg (ee_pk e) \<and> ee_pk e \<notin> set queued"
    and d1: "if allow then appended (allowRequest (ee_Event e)) d d1 else d1 = d"
    and d2: "appended (ee_Event e) (event_saved e d1) d2"
    and rest: "batch_written registered reg (if allow then ee_pk e # queued else queued) es d2 d'"
  shows "batch_written registered reg queued (e # es) d d'"
proof -
  let ?pk = "ee_pk e" and ?q = "if allow then ee_pk e # queued else queued"
  have q1: "queue d1 k = queue d k @ (if allow \<and> k = ?pk then [(OutboxAllowPublisher, k, [])] else [])" for k
    using d1 ev by (auto simp: appended_def allowRequest_def request_entry_def split: if_splits)
  have q2: "queue d2 k = queue d1 k @ (if k = ?pk then [(OutboxPublishEvent, k, rq_Payload (ee_Event e))] else [])" for k
    using d2 ev by (auto simp: appended_def request_entry_def)
  have same: "batchEntries reg ?q es ?pk = batchEntries reg (?pk # queued) es ?pk" if "?pk \<in> set queued \<or> allow"
    using that by (intro batchEntries_queued) auto
  have known: "batchEntries reg queued es ?pk = batchEntries reg (?pk # queued) es ?pk" if "reg ?pk"
    using that by (simp add: batchEntries_eq)
  have queues: "queue d' k = queue d k @ batchEntries reg queued (e # es) k" for k
  proof (cases "k = ?pk")
    case True
    then have "batchEntries reg ?q es k = batchEntries reg (k # queued) es k"
      using same known allow by (cases allow) auto
    then show ?thesis using True rest allow by (auto simp: batch_written_def q2 q1)
  next
    case False
    then have "batchEntries reg ?q es k = batchEntries reg queued es k" by (intro batchEntries_queued) auto
    then show ?thesis using False rest by (auto simp: batch_written_def q2 q1)
  qed
  have "newcomers registered ?q + (if allow then 1 else 0) \<le> newcomers registered queued"
    using newcomers_Cons [of ?pk registered queued] reg allow by (auto dest: map_of_SomeD)
  moreover have "length (outbox d2) = length (outbox d) + 1 + (if allow then 1 else 0)"
    using d1 d2 by (auto simp: appended_def split: if_splits)
  moreover have "tables_written (e # es) d d'"
    using d1 appended_same [OF d2] rest by (auto simp: batch_written_def tables_written_def same_rest_def split: if_splits dest!: appended_same)
  ultimately show ?thesis using queues rest by (auto simp: batch_written_def)
qed

lemma after_writes:
  assumes reg: "\<And>e. e \<in> set pending \<Longrightarrow> mget registered (ee_pk e) = Some (reg (ee_pk e))"
    and ev: "\<And>e. e \<in> set pending \<Longrightarrow> rq_AggregateKey (ee_Event e) = ee_pk e \<and> rq_Operation (ee_Event e) = OutboxPublishEvent"
    and inv: "outbox_inv d" and k: "\<And>d'. batch_written registered reg queued pending d d' \<Longrightarrow> after k Q d'"
  shows "after (writePending registered queued pending k) Q d"
  using assms
proof (induction pending arbitrary: d queued)
  case Nil
  then show ?case by (auto simp: batch_written_def tables_written_def)
next
  case (Cons e es)
  let ?allow = "mget registered (ee_pk e) \<noteq> Some True \<and> ee_pk e \<notin> set queued"
  have reg: "mget registered (ee_pk e) = Some (reg (ee_pk e))"
    and ev: "rq_AggregateKey (ee_Event e) = ee_pk e" "rq_Operation (ee_Event e) = OutboxPublishEvent" using Cons.prems by auto
  then have allow: "?allow \<longleftrightarrow> \<not> reg (ee_pk e) \<and> ee_pk e \<notin> set queued" by auto
  note step = write_event_step [where registered = registered and reg = reg and allow = ?allow and queued = queued, OF reg ev allow]
  have "after (writePending registered (if ?allow then ee_pk e # queued else queued) es k) Q d2"
    if d1: "if ?allow then appended (allowRequest (ee_Event e)) d d1 else d1 = d" and d2: "appended (ee_Event e) (event_saved e d1) d2" for d1 d2
    by (rule Cons.IH [OF _ _ appended_inv [OF d2]]) (simp_all add: Cons.prems(1,2) Cons.prems(4) [OF step [OF d1 d2]])
  then show ?case unfolding writePending.simps Let_def
    by (rule after_write_event [OF Cons.prems(3) ev(1), of ?allow, unfolded Let_def])
qed

subsection \<open>The operation\<close>

definition reconciled :: "ReconciliationBatchRequest \<Rightarrow> bridge_db \<Rightarrow> bridge_db \<Rightarrow> bool" where
  "reconciled r d d' \<longleftrightarrow>
     (let pending = filter (\<lambda>e. \<not> current d e) (rb_Events r) in
      (\<forall>k. queue d' k = queue d k @ batchEntries (known d) [] pending k)
      \<and> int (length (outbox d')) \<le> rb_Limit r
      \<and> bridge_events d' = fold (\<lambda>e m. mput m (ee_ref e) (ee_Mapping e)) pending (bridge_events d)
      \<and> source_operations d' = fold (\<lambda>e m. if ee_SourceOperation e \<noteq> [] then mput m (ee_ref e) (ee_SourceOperation e) else m)
          pending (source_operations d)
      \<and> (\<forall>scope. q_SyncTargets scope d' = (if scope = rb_TargetScope r then sort (remdups (rb_Targets r)) else q_SyncTargets scope d))
      \<and> sync_cursors d' = (case rb_Cursor r of None \<Rightarrow> sync_cursors d
          | Some c \<Rightarrow> mput (sync_cursors d) (rb_CursorScope r, cu_Name c) (cu_Value c))
      \<and> publisher_registrations d' = publisher_registrations d \<and> publisher_purges d' = publisher_purges d \<and> outbox_inv d')"

abbreviation targetsOf :: "SourceScope \<Rightarrow> bridge_db \<Rightarrow> string list" where
  "targetsOf scope d \<equiv> map snd (filter (\<lambda>(s, _). s = scope) (sync_targets d))"

lemma insert_target:
  "targetsOf s (q_InsertSyncTarget scope t d) = targetsOf s d @ (if s = scope \<and> t \<notin> set (targetsOf s d) then [t] else [])"
  by (auto simp: q_InsertSyncTarget_def image_iff)

lemma insert_targets:
  "distinct (targetsOf scope d) \<Longrightarrow> distinct (targetsOf scope (fold (q_InsertSyncTarget scope) ts d))
     \<and> set (targetsOf scope (fold (q_InsertSyncTarget scope) ts d)) = set (targetsOf scope d) \<union> set ts"
proof (induction ts arbitrary: d)
  case (Cons t ts)
  have "distinct (targetsOf scope (q_InsertSyncTarget scope t d))" using Cons.prems by (simp only: insert_target) auto
  from Cons.IH [OF this] show ?case by (simp only: fold_simps insert_target) auto
qed simp

lemma insert_targets_other: "s \<noteq> scope \<Longrightarrow> targetsOf s (fold (q_InsertSyncTarget scope) ts d) = targetsOf s d"
proof (induction ts arbitrary: d)
  case (Cons t ts)
  from Cons.IH [OF Cons.prems, of "q_InsertSyncTarget scope t d"] show ?case
    using Cons.prems insert_target [of s scope t d] by (simp only: fold_simps) simp
qed simp

lemma insert_targets_rest: "\<exists>rows. fold (q_InsertSyncTarget scope) ts d = d\<lparr>sync_targets := rows\<rparr>"
proof (induction ts arbitrary: d)
  case Nil
  show ?case by (rule exI [of _ "sync_targets d"]) simp
next
  case (Cons t ts)
  obtain rows where "fold (q_InsertSyncTarget scope) ts (q_InsertSyncTarget scope t d) = (q_InsertSyncTarget scope t d)\<lparr>sync_targets := rows\<rparr>"
    using Cons by blast
  moreover have "\<exists>rows'. q_InsertSyncTarget scope t d = d\<lparr>sync_targets := rows'\<rparr>"
    using exI [of "\<lambda>rows. d = d\<lparr>sync_targets := rows\<rparr>" "sync_targets d"] by (auto simp: q_InsertSyncTarget_def)
  ultimately show ?case by auto
qed

definition targets_replaced :: "SourceScope \<Rightarrow> string list \<Rightarrow> bridge_db \<Rightarrow> bridge_db" where
  "targets_replaced scope ts d = fold (q_InsertSyncTarget scope) ts (q_ReplaceSyncTargetsDelete scope d)"

lemma targets_replaced_rest: "\<exists>rows. targets_replaced scope ts d = d\<lparr>sync_targets := rows\<rparr>"
  using insert_targets_rest [of scope ts "q_ReplaceSyncTargetsDelete scope d"] by (auto simp: targets_replaced_def q_ReplaceSyncTargetsDelete_def)

lemma targets_replaced:
  "q_SyncTargets s (targets_replaced scope ts d) = (if s = scope then sort (remdups ts) else q_SyncTargets s d)"
proof (cases "s = scope")
  case True
  have none: "targetsOf scope (q_ReplaceSyncTargetsDelete scope d) = []"
    by (auto simp: q_ReplaceSyncTargetsDelete_def filter_filter filter_empty_conv)
  then have "mset (targetsOf scope (targets_replaced scope ts d)) = mset (remdups ts)"
    using insert_targets [of scope "q_ReplaceSyncTargetsDelete scope d" ts]
    by (subst set_eq_iff_mset_eq_distinct [symmetric]) (simp_all add: targets_replaced_def)
  then show ?thesis using True by (simp only: q_SyncTargets_def if_True) (metis mset_sort properties_for_sort sorted_sort)
next
  case False
  have "targetsOf s (q_ReplaceSyncTargetsDelete scope d) = targetsOf s d"
    using False by (auto simp: q_ReplaceSyncTargetsDelete_def filter_filter intro!: arg_cong [where f = "map snd"] filter_cong)
  then show ?thesis using False insert_targets_other [OF False, of ts "q_ReplaceSyncTargetsDelete scope d"]
    by (simp add: q_SyncTargets_def targets_replaced_def)
qed

lemma after_targets_replaced:
  assumes "after k Q (targets_replaced scope ts d)"
  shows "after (exec what (q_ReplaceSyncTargetsDelete scope) (insertTargets scope ts k)) Q d"
proof (rule after_exec)
  have "after k Q (fold (q_InsertSyncTarget scope) ts d') \<Longrightarrow> after (insertTargets scope ts k) Q d'" for d'
    by (induction ts arbitrary: d') (auto intro: after_exec)
  then show "after (insertTargets scope ts k) Q (q_ReplaceSyncTargetsDelete scope d)" using assms by (simp add: targets_replaced_def)
qed

lemma known_cong: "outbox d' = outbox d \<Longrightarrow> publisher_registrations d' = publisher_registrations d \<Longrightarrow> known d' = known d"
  by (simp add: known_def q_PublisherRegisteredOrPending_def q_PublisherRegistered_def fun_eq_iff)

lemma reconcile_finish:
  assumes inv: "outbox_inv d" and scan: "scanned d registered pending needed" and pending: "pending = filter (\<lambda>e. \<not> current d e) (rb_Events r)"
    and acc: "list_all (acceptable env (rb_EventScopes r) d) (rb_Events r)"
    and room: "\<not> (rb_Limit r \<le> 0 \<or> q_OutboxCount d + needed > rb_Limit r)"
  shows "after (exec ''clear sync targets'' (q_ReplaceSyncTargetsDelete (rb_TargetScope r))
           (insertTargets (rb_TargetScope r) (rb_Targets r)
           (writePending registered [] pending
           (saveCursorOpt ''save reconciliation cursor'' (rb_CursorScope r) (rb_Cursor r) (return_ok True)))))
         (\<lambda>commit d'. commit \<and> reconciled r d d') d"
proof (rule after_targets_replaced)
  obtain rows where rows: "targets_replaced (rb_TargetScope r) (rb_Targets r) d = d\<lparr>sync_targets := rows\<rparr>" (is "?d1 = _")
    using targets_replaced_rest by blast
  have inv1: "outbox_inv ?d1" using inv unfolding rows by (subst outbox_inv_cong [of _ d]) simp_all
  have q1: "queue ?d1 = queue d" unfolding rows by (rule queue_cong) simp
  show "after (writePending registered [] pending
      (saveCursorOpt ''save reconciliation cursor'' (rb_CursorScope r) (rb_Cursor r) (return_ok True))) (\<lambda>commit d'. commit \<and> reconciled r d d') ?d1"
  proof (rule after_writes [where reg = "known d", OF _ _ inv1])
    show "mget registered (ee_pk e) = Some (known d (ee_pk e))" if e: "e \<in> set pending" for e
    proof -
      obtain b where "mget registered (ee_pk e) = Some b" using scan e by (auto simp: scanned_def)
      then show ?thesis using scan by (auto simp: scanned_def dest!: map_of_SomeD)
    qed
    show "rq_AggregateKey (ee_Event e) = ee_pk e \<and> rq_Operation (ee_Event e) = OutboxPublishEvent" if "e \<in> set pending" for e
      using acc that acceptable_event [of env "rb_EventScopes r" d e] by (auto simp: list_all_iff pending)
    fix d2 assume w: "batch_written registered (known d) [] pending ?d1 d2"
    have "int (length (outbox d2)) \<le> rb_Limit r"
      using w scan room by (simp add: batch_written_def scanned_def q_OutboxCount_def rows)
    moreover have "q_SyncTargets s d2 = q_SyncTargets s ?d1" for s using w by (simp add: batch_written_def tables_written_def q_SyncTargets_def)
    moreover have "sync_cursors d2 = sync_cursors d" using w by (simp add: batch_written_def tables_written_def rows)
    moreover have "queue (d2\<lparr>sync_cursors := x\<rparr>) = queue d2" for x by (rule queue_cong) simp
    moreover have "outbox_inv (d2\<lparr>sync_cursors := x\<rparr>) = outbox_inv d2" for x by (rule outbox_inv_cong) simp_all
    ultimately have "reconciled r d (cursor_saved (rb_CursorScope r) (rb_Cursor r) d2)"
      using w q1 targets_replaced [of _ "rb_TargetScope r" "rb_Targets r" d]
      by (cases "rb_Cursor r") (auto simp: reconciled_def Let_def pending [symmetric] off_queue_rest batch_written_def tables_written_def
          cursor_saved_def q_SaveCursor_def rows q_SyncTargets_def)
    then show "after (saveCursorOpt ''save reconciliation cursor'' (rb_CursorScope r) (rb_Cursor r) (return_ok True))
        (\<lambda>commit d'. commit \<and> reconciled r d d') d2"
      by (auto simp: after_return_ok intro!: after_cursor_saved)
  qed
qed

lemma reconcile_atomic:
  assumes inv: "outbox_inv d"
  shows "atomic_op (ReconcileBatch env r) (\<lambda>_ d'. reconciled r d d' \<and> list_all (acceptable env (rb_EventScopes r) d) (rb_Events r)) d"
  unfolding ReconcileBatch_def
proof (intro atomic_transaction after_query after_guard)
  let ?Q = "\<lambda>commit d'. if commit then reconciled r d d' \<and> list_all (acceptable env (rb_EventScopes r) d) (rb_Events r)
    else reconciled r d d \<and> list_all (acceptable env (rb_EventScopes r) d) (rb_Events r)"
  show "after (scanEvents env (rb_EventScopes r) (rb_Events r) [] [] 0 (\<lambda>registered pending needed.
           guard (rb_Limit r \<le> 0 \<or> q_OutboxCount d + needed > rb_Limit r) ErrOutboxFull
           (exec ''clear sync targets'' (q_ReplaceSyncTargetsDelete (rb_TargetScope r))
           (insertTargets (rb_TargetScope r) (rb_Targets r)
           (writePending registered [] pending
           (saveCursorOpt ''save reconciliation cursor'' (rb_CursorScope r) (rb_Cursor r) (return_ok True))))))) ?Q d"
  proof (rule after_scan)
    fix registered pending needed
    assume scan: "scanned d registered pending needed" "pending = [] @ filter (\<lambda>e. \<not> current d e) (rb_Events r)"
      and acc: "list_all (acceptable env (rb_EventScopes r) d) (rb_Events r)"
    show "after (guard (rb_Limit r \<le> 0 \<or> q_OutboxCount d + needed > rb_Limit r) ErrOutboxFull
           (exec ''clear sync targets'' (q_ReplaceSyncTargetsDelete (rb_TargetScope r))
           (insertTargets (rb_TargetScope r) (rb_Targets r)
           (writePending registered [] pending
           (saveCursorOpt ''save reconciliation cursor'' (rb_CursorScope r) (rb_Cursor r) (return_ok True)))))) ?Q d"
      using scan acc by (intro after_guard after_mono [OF reconcile_finish [OF inv scan(1) _ acc]]) auto
  qed (simp add: scanned_def newcomers_def)
qed

text \<open>C16. A reconciliation is all or nothing and publishes only what changed. From any reachable
  database and with any statement failing: an error leaves the database as it was. Success means
  that every event was valid, belongs to one of the scopes and its author is not purged; each
  publisher's queue received its pending events in order (those not stored with the same
  identity), with its registration before them when it has none; the mappings and identities of
  the pending events, the targets of the scope and the cursor are stored, everything else is as it
  was, and the outbox is within the limit.\<close>

theorem reconcile_exact:
  "case ReconcileBatch env r \<lparr>sq_faults = fs, sq_db = run_ops env ops empty_db\<rparr> of
     (Inl e, s') \<Rightarrow> sq_db s' = run_ops env ops empty_db
   | (Inr _, s') \<Rightarrow> reconciled r (run_ops env ops empty_db) (sq_db s')
       \<and> list_all (acceptable env (rb_EventScopes r) (run_ops env ops empty_db)) (rb_Events r)"
  using reconcile_atomic [OF reachable_outbox_inv [of env ops], of env r, unfolded atomic_op_def, rule_format, of fs] .

end
