(* ===== verification/Bridge_Owner.thy ===== *)
theory Bridge_Owner
  imports Bridge_Nostrmap Bridge_Reconcile
begin

text \<open>
  The owner of the bridge (\<^verbatim>\<open>cmd/nostr-bridge/owner/coordinator.go\<close>) and the targets of Bluesky
  (\<^verbatim>\<open>bluesky/reconcile.go\<close>): snapshots of what the sources follow become profiles, follow sets and
  one follow list of the owner, stored by one reconciliation. Sets are lists without repetitions,
  in any order. The digest of an event's contents is a field of \<open>owner_env\<close>.
\<close>

subsection \<open>Targets of Bluesky\<close>

record Actor =
  ac_DID :: string

record BskyList =
  bl_URI :: string
  bl_Name :: string
  bl_Description :: string
  bl_Members :: "Actor list"

record TargetSet =
  tg_Follows :: "string list"
  tg_Lists :: "(string, string list) gomap"
  tg_ListMetadata :: "(string, BskyList) gomap"
  tg_Union :: "string list"

record TargetSnapshot =
  ts_Follows :: "ActorIdentity list"
  ts_Lists :: "(string, SourceList) gomap"
  ts_Union :: "ActorIdentity list"

definition actorsToSet :: "Actor list \<Rightarrow> string list" where
  "actorsToSet actors = remdups (filter (\<lambda>d. d \<noteq> []) (map (\<lambda>a. TrimSpace (ac_DID a)) actors))"

text \<open>The loop over the configured lists; \<open>fetch\<close> answers the service's lists.\<close>

fun reconcileLists :: "(string \<Rightarrow> 'e + BskyList) \<Rightarrow> string list \<Rightarrow> TargetSet \<Rightarrow> 'e + TargetSet" where
  "reconcileLists fetch [] t = Inr t"
| "reconcileLists fetch (uri # uris) t =
     (if isBlank uri then reconcileLists fetch uris t
      else
        case fetch uri of
          Inl e \<Rightarrow> Inl e
        | Inr l \<Rightarrow>
            let members = actorsToSet (bl_Members l)
            in reconcileLists fetch uris
                 (t\<lparr>tg_Lists := mput (tg_Lists t) uri members,
                    tg_ListMetadata := mput (tg_ListMetadata t) uri (if bl_URI l = [] then l\<lparr>bl_URI := uri\<rparr> else l),
                    tg_Union := remdups (tg_Union t @ members)\<rparr>))"

definition ReconcileTargets :: "('e + Actor list) \<Rightarrow> (string \<Rightarrow> 'e + BskyList) \<Rightarrow> string list \<Rightarrow> 'e + TargetSet" where
  "ReconcileTargets follows fetch uris =
     (case follows of
        Inl e \<Rightarrow> Inl e
      | Inr actors \<Rightarrow>
          reconcileLists fetch uris
            \<lparr>tg_Follows = actorsToSet actors, tg_Lists = [], tg_ListMetadata = [], tg_Union = actorsToSet actors\<rparr>)"

definition identitySet :: "string list \<Rightarrow> ActorIdentity list" where
  "identitySet dids = map (\<lambda>d. \<lparr>ai_Provider = ''bluesky'', ai_ID = d\<rparr>) dids"

definition listSnapshot :: "(string, BskyList) gomap \<Rightarrow> string \<times> string list \<Rightarrow> string \<times> SourceList" where
  "listSnapshot metadata l =
     (let (i, members) = l;
          m = (case mget metadata i of Some m \<Rightarrow> m | None \<Rightarrow> \<lparr>bl_URI = [], bl_Name = [], bl_Description = [], bl_Members = []\<rparr>)
      in (i, \<lparr>sl_ID = (if bl_URI m = [] then i else bl_URI m), sl_Title = bl_Name m, sl_Description = bl_Description m,
              sl_Members = identitySet members\<rparr>))"

definition Snapshot :: "TargetSet \<Rightarrow> TargetSnapshot" where
  "Snapshot t = \<lparr>ts_Follows = identitySet (tg_Follows t), ts_Lists = map (listSnapshot (tg_ListMetadata t)) (tg_Lists t),
     ts_Union = identitySet (tg_Union t)\<rparr>"

subsection \<open>The coordinator\<close>

record OwnerOptions =
  oo_MasterSeed :: string
  oo_OwnerID :: string
  oo_OwnerName :: string
  oo_OwnerAbout :: string
  oo_OwnerPicture :: string
  oo_OutboxLimit :: int
  oo_EnabledScopes :: "SourceScope list"

record Coordinator =
  co_snapshots :: "(SourceScope, TargetSnapshot) gomap"
  co_hydrated :: bool
  co_lastCreatedAt :: int

record owner_env =
  oe_nostr :: nostr_env
  oe_keys :: nostr_keys
  contentDigest :: "string \<times> int \<times> string list list \<times> string \<Rightarrow> string"

datatype owner_error =
    OwnerStore string store_error
  | OwnerMap map_error
  | OwnerMsg string

definition replaceableCreatedAtCursor :: string where
  "replaceableCreatedAtCursor = ''replaceable_created_at''"

definition NewCoordinator :: Coordinator where
  "NewCoordinator = \<lparr>co_snapshots = [], co_hydrated = False, co_lastCreatedAt = 0\<rparr>"

definition ownerScope :: "OwnerOptions \<Rightarrow> SourceScope" where
  "ownerScope opts = \<lparr>Provider = ''bridge-owner'', Account = oo_OwnerID opts\<rparr>"

definition ownerIdentity :: "OwnerOptions \<Rightarrow> ActorIdentity" where
  "ownerIdentity opts = \<lparr>ai_Provider = ''bridge-owner'', ai_ID = oo_OwnerID opts\<rparr>"

definition eventIdentity :: "owner_env \<Rightarrow> NostrEvent \<Rightarrow> string" where
  "eventIdentity env e = ''sha256:'' @ contentDigest env (ev_PubKey e, ev_Kind e, ev_Tags e, ev_Content e)"

definition eventRequest :: "owner_env \<Rightarrow> SourceScope \<Rightarrow> string \<Rightarrow> NostrEvent \<Rightarrow> int \<Rightarrow> EventEnqueueRequest" where
  "eventRequest env scope uri e now =
     (let payload = (case encodeEvent (oe_nostr env) e of Some p \<Rightarrow> p | None \<Rightarrow> [])
      in \<lparr>ee_Mapping = \<lparr>em_Source = \<lparr>Scope = scope, URI = uri\<rparr>, NostrEventID = ev_ID e, SourceKind = ''reconciliation'',
            AuthorPubKey = ev_PubKey e, em_UpdatedAt = unix now\<rparr>,
          ee_Event = \<lparr>rq_AggregateKey = ev_PubKey e, rq_Operation = OutboxPublishEvent, rq_PubKey = ev_PubKey e, rq_Payload = payload,
            rq_AvailableAt = now\<rparr>,
          ee_Limit = 0, ee_Cursor = None, ee_SourceOperation = eventIdentity env e\<rparr>)"

definition profileURI :: "Profile \<Rightarrow> string" where
  "profileURI p = ''profile/'' @ ai_Provider (pf_Identity p) @ '':'' @ ai_ID (pf_Identity p)"

fun profileRequests :: "owner_env \<Rightarrow> OwnerOptions \<Rightarrow> SourceScope \<Rightarrow> int \<Rightarrow> int \<Rightarrow> Profile list \<Rightarrow> owner_error + EventEnqueueRequest list" where
  "profileRequests env opts scope created now [] = Inr []"
| "profileRequests env opts scope created now (p # ps) =
     (case ProfileEvent (oe_keys env) (oo_MasterSeed opts) p created of
        Inl e \<Rightarrow> Inl (OwnerMap e)
      | Inr e \<Rightarrow> map_sum id (Cons (eventRequest env scope (profileURI p) e now))
          (profileRequests env opts scope created now ps))"

definition qualifiedList :: "SourceScope \<Rightarrow> string \<times> SourceList \<Rightarrow> SourceList" where
  "qualifiedList scope l = (snd l)\<lparr>sl_ID := Provider scope @ '':'' @ (if sl_ID (snd l) = [] then fst l else sl_ID (snd l))\<rparr>"

definition listURI :: "SourceScope \<Rightarrow> string \<times> SourceList \<Rightarrow> string" where
  "listURI scope l = ''list/'' @ sl_ID (qualifiedList scope l)"

fun listRequests ::
    "owner_env \<Rightarrow> OwnerOptions \<Rightarrow> SourceScope \<Rightarrow> int \<Rightarrow> int \<Rightarrow> (string \<times> SourceList) list \<Rightarrow> owner_error + EventEnqueueRequest list" where
  "listRequests env opts scope created now [] = Inr []"
| "listRequests env opts scope created now (l # ls) =
     (case FollowSetEvent (oe_keys env) (oo_MasterSeed opts) (ownerIdentity opts) (qualifiedList scope l) created of
        Inl e \<Rightarrow> Inl (OwnerMap e)
      | Inr e \<Rightarrow> map_sum id (Cons (eventRequest env scope (listURI scope l) e now))
          (listRequests env opts scope created now ls))"

definition providerEvents ::
    "owner_env \<Rightarrow> OwnerOptions \<Rightarrow> SourceScope \<Rightarrow> TargetSnapshot \<Rightarrow> Profile list \<Rightarrow> int \<Rightarrow> int \<Rightarrow> owner_error + EventEnqueueRequest list" where
  "providerEvents env opts scope snap profiles created now =
     (case profileRequests env opts scope created now profiles of
        Inl e \<Rightarrow> Inl e
      | Inr rs \<Rightarrow> map_sum id (append rs) (listRequests env opts scope created now (ts_Lists snap)))"

definition allIdentities :: "(SourceScope, TargetSnapshot) gomap \<Rightarrow> ActorIdentity list" where
  "allIdentities snapshots = remdups (concat (map (ts_Union \<circ> snd) snapshots))"

definition ownerEvents ::
    "owner_env \<Rightarrow> OwnerOptions \<Rightarrow> (SourceScope, TargetSnapshot) gomap \<Rightarrow> int \<Rightarrow> int \<Rightarrow> owner_error + EventEnqueueRequest list" where
  "ownerEvents env opts snapshots created now =
     (case ProfileEvent (oe_keys env) (oo_MasterSeed opts)
             \<lparr>pf_Identity = ownerIdentity opts, pf_DisplayName = oo_OwnerName opts, pf_Description = oo_OwnerAbout opts,
              pf_AvatarURL = oo_OwnerPicture opts, pf_ProfileURL = []\<rparr> created of
        Inl e \<Rightarrow> Inl (OwnerMap e)
      | Inr profile \<Rightarrow>
          (case FollowEvent (oe_keys env) (oo_MasterSeed opts) (ownerIdentity opts) (allIdentities snapshots) created of
             Inl e \<Rightarrow> Inl (OwnerMap e)
           | Inr follow \<Rightarrow>
               Inr [eventRequest env (ownerScope opts) ''owner/profile'' profile now,
                    eventRequest env (ownerScope opts) ''owner/follows'' follow now]))"

fun hydrateScopes :: "SourceScope list \<Rightarrow> (SourceScope, TargetSnapshot) gomap \<Rightarrow> sq \<Rightarrow> (owner_error + (SourceScope, TargetSnapshot) gomap) \<times> sq" where
  "hydrateScopes [] m s = (Inr m, s)"
| "hydrateScopes (scope # scopes) m s =
     (case SyncTargets scope s of
        (Inl e, s1) \<Rightarrow> (Inl (OwnerStore (''hydrate '' @ Provider scope @ '' target snapshot'') e), s1)
      | (Inr ts, s1) \<Rightarrow>
          hydrateScopes scopes
            (mput m scope \<lparr>ts_Follows = [], ts_Lists = [], ts_Union = map (\<lambda>t. \<lparr>ai_Provider = Provider scope, ai_ID = t\<rparr>) ts\<rparr>) s1)"

definition hydrate :: "OwnerOptions \<Rightarrow> Coordinator \<Rightarrow> sq \<Rightarrow> (owner_error + Coordinator) \<times> sq" where
  "hydrate opts co s =
     (if co_hydrated co then (Inr co, s)
      else
        case hydrateScopes (oo_EnabledScopes opts) [] s of
          (Inl e, s1) \<Rightarrow> (Inl e, s1)
        | (Inr m, s1) \<Rightarrow>
            (case Cursor (ownerScope opts) replaceableCreatedAtCursor s1 of
               (Inr v, s2) \<Rightarrow>
                 (case parseInt64 v of
                    None \<Rightarrow> (Inl (OwnerMsg ''hydrate owner replaceable timestamp: invalid cursor''), s2)
                  | Some t \<Rightarrow>
                      if t < 0 then (Inl (OwnerMsg ''hydrate owner replaceable timestamp: invalid cursor''), s2)
                      else (Inr \<lparr>co_snapshots = m, co_hydrated = True, co_lastCreatedAt = t\<rparr>, s2))
             | (Inl e, s2) \<Rightarrow>
                 if isNoRows e then (Inr \<lparr>co_snapshots = m, co_hydrated = True, co_lastCreatedAt = co_lastCreatedAt co\<rparr>, s2)
                 else (Inl (OwnerStore ''hydrate owner replaceable timestamp'' e), s2)))"

definition nextCreatedAt :: "int \<Rightarrow> Coordinator \<Rightarrow> int" where
  "nextCreatedAt now co = (if int64 (unix now) \<le> co_lastCreatedAt co then int64 (co_lastCreatedAt co + 1) else int64 (unix now))"

definition batchRequest ::
    "OwnerOptions \<Rightarrow> SourceScope \<Rightarrow> TargetSnapshot \<Rightarrow> EventEnqueueRequest list \<Rightarrow> int \<Rightarrow> ReconciliationBatchRequest" where
  "batchRequest opts scope snap events created =
     \<lparr>rb_TargetScope = scope, rb_Targets = sort (map ai_ID (ts_Union snap)), rb_EventScopes = [scope, ownerScope opts], rb_Events = events,
      rb_CursorScope = ownerScope opts, rb_Cursor = Some \<lparr>cu_Name = replaceableCreatedAtCursor, cu_Value = sprint created\<rparr>,
      rb_Limit = oo_OutboxLimit opts\<rparr>"

text \<open>The answer, the coordinator afterwards, and the store. Hydration stays when a later step
  fails.\<close>

definition OwnerReconcile ::
    "owner_env \<Rightarrow> OwnerOptions \<Rightarrow> int \<Rightarrow> SourceScope \<Rightarrow> TargetSnapshot \<Rightarrow> Profile list \<Rightarrow> Coordinator \<Rightarrow> sq
      \<Rightarrow> (owner_error + unit) \<times> Coordinator \<times> sq" where
  "OwnerReconcile env opts now scope snap profiles co s =
     (case hydrate opts co s of
        (Inl e, s1) \<Rightarrow> (Inl e, co, s1)
      | (Inr co1, s1) \<Rightarrow>
          let candidate = mput (co_snapshots co1) scope snap;
              created = nextCreatedAt now co1
          in case providerEvents env opts scope snap profiles created now of
               Inl e \<Rightarrow> (Inl e, co1, s1)
             | Inr pes \<Rightarrow>
                 (case ownerEvents env opts candidate created now of
                    Inl e \<Rightarrow> (Inl e, co1, s1)
                  | Inr oes \<Rightarrow>
                      (case ReconcileBatch (oe_nostr env) (batchRequest opts scope snap (pes @ oes) created) s1 of
                         (Inl e, s2) \<Rightarrow> (Inl (OwnerStore [] e), co1, s2)
                       | (Inr _, s2) \<Rightarrow> (Inr (), co1\<lparr>co_snapshots := candidate, co_lastCreatedAt := created\<rparr>, s2))))"

subsection \<open>Targets are the union of what is followed\<close>

lemma reconcileLists_union:
  "reconcileLists fetch uris t = Inr t' \<Longrightarrow> tg_Follows t' = tg_Follows t
     \<and> set (tg_Union t') = set (tg_Union t) \<union> (\<Union>uri \<in> {u \<in> set uris. \<not> isBlank u}. case fetch uri of Inr l \<Rightarrow> set (actorsToSet (bl_Members l)) | Inl _ \<Rightarrow> {})"
proof (induction fetch uris t rule: reconcileLists.induct)
  case (2 fetch uri uris t)
  then show ?case by (cases "isBlank uri"; cases "fetch uri") (auto simp: Let_def)
qed auto

subsection \<open>Hydration reads\<close>

lemma hydrateScopes_reads: "sq_db (snd (hydrateScopes scopes m s)) = sq_db s"
proof (induction scopes arbitrary: m s)
  case (Cons scope scopes)
  obtain r s1 where run: "SyncTargets scope s = (r, s1)" by (rule prod.exhaust)
  then have "sq_db s1 = sq_db s"
    by (auto simp: SyncTargets_def query_def stmt_def passed_def return_ok_def split: if_splits)
  then show ?case using run Cons by (cases r) simp_all
qed simp

lemma hydrate_reads: "sq_db (snd (hydrate opts co s)) = sq_db s"
proof (cases "co_hydrated co")
  case False
  obtain r s1 where run: "hydrateScopes (oo_EnabledScopes opts) [] s = (r, s1)" by (rule prod.exhaust)
  then have s1: "sq_db s1 = sq_db s" using hydrateScopes_reads [of "oo_EnabledScopes opts" "[]" s] by simp
  show ?thesis using False run s1
    by (cases r; cases rule: row_cases [of "''find sync cursor''" "q_Cursor (ownerScope opts) replaceableCreatedAtCursor" s1, folded Cursor_def])
      (auto simp: hydrate_def split: option.split)
qed (simp add: hydrate_def)

text \<open>The last time the owner used is the one that is stored, once the coordinator has read it.\<close>

definition in_step :: "OwnerOptions \<Rightarrow> Coordinator \<Rightarrow> bridge_db \<Rightarrow> bool" where
  "in_step opts co d \<longleftrightarrow> 0 \<le> co_lastCreatedAt co
     \<and> (co_hydrated co \<longrightarrow> (\<forall>v. q_Cursor (ownerScope opts) replaceableCreatedAtCursor d = Some v \<longrightarrow> parseInt64 v = Some (co_lastCreatedAt co)))"

lemma hydrate_in_step:
  assumes "hydrate opts co s = (Inr co1, s1)" "in_step opts co (sq_db s)"
  shows "co_hydrated co1 \<and> in_step opts co1 (sq_db s)
    \<and> (q_Cursor (ownerScope opts) replaceableCreatedAtCursor (sq_db s) = None \<longrightarrow> co_lastCreatedAt co1 = co_lastCreatedAt co)"
proof (cases "co_hydrated co")
  case False
  obtain r s2 where run: "hydrateScopes (oo_EnabledScopes opts) [] s = (r, s2)" by (rule prod.exhaust)
  then have s2: "sq_db s2 = sq_db s" using hydrateScopes_reads [of "oo_EnabledScopes opts" "[]" s] by simp
  obtain m where "r = Inr m" using assms(1) False run by (cases r) (simp_all add: hydrate_def)
  then show ?thesis using assms False run s2
    by (cases rule: row_cases [of "''find sync cursor''" "q_Cursor (ownerScope opts) replaceableCreatedAtCursor" s2, folded Cursor_def])
      (auto simp: hydrate_def in_step_def split: option.splits if_splits)
qed (use assms in \<open>simp add: hydrate_def\<close>)

subsection \<open>What a reconciliation of the owner does\<close>

lemma owner_success:
  assumes "OwnerReconcile env opts now scope snap profiles co s = (Inr (), co', s')" "outbox_inv (sq_db s)"
  obtains co1 pes oes where "\<exists>s1. hydrate opts co s = (Inr co1, s1)"
    "providerEvents env opts scope snap profiles (nextCreatedAt now co1) now = Inr pes"
    "ownerEvents env opts (mput (co_snapshots co1) scope snap) (nextCreatedAt now co1) now = Inr oes"
    "co' = co1\<lparr>co_snapshots := mput (co_snapshots co1) scope snap, co_lastCreatedAt := nextCreatedAt now co1\<rparr>"
    "reconciled (batchRequest opts scope snap (pes @ oes) (nextCreatedAt now co1)) (sq_db s) (sq_db s')"
proof -
  obtain r s1 where h: "hydrate opts co s = (r, s1)" by (rule prod.exhaust)
  then have d: "sq_db s1 = sq_db s" using hydrate_reads [of opts co s] by simp
  obtain co1 where co1: "r = Inr co1" using assms(1) h by (cases r) (simp_all add: OwnerReconcile_def)
  let ?t = "nextCreatedAt now co1" and ?c = "mput (co_snapshots co1) scope snap"
  obtain pes where p: "providerEvents env opts scope snap profiles ?t now = Inr pes"
    using assms(1) h co1 by (cases "providerEvents env opts scope snap profiles ?t now") (simp_all add: OwnerReconcile_def Let_def)
  obtain oes where o: "ownerEvents env opts ?c ?t now = Inr oes"
    using assms(1) h co1 p by (cases "ownerEvents env opts ?c ?t now") (simp_all add: OwnerReconcile_def Let_def)
  let ?b = "batchRequest opts scope snap (pes @ oes) ?t"
  obtain rr s2 where run: "ReconcileBatch (oe_nostr env) ?b s1 = (rr, s2)" by (rule prod.exhaust)
  have "rr = Inr ()" "s2 = s'" "co' = co1\<lparr>co_snapshots := ?c, co_lastCreatedAt := ?t\<rparr>"
    using assms(1) h co1 p o run by (cases rr; simp add: OwnerReconcile_def Let_def)+
  moreover have "reconciled ?b (sq_db s) (sq_db s2)" if "rr = Inr ()"
    using atomic_run [OF reconcile_atomic run] assms(2) d that by simp
  ultimately show ?thesis using that [of co1 pes oes] h co1 p o by simp
qed

lemma nextCreatedAt_grows:
  assumes "0 \<le> co_lastCreatedAt co" "co_lastCreatedAt co < 2 ^ 63 - 1"
  shows "co_lastCreatedAt co < nextCreatedAt now co \<and> nextCreatedAt now co < 2 ^ 63"
  using assms int64_range [of "unix now"] by (auto simp: nextCreatedAt_def)

lemma nextCreatedAt_range: "- (2 ^ 63) \<le> nextCreatedAt now co \<and> nextCreatedAt now co < 2 ^ 63"
  using int64_range [of "co_lastCreatedAt co + 1"] int64_range [of "unix now"] by (auto simp: nextCreatedAt_def)

text \<open>A history of the owner: reconciliations that succeed or fail, restarts of the process, and
  anything else that happens to the database but leaves the owner's own cursor. The last component
  lists the times of the successful reconciliations.\<close>

inductive owner_run :: "owner_env \<Rightarrow> OwnerOptions \<Rightarrow> Coordinator \<Rightarrow> bridge_db \<Rightarrow> int list \<Rightarrow> bool" for env opts where
  start: "outbox_inv d \<Longrightarrow> q_Cursor (ownerScope opts) replaceableCreatedAtCursor d = None \<Longrightarrow> owner_run env opts NewCoordinator d []"
| reconcile: "owner_run env opts co d ts \<Longrightarrow>
    OwnerReconcile env opts now scope snap profiles co \<lparr>sq_faults = fs, sq_db = d\<rparr> = (Inr (), co', s') \<Longrightarrow>
    owner_run env opts co' (sq_db s') (ts @ [co_lastCreatedAt co'])"
| fail: "owner_run env opts co d ts \<Longrightarrow>
    OwnerReconcile env opts now scope snap profiles co \<lparr>sq_faults = fs, sq_db = d\<rparr> = (Inl e, co', s') \<Longrightarrow>
    owner_run env opts co' (sq_db s') ts"
| restart: "owner_run env opts co d ts \<Longrightarrow> owner_run env opts NewCoordinator d ts"
| other: "owner_run env opts co d ts \<Longrightarrow> outbox_inv d' \<Longrightarrow>
    q_Cursor (ownerScope opts) replaceableCreatedAtCursor d' = q_Cursor (ownerScope opts) replaceableCreatedAtCursor d \<Longrightarrow>
    owner_run env opts co d' ts"

lemma owner_failure:
  assumes "OwnerReconcile env opts now scope snap profiles co s = (Inl e, co', s')" "outbox_inv (sq_db s)"
  shows "sq_db s' = sq_db s \<and> (co' = co \<or> (\<exists>s1. hydrate opts co s = (Inr co', s1)))"
proof -
  obtain r s1 where h: "hydrate opts co s = (r, s1)" by (rule prod.exhaust)
  then have d: "sq_db s1 = sq_db s" using hydrate_reads [of opts co s] by simp
  show ?thesis
  proof (cases r)
    case (Inl e)
    then show ?thesis using assms(1) h d by (simp add: OwnerReconcile_def)
  next
    case (Inr co1)
    have "sq_db s2 = sq_db s" if "ReconcileBatch (oe_nostr env) b s1 = (Inl e2, s2)" for b e2 s2
      using atomic_run [OF reconcile_atomic that] assms(2) d by simp
    then show ?thesis using assms(1) h d Inr by (auto simp: OwnerReconcile_def Let_def split: sum.splits prod.splits)
  qed
qed

lemma cursor_after:
  "reconciled (batchRequest opts scope snap events created) d d' \<Longrightarrow>
     q_Cursor (ownerScope opts) replaceableCreatedAtCursor d' = Some (sprint created)"
  by (simp add: reconciled_def Let_def batchRequest_def q_Cursor_def)

lemma owner_run_inv:
  "owner_run env opts co d ts \<Longrightarrow> list_all (\<lambda>t. t < 2 ^ 63 - 1) ts \<Longrightarrow>
     outbox_inv d \<and> in_step opts co d \<and> sorted_wrt (<) ts
     \<and> (case q_Cursor (ownerScope opts) replaceableCreatedAtCursor d of None \<Rightarrow> ts = [] \<and> co_lastCreatedAt co = 0
        | Some v \<Rightarrow> ts \<noteq> [] \<and> 0 \<le> last ts \<and> v = sprint (last ts))"
proof (induction rule: owner_run.induct)
  case (start d)
  then show ?case by (simp add: in_step_def NewCoordinator_def)
next
  case (reconcile co d ts now scope snap profiles fs co' s')
  let ?cur = "q_Cursor (ownerScope opts) replaceableCreatedAtCursor"
  from reconcile have IH: "outbox_inv d" "in_step opts co d" "sorted_wrt (<) ts"
    "case ?cur d of None \<Rightarrow> ts = [] \<and> co_lastCreatedAt co = 0 | Some v \<Rightarrow> ts \<noteq> [] \<and> 0 \<le> last ts \<and> v = sprint (last ts)" by auto
  have inv: "outbox_inv (sq_db \<lparr>sq_faults = fs, sq_db = d\<rparr>)" using IH(1) by simp
  obtain co1 pes oes where h: "\<exists>s1. hydrate opts co \<lparr>sq_faults = fs, sq_db = d\<rparr> = (Inr co1, s1)"
    and co': "co' = co1\<lparr>co_snapshots := mput (co_snapshots co1) scope snap, co_lastCreatedAt := nextCreatedAt now co1\<rparr>"
    and rec: "reconciled (batchRequest opts scope snap (pes @ oes) (nextCreatedAt now co1)) (sq_db \<lparr>sq_faults = fs, sq_db = d\<rparr>) (sq_db s')"
    by (rule owner_success [OF reconcile.hyps(2) inv])
  obtain s1 where h1: "hydrate opts co \<lparr>sq_faults = fs, sq_db = d\<rparr> = (Inr co1, s1)" using h by blast
  have co1: "co_hydrated co1" "in_step opts co1 d" "?cur d = None \<longrightarrow> co_lastCreatedAt co1 = co_lastCreatedAt co"
    using hydrate_in_step [OF h1] IH(2) by simp_all
  have cur: "?cur (sq_db s') = Some (sprint (nextCreatedAt now co1))" using cursor_after [OF rec] .
  have last: "ts \<noteq> [] \<longrightarrow> co_lastCreatedAt co1 = last ts" 
  proof
    assume "ts \<noteq> []"
    then obtain v where v: "?cur d = Some v" "0 \<le> last ts" "v = sprint (last ts)" using IH(4) by (auto split: option.splits)
    then have "parseInt64 v = Some (co_lastCreatedAt co1)" using co1 by (simp add: in_step_def)
    moreover have "last ts < 2 ^ 63 - 1" using reconcile.prems \<open>ts \<noteq> []\<close> by (simp add: list_all_iff)
    ultimately show "co_lastCreatedAt co1 = last ts" using v parseInt64_sprint [of "last ts"] by simp
  qed
  have small: "co_lastCreatedAt co1 < 2 ^ 63 - 1"
  proof (cases "ts = []")
    case True
    then have none: "?cur d = None" "co_lastCreatedAt co = 0" using IH(4) by (auto split: option.splits)
    then show ?thesis using co1(3) by simp
  next
    case False
    then show ?thesis using last reconcile.prems by (simp add: list_all_iff)
  qed
  have grow: "co_lastCreatedAt co1 < nextCreatedAt now co1" "0 \<le> co_lastCreatedAt co1"
    using nextCreatedAt_grows [OF _ small] co1 by (auto simp: in_step_def)
  have "t < nextCreatedAt now co1" if t: "t \<in> set ts" for t
  proof -
    have "ts \<noteq> []" using t by auto
    then have "t \<le> last ts" using IH(3) t by (metis append_butlast_last_id in_set_butlastD less_le order_refl rotate1.simps(2) set_ConsD set_rotate1 sorted_wrt_append list.set_intros(1))
    then show ?thesis using last grow \<open>ts \<noteq> []\<close> by simp
  qed
  then have "sorted_wrt (<) (ts @ [nextCreatedAt now co1])" using IH(3) by (simp add: sorted_wrt_append)
  moreover have "in_step opts co' (sq_db s')"
    using cur grow nextCreatedAt_range [of now co1] parseInt64_sprint [of "nextCreatedAt now co1"] by (simp add: in_step_def co')
  ultimately show ?case using rec cur grow by (simp add: co' reconciled_def Let_def)
next
  case (fail co d ts now scope snap profiles fs e co' s')
  let ?s = "\<lparr>sq_faults = fs, sq_db = d\<rparr>"
  from fail have IH: "outbox_inv (sq_db ?s)" "in_step opts co (sq_db ?s)" by auto
  note f = owner_failure [OF fail.hyps(2) IH(1)]
  have "in_step opts co' d \<and> (q_Cursor (ownerScope opts) replaceableCreatedAtCursor d = None \<longrightarrow> co_lastCreatedAt co' = co_lastCreatedAt co)"
    using f hydrate_in_step [OF _ IH(2)] IH(2) by auto
  then show ?case using fail f by (auto split: option.splits)
qed (auto simp: in_step_def NewCoordinator_def split: option.split)

text \<open>C17. The owner's replaceable events never go back in time. In any history of reconciliations
  that succeed or fail at any point, restarts, and other changes of the database, the times given
  to the events of the successful reconciliations strictly increase, whatever the clock does, as
  long as the largest 64-bit time is not reached: a relay always keeps the newest version.\<close>

theorem owner_times_increase:
  assumes "owner_run env opts co d ts" and "list_all (\<lambda>t. t < 2 ^ 63 - 1) ts"
  shows "sorted_wrt (<) ts"
  using owner_run_inv [OF assms] by blast

subsection \<open>What is stored and what is published again\<close>

lemma fold_mput_other: "k \<notin> set (map f es) \<Longrightarrow> mget (fold (\<lambda>e m. mput m (f e) (g e)) es m) k = mget m k"
  by (induction es arbitrary: m) simp_all

lemma fold_mput_mem:
  "distinct (map f es) \<Longrightarrow> e \<in> set es \<Longrightarrow> mget (fold (\<lambda>e m. mput m (f e) (g e)) es m) (f e) = Some (g e)"
proof (induction es arbitrary: m)
  case (Cons x es)
  then show ?case using fold_mput_other [of "f x" f es g "mput m (f x) (g x)"] by auto
qed simp

lemma fold_operations:
  "list_all (\<lambda>e. ee_SourceOperation e \<noteq> []) es \<Longrightarrow>
     fold (\<lambda>e m. if ee_SourceOperation e \<noteq> [] then mput m (ee_ref e) (ee_SourceOperation e) else m) es m
     = fold (\<lambda>e m. mput m (ee_ref e) (ee_SourceOperation e)) es m"
  by (induction es arbitrary: m) simp_all

lemma distinct_filter_ref: "distinct (map f es) \<Longrightarrow> distinct (map f (filter P es))"
  by (simp add: distinct_map_filter)

text \<open>After a reconciliation every event of the batch is current.\<close>

lemma reconciled_current:
  assumes rec: "reconciled r d d'" and dist: "distinct (map ee_ref (rb_Events r))"
    and ops: "list_all (\<lambda>e. ee_SourceOperation e \<noteq> []) (rb_Events r)" and e: "e \<in> set (rb_Events r)"
  shows "current d' e"
proof -
  define pending where "pending = filter (\<lambda>e. \<not> current d e) (rb_Events r)"
  have ops': "list_all (\<lambda>e. ee_SourceOperation e \<noteq> []) pending" using ops by (auto simp: list_all_iff pending_def)
  have tables: "bridge_events d' = fold (\<lambda>e m. mput m (ee_ref e) (ee_Mapping e)) pending (bridge_events d)"
    "source_operations d' = fold (\<lambda>e m. mput m (ee_ref e) (ee_SourceOperation e)) pending (source_operations d)"
    using rec fold_operations [OF ops'] by (simp_all add: reconciled_def Let_def pending_def)
  have dist': "distinct (map ee_ref pending)" using dist unfolding pending_def by (rule distinct_filter_ref)
  have op: "ee_SourceOperation e \<noteq> []" using ops e by (simp add: list_all_iff)
  show ?thesis
  proof (cases "current d e")
    case True
    have "ee_ref e \<notin> set (map ee_ref pending)"
      using dist e True by (auto simp: pending_def distinct_map dest: inj_onD)
    then show ?thesis
      using True op by (simp add: current_def tables q_EventIDBySourceURI_def q_SourceOperationBySourceURI_def fold_mput_other split: option.splits)
  next
    case False
    then have mem: "e \<in> set pending" using e by (simp add: pending_def)
    show ?thesis using op
      by (simp add: current_def tables q_EventIDBySourceURI_def q_SourceOperationBySourceURI_def fold_mput_mem [OF dist' mem])
  qed
qed

text \<open>Signing sets the key and keeps what is signed.\<close>

definition faithful_sign :: "nostr_keys \<Rightarrow> bool" where
  "faithful_sign ks \<longleftrightarrow> (\<forall>key e e'. signEvent ks key e = Some e' \<longrightarrow>
     ev_PubKey e' = publicHex ks key \<and> ev_Kind e' = ev_Kind e \<and> ev_Tags e' = ev_Tags e \<and> ev_Content e' = ev_Content e)"

definition same_request :: "EventEnqueueRequest \<Rightarrow> EventEnqueueRequest \<Rightarrow> bool" where
  "same_request e e' \<longleftrightarrow> ee_ref e = ee_ref e' \<and> ee_SourceOperation e = ee_SourceOperation e' \<and> ee_SourceOperation e \<noteq> []"

lemma signed_same:
  assumes "faithful_sign ks" "signedEvent ks key (draft c1 kind tags content) = Inr e1" "signedEvent ks key (draft c2 kind tags content) = Inr e2"
    and "oe_keys env = ks"
  shows "same_request (eventRequest env scope uri e1 now1) (eventRequest env scope uri e2 now2)"
proof -
  have "signEvent ks key (draft c1 kind tags content) = Some e1" "signEvent ks key (draft c2 kind tags content) = Some e2"
    using assms(2,3) by (auto simp: signedEvent_def split: option.splits)
  then show ?thesis using assms(1) unfolding faithful_sign_def
    by (simp add: same_request_def eventRequest_def Let_def eventIdentity_def draft_def)
qed

lemma profile_same:
  assumes "faithful_sign (oe_keys env)" "ProfileEvent (oe_keys env) seed p c1 = Inr e1" "ProfileEvent (oe_keys env) seed p c2 = Inr e2"
  shows "same_request (eventRequest env scope uri e1 now1) (eventRequest env scope uri e2 now2)"
  using assms signed_same [OF assms(1) _ _ refl] by (auto simp: ProfileEvent_def split: sum.splits option.splits)

lemma followset_same:
  assumes "faithful_sign (oe_keys env)" "FollowSetEvent (oe_keys env) seed own l c1 = Inr e1" "FollowSetEvent (oe_keys env) seed own l c2 = Inr e2"
  shows "same_request (eventRequest env scope uri e1 now1) (eventRequest env scope uri e2 now2)"
  using assms signed_same [OF assms(1) _ _ refl] by (auto simp: FollowSetEvent_def split: sum.splits)

lemma follow_same:
  assumes "faithful_sign (oe_keys env)" "FollowEvent (oe_keys env) seed own follows c1 = Inr e1" "FollowEvent (oe_keys env) seed own follows c2 = Inr e2"
  shows "same_request (eventRequest env scope uri e1 now1) (eventRequest env scope uri e2 now2)"
  using assms signed_same [OF assms(1) _ _ refl] by (auto simp: FollowEvent_def split: sum.splits)

lemma profiles_same:
  assumes "faithful_sign (oe_keys env)"
  shows "profileRequests env opts scope c1 now1 ps = Inr rs1 \<Longrightarrow> profileRequests env opts scope c2 now2 ps = Inr rs2 \<Longrightarrow> list_all2 same_request rs1 rs2"
proof (induction ps arbitrary: rs1 rs2)
  case (Cons p ps)
  from Cons.prems obtain e1 e2 rs1' rs2' where "ProfileEvent (oe_keys env) (oo_MasterSeed opts) p c1 = Inr e1"
    "ProfileEvent (oe_keys env) (oo_MasterSeed opts) p c2 = Inr e2" "profileRequests env opts scope c1 now1 ps = Inr rs1'"
    "profileRequests env opts scope c2 now2 ps = Inr rs2'"
    "rs1 = eventRequest env scope (profileURI p) e1 now1 # rs1'"
    "rs2 = eventRequest env scope (profileURI p) e2 now2 # rs2'"
    by (auto split: sum.splits simp: map_sum_def)
  then show ?case using Cons.IH profile_same [OF assms] by simp
qed simp

lemma lists_same:
  assumes "faithful_sign (oe_keys env)"
  shows "listRequests env opts scope c1 now1 ls = Inr rs1 \<Longrightarrow> listRequests env opts scope c2 now2 ls = Inr rs2 \<Longrightarrow> list_all2 same_request rs1 rs2"
proof (induction ls arbitrary: rs1 rs2)
  case (Cons l ls)
  from Cons.prems obtain e1 e2 rs1' rs2' where "FollowSetEvent (oe_keys env) (oo_MasterSeed opts) (ownerIdentity opts) (qualifiedList scope l) c1 = Inr e1"
    "FollowSetEvent (oe_keys env) (oo_MasterSeed opts) (ownerIdentity opts) (qualifiedList scope l) c2 = Inr e2"
    "listRequests env opts scope c1 now1 ls = Inr rs1'" "listRequests env opts scope c2 now2 ls = Inr rs2'"
    "rs1 = eventRequest env scope (listURI scope l) e1 now1 # rs1'"
    "rs2 = eventRequest env scope (listURI scope l) e2 now2 # rs2'"
    by (auto split: sum.splits simp: map_sum_def)
  then show ?case using Cons.IH followset_same [OF assms] by simp
qed simp

lemma provider_same:
  assumes "faithful_sign (oe_keys env)" "providerEvents env opts scope snap ps c1 now1 = Inr rs1" "providerEvents env opts scope snap ps c2 now2 = Inr rs2"
  shows "list_all2 same_request rs1 rs2"
  using assms(2,3) profiles_same [OF assms(1)] lists_same [OF assms(1)]
  by (auto simp: providerEvents_def map_sum_def split: sum.splits intro!: list_all2_appendI)

lemma owner_same:
  assumes "faithful_sign (oe_keys env)" "ownerEvents env opts snaps c1 now1 = Inr rs1" "ownerEvents env opts snaps c2 now2 = Inr rs2"
  shows "list_all2 same_request rs1 rs2"
  using assms(2,3) profile_same [OF assms(1)] follow_same [OF assms(1)]
  by (auto simp: ownerEvents_def split: sum.splits)

lemma eventRequest_ref [simp]: "ee_ref (eventRequest env scope uri e now) = \<lparr>Scope = scope, URI = uri\<rparr>"
  by (simp add: eventRequest_def Let_def)

lemma profile_refs:
  "profileRequests env opts scope c now ps = Inr rs \<Longrightarrow> map ee_ref rs = map (\<lambda>p. \<lparr>Scope = scope, URI = profileURI p\<rparr>) ps"
  by (induction ps arbitrary: rs) (auto simp: map_sum_def split: sum.splits)

lemma list_refs:
  "listRequests env opts scope c now ls = Inr rs \<Longrightarrow> map ee_ref rs = map (\<lambda>l. \<lparr>Scope = scope, URI = listURI scope l\<rparr>) ls"
  by (induction ls arbitrary: rs) (auto simp: map_sum_def split: sum.splits)

lemma provider_refs:
  assumes "providerEvents env opts scope snap ps c now = Inr rs"
  shows "map ee_ref rs = map (\<lambda>u. \<lparr>Scope = scope, URI = u\<rparr>) (map profileURI ps @ map (listURI scope) (ts_Lists snap))"
proof -
  obtain a b where "profileRequests env opts scope c now ps = Inr a" "listRequests env opts scope c now (ts_Lists snap) = Inr b" "rs = a @ b"
    using assms by (auto simp: providerEvents_def map_sum_def split: sum.splits)
  then show ?thesis using profile_refs list_refs by fastforce
qed

lemma owner_refs:
  "ownerEvents env opts snaps c now = Inr rs \<Longrightarrow>
     map ee_ref rs = map (\<lambda>u. \<lparr>Scope = ownerScope opts, URI = u\<rparr>) [''owner/profile'', ''owner/follows'']"
  by (auto simp: ownerEvents_def split: sum.splits)

lemma distinct_batch_refs:
  assumes "providerEvents env opts scope snap ps c now = Inr pes" "ownerEvents env opts snaps c' now' = Inr oes"
    and "distinct (map profileURI ps)" "distinct (map (listURI scope) (ts_Lists snap))"
  shows "distinct (map ee_ref (pes @ oes))"
proof -
  have "set (map profileURI ps) \<inter> set (map (listURI scope) (ts_Lists snap)) = {}" by (auto simp: profileURI_def listURI_def)
  then have "distinct (map (\<lambda>u. \<lparr>Scope = scope, URI = u\<rparr>) (map profileURI ps @ map (listURI scope) (ts_Lists snap)))"
    using assms(3,4) by (subst distinct_map) (auto simp: inj_on_def)
  moreover have "set (map profileURI ps @ map (listURI scope) (ts_Lists snap)) \<inter> {''owner/profile'', ''owner/follows''} = {}"
    by (auto simp: profileURI_def listURI_def)
  ultimately show ?thesis
    unfolding map_append provider_refs [OF assms(1)] owner_refs [OF assms(2)] by auto
qed

lemma operations_nonempty:
  "providerEvents env opts scope snap ps c now = Inr pes \<Longrightarrow> list_all (\<lambda>e. ee_SourceOperation e \<noteq> []) pes"
  "ownerEvents env opts snaps c now = Inr oes \<Longrightarrow> list_all (\<lambda>e. ee_SourceOperation e \<noteq> []) oes"
proof -
  have op: "ee_SourceOperation (eventRequest env scope uri e now) \<noteq> []" for scope uri e
    by (simp add: eventRequest_def Let_def eventIdentity_def)
  have "profileRequests env opts scope c now ps = Inr rs \<Longrightarrow> list_all (\<lambda>e. ee_SourceOperation e \<noteq> []) rs" for rs
    by (induction ps arbitrary: rs) (auto simp: map_sum_def op split: sum.splits)
  moreover have "listRequests env opts scope c now ls = Inr rs \<Longrightarrow> list_all (\<lambda>e. ee_SourceOperation e \<noteq> []) rs" for rs ls
    by (induction ls arbitrary: rs) (auto simp: map_sum_def op split: sum.splits)
  ultimately show "providerEvents env opts scope snap ps c now = Inr pes \<Longrightarrow> list_all (\<lambda>e. ee_SourceOperation e \<noteq> []) pes"
    by (fastforce simp: providerEvents_def map_sum_def split: sum.splits)
  show "ownerEvents env opts snaps c now = Inr oes \<Longrightarrow> list_all (\<lambda>e. ee_SourceOperation e \<noteq> []) oes"
    by (auto simp: ownerEvents_def op split: sum.splits)
qed

lemma same_current: "same_request e e' \<Longrightarrow> current d e = current d e'"
  by (auto simp: same_request_def current_def split: option.split)

lemma hydrated_stays: "co_hydrated co \<Longrightarrow> hydrate opts co s = (Inr co, s)"
  by (simp add: hydrate_def)

text \<open>The owner publishes only what changed. When a snapshot was reconciled and the same one is
  reconciled again, later and with other times, no queue of the outbox receives anything and no
  mapping changes, provided the profiles and the lists have different addresses and signing sets
  the key and keeps the contents of an event.\<close>

theorem owner_unchanged_silent:
  assumes "faithful_sign (oe_keys env)" and "distinct (map profileURI profiles)" and "distinct (map (listURI scope) (ts_Lists snap))"
    and "OwnerReconcile env opts now1 scope snap profiles co \<lparr>sq_faults = fs1, sq_db = run_ops (oe_nostr env) ops empty_db\<rparr> = (Inr (), co1, s1)"
    and "OwnerReconcile env opts now2 scope snap profiles co1 \<lparr>sq_faults = fs2, sq_db = sq_db s1\<rparr> = (Inr (), co2, s2)"
  shows "queue (sq_db s2) = queue (sq_db s1) \<and> bridge_events (sq_db s2) = bridge_events (sq_db s1)"
proof -
  let ?s = "\<lparr>sq_faults = fs1, sq_db = run_ops (oe_nostr env) ops empty_db\<rparr>" and ?s' = "\<lparr>sq_faults = fs2, sq_db = sq_db s1\<rparr>"
  have inv: "outbox_inv (sq_db ?s)" using reachable_outbox_inv by simp
  obtain c pes oes where h: "\<exists>s1. hydrate opts co ?s = (Inr c, s1)"
    and pes: "providerEvents env opts scope snap profiles (nextCreatedAt now1 c) now1 = Inr pes"
    and oes: "ownerEvents env opts (mput (co_snapshots c) scope snap) (nextCreatedAt now1 c) now1 = Inr oes"
    and co1: "co1 = c\<lparr>co_snapshots := mput (co_snapshots c) scope snap, co_lastCreatedAt := nextCreatedAt now1 c\<rparr>"
    and rec: "reconciled (batchRequest opts scope snap (pes @ oes) (nextCreatedAt now1 c)) (sq_db ?s) (sq_db s1)"
    by (rule owner_success [OF assms(4) inv])
  have inv1: "outbox_inv (sq_db ?s')" using rec by (simp add: reconciled_def Let_def)
  obtain c' pes' oes' where h': "\<exists>s1. hydrate opts co1 ?s' = (Inr c', s1)"
    and pes': "providerEvents env opts scope snap profiles (nextCreatedAt now2 c') now2 = Inr pes'"
    and oes': "ownerEvents env opts (mput (co_snapshots c') scope snap) (nextCreatedAt now2 c') now2 = Inr oes'"
    and rec': "reconciled (batchRequest opts scope snap (pes' @ oes') (nextCreatedAt now2 c')) (sq_db ?s') (sq_db s2)"
    by (rule owner_success [OF assms(5) inv1])
  have "co_hydrated co1" using h by (auto simp: co1 hydrate_def split: if_splits prod.splits sum.splits option.splits)
  then have "c' = co1" using h' hydrated_stays [of co1 opts ?s'] by auto
  then have snaps: "mput (co_snapshots c') scope snap = mput (co_snapshots c) scope snap" by (simp add: co1 mput_same)
  have "list_all2 same_request (pes @ oes) (pes' @ oes')"
    using provider_same [OF assms(1) pes pes'] owner_same [OF assms(1) oes oes' [unfolded snaps]] by (rule list_all2_appendI)
  moreover have "current (sq_db s1) e" if "e \<in> set (pes @ oes)" for e
    using reconciled_current [OF rec, of e] that distinct_batch_refs [OF pes oes assms(2,3)] operations_nonempty(1) [OF pes] operations_nonempty(2) [OF oes]
    by (simp add: batchRequest_def)
  ultimately have "list_all (current (sq_db s1)) (pes' @ oes')"
    by (simp only: list_all2_conv_all_nth list_all_length) (metis nth_mem same_current)
  then have "filter (\<lambda>e. \<not> current (sq_db s1) e) (pes' @ oes') = []" by (simp add: filter_empty_conv list_all_iff)
  then show ?thesis using rec' unfolding reconciled_def Let_def batchRequest_def by (simp add: fun_eq_iff)
qed

subsection \<open>What a reconciliation of the owner leaves behind\<close>

lemma follows_operation:
  assumes rec: "reconciled (batchRequest opts scope snap (pes @ [p, f]) t) d d'"
    and pes: "\<And>e. e \<in> set pes \<Longrightarrow> ee_ref e \<noteq> ee_ref f" and p: "ee_ref p \<noteq> ee_ref f"
    and ops: "list_all (\<lambda>e. ee_SourceOperation e \<noteq> []) (pes @ [p, f])"
  shows "q_SourceOperationBySourceURI (ee_ref f) d' = Some (ee_SourceOperation f)"
proof -
  define old where "old = filter (\<lambda>e. \<not> current d e) (pes @ [p])"
  define pending where "pending = old @ (if current d f then [] else [f])"
  have "filter (\<lambda>e. \<not> current d e) (pes @ [p, f]) = pending" by (simp add: pending_def old_def)
  moreover have nonempty: "list_all (\<lambda>e. ee_SourceOperation e \<noteq> []) pending" using ops by (auto simp: pending_def old_def list_all_iff)
  ultimately have tables: "source_operations d' = fold (\<lambda>e m. mput m (ee_ref e) (ee_SourceOperation e)) pending (source_operations d)"
    using rec fold_operations [OF nonempty] by (simp add: reconciled_def Let_def batchRequest_def)
  show ?thesis
  proof (cases "current d f")
    case True
    have "ee_ref f \<notin> set (map ee_ref pending)" using True pes p by (auto simp: pending_def old_def) metis+
    then have "mget (source_operations d') (ee_ref f) = mget (source_operations d) (ee_ref f)" unfolding tables by (rule fold_mput_other)
    moreover have "mget (source_operations d) (ee_ref f) = Some (ee_SourceOperation f)"
      using True ops by (auto simp: current_def q_SourceOperationBySourceURI_def split: option.splits)
    ultimately show ?thesis by (simp add: q_SourceOperationBySourceURI_def)
  next
    case False
    then show ?thesis by (simp add: q_SourceOperationBySourceURI_def tables pending_def)
  qed
qed

lemma sort_remdups_sort: "sort (remdups (sort xs)) = sort (remdups (xs :: string list))"
proof -
  have "mset (remdups (sort xs)) = mset (remdups xs)" by (subst set_eq_iff_mset_eq_distinct [symmetric]) simp_all
  then show ?thesis by (metis mset_sort properties_for_sort sorted_sort)
qed

text \<open>
  What the owner has to publish, stated over the mapping functions alone: the profile of every
  account, the follow set of every list under its qualified name, the owner's own profile, and the
  owner's follow list of the accounts of all sources' snapshots, each signed with the same time.
\<close>

definition owner_batch ::
    "owner_env \<Rightarrow> OwnerOptions \<Rightarrow> SourceScope \<Rightarrow> TargetSnapshot \<Rightarrow> Profile list \<Rightarrow> (SourceScope, TargetSnapshot) gomap \<Rightarrow> int \<Rightarrow> int
      \<Rightarrow> EventEnqueueRequest list \<Rightarrow> bool" where
  "owner_batch env opts scope snap profiles snapshots created now events \<longleftrightarrow>
     (\<exists>ps ls p f.
        list_all2 (\<lambda>x e. ProfileEvent (oe_keys env) (oo_MasterSeed opts) x created = Inr e) profiles ps
        \<and> list_all2 (\<lambda>l e. FollowSetEvent (oe_keys env) (oo_MasterSeed opts) (ownerIdentity opts) (qualifiedList scope l) created = Inr e)
            (ts_Lists snap) ls
        \<and> ProfileEvent (oe_keys env) (oo_MasterSeed opts)
            \<lparr>pf_Identity = ownerIdentity opts, pf_DisplayName = oo_OwnerName opts, pf_Description = oo_OwnerAbout opts,
             pf_AvatarURL = oo_OwnerPicture opts, pf_ProfileURL = []\<rparr> created = Inr p
        \<and> FollowEvent (oe_keys env) (oo_MasterSeed opts) (ownerIdentity opts) (allIdentities snapshots) created = Inr f
        \<and> events = map2 (\<lambda>x e. eventRequest env scope (profileURI x) e now) profiles ps
            @ map2 (\<lambda>l e. eventRequest env scope (listURI scope l) e now) (ts_Lists snap) ls
            @ [eventRequest env (ownerScope opts) ''owner/profile'' p now, eventRequest env (ownerScope opts) ''owner/follows'' f now])"

lemma profileRequests_events:
  assumes "profileRequests env opts scope created now ps = Inr rs"
  shows "\<exists>es. list_all2 (\<lambda>x e. ProfileEvent (oe_keys env) (oo_MasterSeed opts) x created = Inr e) ps es
    \<and> rs = map2 (\<lambda>x e. eventRequest env scope (profileURI x) e now) ps es"
  using assms
proof (induction ps arbitrary: rs)
  case (Cons p ps)
  then obtain e rs' where e: "ProfileEvent (oe_keys env) (oo_MasterSeed opts) p created = Inr e"
    and rs': "profileRequests env opts scope created now ps = Inr rs'" "rs = eventRequest env scope (profileURI p) e now # rs'"
    by (auto simp: map_sum_def split: sum.splits)
  obtain es where "list_all2 (\<lambda>x e. ProfileEvent (oe_keys env) (oo_MasterSeed opts) x created = Inr e) ps es"
      "rs' = map2 (\<lambda>x e. eventRequest env scope (profileURI x) e now) ps es"
    using Cons.IH [OF rs'(1)] by blast
  then show ?case using e rs'(2) by (intro exI [of _ "e # es"]) simp
qed simp

lemma listRequests_events:
  assumes "listRequests env opts scope created now ls = Inr rs"
  shows "\<exists>es. list_all2 (\<lambda>l e. FollowSetEvent (oe_keys env) (oo_MasterSeed opts) (ownerIdentity opts) (qualifiedList scope l) created = Inr e) ls es
    \<and> rs = map2 (\<lambda>l e. eventRequest env scope (listURI scope l) e now) ls es"
  using assms
proof (induction ls arbitrary: rs)
  case (Cons l ls)
  then obtain e rs' where e: "FollowSetEvent (oe_keys env) (oo_MasterSeed opts) (ownerIdentity opts) (qualifiedList scope l) created = Inr e"
    and rs': "listRequests env opts scope created now ls = Inr rs'" "rs = eventRequest env scope (listURI scope l) e now # rs'"
    by (auto simp: map_sum_def split: sum.splits)
  obtain es where
      "list_all2 (\<lambda>l e. FollowSetEvent (oe_keys env) (oo_MasterSeed opts) (ownerIdentity opts) (qualifiedList scope l) created = Inr e) ls es"
      "rs' = map2 (\<lambda>l e. eventRequest env scope (listURI scope l) e now) ls es"
    using Cons.IH [OF rs'(1)] by blast
  then show ?case using e rs'(2) by (intro exI [of _ "e # es"]) simp
qed simp

lemma owner_batch_events:
  assumes pes: "providerEvents env opts scope snap profiles created now = Inr pes" and oes: "ownerEvents env opts snapshots created now = Inr oes"
  shows "owner_batch env opts scope snap profiles snapshots created now (pes @ oes)"
proof -
  obtain rs qs where "profileRequests env opts scope created now profiles = Inr rs" "listRequests env opts scope created now (ts_Lists snap) = Inr qs"
      and parts: "pes = rs @ qs"
    using pes by (auto simp: providerEvents_def map_sum_def split: sum.splits)
  then obtain ps ls where
      ps: "list_all2 (\<lambda>x e. ProfileEvent (oe_keys env) (oo_MasterSeed opts) x created = Inr e) profiles ps"
        "rs = map2 (\<lambda>x e. eventRequest env scope (profileURI x) e now) profiles ps"
      and ls: "list_all2 (\<lambda>l e. FollowSetEvent (oe_keys env) (oo_MasterSeed opts) (ownerIdentity opts) (qualifiedList scope l) created = Inr e)
          (ts_Lists snap) ls"
        "qs = map2 (\<lambda>l e. eventRequest env scope (listURI scope l) e now) (ts_Lists snap) ls"
    using profileRequests_events listRequests_events by metis
  then show ?thesis unfolding owner_batch_def parts
    using oes by (intro exI [of _ ps] exI [of _ ls]) (auto simp: ownerEvents_def split: sum.splits)
qed

text \<open>C18. Reconciling the owner is all or nothing and stores everything the sources follow. From any
  reachable database and with any statement failing: an error leaves the database as it was and
  the coordinator at most hydrated. After success the whole batch is stored as one reconciliation: the
  profile event of every account, the follow set of every list, the owner's profile and the owner's
  follow list, those that were not stored with the same identity being queued for their
  publishers. The stored targets of the scope are exactly the accounts of the snapshot, and the
  follow list of the owner is the one signed for the accounts of all sources' latest snapshots, with the time
  that is stored as the owner's cursor.\<close>

theorem owner_reconcile_exact:
  "case OwnerReconcile env opts now scope snap profiles co \<lparr>sq_faults = fs, sq_db = run_ops (oe_nostr env) ops empty_db\<rparr> of
     (Inl e, co', s') \<Rightarrow> sq_db s' = run_ops (oe_nostr env) ops empty_db
       \<and> (co' = co \<or> fst (hydrate opts co \<lparr>sq_faults = fs, sq_db = run_ops (oe_nostr env) ops empty_db\<rparr>) = Inr co')
   | (Inr _, co', s') \<Rightarrow>
       mget (co_snapshots co') scope = Some snap
       \<and> q_SyncTargets scope (sq_db s') = sort (remdups (map ai_ID (ts_Union snap)))
       \<and> q_Cursor (ownerScope opts) replaceableCreatedAtCursor (sq_db s') = Some (sprint (co_lastCreatedAt co'))
       \<and> (\<exists>e. FollowEvent (oe_keys env) (oo_MasterSeed opts) (ownerIdentity opts) (allIdentities (co_snapshots co')) (co_lastCreatedAt co') = Inr e
          \<and> q_SourceOperationBySourceURI \<lparr>Scope = ownerScope opts, URI = ''owner/follows''\<rparr> (sq_db s') = Some (eventIdentity env e))
       \<and> (\<exists>events. owner_batch env opts scope snap profiles (co_snapshots co') (co_lastCreatedAt co') now events
          \<and> reconciled (batchRequest opts scope snap events (co_lastCreatedAt co')) (run_ops (oe_nostr env) ops empty_db) (sq_db s'))"
proof -
  let ?s = "\<lparr>sq_faults = fs, sq_db = run_ops (oe_nostr env) ops empty_db\<rparr>"
  have inv: "outbox_inv (sq_db ?s)" using reachable_outbox_inv by simp
  obtain r co' s' where run: "OwnerReconcile env opts now scope snap profiles co ?s = (r, co', s')" by (rule prod_cases3)
  show ?thesis
  proof (cases r)
    case (Inl e)
    from owner_failure [OF run [unfolded Inl] inv] show ?thesis unfolding run Inl by auto
  next
    case (Inr u)
    obtain c pes oes where pes: "providerEvents env opts scope snap profiles (nextCreatedAt now c) now = Inr pes"
      and oes: "ownerEvents env opts (mput (co_snapshots c) scope snap) (nextCreatedAt now c) now = Inr oes"
      and co': "co' = c\<lparr>co_snapshots := mput (co_snapshots c) scope snap, co_lastCreatedAt := nextCreatedAt now c\<rparr>"
      and rec: "reconciled (batchRequest opts scope snap (pes @ oes) (nextCreatedAt now c)) (sq_db ?s) (sq_db s')"
      using owner_success [OF _ inv] run Inr by (metis unit.exhaust)
    obtain p f where f: "FollowEvent (oe_keys env) (oo_MasterSeed opts) (ownerIdentity opts) (allIdentities (co_snapshots co')) (co_lastCreatedAt co') = Inr f"
      and oes_eq: "oes = [eventRequest env (ownerScope opts) ''owner/profile'' p now, eventRequest env (ownerScope opts) ''owner/follows'' f now]"
      using oes by (auto simp: ownerEvents_def co' split: sum.splits)
    have "ee_ref e \<noteq> ee_ref (eventRequest env (ownerScope opts) ''owner/follows'' f now)" if "e \<in> set pes" for e
    proof -
      have "ee_ref e \<in> set (map (\<lambda>u. \<lparr>Scope = scope, URI = u\<rparr>) (map profileURI profiles @ map (listURI scope) (ts_Lists snap)))"
        unfolding provider_refs [OF pes, symmetric] using that by simp
      then show ?thesis by (auto simp: profileURI_def listURI_def)
    qed
    then have "q_SourceOperationBySourceURI (ee_ref (eventRequest env (ownerScope opts) ''owner/follows'' f now)) (sq_db s')
        = Some (ee_SourceOperation (eventRequest env (ownerScope opts) ''owner/follows'' f now))"
      using operations_nonempty(1) [OF pes] operations_nonempty(2) [OF oes]
      by (intro follows_operation [OF rec [unfolded oes_eq]]) (simp_all add: oes_eq)
    moreover have "q_SyncTargets scope (sq_db s') = sort (remdups (map ai_ID (ts_Union snap)))"
      using rec by (simp add: reconciled_def Let_def batchRequest_def sort_remdups_sort)
    moreover have "owner_batch env opts scope snap profiles (co_snapshots co') (co_lastCreatedAt co') now (pes @ oes)"
      using owner_batch_events [OF pes oes] by (simp add: co')
    moreover have "reconciled (batchRequest opts scope snap (pes @ oes) (co_lastCreatedAt co')) (run_ops (oe_nostr env) ops empty_db) (sq_db s')"
      using rec by (simp add: co')
    ultimately show ?thesis using cursor_after [OF rec] f unfolding run Inr by (auto simp: co' eventRequest_def Let_def)
  qed
qed

subsection \<open>A concrete owner\<close>

definition toy_event :: "string \<Rightarrow> NostrEvent" where
  "toy_event i = \<lparr>ev_ID = i, ev_PubKey = ''aa'', ev_Kind = 0, ev_Tags = [], ev_CreatedAt = 0, ev_Content = [], ev_CheckID = True,
     ev_VerifySignature = True\<rparr>"

definition toy_env :: owner_env where
  "toy_env = \<lparr>oe_nostr = \<lparr>pubKeyHex = Some, decodeEvent = (\<lambda>p. Some (toy_event p)), encodeEvent = (\<lambda>e. Some (ev_ID e))\<rparr>,
     oe_keys = \<lparr>hkdfKey = (\<lambda>seed info. Some seed), publicHex = (\<lambda>_. ''aa''), zeroPK = ''00'',
       signEvent = (\<lambda>key e. Some (e\<lparr>ev_ID := (if ev_Kind e = 0 then ''p'' else ''f''), ev_PubKey := ''aa''\<rparr>)),
       marshalStrings = (\<lambda>_. Some ''{}'')\<rparr>,
     contentDigest = (\<lambda>(pk, kind, tags, content). concat (concat tags) @ content)\<rparr>"

definition toy_owner :: OwnerOptions where
  "toy_owner = \<lparr>oo_MasterSeed = ''seed'', oo_OwnerID = ''me'', oo_OwnerName = ''Me'', oo_OwnerAbout = [], oo_OwnerPicture = [],
     oo_OutboxLimit = 10, oo_EnabledScopes = [\<lparr>Provider = ''bluesky'', Account = ''did''\<rparr>]\<rparr>"

definition toy_snapshot :: TargetSnapshot where
  "toy_snapshot = \<lparr>ts_Follows = [\<lparr>ai_Provider = ''bluesky'', ai_ID = ''a''\<rparr>], ts_Lists = [],
     ts_Union = [\<lparr>ai_Provider = ''bluesky'', ai_ID = ''a''\<rparr>]\<rparr>"

abbreviation toy_reconcile :: "int \<Rightarrow> Coordinator \<Rightarrow> sq \<Rightarrow> (owner_error + unit) \<times> Coordinator \<times> sq" where
  "toy_reconcile now \<equiv> OwnerReconcile toy_env toy_owner now \<lparr>Provider = ''bluesky'', Account = ''did''\<rparr> toy_snapshot []"

abbreviation toy_first :: "(owner_error + unit) \<times> Coordinator \<times> sq" where
  "toy_first \<equiv> toy_reconcile 10000000000 NewCoordinator \<lparr>sq_faults = [], sq_db = run_ops (oe_nostr toy_env) [] empty_db\<rparr>"

lemma toy_first: "toy_first = (Inr (), fst (snd toy_first), snd (snd toy_first)) \<and> co_lastCreatedAt (fst (snd toy_first)) = 10"
  by code_simp

theorem owner_unchanged_silent_witness:
  "\<exists>co1 s1 co2 s2. toy_reconcile 10000000000 NewCoordinator \<lparr>sq_faults = [], sq_db = run_ops (oe_nostr toy_env) [] empty_db\<rparr> = (Inr (), co1, s1)
     \<and> toy_reconcile 90000000000 co1 \<lparr>sq_faults = [], sq_db = sq_db s1\<rparr> = (Inr (), co2, s2) \<and> queue (sq_db s2) = queue (sq_db s1)"
proof -
  let ?second = "toy_reconcile 90000000000 (fst (snd toy_first)) \<lparr>sq_faults = [], sq_db = sq_db (snd (snd toy_first))\<rparr>"
  have first: "toy_first = (Inr (), fst (snd toy_first), snd (snd toy_first))" using toy_first by blast
  have second: "?second = (Inr (), fst (snd ?second), snd (snd ?second))" by code_simp
  have sign: "faithful_sign (oe_keys toy_env)" by (simp add: faithful_sign_def toy_env_def)
  have "queue (sq_db (snd (snd ?second))) = queue (sq_db (snd (snd toy_first)))
      \<and> bridge_events (sq_db (snd (snd ?second))) = bridge_events (sq_db (snd (snd toy_first)))"
    by (rule owner_unchanged_silent [OF sign _ _ first second]) (simp_all add: toy_snapshot_def)
  with first second show ?thesis by blast
qed

definition toy_profile :: Profile where
  "toy_profile = \<lparr>pf_Identity = \<lparr>ai_Provider = ''bluesky'', ai_ID = ''a''\<rparr>, pf_DisplayName = ''A'', pf_Description = [], pf_AvatarURL = [],
     pf_ProfileURL = []\<rparr>"

abbreviation toy_full :: "(owner_error + unit) \<times> Coordinator \<times> sq" where
  "toy_full \<equiv> OwnerReconcile toy_env toy_owner 10000000000 \<lparr>Provider = ''bluesky'', Account = ''did''\<rparr> toy_snapshot [toy_profile] NewCoordinator
     \<lparr>sq_faults = [], sq_db = run_ops (oe_nostr toy_env) [] empty_db\<rparr>"

theorem owner_reconcile_exact_witness:
  "\<exists>co s events. toy_full = (Inr (), co, s) \<and> q_SyncTargets \<lparr>Provider = ''bluesky'', Account = ''did''\<rparr> (sq_db s) = [''a'']
     \<and> reconciled (batchRequest toy_owner \<lparr>Provider = ''bluesky'', Account = ''did''\<rparr> toy_snapshot events (co_lastCreatedAt co)) empty_db (sq_db s)
     \<and> map (URI \<circ> ee_ref) events = [''profile/bluesky:a'', ''owner/profile'', ''owner/follows'']"
proof -
  have full: "toy_full = (Inr (), fst (snd toy_full), snd (snd toy_full))" by code_simp
  let ?co = "fst (snd toy_full)" and ?s = "snd (snd toy_full)"
  have exact: "q_SyncTargets \<lparr>Provider = ''bluesky'', Account = ''did''\<rparr> (sq_db ?s) = sort (remdups (map ai_ID (ts_Union toy_snapshot)))
     \<and> (\<exists>events. owner_batch toy_env toy_owner \<lparr>Provider = ''bluesky'', Account = ''did''\<rparr> toy_snapshot [toy_profile] (co_snapshots ?co)
            (co_lastCreatedAt ?co) 10000000000 events
          \<and> reconciled (batchRequest toy_owner \<lparr>Provider = ''bluesky'', Account = ''did''\<rparr> toy_snapshot events (co_lastCreatedAt ?co))
              (run_ops (oe_nostr toy_env) [] empty_db) (sq_db ?s))"
    using owner_reconcile_exact [where env = toy_env and opts = toy_owner and now = 10000000000 and scope = "\<lparr>Provider = ''bluesky'', Account = ''did''\<rparr>"
        and snap = toy_snapshot and profiles = "[toy_profile]" and co = NewCoordinator and fs = "[]" and ops = "[]"]
    by (subst (asm) full) (simp only: prod.case sum.case simp_thms)
  then obtain events where batch: "owner_batch toy_env toy_owner \<lparr>Provider = ''bluesky'', Account = ''did''\<rparr> toy_snapshot [toy_profile]
        (co_snapshots ?co) (co_lastCreatedAt ?co) 10000000000 events"
    and rec: "reconciled (batchRequest toy_owner \<lparr>Provider = ''bluesky'', Account = ''did''\<rparr> toy_snapshot events (co_lastCreatedAt ?co))
        empty_db (sq_db ?s)" by auto
  have "map (URI \<circ> ee_ref) events = [''profile/bluesky:a'', ''owner/profile'', ''owner/follows'']"
    using batch by (auto simp: owner_batch_def list_all2_Cons1 toy_snapshot_def eventRequest_def profileURI_def toy_profile_def Let_def)
  moreover have "sort (remdups (map ai_ID (ts_Union toy_snapshot))) = [''a'']" by (simp add: toy_snapshot_def)
  ultimately show ?thesis using full rec exact by metis
qed

theorem owner_times_increase_witness:
  "\<exists>co d. owner_run toy_env toy_owner co d [10, 11] \<and> sorted_wrt (<) [10, 11 :: int]"
proof -
  let ?again = "toy_reconcile 5000000000 NewCoordinator \<lparr>sq_faults = [], sq_db = sq_db (snd (snd toy_first))\<rparr>"
  have again: "?again = (Inr (), fst (snd ?again), snd (snd ?again)) \<and> co_lastCreatedAt (fst (snd ?again)) = 11" by code_simp
  have "owner_run toy_env toy_owner NewCoordinator empty_db []"
    by (rule owner_run.start) (simp_all add: outbox_inv_empty, simp add: empty_db_def q_Cursor_def)
  then have "owner_run toy_env toy_owner (fst (snd toy_first)) (sq_db (snd (snd toy_first))) ([] @ [co_lastCreatedAt (fst (snd toy_first))])"
    by (rule owner_run.reconcile) (use toy_first in simp)
  then have "owner_run toy_env toy_owner NewCoordinator (sq_db (snd (snd toy_first))) [10]"
    using toy_first owner_run.restart by fastforce
  then have run: "owner_run toy_env toy_owner (fst (snd ?again)) (sq_db (snd (snd ?again))) ([10] @ [co_lastCreatedAt (fst (snd ?again))])"
    by (rule owner_run.reconcile) (use again in blast)
  then have run2: "owner_run toy_env toy_owner (fst (snd ?again)) (sq_db (snd (snd ?again))) [10, 11]" using again by simp
  from owner_times_increase [OF this] have "sorted_wrt (<) [10, 11 :: int]" by simp
  with run2 show ?thesis by blast
qed

end
