(* ===== verification/Mastodon_Content.thy ===== *)
theory Mastodon_Content
  imports Bridge_Nostrmap
begin

text \<open>
  Statuses of Mastodon as neutral posts (\<^verbatim>\<open>cmd/nostr-bridge/mastodon/content.go\<close> and
  \<^verbatim>\<open>model.go\<close>): the plain text of authored HTML, its links and its media. The HTML parser is a
  package outside the repository, URL parsing and the class of punctuation belong to the standard
  library's tables; all are fields of \<open>content_env\<close>. Text is UTF-8.
\<close>

subsection \<open>Data\<close>

datatype node_type = ElementNode | TextNode | OtherNode

datatype html_node =
  HtmlNode (hn_Type: node_type) (hn_Data: string) (hn_Attr: "(string \<times> string) list") (hn_Children: "html_node list")

record url_parts =
  ur_Scheme :: string
  ur_Host :: string
  ur_Path :: string
  ur_HasUser :: bool

record content_env =
  parseHTML :: "string \<Rightarrow> html_node option"
  parseURL_parts :: "string \<Rightarrow> url_parts option"
  punctFirst :: "string \<Rightarrow> bool"

record Account =
  acc_ID :: string
  acc_URI :: string
  acc_URL :: string
  acc_DisplayName :: string
  acc_Note :: string
  acc_Avatar :: string

record MediaAttachment =
  ma_ID :: string
  ma_Type :: string
  ma_URL :: string
  ma_PreviewURL :: string
  ma_MIMEType :: string
  ma_Description :: string
  ma_Blurhash :: string
  ma_Width :: int
  ma_Height :: int

record Status =
  st_ID :: string
  st_URI :: string
  st_URL :: string
  st_Content :: string
  st_SpoilerText :: string
  st_CreatedAt :: int
  st_Visibility :: string
  st_Sensitive :: bool
  st_InReplyToID :: string
  st_InReplyToAccountID :: string
  st_Account :: Account
  st_MediaAttachments :: "MediaAttachment list"
  st_HasReblog :: bool

subsection \<open>Rendering text\<close>

record textRenderer =
  tr_builder :: string
  tr_pendingSpace :: bool
  tr_tokenBoundary :: bool

definition emptyRenderer :: textRenderer where
  "emptyRenderer = \<lparr>tr_builder = [], tr_pendingSpace = False, tr_tokenBoundary = False\<rparr>"

definition asciiSpace :: "char \<Rightarrow> bool" where
  "asciiSpace c \<longleftrightarrow> c \<in> {CHR 0x20, CHR 0x09, CHR 0x0D, CHR 0x0A, CHR 0x0C}"

definition endsInNewline :: "string \<Rightarrow> bool" where
  "endsInNewline s \<longleftrightarrow> s \<noteq> [] \<and> last s = CHR 0x0A"

definition writeText :: "content_env \<Rightarrow> string \<Rightarrow> textRenderer \<Rightarrow> textRenderer" where
  "writeText env val r =
     (let ws = Fields val [] in
      case ws of
        [] \<Rightarrow> if val \<noteq> [] then r\<lparr>tr_pendingSpace := True, tr_tokenBoundary := False\<rparr> else r
      | first # _ \<Rightarrow>
          let leadingSpace = asciiSpace (hd val);
              gap = (leadingSpace \<or> tr_pendingSpace r \<and> (\<not> tr_tokenBoundary r \<or> \<not> punctFirst env first))
                    \<and> tr_builder r \<noteq> [] \<and> \<not> endsInNewline (tr_builder r)
          in \<lparr>tr_builder = tr_builder r @ (if gap then '' '' else []) @ joinSpace ws, tr_pendingSpace = asciiSpace (last val),
              tr_tokenBoundary = False\<rparr>)"

definition writeToken :: "string \<Rightarrow> textRenderer \<Rightarrow> textRenderer" where
  "writeToken val r =
     (let v = joinSpace (Fields val []) in
      if v = [] then r
      else \<lparr>tr_builder = tr_builder r @ (if tr_builder r \<noteq> [] \<and> \<not> endsInNewline (tr_builder r) then '' '' else []) @ v,
            tr_pendingSpace = True, tr_tokenBoundary = True\<rparr>)"

definition breakLines :: "nat \<Rightarrow> textRenderer \<Rightarrow> textRenderer" where
  "breakLines n r =
     (if isBlank (tr_builder r) then r
      else
        let trailing = length (takeWhile (\<lambda>c. c = CHR 0x0A) (rev (tr_builder r)))
        in \<lparr>tr_builder = tr_builder r @ replicate (n - trailing) (CHR 0x0A), tr_pendingSpace = False, tr_tokenBoundary = False\<rparr>)"

definition attribute :: "html_node \<Rightarrow> string \<Rightarrow> string" where
  "attribute n name = (case mget (hn_Attr n) name of Some v \<Rightarrow> v | None \<Rightarrow> [])"

definition hasClass :: "html_node \<Rightarrow> string \<Rightarrow> bool" where
  "hasClass n name = (name \<in> set (Fields (attribute n ''class'') []))"

definition hiddenElement :: "string \<Rightarrow> bool" where
  "hiddenElement name \<longleftrightarrow> name \<in> {''script'', ''style'', ''template'', ''head'', ''noscript'', ''iframe'', ''object'', ''svg'', ''math''}"

definition hiddenNode :: "html_node \<Rightarrow> bool" where
  "hiddenNode n \<longleftrightarrow> hn_Type n = ElementNode \<and> (hiddenElement (hn_Data n) \<or> hasClass n ''invisible'')"

definition ellipsis :: string where
  "ellipsis = [CHR 0xE2, CHR 0x80, CHR 0xA6]"

definition element :: "string \<Rightarrow> html_node \<Rightarrow> bool" where
  "element name n \<longleftrightarrow> hn_Type n = ElementNode \<and> hn_Data n = name"

definition writeLeaf :: "content_env \<Rightarrow> html_node \<Rightarrow> textRenderer \<Rightarrow> textRenderer" where
  "writeLeaf env n r =
     (let r1 = (if hn_Type n = TextNode then writeText env (hn_Data n) r else r)
      in if element ''img'' n then writeToken (attribute n ''alt'') r1 else r1)"

definition writeEllipsis :: "html_node \<Rightarrow> textRenderer \<Rightarrow> textRenderer" where
  "writeEllipsis n r =
     (if element ''span'' n \<and> hasClass n ''ellipsis'' then r\<lparr>tr_builder := tr_builder r @ ellipsis, tr_pendingSpace := False\<rparr> else r)"

fun visibleWalk :: "content_env \<Rightarrow> html_node \<Rightarrow> textRenderer \<Rightarrow> textRenderer"
  and visibleWalks :: "content_env \<Rightarrow> html_node list \<Rightarrow> textRenderer \<Rightarrow> textRenderer" where
  "visibleWalk env (HtmlNode ty dat attrs children) r =
     (let n = HtmlNode ty dat attrs children in
      if hiddenNode n then r else writeEllipsis n (visibleWalks env children (writeLeaf env n r)))"
| "visibleWalks env [] r = r"
| "visibleWalks env (n # ns) r = visibleWalks env ns (visibleWalk env n r)"

definition visibleTextContent :: "content_env \<Rightarrow> html_node \<Rightarrow> string" where
  "visibleTextContent env n = TrimSpace (tr_builder (visibleWalk env n emptyRenderer))"

definition appendLinkTarget :: "content_env \<Rightarrow> html_node \<Rightarrow> textRenderer \<Rightarrow> textRenderer" where
  "appendLinkTarget env n r =
     (let href = TrimSpace (attribute n ''href'') in
      case parseURL_parts env href of
        None \<Rightarrow> r
      | Some u \<Rightarrow>
          if ur_Scheme u \<noteq> ''http'' \<and> ur_Scheme u \<noteq> ''https'' \<or> ur_Host u = [] then r
          else if visibleTextContent env n = href then r
          else r\<lparr>tr_builder := tr_builder r @ '' ('' @ href @ '')'', tr_pendingSpace := False\<rparr>)"

definition blockElement :: "html_node \<Rightarrow> bool" where
  "blockElement n \<longleftrightarrow> hn_Type n = ElementNode \<and> hn_Data n \<in> {''p'', ''div'', ''blockquote'', ''pre'', ''li''}"

definition openNode :: "html_node \<Rightarrow> textRenderer \<Rightarrow> textRenderer" where
  "openNode n r = (if blockElement n then breakLines 2 r else if element ''br'' n then breakLines 1 r else r)"

definition closeNode :: "content_env \<Rightarrow> html_node \<Rightarrow> textRenderer \<Rightarrow> textRenderer" where
  "closeNode env n r =
     (let r1 = writeEllipsis n r;
          r2 = (if element ''a'' n then appendLinkTarget env n r1 else r1)
      in if blockElement n then breakLines 2 r2 else r2)"

fun walkText :: "content_env \<Rightarrow> html_node \<Rightarrow> textRenderer \<Rightarrow> textRenderer"
  and walkTexts :: "content_env \<Rightarrow> html_node list \<Rightarrow> textRenderer \<Rightarrow> textRenderer" where
  "walkText env (HtmlNode ty dat attrs children) r =
     (let n = HtmlNode ty dat attrs children in
      if hiddenNode n then r else closeNode env n (walkTexts env children (writeLeaf env n (openNode n r))))"
| "walkTexts env [] r = r"
| "walkTexts env (n # ns) r = walkTexts env ns (walkText env n r)"

definition HTMLToText :: "content_env \<Rightarrow> string \<Rightarrow> string" where
  "HTMLToText env input =
     (case parseHTML env input of None \<Rightarrow> [] | Some doc \<Rightarrow> TrimSpace (tr_builder (walkText env doc emptyRenderer)))"

subsection \<open>Links and posts\<close>

definition absoluteHTTPURL :: "content_env \<Rightarrow> string \<Rightarrow> bool" where
  "absoluteHTTPURL env raw =
     (case parseURL_parts env (TrimSpace raw) of
        None \<Rightarrow> False
      | Some u \<Rightarrow> (ur_Scheme u = ''http'' \<or> ur_Scheme u = ''https'') \<and> ur_Host u \<noteq> [])"

fun walkLinks :: "content_env \<Rightarrow> html_node \<Rightarrow> string list \<Rightarrow> string list"
  and walkLinkss :: "content_env \<Rightarrow> html_node list \<Rightarrow> string list \<Rightarrow> string list" where
  "walkLinks env (HtmlNode ty dat attrs children) links =
     (let n = HtmlNode ty dat attrs children;
          href = TrimSpace (attribute n ''href'')
      in if hiddenNode n then links
         else walkLinkss env children
           (if element ''a'' n \<and> absoluteHTTPURL env href \<and> href \<notin> set links then links @ [href] else links))"
| "walkLinkss env [] links = links"
| "walkLinkss env (n # ns) links = walkLinkss env ns (walkLinks env n links)"

definition htmlLinks :: "content_env \<Rightarrow> string \<Rightarrow> string list" where
  "htmlLinks env input = (case parseHTML env input of None \<Rightarrow> [] | Some doc \<Rightarrow> walkLinks env doc [])"

definition mediaTypes :: "(string \<times> string) list" where
  "mediaTypes = [(''.jpg'', ''image/jpeg''), (''.jpeg'', ''image/jpeg''), (''.png'', ''image/png''), (''.gif'', ''image/gif''),
     (''.webp'', ''image/webp''), (''.mp4'', ''video/mp4''), (''.webm'', ''video/webm''), (''.mov'', ''video/quicktime'')]"

definition hasSuffix :: "string \<Rightarrow> string \<Rightarrow> bool" where
  "hasSuffix s suf \<longleftrightarrow> length suf \<le> length s \<and> drop (length s - length suf) s = suf"

definition mediaMIMEType :: "content_env \<Rightarrow> string \<Rightarrow> string" where
  "mediaMIMEType env raw =
     (case parseURL_parts env raw of
        None \<Rightarrow> []
      | Some u \<Rightarrow> (case List.find (\<lambda>(ext, _). hasSuffix (toLower (ur_Path u)) ext) mediaTypes of Some (_, m) \<Rightarrow> m | None \<Rightarrow> []))"

definition mediaAttachment :: "content_env \<Rightarrow> MediaAttachment \<Rightarrow> Attachment option" where
  "mediaAttachment env m =
     (if \<not> absoluteHTTPURL env (ma_URL m) \<or> ma_Type m \<notin> {''image'', ''video'', ''gifv''} then None
      else Some \<lparr>at_URL = ma_URL m, at_MIMEType = (if ma_MIMEType m = [] then mediaMIMEType env (ma_URL m) else ma_MIMEType m),
        at_Description = ma_Description m, at_Blurhash = ma_Blurhash m, at_Width = ma_Width m, at_Height = ma_Height m\<rparr>)"

definition contentWarning :: "Status \<Rightarrow> string" where
  "contentWarning st =
     (let w = TrimSpace (st_SpoilerText st) in
      if w = [] \<and> st_Sensitive st \<and> st_MediaAttachments st \<noteq> [] then ''Sensitive media'' else w)"

text \<open>The post, nothing for a status that is not bridged, or an error.\<close>

definition NormalizeStatus :: "content_env \<Rightarrow> Status \<Rightarrow> string + Post option" where
  "NormalizeStatus env st =
     (if st_Visibility st \<noteq> ''public'' \<or> st_HasReblog st then Inr None
      else if \<not> absoluteHTTPURL env (st_URI st) \<or> \<not> absoluteHTTPURL env (acc_URI (st_Account st))
        then Inl ''mastodon status requires canonical status and account URIs''
      else
        let warning = contentWarning st;
            body = HTMLToText env (st_Content st)
        in Inr (Some \<lparr>po_ID = ''mastodon:'' @ st_URI st, po_Author = \<lparr>ai_Provider = ''mastodon'', ai_ID = acc_URI (st_Account st)\<rparr>,
             po_SourceURL = (if absoluteHTTPURL env (st_URL st) then st_URL st else st_URI st),
             po_Text = (if warning \<noteq> [] then warning @ (if body \<noteq> [] then [CHR 0x0A, CHR 0x0A] @ body else []) else body),
             po_ReplyToID = (if st_InReplyToID st \<noteq> [] then ''mastodon:'' @ st_InReplyToID st else []),
             po_ContentWarning = warning, po_CreatedAt = st_CreatedAt st,
             po_Attachments = List.map_filter (mediaAttachment env) (st_MediaAttachments st),
             po_Links = htmlLinks env (st_Content st)\<rparr>))"

subsection \<open>Hidden parts never show\<close>

text \<open>The document without its hidden parts.\<close>

fun prune :: "html_node \<Rightarrow> html_node" where
  "prune (HtmlNode ty dat attrs children) = HtmlNode ty dat attrs (map prune (filter (\<lambda>n. \<not> hiddenNode n) children))"

lemma prune_top [simp]: "hn_Type (prune n) = hn_Type n" "hn_Data (prune n) = hn_Data n" "hn_Attr (prune n) = hn_Attr n"
  by (cases n; simp)+

lemma prune_attr [simp]: "attribute (prune n) a = attribute n a" "hasClass (prune n) c = hasClass n c" "hiddenNode (prune n) = hiddenNode n"
  "element e (prune n) = element e n" "blockElement (prune n) = blockElement n"
  by (simp_all add: attribute_def hasClass_def hiddenNode_def element_def blockElement_def)

lemma visibleWalk_eq: "visibleWalk env n r = (if hiddenNode n then r else writeEllipsis n (visibleWalks env (hn_Children n) (writeLeaf env n r)))"
  by (cases n) (simp add: Let_def)

lemma prune_leaf [simp]: "writeLeaf env (prune n) r = writeLeaf env n r" "writeEllipsis (prune n) r = writeEllipsis n r" "openNode (prune n) r = openNode n r"
  by (simp_all add: writeLeaf_def writeEllipsis_def openNode_def)

lemma prune_children: "hn_Children (prune n) = map prune (filter (\<lambda>n. \<not> hiddenNode n) (hn_Children n))"
  by (cases n) simp

lemma visibleWalk_prune:
  "visibleWalk env (prune n) r = visibleWalk env n r" "visibleWalks env (map prune (filter (\<lambda>n. \<not> hiddenNode n) ns)) r = visibleWalks env ns r"
proof (induction env n r and env ns r rule: visibleWalk_visibleWalks.induct)
  case (1 env ty dat attrs children r)
  then show ?case by (simp only: visibleWalk_eq prune_attr prune_leaf prune_children) (auto simp: Let_def)
next
  case (3 env n ns r)
  then show ?case by (cases "hiddenNode n") (simp_all add: visibleWalk_eq)
qed simp

lemma prune_content [simp]: "visibleTextContent env (prune n) = visibleTextContent env n"
  by (simp add: visibleTextContent_def visibleWalk_prune)

lemma prune_link [simp]: "appendLinkTarget env (prune n) = appendLinkTarget env n"
  by (rule ext) (simp add: appendLinkTarget_def Let_def split: option.split)

lemma prune_close [simp]: "closeNode env (prune n) r = closeNode env n r"
  by (simp add: closeNode_def Let_def)

lemma walkText_eq:
  "walkText env n r = (if hiddenNode n then r else closeNode env n (walkTexts env (hn_Children n) (writeLeaf env n (openNode n r))))"
  by (cases n) (simp add: Let_def)

lemma walkText_prune:
  "walkText env (prune n) r = walkText env n r" "walkTexts env (map prune (filter (\<lambda>n. \<not> hiddenNode n) ns)) r = walkTexts env ns r"
proof (induction env n r and env ns r rule: walkText_walkTexts.induct)
  case (1 env ty dat attrs children r)
  then show ?case by (simp only: walkText_eq prune_attr prune_leaf prune_close prune_children) (auto simp: Let_def)
next
  case (3 env n ns r)
  then show ?case by (cases "hiddenNode n") (simp_all add: walkText_eq)
qed simp

lemma walkLinks_eq:
  "walkLinks env n links = (if hiddenNode n then links else walkLinkss env (hn_Children n)
     (if element ''a'' n \<and> absoluteHTTPURL env (TrimSpace (attribute n ''href'')) \<and> TrimSpace (attribute n ''href'') \<notin> set links
      then links @ [TrimSpace (attribute n ''href'')] else links))"
  by (cases n) (simp add: Let_def)

lemma walkLinks_prune:
  "walkLinks env (prune n) links = walkLinks env n links"
  "walkLinkss env (map prune (filter (\<lambda>n. \<not> hiddenNode n) ns)) links = walkLinkss env ns links"
proof (induction env n links and env ns links rule: walkLinks_walkLinkss.induct)
  case (1 env ty dat attrs children links)
  then show ?case by (simp only: walkLinks_eq prune_attr prune_children) (auto simp: Let_def)
next
  case (3 env n ns links)
  then show ?case by (cases "hiddenNode n") (simp_all add: walkLinks_eq)
qed simp

definition good_links :: "content_env \<Rightarrow> string list \<Rightarrow> bool" where
  "good_links env links \<longleftrightarrow> distinct links \<and> list_all (absoluteHTTPURL env) links"

lemma walkLinks_good:
  "good_links env links \<Longrightarrow> good_links env (walkLinks env n links)" "good_links env links \<Longrightarrow> good_links env (walkLinkss env ns links)"
proof (induction env n links and env ns links rule: walkLinks_walkLinkss.induct)
  case (1 env ty dat attrs children links)
  let ?n = "HtmlNode ty dat attrs children" and ?href = "TrimSpace (attribute (HtmlNode ty dat attrs children) ''href'')"
  have "good_links env (if element ''a'' ?n \<and> absoluteHTTPURL env ?href \<and> ?href \<notin> set links then links @ [?href] else links)"
    using 1(2) by (simp add: good_links_def)
  then show ?case using 1 by (auto simp: walkLinks_eq Let_def)
qed simp_all

fun descendants :: "html_node \<Rightarrow> html_node list" where
  "descendants (HtmlNode ty dat attrs children) = children @ concat (map descendants children)"

lemma prune_visible: "list_all (\<lambda>m. \<not> hiddenNode m) (descendants (prune n))"
proof (induction n rule: prune.induct)
  case (1 ty dat attrs children)
  then show ?case by (auto simp: list_all_iff)
qed

text \<open>Hidden parts of a status never show. The text and the links of a document are those of
  the document without its hidden parts (scripts, styles, embedded objects and invisible
  elements), which has no hidden part left; the links are absolute web addresses, each once.\<close>

theorem hidden_content_never_shows:
  "(case parseHTML env input of
      None \<Rightarrow> HTMLToText env input = [] \<and> htmlLinks env input = []
    | Some doc \<Rightarrow> HTMLToText env input = TrimSpace (tr_builder (walkText env (prune doc) emptyRenderer))
        \<and> htmlLinks env input = walkLinks env (prune doc) [] \<and> list_all (\<lambda>n. \<not> hiddenNode n) (descendants (prune doc)))
   \<and> distinct (htmlLinks env input) \<and> list_all (absoluteHTTPURL env) (htmlLinks env input)"
proof -
  have "good_links env (walkLinks env doc [])" for doc by (rule walkLinks_good) (simp add: good_links_def)
  then show ?thesis
    by (auto simp: HTMLToText_def htmlLinks_def walkText_prune walkLinks_prune good_links_def intro: prune_visible split: option.split)
qed

end
