(* ===== verification/Bridge_Mastodon.thy ===== *)
theory Bridge_Mastodon
  imports Bridge_Syncer Mastodon_Content Bridge_Owner
begin

text \<open>
  The Mastodon synchroniser (\<^verbatim>\<open>cmd/nostr-bridge/mastodon/syncer.go\<close>): statuses become notes in the outbox, aliases of statuses and the recovery of
  timelines are cursors of the store. The service's answers are arguments; the digest of a status
  is a field of \<open>mastodon_env\<close>.
\<close>

subsection \<open>Programs of the synchroniser\<close>

definition ok :: "'a \<Rightarrow> 'a sync" where
  "ok x s = (Inr x, s)"

definition failed :: "sync_error \<Rightarrow> 'a sync" where
  "failed e s = (Inl e, s)"

definition andThen :: "'a sync \<Rightarrow> ('a \<Rightarrow> 'b sync) \<Rightarrow> 'b sync" where
  "andThen m k s = (case m s of (Inl e, s1) \<Rightarrow> (Inl e, s1) | (Inr x, s1) \<Rightarrow> k x s1)"

text \<open>A row that may be missing.\<close>

definition optionalRow :: "string \<Rightarrow> 'a act \<Rightarrow> 'a option sync" where
  "optionalRow what m s =
     (case m s of
        (Inr x, s1) \<Rightarrow> (Inr (Some x), s1)
      | (Inl e, s1) \<Rightarrow> if isNoRows e then (Inr None, s1) else (Inl (SyncStore what e), s1))"

subsection \<open>Options and cursors\<close>

record MastodonOptions =
  mo_Scope :: SourceScope
  mo_HasAPI :: bool
  mo_HasStore :: bool
  mo_MasterSeed :: string
  mo_Targets :: "ActorIdentity list option"
  mo_ListIDs :: "string list"
  mo_BackfillLimit :: int
  mo_OutboxLimit :: int

record mastodon_env =
  ms_content :: content_env
  ms_nostr :: nostr_env
  ms_keys :: nostr_keys
  ms_idFromHex :: "string \<Rightarrow> string option"
  statusDigest :: "Status \<Rightarrow> string"

record TimelinePage =
  tp_Statuses :: "Status list"
  tp_NextMaxID :: string

datatype StreamEvent = StreamUpdate Status | StreamStatusUpdate Status | StreamDelete string | StreamOther string

definition NewMastodonSyncer :: "MastodonOptions \<Rightarrow> MastodonOptions" where
  "NewMastodonSyncer opts =
     opts\<lparr>mo_BackfillLimit := (if mo_BackfillLimit opts \<le> 0 then 100 else mo_BackfillLimit opts),
          mo_OutboxLimit := (if mo_OutboxLimit opts \<le> 0 then 10000 else mo_OutboxLimit opts)\<rparr>"

definition statusRef :: "MastodonOptions \<Rightarrow> string \<Rightarrow> SourceRef" where
  "statusRef opts uri = \<lparr>Scope = mo_Scope opts, URI = uri\<rparr>"

definition aliasCursor :: "string \<Rightarrow> string" where
  "aliasCursor i = ''mastodon_status_alias:'' @ i"

definition feedCommitted :: "string \<Rightarrow> string" where
  "feedCommitted feed = ''mastodon_feed:'' @ feed @ '':committed''"

definition feedCeiling :: "string \<Rightarrow> string" where
  "feedCeiling feed = ''mastodon_feed:'' @ feed @ '':ceiling''"

definition feedNext :: "string \<Rightarrow> string" where
  "feedNext feed = ''mastodon_feed:'' @ feed @ '':next''"

definition recoveryFeedIndex :: string where
  "recoveryFeedIndex = ''mastodon_recovery_feed_index''"

definition putCursor :: "MastodonOptions \<Rightarrow> string \<Rightarrow> string \<Rightarrow> string \<Rightarrow> unit sync" where
  "putCursor opts what name val = fromStore what (SaveCursor (mo_Scope opts) name val)"

definition loadCursor :: "MastodonOptions \<Rightarrow> string \<Rightarrow> string sync" where
  "loadCursor opts name =
     andThen (optionalRow ''load Mastodon recovery cursor'' (Cursor (mo_Scope opts) name))
       (\<lambda>v. ok (case v of Some x \<Rightarrow> x | None \<Rightarrow> []))"

definition isTarget :: "MastodonOptions \<Rightarrow> Status \<Rightarrow> bool" where
  "isTarget opts st =
     (case mo_Targets opts of
        None \<Rightarrow> True
      | Some ts \<Rightarrow> \<lparr>ai_Provider = ''mastodon'', ai_ID = acc_URI (st_Account st)\<rparr> \<in> set ts)"

subsection \<open>Statuses\<close>

text \<open>The aliases of a status: its address and its author by its identifier.\<close>

definition saveAliases :: "MastodonOptions \<Rightarrow> Status \<Rightarrow> string \<Rightarrow> unit sync" where
  "saveAliases opts st canonical =
     (if st_ID st \<noteq> [] then
        andThen (putCursor opts ''save Mastodon status alias'' (aliasCursor (st_ID st)) canonical)
          (\<lambda>_. putCursor opts ''save Mastodon status author'' (aliasCursor (st_ID st) @ '':author'') (acc_URI (st_Account st)))
      else ok ())"

definition resolveReply :: "MastodonOptions \<Rightarrow> Status \<Rightarrow> Post \<Rightarrow> Post sync" where
  "resolveReply opts st post =
     (if st_InReplyToID st \<noteq> [] then
        andThen (optionalRow ''load Mastodon reply alias'' (Cursor (mo_Scope opts) (aliasCursor (st_InReplyToID st))))
          (\<lambda>v. ok (case v of Some a \<Rightarrow> post\<lparr>po_ReplyToID := a\<rparr> | None \<Rightarrow> post))
      else ok post)"

definition mapPost :: "mastodon_env \<Rightarrow> MastodonOptions \<Rightarrow> Post \<Rightarrow> NostrEvent sync" where
  "mapPost env opts post =
     andThen
       (if po_ReplyToID post \<noteq> [] then
          andThen (optionalRow [] (EventMappingBySourceURI (statusRef opts (po_ReplyToID post))))
            (\<lambda>m. case m of
               None \<Rightarrow> ok []
             | Some p \<Rightarrow>
                 (case (ms_idFromHex env (NostrEventID p), pubKeyHex (ms_nostr env) (AuthorPubKey p)) of
                    (Some i, Some pk) \<Rightarrow> ok [(po_ReplyToID post, (i, pk))]
                  | _ \<Rightarrow> failed (SyncMsg ''invalid persisted Mastodon parent mapping'')))
        else ok [])
       (\<lambda>parents.
          case PostEvent (ms_keys env) (mo_MasterSeed opts) post parents of
            Inl e \<Rightarrow> failed (SyncMap ''map Mastodon status'' e)
          | Inr e \<Rightarrow> ok e)"

definition deletionEvent :: "mastodon_env \<Rightarrow> string \<Rightarrow> ActorIdentity \<Rightarrow> string \<Rightarrow> string \<Rightarrow> int \<Rightarrow> sync_error + NostrEvent" where
  "deletionEvent env seed author i reason now =
     (case DeriveActorKey (ms_keys env) seed author of
        Inl e \<Rightarrow> Inl (SyncMap [] e)
      | Inr key \<Rightarrow>
          if ms_idFromHex env i = None then Inl (SyncMsg ''invalid mapped Mastodon event ID'')
          else
            case signEvent (ms_keys env) key (deletionDraft now i reason) of
              None \<Rightarrow> Inl (SyncMsg [])
            | Some e \<Rightarrow> Inr e)"

definition msPayload :: "mastodon_env \<Rightarrow> NostrEvent \<Rightarrow> string" where
  "msPayload env e = (case encodeEvent (ms_nostr env) e of Some p \<Rightarrow> p | None \<Rightarrow> [])"

definition statusMapping :: "MastodonOptions \<Rightarrow> string \<Rightarrow> NostrEvent \<Rightarrow> int \<Rightarrow> EventMapping" where
  "statusMapping opts canonical e now =
     \<lparr>em_Source = statusRef opts canonical, NostrEventID = ev_ID e, SourceKind = ''status'', AuthorPubKey = ev_PubKey e, em_UpdatedAt = unix now\<rparr>"

text \<open>The last part of the handler: a new status is enqueued, a changed one is replaced.\<close>

definition enqueueStatus :: "mastodon_env \<Rightarrow> MastodonOptions \<Rightarrow> int \<Rightarrow> string \<Rightarrow> string \<Rightarrow> EventMapping option \<Rightarrow> ActorIdentity \<Rightarrow> NostrEvent \<Rightarrow> unit sync" where
  "enqueueStatus env opts now canonical op old author e =
     (let request = publishRequest (ev_PubKey e) (msPayload env e) now in
      case old of
        None \<Rightarrow>
          fromStore [] (EnqueueEvent (ms_nostr env)
            \<lparr>ee_Mapping = statusMapping opts canonical e now, ee_Event = request, ee_Limit = mo_OutboxLimit opts, ee_Cursor = None,
             ee_SourceOperation = op\<rparr>)
      | Some m \<Rightarrow>
          (case deletionEvent env (mo_MasterSeed opts) author (NostrEventID m) ''source status replaced'' now of
             Inl err \<Rightarrow> failed err
           | Inr deletion \<Rightarrow>
               fromStore [] (EnqueueUpdate (ms_nostr env)
                 \<lparr>ue_Mapping = statusMapping opts canonical e now,
                  ue_Deletion = publishRequest (ev_PubKey e) (msPayload env deletion) now, ue_Replacement = request,
                  ue_SourceOperation = op, ue_Limit = mo_OutboxLimit opts, ue_Cursor = None\<rparr>)))"

definition handleStatus :: "mastodon_env \<Rightarrow> MastodonOptions \<Rightarrow> int \<Rightarrow> Status \<Rightarrow> unit sync" where
  "handleStatus env opts now st =
     (if \<not> mo_HasStore opts then failed (SyncMsg ''mastodon delivery store is required'')
      else if \<not> isTarget opts st then ok ()
      else
        case NormalizeStatus (ms_content env) st of
          Inl e \<Rightarrow> failed (SyncMsg e)
        | Inr None \<Rightarrow> ok ()
        | Inr (Some post0) \<Rightarrow>
            let canonical = po_ID post0; op = statusDigest env st in
            andThen (saveAliases opts st canonical) (\<lambda>_.
            andThen (resolveReply opts st post0) (\<lambda>post.
            andThen (optionalRow ''lookup Mastodon operation'' (SourceOperationBySourceURI (statusRef opts canonical))) (\<lambda>previous.
              if previous = Some op then ok ()
              else
                andThen (optionalRow ''lookup Mastodon mapping'' (EventMappingBySourceURI (statusRef opts canonical))) (\<lambda>old.
                andThen (mapPost env opts post) (\<lambda>e.
                  enqueueStatus env opts now canonical op old (po_Author post) e))))))"

definition deleteStatus :: "mastodon_env \<Rightarrow> MastodonOptions \<Rightarrow> int \<Rightarrow> string \<Rightarrow> unit sync" where
  "deleteStatus env opts now i =
     andThen (optionalRow [] (Cursor (mo_Scope opts) (aliasCursor i))) (\<lambda>alias.
       case alias of
         None \<Rightarrow> ok ()
       | Some canonical \<Rightarrow>
           andThen (optionalRow [] (EventMappingBySourceURI (statusRef opts canonical))) (\<lambda>mapping.
             case mapping of
               None \<Rightarrow> ok ()
             | Some m \<Rightarrow>
                 andThen (fromStore ''load Mastodon deletion author'' (Cursor (mo_Scope opts) (aliasCursor i @ '':author''))) (\<lambda>author.
                   case deletionEvent env (mo_MasterSeed opts) \<lparr>ai_Provider = ''mastodon'', ai_ID = author\<rparr> (NostrEventID m)
                          ''source status deleted'' now of
                     Inl err \<Rightarrow> failed err
                   | Inr e \<Rightarrow>
                       fromStore [] (EnqueueDelete (ms_nostr env)
                         \<lparr>de_Source = statusRef opts canonical, de_Event = publishRequest (ev_PubKey e) (msPayload env e) now,
                          de_Limit = mo_OutboxLimit opts, de_Cursor = None\<rparr>))))"

fun HandleEvent :: "mastodon_env \<Rightarrow> MastodonOptions \<Rightarrow> int \<Rightarrow> StreamEvent \<Rightarrow> unit sync" where
  "HandleEvent env opts now (StreamUpdate st) = handleStatus env opts now st"
| "HandleEvent env opts now (StreamStatusUpdate st) = handleStatus env opts now st"
| "HandleEvent env opts now (StreamDelete i) = deleteStatus env opts now i"
| "HandleEvent env opts now (StreamOther _) = ok ()"

subsection \<open>Recovery of timelines\<close>

fun handleStatuses :: "mastodon_env \<Rightarrow> MastodonOptions \<Rightarrow> int \<Rightarrow> string list \<Rightarrow> Status list \<Rightarrow> unit sync" where
  "handleStatuses env opts now seen [] = ok ()"
| "handleStatuses env opts now seen (st # sts) =
     (if st_URI st \<in> set seen then handleStatuses env opts now seen sts
      else if \<not> isTarget opts st then handleStatuses env opts now (st_URI st # seen) sts
      else andThen (handleStatus env opts now st) (\<lambda>_. handleStatuses env opts now (st_URI st # seen) sts))"

text \<open>The end of a page: the next one is remembered, or the position is committed.\<close>

definition finishFeed :: "MastodonOptions \<Rightarrow> string \<Rightarrow> TimelinePage \<Rightarrow> string \<Rightarrow> int sync" where
  "finishFeed opts feed page ceiling =
     (let used = int (length (tp_Statuses page)) in
      if tp_NextMaxID page \<noteq> [] then andThen (putCursor opts [] (feedNext feed) (tp_NextMaxID page)) (\<lambda>_. ok used)
      else
        andThen (if ceiling \<noteq> [] then putCursor opts [] (feedCommitted feed) ceiling else ok ()) (\<lambda>_.
        andThen (putCursor opts [] (feedCeiling feed) []) (\<lambda>_.
        andThen (putCursor opts [] (feedNext feed) []) (\<lambda>_. ok used))))"

definition recoverPage :: "mastodon_env \<Rightarrow> MastodonOptions \<Rightarrow> int \<Rightarrow> string \<Rightarrow> string \<Rightarrow> TimelinePage \<Rightarrow> int sync" where
  "recoverPage env opts now feed ceiling0 page =
     (let fresh = (ceiling0 = [] \<and> tp_Statuses page \<noteq> []);
          ceiling = (if fresh then st_ID (hd (tp_Statuses page)) else ceiling0)
      in andThen (if fresh then putCursor opts [] (feedCeiling feed) ceiling else ok ()) (\<lambda>_.
         andThen (handleStatuses env opts now [] (sort_key st_CreatedAt (tp_Statuses page))) (\<lambda>_.
           finishFeed opts feed page ceiling)))"

text \<open>\<open>api feed since max limit\<close> is the answer for a page.\<close>

definition recoverFeed ::
    "mastodon_env \<Rightarrow> MastodonOptions \<Rightarrow> int \<Rightarrow> (string \<Rightarrow> string \<Rightarrow> string \<Rightarrow> int \<Rightarrow> TimelinePage option) \<Rightarrow> string \<Rightarrow> int \<Rightarrow> int sync" where
  "recoverFeed env opts now api feed budget =
     andThen (loadCursor opts (feedCommitted feed)) (\<lambda>committed.
     andThen (loadCursor opts (feedCeiling feed)) (\<lambda>ceiling.
     andThen (loadCursor opts (feedNext feed)) (\<lambda>next.
       case api feed committed next budget of
         None \<Rightarrow> failed (SyncMsg (''read Mastodon '' @ feed @ '' timeline''))
       | Some page \<Rightarrow> recoverPage env opts now feed ceiling page)))"

fun uniqueStrings :: "string list \<Rightarrow> string list \<Rightarrow> string list" where
  "uniqueStrings seen [] = []"
| "uniqueStrings seen (v # vs) =
     (let t = TrimSpace v in
      if t = [] \<or> t \<in> set seen then uniqueStrings seen vs else t # uniqueStrings (t # seen) vs)"

fun recoverFeeds ::
    "mastodon_env \<Rightarrow> MastodonOptions \<Rightarrow> int \<Rightarrow> (string \<Rightarrow> string \<Rightarrow> string \<Rightarrow> int \<Rightarrow> TimelinePage option) \<Rightarrow> string list \<Rightarrow> nat list \<Rightarrow> int \<Rightarrow> unit sync" where
  "recoverFeeds env opts now api feeds [] remaining = ok ()"
| "recoverFeeds env opts now api feeds (index # indexes) remaining =
     (if remaining \<le> 0 then ok ()
      else
        andThen (recoverFeed env opts now api (feeds ! index) remaining) (\<lambda>used.
        andThen (putCursor opts [] recoveryFeedIndex (sprint (int (Suc index mod length feeds)))) (\<lambda>_.
          recoverFeeds env opts now api feeds indexes (remaining - used))))"

definition BackfillMastodon ::
    "mastodon_env \<Rightarrow> MastodonOptions \<Rightarrow> int \<Rightarrow> (string \<Rightarrow> string \<Rightarrow> string \<Rightarrow> int \<Rightarrow> TimelinePage option) \<Rightarrow> unit sync" where
  "BackfillMastodon env opts now api =
     (if \<not> mo_HasAPI opts then failed (SyncMsg ''mastodon timeline API is required'')
      else if \<not> mo_HasStore opts then failed (SyncMsg ''mastodon delivery store is required'')
      else
        let feeds = ''home'' # uniqueStrings [] (mo_ListIDs opts) in
        andThen (loadCursor opts recoveryFeedIndex) (\<lambda>raw.
          case (if raw = [] then Some 0 else parseInt64 raw) of
            None \<Rightarrow> failed (SyncMsg ''invalid Mastodon recovery feed index'')
          | Some start \<Rightarrow>
              if start < 0 then failed (SyncMsg ''invalid Mastodon recovery feed index'')
              else recoverFeeds env opts now api feeds
                (map (\<lambda>offset. (nat start mod length feeds + offset) mod length feeds) [0..<length feeds]) (mo_BackfillLimit opts)))"

end
