(* ===== verification/Mastodon_Delivery.thy ===== *)
theory Mastodon_Delivery
  imports Bridge_Mastodon
begin

text \<open>
  What the Mastodon synchroniser promises: a status is bridged once per version, and a position in
  a timeline is committed only when everything up to it is bridged.
\<close>

subsection \<open>What holds after a program\<close>

definition runs :: "'a sync \<Rightarrow> bridge_db \<Rightarrow> ('a \<Rightarrow> bridge_db \<Rightarrow> bool) \<Rightarrow> (bridge_db \<Rightarrow> bool) \<Rightarrow> bool" where
  "runs m d P E \<longleftrightarrow> (\<forall>s. sq_db s = d \<longrightarrow> (case m s of (Inl e, s') \<Rightarrow> E (sq_db s') | (Inr x, s') \<Rightarrow> P x (sq_db s')))"

lemma runs_ok: "P x d \<Longrightarrow> runs (ok x) d P E"
  by (simp add: runs_def ok_def)

lemma runs_failed: "E d \<Longrightarrow> runs (failed e) d P E"
  by (simp add: runs_def failed_def)

lemma runs_andThen:
  assumes "runs m d (\<lambda>x d1. runs (k x) d1 P E) E"
  shows "runs (andThen m k) d P E"
  unfolding runs_def
proof (intro allI impI)
  fix s :: sq assume "sq_db s = d"
  with assms show "case andThen m k s of (Inl e, s') \<Rightarrow> E (sq_db s') | (Inr x, s') \<Rightarrow> P x (sq_db s')"
    unfolding runs_def andThen_def by (cases "m s"; cases "fst (m s)") (fastforce split: prod.splits sum.splits)+
qed

lemma runs_fromStore:
  assumes "atomic_op m Q d" "E d" "\<And>x d'. Q x d' \<Longrightarrow> P x d'"
  shows "runs (fromStore what m) d P E"
  unfolding runs_def
proof (intro allI impI)
  fix s :: sq assume s: "sq_db s = d"
  obtain r s' where run: "m s = (r, s')" by (rule prod.exhaust)
  show "case fromStore what m s of (Inl e, s') \<Rightarrow> E (sq_db s') | (Inr x, s') \<Rightarrow> P x (sq_db s')"
    using atomic_run [of m Q s r s'] run s assms by (cases r) (auto simp: fromStore_def)
qed

lemma runs_optionalRow:
  assumes "E d" "P (f d) d"
  shows "runs (optionalRow what (queryRow w f)) d P E"
  unfolding runs_def
proof (intro allI impI)
  fix s :: sq assume "sq_db s = d"
  then show "case optionalRow what (queryRow w f) s of (Inl e, s') \<Rightarrow> E (sq_db s') | (Inr x, s') \<Rightarrow> P x (sq_db s')"
    using assms by (cases rule: row_cases [of w f s]) (auto simp: optionalRow_def)
qed

lemmas runs_lookup = runs_optionalRow [where f = "q_EventMappingBySourceURI ref" and w = "''find bridge event by source URI''" for ref,
    folded EventMappingBySourceURI_def]
lemmas runs_operation = runs_optionalRow [where f = "q_SourceOperationBySourceURI ref" and w = "''find source operation by source URI''" for ref,
    folded SourceOperationBySourceURI_def]
lemmas runs_cursor = runs_optionalRow [where f = "q_Cursor scope name" and w = "''find sync cursor''" for scope name, folded Cursor_def]

lemma runs_mono: "runs m d P E \<Longrightarrow> (\<And>x d'. P x d' \<Longrightarrow> P' x d') \<Longrightarrow> (\<And>d'. E d' \<Longrightarrow> E' d') \<Longrightarrow> runs m d P' E'"
  unfolding runs_def by (fastforce split: prod.splits sum.splits)

lemma runs_if: "(c \<Longrightarrow> runs a d P E) \<Longrightarrow> (\<not> c \<Longrightarrow> runs b d P E) \<Longrightarrow> runs (if c then a else b) d P E"
  by simp

lemma runs_putCursor: "E d \<Longrightarrow> P () (q_SaveCursor (mo_Scope opts) name val d) \<Longrightarrow> runs (putCursor opts what name val) d P E"
  unfolding putCursor_def SaveCursor_def saveCursor_def
  by (rule runs_fromStore [OF atomic_exec, where Q = "\<lambda>_ d'. d' = q_SaveCursor (mo_Scope opts) name val d"]) simp_all

lemma runs_loadCursor:
  "E d \<Longrightarrow> P (case q_Cursor (mo_Scope opts) name d of Some v \<Rightarrow> v | None \<Rightarrow> []) d \<Longrightarrow> runs (loadCursor opts name) d P E"
  unfolding loadCursor_def by (intro runs_andThen runs_cursor runs_ok)

subsection \<open>What a status leaves behind\<close>

definition aliased :: "MastodonOptions \<Rightarrow> Status \<Rightarrow> string \<Rightarrow> bridge_db \<Rightarrow> bridge_db" where
  "aliased opts st canonical d =
     (if st_ID st = [] then d
      else q_SaveCursor (mo_Scope opts) (aliasCursor (st_ID st) @ '':author'') (acc_URI (st_Account st))
             (q_SaveCursor (mo_Scope opts) (aliasCursor (st_ID st)) canonical d))"

definition resolved :: "MastodonOptions \<Rightarrow> Status \<Rightarrow> Post \<Rightarrow> bridge_db \<Rightarrow> Post" where
  "resolved opts st post d =
     (if st_InReplyToID st = [] then post
      else case q_Cursor (mo_Scope opts) (aliasCursor (st_InReplyToID st)) d of Some a \<Rightarrow> post\<lparr>po_ReplyToID := a\<rparr> | None \<Rightarrow> post)"

definition statusParents :: "mastodon_env \<Rightarrow> MastodonOptions \<Rightarrow> Post \<Rightarrow> bridge_db \<Rightarrow> (string, string \<times> string) gomap" where
  "statusParents env opts post d =
     (if po_ReplyToID post = [] then []
      else
        case q_EventMappingBySourceURI (statusRef opts (po_ReplyToID post)) d of
          None \<Rightarrow> []
        | Some m \<Rightarrow> [(po_ReplyToID post, (the (ms_idFromHex env (NostrEventID m)), the (pubKeyHex (ms_nostr env) (AuthorPubKey m))))])"

lemma runs_saveAliases:
  assumes "E d" "\<And>d1. st_ID st \<noteq> [] \<Longrightarrow> d1 = q_SaveCursor (mo_Scope opts) (aliasCursor (st_ID st)) canonical d \<Longrightarrow> E d1"
    "P () (aliased opts st canonical d)"
  shows "runs (saveAliases opts st canonical) d P E"
  unfolding saveAliases_def using assms
  by (intro runs_if runs_andThen runs_putCursor runs_ok) (auto simp: aliased_def)

lemma runs_resolveReply: "E d \<Longrightarrow> P (resolved opts st post d) d \<Longrightarrow> runs (resolveReply opts st post) d P E"
  unfolding resolveReply_def
  by (intro runs_if runs_andThen runs_cursor runs_ok) (auto simp: resolved_def split: option.splits)

lemma runs_mapPost:
  assumes "E d" "\<And>e. PostEvent (ms_keys env) (mo_MasterSeed opts) post (statusParents env opts post d) = Inr e \<Longrightarrow> P e d"
  shows "runs (mapPost env opts post) d P E"
proof -
  let ?k = "\<lambda>parents. case PostEvent (ms_keys env) (mo_MasterSeed opts) post parents of
    Inl e \<Rightarrow> failed (SyncMap ''map Mastodon status'' e) | Inr e \<Rightarrow> ok e"
  have k: "runs (?k (statusParents env opts post d)) d P E"
    using assms by (cases "PostEvent (ms_keys env) (mo_MasterSeed opts) post (statusParents env opts post d)") (auto intro: runs_ok runs_failed)
  show ?thesis unfolding mapPost_def
  proof (intro runs_andThen runs_if runs_ok)
    assume "\<not> po_ReplyToID post \<noteq> []"
    then show "runs (?k []) d P E" using k by (simp add: statusParents_def)
  next
    assume reply: "po_ReplyToID post \<noteq> []"
    show "runs (optionalRow [] (EventMappingBySourceURI (statusRef opts (po_ReplyToID post)))) d
       (\<lambda>m d1. runs (case m of None \<Rightarrow> ok [] | Some p \<Rightarrow>
          (case (ms_idFromHex env (NostrEventID p), pubKeyHex (ms_nostr env) (AuthorPubKey p)) of
             (Some i, Some pk) \<Rightarrow> ok [(po_ReplyToID post, (i, pk))]
           | _ \<Rightarrow> failed (SyncMsg ''invalid persisted Mastodon parent mapping''))) d1 (\<lambda>parents d2. runs (?k parents) d2 P E) E) E"
      using k reply assms(1)
      by (intro runs_lookup) (auto simp: statusParents_def split: option.splits intro!: runs_ok runs_failed)
  qed
qed

definition onlyCursors :: "MastodonOptions \<Rightarrow> string list \<Rightarrow> bridge_db \<Rightarrow> bridge_db \<Rightarrow> bool" where
  "onlyCursors opts names d d' \<longleftrightarrow> (\<exists>c. d' = d\<lparr>sync_cursors := c\<rparr>
     \<and> (\<forall>k. k \<notin> Pair (mo_Scope opts) ` set names \<longrightarrow> mget c k = mget (sync_cursors d) k))"

definition statusNames :: "Status \<Rightarrow> string list" where
  "statusNames st = [aliasCursor (st_ID st), aliasCursor (st_ID st) @ '':author'']"

lemma onlyCursors_refl [simp]: "onlyCursors opts names d d"
  unfolding onlyCursors_def by (rule exI [of _ "sync_cursors d"]) simp

lemma onlyCursors_save: "onlyCursors opts names d d1 \<Longrightarrow> name \<in> set names \<Longrightarrow> onlyCursors opts names d (q_SaveCursor (mo_Scope opts) name v d1)"
proof -
  assume "onlyCursors opts names d d1" and name: "name \<in> set names"
  then obtain c where c: "d1 = d\<lparr>sync_cursors := c\<rparr>" "\<forall>k. k \<notin> Pair (mo_Scope opts) ` set names \<longrightarrow> mget c k = mget (sync_cursors d) k"
    by (auto simp: onlyCursors_def)
  then show ?thesis using name unfolding onlyCursors_def
    by (intro exI [of _ "mput c (mo_Scope opts, name) v"]) (auto simp: q_SaveCursor_def)
qed

lemma onlyCursors_rest:
  assumes "onlyCursors opts names d d'"
  shows "queue d' = queue d" "outbox_inv d' = outbox_inv d" "bridge_events d' = bridge_events d" "source_operations d' = source_operations d"
    "publisher_registrations d' = publisher_registrations d" "outbox d' = outbox d"
proof -
  obtain c where d': "d' = d\<lparr>sync_cursors := c\<rparr>" using assms by (auto simp: onlyCursors_def)
  show "queue d' = queue d" unfolding d' by (rule queue_cong) simp
  show "outbox_inv d' = outbox_inv d" unfolding d' by (rule outbox_inv_cong) simp_all
qed (use assms in \<open>auto simp: onlyCursors_def\<close>)

lemma aliased_only: "onlyCursors opts (statusNames st) d (aliased opts st canonical d)"
  by (auto simp: aliased_def statusNames_def intro!: onlyCursors_save)

definition status_published :: "mastodon_env \<Rightarrow> MastodonOptions \<Rightarrow> int \<Rightarrow> Status \<Rightarrow> Post \<Rightarrow> bridge_db \<Rightarrow> bridge_db \<Rightarrow> bool" where
  "status_published env opts now st post0 d d' \<longleftrightarrow>
     (let ref = statusRef opts (po_ID post0);
          d1 = aliased opts st (po_ID post0) d;
          post = resolved opts st post0 d1
      in if q_SourceOperationBySourceURI ref d = Some (statusDigest env st) then d' = d1
         else \<exists>e m. PostEvent (ms_keys env) (mo_MasterSeed opts) post (statusParents env opts post d1) = Inr e
           \<and> q_EventMappingBySourceURI ref d' = Some m \<and> NostrEventID m = ev_ID e \<and> AuthorPubKey m = ev_PubKey e
           \<and> source_operations d' = mput (source_operations d) ref (statusDigest env st) \<and> sync_cursors d' = sync_cursors d1 \<and> outbox_inv d'
           \<and> (case q_EventMappingBySourceURI ref d of
                None \<Rightarrow> queuedFor (ev_PubKey e) [msPayload env e] d d'
              | Some old \<Rightarrow> \<exists>del. deletionEvent env (mo_MasterSeed opts) (po_Author post0) (NostrEventID old) ''source status replaced'' now = Inr del
                  \<and> queuedFor (ev_PubKey e) [msPayload env del, msPayload env e] d d'))"

definition status_done :: "mastodon_env \<Rightarrow> MastodonOptions \<Rightarrow> int \<Rightarrow> Status \<Rightarrow> bridge_db \<Rightarrow> bridge_db \<Rightarrow> bool" where
  "status_done env opts now st d d' \<longleftrightarrow>
     (case NormalizeStatus (ms_content env) st of
        Inr (Some post) \<Rightarrow> if isTarget opts st then status_published env opts now st post d d' else d' = d
      | _ \<Rightarrow> d' = d)"

lemma queuedFor_cong: "queue d1 = queue d \<Longrightarrow> outbox d1 = outbox d \<Longrightarrow> publisher_registrations d1 = publisher_registrations d \<Longrightarrow>
    queuedFor pk ps d1 d' = queuedFor pk ps d d'"
proof -
  assume a: "queue d1 = queue d" "outbox d1 = outbox d" "publisher_registrations d1 = publisher_registrations d"
  then have "q_PublisherRegisteredOrPending pk pk d1 = q_PublisherRegisteredOrPending pk pk d"
    by (simp add: q_PublisherRegisteredOrPending_def q_PublisherRegistered_def)
  then show ?thesis using a by (simp add: queuedFor_def)
qed

lemma runs_enqueueStatus:
  assumes inv: "outbox_inv d" and op: "op \<noteq> []" and E: "E d"
    and P: "\<And>d' m. q_EventMappingBySourceURI (statusRef opts canonical) d' = Some m \<Longrightarrow> NostrEventID m = ev_ID e \<Longrightarrow> AuthorPubKey m = ev_PubKey e \<Longrightarrow>
      source_operations d' = mput (source_operations d) (statusRef opts canonical) op \<Longrightarrow> sync_cursors d' = sync_cursors d \<Longrightarrow> outbox_inv d' \<Longrightarrow>
      (case old of None \<Rightarrow> queuedFor (ev_PubKey e) [msPayload env e] d d'
       | Some om \<Rightarrow> \<exists>del. deletionEvent env (mo_MasterSeed opts) author (NostrEventID om) ''source status replaced'' now = Inr del
           \<and> queuedFor (ev_PubKey e) [msPayload env del, msPayload env e] d d') \<Longrightarrow> P () d'"
  shows "runs (enqueueStatus env opts now canonical op old author e) d P E"
proof (cases old)
  case None
  have new: "P () d'" if "event_enqueued \<lparr>ee_Mapping = statusMapping opts canonical e now, ee_Event = publishRequest (ev_PubKey e) (msPayload env e) now,
       ee_Limit = mo_OutboxLimit opts, ee_Cursor = None, ee_SourceOperation = op\<rparr> d d'" for d'
    using that op None by (intro P [of d' "statusMapping opts canonical e now"])
      (auto simp: event_enqueued_def statusMapping_def cursor_saved_def queuedFor_def registration_entries_def publishRequest_def
        same_rest_def finish_def q_SaveSourceOperation_def q_UpsertEventMapping_def)
  show ?thesis unfolding enqueueStatus_def Let_def None option.case
    by (rule runs_fromStore [where E = E and P = P, OF enqueue_event_atomic [OF inv] E]) (simp add: new)
next
  case (Some om)
  show ?thesis
  proof (cases "deletionEvent env (mo_MasterSeed opts) author (NostrEventID om) ''source status replaced'' now")
    case (Inl err)
    then show ?thesis using Some E by (auto simp: enqueueStatus_def Let_def intro: runs_failed)
  next
    case (Inr del)
    have upd: "P () d'" if "event_updated \<lparr>ue_Mapping = statusMapping opts canonical e now,
        ue_Deletion = publishRequest (ev_PubKey e) (msPayload env del) now, ue_Replacement = publishRequest (ev_PubKey e) (msPayload env e) now,
        ue_SourceOperation = op, ue_Limit = mo_OutboxLimit opts, ue_Cursor = None\<rparr> d d'" for d'
      using that op Some Inr by (intro P [of d' "statusMapping opts canonical e now"])
        (auto simp: event_updated_def statusMapping_def cursor_saved_def entriesAdded_queuedFor publishRequest_def
          same_rest_def operation_saved_def q_SaveSourceOperation_def q_UpsertEventMapping_def)
    show ?thesis unfolding enqueueStatus_def Let_def Some option.case Inr sum.case
      by (rule runs_fromStore [where E = E and P = P, OF enqueue_update_atomic [OF inv] E]) (simp add: upd)
  qed
qed

lemma runs_handleStatus:
  assumes inv: "outbox_inv d" and digest: "statusDigest env st \<noteq> []"
  shows "runs (handleStatus env opts now st) d (\<lambda>_ d'. status_done env opts now st d d') (\<lambda>d'. onlyCursors opts (statusNames st) d d')"
    (is "runs _ d ?P ?E")
proof (cases "mo_HasStore opts \<and> isTarget opts st")
  case False
  then show ?thesis
    by (auto simp: handleStatus_def status_done_def intro!: runs_failed runs_ok split: sum.split option.split)
next
  case True
  show ?thesis
  proof (cases "NormalizeStatus (ms_content env) st")
    case (Inl err)
    then show ?thesis using True by (auto simp: handleStatus_def intro: runs_failed)
  next
    case (Inr p)
    show ?thesis
    proof (cases p)
      case None
      then show ?thesis using True Inr by (auto simp: handleStatus_def status_done_def intro: runs_ok)
    next
      case (Some post)
      define d1 where "d1 = aliased opts st (po_ID post) d"
      have only: "onlyCursors opts (statusNames st) d d1" unfolding d1_def by (rule aliased_only)
      note rest = onlyCursors_rest [OF only]
      let ?ref = "statusRef opts (po_ID post)" and ?post = "resolved opts st post d1"
      have same: "q_SourceOperationBySourceURI ?ref d1 = q_SourceOperationBySourceURI ?ref d" "q_EventMappingBySourceURI r d1 = q_EventMappingBySourceURI r d" for r
        using rest by (simp_all add: q_SourceOperationBySourceURI_def q_EventMappingBySourceURI_def)
      have done_eq: "?P () d' \<longleftrightarrow> status_published env opts now st post d d'" for d' using Some Inr True by (simp add: status_done_def)
      have author: "po_Author ?post = po_Author post" by (simp add: resolved_def split: option.split)
      have enq: "runs (enqueueStatus env opts now (po_ID post) (statusDigest env st) (q_EventMappingBySourceURI ?ref d1) (po_Author ?post) e) d1 ?P ?E"
        if e: "PostEvent (ms_keys env) (mo_MasterSeed opts) ?post (statusParents env opts ?post d1) = Inr e"
          and changed: "q_SourceOperationBySourceURI ?ref d1 \<noteq> Some (statusDigest env st)" for e
        using inv rest(2) e changed
        by (intro runs_enqueueStatus digest only)
          (auto simp: done_eq status_published_def Let_def d1_def [symmetric] same author queuedFor_cong [OF rest(1,6,5)] rest(4) split: option.splits)
      let ?rest = "andThen (resolveReply opts st post) (\<lambda>post'.
            andThen (optionalRow ''lookup Mastodon operation'' (SourceOperationBySourceURI ?ref)) (\<lambda>previous.
              if previous = Some (statusDigest env st) then ok ()
              else
                andThen (optionalRow ''lookup Mastodon mapping'' (EventMappingBySourceURI ?ref)) (\<lambda>old.
                andThen (mapPost env opts post') (\<lambda>e.
                  enqueueStatus env opts now (po_ID post) (statusDigest env st) old (po_Author post') e))))"
      have same_done: "?P () d1" if "q_SourceOperationBySourceURI ?ref d1 = Some (statusDigest env st)"
        using that same by (simp add: done_eq status_published_def Let_def d1_def)
      have "runs ?rest d1 ?P ?E"
        by (rule runs_andThen, rule runs_resolveReply, rule only, rule runs_andThen, rule runs_operation, rule only)
          (intro runs_if runs_andThen runs_lookup runs_mapPost runs_ok same_done enq only; assumption?)
      then have "runs (andThen (saveAliases opts st (po_ID post)) (\<lambda>_. ?rest)) d ?P ?E"
        unfolding d1_def
        by - (rule runs_andThen, rule runs_saveAliases, rule onlyCursors_refl, simp add: statusNames_def onlyCursors_save, assumption)
      then show ?thesis using True Inr Some by (simp add: handleStatus_def Let_def)
    qed
  qed
qed

text \<open>C28. Bridging a status is all or nothing. From any reachable database and with any statement
  failing: an error leaves everything but the aliases of the status as it was. Success leaves a
  status that is not bridged without effect; for a bridged one its aliases are stored, and unless
  this version was stored before, its digest and its mapping are, and the queue of the publisher
  received the note (after its registration when it has none), or the deletion of the old note and
  the new one when the status was mapped.\<close>

theorem mastodon_status_exact:
  assumes "statusDigest env st \<noteq> []"
  shows "case handleStatus env opts now st \<lparr>sq_faults = fs, sq_db = run_ops (ms_nostr env) ops empty_db\<rparr> of
      (Inl e, s') \<Rightarrow> onlyCursors opts (statusNames st) (run_ops (ms_nostr env) ops empty_db) (sq_db s')
    | (Inr _, s') \<Rightarrow> status_done env opts now st (run_ops (ms_nostr env) ops empty_db) (sq_db s')"
  using runs_handleStatus [OF reachable_outbox_inv [of "ms_nostr env" ops] assms, of opts now, unfolded runs_def, rule_format,
      of "\<lparr>sq_faults = fs, sq_db = run_ops (ms_nostr env) ops empty_db\<rparr>"] by simp

subsection \<open>Recovering a timeline\<close>

definition feeds_same :: "MastodonOptions \<Rightarrow> bridge_db \<Rightarrow> bridge_db \<Rightarrow> bool" where
  "feeds_same opts d d' \<longleftrightarrow> (\<forall>name. (\<forall>x. name \<noteq> aliasCursor x) \<longrightarrow> q_Cursor (mo_Scope opts) name d' = q_Cursor (mo_Scope opts) name d)"

definition handled :: "mastodon_env \<Rightarrow> MastodonOptions \<Rightarrow> bridge_db \<Rightarrow> Status \<Rightarrow> bool" where
  "handled env opts d st =
     (case NormalizeStatus (ms_content env) st of
        Inr (Some post) \<Rightarrow> \<not> isTarget opts st \<or> q_SourceOperationBySourceURI (statusRef opts (po_ID post)) d = Some (statusDigest env st)
      | _ \<Rightarrow> True)"

fun firstSeen :: "string list \<Rightarrow> Status list \<Rightarrow> Status list" where
  "firstSeen seen [] = []"
| "firstSeen seen (st # sts) = (if st_URI st \<in> set seen then firstSeen seen sts else st # firstSeen (st_URI st # seen) sts)"

lemma feeds_same_refl [simp]: "feeds_same opts d d"
  by (simp add: feeds_same_def)

lemma feeds_same_trans: "feeds_same opts d d1 \<Longrightarrow> feeds_same opts d1 d2 \<Longrightarrow> feeds_same opts d d2"
  by (simp add: feeds_same_def)

lemma onlyCursors_feeds:
  assumes "onlyCursors opts (statusNames st) d d'"
  shows "feeds_same opts d d'"
proof -
  have "name \<notin> set (statusNames st)" if "\<forall>x. name \<noteq> aliasCursor x" for name
    using that by (auto simp: statusNames_def aliasCursor_def)
  moreover obtain c where "d' = d\<lparr>sync_cursors := c\<rparr>"
    "\<forall>k. k \<notin> Pair (mo_Scope opts) ` set (statusNames st) \<longrightarrow> mget c k = mget (sync_cursors d) k"
    using assms by (auto simp: onlyCursors_def)
  ultimately have "mget (sync_cursors d') (mo_Scope opts, name) = mget (sync_cursors d) (mo_Scope opts, name)"
    if "\<forall>x. name \<noteq> aliasCursor x" for name
    using that by auto
  then show ?thesis by (simp add: feeds_same_def q_Cursor_def)
qed

lemma normalize_ID: "NormalizeStatus env st = Inr (Some post) \<Longrightarrow> po_ID post = ''mastodon:'' @ st_URI st"
  by (auto simp: NormalizeStatus_def Let_def split: if_splits)

abbreviation uriRef :: "MastodonOptions \<Rightarrow> string \<Rightarrow> SourceRef" where
  "uriRef opts uri \<equiv> statusRef opts (''mastodon:'' @ uri)"

lemma status_done_keeps:
  assumes inv: "outbox_inv d" and s: "status_done env opts now st d d'"
  shows "outbox_inv d'" "feeds_same opts d d'" "handled env opts d' st"
    "uri \<noteq> st_URI st \<Longrightarrow> q_SourceOperationBySourceURI (uriRef opts uri) d' = q_SourceOperationBySourceURI (uriRef opts uri) d"
proof -
  consider "d' = d" "handled env opts d' st"
    | post where "NormalizeStatus (ms_content env) st = Inr (Some post)" "isTarget opts st" "status_published env opts now st post d d'"
    using s by (auto simp: status_done_def handled_def split: sum.splits option.splits if_splits)
  then have "outbox_inv d' \<and> feeds_same opts d d' \<and> handled env opts d' st
      \<and> (uri \<noteq> st_URI st \<longrightarrow> q_SourceOperationBySourceURI (uriRef opts uri) d' = q_SourceOperationBySourceURI (uriRef opts uri) d)"
  proof cases
    case 1
    then show ?thesis using inv by simp
  next
    case (2 post)
    define d1 where "d1 = aliased opts st (po_ID post) d"
    have only: "onlyCursors opts (statusNames st) d d1" unfolding d1_def by (rule aliased_only)
    note rest = onlyCursors_rest [OF only] onlyCursors_feeds [OF only]
    have ID: "po_ID post = ''mastodon:'' @ st_URI st" using normalize_ID [OF 2(1)] .
    show ?thesis
    proof (cases "q_SourceOperationBySourceURI (statusRef opts (po_ID post)) d = Some (statusDigest env st)")
      case True
      then have "d' = d1" using 2(3) by (simp add: status_published_def Let_def d1_def)
      then show ?thesis using rest inv True 2 by (simp add: handled_def q_SourceOperationBySourceURI_def)
    next
      case False
      then have ops: "source_operations d' = mput (source_operations d) (statusRef opts (po_ID post)) (statusDigest env st)"
        and cur: "sync_cursors d' = sync_cursors d1" and inv': "outbox_inv d'"
        using 2(3) by (auto simp: status_published_def Let_def d1_def)
      have "feeds_same opts d d'" using rest(7) cur by (simp add: feeds_same_def q_Cursor_def)
      then show ?thesis using ops inv' 2 ID by (simp add: handled_def q_SourceOperationBySourceURI_def statusRef_def)
    qed
  qed
  then show "outbox_inv d'" "feeds_same opts d d'" "handled env opts d' st"
    "uri \<noteq> st_URI st \<Longrightarrow> q_SourceOperationBySourceURI (uriRef opts uri) d' = q_SourceOperationBySourceURI (uriRef opts uri) d" by auto
qed

definition swept :: "mastodon_env \<Rightarrow> MastodonOptions \<Rightarrow> string list \<Rightarrow> Status list \<Rightarrow> bridge_db \<Rightarrow> bridge_db \<Rightarrow> bool" where
  "swept env opts seen sts d d' \<longleftrightarrow> outbox_inv d' \<and> feeds_same opts d d' \<and> list_all (handled env opts d') (firstSeen seen sts)
     \<and> (\<forall>uri \<in> set seen. q_SourceOperationBySourceURI (uriRef opts uri) d' = q_SourceOperationBySourceURI (uriRef opts uri) d)"

lemma handled_cong:
  "q_SourceOperationBySourceURI (uriRef opts (st_URI st)) d = q_SourceOperationBySourceURI (uriRef opts (st_URI st)) d' \<Longrightarrow>
     handled env opts d st = handled env opts d' st"
  by (auto simp: handled_def dest!: normalize_ID split: sum.split option.split)

lemma runs_handleStatuses:
  assumes digest: "\<And>st. statusDigest env st \<noteq> []"
  shows "outbox_inv d \<Longrightarrow> runs (handleStatuses env opts now seen sts) d (\<lambda>_ d'. swept env opts seen sts d d') (\<lambda>d'. feeds_same opts d d')"
proof (induction sts arbitrary: d seen)
  case Nil
  then show ?case by (auto simp: swept_def intro: runs_ok)
next
  case (Cons st sts)
  have extend: "swept env opts seen (st # sts) d d'"
    if new: "st_URI st \<notin> set seen" and d1: "feeds_same opts d d1" "handled env opts d1 st"
      "\<And>uri. uri \<noteq> st_URI st \<Longrightarrow> q_SourceOperationBySourceURI (uriRef opts uri) d1 = q_SourceOperationBySourceURI (uriRef opts uri) d"
      and rest: "swept env opts (st_URI st # seen) sts d1 d'" for d1 d'
  proof -
    have "handled env opts d' st" using rest d1(2) handled_cong [of opts st d' d1 env] by (simp add: swept_def)
    moreover have "q_SourceOperationBySourceURI (uriRef opts uri) d' = q_SourceOperationBySourceURI (uriRef opts uri) d" if u: "uri \<in> set seen" for uri
      using rest d1(3) [of uri] new u by (auto simp: swept_def)
    ultimately show ?thesis using rest d1(1) new feeds_same_trans by (auto simp: swept_def)
  qed
  show ?case
  proof (cases "st_URI st \<in> set seen")
    case True
    then show ?thesis using Cons.IH [OF Cons.prems, of seen] by (simp add: swept_def)
  next
    case new: False
    show ?thesis
    proof (cases "isTarget opts st")
      case False
      then have "handled env opts d st" by (simp add: handled_def split: sum.split option.split)
      then show ?thesis using new False extend [OF new, of d]
        by (auto intro!: runs_mono [OF Cons.IH [OF Cons.prems, of "st_URI st # seen"]])
    next
      case True
      have next_run: "runs (handleStatuses env opts now (st_URI st # seen) sts) d1 (\<lambda>_ d'. swept env opts seen (st # sts) d d') (\<lambda>d'. feeds_same opts d d')"
        if "status_done env opts now st d d1" for d1
        using status_done_keeps [OF Cons.prems that] extend [OF new, of d1] feeds_same_trans
        by (intro runs_mono [OF Cons.IH]) blast+
      have "runs (andThen (handleStatus env opts now st) (\<lambda>_. handleStatuses env opts now (st_URI st # seen) sts)) d
          (\<lambda>_ d'. swept env opts seen (st # sts) d d') (\<lambda>d'. feeds_same opts d d')"
        by (rule runs_andThen, rule runs_mono [OF runs_handleStatus [OF Cons.prems digest]]) (auto intro: next_run onlyCursors_feeds)
      then show ?thesis using new True by simp
    qed
  qed
qed

definition cur :: "MastodonOptions \<Rightarrow> string \<Rightarrow> bridge_db \<Rightarrow> string" where
  "cur opts name d = (case q_Cursor (mo_Scope opts) name d of Some v \<Rightarrow> v | None \<Rightarrow> [])"

definition pageHandled :: "mastodon_env \<Rightarrow> MastodonOptions \<Rightarrow> TimelinePage \<Rightarrow> bridge_db \<Rightarrow> bool" where
  "pageHandled env opts page d \<longleftrightarrow> list_all (handled env opts d) (firstSeen [] (sort_key st_CreatedAt (tp_Statuses page)))"

definition pageCeiling :: "MastodonOptions \<Rightarrow> string \<Rightarrow> TimelinePage \<Rightarrow> bridge_db \<Rightarrow> string" where
  "pageCeiling opts feed page d =
     (if cur opts (feedCeiling feed) d = [] \<and> tp_Statuses page \<noteq> [] then st_ID (hd (tp_Statuses page)) else cur opts (feedCeiling feed) d)"

definition feed_recovered :: "mastodon_env \<Rightarrow> MastodonOptions \<Rightarrow> string \<Rightarrow> TimelinePage \<Rightarrow> bridge_db \<Rightarrow> bridge_db \<Rightarrow> bool" where
  "feed_recovered env opts feed page d d' \<longleftrightarrow> pageHandled env opts page d'
     \<and> (if tp_NextMaxID page \<noteq> []
        then cur opts (feedNext feed) d' = tp_NextMaxID page \<and> cur opts (feedCeiling feed) d' = pageCeiling opts feed page d
          \<and> cur opts (feedCommitted feed) d' = cur opts (feedCommitted feed) d
        else cur opts (feedNext feed) d' = [] \<and> cur opts (feedCeiling feed) d' = []
          \<and> cur opts (feedCommitted feed) d' =
              (if pageCeiling opts feed page d \<noteq> [] then pageCeiling opts feed page d else cur opts (feedCommitted feed) d))"

definition commit_safe :: "mastodon_env \<Rightarrow> MastodonOptions \<Rightarrow> string \<Rightarrow> TimelinePage option \<Rightarrow> bridge_db \<Rightarrow> bridge_db \<Rightarrow> bool" where
  "commit_safe env opts feed answer d d' \<longleftrightarrow> cur opts (feedCommitted feed) d' = cur opts (feedCommitted feed) d
     \<or> (case answer of None \<Rightarrow> False | Some page \<Rightarrow> tp_NextMaxID page = [] \<and> pageHandled env opts page d')"

definition feedAnswer ::
    "MastodonOptions \<Rightarrow> (string \<Rightarrow> string \<Rightarrow> string \<Rightarrow> int \<Rightarrow> TimelinePage option) \<Rightarrow> string \<Rightarrow> int \<Rightarrow> bridge_db \<Rightarrow> TimelinePage option" where
  "feedAnswer opts api feed budget d = api feed (cur opts (feedCommitted feed) d) (cur opts (feedNext feed) d) budget"

lemma cur_save [simp]: "cur opts name (q_SaveCursor (mo_Scope opts) name' v d) = (if name = name' then v else cur opts name d)"
  by (simp add: cur_def q_Cursor_def q_SaveCursor_def)

lemma pageHandled_save [simp]: "pageHandled env opts page (q_SaveCursor scope name v d) = pageHandled env opts page d"
proof -
  have "handled env opts (q_SaveCursor scope name v d) = handled env opts d"
    by (rule ext, rule handled_cong) (simp add: q_SourceOperationBySourceURI_def q_SaveCursor_def)
  then show ?thesis by (simp add: pageHandled_def)
qed

lemma feed_names [simp]:
  "feedCommitted feed \<noteq> feedCeiling feed" "feedCeiling feed \<noteq> feedCommitted feed" "feedNext feed \<noteq> feedCommitted feed"
  "feedCommitted feed \<noteq> feedNext feed" "feedNext feed \<noteq> feedCeiling feed" "feedCeiling feed \<noteq> feedNext feed"
  by (simp_all add: feedCommitted_def feedCeiling_def feedNext_def)

lemma feeds_same_cur:
  assumes "feeds_same opts d d'"
  shows "cur opts (feedCommitted feed) d' = cur opts (feedCommitted feed) d" "cur opts (feedCeiling feed) d' = cur opts (feedCeiling feed) d"
    "cur opts (feedNext feed) d' = cur opts (feedNext feed) d"
  using assms by (simp_all add: feeds_same_def cur_def feedCommitted_def feedCeiling_def feedNext_def aliasCursor_def)

lemma outbox_inv_save [simp]: "outbox_inv (q_SaveCursor scope name v d) = outbox_inv d"
  by (rule outbox_inv_cong) (simp_all add: q_SaveCursor_def)

lemma runs_finishFeed:
  assumes page: "pageHandled env opts page d1" and same: "cur opts (feedCommitted feed) d1 = cur opts (feedCommitted feed) d"
    "cur opts (feedCeiling feed) d1 = pageCeiling opts feed page d" and answer: "answer = Some page"
  shows "runs (finishFeed opts feed page (pageCeiling opts feed page d)) d1
     (\<lambda>used d'. used = int (length (tp_Statuses page)) \<and> feed_recovered env opts feed page d d') (\<lambda>d'. commit_safe env opts feed answer d d')"
    (is "runs _ d1 ?P ?E")
  unfolding finishFeed_def Let_def
proof (rule runs_if)
  let ?used = "int (length (tp_Statuses page))"
  assume next_page: "tp_NextMaxID page \<noteq> []"
  show "runs (andThen (putCursor opts [] (feedNext feed) (tp_NextMaxID page)) (\<lambda>_. ok ?used)) d1 ?P ?E"
    by (rule runs_andThen, rule runs_putCursor, simp add: commit_safe_def same, rule runs_ok)
      (simp add: feed_recovered_def page same next_page)
next
  let ?used = "int (length (tp_Statuses page))" and ?ceiling = "pageCeiling opts feed page d"
  let ?tail = "andThen (putCursor opts [] (feedCeiling feed) []) (\<lambda>_. andThen (putCursor opts [] (feedNext feed) []) (\<lambda>_. ok ?used))"
  assume last_page: "\<not> tp_NextMaxID page \<noteq> []"
  define d2 where "d2 = (if ?ceiling \<noteq> [] then q_SaveCursor (mo_Scope opts) (feedCommitted feed) ?ceiling d1 else d1)"
  have safe: "commit_safe env opts feed answer d x" if "pageHandled env opts page x" for x
    using that last_page answer by (simp add: commit_safe_def)
  have d2: "pageHandled env opts page d2"
    "cur opts (feedCommitted feed) d2 = (if ?ceiling \<noteq> [] then ?ceiling else cur opts (feedCommitted feed) d)"
    using page same by (simp_all add: d2_def)
  have "runs ?tail d2 ?P ?E"
    by (rule runs_andThen, rule runs_putCursor, rule safe [OF d2(1)], rule runs_andThen, rule runs_putCursor, rule safe, simp add: d2, rule runs_ok)
      (use last_page d2 in \<open>simp add: feed_recovered_def\<close>)
  then show "runs (andThen (if ?ceiling \<noteq> [] then putCursor opts [] (feedCommitted feed) ?ceiling else ok ()) (\<lambda>_. ?tail)) d1 ?P ?E"
    unfolding d2_def
    by (cases "?ceiling = []")
      (simp_all, (rule runs_andThen, rule runs_ok, assumption), (rule runs_andThen, rule runs_putCursor, rule safe [OF page], assumption))
qed

lemma runs_recoverPage:
  assumes inv: "outbox_inv d" and digest: "\<And>st. statusDigest env st \<noteq> []" and answer: "answer = Some page"
  shows "runs (recoverPage env opts now feed (cur opts (feedCeiling feed) d) page) d
     (\<lambda>used d'. used = int (length (tp_Statuses page)) \<and> feed_recovered env opts feed page d d') (\<lambda>d'. commit_safe env opts feed answer d d')"
    (is "runs _ d ?P ?E")
proof -
  let ?fresh = "cur opts (feedCeiling feed) d = [] \<and> tp_Statuses page \<noteq> []" and ?ceiling = "pageCeiling opts feed page d"
  let ?sts = "sort_key st_CreatedAt (tp_Statuses page)"
  define d1 where "d1 = (if ?fresh then q_SaveCursor (mo_Scope opts) (feedCeiling feed) ?ceiling d else d)"
  have d1: "outbox_inv d1" "cur opts (feedCommitted feed) d1 = cur opts (feedCommitted feed) d" "cur opts (feedCeiling feed) d1 = ?ceiling"
    using inv by (simp_all add: d1_def pageCeiling_def)
  have finish: "runs (finishFeed opts feed page ?ceiling) d2 ?P ?E" if sw: "swept env opts [] ?sts d1 d2" for d2
  proof (rule runs_finishFeed [OF _ _ _ answer])
    show "pageHandled env opts page d2" using sw by (simp add: swept_def pageHandled_def)
    show "cur opts (feedCommitted feed) d2 = cur opts (feedCommitted feed) d" "cur opts (feedCeiling feed) d2 = ?ceiling"
      using sw d1 feeds_same_cur [of opts d1 d2] by (simp_all add: swept_def)
  qed
  have err: "?E d'" if "feeds_same opts d1 d'" for d' using feeds_same_cur [OF that] d1 by (simp add: commit_safe_def)
  have "runs (andThen (handleStatuses env opts now [] ?sts) (\<lambda>_. finishFeed opts feed page ?ceiling)) d1 ?P ?E"
    by (rule runs_andThen, rule runs_mono [OF runs_handleStatuses [OF digest d1(1)]], rule finish, assumption, rule err, assumption)
  then have rest: "runs (andThen (handleStatuses env opts now [] ?sts) (\<lambda>_. finishFeed opts feed page ?ceiling))
      (if ?fresh then q_SaveCursor (mo_Scope opts) (feedCeiling feed) ?ceiling d else d) ?P ?E" by (simp only: d1_def)
  have ceiling: "(if ?fresh then st_ID (hd (tp_Statuses page)) else cur opts (feedCeiling feed) d) = ?ceiling" by (simp add: pageCeiling_def)
  have start: "?E d" by (simp add: commit_safe_def)
  show ?thesis unfolding recoverPage_def Let_def ceiling
  proof (cases ?fresh)
    case fresh: True
    note rest = rest [unfolded if_P [OF fresh]]
    show "runs (andThen (if ?fresh then putCursor opts [] (feedCeiling feed) ?ceiling else ok ())
        (\<lambda>_. andThen (handleStatuses env opts now [] ?sts) (\<lambda>_. finishFeed opts feed page ?ceiling))) d ?P ?E"
      unfolding if_P [OF fresh] by (rule runs_andThen, rule runs_putCursor, rule start, rule rest)
  next
    case old: False
    note rest = rest [unfolded if_not_P [OF old]]
    show "runs (andThen (if ?fresh then putCursor opts [] (feedCeiling feed) ?ceiling else ok ())
        (\<lambda>_. andThen (handleStatuses env opts now [] ?sts) (\<lambda>_. finishFeed opts feed page ?ceiling))) d ?P ?E"
      unfolding if_not_P [OF old] by (rule runs_andThen, rule runs_ok, rule rest)
  qed
qed

lemma runs_recoverFeed:
  assumes inv: "outbox_inv d" and digest: "\<And>st. statusDigest env st \<noteq> []"
    and answer: "answer = api feed (cur opts (feedCommitted feed) d) (cur opts (feedNext feed) d) budget"
  shows "runs (recoverFeed env opts now api feed budget) d
     (\<lambda>used d'. case answer of None \<Rightarrow> False | Some page \<Rightarrow> used = int (length (tp_Statuses page)) \<and> feed_recovered env opts feed page d d')
     (\<lambda>d'. commit_safe env opts feed answer d d')" (is "runs _ d ?P ?E")
proof -
  have refl: "?E d" by (simp add: commit_safe_def)
  have "runs (case answer of None \<Rightarrow> failed (SyncMsg (''read Mastodon '' @ feed @ '' timeline''))
      | Some page \<Rightarrow> recoverPage env opts now feed (cur opts (feedCeiling feed) d) page) d ?P ?E"
    using runs_recoverPage [OF inv digest, of answer] refl by (cases answer) (auto intro: runs_failed)
  then show ?thesis unfolding recoverFeed_def answer
    by - (rule runs_andThen, rule runs_loadCursor, rule refl [unfolded answer], rule runs_andThen, rule runs_loadCursor, rule refl [unfolded answer],
        rule runs_andThen, rule runs_loadCursor, rule refl [unfolded answer], simp only: cur_def)
qed

text \<open>C27. A position in a timeline is committed only when everything up to it is bridged. From any
  reachable database and with any statement failing, recovering a feed either leaves the committed
  position as it was, or the page was the last one and each status of it that is bridged has its
  current version stored. When the recovery succeeds the page is stored, and either the next page
  is remembered or the position moved to the newest status seen when the recovery began.\<close>

theorem recovery_commits_safely:
  assumes digest: "\<And>st. statusDigest env st \<noteq> []"
  shows "case recoverFeed env opts now api feed budget \<lparr>sq_faults = fs, sq_db = run_ops (ms_nostr env) ops empty_db\<rparr> of
      (Inl e, s') \<Rightarrow>
        commit_safe env opts feed (feedAnswer opts api feed budget (run_ops (ms_nostr env) ops empty_db)) (run_ops (ms_nostr env) ops empty_db) (sq_db s')
    | (Inr used, s') \<Rightarrow>
        (case feedAnswer opts api feed budget (run_ops (ms_nostr env) ops empty_db) of
           None \<Rightarrow> False
         | Some page \<Rightarrow> used = int (length (tp_Statuses page)) \<and> feed_recovered env opts feed page (run_ops (ms_nostr env) ops empty_db) (sq_db s'))"
proof -
  have "runs (recoverFeed env opts now api feed budget) d
     (\<lambda>used d'. case feedAnswer opts api feed budget d of
        None \<Rightarrow> False | Some page \<Rightarrow> used = int (length (tp_Statuses page)) \<and> feed_recovered env opts feed page d d')
     (\<lambda>d'. commit_safe env opts feed (feedAnswer opts api feed budget d) d d')" if "outbox_inv d" for d
    by (rule runs_recoverFeed [OF that digest]) (simp add: feedAnswer_def)
  from this [OF reachable_outbox_inv [of "ms_nostr env" ops]] show ?thesis unfolding runs_def by simp
qed


subsection \<open>A concrete service\<close>

definition toy_mastodon :: mastodon_env where
  "toy_mastodon = \<lparr>ms_content = \<lparr>parseHTML = (\<lambda>_. None),
       parseURL_parts = (\<lambda>u. Some \<lparr>ur_Scheme = ''https'', ur_Host = ''h'', ur_Path = u, ur_HasUser = False\<rparr>), punctFirst = (\<lambda>_. False)\<rparr>,
     ms_nostr = oe_nostr toy_env, ms_keys = oe_keys toy_env, ms_idFromHex = Some, statusDigest = (\<lambda>st. ''v'' @ st_Content st)\<rparr>"

definition toy_options :: MastodonOptions where
  "toy_options = \<lparr>mo_Scope = \<lparr>Provider = ''mastodon'', Account = ''me''\<rparr>, mo_HasAPI = True, mo_HasStore = True, mo_MasterSeed = ''seed'',
     mo_Targets = None, mo_ListIDs = [], mo_BackfillLimit = 10, mo_OutboxLimit = 10\<rparr>"

definition toy_status :: Status where
  "toy_status = \<lparr>st_ID = ''1'', st_URI = ''u'', st_URL = ''u'', st_Content = ''hi'', st_SpoilerText = [], st_CreatedAt = 5, st_Visibility = ''public'',
     st_Sensitive = False, st_InReplyToID = [], st_InReplyToAccountID = [],
     st_Account = \<lparr>acc_ID = ''a'', acc_URI = ''a'', acc_URL = ''a'', acc_DisplayName = [], acc_Note = [], acc_Avatar = []\<rparr>,
     st_MediaAttachments = [], st_HasReblog = False\<rparr>"

abbreviation toy_start :: sq where
  "toy_start \<equiv> \<lparr>sq_faults = [], sq_db = run_ops (ms_nostr toy_mastodon) [] empty_db\<rparr>"

abbreviation toy_page :: "string \<Rightarrow> string \<Rightarrow> string \<Rightarrow> int \<Rightarrow> TimelinePage option" where
  "toy_page feed since mx limit \<equiv> Some \<lparr>tp_Statuses = [toy_status], tp_NextMaxID = []\<rparr>"

theorem mastodon_status_exact_witness:
  "(case handleStatus toy_mastodon toy_options 7 toy_status toy_start of
      (Inl _, _) \<Rightarrow> False
    | (Inr _, s') \<Rightarrow> status_done toy_mastodon toy_options 7 toy_status (run_ops (ms_nostr toy_mastodon) [] empty_db) (sq_db s'))
   \<and> length (outbox (sq_db (snd (handleStatus toy_mastodon toy_options 7 toy_status toy_start)))) = 2"
proof -
  have digest: "statusDigest toy_mastodon toy_status \<noteq> []" by (simp add: toy_mastodon_def)
  have run: "isl (fst (handleStatus toy_mastodon toy_options 7 toy_status toy_start)) = False
     \<and> length (outbox (sq_db (snd (handleStatus toy_mastodon toy_options 7 toy_status toy_start)))) = 2" by code_simp
  show ?thesis using mastodon_status_exact [where opts = toy_options and now = 7 and fs = "[]" and ops = "[]", OF digest] run by (auto split: prod.splits sum.splits)
qed

theorem recovery_commits_safely_witness:
  "(case recoverFeed toy_mastodon toy_options 7 toy_page ''home'' 10 toy_start of
      (Inl _, _) \<Rightarrow> False
    | (Inr _, s') \<Rightarrow> feed_recovered toy_mastodon toy_options ''home'' \<lparr>tp_Statuses = [toy_status], tp_NextMaxID = []\<rparr>
        (run_ops (ms_nostr toy_mastodon) [] empty_db) (sq_db s'))"
proof -
  have digest: "statusDigest toy_mastodon st \<noteq> []" for st by (simp add: toy_mastodon_def)
  have run: "isl (fst (recoverFeed toy_mastodon toy_options 7 toy_page ''home'' 10 toy_start)) = False" by code_simp
  show ?thesis using recovery_commits_safely [where opts = toy_options and now = 7 and fs = "[]" and ops = "[]" and api = toy_page and feed = "''home''" and budget = 10, OF digest] run
    by (auto simp: feedAnswer_def split: prod.splits sum.splits)
qed

end
