(* ===== verification/Mastodon_Targets.thy ===== *)
theory Mastodon_Targets
  imports Bridge_Mastodon
begin

text \<open>
  What the bridge follows on Mastodon (\<^verbatim>\<open>cmd/nostr-bridge/mastodon/reconcile.go\<close>): the accounts the
  owner follows and the members of the configured lists become identities with profiles. The
  service's answers are the fields of \<open>ReconcileSource\<close>; sets and maps are lists, in any order.
\<close>

subsection \<open>The reconciler\<close>

record MastodonList =
  ml_ID :: string
  ml_Title :: string

record 'e ReconcileSource =
  rs_Account :: "'e + Account"
  rs_Following :: "string \<Rightarrow> 'e + Account list"
  rs_Lists :: "'e + MastodonList list"
  rs_ListAccounts :: "string \<Rightarrow> 'e + Account list"

datatype 'e recon_error = ReconMsg string | ReconAPI 'e

definition accountIdentity :: "Account \<Rightarrow> ActorIdentity option" where
  "accountIdentity a = (let uri = TrimSpace (acc_URI a) in if uri = [] then None else Some \<lparr>ai_Provider = ''mastodon'', ai_ID = uri\<rparr>)"

definition accountsToSet :: "Account list \<Rightarrow> ActorIdentity list" where
  "accountsToSet accounts = remdups (List.map_filter accountIdentity accounts)"

fun addProfiles :: "content_env \<Rightarrow> (ActorIdentity, Profile) gomap \<Rightarrow> Account list \<Rightarrow> (ActorIdentity, Profile) gomap" where
  "addProfiles env m [] = m"
| "addProfiles env m (a # as) =
     (case accountIdentity a of
        None \<Rightarrow> addProfiles env m as
      | Some i \<Rightarrow>
          addProfiles env
            (mput m i \<lparr>pf_Identity = i, pf_DisplayName = acc_DisplayName a, pf_Description = HTMLToText env (acc_Note a),
                       pf_AvatarURL = acc_Avatar a, pf_ProfileURL = acc_URL a\<rparr>) as)"

definition profileValues :: "(ActorIdentity, Profile) gomap \<Rightarrow> Profile list" where
  "profileValues m = map snd m"

definition normalizedOrigin :: "content_env \<Rightarrow> string \<Rightarrow> string" where
  "normalizedOrigin env raw =
     (case parseURL_parts env (TrimSpace raw) of
        None \<Rightarrow> []
      | Some u \<Rightarrow>
          if ur_Scheme u = [] \<or> ur_Host u = [] \<or> ur_HasUser u then []
          else toLower (ur_Scheme u) @ ''://'' @ toLower (ur_Host u))"

fun availableLists :: "MastodonList list \<Rightarrow> (string, MastodonList) gomap \<Rightarrow> (string, MastodonList) gomap" where
  "availableLists [] m = m"
| "availableLists (l # ls) m = availableLists ls (mput m (ml_ID l) l)"

fun addLists ::
    "content_env \<Rightarrow> 'e ReconcileSource \<Rightarrow> string \<Rightarrow> (string, MastodonList) gomap \<Rightarrow> string list \<Rightarrow> TargetSnapshot \<Rightarrow>
     (ActorIdentity, Profile) gomap \<Rightarrow> 'e recon_error + TargetSnapshot \<times> Profile list" where
  "addLists env api origin available [] snap profiles = Inr (snap, profileValues profiles)"
| "addLists env api origin available (i # is) snap profiles =
     (case mget available i of
        None \<Rightarrow> Inl (ReconMsg ''configured Mastodon list not found'')
      | Some metadata \<Rightarrow>
          (case rs_ListAccounts api i of
             Inl e \<Rightarrow> Inl (ReconAPI e)
           | Inr members \<Rightarrow>
               let s = accountsToSet members in
               addLists env api origin available is
                 (snap\<lparr>ts_Lists := mput (ts_Lists snap) i
                         \<lparr>sl_ID = ''mastodon:'' @ origin @ '':'' @ i, sl_Title = ml_Title metadata, sl_Description = [], sl_Members = s\<rparr>,
                       ts_Union := remdups (ts_Union snap @ s)\<rparr>)
                 (addProfiles env profiles members)))"

definition MastodonReconcile :: "content_env \<Rightarrow> 'e ReconcileSource option \<Rightarrow> string list \<Rightarrow> 'e recon_error + TargetSnapshot \<times> Profile list" where
  "MastodonReconcile env source listIDs =
     (case source of
        None \<Rightarrow> Inl (ReconMsg ''invalid Mastodon reconciler configuration'')
      | Some api \<Rightarrow>
          (case rs_Account api of
             Inl e \<Rightarrow> Inl (ReconAPI e)
           | Inr owner \<Rightarrow>
               let origin = normalizedOrigin env (acc_URI owner) in
               if origin = [] then Inl (ReconMsg ''invalid Mastodon account URI'')
               else
                 (case rs_Following api (acc_ID owner) of
                    Inl e \<Rightarrow> Inl (ReconAPI e)
                  | Inr follows \<Rightarrow>
                      let configured = uniqueStrings [] listIDs;
                          snap = \<lparr>ts_Follows = accountsToSet follows, ts_Lists = [], ts_Union = accountsToSet follows\<rparr>;
                          profiles = addProfiles env (addProfiles env [] [owner]) follows
                      in if configured = [] then Inr (snap, profileValues profiles)
                         else
                           (case rs_Lists api of
                              Inl e \<Rightarrow> Inl (ReconAPI e)
                            | Inr ls \<Rightarrow> addLists env api origin (availableLists ls []) configured snap profiles))))"

subsection \<open>Profiles and targets agree\<close>

definition listMembers :: "'e ReconcileSource \<Rightarrow> string \<Rightarrow> ActorIdentity set" where
  "listMembers api i = (case rs_ListAccounts api i of Inl _ \<Rightarrow> {} | Inr members \<Rightarrow> set (accountsToSet members))"

definition profiles_ok :: "(ActorIdentity, Profile) gomap \<Rightarrow> bool" where
  "profiles_ok m \<longleftrightarrow> mwf m \<and> (\<forall>(i, p) \<in> set m. pf_Identity p = i)"

definition snapshot_wf :: "TargetSnapshot \<Rightarrow> bool" where
  "snapshot_wf snap \<longleftrightarrow> distinct (ts_Follows snap) \<and> distinct (ts_Union snap) \<and> mwf (ts_Lists snap)
     \<and> (\<forall>(i, l) \<in> set (ts_Lists snap). distinct (sl_Members l))
     \<and> set (ts_Union snap) = set (ts_Follows snap) \<union> (\<Union>(i, l) \<in> set (ts_Lists snap). set (sl_Members l))"

lemma set_uniqueStrings: "set (uniqueStrings seen vs) = {t \<in> TrimSpace ` set vs. t \<noteq> [] \<and> t \<notin> set seen}"
  by (induction seen vs rule: uniqueStrings.induct) (auto simp: Let_def)

lemma distinct_uniqueStrings: "distinct (uniqueStrings seen vs)"
  by (induction seen vs rule: uniqueStrings.induct) (auto simp: Let_def set_uniqueStrings)

lemma set_accounts: "set (accountsToSet as) = {i. \<exists>a \<in> set as. accountIdentity a = Some i}"
  by (force simp: accountsToSet_def map_filter_def)

lemma mput_dom: "fst ` set (mput m k v) = insert k (fst ` set m)"
  by (induction m) auto

lemma mput_entries: "set (mput m k v) \<subseteq> insert (k, v) (set m)"
  by (induction m) auto

lemma addProfiles_dom: "fst ` set (addProfiles env m as) = fst ` set m \<union> set (accountsToSet as)"
  by (induction env m as rule: addProfiles.induct) (auto simp: set_accounts mput_dom split: option.splits)

lemma addProfiles_ok: "profiles_ok m \<Longrightarrow> profiles_ok (addProfiles env m as)"
proof (induction env m as rule: addProfiles.induct)
  case (2 env m a as)
  show ?case
  proof (cases "accountIdentity a")
    case (Some i)
    let ?m = "mput m i \<lparr>pf_Identity = i, pf_DisplayName = acc_DisplayName a, pf_Description = HTMLToText env (acc_Note a),
      pf_AvatarURL = acc_Avatar a, pf_ProfileURL = acc_URL a\<rparr>"
    have "profiles_ok ?m" using "2.prems" mput_entries [of i _ m] by (fastforce simp: profiles_ok_def)
    then show ?thesis using "2.IH"(2) [OF Some] Some by simp
  qed (use 2 in simp)
qed simp

lemma profileValues_identities: "profiles_ok m \<Longrightarrow> pf_Identity ` set (profileValues m) = fst ` set m \<and> distinct (map pf_Identity (profileValues m))"
proof -
  assume ok: "profiles_ok m"
  have "map pf_Identity (profileValues m) = map fst m" using ok by (auto simp: profileValues_def profiles_ok_def)
  then show ?thesis using ok by (metis profiles_ok_def set_map)
qed


lemma mput_fresh: "k \<notin> fst ` set m \<Longrightarrow> mput m k v = m @ [(k, v)]"
  by (induction m) auto

lemma addLists_spec:
  "addLists env api origin available is snap profiles = Inr (snap', ps) \<Longrightarrow> snapshot_wf snap \<Longrightarrow> profiles_ok profiles \<Longrightarrow> distinct is \<Longrightarrow>
   set is \<inter> fst ` set (ts_Lists snap) = {} \<Longrightarrow>
   snapshot_wf snap' \<and> ts_Follows snap' = ts_Follows snap \<and> fst ` set (ts_Lists snap') = fst ` set (ts_Lists snap) \<union> set is
   \<and> set (ts_Union snap') = set (ts_Union snap) \<union> (\<Union>i \<in> set is. listMembers api i)
   \<and> pf_Identity ` set ps = fst ` set profiles \<union> (\<Union>i \<in> set is. listMembers api i) \<and> distinct (map pf_Identity ps)"
proof (induction "is" arbitrary: snap profiles)
  case Nil
  then show ?case using profileValues_identities [OF Nil.prems(3)] by simp
next
  case (Cons i "is")
  from Cons.prems(1) obtain metadata members where m: "mget available i = Some metadata" "rs_ListAccounts api i = Inr members"
    by (auto split: option.splits sum.splits)
  let ?s = "accountsToSet members"
  let ?l = "\<lparr>sl_ID = ''mastodon:'' @ origin @ '':'' @ i, sl_Title = ml_Title metadata, sl_Description = [], sl_Members = ?s\<rparr>"
  define snap1 where "snap1 = snap\<lparr>ts_Lists := mput (ts_Lists snap) i ?l, ts_Union := remdups (ts_Union snap @ ?s)\<rparr>"
  have lists: "ts_Lists snap1 = ts_Lists snap @ [(i, ?l)]" using Cons.prems(5) by (simp add: snap1_def mput_fresh)
  have rest: "ts_Follows snap1 = ts_Follows snap" "ts_Union snap1 = remdups (ts_Union snap @ ?s)" by (simp_all add: snap1_def)
  have wf: "snapshot_wf snap1"
    using Cons.prems(2,5) unfolding snapshot_wf_def lists rest by (auto simp: accountsToSet_def)
  have "addLists env api origin available is snap1 (addProfiles env profiles members) = Inr (snap', ps)"
    using Cons.prems(1) m by (simp add: snap1_def Let_def)
  from Cons.IH [OF this wf addProfiles_ok [OF Cons.prems(3)]] Cons.prems(4,5)
  show ?case by (auto simp: lists rest addProfiles_dom listMembers_def m)
qed

text \<open>C29. A reconciliation of Mastodon that succeeds answered every request it made. What the
  bridge follows is what the owner follows and, in addition, exactly the members of the lists that are
  configured, with blank and repeated list identifiers ignored; and each identity it follows, and
  the owner's, has exactly one profile.\<close>

theorem mastodon_targets_exact:
  "case MastodonReconcile env source listIDs of
     Inl _ \<Rightarrow> True
   | Inr (snap, profiles) \<Rightarrow> (\<exists>api owner follows. source = Some api \<and> rs_Account api = Inr owner \<and> rs_Following api (acc_ID owner) = Inr follows
       \<and> snapshot_wf snap \<and> set (ts_Follows snap) = set (accountsToSet follows)
       \<and> fst ` set (ts_Lists snap) = TrimSpace ` set listIDs - {[]}
       \<and> set (ts_Union snap) = set (accountsToSet follows) \<union> (\<Union>i \<in> fst ` set (ts_Lists snap). listMembers api i)
       \<and> pf_Identity ` set profiles = set (accountsToSet [owner]) \<union> set (ts_Union snap) \<and> distinct (map pf_Identity profiles))"
proof (cases "MastodonReconcile env source listIDs")
  case (Inr r)
  obtain snap profiles where r: "r = (snap, profiles)" by (rule prod.exhaust)
  from Inr obtain api owner follows where api: "source = Some api" "rs_Account api = Inr owner" "rs_Following api (acc_ID owner) = Inr follows"
    and origin: "normalizedOrigin env (acc_URI owner) \<noteq> []"
    by (auto simp: MastodonReconcile_def Let_def split: option.splits sum.splits if_splits)
  let ?snap = "\<lparr>ts_Follows = accountsToSet follows, ts_Lists = [], ts_Union = accountsToSet follows\<rparr>"
  let ?profiles = "addProfiles env (addProfiles env [] [owner]) follows"
  have wf: "snapshot_wf ?snap" by (simp add: snapshot_wf_def accountsToSet_def)
  have ok: "profiles_ok ?profiles" by (intro addProfiles_ok) (simp add: profiles_ok_def)
  have configured: "set (uniqueStrings [] listIDs) = TrimSpace ` set listIDs - {[]}" by (auto simp: set_uniqueStrings)
  have dom: "fst ` set ?profiles = set (accountsToSet [owner]) \<union> set (accountsToSet follows)" by (simp add: addProfiles_dom del: addProfiles.simps)
  have run: "addLists env api (normalizedOrigin env (acc_URI owner)) available (uniqueStrings [] listIDs) ?snap ?profiles = Inr (snap, profiles)"
    if "uniqueStrings [] listIDs = [] \<or> (\<exists>ls. rs_Lists api = Inr ls \<and> available = availableLists ls [])" for available
    using that Inr r api origin by (auto simp: MastodonReconcile_def Let_def split: sum.splits if_splits)
  have "\<exists>available. uniqueStrings [] listIDs = [] \<or> (\<exists>ls. rs_Lists api = Inr ls \<and> available = availableLists ls [])"
    using Inr api origin by (auto simp: MastodonReconcile_def Let_def split: sum.splits if_splits)
  then obtain available where "addLists env api (normalizedOrigin env (acc_URI owner)) available (uniqueStrings [] listIDs) ?snap ?profiles = Inr (snap, profiles)"
    using run by blast
  from addLists_spec [OF this wf ok distinct_uniqueStrings]
  have "snapshot_wf snap \<and> set (ts_Follows snap) = set (accountsToSet follows) \<and> fst ` set (ts_Lists snap) = set (uniqueStrings [] listIDs)
    \<and> set (ts_Union snap) = set (accountsToSet follows) \<union> (\<Union>i \<in> set (uniqueStrings [] listIDs). listMembers api i)
    \<and> pf_Identity ` set profiles = fst ` set ?profiles \<union> (\<Union>i \<in> set (uniqueStrings [] listIDs). listMembers api i) \<and> distinct (map pf_Identity profiles)"
    by simp
  then show ?thesis unfolding Inr r dom configured sum.case prod.case using api by (intro exI conjI) (simp_all only: Un_assoc)
qed simp

end
