(* ===== verification/Litestream_Api.thy ===== *)
theory Litestream_Api
  imports Go_Prelude
begin

text \<open>
  The resources of the litestream controller and their validation
  (\<^verbatim>\<open>api/litestream/v1alpha1/litestream_types.go\<close>, \<^verbatim>\<open>replica_types.go\<close>, \<^verbatim>\<open>validation.go\<close>). A list of
  field errors has the kind, the path and the text of each error; the rejected value is left out.
  The name checks of the Kubernetes library, the parsing of IP addresses and of timestamps are the
  fields of \<open>api_env\<close>.
\<close>

subsection \<open>Paths\<close>

text \<open>\<^verbatim>\<open>path.Clean\<close> and its companions, by path elements; on Unix \<^verbatim>\<open>filepath\<close> behaves the same.\<close>

fun joinSlash :: "string list \<Rightarrow> string" where
  "joinSlash [] = []"
| "joinSlash [p] = p"
| "joinSlash (p # ps) = p @ CHR ''/'' # joinSlash ps"

fun cleanParts :: "bool \<Rightarrow> string list \<Rightarrow> string list \<Rightarrow> string list" where
  "cleanParts rooted stack [] = rev stack"
| "cleanParts rooted stack (p # ps) =
     (if p = [] \<or> p = ''.'' then cleanParts rooted stack ps
      else if p = ''..'' then
        (case stack of
           [] \<Rightarrow> cleanParts rooted (if rooted then [] else [p]) ps
         | t # ts \<Rightarrow> cleanParts rooted (if t = ''..'' then p # stack else ts) ps)
      else cleanParts rooted (p # stack) ps)"

definition isAbs :: "string \<Rightarrow> bool" where
  "isAbs s \<longleftrightarrow> take 1 s = ''/''"

definition pathClean :: "string \<Rightarrow> string" where
  "pathClean s =
     (let body = joinSlash (cleanParts (isAbs s) [] (splitChar (CHR ''/'') s))
      in if isAbs s then CHR ''/'' # body else if body = [] then ''.'' else body)"

definition pathDir :: "string \<Rightarrow> string" where
  "pathDir s = pathClean (rev (dropWhile (\<lambda>c. c \<noteq> CHR ''/'') (rev s)))"

definition pathJoin :: "string list \<Rightarrow> string" where
  "pathJoin ps = (let qs = filter (\<lambda>p. p \<noteq> []) ps in if qs = [] then [] else pathClean (joinSlash qs))"

subsection \<open>Patterns\<close>

definition lowerAlnum :: "char \<Rightarrow> bool" where
  "lowerAlnum c \<longleftrightarrow> c \<in> set ''abcdefghijklmnopqrstuvwxyz0123456789''"

definition wordChar :: "char \<Rightarrow> bool" where
  "wordChar c \<longleftrightarrow> lowerAlnum c \<or> c \<in> set ''ABCDEFGHIJKLMNOPQRSTUVWXYZ_''"

definition permissionModePattern :: "string \<Rightarrow> bool" where
  "permissionModePattern s \<longleftrightarrow> length s = 4 \<and> take 1 s = ''0'' \<and> list_all (\<lambda>c. c \<in> set ''01234567'') s"

definition imageDigestPattern :: "string \<Rightarrow> bool" where
  "imageDigestPattern s \<longleftrightarrow> (case cutPrefix s ''sha256:'' of None \<Rightarrow> False | Some h \<Rightarrow> length h = 64 \<and> list_all (\<lambda>c. c \<in> set ''abcdef0123456789'') h)"

definition imageTagPattern :: "string \<Rightarrow> bool" where
  "imageTagPattern s \<longleftrightarrow>
     (case s of [] \<Rightarrow> False | c # cs \<Rightarrow> wordChar c \<and> length cs \<le> 127 \<and> list_all (\<lambda>c. wordChar c \<or> c \<in> set ''.-'') cs)"

text \<open>The pattern \<^verbatim>\<open>[a-z0-9]+(?:(?:[._]|__|-+)[a-z0-9]+)*\<close>: \<open>componentStart\<close> expects a letter or digit,
  \<open>componentRest\<close> is behind one, \<open>componentDashes\<close> is behind a dash.\<close>

fun componentStart :: "string \<Rightarrow> bool"
  and componentRest :: "string \<Rightarrow> bool"
  and componentUnder :: "string \<Rightarrow> bool"
  and componentDashes :: "string \<Rightarrow> bool" where
  "componentStart [] = False"
| "componentStart (c # cs) = (lowerAlnum c \<and> componentRest cs)"
| "componentRest [] = True"
| "componentRest (c # cs) =
     (if lowerAlnum c then componentRest cs
      else if c = CHR ''.'' then componentStart cs
      else if c = CHR ''_'' then componentUnder cs
      else c = CHR ''-'' \<and> componentDashes cs)"
| "componentUnder [] = False"
| "componentUnder (c # cs) = (if c = CHR ''_'' then componentStart cs else lowerAlnum c \<and> componentRest cs)"
| "componentDashes [] = False"
| "componentDashes (c # cs) = (if c = CHR ''-'' then componentDashes cs else lowerAlnum c \<and> componentRest cs)"

definition imageRepositoryComponentPattern :: "string \<Rightarrow> bool" where
  "imageRepositoryComponentPattern s = componentStart s"

definition imageRegistryComponentPattern :: "string \<Rightarrow> bool" where
  "imageRegistryComponentPattern s \<longleftrightarrow> s \<noteq> [] \<and> lowerAlnum (hd s) \<and> lowerAlnum (last s) \<and> list_all (\<lambda>c. lowerAlnum c \<or> c = CHR ''-'') s"

definition txIDPattern :: "string \<Rightarrow> bool" where
  "txIDPattern s \<longleftrightarrow> s \<noteq> [] \<and> list_all (\<lambda>c. c \<in> set ''0123456789abcdefABCDEF'') s"

text \<open>\<^verbatim>\<open>strings.LastIndex\<close> of a character, and the parts around it.\<close>

definition lastIndex :: "char \<Rightarrow> string \<Rightarrow> int" where
  "lastIndex c s = (if c \<in> set s then int (length s) - 1 - int (length (takeWhile (\<lambda>x. x \<noteq> c) (rev s))) else -1)"

definition parseUint16 :: "string \<Rightarrow> nat option" where
  "parseUint16 s = (if s \<noteq> [] \<and> list_all isDigit s \<and> undecimal s < 65536 then Some (undecimal s) else None)"

subsection \<open>Resources\<close>

record SecretKeySelector =
  sk_Name :: string
  sk_Key :: string
  sk_Optional :: "bool option"

record SecretReference =
  SecretKeyRef :: SecretKeySelector

record S3ReplicaSpec =
  s3_Bucket :: string
  s3_Path :: string
  s3_Region :: string
  s3_Endpoint :: string
  s3_ForcePathStyle :: "bool option"
  s3_SkipVerify :: "bool option"
  s3_AccessKeyID :: "SecretReference option"
  s3_SecretAccessKey :: "SecretReference option"

record GCSReplicaSpec =
  gcs_Bucket :: string
  gcs_Path :: string
  ServiceAccountJSON :: "SecretReference option"

record AzureReplicaSpec =
  az_AccountName :: string
  az_Container :: string
  az_Path :: string
  az_Endpoint :: string
  az_AccountKey :: "SecretReference option"

record FileReplicaSpec =
  fi_Path :: string

record NATSReplicaSpec =
  na_URL :: string
  na_Username :: "SecretReference option"
  na_Password :: "SecretReference option"
  na_JWT :: "SecretReference option"
  na_Seed :: "SecretReference option"
  na_Creds :: "SecretReference option"
  na_NKey :: "SecretReference option"
  na_Token :: "SecretReference option"
  na_RootCAs :: "SecretReference list"
  na_ClientCert :: "SecretReference option"
  na_ClientKey :: "SecretReference option"
  na_MaxReconnects :: "int option"
  na_ReconnectWait :: "duration option"
  na_Timeout :: "duration option"

record OSSReplicaSpec =
  oss_Bucket :: string
  oss_Path :: string
  oss_Endpoint :: string
  oss_Region :: string
  oss_AccessKeyID :: "SecretReference option"
  oss_AccessKeySecret :: "SecretReference option"

record SFTPReplicaSpec =
  sf_Host :: string
  sf_User :: string
  sf_Path :: string
  sf_Password :: "SecretReference option"
  sf_PrivateKey :: "SecretReference option"
  sf_ConcurrentWrites :: "bool option"

record WebDAVReplicaSpec =
  wd_URL :: string
  wd_Path :: string
  wd_Username :: "SecretReference option"
  wd_Password :: "SecretReference option"
  wd_SkipVerify :: "bool option"

record ReplicaSpec =
  rp_Type :: string
  rp_S3 :: "S3ReplicaSpec option"
  rp_GCS :: "GCSReplicaSpec option"
  rp_Azure :: "AzureReplicaSpec option"
  rp_File :: "FileReplicaSpec option"
  rp_NATS :: "NATSReplicaSpec option"
  rp_OSS :: "OSSReplicaSpec option"
  rp_SFTP :: "SFTPReplicaSpec option"
  rp_WebDAV :: "WebDAVReplicaSpec option"

record ImageSpec =
  im_Repository :: string
  im_Tag :: string
  im_Digest :: string
  im_PullPolicy :: string

record PermissionsSpec =
  DirectoryMode :: string
  DatabaseMode :: string

record RestoreSpec =
  rs_ReplicaRef :: string
  rs_IfDatabaseExists :: string
  rs_IfReplicaMissing :: string
  rs_IntegrityCheck :: string
  rs_Timestamp :: string
  rs_TxID :: string

record ReplicateSpec =
  rc_ReplicaRef :: string
  rc_SyncInterval :: duration
  rc_AutoRecover :: bool

record DatabaseBinding =
  db_Name :: string
  db_Path :: string
  db_ClonePolicy :: string
  db_Restore :: "RestoreSpec option"
  db_Replicate :: "ReplicateSpec option"

record VolumeMount =
  vm_Name :: string
  vm_ReadOnly :: bool
  vm_RecursiveReadOnly :: "string option"
  vm_MountPath :: string
  vm_SubPath :: string
  vm_SubPathExpr :: string
  vm_MountPropagation :: "string option"

text \<open>\<open>psc_Others\<close> names the other fields of a pod's security context that are set, \<open>sc_Others\<close> and the
  resource requirements are not looked into.\<close>

record PodSecurityContext =
  FSGroup :: "int option"
  FSGroupChangePolicy :: "string option"
  psc_Others :: "string list"

record SecurityContext =
  RunAsUser :: "int option"
  RunAsGroup :: "int option"
  RunAsNonRoot :: "bool option"
  ReadOnlyRootFilesystem :: "bool option"
  AllowPrivilegeEscalation :: "bool option"
  Capabilities :: "(string list \<times> string list) option"
  sc_Others :: string

record InjectionSpec =
  TargetContainer :: string
  ij_Volume :: string
  ExtraVolumeMounts :: "VolumeMount list"
  ij_Resources :: string
  ij_PodSecurityContext :: "PodSecurityContext option"
  ij_ContainerSecurityContext :: "SecurityContext option"
  Permissions :: PermissionsSpec

record LitestreamSpec =
  ls_Image :: ImageSpec
  ls_Injection :: InjectionSpec
  ls_Databases :: "DatabaseBinding list"

subsection \<open>Validation\<close>

datatype path_elem = Child string | Index nat

type_synonym field_path = "path_elem list"

datatype field_error =
    Required field_path string
  | Invalid field_path string
  | Forbidden field_path string
  | Duplicate field_path

record api_env =
  parseIP :: "string \<Rightarrow> bool"
  parseRFC3339 :: "string \<Rightarrow> bool"
  isDNS1123Label :: "string \<Rightarrow> string list"
  isDNS1123Subdomain :: "string \<Rightarrow> string list"
  isConfigMapKey :: "string \<Rightarrow> string list"

definition maxDatabaseNameLength :: nat where
  "maxDatabaseNameLength = 44"

definition isImageRegistry :: "string \<Rightarrow> bool" where
  "isImageRegistry first \<longleftrightarrow> first = ''localhost'' \<or> CHR ''.'' \<in> set first \<or> CHR '':'' \<in> set first"

definition registryHost :: "string \<Rightarrow> string option" where
  "registryHost registry =
     (if CHR '':'' \<in> set registry then
        let port = drop (nat (lastIndex (CHR '':'') registry + 1)) registry
        in case parseUint16 port of
             None \<Rightarrow> None
           | Some v \<Rightarrow> if v = 0 then None else Some (take (nat (lastIndex (CHR '':'') registry)) registry)
      else Some registry)"

definition validateImageRegistry :: "api_env \<Rightarrow> string \<Rightarrow> bool" where
  "validateImageRegistry env registry =
     (case registryHost registry of
        None \<Rightarrow> False
      | Some host \<Rightarrow> host = ''localhost'' \<or> parseIP env host \<or> list_all imageRegistryComponentPattern (splitChar (CHR ''.'') host))"

definition ValidateImageRepository :: "api_env \<Rightarrow> string \<Rightarrow> bool" where
  "ValidateImageRepository env repository =
     (if repository = [] then True
      else if length repository > 255 then False
      else
        let parts = splitChar (CHR ''/'') repository;
            registry = (length parts > 1 \<and> isImageRegistry (hd parts))
        in if registry \<and> \<not> validateImageRegistry env (hd parts) then False
           else list_all imageRepositoryComponentPattern (if registry then tl parts else parts))"

definition repositoryHasTag :: "string \<Rightarrow> bool" where
  "repositoryHasTag repository \<longleftrightarrow> lastIndex (CHR '':'') repository > lastIndex (CHR ''/'') repository"

definition validateImage :: "api_env \<Rightarrow> ImageSpec \<Rightarrow> field_path \<Rightarrow> field_error list" where
  "validateImage env img path =
     (if im_Repository img = [] \<and> im_Tag img = [] \<and> im_Digest img = [] then []
      else
        (if im_Digest img = [] then [Invalid path ''image overrides must include an immutable sha256 digest'']
         else if \<not> imageDigestPattern (im_Digest img)
           then [Invalid (path @ [Child ''digest'']) ''must be a sha256 digest with 64 lowercase hexadecimal characters'']
         else [])
        @ (if im_Tag img = [] then []
           else if im_Digest img = [] then [Forbidden (path @ [Child ''tag'']) ''a tag requires an immutable sha256 digest'']
           else if \<not> imageTagPattern (im_Tag img) then [Invalid (path @ [Child ''tag'']) ''must be a valid image tag'']
           else [])
        @ (if CHR ''@'' \<in> set (im_Repository img) then [Invalid (path @ [Child ''repository'']) ''repository must not include a digest'']
           else if repositoryHasTag (im_Repository img)
             then [Invalid (path @ [Child ''repository'']) ''repository must not include a tag; use digest'']
           else if \<not> ValidateImageRepository env (im_Repository img)
             then [Invalid (path @ [Child ''repository'']) ''must be a valid container image repository'']
           else []))"

fun joinWith :: "string \<Rightarrow> string list \<Rightarrow> string" where
  "joinWith sep [] = []"
| "joinWith sep [x] = x"
| "joinWith sep (x # xs) = x @ sep @ joinWith sep xs"

definition validateLocalObjectReference :: "api_env \<Rightarrow> string \<Rightarrow> field_path \<Rightarrow> field_error list" where
  "validateLocalObjectReference env name path =
     (if name = [] then [Required (path @ [Child ''name'']) ''name is required'']
      else if isDNS1123Subdomain env name \<noteq> [] then [Invalid (path @ [Child ''name'']) (joinWith ''; '' (isDNS1123Subdomain env name))]
      else [])"

definition validateRequiredString :: "string \<Rightarrow> field_path \<Rightarrow> field_error list" where
  "validateRequiredString v path = (if TrimSpace v = [] then [Required path ''value is required''] else [])"

definition validatePermissionMode :: "string \<Rightarrow> field_path \<Rightarrow> field_error list" where
  "validatePermissionMode mode path = (if mode \<noteq> [] \<and> \<not> permissionModePattern mode then [Invalid path ''must be an octal permission string''] else [])"

definition validateSecretValue :: "api_env \<Rightarrow> SecretReference \<Rightarrow> field_path \<Rightarrow> field_error list" where
  "validateSecretValue env secret path =
     (let ref = SecretKeyRef secret in
      (if sk_Name ref = [] then [Required (path @ [Child ''secretKeyRef'', Child ''name'']) ''secret name is required'']
       else if isDNS1123Subdomain env (sk_Name ref) \<noteq> []
         then [Invalid (path @ [Child ''secretKeyRef'', Child ''name'']) (joinWith ''; '' (isDNS1123Subdomain env (sk_Name ref)))]
       else [])
      @ (if sk_Key ref = [] then [Required (path @ [Child ''secretKeyRef'', Child ''key'']) ''secret key is required'']
         else if isConfigMapKey env (sk_Key ref) \<noteq> []
           then [Invalid (path @ [Child ''secretKeyRef'', Child ''key'']) (joinWith ''; '' (isConfigMapKey env (sk_Key ref)))]
         else []))"

definition validateFileSecretValue :: "api_env \<Rightarrow> SecretReference \<Rightarrow> field_path \<Rightarrow> field_error list" where
  "validateFileSecretValue env secret path =
     validateSecretValue env secret path
     @ (if sk_Optional (SecretKeyRef secret) = Some True
        then [Forbidden (path @ [Child ''secretKeyRef'', Child ''optional''])
               ''optional file-backed Secret references are not supported; omit the reference instead'']
        else [])"

definition validateFileSecretReference :: "api_env \<Rightarrow> SecretReference option \<Rightarrow> field_path \<Rightarrow> field_error list" where
  "validateFileSecretReference env secret path = (case secret of None \<Rightarrow> [] | Some s \<Rightarrow> validateFileSecretValue env s path)"

definition validateSecretReference :: "api_env \<Rightarrow> SecretReference option \<Rightarrow> field_path \<Rightarrow> field_error list" where
  "validateSecretReference env secret path =
     (case secret of
        None \<Rightarrow> []
      | Some s \<Rightarrow>
          validateSecretValue env s path
          @ (if sk_Optional (SecretKeyRef s) = Some True
             then [Forbidden (path @ [Child ''secretKeyRef'', Child ''optional''])
                    ''optional environment-backed Secret references are not supported; omit the reference instead'']
             else []))"

definition validateS3Secrets :: "api_env \<Rightarrow> S3ReplicaSpec \<Rightarrow> field_path \<Rightarrow> field_error list" where
  "validateS3Secrets env spec path =
     validateSecretReference env (s3_AccessKeyID spec) (path @ [Child ''credentials'', Child ''accessKeyID''])
     @ validateSecretReference env (s3_SecretAccessKey spec) (path @ [Child ''credentials'', Child ''secretAccessKey''])"

definition validateGCSSecrets :: "api_env \<Rightarrow> GCSReplicaSpec \<Rightarrow> field_path \<Rightarrow> field_error list" where
  "validateGCSSecrets env spec path = validateFileSecretReference env (ServiceAccountJSON spec) (path @ [Child ''serviceAccountJSON''])"

definition validateAzureSecrets :: "api_env \<Rightarrow> AzureReplicaSpec \<Rightarrow> field_path \<Rightarrow> field_error list" where
  "validateAzureSecrets env spec path = validateSecretReference env (az_AccountKey spec) (path @ [Child ''accountKey''])"

fun validateRootCAs :: "api_env \<Rightarrow> field_path \<Rightarrow> nat \<Rightarrow> SecretReference list \<Rightarrow> field_error list" where
  "validateRootCAs env path i [] = []"
| "validateRootCAs env path i (s # ss) = validateFileSecretValue env s (path @ [Child ''rootCAs'', Index i]) @ validateRootCAs env path (Suc i) ss"

text \<open>Two references that have to be configured together.\<close>

definition validateTogether :: "SecretReference option \<Rightarrow> string \<Rightarrow> SecretReference option \<Rightarrow> string \<Rightarrow> string \<Rightarrow> field_path \<Rightarrow> field_error list" where
  "validateTogether a na b nb msg path =
     (if (a = None) \<noteq> (b = None) then [Required (path @ [Child (if a = None then na else nb)]) msg] else [])"

definition natsMechanisms :: "NATSReplicaSpec \<Rightarrow> (string \<times> bool) list" where
  "natsMechanisms spec =
     [(''username'', na_Username spec \<noteq> None), (''jwt'', na_JWT spec \<noteq> None), (''creds'', na_Creds spec \<noteq> None),
      (''nkey'', na_NKey spec \<noteq> None), (''token'', na_Token spec \<noteq> None)]"

fun validateMechanisms :: "field_path \<Rightarrow> bool \<Rightarrow> (string \<times> bool) list \<Rightarrow> field_error list" where
  "validateMechanisms path seen [] = []"
| "validateMechanisms path seen ((name, configured) # ms) =
     (if \<not> configured then validateMechanisms path seen ms
      else (if seen then [Invalid (path @ [Child name]) ''authentication mechanisms are mutually exclusive''] else [])
           @ validateMechanisms path True ms)"

definition validateNATSSecrets :: "api_env \<Rightarrow> NATSReplicaSpec \<Rightarrow> field_path \<Rightarrow> field_error list" where
  "validateNATSSecrets env spec path =
     concat (map (\<lambda>(v, name). validateSecretReference env v (path @ [Child name]))
       [(na_Username spec, ''username''), (na_Password spec, ''password''), (na_JWT spec, ''jwt''), (na_Seed spec, ''seed''),
        (na_NKey spec, ''nkey''), (na_Token spec, ''token'')])
     @ validateFileSecretReference env (na_Creds spec) (path @ [Child ''creds''])
     @ validateFileSecretReference env (na_ClientCert spec) (path @ [Child ''clientCert''])
     @ validateFileSecretReference env (na_ClientKey spec) (path @ [Child ''clientKey''])
     @ validateRootCAs env path 0 (na_RootCAs spec)
     @ validateTogether (na_Username spec) ''username'' (na_Password spec) ''password'' ''username and password must be configured together'' path
     @ validateTogether (na_JWT spec) ''jwt'' (na_Seed spec) ''seed'' ''jwt and seed must be configured together'' path
     @ validateTogether (na_ClientCert spec) ''clientCert'' (na_ClientKey spec) ''clientKey'' ''client certificate and key must be configured together'' path
     @ validateMechanisms path False (natsMechanisms spec)
     @ (case na_MaxReconnects spec of Some n \<Rightarrow> if n < -1 then [Invalid (path @ [Child ''maxReconnects'']) ''must be -1 or greater''] else [] | None \<Rightarrow> [])
     @ (case na_ReconnectWait spec of Some d \<Rightarrow> if d \<le> 0 then [Invalid (path @ [Child ''reconnectWait'']) ''must be greater than zero''] else [] | None \<Rightarrow> [])
     @ (case na_Timeout spec of Some d \<Rightarrow> if d \<le> 0 then [Invalid (path @ [Child ''timeout'']) ''must be greater than zero''] else [] | None \<Rightarrow> [])"

definition validateOSSSecrets :: "api_env \<Rightarrow> OSSReplicaSpec \<Rightarrow> field_path \<Rightarrow> field_error list" where
  "validateOSSSecrets env spec path =
     validateSecretReference env (oss_AccessKeyID spec) (path @ [Child ''accessKeyID''])
     @ validateSecretReference env (oss_AccessKeySecret spec) (path @ [Child ''accessKeySecret''])"

definition validateSFTPSecrets :: "api_env \<Rightarrow> SFTPReplicaSpec \<Rightarrow> field_path \<Rightarrow> field_error list" where
  "validateSFTPSecrets env spec path =
     validateSecretReference env (sf_Password spec) (path @ [Child ''password''])
     @ validateFileSecretReference env (sf_PrivateKey spec) (path @ [Child ''privateKey''])"

definition validateWebDAVSecrets :: "api_env \<Rightarrow> WebDAVReplicaSpec \<Rightarrow> field_path \<Rightarrow> field_error list" where
  "validateWebDAVSecrets env spec path =
     validateSecretReference env (wd_Username spec) (path @ [Child ''username''])
     @ validateSecretReference env (wd_Password spec) (path @ [Child ''password''])"

definition configuredBackends :: "ReplicaSpec \<Rightarrow> nat" where
  "configuredBackends r =
     length (filter id [rp_S3 r \<noteq> None, rp_GCS r \<noteq> None, rp_Azure r \<noteq> None, rp_File r \<noteq> None, rp_NATS r \<noteq> None, rp_OSS r \<noteq> None,
       rp_SFTP r \<noteq> None, rp_WebDAV r \<noteq> None])"

definition hasBackendForType :: "ReplicaSpec \<Rightarrow> bool" where
  "hasBackendForType r =
     (if rp_Type r = ''s3'' then rp_S3 r \<noteq> None
      else if rp_Type r = ''gcs'' then rp_GCS r \<noteq> None
      else if rp_Type r = ''azure'' then rp_Azure r \<noteq> None
      else if rp_Type r = ''file'' then rp_File r \<noteq> None
      else if rp_Type r = ''nats'' then rp_NATS r \<noteq> None
      else if rp_Type r = ''oss'' then rp_OSS r \<noteq> None
      else if rp_Type r = ''sftp'' then rp_SFTP r \<noteq> None
      else if rp_Type r = ''webdav'' then rp_WebDAV r \<noteq> None
      else False)"

text \<open>The checks of one backend; each is reached only when its pointer is set.\<close>

definition validateBackend :: "api_env \<Rightarrow> ReplicaSpec \<Rightarrow> field_path \<Rightarrow> field_error list" where
  "validateBackend env r path =
     (if rp_Type r = ''s3'' then
        let b = the (rp_S3 r); p = path @ [Child ''s3''] in
        validateRequiredString (s3_Bucket b) (p @ [Child ''bucket'']) @ validateRequiredString (s3_Path b) (p @ [Child ''path''])
        @ validateS3Secrets env b p
      else if rp_Type r = ''gcs'' then
        let b = the (rp_GCS r); p = path @ [Child ''gcs''] in
        validateRequiredString (gcs_Bucket b) (p @ [Child ''bucket'']) @ validateRequiredString (gcs_Path b) (p @ [Child ''path''])
        @ validateGCSSecrets env b p
      else if rp_Type r = ''azure'' then
        let b = the (rp_Azure r); p = path @ [Child ''azure''] in
        validateRequiredString (az_AccountName b) (p @ [Child ''accountName'']) @ validateRequiredString (az_Container b) (p @ [Child ''container''])
        @ validateRequiredString (az_Path b) (p @ [Child ''path'']) @ validateAzureSecrets env b p
      else if rp_Type r = ''file'' then validateRequiredString (fi_Path (the (rp_File r))) (path @ [Child ''file'', Child ''path''])
      else if rp_Type r = ''nats'' then
        let b = the (rp_NATS r); p = path @ [Child ''nats''] in
        validateRequiredString (na_URL b) (p @ [Child ''url'']) @ validateNATSSecrets env b p
      else if rp_Type r = ''oss'' then
        let b = the (rp_OSS r); p = path @ [Child ''oss''] in
        validateRequiredString (oss_Bucket b) (p @ [Child ''bucket'']) @ validateRequiredString (oss_Path b) (p @ [Child ''path''])
        @ validateOSSSecrets env b p
      else if rp_Type r = ''sftp'' then
        let b = the (rp_SFTP r); p = path @ [Child ''sftp''] in
        validateRequiredString (sf_Host b) (p @ [Child ''host'']) @ validateRequiredString (sf_User b) (p @ [Child ''user''])
        @ validateRequiredString (sf_Path b) (p @ [Child ''path'']) @ validateSFTPSecrets env b p
      else if rp_Type r = ''webdav'' then
        let b = the (rp_WebDAV r); p = path @ [Child ''webdav''] in
        validateRequiredString (wd_URL b) (p @ [Child ''url'']) @ validateWebDAVSecrets env b p
      else [])"

definition ReplicaSpec_Validate :: "api_env \<Rightarrow> ReplicaSpec \<Rightarrow> field_path \<Rightarrow> field_error list" where
  "ReplicaSpec_Validate env r path =
     (if configuredBackends r \<noteq> 1 \<or> \<not> hasBackendForType r then [Invalid path ''exactly one backend must be configured and match type'']
      else validateBackend env r path)"

definition LitestreamReplicaSpec_Validate :: "api_env \<Rightarrow> ReplicaSpec \<Rightarrow> field_error list" where
  "LitestreamReplicaSpec_Validate env r = ReplicaSpec_Validate env r [Child ''spec'', Child ''replica'']"

definition validateDbName :: "api_env \<Rightarrow> string \<Rightarrow> field_path \<Rightarrow> string list \<Rightarrow> field_error list \<times> string list" where
  "validateDbName env name path names =
     (if name = [] then ([Required (path @ [Child ''name'']) ''name is required''], names)
      else
        ((if length name > maxDatabaseNameLength
          then [Invalid (path @ [Child ''name'']) ''must be at most 44 characters because it forms an init container name''] else [])
         @ (if isDNS1123Label env name \<noteq> []
            then [Invalid (path @ [Child ''name'']) (''must be a lowercase DNS label: '' @ joinWith ''; '' (isDNS1123Label env name))] else [])
         @ (if name \<in> set names then [Duplicate (path @ [Child ''name''])] else []),
         if name \<in> set names then names else name # names))"

definition validateDbPath :: "string \<Rightarrow> field_path \<Rightarrow> string list \<Rightarrow> field_error list \<times> string list" where
  "validateDbPath p path paths =
     (if p = [] \<or> \<not> isAbs p \<or> pathClean p \<noteq> p then ([Invalid (path @ [Child ''path'']) ''must be a non-empty absolute clean path''], paths)
      else if pathClean p \<in> set paths then ([Duplicate (path @ [Child ''path''])], paths)
      else ([], pathClean p # paths))"

definition validateDbOperations :: "DatabaseBinding \<Rightarrow> field_path \<Rightarrow> field_error list" where
  "validateDbOperations d path =
     (if db_Restore d = None \<and> db_Replicate d = None then [Required path ''restore or replicate is required''] else [])
     @ (if db_ClonePolicy d \<noteq> [] \<and> (db_Restore d = None \<or> db_Replicate d = None)
        then [Required (path @ [Child ''restore'']) ''restore and replicate are required when clonePolicy is set''] else [])
     @ (case (db_Restore d, db_Replicate d) of
          (Some r, Some c) \<Rightarrow>
            if rs_ReplicaRef r = rc_ReplicaRef c \<and> db_ClonePolicy d \<noteq> []
            then [Forbidden (path @ [Child ''clonePolicy'']) ''must be empty when restore and replicate reference the same replica''] else []
        | _ \<Rightarrow> [])"

definition validateDbRestore :: "api_env \<Rightarrow> RestoreSpec \<Rightarrow> field_path \<Rightarrow> field_error list" where
  "validateDbRestore env r path =
     validateLocalObjectReference env (rs_ReplicaRef r) (path @ [Child ''replicaRef''])
     @ (if rs_Timestamp r \<noteq> [] \<and> rs_TxID r \<noteq> [] then [Forbidden path ''timestamp and txid are mutually exclusive''] else [])
     @ (if rs_Timestamp r \<noteq> [] \<and> \<not> parseRFC3339 env (rs_Timestamp r) then [Invalid (path @ [Child ''timestamp'']) ''must be an RFC3339 timestamp''] else [])
     @ (if rs_TxID r \<noteq> [] \<and> \<not> txIDPattern (rs_TxID r) then [Invalid (path @ [Child ''txid'']) ''must contain only hexadecimal characters''] else [])"

definition validateDbReplicate :: "api_env \<Rightarrow> ReplicateSpec \<Rightarrow> field_path \<Rightarrow> field_error list" where
  "validateDbReplicate env r path =
     (if rc_SyncInterval r < 0 then [Invalid (path @ [Child ''syncInterval'']) ''must be non-negative''] else [])
     @ validateLocalObjectReference env (rc_ReplicaRef r) (path @ [Child ''replicaRef''])"

definition DatabaseBinding_validate ::
    "api_env \<Rightarrow> DatabaseBinding \<Rightarrow> field_path \<Rightarrow> string list \<times> string list \<Rightarrow> field_error list \<times> string list \<times> string list" where
  "DatabaseBinding_validate env d path seen =
     (case validateDbName env (db_Name d) path (fst seen) of (es1, names) \<Rightarrow>
      case validateDbPath (db_Path d) path (snd seen) of (es2, paths) \<Rightarrow>
        (es1 @ es2 @ validateDbOperations d path
         @ (case db_Restore d of None \<Rightarrow> [] | Some r \<Rightarrow> validateDbRestore env r (path @ [Child ''restore'']))
         @ (case db_Replicate d of None \<Rightarrow> [] | Some r \<Rightarrow> validateDbReplicate env r (path @ [Child ''replicate''])),
         names, paths))"

fun validateDatabases :: "api_env \<Rightarrow> nat \<Rightarrow> DatabaseBinding list \<Rightarrow> string list \<times> string list \<Rightarrow> field_error list" where
  "validateDatabases env i [] seen = []"
| "validateDatabases env i (d # ds) seen =
     (case DatabaseBinding_validate env d [Child ''spec'', Child ''databases'', Index i] seen of
        (es, seen') \<Rightarrow> es @ validateDatabases env (Suc i) ds seen')"

definition LitestreamSpec_Validate :: "api_env \<Rightarrow> LitestreamSpec \<Rightarrow> field_error list" where
  "LitestreamSpec_Validate env s =
     (if ls_Databases s = [] then [Required [Child ''spec'', Child ''databases''] ''at least one database is required''] else [])
     @ validateImage env (ls_Image s) [Child ''spec'', Child ''image'']
     @ validateDatabases env 0 (ls_Databases s) ([], [])
     @ validatePermissionMode (DirectoryMode (Permissions (ls_Injection s)))
         [Child ''spec'', Child ''injection'', Child ''permissions'', Child ''directoryMode'']
     @ validatePermissionMode (DatabaseMode (Permissions (ls_Injection s)))
         [Child ''spec'', Child ''injection'', Child ''permissions'', Child ''databaseMode'']"


subsection \<open>What is accepted\<close>

text \<open>The tagged union of a replica as a sum: each backend has one specification.\<close>

datatype backend =
    S3 S3ReplicaSpec
  | GCS GCSReplicaSpec
  | Azure AzureReplicaSpec
  | File FileReplicaSpec
  | NATS NATSReplicaSpec
  | OSS OSSReplicaSpec
  | SFTP SFTPReplicaSpec
  | WebDAV WebDAVReplicaSpec

definition no_backend :: "string \<Rightarrow> ReplicaSpec" where
  "no_backend t = \<lparr>rp_Type = t, rp_S3 = None, rp_GCS = None, rp_Azure = None, rp_File = None, rp_NATS = None, rp_OSS = None, rp_SFTP = None,
     rp_WebDAV = None\<rparr>"

fun of_backend :: "backend \<Rightarrow> ReplicaSpec" where
  "of_backend (S3 b) = (no_backend ''s3'')\<lparr>rp_S3 := Some b\<rparr>"
| "of_backend (GCS b) = (no_backend ''gcs'')\<lparr>rp_GCS := Some b\<rparr>"
| "of_backend (Azure b) = (no_backend ''azure'')\<lparr>rp_Azure := Some b\<rparr>"
| "of_backend (File b) = (no_backend ''file'')\<lparr>rp_File := Some b\<rparr>"
| "of_backend (NATS b) = (no_backend ''nats'')\<lparr>rp_NATS := Some b\<rparr>"
| "of_backend (OSS b) = (no_backend ''oss'')\<lparr>rp_OSS := Some b\<rparr>"
| "of_backend (SFTP b) = (no_backend ''sftp'')\<lparr>rp_SFTP := Some b\<rparr>"
| "of_backend (WebDAV b) = (no_backend ''webdav'')\<lparr>rp_WebDAV := Some b\<rparr>"

definition secretRef_wf :: "api_env \<Rightarrow> SecretReference \<Rightarrow> bool" where
  "secretRef_wf env s \<longleftrightarrow> sk_Name (SecretKeyRef s) \<noteq> [] \<and> isDNS1123Subdomain env (sk_Name (SecretKeyRef s)) = []
     \<and> sk_Key (SecretKeyRef s) \<noteq> [] \<and> isConfigMapKey env (sk_Key (SecretKeyRef s)) = [] \<and> sk_Optional (SecretKeyRef s) \<noteq> Some True"

definition notBlank :: "string \<Rightarrow> bool" where
  "notBlank s \<longleftrightarrow> TrimSpace s \<noteq> []"

definition nats_wf :: "NATSReplicaSpec \<Rightarrow> bool" where
  "nats_wf b \<longleftrightarrow> (na_Username b = None \<longleftrightarrow> na_Password b = None) \<and> (na_JWT b = None \<longleftrightarrow> na_Seed b = None)
     \<and> (na_ClientCert b = None \<longleftrightarrow> na_ClientKey b = None) \<and> length (filter snd (natsMechanisms b)) \<le> 1
     \<and> pred_option (\<lambda>n. n \<ge> -1) (na_MaxReconnects b) \<and> pred_option (\<lambda>d. d > 0) (na_ReconnectWait b) \<and> pred_option (\<lambda>d. d > 0) (na_Timeout b)"

fun backend_wf :: "api_env \<Rightarrow> backend \<Rightarrow> bool" where
  "backend_wf env (S3 b) \<longleftrightarrow> notBlank (s3_Bucket b) \<and> notBlank (s3_Path b) \<and> pred_option (secretRef_wf env) (s3_AccessKeyID b)
     \<and> pred_option (secretRef_wf env) (s3_SecretAccessKey b)"
| "backend_wf env (GCS b) \<longleftrightarrow> notBlank (gcs_Bucket b) \<and> notBlank (gcs_Path b) \<and> pred_option (secretRef_wf env) (ServiceAccountJSON b)"
| "backend_wf env (Azure b) \<longleftrightarrow> notBlank (az_AccountName b) \<and> notBlank (az_Container b) \<and> notBlank (az_Path b) \<and> pred_option (secretRef_wf env) (az_AccountKey b)"
| "backend_wf env (File b) \<longleftrightarrow> notBlank (fi_Path b)"
| "backend_wf env (NATS b) \<longleftrightarrow> notBlank (na_URL b) \<and> nats_wf b
     \<and> list_all (pred_option (secretRef_wf env)) [na_Username b, na_Password b, na_JWT b, na_Seed b, na_NKey b, na_Token b, na_Creds b,
          na_ClientCert b, na_ClientKey b] \<and> list_all (secretRef_wf env) (na_RootCAs b)"
| "backend_wf env (OSS b) \<longleftrightarrow> notBlank (oss_Bucket b) \<and> notBlank (oss_Path b) \<and> pred_option (secretRef_wf env) (oss_AccessKeyID b)
     \<and> pred_option (secretRef_wf env) (oss_AccessKeySecret b)"
| "backend_wf env (SFTP b) \<longleftrightarrow> notBlank (sf_Host b) \<and> notBlank (sf_User b) \<and> notBlank (sf_Path b) \<and> pred_option (secretRef_wf env) (sf_Password b)
     \<and> pred_option (secretRef_wf env) (sf_PrivateKey b)"
| "backend_wf env (WebDAV b) \<longleftrightarrow> notBlank (wd_URL b) \<and> pred_option (secretRef_wf env) (wd_Username b) \<and> pred_option (secretRef_wf env) (wd_Password b)"

lemma required_ok [simp]: "validateRequiredString v path = [] \<longleftrightarrow> notBlank v"
  by (simp add: validateRequiredString_def notBlank_def)

lemma secret_value_ok: "validateSecretValue env s path = [] \<and> sk_Optional (SecretKeyRef s) \<noteq> Some True \<longleftrightarrow> secretRef_wf env s"
  by (auto simp: validateSecretValue_def secretRef_wf_def Let_def)

lemma secret_ok [simp]:
  "validateFileSecretValue env s path = [] \<longleftrightarrow> secretRef_wf env s"
  "validateSecretReference env r path = [] \<longleftrightarrow> pred_option (secretRef_wf env) r"
  "validateFileSecretReference env r path = [] \<longleftrightarrow> pred_option (secretRef_wf env) r"
  by (auto simp: validateFileSecretValue_def validateSecretReference_def validateFileSecretReference_def simp flip: secret_value_ok [of _ _ path]
      split: option.split)

lemma root_cas_ok [simp]: "validateRootCAs env path i ss = [] \<longleftrightarrow> list_all (secretRef_wf env) ss"
  by (induction env path i ss rule: validateRootCAs.induct) auto

lemma together_ok [simp]: "validateTogether a na b nb msg path = [] \<longleftrightarrow> (a = None \<longleftrightarrow> b = None)"
  by (auto simp: validateTogether_def)

lemma mechanisms_ok [simp]: "validateMechanisms path seen ms = [] \<longleftrightarrow> length (filter snd ms) \<le> (if seen then 0 else 1)"
  by (induction path seen ms rule: validateMechanisms.induct) auto

lemma nats_ok: "validateNATSSecrets env b path = [] \<longleftrightarrow> nats_wf b
     \<and> list_all (pred_option (secretRef_wf env)) [na_Username b, na_Password b, na_JWT b, na_Seed b, na_NKey b, na_Token b, na_Creds b,
          na_ClientCert b, na_ClientKey b] \<and> list_all (secretRef_wf env) (na_RootCAs b)"
  unfolding validateNATSSecrets_def nats_wf_def
  by (simp add: not_less not_le split: option.split) blast

lemmas backend_checks = validateBackend_def no_backend_def Let_def validateS3Secrets_def validateGCSSecrets_def validateAzureSecrets_def nats_ok
  validateOSSSecrets_def validateSFTPSecrets_def validateWebDAVSecrets_def

lemma backend_ok: "validateBackend env (of_backend b) path = [] \<longleftrightarrow> backend_wf env b"
  by (cases b) (auto simp: backend_checks)

lemma backend_shape: "configuredBackends r = 1 \<and> hasBackendForType r \<longleftrightarrow> (\<exists>b. r = of_backend b)"
proof
  assume shape: "configuredBackends r = 1 \<and> hasBackendForType r"
  obtain t a b c d e f g h where r: "r = \<lparr>rp_Type = t, rp_S3 = a, rp_GCS = b, rp_Azure = c, rp_File = d, rp_NATS = e, rp_OSS = f, rp_SFTP = g,
     rp_WebDAV = h\<rparr>" by (cases r) auto
  have types: "t \<in> {''s3'', ''gcs'', ''azure'', ''file'', ''nats'', ''oss'', ''sftp'', ''webdav''}"
    using shape by (auto simp: hasBackendForType_def r split: if_splits)
  define chosen where "chosen = (if t = ''s3'' then S3 (the a) else if t = ''gcs'' then GCS (the b) else if t = ''azure'' then Azure (the c)
    else if t = ''file'' then File (the d) else if t = ''nats'' then NATS (the e) else if t = ''oss'' then OSS (the f)
    else if t = ''sftp'' then SFTP (the g) else WebDAV (the h))"
  have "r = of_backend chosen"
    using types shape by (elim insertE emptyE) (auto simp: r chosen_def configuredBackends_def hasBackendForType_def no_backend_def split: if_splits)
  then show "\<exists>b. r = of_backend b" ..
next
  assume "\<exists>b. r = of_backend b"
  then obtain b where "r = of_backend b" ..
  then show "configuredBackends r = 1 \<and> hasBackendForType r"
    by (cases b) (simp_all add: configuredBackends_def hasBackendForType_def no_backend_def)
qed

lemma accepted_backend:
  "ReplicaSpec_Validate env r path = [] \<longleftrightarrow> (\<exists>b. r = of_backend b \<and> backend_wf env b)"
proof -
  have accepted: "ReplicaSpec_Validate env r path = [] \<longleftrightarrow> backend_wf env b" if "r = of_backend b" for b
  proof -
    have "configuredBackends r = 1 \<and> hasBackendForType r" using backend_shape [of r] that by blast
    then have "ReplicaSpec_Validate env r path = validateBackend env r path" by (simp add: ReplicaSpec_Validate_def)
    then show ?thesis using backend_ok [of env b path] that by simp
  qed
  have "ReplicaSpec_Validate env r path \<noteq> []" if "\<not> (\<exists>b. r = of_backend b)"
  proof -
    have "configuredBackends r \<noteq> 1 \<or> \<not> hasBackendForType r" using backend_shape [of r] that by blast
    then show ?thesis by (simp add: ReplicaSpec_Validate_def)
  qed
  with accepted show ?thesis by blast
qed


text \<open>C21. The replicas the validation accepts are exactly the well-formed values of a sum over the
  eight backends: one backend is configured and it is the one of the type, its required strings
  are notBlank, its secrets are named and not optional, and for NATS at most one way to authenticate
  is configured and what belongs together is given together.\<close>

theorem accepted_replica_is_backend:
  "ReplicaSpec_Validate env r path = [] \<longleftrightarrow> (\<exists>b. r = of_backend b \<and> backend_wf env b)"
  by (rule accepted_backend)

subsection \<open>Accepted resources\<close>

definition image_wf :: "api_env \<Rightarrow> ImageSpec \<Rightarrow> bool" where
  "image_wf env img \<longleftrightarrow> im_Repository img = [] \<and> im_Tag img = [] \<and> im_Digest img = []
     \<or> imageDigestPattern (im_Digest img) \<and> (im_Tag img = [] \<or> imageTagPattern (im_Tag img)) \<and> CHR ''@'' \<notin> set (im_Repository img)
       \<and> \<not> repositoryHasTag (im_Repository img) \<and> ValidateImageRepository env (im_Repository img)"

definition reference_wf :: "api_env \<Rightarrow> string \<Rightarrow> bool" where
  "reference_wf env name \<longleftrightarrow> name \<noteq> [] \<and> isDNS1123Subdomain env name = []"

definition restore_wf :: "api_env \<Rightarrow> RestoreSpec \<Rightarrow> bool" where
  "restore_wf env r \<longleftrightarrow> reference_wf env (rs_ReplicaRef r) \<and> (rs_Timestamp r = [] \<or> rs_TxID r = [])
     \<and> (rs_Timestamp r \<noteq> [] \<longrightarrow> parseRFC3339 env (rs_Timestamp r)) \<and> (rs_TxID r \<noteq> [] \<longrightarrow> txIDPattern (rs_TxID r))"

definition replicate_wf :: "api_env \<Rightarrow> ReplicateSpec \<Rightarrow> bool" where
  "replicate_wf env r \<longleftrightarrow> reference_wf env (rc_ReplicaRef r) \<and> 0 \<le> rc_SyncInterval r"

text \<open>A database that restores from one replica and replicates to another is a clone.\<close>

definition is_clone :: "DatabaseBinding \<Rightarrow> bool" where
  "is_clone d = (case (db_Restore d, db_Replicate d) of (Some r, Some c) \<Rightarrow> rs_ReplicaRef r \<noteq> rc_ReplicaRef c | _ \<Rightarrow> False)"

definition binding_wf :: "api_env \<Rightarrow> DatabaseBinding \<Rightarrow> bool" where
  "binding_wf env d \<longleftrightarrow> db_Name d \<noteq> [] \<and> length (db_Name d) \<le> 44 \<and> isDNS1123Label env (db_Name d) = []
     \<and> isAbs (db_Path d) \<and> pathClean (db_Path d) = db_Path d \<and> (db_Restore d \<noteq> None \<or> db_Replicate d \<noteq> None)
     \<and> (db_ClonePolicy d \<noteq> [] \<longrightarrow> is_clone d) \<and> pred_option (restore_wf env) (db_Restore d) \<and> pred_option (replicate_wf env) (db_Replicate d)"

definition spec_wf :: "api_env \<Rightarrow> LitestreamSpec \<Rightarrow> bool" where
  "spec_wf env s \<longleftrightarrow> ls_Databases s \<noteq> [] \<and> image_wf env (ls_Image s) \<and> list_all (binding_wf env) (ls_Databases s)
     \<and> distinct (map db_Name (ls_Databases s)) \<and> distinct (map db_Path (ls_Databases s))
     \<and> (\<forall>mode \<in> {DirectoryMode (Permissions (ls_Injection s)), DatabaseMode (Permissions (ls_Injection s))}. mode \<noteq> [] \<longrightarrow> permissionModePattern mode)"

lemma image_ok: "validateImage env img path = [] \<longleftrightarrow> image_wf env img"
proof -
  have "\<not> imageDigestPattern []" by (simp add: imageDigestPattern_def cutPrefix_def)
  then show ?thesis by (auto simp: validateImage_def image_wf_def)
qed

lemma reference_ok [simp]: "validateLocalObjectReference env name path = [] \<longleftrightarrow> reference_wf env name"
  by (auto simp: validateLocalObjectReference_def reference_wf_def)

lemma restore_ok [simp]: "validateDbRestore env r path = [] \<longleftrightarrow> restore_wf env r"
  by (auto simp: validateDbRestore_def restore_wf_def)

lemma replicate_ok [simp]: "validateDbReplicate env r path = [] \<longleftrightarrow> replicate_wf env r"
  by (auto simp: validateDbReplicate_def replicate_wf_def)

lemma binding_ok:
  "fst (DatabaseBinding_validate env d path (names, paths)) = [] \<longleftrightarrow> binding_wf env d \<and> db_Name d \<notin> set names \<and> db_Path d \<notin> set paths"
  by (auto simp: DatabaseBinding_validate_def validateDbName_def validateDbPath_def validateDbOperations_def binding_wf_def is_clone_def
      maxDatabaseNameLength_def isAbs_def split: option.splits if_splits)

lemma binding_seen:
  assumes "fst (DatabaseBinding_validate env d path (names, paths)) = []"
  shows "snd (DatabaseBinding_validate env d path (names, paths)) = (db_Name d # names, db_Path d # paths)"
proof -
  have ok: "binding_wf env d" "db_Name d \<notin> set names" "db_Path d \<notin> set paths" using assms by (simp_all add: binding_ok)
  then have "db_Path d \<noteq> []" by (auto simp: binding_wf_def isAbs_def)
  with ok show ?thesis by (auto simp: DatabaseBinding_validate_def validateDbName_def validateDbPath_def binding_wf_def)
qed

lemma databases_ok:
  "validateDatabases env i ds (names, paths) = [] \<longleftrightarrow> list_all (binding_wf env) ds \<and> distinct (map db_Name ds) \<and> distinct (map db_Path ds)
     \<and> set (map db_Name ds) \<inter> set names = {} \<and> set (map db_Path ds) \<inter> set paths = {}"
proof (induction ds arbitrary: i names paths)
  case (Cons d ds)
  let ?path = "[Child ''spec'', Child ''databases'', Index i]"
  show ?case
  proof (cases "fst (DatabaseBinding_validate env d ?path (names, paths)) = []")
    case True
    then have "validateDatabases env i (d # ds) (names, paths) = validateDatabases env (Suc i) ds (db_Name d # names, db_Path d # paths)"
      using binding_seen [OF True] by (cases "DatabaseBinding_validate env d ?path (names, paths)") simp
    moreover have "binding_wf env d" "db_Name d \<notin> set names" "db_Path d \<notin> set paths" using True by (simp_all add: binding_ok)
    ultimately show ?thesis using Cons.IH by auto
  next
    case False
    then have "validateDatabases env i (d # ds) (names, paths) \<noteq> []"
      by (cases "DatabaseBinding_validate env d ?path (names, paths)") simp
    then show ?thesis using False by (auto simp: binding_ok)
  qed
qed simp

lemma accepted_spec_wf: "LitestreamSpec_Validate env s = [] \<longleftrightarrow> spec_wf env s"
proof -
  have "validatePermissionMode mode path = [] \<longleftrightarrow> (mode \<noteq> [] \<longrightarrow> permissionModePattern mode)" for mode path
    by (simp add: validatePermissionMode_def)
  then show ?thesis by (auto simp: LitestreamSpec_Validate_def spec_wf_def image_ok databases_ok)
qed

text \<open>C20. The resources the validation accepts are exactly the well-formed ones: there is a database,
  names and paths are unique, each name is a label that leaves room for the prefix of a container,
  each path is absolute and clean, each database restores or replicates, a clone policy appears
  only on clones, an overridden image is pinned by its digest, and the modes are octal.\<close>

theorem accepted_spec_wellformed: "LitestreamSpec_Validate env s = [] \<longleftrightarrow> spec_wf env s"
  by (rule accepted_spec_wf)

end
