(* ===== verification/Litestream_Render.thy ===== *)
theory Litestream_Render
  imports Litestream_Api "HOL-Library.Char_ord" "HOL-Library.List_Lexorder" "HOL-Library.Product_Lexorder"
begin

text \<open>
  Rendering of a resolved resource (\<^verbatim>\<open>internal/litestream/litestreamconfig\<close>): configuration files
  and restore scripts of the databases, and the secrets each container has to receive. The YAML
  encoder, the text of a duration and the hash are the fields of \<open>render_env\<close>.
\<close>

subsection \<open>Input\<close>

record Restore =
  re_Replica :: ReplicaSpec
  re_IfDatabaseExists :: string
  re_IfReplicaMissing :: string
  re_IntegrityCheck :: string
  re_Timestamp :: string
  re_TxID :: string

record Replicate =
  rt_Replica :: ReplicaSpec
  rt_SyncInterval :: duration
  rt_AutoRecover :: bool

record Database =
  rd_Name :: string
  rd_Path :: string
  rd_Clone :: bool
  rd_ClonePolicy :: string
  rd_Restore :: "Restore option"
  rd_Replicate :: "Replicate option"

record Input =
  in_Image :: ImageSpec
  in_Injection :: InjectionSpec
  in_Databases :: "Database list"

datatype render_error =
    InputError string string string
  | MarshalError
  | UnsafeArgument string
  | NoOperation

definition gcsCredentialIdentity :: "GCSReplicaSpec option \<Rightarrow> string" where
  "gcsCredentialIdentity spec =
     (case spec of
        None \<Rightarrow> ''ambient''
      | Some g \<Rightarrow>
          (case ServiceAccountJSON g of
             None \<Rightarrow> ''ambient''
           | Some s \<Rightarrow> sk_Name (SecretKeyRef s) @ [CHR 0x00] @ sk_Key (SecretKeyRef s)))"

definition isGCS :: "ReplicaSpec \<Rightarrow> bool" where
  "isGCS r \<longleftrightarrow> rp_Type r = ''gcs'' \<and> rp_GCS r \<noteq> None"

definition isGCSReplica :: "Replicate option \<Rightarrow> bool" where
  "isGCSReplica r = (case r of None \<Rightarrow> False | Some x \<Rightarrow> isGCS (rt_Replica x))"

definition isGCSRestore :: "Restore option \<Rightarrow> bool" where
  "isGCSRestore r = (case r of None \<Rightarrow> False | Some x \<Rightarrow> isGCS (re_Replica x))"

fun validateGCSCredentials :: "string option \<Rightarrow> Database list \<Rightarrow> render_error option" where
  "validateGCSCredentials first [] = None"
| "validateGCSCredentials first (d # ds) =
     (if rd_Clone d \<and> isGCSRestore (rd_Restore d) \<and> isGCSReplica (rd_Replicate d)
           \<and> gcsCredentialIdentity (rp_GCS (re_Replica (the (rd_Restore d)))) \<noteq> gcsCredentialIdentity (rp_GCS (rt_Replica (the (rd_Replicate d))))
      then Some (InputError (rd_Name d) ''replicate.replica.gcs.serviceAccountJSON''
             ''clone source and destination GCS replicas must use the same serviceAccountJSON SecretKeyRef or both use ambient credentials'')
      else if \<not> isGCSReplica (rd_Replicate d) then validateGCSCredentials first ds
      else
        let credential = gcsCredentialIdentity (rp_GCS (rt_Replica (the (rd_Replicate d)))) in
        case first of
          None \<Rightarrow> validateGCSCredentials (Some credential) ds
        | Some c \<Rightarrow>
            if credential \<noteq> c
            then Some (InputError (rd_Name d) ''replicate.replica.gcs.serviceAccountJSON''
                   ''all GCS replication databases must use the same serviceAccountJSON SecretKeyRef or all use ambient credentials'')
            else validateGCSCredentials first ds)"

fun validateInputDbs :: "PermissionsSpec \<Rightarrow> string list \<Rightarrow> string list \<Rightarrow> Database list \<Rightarrow> render_error option" where
  "validateInputDbs perms names paths [] = None"
| "validateInputDbs perms names paths (d # ds) =
     (let path = pathClean (rd_Path d) in
      if rd_Name d \<in> set names then Some (InputError (rd_Name d) ''name'' ''must be unique among resolved databases'')
      else if path \<in> set paths then Some (InputError (rd_Name d) ''path'' ''must be unique among resolved databases'')
      else if DirectoryMode perms \<noteq> [] \<and> pathDir path = ''/''
        then Some (InputError (rd_Name d) ''injection.permissions.directoryMode'' ''cannot be set when the database path is directly under /'')
      else if rd_Restore d = None \<and> rd_Replicate d = None
        then Some (InputError (rd_Name d) ''database'' ''must have a restore source or replication destination'')
      else if rd_Clone d \<and> (rd_Restore d = None \<or> rd_Replicate d = None)
        then Some (InputError (rd_Name d) ''database'' ''clone requires both a restore source and replication destination'')
      else if rd_ClonePolicy d \<noteq> [] \<and> \<not> rd_Clone d
        then Some (InputError (rd_Name d) ''clonePolicy'' ''requires distinct restore source and replication destination'')
      else validateInputDbs perms (rd_Name d # names) (path # paths) ds)"

definition ValidateInput :: "Input \<Rightarrow> render_error option" where
  "ValidateInput inp =
     (case validateInputDbs (Permissions (in_Injection inp)) [] [] (in_Databases inp) of
        Some e \<Rightarrow> Some e
      | None \<Rightarrow> validateGCSCredentials None (in_Databases inp))"

subsection \<open>Credentials\<close>

record CredentialBinding =
  ContainerPurpose :: string
  EnvName :: string
  cd_SecretKeyRef :: SecretKeySelector
  FileMountPath :: string

record credentialBuilder =
  cb_databaseName :: string
  cb_role :: string
  cb_backend :: string
  cb_purpose :: string
  cb_bindings :: "CredentialBinding list"

definition SecretMountDir :: string where
  "SecretMountDir = ''/etc/litestream-secrets''"

definition ReplicateContainerPurpose :: string where
  "ReplicateContainerPurpose = ''replicate''"

definition RestoreContainerPurpose :: "string \<Rightarrow> string" where
  "RestoreContainerPurpose databaseName = ''restore-'' @ databaseName"

definition newCredentialBuilder :: "string \<Rightarrow> string \<Rightarrow> string \<Rightarrow> string \<Rightarrow> credentialBuilder" where
  "newCredentialBuilder databaseName role backend purpose =
     \<lparr>cb_databaseName = databaseName, cb_role = role, cb_backend = backend, cb_purpose = purpose, cb_bindings = []\<rparr>"

text \<open>Runes of a string: the bytes of a valid UTF-8 sequence, or one invalid byte.\<close>

definition continuation :: "char \<Rightarrow> bool" where
  "continuation c \<longleftrightarrow> (128 :: nat) \<le> of_char c \<and> (of_char c :: nat) < 192"

definition secondByte :: "nat \<Rightarrow> char \<Rightarrow> bool" where
  "secondByte a c \<longleftrightarrow> continuation c \<and> (a = 224 \<longrightarrow> (160 :: nat) \<le> of_char c) \<and> (a = 237 \<longrightarrow> (of_char c :: nat) < 160)
     \<and> (a = 240 \<longrightarrow> (144 :: nat) \<le> of_char c) \<and> (a = 244 \<longrightarrow> (of_char c :: nat) < 144)"

definition runeLen :: "string \<Rightarrow> nat" where
  "runeLen s =
     (case s of
        [] \<Rightarrow> 0
      | c # cs \<Rightarrow>
          let a = of_char c :: nat;
              want = (if 194 \<le> a \<and> a < 224 then 1 else if 224 \<le> a \<and> a < 240 then 2 else if 240 \<le> a \<and> a < 245 then 3 else 0)
          in if want \<noteq> 0 \<and> want \<le> length cs \<and> secondByte a (hd cs) \<and> list_all continuation (take want cs) then Suc want else 1)"

definition asciiUpper :: "char \<Rightarrow> char" where
  "asciiUpper c = (if (97 :: nat) \<le> of_char c \<and> (of_char c :: nat) \<le> 122 then char_of (of_char c - 32 :: nat) else c)"

text \<open>The upper case of a rune as far as it is a letter or digit of ASCII: besides the letters of
  ASCII two letters have one.\<close>

definition sanitizeRune :: "string \<Rightarrow> char" where
  "sanitizeRune r =
     (if r = [CHR 0xC4, CHR 0xB1] then CHR ''I''
      else if r = [CHR 0xC5, CHR 0xBF] then CHR ''S''
      else case r of
        [c] \<Rightarrow> if asciiUpper c \<in> set ''ABCDEFGHIJKLMNOPQRSTUVWXYZ0123456789'' then asciiUpper c else CHR ''_''
      | _ \<Rightarrow> CHR ''_'')"

function sanitizeIdentifier :: "string \<Rightarrow> string" where
  "sanitizeIdentifier s = (if s = [] then [] else sanitizeRune (take (runeLen s) s) # sanitizeIdentifier (drop (runeLen s) s))"
  by pat_completeness auto
termination by (relation "measure length") (auto simp: runeLen_def Let_def split: list.split)

declare sanitizeIdentifier.simps [simp del]

definition backendName :: "string \<Rightarrow> string" where
  "backendName t = map asciiUpper t"

definition envName :: "string \<Rightarrow> string \<Rightarrow> string \<Rightarrow> string \<Rightarrow> string" where
  "envName databaseName role backend field = joinWith ''_'' [''LS'', sanitizeIdentifier databaseName, role, backend, field]"

definition fileMountPath :: "string \<Rightarrow> string \<Rightarrow> string \<Rightarrow> string \<Rightarrow> string" where
  "fileMountPath databaseName role backend filename =
     SecretMountDir @ ''/'' @ toLower (sanitizeIdentifier databaseName) @ ''-'' @ toLower role @ ''/'' @ toLower backend @ ''-'' @ filename"

definition cb_env :: "string \<Rightarrow> SecretReference option \<Rightarrow> credentialBuilder \<Rightarrow> string \<times> credentialBuilder" where
  "cb_env field ref b =
     (case ref of
        None \<Rightarrow> ([], b)
      | Some s \<Rightarrow>
          let name = envName (cb_databaseName b) (cb_role b) (cb_backend b) field
          in (''${'' @ name @ ''}'',
              b\<lparr>cb_bindings := cb_bindings b
                 @ [\<lparr>ContainerPurpose = cb_purpose b, EnvName = name, cd_SecretKeyRef = SecretKeyRef s, FileMountPath = []\<rparr>]\<rparr>))"

definition cb_file :: "string \<Rightarrow> SecretReference option \<Rightarrow> credentialBuilder \<Rightarrow> string \<times> credentialBuilder" where
  "cb_file filename ref b =
     (case ref of
        None \<Rightarrow> ([], b)
      | Some s \<Rightarrow>
          let path = fileMountPath (cb_databaseName b) (cb_role b) (cb_backend b) filename
          in (path,
              b\<lparr>cb_bindings := cb_bindings b
                 @ [\<lparr>ContainerPurpose = cb_purpose b, EnvName = [], cd_SecretKeyRef = SecretKeyRef s, FileMountPath = path\<rparr>]\<rparr>))"

definition cb_fileWithEnv :: "string \<Rightarrow> string \<Rightarrow> SecretReference option \<Rightarrow> credentialBuilder \<Rightarrow> string \<times> credentialBuilder" where
  "cb_fileWithEnv envVar filename ref b =
     (case ref of
        None \<Rightarrow> ([], b)
      | Some s \<Rightarrow>
          let path = fileMountPath (cb_databaseName b) (cb_role b) (cb_backend b) filename
          in (path,
              b\<lparr>cb_bindings := cb_bindings b
                 @ [\<lparr>ContainerPurpose = cb_purpose b, EnvName = envVar, cd_SecretKeyRef = SecretKeyRef s, FileMountPath = path\<rparr>]\<rparr>))"

fun cb_fileList :: "string \<Rightarrow> nat \<Rightarrow> SecretReference list \<Rightarrow> credentialBuilder \<Rightarrow> string list \<times> credentialBuilder" where
  "cb_fileList prefix i [] b = ([], b)"
| "cb_fileList prefix i (s # ss) b =
     (case cb_file (prefix @ ''-'' @ decimal i) (Some s) b of (p, b1) \<Rightarrow>
      case cb_fileList prefix (Suc i) ss b1 of (ps, b2) \<Rightarrow> (p # ps, b2))"

definition rebind :: "string \<Rightarrow> credentialBuilder \<Rightarrow> CredentialBinding list" where
  "rebind purpose b = map (\<lambda>c. c\<lparr>ContainerPurpose := purpose\<rparr>) (cb_bindings b)"

definition optionalSortValue :: "bool option \<Rightarrow> nat" where
  "optionalSortValue x = (case x of None \<Rightarrow> 0 | Some v \<Rightarrow> if v then 2 else 1)"

definition sortCredentialBindings :: "CredentialBinding list \<Rightarrow> CredentialBinding list" where
  "sortCredentialBindings bs =
     sort_key (\<lambda>b. (ContainerPurpose b, EnvName b, FileMountPath b, sk_Name (cd_SecretKeyRef b), sk_Key (cd_SecretKeyRef b),
       optionalSortValue (sk_Optional (cd_SecretKeyRef b)))) bs"


subsection \<open>Replicas\<close>

record replicaYAML =
  y_Type :: string
  y_Bucket :: string
  y_Path :: string
  y_Region :: string
  y_Endpoint :: string
  y_ForcePathStyle :: "bool option"
  y_SkipVerify :: "bool option"
  y_AccessKeyID :: string
  y_SecretAccessKey :: string
  y_AccountName :: string
  y_AccountKey :: string
  y_Host :: string
  y_User :: string
  y_Password :: string
  y_KeyPath :: string
  y_ConcurrentWrites :: "bool option"
  y_WebDAVURL :: string
  y_WebDAVUsername :: string
  y_WebDAVPassword :: string
  y_URL :: string
  y_Username :: string
  y_JWT :: string
  y_Seed :: string
  y_Creds :: string
  y_NKey :: string
  y_Token :: string
  y_RootCAs :: "string list"
  y_ClientCert :: string
  y_ClientKey :: string
  y_MaxReconnects :: "int option"
  y_ReconnectWait :: string
  y_Timeout :: string
  y_SyncInterval :: string
  y_AutoRecover :: bool

record dbEntry =
  de_Path :: string
  de_Replica :: replicaYAML

record render_env =
  yamlMarshal :: "dbEntry list \<Rightarrow> string option"
  durationString :: "duration \<Rightarrow> string"
  sha256Hex :: "string \<Rightarrow> string"

definition emptyYAML :: "string \<Rightarrow> replicaYAML" where
  "emptyYAML t = \<lparr>y_Type = t, y_Bucket = [], y_Path = [], y_Region = [], y_Endpoint = [], y_ForcePathStyle = None, y_SkipVerify = None,
     y_AccessKeyID = [], y_SecretAccessKey = [], y_AccountName = [], y_AccountKey = [], y_Host = [], y_User = [], y_Password = [], y_KeyPath = [],
     y_ConcurrentWrites = None, y_WebDAVURL = [], y_WebDAVUsername = [], y_WebDAVPassword = [], y_URL = [], y_Username = [], y_JWT = [],
     y_Seed = [], y_Creds = [], y_NKey = [], y_Token = [], y_RootCAs = [], y_ClientCert = [], y_ClientKey = [], y_MaxReconnects = None,
     y_ReconnectWait = [], y_Timeout = [], y_SyncInterval = [], y_AutoRecover = False\<rparr>"

definition renderS3 :: "S3ReplicaSpec \<Rightarrow> credentialBuilder \<Rightarrow> replicaYAML \<times> credentialBuilder" where
  "renderS3 spec b =
     (case cb_env ''ACCESS_KEY_ID'' (s3_AccessKeyID spec) b of (key, b1) \<Rightarrow>
      case cb_env ''SECRET_ACCESS_KEY'' (s3_SecretAccessKey spec) b1 of (secret, b2) \<Rightarrow>
        ((emptyYAML ''s3'')\<lparr>y_Bucket := s3_Bucket spec, y_Path := s3_Path spec, y_Region := s3_Region spec, y_Endpoint := s3_Endpoint spec,
           y_ForcePathStyle := s3_ForcePathStyle spec, y_SkipVerify := s3_SkipVerify spec, y_AccessKeyID := key, y_SecretAccessKey := secret\<rparr>, b2))"

definition renderGCS :: "GCSReplicaSpec \<Rightarrow> credentialBuilder \<Rightarrow> replicaYAML \<times> credentialBuilder" where
  "renderGCS spec b =
     (case cb_fileWithEnv ''GOOGLE_APPLICATION_CREDENTIALS'' ''service-account.json'' (ServiceAccountJSON spec) b of (_, b1) \<Rightarrow>
        ((emptyYAML ''gs'')\<lparr>y_Bucket := gcs_Bucket spec, y_Path := gcs_Path spec\<rparr>, b1))"

definition renderAzure :: "AzureReplicaSpec \<Rightarrow> credentialBuilder \<Rightarrow> replicaYAML \<times> credentialBuilder" where
  "renderAzure spec b =
     (case cb_env ''ACCOUNT_KEY'' (az_AccountKey spec) b of (key, b1) \<Rightarrow>
        ((emptyYAML ''abs'')\<lparr>y_AccountName := az_AccountName spec, y_Bucket := az_Container spec, y_Path := az_Path spec,
           y_Endpoint := az_Endpoint spec, y_AccountKey := key\<rparr>, b1))"

definition renderFile :: "FileReplicaSpec \<Rightarrow> replicaYAML" where
  "renderFile spec = (emptyYAML ''file'')\<lparr>y_Path := fi_Path spec\<rparr>"

definition renderNATS :: "render_env \<Rightarrow> NATSReplicaSpec \<Rightarrow> credentialBuilder \<Rightarrow> replicaYAML \<times> credentialBuilder" where
  "renderNATS env spec b =
     (case cb_env ''USERNAME'' (na_Username spec) b of (user, b1) \<Rightarrow>
      case cb_env ''PASSWORD'' (na_Password spec) b1 of (password, b2) \<Rightarrow>
      case cb_env ''JWT'' (na_JWT spec) b2 of (jwt, b3) \<Rightarrow>
      case cb_env ''SEED'' (na_Seed spec) b3 of (seed, b4) \<Rightarrow>
      case cb_env ''NKEY'' (na_NKey spec) b4 of (nkey, b5) \<Rightarrow>
      case cb_env ''TOKEN'' (na_Token spec) b5 of (token, b6) \<Rightarrow>
      case cb_file ''creds'' (na_Creds spec) b6 of (creds, b7) \<Rightarrow>
      case cb_file ''client-cert'' (na_ClientCert spec) b7 of (cert, b8) \<Rightarrow>
      case cb_file ''client-key'' (na_ClientKey spec) b8 of (key, b9) \<Rightarrow>
      case cb_fileList ''root-ca'' 0 (na_RootCAs spec) b9 of (cas, b10) \<Rightarrow>
        ((emptyYAML ''nats'')\<lparr>y_URL := na_URL spec, y_Username := user, y_Password := password, y_JWT := jwt, y_Seed := seed, y_NKey := nkey,
           y_Token := token, y_Creds := creds, y_ClientCert := cert, y_ClientKey := key, y_RootCAs := cas, y_MaxReconnects := na_MaxReconnects spec,
           y_ReconnectWait := (case na_ReconnectWait spec of None \<Rightarrow> [] | Some d \<Rightarrow> durationString env d),
           y_Timeout := (case na_Timeout spec of None \<Rightarrow> [] | Some d \<Rightarrow> durationString env d)\<rparr>, b10))"

definition renderOSS :: "OSSReplicaSpec \<Rightarrow> credentialBuilder \<Rightarrow> replicaYAML \<times> credentialBuilder" where
  "renderOSS spec b =
     (case cb_env ''ACCESS_KEY_ID'' (oss_AccessKeyID spec) b of (key, b1) \<Rightarrow>
      case cb_env ''ACCESS_KEY_SECRET'' (oss_AccessKeySecret spec) b1 of (secret, b2) \<Rightarrow>
        ((emptyYAML ''oss'')\<lparr>y_Bucket := oss_Bucket spec, y_Path := oss_Path spec, y_Endpoint := oss_Endpoint spec, y_Region := oss_Region spec,
           y_AccessKeyID := key, y_SecretAccessKey := secret\<rparr>, b2))"

definition renderSFTP :: "SFTPReplicaSpec \<Rightarrow> credentialBuilder \<Rightarrow> replicaYAML \<times> credentialBuilder" where
  "renderSFTP spec b =
     (case cb_env ''PASSWORD'' (sf_Password spec) b of (password, b1) \<Rightarrow>
      case cb_file ''private-key'' (sf_PrivateKey spec) b1 of (key, b2) \<Rightarrow>
        ((emptyYAML ''sftp'')\<lparr>y_Host := sf_Host spec, y_User := sf_User spec, y_Path := sf_Path spec, y_Password := password, y_KeyPath := key,
           y_ConcurrentWrites := sf_ConcurrentWrites spec\<rparr>, b2))"

definition renderWebDAV :: "WebDAVReplicaSpec \<Rightarrow> credentialBuilder \<Rightarrow> replicaYAML \<times> credentialBuilder" where
  "renderWebDAV spec b =
     (case cb_env ''USERNAME'' (wd_Username spec) b of (user, b1) \<Rightarrow>
      case cb_env ''PASSWORD'' (wd_Password spec) b1 of (password, b2) \<Rightarrow>
        ((emptyYAML ''webdav'')\<lparr>y_WebDAVURL := wd_URL spec, y_Path := wd_Path spec, y_WebDAVUsername := user, y_WebDAVPassword := password,
           y_SkipVerify := wd_SkipVerify spec\<rparr>, b2))"

definition renderReplica :: "render_env \<Rightarrow> ReplicaSpec \<Rightarrow> credentialBuilder \<Rightarrow> replicaYAML \<times> credentialBuilder" where
  "renderReplica env r b =
     (if rp_Type r = ''s3'' then renderS3 (the (rp_S3 r)) b
      else if rp_Type r = ''gcs'' then renderGCS (the (rp_GCS r)) b
      else if rp_Type r = ''azure'' then renderAzure (the (rp_Azure r)) b
      else if rp_Type r = ''file'' then (renderFile (the (rp_File r)), b)
      else if rp_Type r = ''nats'' then renderNATS env (the (rp_NATS r)) b
      else if rp_Type r = ''oss'' then renderOSS (the (rp_OSS r)) b
      else if rp_Type r = ''sftp'' then renderSFTP (the (rp_SFTP r)) b
      else if rp_Type r = ''webdav'' then renderWebDAV (the (rp_WebDAV r)) b
      else (emptyYAML (rp_Type r), b))"

subsection \<open>Restore policies\<close>

record restorePolicy =
  ifDatabaseExists :: string
  ifReplicaMissing :: string
  integrityCheck :: string
  rp_timestamp :: string
  rp_txID :: string

definition defaultRestorePolicy :: restorePolicy where
  "defaultRestorePolicy = \<lparr>ifDatabaseExists = ''skip'', ifReplicaMissing = ''skip'', integrityCheck = ''quick'', rp_timestamp = [], rp_txID = []\<rparr>"

definition restorePolicyFromSpec :: "Restore \<Rightarrow> restorePolicy" where
  "restorePolicyFromSpec spec =
     \<lparr>ifDatabaseExists = (if re_IfDatabaseExists spec \<noteq> [] then re_IfDatabaseExists spec else ''skip''),
      ifReplicaMissing = (if re_IfReplicaMissing spec \<noteq> [] then re_IfReplicaMissing spec else ''skip''),
      integrityCheck = (if re_IntegrityCheck spec \<noteq> [] then re_IntegrityCheck spec else ''quick''),
      rp_timestamp = re_Timestamp spec, rp_txID = re_TxID spec\<rparr>"

definition flags :: "restorePolicy \<Rightarrow> string list" where
  "flags p =
     (if ifDatabaseExists p = ''overwrite'' then [''-force''] else if ifDatabaseExists p = ''fail'' then [] else [''-if-db-not-exists''])
     @ (if ifReplicaMissing p \<noteq> ''fail'' then [''-if-replica-exists''] else [])
     @ [''-integrity-check'', if integrityCheck p = [] then ''quick'' else integrityCheck p]
     @ (if rp_timestamp p \<noteq> [] then [''-timestamp'', rp_timestamp p] else if rp_txID p \<noteq> [] then [''-txid'', rp_txID p] else [])"

subsection \<open>Scripts\<close>

abbreviation newline :: string where "newline \<equiv> [CHR 0x0A]"
abbreviation squote :: char where "squote \<equiv> CHR 0x27"
abbreviation dquote :: string where "dquote \<equiv> [CHR 0x22]"
abbreviation backslash :: char where "backslash \<equiv> CHR 0x5C"

definition ConfigMountDir :: string where
  "ConfigMountDir = ''/etc/litestream''"

definition configPath :: "string \<Rightarrow> string" where
  "configPath fileName = ConfigMountDir @ ''/'' @ fileName"

definition quoteBody :: "string \<Rightarrow> string" where
  "quoteBody s = concat (map (\<lambda>c. if c = squote then [squote, backslash, squote, squote] else [c]) s)"

definition shellQuote :: "string \<Rightarrow> render_error + string" where
  "shellQuote s = (if CHR 0x00 \<in> set s \<or> CHR 0x0A \<in> set s then Inl (UnsafeArgument s) else Inr (squote # quoteBody s @ [squote]))"

fun quoteFlags :: "string list \<Rightarrow> render_error + string list" where
  "quoteFlags [] = Inr []"
| "quoteFlags (f # fs) =
     (case shellQuote f of
        Inl e \<Rightarrow> Inl e
      | Inr q \<Rightarrow> (case quoteFlags fs of Inl e \<Rightarrow> Inl e | Inr qs \<Rightarrow> Inr (q # qs)))"

text \<open>Quoting a fixed number of arguments: the first that is refused is reported.\<close>

definition withQuoted :: "string list \<Rightarrow> (string list \<Rightarrow> 'a) \<Rightarrow> render_error + 'a" where
  "withQuoted args k = (case quoteFlags args of Inl e \<Rightarrow> Inl e | Inr qs \<Rightarrow> Inr (k qs))"

definition restoreLine :: "string list \<Rightarrow> string \<Rightarrow> string \<Rightarrow> render_error + string" where
  "restoreLine fs configFile dbPath =
     (case quoteFlags fs of
        Inl e \<Rightarrow> Inl e
      | Inr qs \<Rightarrow>
          withQuoted [configFile, dbPath]
            (\<lambda>a. ''litestream restore '' @ joinWith '' '' qs @ '' '' @ [backslash] @ newline @ ''  -config '' @ a ! 0 @ '' '' @ a ! 1 @ newline))"

definition stagedRestoreLine :: "string list \<Rightarrow> string \<Rightarrow> string \<Rightarrow> render_error + string" where
  "stagedRestoreLine fs configFile dbPath =
     (case quoteFlags fs of
        Inl e \<Rightarrow> Inl e
      | Inr qs \<Rightarrow>
          withQuoted [configFile, dbPath, pathJoin [pathDir dbPath, ''.litestream-restore-XXXXXX''], dbPath @ ''-wal'', dbPath @ ''-shm'', dbPath @ ''-journal'']
            (\<lambda>a. ''restore_tmp=$(mktemp '' @ a ! 2 @ '')'' @ newline
              @ ''trap '' @ [squote] @ ''rm -f '' @ dquote @ ''$restore_tmp'' @ dquote @ [squote] @ '' EXIT HUP INT TERM'' @ newline
              @ ''litestream restore '' @ joinWith '' '' qs @ '' '' @ [backslash] @ newline
              @ ''  -config '' @ a ! 0 @ '' -o '' @ dquote @ ''$restore_tmp'' @ dquote @ '' '' @ a ! 1 @ newline
              @ ''if [ -s '' @ dquote @ ''$restore_tmp'' @ dquote @ '' ]; then'' @ newline
              @ ''  mv '' @ dquote @ ''$restore_tmp'' @ dquote @ '' '' @ a ! 1 @ newline
              @ ''  rm -f '' @ a ! 3 @ '' '' @ a ! 4 @ '' '' @ a ! 5 @ newline
              @ ''fi'' @ newline))"

definition buildRestoreLine :: "restorePolicy \<Rightarrow> string \<Rightarrow> string \<Rightarrow> render_error + string" where
  "buildRestoreLine policy configFile dbPath =
     (if ifDatabaseExists policy = ''overwrite'' then stagedRestoreLine (flags policy) configFile dbPath
      else restoreLine (flags policy) configFile dbPath)"

definition chmodFailure :: string where
  "chmodFailure = ''    echo '' @ [squote] @ ''error: unable to apply Litestream permissions'' @ [squote] @ '' >&2'' @ newline @ ''    exit 1'' @ newline"

definition chmodLines :: "Database \<Rightarrow> PermissionsSpec \<Rightarrow> render_error + string" where
  "chmodLines d perms =
     (if DatabaseMode perms = [] \<and> DirectoryMode perms = [] then Inr []
      else
        case shellQuote (rd_Path d) of
          Inl e \<Rightarrow> Inl e
        | Inr dbPath \<Rightarrow>
            let start = ''if [ -e '' @ dbPath @ '' ]; then'' @ newline
                  @ (if DatabaseMode perms \<noteq> []
                     then ''  if ! chmod '' @ DatabaseMode perms @ '' '' @ dbPath @ ''; then'' @ newline @ chmodFailure @ ''  fi'' @ newline else [])
            in if pathDir (rd_Path d) = ''/'' \<or> DirectoryMode perms = [] then Inr (start @ ''fi'' @ newline)
               else
                 case shellQuote (pathDir (rd_Path d)) of
                   Inl e \<Rightarrow> Inl e
                 | Inr dir \<Rightarrow>
                     Inr (start @ ''  if ! chmod 2'' @ tl (DirectoryMode perms) @ '' '' @ dir @ ''; then'' @ newline @ chmodFailure @ ''  fi'' @ newline
                          @ ''fi'' @ newline))"

definition scriptHead :: string where
  "scriptHead = ''#!/bin/sh'' @ newline @ ''set -eu'' @ newline"

definition buildSingleRestoreScript :: "Database \<Rightarrow> PermissionsSpec \<Rightarrow> string \<Rightarrow> restorePolicy \<Rightarrow> render_error + string" where
  "buildSingleRestoreScript d perms configFileName policy =
     (case chmodLines d perms of
        Inl e \<Rightarrow> Inl e
      | Inr chmod \<Rightarrow>
          (case buildRestoreLine policy (configPath configFileName) (rd_Path d) of
             Inl e \<Rightarrow> Inl e
           | Inr line \<Rightarrow> Inr (scriptHead @ line @ chmod)))"

definition refuseLine :: "string \<Rightarrow> string \<Rightarrow> string" where
  "refuseLine msg nameArg = ''  printf '' @ [squote] @ ''litestream: '' @ msg @ [backslash] @ ''n'' @ [squote] @ '' '' @ nameArg @ '' >&2'' @ newline @ ''  exit 1'' @ newline @ ''  ;;'' @ newline"

definition buildRequireEmptyPreflight :: "string \<Rightarrow> string \<Rightarrow> string \<Rightarrow> render_error + string" where
  "buildRequireEmptyPreflight databaseName destCfg dbPath =
     (case shellQuote databaseName of
        Inl e \<Rightarrow> Inl e
      | Inr nameArg \<Rightarrow>
          let unknown = refuseLine ''unable to inspect destination replica for database %s; require-empty policy refuses to continue'' nameArg;
              files = \<lambda>suffix. [squote] @ dquote @ ''files'' @ dquote @ '':['' @ suffix @ [squote]
          in Inr (''restore_plan=$(litestream restore -dry-run -json -if-replica-exists -config '' @ destCfg @ '' '' @ dbPath @ '' 2>&1) || {'' @ newline
            @ ''  case '' @ dquote @ ''$restore_plan'' @ dquote @ '' in'' @ newline
            @ ''  *'' @ [squote] @ ''no matching backup files available'' @ [squote] @ ''*|*'' @ [squote] @ ''no matching backups found'' @ [squote]
            @ ''*) restore_plan='' @ [squote] @ ''{'' @ dquote @ ''files'' @ dquote @ '':[]}'' @ [squote] @ '' ;;'' @ newline
            @ ''  *)'' @ newline @ unknown @ ''  esac'' @ newline @ ''}'' @ newline
            @ ''compact_plan=$(printf '' @ [squote] @ ''%s'' @ [squote] @ '' '' @ dquote @ ''$restore_plan'' @ dquote @ '' | tr -d '' @ [squote] @ ''[:space:]'' @ [squote] @ '')'' @ newline
            @ ''case '' @ dquote @ ''$compact_plan'' @ dquote @ '' in'' @ newline
            @ ''  *'' @ files '']'' @ ''*) ;;'' @ newline
            @ ''  *'' @ files [] @ ''*)'' @ newline
            @ refuseLine ''destination replica for database %s already contains data; require-empty policy refuses to continue'' nameArg
            @ ''  *)'' @ newline @ unknown @ ''esac'' @ newline))"

definition buildCloneScript :: "Database \<Rightarrow> PermissionsSpec \<Rightarrow> string \<Rightarrow> string \<Rightarrow> render_error + string" where
  "buildCloneScript d perms destFileName srcFileName =
     (case shellQuote (configPath destFileName) of
        Inl e \<Rightarrow> Inl e
      | Inr destCfg \<Rightarrow>
     (case shellQuote (rd_Path d) of
        Inl e \<Rightarrow> Inl e
      | Inr dbPath \<Rightarrow>
     (case chmodLines d perms of
        Inl e \<Rightarrow> Inl e
      | Inr chmod \<Rightarrow>
     (case (if rd_ClonePolicy d = ''require-empty'' then buildRequireEmptyPreflight (rd_Name d) destCfg dbPath else Inr []) of
        Inl e \<Rightarrow> Inl e
      | Inr preflight \<Rightarrow>
     (case buildRestoreLine defaultRestorePolicy (configPath destFileName) (rd_Path d) of
        Inl e \<Rightarrow> Inl e
      | Inr destinationRestore \<Rightarrow>
     (case buildRestoreLine (restorePolicyFromSpec (the (rd_Restore d))) (configPath srcFileName) (rd_Path d) of
        Inl e \<Rightarrow> Inl e
      | Inr sourceRestore \<Rightarrow> Inr (scriptHead @ preflight @ destinationRestore @ sourceRestore @ chmod)))))))"

subsection \<open>Rendering\<close>

record RenderedConfig =
  rn_Data :: "(string, string) gomap"
  rn_Credentials :: "CredentialBinding list"
  rn_Hash :: string

definition ReplicateConfigFile :: string where
  "ReplicateConfigFile = ''replicate.yml''"

definition restoreConfigFileName :: "string \<Rightarrow> string" where
  "restoreConfigFileName databaseName = ''restore-'' @ databaseName @ ''.yml''"

definition cloneConfigFileName :: "string \<Rightarrow> string \<Rightarrow> string" where
  "cloneConfigFileName databaseName role = ''restore-'' @ databaseName @ ''-'' @ role @ ''.yml''"

definition RestoreScriptFileName :: "string \<Rightarrow> string" where
  "RestoreScriptFileName databaseName = ''restore-'' @ databaseName @ ''.sh''"

definition formatDuration :: "render_env \<Rightarrow> duration \<Rightarrow> string" where
  "formatDuration env d = (if d = 0 then [] else durationString env d)"

definition marshalConfig :: "render_env \<Rightarrow> dbEntry list \<Rightarrow> render_error + string" where
  "marshalConfig env entries = (case yamlMarshal env entries of None \<Rightarrow> Inl MarshalError | Some doc \<Rightarrow> Inr doc)"

type_synonym config_data = "(string, string) gomap"

definition renderRestoreOnly :: "render_env \<Rightarrow> Database \<Rightarrow> PermissionsSpec \<Rightarrow> config_data \<Rightarrow> render_error + CredentialBinding list \<times> config_data" where
  "renderRestoreOnly env d perms data =
     (let r = the (rd_Restore d) in
      case renderReplica env (re_Replica r) (newCredentialBuilder (rd_Name d) ''SRC'' (backendName (rp_Type (re_Replica r))) (RestoreContainerPurpose (rd_Name d))) of
        (replica, builder) \<Rightarrow>
          (case marshalConfig env [\<lparr>de_Path = rd_Path d, de_Replica = replica\<rparr>] of
             Inl e \<Rightarrow> Inl e
           | Inr doc \<Rightarrow>
               let data1 = mput data (restoreConfigFileName (rd_Name d)) doc in
               (case buildSingleRestoreScript d perms (restoreConfigFileName (rd_Name d)) (restorePolicyFromSpec r) of
                  Inl e \<Rightarrow> Inl e
                | Inr script \<Rightarrow> Inr (cb_bindings builder, mput data1 (RestoreScriptFileName (rd_Name d)) script))))"

text \<open>The destination with its settings, shared by replicating databases and clones.\<close>

definition renderDestination :: "render_env \<Rightarrow> Database \<Rightarrow> dbEntry \<times> credentialBuilder" where
  "renderDestination env d =
     (let r = the (rd_Replicate d) in
      case renderReplica env (rt_Replica r) (newCredentialBuilder (rd_Name d) ''DEST'' (backendName (rp_Type (rt_Replica r))) ReplicateContainerPurpose) of
        (replica, builder) \<Rightarrow>
          (\<lparr>de_Path = rd_Path d,
            de_Replica = replica\<lparr>y_SyncInterval := formatDuration env (rt_SyncInterval r), y_AutoRecover := rt_AutoRecover r\<rparr>\<rparr>, builder))"

definition renderReplicate ::
    "render_env \<Rightarrow> Database \<Rightarrow> PermissionsSpec \<Rightarrow> config_data \<Rightarrow> render_error + CredentialBinding list \<times> dbEntry \<times> config_data" where
  "renderReplicate env d perms data =
     (case renderDestination env d of (entry, dest) \<Rightarrow>
      let purpose = RestoreContainerPurpose (rd_Name d);
          src = (case rd_Restore d of
                   Some r \<Rightarrow>
                     (case renderReplica env (re_Replica r) (newCredentialBuilder (rd_Name d) ''SRC'' (backendName (rp_Type (re_Replica r))) purpose) of
                        (replica, builder) \<Rightarrow> (\<lparr>de_Path = rd_Path d, de_Replica = replica\<rparr>, cb_bindings builder, restorePolicyFromSpec r))
                 | None \<Rightarrow> (entry, rebind purpose dest, defaultRestorePolicy))
      in case marshalConfig env [fst src] of
           Inl e \<Rightarrow> Inl e
         | Inr doc \<Rightarrow>
             let data1 = mput data (restoreConfigFileName (rd_Name d)) doc in
             (case buildSingleRestoreScript d perms (restoreConfigFileName (rd_Name d)) (snd (snd src)) of
                Inl e \<Rightarrow> Inl e
              | Inr script \<Rightarrow> Inr (cb_bindings dest @ fst (snd src), entry, mput data1 (RestoreScriptFileName (rd_Name d)) script)))"

definition renderClone ::
    "render_env \<Rightarrow> Database \<Rightarrow> PermissionsSpec \<Rightarrow> config_data \<Rightarrow> render_error + CredentialBinding list \<times> dbEntry \<times> config_data" where
  "renderClone env d perms data =
     (case renderDestination env d of (entry, dest) \<Rightarrow>
      case marshalConfig env [entry] of
        Inl e \<Rightarrow> Inl e
      | Inr destDoc \<Rightarrow>
          let purpose = RestoreContainerPurpose (rd_Name d);
              destFileName = cloneConfigFileName (rd_Name d) ''destination'';
              srcFileName = cloneConfigFileName (rd_Name d) ''source'';
              data1 = mput data destFileName destDoc;
              r = the (rd_Restore d)
          in case renderReplica env (re_Replica r) (newCredentialBuilder (rd_Name d) ''SRC'' (backendName (rp_Type (re_Replica r))) purpose) of
               (replica, builder) \<Rightarrow>
                 (case marshalConfig env [\<lparr>de_Path = rd_Path d, de_Replica = replica\<rparr>] of
                    Inl e \<Rightarrow> Inl e
                  | Inr srcDoc \<Rightarrow>
                      let data2 = mput data1 srcFileName srcDoc in
                      (case buildCloneScript d perms destFileName srcFileName of
                         Inl e \<Rightarrow> Inl e
                       | Inr script \<Rightarrow>
                           Inr (cb_bindings dest @ rebind purpose dest @ cb_bindings builder, entry, mput data2 (RestoreScriptFileName (rd_Name d)) script))))"

fun renderDatabases ::
    "render_env \<Rightarrow> PermissionsSpec \<Rightarrow> Database list \<Rightarrow> config_data \<Rightarrow> CredentialBinding list \<Rightarrow> dbEntry list \<Rightarrow>
     render_error + config_data \<times> CredentialBinding list \<times> dbEntry list" where
  "renderDatabases env perms [] data creds entries = Inr (data, creds, entries)"
| "renderDatabases env perms (d # ds) data creds entries =
     (if rd_Restore d \<noteq> None \<and> rd_Replicate d = None then
        (case renderRestoreOnly env d perms data of
           Inl e \<Rightarrow> Inl e
         | Inr (cs, data1) \<Rightarrow> renderDatabases env perms ds data1 (creds @ cs) entries)
      else if \<not> rd_Clone d \<and> rd_Replicate d \<noteq> None then
        (case renderReplicate env d perms data of
           Inl e \<Rightarrow> Inl e
         | Inr (cs, entry, data1) \<Rightarrow> renderDatabases env perms ds data1 (creds @ cs) (entries @ [entry]))
      else if rd_Clone d then
        (case renderClone env d perms data of
           Inl e \<Rightarrow> Inl e
         | Inr (cs, entry, data1) \<Rightarrow> renderDatabases env perms ds data1 (creds @ cs) (entries @ [entry]))
      else Inl NoOperation)"

definition hashedBinding :: "CredentialBinding \<Rightarrow> string" where
  "hashedBinding c =
     concat (map (\<lambda>x. x @ [CHR 0x00])
       [''credential'', ContainerPurpose c, EnvName c, sk_Name (cd_SecretKeyRef c), sk_Key (cd_SecretKeyRef c),
        (case sk_Optional (cd_SecretKeyRef c) of None \<Rightarrow> ''optional:nil'' | Some v \<Rightarrow> if v then ''optional:true'' else ''optional:false''),
        FileMountPath c])"

definition hashRenderedConfig :: "render_env \<Rightarrow> config_data \<Rightarrow> CredentialBinding list \<Rightarrow> string" where
  "hashRenderedConfig env data creds =
     sha256Hex env
       (concat (map (\<lambda>k. concat (map (\<lambda>x. x @ [CHR 0x00]) [''data'', k, mgetZ data k])) (sort (map fst data)))
        @ concat (map hashedBinding creds))"

definition Render :: "render_env \<Rightarrow> Input \<Rightarrow> render_error + RenderedConfig" where
  "Render env inp =
     (case ValidateInput inp of
        Some e \<Rightarrow> Inl e
      | None \<Rightarrow>
     (case renderDatabases env (Permissions (in_Injection inp)) (in_Databases inp) [] [] [] of
        Inl e \<Rightarrow> Inl e
      | Inr (data, creds, entries) \<Rightarrow>
     (case (if entries = [] then Inr data
            else case marshalConfig env entries of Inl e \<Rightarrow> Inl e | Inr doc \<Rightarrow> Inr (mput data ReplicateConfigFile doc)) of
        Inl e \<Rightarrow> Inl e
      | Inr data1 \<Rightarrow>
          let sorted = sortCredentialBindings creds
          in Inr \<lparr>rn_Data = data1, rn_Credentials = sorted, rn_Hash = hashRenderedConfig env data1 sorted\<rparr>)))"

end
