(* ===== verification/Litestream_Scripts.thy ===== *)
theory Litestream_Scripts
  imports Litestream_Render
begin

text \<open>
  Reading back the restore command of a script: how a POSIX shell splits a line into words, and
  that the rendered line splits into exactly the arguments it was built from.
\<close>

subsection \<open>Words of a command\<close>

text \<open>The shell's reading of one command: single quotes, backslash, line continuation, blanks. \<open>cur\<close> is the
  word under construction. Characters with another meaning to the shell are not read
  (\<open>None\<close>), so a command that is read has no expansion, redirection or second command.\<close>

definition plainChar :: "char \<Rightarrow> bool" where
  "plainChar c \<longleftrightarrow> wordChar c \<or> c \<in> set ''-./:,+@%=''"

definition flush :: "string option \<Rightarrow> string list \<Rightarrow> string list" where
  "flush cur ws = (case cur of None \<Rightarrow> ws | Some w \<Rightarrow> w # ws)"

definition extend :: "string option \<Rightarrow> string \<Rightarrow> string option" where
  "extend cur s = (case cur of None \<Rightarrow> Some s | Some w \<Rightarrow> Some (w @ s))"

fun shWords :: "bool \<Rightarrow> string option \<Rightarrow> string \<Rightarrow> string list option" where
  "shWords quoted cur [] = (if quoted then None else Some (flush cur []))"
| "shWords True cur (c # cs) = (if c = squote then shWords False cur cs else shWords True (extend cur [c]) cs)"
| "shWords False cur (c # cs) =
     (if c = squote then shWords True (extend cur []) cs
      else if c = backslash then
        (case cs of
           [] \<Rightarrow> None
         | d # ds \<Rightarrow> if d = CHR 0x0A then shWords False cur ds else shWords False (extend cur [d]) ds)
      else if c = CHR 0x0A then (if cs = [] then Some (flush cur []) else None)
      else if c = CHR '' '' then map_option (flush cur) (shWords False None cs)
      else if plainChar c then shWords False (extend cur [c]) cs
      else None)"

lemma flush_simps [simp]: "flush None = (\<lambda>ws. ws)" "flush (Some w) = (#) w"
  by (simp_all add: flush_def fun_eq_iff)

lemma extend_extend [simp]: "extend (extend cur s) t = extend cur (s @ t)"
  by (simp add: extend_def split: option.split)

lemma quoted_body: "shWords True (Some w) (quoteBody s @ squote # rest) = shWords False (Some (w @ s)) rest"
proof (induction s arbitrary: w)
  case (Cons c s)
  show ?case
  proof (cases "c = squote")
    case True
    then have "shWords True (Some w) (quoteBody (c # s) @ squote # rest) = shWords True (Some (w @ [squote])) (quoteBody s @ squote # rest)"
      by (simp add: quoteBody_def extend_def)
    then show ?thesis using Cons True by simp
  next
    case False
    then show ?thesis using Cons [of "w @ [c]"] by (simp add: quoteBody_def extend_def)
  qed
qed (simp add: quoteBody_def)

lemma shellQuote_safe: "shellQuote s = Inr q \<longleftrightarrow> CHR 0x00 \<notin> set s \<and> CHR 0x0A \<notin> set s \<and> q = squote # quoteBody s @ [squote]"
  by (auto simp: shellQuote_def)

lemma quoted_word: "shellQuote s = Inr q \<Longrightarrow> shWords False None (q @ rest) = shWords False (Some s) rest"
  using quoted_body [of "[]" s rest] by (simp add: shellQuote_safe extend_def)

lemma quoted_args:
  "quoteFlags fs = Inr qs \<Longrightarrow> shWords False None (joinWith '' '' qs @ CHR '' '' # rest) = map_option (\<lambda>ws. fs @ ws) (shWords False None rest)"
proof (induction fs arbitrary: qs)
  case Nil
  then show ?case by (cases "shWords False None rest") auto
next
  case (Cons f fs)
  then obtain q qs' where q: "shellQuote f = Inr q" and qs': "quoteFlags fs = Inr qs'" and qs: "qs = q # qs'"
    by (auto split: sum.splits)
  show ?case
  proof (cases qs')
    case Nil
    then have "fs = []" using qs' by (cases fs) (auto split: sum.splits)
    then show ?thesis using qs q Nil by (simp add: quoted_word)
  next
    case (Cons q' qs'')
    then have "joinWith '' '' qs @ CHR '' '' # rest = q @ CHR '' '' # joinWith '' '' qs' @ CHR '' '' # rest" using qs by simp
    then show ?thesis using Cons.IH [OF qs'] q by (simp add: quoted_word option.map_comp comp_def)
  qed
qed

lemma withQuoted_two:
  "withQuoted [a, b] k = Inr x \<longleftrightarrow> (\<exists>qa qb. shellQuote a = Inr qa \<and> shellQuote b = Inr qb \<and> x = k [qa, qb])"
  by (auto simp: withQuoted_def split: sum.splits)

lemma quote_refused: "quoteFlags fs = Inl e \<Longrightarrow> \<exists>a \<in> set fs. CHR 0x00 \<in> set a \<or> CHR 0x0A \<in> set a"
  by (induction fs) (auto simp: shellQuote_def split: sum.splits if_splits)

text \<open>C24. Whatever the flags, the configuration file and the path contain, a rendered restore line is
  one shell command whose words are exactly \<open>litestream restore\<close>, the flags, \<open>-config\<close>, the file and the
  path: nothing in them is expanded, split or run. A line is refused only when an argument
  contains a zero byte or a line break.\<close>

theorem restore_command_exact:
  "case restoreLine fs configFile dbPath of
     Inl _ \<Rightarrow> list_ex (\<lambda>a. CHR 0x00 \<in> set a \<or> CHR 0x0A \<in> set a) (configFile # dbPath # fs)
   | Inr line \<Rightarrow> shWords False None line = Some ([''litestream'', ''restore''] @ fs @ [''-config'', configFile, dbPath])"
proof (cases "restoreLine fs configFile dbPath")
  case (Inl e)
  then have "\<exists>a \<in> set (configFile # dbPath # fs). CHR 0x00 \<in> set a \<or> CHR 0x0A \<in> set a"
    using quote_refused [of fs] by (cases "quoteFlags fs") (auto simp: restoreLine_def withQuoted_def shellQuote_def split: sum.splits if_splits)
  then show ?thesis using Inl by (auto simp: list_ex_iff)
next
  case (Inr line)
  then obtain qs qc qd where q: "quoteFlags fs = Inr qs" "shellQuote configFile = Inr qc" "shellQuote dbPath = Inr qd"
    and line: "line = ''litestream restore '' @ joinWith '' '' qs @ '' '' @ [backslash] @ newline @ ''  -config '' @ qc @ '' '' @ qd @ newline"
    by (auto simp: restoreLine_def withQuoted_two split: sum.splits)
  have "shWords False None (''  -config '' @ qc @ '' '' @ qd @ newline) = Some [''-config'', configFile, dbPath]"
    using q by (simp add: plainChar_def wordChar_def lowerAlnum_def extend_def quoted_word)
  then have "shWords False None ([backslash] @ newline @ ''  -config '' @ qc @ '' '' @ qd @ newline) = Some [''-config'', configFile, dbPath]" by simp
  then have "shWords False None (joinWith '' '' qs @ '' '' @ [backslash] @ newline @ ''  -config '' @ qc @ '' '' @ qd @ newline)
      = Some (fs @ [''-config'', configFile, dbPath])"
    using quoted_args [OF q(1), of "[backslash] @ newline @ ''  -config '' @ qc @ '' '' @ qd @ newline"] by simp
  then show ?thesis unfolding Inr line
    by (simp add: plainChar_def wordChar_def lowerAlnum_def extend_def)
qed

end
