(* ===== verification/Litestream_Resolve.thy ===== *)
theory Litestream_Resolve
  imports Litestream_Scripts
begin

text \<open>
  From a resource to what its containers receive: the resolver
  (\<^verbatim>\<open>internal/litestream/resolver/resolver.go\<close>) and the names of credentials. Reads of the cluster are
  functions that find an object, find none, or fail.
\<close>

subsection \<open>Resources of the cluster\<close>

datatype 'a get_result = Found 'a | NotFound | GetFailed string

record Condition =
  cn_Type :: string
  cn_Status :: string
  cn_Reason :: string
  cn_ObservedGeneration :: int
  cn_Message :: string

record LitestreamStatus =
  st_ObservedGeneration :: int
  st_ConfigMapName :: string
  st_ConfigHash :: string
  st_Conditions :: "Condition list"

record Litestream =
  li_Name :: string
  li_Namespace :: string
  li_UID :: string
  li_Generation :: int
  li_Deleting :: bool
  li_Spec :: LitestreamSpec
  li_Status :: LitestreamStatus

subsection \<open>The resolver\<close>

datatype resolve_cause =
    ResourceRequired
  | ReaderRequired string
  | InvalidSpec string "field_error list"
  | ReplicaNotFound string string string
  | ReplicaUnreadable string string string
  | InvalidReplica string string "field_error list"

datatype resolve_error = Permanent resolve_cause | Transient resolve_cause

fun IsPermanentError :: "resolve_error \<Rightarrow> bool" where
  "IsPermanentError (Permanent _) = True"
| "IsPermanentError (Transient _) = False"

type_synonym replica_reader = "string \<Rightarrow> string \<Rightarrow> ReplicaSpec get_result"

definition readReplica :: "api_env \<Rightarrow> replica_reader \<Rightarrow> string \<Rightarrow> string \<Rightarrow> string \<Rightarrow> resolve_error + ReplicaSpec" where
  "readReplica api reader namespace name field =
     (case reader namespace name of
        NotFound \<Rightarrow> Inl (Permanent (ReplicaNotFound field name namespace))
      | GetFailed e \<Rightarrow> Inl (Transient (ReplicaUnreadable field name e))
      | Found r \<Rightarrow>
          let errs = LitestreamReplicaSpec_Validate api r
          in if errs \<noteq> [] then Inl (Permanent (InvalidReplica field name errs)) else Inr r)"

definition resolvedRestore :: "ReplicaSpec \<Rightarrow> RestoreSpec \<Rightarrow> Restore" where
  "resolvedRestore replica policy =
     \<lparr>re_Replica = replica, re_IfDatabaseExists = rs_IfDatabaseExists policy, re_IfReplicaMissing = rs_IfReplicaMissing policy,
      re_IntegrityCheck = rs_IntegrityCheck policy, re_Timestamp = rs_Timestamp policy, re_TxID = rs_TxID policy\<rparr>"

definition resolvedReplicate :: "ReplicaSpec \<Rightarrow> ReplicateSpec \<Rightarrow> Replicate" where
  "resolvedReplicate replica spec = \<lparr>rt_Replica = replica, rt_SyncInterval = rc_SyncInterval spec, rt_AutoRecover = rc_AutoRecover spec\<rparr>"

definition bindingField :: "nat \<Rightarrow> string \<Rightarrow> string" where
  "bindingField i op = ''spec.databases['' @ decimal i @ ''].'' @ op @ ''.replicaRef''"

definition destinationReplica :: "api_env \<Rightarrow> replica_reader \<Rightarrow> string \<Rightarrow> DatabaseBinding \<Rightarrow> nat \<Rightarrow> resolve_error + ReplicaSpec" where
  "destinationReplica api reader namespace b i =
     (case db_Replicate b of
        None \<Rightarrow> Inl (Transient (ReplicaUnreadable (bindingField i ''replicate'') [] ''replicate is required''))
      | Some c \<Rightarrow> readReplica api reader namespace (rc_ReplicaRef c) (bindingField i ''replicate''))"

definition resolveBinding :: "api_env \<Rightarrow> replica_reader \<Rightarrow> string \<Rightarrow> nat \<Rightarrow> DatabaseBinding \<Rightarrow> resolve_error + Database" where
  "resolveBinding api reader namespace i b =
     (case (case db_Restore b of
              None \<Rightarrow> Inr None
            | Some r \<Rightarrow>
                (case readReplica api reader namespace (rs_ReplicaRef r) (bindingField i ''restore'') of
                   Inl e \<Rightarrow> Inl e
                 | Inr s \<Rightarrow> Inr (Some (resolvedRestore s r)))) of
        Inl e \<Rightarrow> Inl e
      | Inr restore \<Rightarrow>
          (case db_Replicate b of
             None \<Rightarrow>
               Inr \<lparr>rd_Name = db_Name b, rd_Path = db_Path b, rd_Clone = False, rd_ClonePolicy = db_ClonePolicy b, rd_Restore = restore,
                    rd_Replicate = None\<rparr>
           | Some c \<Rightarrow>
               (case destinationReplica api reader namespace b i of
                  Inl e \<Rightarrow> Inl e
                | Inr s \<Rightarrow>
                    Inr \<lparr>rd_Name = db_Name b, rd_Path = db_Path b,
                         rd_Clone = (case db_Restore b of None \<Rightarrow> False | Some r \<Rightarrow> rs_ReplicaRef r \<noteq> rc_ReplicaRef c),
                         rd_ClonePolicy = db_ClonePolicy b, rd_Restore = restore, rd_Replicate = Some (resolvedReplicate s c)\<rparr>)))"

fun resolveBindings :: "api_env \<Rightarrow> replica_reader \<Rightarrow> string \<Rightarrow> nat \<Rightarrow> DatabaseBinding list \<Rightarrow> resolve_error + Database list" where
  "resolveBindings api reader namespace i [] = Inr []"
| "resolveBindings api reader namespace i (b # bs) =
     (case resolveBinding api reader namespace i b of
        Inl e \<Rightarrow> Inl e
      | Inr d \<Rightarrow> (case resolveBindings api reader namespace (Suc i) bs of Inl e \<Rightarrow> Inl e | Inr ds \<Rightarrow> Inr (d # ds)))"

definition Resolve :: "api_env \<Rightarrow> replica_reader option \<Rightarrow> Litestream option \<Rightarrow> resolve_error + Input" where
  "Resolve api reader resource =
     (case resource of
        None \<Rightarrow> Inl (Transient ResourceRequired)
      | Some r \<Rightarrow>
          let errs = LitestreamSpec_Validate api (li_Spec r) in
          if errs \<noteq> [] then Inl (Permanent (InvalidSpec (li_Name r) errs))
          else
            (case reader of
               None \<Rightarrow> Inl (Transient (ReaderRequired (li_Name r)))
             | Some rd \<Rightarrow>
                 (case resolveBindings api rd (li_Namespace r) 0 (ls_Databases (li_Spec r)) of
                    Inl e \<Rightarrow> Inl e
                  | Inr ds \<Rightarrow> Inr \<lparr>in_Image = ls_Image (li_Spec r), in_Injection = ls_Injection (li_Spec r), in_Databases = ds\<rparr>)))"

subsection \<open>What is resolved\<close>

definition resolved_db :: "api_env \<Rightarrow> DatabaseBinding \<Rightarrow> Database \<Rightarrow> bool" where
  "resolved_db api b d \<longleftrightarrow> rd_Name d = db_Name b \<and> rd_Path d = db_Path b \<and> rd_ClonePolicy d = db_ClonePolicy b \<and> rd_Clone d = is_clone b
     \<and> (rd_Restore d = None \<longleftrightarrow> db_Restore b = None) \<and> (rd_Replicate d = None \<longleftrightarrow> db_Replicate b = None)
     \<and> pred_option (\<lambda>r. LitestreamReplicaSpec_Validate api (re_Replica r) = []) (rd_Restore d)
     \<and> pred_option (\<lambda>r. LitestreamReplicaSpec_Validate api (rt_Replica r) = []) (rd_Replicate d)"

lemma readReplica_valid: "readReplica api reader namespace name field = Inr r \<Longrightarrow> LitestreamReplicaSpec_Validate api r = []"
  by (auto simp: readReplica_def Let_def split: get_result.splits if_splits)

lemma resolveBinding_db: "resolveBinding api reader namespace i b = Inr d \<Longrightarrow> resolved_db api b d"
  by (auto simp: resolveBinding_def destinationReplica_def resolved_db_def is_clone_def resolvedRestore_def resolvedReplicate_def
      dest: readReplica_valid split: option.splits sum.splits)

lemma resolveBindings_dbs: "resolveBindings api reader namespace i bs = Inr ds \<Longrightarrow> list_all2 (resolved_db api) bs ds"
  by (induction bs arbitrary: i ds) (auto dest: resolveBinding_db split: sum.splits)

lemma Resolve_input:
  assumes "Resolve api reader resource = Inr inp"
  obtains r where "resource = Some r" "spec_wf api (li_Spec r)" "list_all2 (resolved_db api) (ls_Databases (li_Spec r)) (in_Databases inp)"
    "in_Image inp = ls_Image (li_Spec r)" "in_Injection inp = ls_Injection (li_Spec r)"
  using assms accepted_spec_wf
  by (auto simp: Resolve_def Let_def dest!: resolveBindings_dbs split: option.splits sum.splits if_splits)

lemma resolved_names:
  assumes "list_all2 (resolved_db api) bs ds"
  shows "map rd_Name ds = map db_Name bs"
  using assms by (induction rule: list_all2_induct) (simp_all add: resolved_db_def)

lemma resolved_distinct: "Resolve api reader resource = Inr inp \<Longrightarrow> distinct (map rd_Name (in_Databases inp))"
  by (erule Resolve_input) (simp add: spec_wf_def resolved_names)

end
