(* ===== verification/Litestream_Credentials.thy ===== *)
theory Litestream_Credentials
  imports Litestream_Resolve
begin

text \<open>
  The secrets of the rendered configuration: where each binding comes from, and that names of
  environment variables and paths of files tell databases, roles, backends and fields apart.
\<close>

subsection \<open>The secrets of a replica\<close>

datatype slot = EnvSlot string | FileSlot string | GoogleSlot

definition given :: "slot \<Rightarrow> SecretReference option \<Rightarrow> (slot \<times> SecretReference) list" where
  "given k ref = (case ref of None \<Rightarrow> [] | Some s \<Rightarrow> [(k, s)])"

fun rootSlots :: "nat \<Rightarrow> SecretReference list \<Rightarrow> (slot \<times> SecretReference) list" where
  "rootSlots i [] = []"
| "rootSlots i (s # ss) = (FileSlot (''root-ca-'' @ decimal i), s) # rootSlots (Suc i) ss"

fun backendSlots :: "backend \<Rightarrow> (slot \<times> SecretReference) list" where
  "backendSlots (S3 b) = given (EnvSlot ''ACCESS_KEY_ID'') (s3_AccessKeyID b) @ given (EnvSlot ''SECRET_ACCESS_KEY'') (s3_SecretAccessKey b)"
| "backendSlots (GCS b) = given GoogleSlot (ServiceAccountJSON b)"
| "backendSlots (Azure b) = given (EnvSlot ''ACCOUNT_KEY'') (az_AccountKey b)"
| "backendSlots (File b) = []"
| "backendSlots (NATS b) =
     given (EnvSlot ''USERNAME'') (na_Username b) @ given (EnvSlot ''PASSWORD'') (na_Password b) @ given (EnvSlot ''JWT'') (na_JWT b)
     @ given (EnvSlot ''SEED'') (na_Seed b) @ given (EnvSlot ''NKEY'') (na_NKey b) @ given (EnvSlot ''TOKEN'') (na_Token b)
     @ given (FileSlot ''creds'') (na_Creds b) @ given (FileSlot ''client-cert'') (na_ClientCert b) @ given (FileSlot ''client-key'') (na_ClientKey b)
     @ rootSlots 0 (na_RootCAs b)"
| "backendSlots (OSS b) = given (EnvSlot ''ACCESS_KEY_ID'') (oss_AccessKeyID b) @ given (EnvSlot ''ACCESS_KEY_SECRET'') (oss_AccessKeySecret b)"
| "backendSlots (SFTP b) = given (EnvSlot ''PASSWORD'') (sf_Password b) @ given (FileSlot ''private-key'') (sf_PrivateKey b)"
| "backendSlots (WebDAV b) = given (EnvSlot ''USERNAME'') (wd_Username b) @ given (EnvSlot ''PASSWORD'') (wd_Password b)"

text \<open>The binding of a slot for a database, a role, a backend and a container.\<close>

fun slotEnv :: "string \<Rightarrow> string \<Rightarrow> string \<Rightarrow> slot \<Rightarrow> string" where
  "slotEnv n role be (EnvSlot f) = envName n role be f"
| "slotEnv n role be (FileSlot f) = []"
| "slotEnv n role be GoogleSlot = ''GOOGLE_APPLICATION_CREDENTIALS''"

fun slotPath :: "string \<Rightarrow> string \<Rightarrow> string \<Rightarrow> slot \<Rightarrow> string" where
  "slotPath n role be (EnvSlot f) = []"
| "slotPath n role be (FileSlot f) = fileMountPath n role be f"
| "slotPath n role be GoogleSlot = fileMountPath n role be ''service-account.json''"

definition bindingOf :: "string \<Rightarrow> string \<Rightarrow> string \<Rightarrow> string \<Rightarrow> slot \<times> SecretReference \<Rightarrow> CredentialBinding" where
  "bindingOf n role be purpose x =
     \<lparr>ContainerPurpose = purpose, EnvName = slotEnv n role be (fst x), cd_SecretKeyRef = SecretKeyRef (snd x), FileMountPath = slotPath n role be (fst x)\<rparr>"

definition with_slots :: "credentialBuilder \<Rightarrow> (slot \<times> SecretReference) list \<Rightarrow> credentialBuilder" where
  "with_slots b xs = b\<lparr>cb_bindings := cb_bindings b @ map (bindingOf (cb_databaseName b) (cb_role b) (cb_backend b) (cb_purpose b)) xs\<rparr>"

lemma with_slots_twice [simp]: "with_slots (with_slots b xs) ys = with_slots b (xs @ ys)" "with_slots b [] = b"
  by (simp_all add: with_slots_def)

lemma snd_cb:
  "snd (cb_env f ref b) = with_slots b (given (EnvSlot f) ref)"
  "snd (cb_file f ref b) = with_slots b (given (FileSlot f) ref)"
  "snd (cb_fileWithEnv ''GOOGLE_APPLICATION_CREDENTIALS'' ''service-account.json'' ref b) = with_slots b (given GoogleSlot ref)"
  by (simp_all add: cb_env_def cb_file_def cb_fileWithEnv_def given_def with_slots_def bindingOf_def Let_def split: option.split)

lemma snd_fileList: "snd (cb_fileList ''root-ca'' i ss b) = with_slots b (rootSlots i ss)"
proof (induction ss arbitrary: i b)
  case (Cons s ss)
  show ?case using Cons [of "Suc i" "snd (cb_file (''root-ca'' @ ''-'' @ decimal i) (Some s) b)"]
    by (simp add: snd_cb given_def case_prod_unfold)
qed simp

lemma render_slots: "snd (renderReplica env (of_backend x) b) = with_slots b (backendSlots x)"
  by (cases x) (simp_all add: renderReplica_def no_backend_def renderS3_def renderGCS_def renderAzure_def renderNATS_def renderOSS_def renderSFTP_def
      renderWebDAV_def case_prod_unfold snd_cb snd_fileList)

subsection \<open>Names tell slots apart\<close>

text \<open>What the name checks of the Kubernetes library guarantee of the names they accept.\<close>

definition dns_names :: "api_env \<Rightarrow> bool" where
  "dns_names api \<longleftrightarrow> (\<forall>s. isDNS1123Label api s = [] \<longrightarrow> list_all (\<lambda>c. lowerAlnum c \<or> c = CHR ''-'') s)
     \<and> (\<forall>s. isDNS1123Subdomain api s = [] \<longrightarrow> list_all (\<lambda>c. lowerAlnum c \<or> c \<in> set ''-.'') s)"

definition dnsChar :: "char \<Rightarrow> bool" where
  "dnsChar c \<longleftrightarrow> lowerAlnum c \<or> c = CHR ''-''"

definition dnsChars :: string where
  "dnsChars = ''abcdefghijklmnopqrstuvwxyz0123456789-''"

lemma dnsChar_set: "dnsChar c \<longleftrightarrow> c \<in> set dnsChars"
  by (auto simp: dnsChar_def lowerAlnum_def dnsChars_def)

definition upperChar :: "char \<Rightarrow> char" where
  "upperChar c = sanitizeRune [c]"

lemma dns_ascii: "list_all (\<lambda>c. (of_char c :: nat) < 128) dnsChars"
  by (simp add: dnsChars_def)

text \<open>The upper case of these characters, letter by letter.\<close>

definition upperTable :: "(char \<times> char) list" where
  "upperTable = zip dnsChars ''ABCDEFGHIJKLMNOPQRSTUVWXYZ0123456789_''"

lemma upper_table: "list_all (\<lambda>(c, u). upperChar c = u) upperTable"
  by (simp add: upperTable_def dnsChars_def upperChar_def sanitizeRune_def asciiUpper_def char_of_def bit_0)

lemma lower_table: "list_all (\<lambda>(c, u). (of_char u :: nat) < 128 \<and> toLower [u] = [if c = CHR ''-'' then CHR ''_'' else c]) upperTable"
  by (simp add: upperTable_def dnsChars_def char_of_def bit_0)


lemma upper_row: "dnsChar c \<Longrightarrow> (c, upperChar c) \<in> set upperTable"
proof -
  assume "dnsChar c"
  then have "c \<in> fst ` set upperTable" by (simp add: dnsChar_set upperTable_def dnsChars_def)
  then obtain u where "(c, u) \<in> set upperTable" by auto
  moreover then have "upperChar c = u" using upper_table by (auto simp: list_all_iff)
  ultimately show ?thesis by simp
qed

lemma dnsD: "dnsChar c \<Longrightarrow> (of_char c :: nat) < 128 \<and> (of_char (upperChar c) :: nat) < 128
    \<and> toLower [upperChar c] = [if c = CHR ''-'' then CHR ''_'' else c]"
  using dns_ascii lower_table upper_row [of c] by (auto simp: dnsChar_set list_all_iff)

lemma sanitize_dns: "list_all dnsChar s \<Longrightarrow> sanitizeIdentifier s = map upperChar s"
proof (induction s)
  case (Cons c s)
  have "runeLen (c # s) = 1" using dnsD [of c] Cons.prems by (simp add: runeLen_def Let_def)
  then show ?case using Cons by (subst sanitizeIdentifier.simps) (simp add: upperChar_def)
qed (simp add: sanitizeIdentifier.simps)

lemma toLower_ascii: "list_all (\<lambda>c. (of_char c :: nat) < 128) s \<Longrightarrow> toLower s = concat (map (\<lambda>c. toLower [c]) s)"
proof (induction s rule: toLower.induct)
  case (1 a b c cs)
  have "of_char a < (128 :: nat)" using 1 by simp
  then have "a \<noteq> CHR 0xE2" "a \<noteq> CHR 0xC4" by auto
  then show ?case using 1 by auto
next
  case (2 a b)
  have "of_char a < (128 :: nat)" using 2 by simp
  then have "a \<noteq> CHR 0xC4" by auto
  then show ?case by auto
qed auto

definition under :: "string \<Rightarrow> string" where
  "under s = map (\<lambda>c. if c = CHR ''-'' then CHR ''_'' else c) s"

lemma lower_sanitized: "list_all dnsChar s \<Longrightarrow> toLower (sanitizeIdentifier s) = under s"
proof -
  assume dns: "list_all dnsChar s"
  have "list_all (\<lambda>c. (of_char c :: nat) < 128) (map upperChar s)" using dns dnsD by (auto simp: list_all_iff)
  then have "toLower (map upperChar s) = concat (map (\<lambda>c. toLower [c]) (map upperChar s))" by (rule toLower_ascii)
  also have "\<dots> = under s" using dns by (induction s) (auto simp: under_def dnsD simp del: toLower.simps)
  finally show ?thesis using dns by (simp add: sanitize_dns)
qed

lemma under_inj: "list_all dnsChar s \<Longrightarrow> list_all dnsChar t \<Longrightarrow> under s = under t \<Longrightarrow> s = t"
proof (induction s arbitrary: t)
  case (Cons c s)
  then obtain d t' where t: "t = d # t'" by (cases t) (auto simp: under_def)
  have "\<not> dnsChar (CHR ''_'')" by (simp add: dnsChar_def lowerAlnum_def)
  then show ?case using Cons t by (auto simp: under_def split: if_splits)
qed (auto simp: under_def)

lemma sanitize_inj: "list_all dnsChar s \<Longrightarrow> list_all dnsChar t \<Longrightarrow> sanitizeIdentifier s = sanitizeIdentifier t \<Longrightarrow> s = t"
  using lower_sanitized [of s] lower_sanitized [of t] under_inj by simp

definition envPairs :: "(string \<times> string) list" where
  "envPairs = [(''S3'', ''ACCESS_KEY_ID''), (''S3'', ''SECRET_ACCESS_KEY''), (''AZURE'', ''ACCOUNT_KEY''), (''NATS'', ''USERNAME''), (''NATS'', ''PASSWORD''),
     (''NATS'', ''JWT''), (''NATS'', ''SEED''), (''NATS'', ''NKEY''), (''NATS'', ''TOKEN''), (''OSS'', ''ACCESS_KEY_ID''), (''OSS'', ''ACCESS_KEY_SECRET''),
     (''SFTP'', ''PASSWORD''), (''WEBDAV'', ''USERNAME''), (''WEBDAV'', ''PASSWORD'')]"

definition envTriples :: "(string \<times> string \<times> string) list" where
  "envTriples = List.product [''SRC'', ''DEST''] envPairs"

definition envTail :: "string \<times> string \<times> string \<Rightarrow> string" where
  "envTail x = (case x of (role, be, f) \<Rightarrow> ''_'' @ role @ ''_'' @ be @ ''_'' @ f)"

definition suffixOf :: "string \<Rightarrow> string \<Rightarrow> bool" where
  "suffixOf s t \<longleftrightarrow> take (length s) (rev t) = rev s"

lemma tails_apart: "list_all (\<lambda>x. list_all (\<lambda>y. suffixOf (envTail x) (envTail y) \<longrightarrow> x = y) envTriples) envTriples"
  by code_simp


lemma append_suffix: "a @ s = b @ t \<Longrightarrow> suffixOf s t \<or> suffixOf t s"
proof -
  assume "a @ s = b @ t"
  then have eq: "rev s @ rev a = rev t @ rev b" by (metis rev_append)
  show ?thesis
  proof (cases "length s \<le> length t")
    case True
    then show ?thesis using arg_cong [OF eq, of "take (length s)"] by (simp add: suffixOf_def)
  next
    case False
    then show ?thesis using arg_cong [OF eq, of "take (length t)"] by (simp add: suffixOf_def)
  qed
qed

lemma envName_tail: "envName n role be f = ''LS_'' @ sanitizeIdentifier n @ envTail (role, be, f)"
  by (simp add: envName_def envTail_def)

lemma envName_inj:
  assumes "list_all dnsChar n" "list_all dnsChar n'" "x \<in> set envTriples" "y \<in> set envTriples"
    and eq: "''LS_'' @ sanitizeIdentifier n @ envTail x = ''LS_'' @ sanitizeIdentifier n' @ envTail y"
  shows "n = n' \<and> x = y"
proof -
  have tails: "sanitizeIdentifier n @ envTail x = sanitizeIdentifier n' @ envTail y" using eq by simp
  have apart: "a = b" if "suffixOf (envTail a) (envTail b)" "a \<in> set envTriples" "b \<in> set envTriples" for a b
    using tails_apart that unfolding list_all_iff by blast
  have "x = y" using append_suffix [OF tails] apart [of x y] apart [of y x] assms(3,4) by blast
  then show ?thesis using tails sanitize_inj assms(1,2) by simp
qed

lemma lower_names: "toLower ''SRC'' = ''src''" "toLower ''DEST'' = ''dest''" "toLower ''GCS'' = ''gcs''" "toLower ''NATS'' = ''nats''"
  "toLower ''SFTP'' = ''sftp''"
  by code_simp+

lemma lower_inj:
  "role \<in> {''SRC'', ''DEST''} \<Longrightarrow> role' \<in> {''SRC'', ''DEST''} \<Longrightarrow> toLower role = toLower role' \<Longrightarrow> role = role'"
  "be \<in> {''GCS'', ''NATS'', ''SFTP''} \<Longrightarrow> be' \<in> {''GCS'', ''NATS'', ''SFTP''} \<Longrightarrow> toLower be = toLower be' \<Longrightarrow> be = be'"
  by (elim insertE emptyE, simp_all add: lower_names del: toLower.simps) (elim insertE emptyE disjE, simp_all add: lower_names del: toLower.simps)

lemma fileMountPath_inj:
  assumes "list_all dnsChar n" "list_all dnsChar n'" "role \<in> {''SRC'', ''DEST''}" "role' \<in> {''SRC'', ''DEST''}"
    "be \<in> {''GCS'', ''NATS'', ''SFTP''}" "be' \<in> {''GCS'', ''NATS'', ''SFTP''}" and eq: "fileMountPath n role be f = fileMountPath n' role' be' f'"
  shows "n = n' \<and> role = role' \<and> be = be' \<and> f = f'"
proof -
  have no_dash: "CHR ''-'' \<notin> set (under s)" for s by (auto simp: under_def)
  have split: "a = b \<and> x = y" if "a @ c # x = b @ c # y" "c \<notin> set a" "c \<notin> set b" for a b x y :: string and c
    using cutChar_append [OF that(2), of x] cutChar_append [OF that(3), of y] that(1) by (metis Pair_inject option.inject)
  have roles: "CHR ''/'' \<notin> set (toLower role)" "CHR ''/'' \<notin> set (toLower role')" using assms(3,4) by (auto simp: lower_names simp del: toLower.simps)
  have backends: "CHR ''-'' \<notin> set (toLower be)" "CHR ''-'' \<notin> set (toLower be')" using assms(5,6) by (auto simp: lower_names simp del: toLower.simps)
  have "under n @ CHR ''-'' # (toLower role @ CHR ''/'' # (toLower be @ CHR ''-'' # f))
      = under n' @ CHR ''-'' # (toLower role' @ CHR ''/'' # (toLower be' @ CHR ''-'' # f'))"
    using eq assms(1,2) by (simp add: fileMountPath_def lower_sanitized)
  from split [OF this no_dash no_dash] have names: "under n = under n'"
    and rest: "toLower role @ CHR ''/'' # (toLower be @ CHR ''-'' # f) = toLower role' @ CHR ''/'' # (toLower be' @ CHR ''-'' # f')" by blast+
  from split [OF rest roles] have "toLower role = toLower role'" and rest: "toLower be @ CHR ''-'' # f = toLower be' @ CHR ''-'' # f'" by blast+
  moreover from split [OF rest backends] have "toLower be = toLower be'" "f = f'" by blast+
  ultimately show ?thesis using under_inj [OF assms(1,2) names] lower_inj(1) [OF assms(3,4)] lower_inj(2) [OF assms(5,6)] by blast
qed

lemma google_not_ls: "envName n role be f \<noteq> ''GOOGLE_APPLICATION_CREDENTIALS''" "envName n role be f \<noteq> []"
  by (simp_all add: envName_tail)

lemma fileMountPath_nonempty: "fileMountPath n role be f \<noteq> []"
  by (simp add: fileMountPath_def SecretMountDir_def)

subsection \<open>Slots of a backend\<close>

definition typeOf :: "backend \<Rightarrow> string" where
  "typeOf x = backendName (rp_Type (of_backend x))"

lemma typeOf_simps [simp]: "typeOf (S3 a) = ''S3''" "typeOf (GCS b) = ''GCS''" "typeOf (Azure c) = ''AZURE''" "typeOf (File d) = ''FILE''"
  "typeOf (NATS e) = ''NATS''" "typeOf (OSS f) = ''OSS''" "typeOf (SFTP g) = ''SFTP''" "typeOf (WebDAV h) = ''WEBDAV''"
  by (simp_all add: typeOf_def no_backend_def backendName_def) (code_simp+)

lemma set_given [simp]: "set (given k r) = {(k', s). k' = k \<and> r = Some s}"
  by (auto simp: given_def split: option.split)

lemma rootSlots_file: "x \<in> set (rootSlots i ss) \<Longrightarrow> \<exists>j \<ge> i. fst x = FileSlot (''root-ca-'' @ decimal j)"
  by (induction i ss rule: rootSlots.induct) (auto, metis Suc_leD)

lemma env_pair: "(EnvSlot f, s) \<in> set (backendSlots x) \<Longrightarrow> (typeOf x, f) \<in> set envPairs"
  by (cases x) (auto simp: envPairs_def dest: rootSlots_file)

lemma env_slot: "(EnvSlot f, s) \<in> set (backendSlots x) \<Longrightarrow> role \<in> {''SRC'', ''DEST''} \<Longrightarrow> (role, typeOf x, f) \<in> set envTriples"
  using env_pair [of f s x] unfolding envTriples_def set_product by simp

lemma file_slot: "(k, s) \<in> set (backendSlots x) \<Longrightarrow> k = FileSlot f \<or> k = GoogleSlot \<Longrightarrow> typeOf x \<in> {''GCS'', ''NATS'', ''SFTP''}"
  by (cases x) (auto dest: rootSlots_file)

lemma google_slot: "(GoogleSlot, s) \<in> set (backendSlots x) \<Longrightarrow> \<exists>g. x = GCS g \<and> ServiceAccountJSON g = Some s"
  by (cases x) (auto dest: rootSlots_file)

lemma rootSlots_functional: "(FileSlot f, s) \<in> set (rootSlots i ss) \<Longrightarrow> (FileSlot f, s') \<in> set (rootSlots i ss) \<Longrightarrow> s = s'"
proof (induction i ss rule: rootSlots.induct)
  case (2 i r ss)
  have "f \<noteq> ''root-ca-'' @ decimal i" if "(FileSlot f, x) \<in> set (rootSlots (Suc i) ss)" for x
    using rootSlots_file [OF that] decimal_inj by fastforce
  then show ?case using 2 by auto
qed simp

lemma rootSlots_name: "(FileSlot f, s) \<in> set (rootSlots i ss) \<Longrightarrow> f \<notin> {''creds'', ''client-cert'', ''client-key''}"
  using rootSlots_file by fastforce

lemma slots_functional: "(k, s) \<in> set (backendSlots x) \<Longrightarrow> (k, s') \<in> set (backendSlots x) \<Longrightarrow> s = s'"
proof (cases x)
  case (NATS b)
  assume slots: "(k, s) \<in> set (backendSlots x)" "(k, s') \<in> set (backendSlots x)"
  show ?thesis
  proof (cases k)
    case (FileSlot f)
    have fixed: "(k, y) \<in> set (rootSlots 0 (na_RootCAs b)) \<Longrightarrow> f \<notin> {''creds'', ''client-cert'', ''client-key''}" for y
      using rootSlots_name FileSlot by blast
    show ?thesis
    proof (cases "f \<in> {''creds'', ''client-cert'', ''client-key''}")
      case True
      then show ?thesis using slots NATS FileSlot fixed by auto
    next
      case False
      then have "(k, s) \<in> set (rootSlots 0 (na_RootCAs b))" "(k, s') \<in> set (rootSlots 0 (na_RootCAs b))" using slots NATS FileSlot by auto
      then show ?thesis using rootSlots_functional FileSlot by blast
    qed
  qed (use slots NATS in \<open>auto dest: rootSlots_file\<close>)
qed auto


subsection \<open>Where a binding comes from\<close>

definition from_slots :: "Database \<Rightarrow> string \<Rightarrow> string \<Rightarrow> backend \<Rightarrow> CredentialBinding \<Rightarrow> bool" where
  "from_slots d role purpose x c \<longleftrightarrow> c \<in> bindingOf (rd_Name d) role (typeOf x) purpose ` set (backendSlots x)"

text \<open>The container that restores a database receives the secrets of its source, and those of its
  destination when it restores from there or clones; the replicating container receives those of
  the destinations.\<close>

definition from_source :: "Database \<Rightarrow> backend \<Rightarrow> CredentialBinding \<Rightarrow> bool" where
  "from_source d x c \<longleftrightarrow> (\<exists>r. rd_Restore d = Some r \<and> re_Replica r = of_backend x) \<and> from_slots d ''SRC'' (RestoreContainerPurpose (rd_Name d)) x c"

definition from_destination :: "Database \<Rightarrow> backend \<Rightarrow> CredentialBinding \<Rightarrow> bool" where
  "from_destination d x c \<longleftrightarrow> (\<exists>r. rd_Replicate d = Some r \<and> rt_Replica r = of_backend x)
     \<and> (from_slots d ''DEST'' ReplicateContainerPurpose x c
        \<or> (rd_Clone d \<or> rd_Restore d = None) \<and> from_slots d ''DEST'' (RestoreContainerPurpose (rd_Name d)) x c)"

definition delivered :: "Database \<Rightarrow> CredentialBinding \<Rightarrow> bool" where
  "delivered d c \<longleftrightarrow> (\<exists>x. from_source d x c \<or> from_destination d x c)"

definition has_backends :: "Database \<Rightarrow> bool" where
  "has_backends d \<longleftrightarrow> pred_option (\<lambda>r. \<exists>x. re_Replica r = of_backend x) (rd_Restore d) \<and> pred_option (\<lambda>r. \<exists>x. rt_Replica r = of_backend x) (rd_Replicate d)"

lemma builder_bindings:
  "cb_bindings (snd (renderReplica env (of_backend x) (newCredentialBuilder n role (backendName (rp_Type (of_backend x))) purpose)))
     = map (bindingOf n role (typeOf x) purpose) (backendSlots x)"
  by (simp add: render_slots with_slots_def newCredentialBuilder_def typeOf_def)

lemma rebind_bindings:
  "rebind purpose' (snd (renderReplica env (of_backend x) (newCredentialBuilder n role (backendName (rp_Type (of_backend x))) purpose)))
     = map (bindingOf n role (typeOf x) purpose') (backendSlots x)"
  by (simp add: rebind_def builder_bindings bindingOf_def)

lemma destination_bindings:
  assumes "rd_Replicate d = Some r" "rt_Replica r = of_backend x"
  shows "cb_bindings (snd (renderDestination env d)) = map (bindingOf (rd_Name d) ''DEST'' (typeOf x) ReplicateContainerPurpose) (backendSlots x)"
    "rebind purpose (snd (renderDestination env d)) = map (bindingOf (rd_Name d) ''DEST'' (typeOf x) purpose) (backendSlots x)"
  using assms by (simp_all add: renderDestination_def case_prod_unfold builder_bindings rebind_bindings)

lemma restoreOnly_creds:
  assumes "renderRestoreOnly env d perms data = Inr (cs, data')" "has_backends d" "rd_Restore d \<noteq> None" "c \<in> set cs"
  shows "delivered d c"
proof -
  obtain r x where r: "rd_Restore d = Some r" "re_Replica r = of_backend x" using assms(2,3) by (auto simp: has_backends_def)
  then have "cs = map (bindingOf (rd_Name d) ''SRC'' (typeOf x) (RestoreContainerPurpose (rd_Name d))) (backendSlots x)"
    using assms(1) by (auto simp: renderRestoreOnly_def case_prod_unfold builder_bindings Let_def split: sum.splits)
  then show ?thesis using r assms(4) by (auto simp: delivered_def from_source_def from_slots_def)
qed

lemma replicate_creds:
  assumes "renderReplicate env d perms data = Inr (cs, entry, data')" "has_backends d" "rd_Replicate d \<noteq> None" "c \<in> set cs"
  shows "delivered d c"
proof -
  obtain r x where r: "rd_Replicate d = Some r" "rt_Replica r = of_backend x" using assms(2,3) by (auto simp: has_backends_def)
  show ?thesis
  proof (cases "rd_Restore d")
    case None
    then have "cs = cb_bindings (snd (renderDestination env d)) @ rebind (RestoreContainerPurpose (rd_Name d)) (snd (renderDestination env d))"
      using assms(1) by (auto simp: renderReplicate_def case_prod_unfold Let_def split: sum.splits)
    then show ?thesis using r assms(4) None
      by (auto simp: destination_bindings delivered_def from_destination_def from_slots_def)
  next
    case (Some s)
    then obtain y where y: "re_Replica s = of_backend y" using assms(2) by (auto simp: has_backends_def)
    have "cs = cb_bindings (snd (renderDestination env d))
        @ map (bindingOf (rd_Name d) ''SRC'' (typeOf y) (RestoreContainerPurpose (rd_Name d))) (backendSlots y)"
      using assms(1) Some y by (auto simp: renderReplicate_def case_prod_unfold Let_def builder_bindings split: sum.splits)
    then show ?thesis using r y assms(4) Some
      by (auto simp: destination_bindings delivered_def from_source_def from_destination_def from_slots_def)
  qed
qed

lemma clone_creds:
  assumes "renderClone env d perms data = Inr (cs, entry, data')" "has_backends d" "rd_Clone d" "rd_Restore d \<noteq> None" "rd_Replicate d \<noteq> None" "c \<in> set cs"
  shows "delivered d c"
proof -
  obtain r x where r: "rd_Replicate d = Some r" "rt_Replica r = of_backend x" using assms(2,5) by (auto simp: has_backends_def)
  obtain s y where s: "rd_Restore d = Some s" "re_Replica s = of_backend y" using assms(2,4) by (auto simp: has_backends_def)
  have "cs = cb_bindings (snd (renderDestination env d)) @ rebind (RestoreContainerPurpose (rd_Name d)) (snd (renderDestination env d))
      @ map (bindingOf (rd_Name d) ''SRC'' (typeOf y) (RestoreContainerPurpose (rd_Name d))) (backendSlots y)"
    using assms(1) s by (auto simp: renderClone_def case_prod_unfold Let_def builder_bindings split: sum.splits)
  then show ?thesis using r s assms(3,6)
    by (auto simp: destination_bindings delivered_def from_source_def from_destination_def from_slots_def)
qed

lemma databases_creds:
  assumes "renderDatabases env perms ds data creds entries = Inr (data', creds', entries')"
    and "list_all (\<lambda>d. has_backends d \<and> (rd_Clone d \<longrightarrow> rd_Restore d \<noteq> None \<and> rd_Replicate d \<noteq> None)) ds" "c \<in> set creds'"
  shows "c \<in> set creds \<or> (\<exists>d \<in> set ds. delivered d c)"
  using assms
proof (induction ds arbitrary: data creds entries)
  case (Cons d ds)
  have d: "has_backends d" "rd_Clone d \<Longrightarrow> rd_Restore d \<noteq> None \<and> rd_Replicate d \<noteq> None" using Cons.prems(2) by simp_all
  have later: "c \<in> set creds \<or> (\<exists>d \<in> set (d # ds). delivered d c)"
    if "renderDatabases env perms ds data1 (creds @ cs) entries1 = Inr (data', creds', entries')" "\<And>c. c \<in> set cs \<Longrightarrow> delivered d c" for data1 cs entries1
    using Cons.IH [OF that(1)] Cons.prems(2,3) that(2) by auto
  show ?case
  proof (cases "rd_Restore d \<noteq> None \<and> rd_Replicate d = None")
    case True
    then show ?thesis using Cons.prems(1) later d restoreOnly_creds [of env d perms data] by (auto split: sum.splits)
  next
    case False
    show ?thesis
    proof (cases "\<not> rd_Clone d \<and> rd_Replicate d \<noteq> None")
      case True
      then show ?thesis using Cons.prems(1) False later d replicate_creds [of env d perms data] by (auto split: sum.splits)
    next
      case other: False
      then show ?thesis using Cons.prems(1) False later d clone_creds [of env d perms data] by (auto split: sum.splits if_splits)
    qed
  qed
qed simp


subsection \<open>Google's credentials\<close>

definition google_id :: "Database \<Rightarrow> string" where
  "google_id d = gcsCredentialIdentity (rp_GCS (rt_Replica (the (rd_Replicate d))))"

lemma gcs_validated:
  assumes "validateGCSCredentials first ds = None"
  shows "d \<in> set ds \<Longrightarrow> rd_Clone d \<Longrightarrow> isGCSRestore (rd_Restore d) \<Longrightarrow> isGCSReplica (rd_Replicate d) \<Longrightarrow>
      gcsCredentialIdentity (rp_GCS (re_Replica (the (rd_Restore d)))) = google_id d"
    and "d \<in> set ds \<Longrightarrow> isGCSReplica (rd_Replicate d) \<Longrightarrow> first = Some i \<Longrightarrow> google_id d = i"
    and "d \<in> set ds \<Longrightarrow> d' \<in> set ds \<Longrightarrow> isGCSReplica (rd_Replicate d) \<Longrightarrow> isGCSReplica (rd_Replicate d') \<Longrightarrow> google_id d = google_id d'"
proof -
  have all: "list_all (\<lambda>d. rd_Clone d \<and> isGCSRestore (rd_Restore d) \<and> isGCSReplica (rd_Replicate d) \<longrightarrow>
        gcsCredentialIdentity (rp_GCS (re_Replica (the (rd_Restore d)))) = google_id d) ds
      \<and> (\<exists>i. (first = None \<or> first = Some i) \<and> list_all (\<lambda>d. isGCSReplica (rd_Replicate d) \<longrightarrow> google_id d = i) ds)"
    using assms
  proof (induction first ds rule: validateGCSCredentials.induct)
    case (2 first d ds)
    then show ?case by (auto simp: google_id_def Let_def split: if_splits option.splits)
  qed auto
  then obtain i where i: "first = None \<or> first = Some i" "list_all (\<lambda>d. isGCSReplica (rd_Replicate d) \<longrightarrow> google_id d = i) ds" by blast
  show "d \<in> set ds \<Longrightarrow> rd_Clone d \<Longrightarrow> isGCSRestore (rd_Restore d) \<Longrightarrow> isGCSReplica (rd_Replicate d) \<Longrightarrow>
      gcsCredentialIdentity (rp_GCS (re_Replica (the (rd_Restore d)))) = google_id d"
    using all by (auto simp: list_all_iff)
  show "d \<in> set ds \<Longrightarrow> isGCSReplica (rd_Replicate d) \<Longrightarrow> first = Some i' \<Longrightarrow> google_id d = i'" for i'
    using i by (auto simp: list_all_iff)
  show "d \<in> set ds \<Longrightarrow> d' \<in> set ds \<Longrightarrow> isGCSReplica (rd_Replicate d) \<Longrightarrow> isGCSReplica (rd_Replicate d') \<Longrightarrow> google_id d = google_id d'"
    using i(2) by (auto simp: list_all_iff)
qed

text \<open>Two bindings name the same secret.\<close>

definition same_secret :: "CredentialBinding \<Rightarrow> CredentialBinding \<Rightarrow> bool" where
  "same_secret c c' \<longleftrightarrow> sk_Name (cd_SecretKeyRef c) = sk_Name (cd_SecretKeyRef c') \<and> sk_Key (cd_SecretKeyRef c) = sk_Key (cd_SecretKeyRef c')"

definition no_zero :: "SecretReference \<Rightarrow> bool" where
  "no_zero s \<longleftrightarrow> CHR 0x00 \<notin> set (sk_Name (SecretKeyRef s))"

lemma google_same:
  assumes "gcsCredentialIdentity (Some g) = gcsCredentialIdentity (Some g')" "ServiceAccountJSON g = Some s" "ServiceAccountJSON g' = Some s'" "no_zero s" "no_zero s'"
  shows "sk_Name (SecretKeyRef s) = sk_Name (SecretKeyRef s') \<and> sk_Key (SecretKeyRef s) = sk_Key (SecretKeyRef s')"
proof -
  let ?n = "sk_Name (SecretKeyRef s)" and ?n' = "sk_Name (SecretKeyRef s')" and ?k = "sk_Key (SecretKeyRef s)" and ?k' = "sk_Key (SecretKeyRef s')"
  have "?n @ CHR 0x00 # ?k = ?n' @ CHR 0x00 # ?k'" using assms by (simp add: gcsCredentialIdentity_def)
  then have "Some (?n, ?k) = Some (?n', ?k')"
    using cutChar_append [of "CHR 0x00" ?n ?k] cutChar_append [of "CHR 0x00" ?n' ?k'] assms(4,5) by (metis no_zero_def)
  then show ?thesis by simp
qed

definition zero_free :: "ReplicaSpec \<Rightarrow> bool" where
  "zero_free r \<longleftrightarrow> (\<forall>x. r = of_backend x \<longrightarrow> list_all (\<lambda>(k, s). no_zero s) (backendSlots x))"

text \<open>What makes the databases of an input tell apart.\<close>

definition sound_dbs :: "Database list \<Rightarrow> bool" where
  "sound_dbs ds \<longleftrightarrow> distinct (map rd_Name ds) \<and> validateGCSCredentials None ds = None
     \<and> list_all (\<lambda>d. list_all dnsChar (rd_Name d) \<and> has_backends d \<and> (rd_Clone d \<longrightarrow> rd_Restore d \<noteq> None \<and> rd_Replicate d \<noteq> None)
         \<and> pred_option (\<lambda>r. zero_free (re_Replica r)) (rd_Restore d) \<and> pred_option (\<lambda>r. zero_free (rt_Replica r)) (rd_Replicate d)) ds"

text \<open>A binding with its role, backend and slot.\<close>

definition placed :: "Database \<Rightarrow> string \<Rightarrow> backend \<Rightarrow> slot \<Rightarrow> SecretReference \<Rightarrow> CredentialBinding \<Rightarrow> bool" where
  "placed d role x k s c \<longleftrightarrow> (k, s) \<in> set (backendSlots x) \<and> c = bindingOf (rd_Name d) role (typeOf x) (ContainerPurpose c) (k, s)
     \<and> (role = ''SRC'' \<and> (\<exists>r. rd_Restore d = Some r \<and> re_Replica r = of_backend x) \<and> ContainerPurpose c = RestoreContainerPurpose (rd_Name d)
        \<or> role = ''DEST'' \<and> (\<exists>r. rd_Replicate d = Some r \<and> rt_Replica r = of_backend x)
          \<and> (ContainerPurpose c = ReplicateContainerPurpose
             \<or> (rd_Clone d \<or> rd_Restore d = None) \<and> ContainerPurpose c = RestoreContainerPurpose (rd_Name d)))"

lemma purpose_bindingOf [simp]: "ContainerPurpose (bindingOf n role be purpose y) = purpose"
  by (simp add: bindingOf_def)

lemma delivered_placed:
  assumes "delivered d c"
  shows "\<exists>role x k s. placed d role x k s c"
proof -
  obtain x where "from_source d x c \<or> from_destination d x c" using assms by (auto simp: delivered_def)
  then show ?thesis
  proof
    assume src: "from_source d x c"
    then obtain k s where "(k, s) \<in> set (backendSlots x)" "c = bindingOf (rd_Name d) ''SRC'' (typeOf x) (RestoreContainerPurpose (rd_Name d)) (k, s)"
      by (auto simp: from_source_def from_slots_def)
    then have "placed d ''SRC'' x k s c" using src by (auto simp: placed_def from_source_def)
    then show ?thesis by blast
  next
    assume dest: "from_destination d x c"
    then obtain k s purpose where slot: "(k, s) \<in> set (backendSlots x)" "c = bindingOf (rd_Name d) ''DEST'' (typeOf x) purpose (k, s)"
      and purpose: "purpose = ReplicateContainerPurpose \<or> (rd_Clone d \<or> rd_Restore d = None) \<and> purpose = RestoreContainerPurpose (rd_Name d)"
      by (auto simp: from_destination_def from_slots_def)
    then have "placed d ''DEST'' x k s c" using dest by (auto simp: placed_def from_destination_def)
    then show ?thesis by blast
  qed
qed

lemma of_backend_inj: "of_backend x = of_backend y \<Longrightarrow> x = y"
proof -
  have "rp_Type (of_backend x) = rp_Type (of_backend y) \<Longrightarrow> typeOf x = typeOf y" by (simp add: typeOf_def)
  moreover assume eq: "of_backend x = of_backend y"
  ultimately have "typeOf x = typeOf y" by simp
  then show ?thesis using eq by (cases x; cases y) (simp_all add: no_backend_def)
qed

lemma placed_role: "placed d role x k s c \<Longrightarrow> role \<in> {''SRC'', ''DEST''}"
  by (auto simp: placed_def)

lemma placed_same: "placed d role x k s c \<Longrightarrow> placed d role y k s' c' \<Longrightarrow> same_secret c c'"
proof -
  assume p: "placed d role x k s c" and q: "placed d role y k s' c'"
  then have "x = y" by (auto simp: placed_def dest!: of_backend_inj)
  then have "s = s'" using p q slots_functional by (auto simp: placed_def)
  then show ?thesis using p q by (auto simp: placed_def same_secret_def bindingOf_def)
qed

lemma purposes [simp]: "RestoreContainerPurpose n \<noteq> ReplicateContainerPurpose" "RestoreContainerPurpose n = RestoreContainerPurpose n' \<longleftrightarrow> n = n'"
  by (simp_all add: RestoreContainerPurpose_def ReplicateContainerPurpose_def)


lemma placed_env: "placed d role x k s c \<Longrightarrow> EnvName c = slotEnv (rd_Name d) role (typeOf x) k"
  by (metis placed_def bindingOf_def CredentialBinding.select_convs(2) fst_conv)

lemma placed_path: "placed d role x k s c \<Longrightarrow> FileMountPath c = slotPath (rd_Name d) role (typeOf x) k"
  by (metis placed_def bindingOf_def CredentialBinding.select_convs(4) fst_conv)

lemma placed_ref: "placed d role x k s c \<Longrightarrow> cd_SecretKeyRef c = SecretKeyRef s"
  by (metis placed_def bindingOf_def CredentialBinding.select_convs(3) snd_conv)

lemma placed_purpose: "placed d role x k s c \<Longrightarrow>
    role = ''SRC'' \<and> ContainerPurpose c = RestoreContainerPurpose (rd_Name d) \<and> rd_Restore d \<noteq> None
    \<or> role = ''DEST'' \<and> (ContainerPurpose c = ReplicateContainerPurpose
        \<or> (rd_Clone d \<or> rd_Restore d = None) \<and> ContainerPurpose c = RestoreContainerPurpose (rd_Name d))"
  unfolding placed_def by (elim conjE disjE exE) simp_all

lemma same_db: "sound_dbs ds \<Longrightarrow> d \<in> set ds \<Longrightarrow> d' \<in> set ds \<Longrightarrow> rd_Name d = rd_Name d' \<Longrightarrow> d = d'"
  by (auto simp: sound_dbs_def distinct_map dest: inj_onD)

lemma google_secret:
  assumes sound: "sound_dbs ds" and d: "d \<in> set ds" and p: "placed d role (GCS g) GoogleSlot s c"
  shows "ServiceAccountJSON g = Some s \<and> no_zero s
    \<and> (role = ''SRC'' \<and> isGCSRestore (rd_Restore d) \<and> rp_GCS (re_Replica (the (rd_Restore d))) = Some g
       \<or> role = ''DEST'' \<and> isGCSReplica (rd_Replicate d) \<and> rp_GCS (rt_Replica (the (rd_Replicate d))) = Some g)"
proof -
  have free: "pred_option (\<lambda>r. zero_free (re_Replica r)) (rd_Restore d)" "pred_option (\<lambda>r. zero_free (rt_Replica r)) (rd_Replicate d)"
    using sound d by (simp_all add: sound_dbs_def list_all_iff)
  have zero: "no_zero s" if "zero_free (of_backend (GCS g))"
    using that p unfolding zero_free_def placed_def list_all_iff by (metis case_prodD)
  have "ServiceAccountJSON g = Some s" using p by (simp add: placed_def)
  moreover have "isGCS (of_backend (GCS g))" "rp_GCS (of_backend (GCS g)) = Some g" by (simp_all add: isGCS_def no_backend_def)
  ultimately show ?thesis using p zero free unfolding placed_def isGCSRestore_def isGCSReplica_def by auto
qed

lemma google_bindings:
  assumes sound: "sound_dbs ds" and d: "d \<in> set ds" "d' \<in> set ds"
    and p: "placed d role x GoogleSlot s c" "placed d' role' x' GoogleSlot s' c'" and purpose: "ContainerPurpose c = ContainerPurpose c'"
  shows "same_secret c c'"
proof -
  obtain g g' where g: "x = GCS g" "x' = GCS g'" using p google_slot unfolding placed_def by blast
  note facts = google_secret [OF sound d(1) p(1) [unfolded g]] google_secret [OF sound d(2) p(2) [unfolded g]]
  have gcs: "validateGCSCredentials None ds = None" using sound by (simp add: sound_dbs_def)
  have same: "same_secret c c'" if "gcsCredentialIdentity (Some g) = gcsCredentialIdentity (Some g')"
    using google_same [OF that, of s s'] facts placed_ref p by (simp add: same_secret_def)
  have clone: "gcsCredentialIdentity (rp_GCS (re_Replica (the (rd_Restore d)))) = google_id d"
    if "rd_Clone d" "isGCSRestore (rd_Restore d)" "isGCSReplica (rd_Replicate d)" "d \<in> set ds" for d
    using gcs_validated(1) [OF gcs] that by blast
  have reps: "google_id d = google_id d'" if "isGCSReplica (rd_Replicate d)" "isGCSReplica (rd_Replicate d')"
    using gcs_validated(3) [OF gcs d] that by blast
  show ?thesis
  proof (cases "role = role'")
    case same_role: True
    show ?thesis
    proof (cases "role = ''DEST''")
      case True
      then show ?thesis using facts same_role reps same by (simp add: google_id_def)
    next
      case False
      then have "d = d'" using p purpose same_role same_db [OF sound d] by (auto simp: placed_def)
      then show ?thesis using p same_role placed_same by blast
    qed
  next
    case False
    then have "ContainerPurpose c = RestoreContainerPurpose (rd_Name d)" "ContainerPurpose c' = RestoreContainerPurpose (rd_Name d')"
      using placed_purpose [OF p(1)] placed_purpose [OF p(2)] purpose by (metis purposes(1))+
    then have dd: "d = d'" using purpose same_db [OF sound d] by simp
    then have copied: "rd_Clone d" using False placed_purpose [OF p(1)] placed_purpose [OF p(2)] purpose by (metis purposes(1))
    have both: "isGCSRestore (rd_Restore d)" "isGCSReplica (rd_Replicate d)" using facts False dd by auto
    have "gcsCredentialIdentity (Some g) = gcsCredentialIdentity (Some g')"
      using clone [OF copied both d(1)] facts False dd unfolding google_id_def by auto
    then show ?thesis by (rule same)
  qed
qed

lemma sound_bindings:
  assumes sound: "sound_dbs ds" and d: "d \<in> set ds" "d' \<in> set ds" and c: "delivered d c" "delivered d' c'"
    and purpose: "ContainerPurpose c = ContainerPurpose c'"
    and names: "EnvName c = EnvName c' \<and> EnvName c \<noteq> [] \<or> FileMountPath c = FileMountPath c' \<and> FileMountPath c \<noteq> []"
  shows "same_secret c c'"
proof -
  obtain role x k s where p: "placed d role x k s c" using delivered_placed [OF c(1)] by blast
  obtain role' x' k' s' where p': "placed d' role' x' k' s' c'" using delivered_placed [OF c(2)] by blast
  have dns: "list_all dnsChar (rd_Name d)" "list_all dnsChar (rd_Name d')" using sound d by (auto simp: sound_dbs_def list_all_iff)
  have slots: "(k, s) \<in> set (backendSlots x)" "(k', s') \<in> set (backendSlots x')" using p p' by (simp_all add: placed_def)
  note roles = placed_role [OF p] placed_role [OF p']
  have merge: "same_secret c c'" if "rd_Name d = rd_Name d'" "role = role'" "k = k'"
    using that same_db [OF sound d] placed_same p p' by blast
  from names show ?thesis
  proof
    assume env: "EnvName c = EnvName c' \<and> EnvName c \<noteq> []"
    show ?thesis
    proof (cases k)
      case (EnvSlot f)
      then obtain f' where k': "k' = EnvSlot f'" using env placed_env [OF p] placed_env [OF p'] google_not_ls by (cases k') auto
      have "''LS_'' @ sanitizeIdentifier (rd_Name d) @ envTail (role, typeOf x, f) = ''LS_'' @ sanitizeIdentifier (rd_Name d') @ envTail (role', typeOf x', f')"
        using env placed_env [OF p] placed_env [OF p'] EnvSlot k' by (simp add: envName_tail)
      from envName_inj [OF dns env_slot env_slot this] slots EnvSlot k' roles show ?thesis using merge by blast
    next
      case (FileSlot f)
      then show ?thesis using env placed_env [OF p] by simp
    next
      case GoogleSlot
      then have "k' = GoogleSlot" using env placed_env [OF p] placed_env [OF p'] google_not_ls by (cases k') auto
      then show ?thesis using google_bindings [OF sound d _ _ purpose] p p' GoogleSlot by blast
    qed
  next
    assume path: "FileMountPath c = FileMountPath c' \<and> FileMountPath c \<noteq> []"
    define fileOf where "fileOf k = (case k of EnvSlot _ \<Rightarrow> None | FileSlot f \<Rightarrow> Some f | GoogleSlot \<Rightarrow> Some ''service-account.json'')" for k
    have fileOf: "slotPath n r be k \<noteq> [] \<Longrightarrow> \<exists>f. fileOf k = Some f \<and> slotPath n r be k = fileMountPath n r be f" for n r be k
      by (cases k) (simp_all add: fileOf_def)
    obtain f f' where f: "fileOf k = Some f" "fileOf k' = Some f'" and eq: "fileMountPath (rd_Name d) role (typeOf x) f = fileMountPath (rd_Name d') role' (typeOf x') f'"
      using path placed_path [OF p] placed_path [OF p'] fileOf by metis
    have types: "typeOf x \<in> {''GCS'', ''NATS'', ''SFTP''}" "typeOf x' \<in> {''GCS'', ''NATS'', ''SFTP''}"
      using file_slot slots f by (auto simp: fileOf_def split: slot.splits)
    from fileMountPath_inj [OF dns roles types eq] have same: "rd_Name d = rd_Name d'" "role = role'" "typeOf x = typeOf x'" "f = f'" by auto
    have "k = k'"
    proof (cases "typeOf x = ''GCS''")
      case True
      then show ?thesis using slots same(3) by (cases x; cases x') auto
    next
      case False
      then have "k \<noteq> GoogleSlot" "k' \<noteq> GoogleSlot" using slots same(3) google_slot by fastforce+
      then show ?thesis using same(4) f by (cases k; cases k') (auto simp: fileOf_def)
    qed
    then show ?thesis using merge same by blast
  qed
qed


subsection \<open>Resolved inputs\<close>

lemma rootSlots_secret: "(k, s) \<in> set (rootSlots i ss) \<Longrightarrow> s \<in> set ss"
  by (induction i ss rule: rootSlots.induct) auto

lemma slot_wf: "backend_wf api x \<Longrightarrow> (k, s) \<in> set (backendSlots x) \<Longrightarrow> secretRef_wf api s"
  by (cases x) (auto simp: list_all_iff dest: rootSlots_secret)

lemma dns_no_zero: "dns_names api \<Longrightarrow> secretRef_wf api s \<Longrightarrow> no_zero s"
proof -
  assume "dns_names api" "secretRef_wf api s"
  then have "list_all (\<lambda>c. lowerAlnum c \<or> c \<in> set ''-.'') (sk_Name (SecretKeyRef s))" by (simp add: dns_names_def secretRef_wf_def)
  moreover have "\<not> lowerAlnum (CHR 0x00)" by (simp add: lowerAlnum_def)
  ultimately show ?thesis by (auto simp: no_zero_def list_all_iff)
qed

lemma accepted_zero_free: "dns_names api \<Longrightarrow> LitestreamReplicaSpec_Validate api r = [] \<Longrightarrow> zero_free r \<and> (\<exists>x. r = of_backend x)"
proof -
  assume dns: "dns_names api" and "LitestreamReplicaSpec_Validate api r = []"
  then obtain x where x: "r = of_backend x" "backend_wf api x" using accepted_backend by (auto simp: LitestreamReplicaSpec_Validate_def)
  have "no_zero s" if "(k, s) \<in> set (backendSlots x)" for k s using dns_no_zero [OF dns] slot_wf [OF x(2) that] by blast
  then show ?thesis using x(1) of_backend_inj by (auto simp: zero_free_def list_all_iff)
qed

lemma resolved_sound:
  assumes dns: "dns_names api" and res: "Resolve api reader resource = Inr inp" and valid: "ValidateInput inp = None"
  shows "sound_dbs (in_Databases inp)"
proof -
  obtain r :: Litestream where wf: "spec_wf api (li_Spec r)" and dbs: "list_all2 (resolved_db api) (ls_Databases (li_Spec r)) (in_Databases inp)"
    by (rule Resolve_input [OF res]) blast
  have db: "list_all dnsChar (rd_Name d) \<and> has_backends d \<and> (rd_Clone d \<longrightarrow> rd_Restore d \<noteq> None \<and> rd_Replicate d \<noteq> None)
         \<and> pred_option (\<lambda>r. zero_free (re_Replica r)) (rd_Restore d) \<and> pred_option (\<lambda>r. zero_free (rt_Replica r)) (rd_Replicate d)"
    if d: "d \<in> set (in_Databases inp)" for d
  proof -
    obtain b where b: "b \<in> set (ls_Databases (li_Spec r))" "resolved_db api b d" using dbs d by (metis in_set_conv_nth list_all2_conv_all_nth)
    then have "binding_wf api b" using wf by (simp add: spec_wf_def list_all_iff)
    then have "list_all dnsChar (db_Name b)" using dns by (simp add: binding_wf_def dns_names_def dnsChar_def [abs_def])
    moreover have "rd_Clone d \<Longrightarrow> rd_Restore d \<noteq> None \<and> rd_Replicate d \<noteq> None"
      using b(2) by (auto simp: resolved_db_def is_clone_def split: option.splits)
    moreover have "pred_option (\<lambda>r. zero_free (re_Replica r) \<and> (\<exists>x. re_Replica r = of_backend x)) (rd_Restore d)"
      "pred_option (\<lambda>r. zero_free (rt_Replica r) \<and> (\<exists>x. rt_Replica r = of_backend x)) (rd_Replicate d)"
      using b(2) accepted_zero_free [OF dns] by (auto simp: resolved_db_def option.pred_set)
    ultimately show ?thesis using b(2) by (auto simp: resolved_db_def has_backends_def option.pred_set)
  qed
  have "validateGCSCredentials None (in_Databases inp) = None" using valid by (simp add: ValidateInput_def split: option.splits)
  moreover have "distinct (map rd_Name (in_Databases inp))" by (rule resolved_distinct [OF res])
  ultimately show ?thesis using db by (simp add: sound_dbs_def list_all_iff)
qed

lemma Render_parts:
  assumes "Render env inp = Inr out"
  obtains data creds entries where "ValidateInput inp = None"
    "renderDatabases env (Permissions (in_Injection inp)) (in_Databases inp) [] [] [] = Inr (data, creds, entries)"
    "set (rn_Credentials out) = set creds"
    "rn_Data out = (if entries = [] then data else mput data ReplicateConfigFile (the (yamlMarshal env entries)))"
    "entries = [] \<or> yamlMarshal env entries \<noteq> None"
  using assms
  by (auto simp: Render_def Let_def sortCredentialBindings_def marshalConfig_def split: option.splits sum.splits prod.splits if_splits)

lemma rendered_delivered:
  assumes "dns_names api" "Resolve api reader resource = Inr inp" "Render env inp = Inr out" "c \<in> set (rn_Credentials out)"
  obtains d where "d \<in> set (in_Databases inp)" "delivered d c"
proof -
  obtain data creds entries where valid: "ValidateInput inp = None"
    and run: "renderDatabases env (Permissions (in_Injection inp)) (in_Databases inp) [] [] [] = Inr (data, creds, entries)"
    and creds: "set (rn_Credentials out) = set creds" by (rule Render_parts [OF assms(3)]) blast
  have "list_all (\<lambda>d. has_backends d \<and> (rd_Clone d \<longrightarrow> rd_Restore d \<noteq> None \<and> rd_Replicate d \<noteq> None)) (in_Databases inp)"
    using resolved_sound [OF assms(1,2) valid] by (auto simp: sound_dbs_def list_all_iff)
  from databases_creds [OF run this] assms(4) creds that show thesis by auto
qed

text \<open>C7. The secrets of a container never get mixed up. In the configuration rendered from a resource
  that was accepted and resolved, two credentials of one container that go to the same environment
  variable, or to the same file, are the same key of the same secret: names derived from database,
  role, backend and field do not collide, and the one variable Google's library fixes carries one
  secret. So it is harmless that the container's environment drops repetitions.\<close>

theorem credentials_unambiguous:
  assumes "dns_names api" "Resolve api reader resource = Inr inp" "Render env inp = Inr out"
    and "c \<in> set (rn_Credentials out)" "c' \<in> set (rn_Credentials out)" "ContainerPurpose c = ContainerPurpose c'"
    and "EnvName c = EnvName c' \<and> EnvName c \<noteq> [] \<or> FileMountPath c = FileMountPath c' \<and> FileMountPath c \<noteq> []"
  shows "same_secret c c'"
proof -
  obtain d :: Database where d: "d \<in> set (in_Databases inp)" "delivered d c" by (rule rendered_delivered [OF assms(1-4)])
  obtain d' where d': "d' \<in> set (in_Databases inp)" "delivered d' c'" by (rule rendered_delivered [OF assms(1-3,5)])
  have "ValidateInput inp = None" by (rule Render_parts [OF assms(3)]) blast
  then show ?thesis by (rule sound_bindings [OF resolved_sound [OF assms(1,2)] d(1) d'(1) d(2) d'(2) assms(6,7)])
qed


text \<open>Two databases that replicate to Google's storage with one service account.\<close>

definition sample_api :: api_env where
  "sample_api = \<lparr>parseIP = (\<lambda>_. False), parseRFC3339 = (\<lambda>_. True),
     isDNS1123Label = (\<lambda>s. if list_all dnsChar s then [] else [''invalid'']),
     isDNS1123Subdomain = (\<lambda>s. if list_all dnsChar s then [] else [''invalid'']),
     isConfigMapKey = (\<lambda>_. [])\<rparr>"

definition sample_render :: render_env where
  "sample_render = \<lparr>yamlMarshal = (\<lambda>es. Some (concat (map de_Path es))), durationString = (\<lambda>_. ''1s''), sha256Hex = (\<lambda>s. ''00'')\<rparr>"

definition sample_account :: SecretReference where
  "sample_account = \<lparr>SecretKeyRef = \<lparr>sk_Name = ''google'', sk_Key = ''json'', sk_Optional = None\<rparr>\<rparr>"

definition sample_gcs :: ReplicaSpec where
  "sample_gcs = of_backend (GCS \<lparr>gcs_Bucket = ''bucket'', gcs_Path = ''db'', ServiceAccountJSON = Some sample_account\<rparr>)"

definition sample_database :: "string \<Rightarrow> DatabaseBinding" where
  "sample_database n = \<lparr>db_Name = n, db_Path = ''/data/'' @ n, db_ClonePolicy = [], db_Restore = None,
     db_Replicate = Some \<lparr>rc_ReplicaRef = ''gcs'', rc_SyncInterval = 0, rc_AutoRecover = False\<rparr>\<rparr>"

definition sample_resource :: "DatabaseBinding list \<Rightarrow> Litestream" where
  "sample_resource dbs = \<lparr>li_Name = ''db'', li_Namespace = ''ns'', li_UID = ''u'', li_Generation = 1, li_Deleting = False,
     li_Spec = \<lparr>ls_Image = \<lparr>im_Repository = [], im_Tag = [], im_Digest = [], im_PullPolicy = []\<rparr>,
       ls_Injection = \<lparr>TargetContainer = ''app'', ij_Volume = ''data'', ExtraVolumeMounts = [], ij_Resources = [], ij_PodSecurityContext = None,
         ij_ContainerSecurityContext = None, Permissions = \<lparr>DirectoryMode = [], DatabaseMode = []\<rparr>\<rparr>,
       ls_Databases = dbs\<rparr>,
     li_Status = \<lparr>st_ObservedGeneration = 0, st_ConfigMapName = [], st_ConfigHash = [], st_Conditions = []\<rparr>\<rparr>"

definition sample_input :: Input where
  "sample_input = (case Resolve sample_api (Some (\<lambda>_ _. Found sample_gcs)) (Some (sample_resource [sample_database ''a'', sample_database ''b''])) of Inr i \<Rightarrow> i)"

definition sample_output :: RenderedConfig where
  "sample_output = (case Render sample_render sample_input of Inr o' \<Rightarrow> o')"

lemma sample_dns: "dns_names sample_api"
  by (auto simp: dns_names_def sample_api_def dnsChar_def list_all_iff)

lemma sample_resolved:
  "Resolve sample_api (Some (\<lambda>_ _. Found sample_gcs)) (Some (sample_resource [sample_database ''a'', sample_database ''b''])) = Inr sample_input"
  by code_simp

lemma sample_rendered: "Render sample_render sample_input = Inr sample_output"
  by code_simp

definition sample_binding :: "string \<Rightarrow> CredentialBinding" where
  "sample_binding n = \<lparr>ContainerPurpose = ReplicateContainerPurpose, EnvName = ''GOOGLE_APPLICATION_CREDENTIALS'',
     cd_SecretKeyRef = SecretKeyRef sample_account, FileMountPath = fileMountPath n ''DEST'' ''GCS'' ''service-account.json''\<rparr>"

lemma sample_bindings: "sample_binding ''a'' \<in> set (rn_Credentials sample_output)" "sample_binding ''b'' \<in> set (rn_Credentials sample_output)"
  by code_simp+

theorem credentials_unambiguous_witness:
  "sample_binding ''a'' \<noteq> sample_binding ''b'' \<and> same_secret (sample_binding ''a'') (sample_binding ''b'')"
proof
  show "sample_binding ''a'' \<noteq> sample_binding ''b''" by code_simp
  show "same_secret (sample_binding ''a'') (sample_binding ''b'')"
    by (rule credentials_unambiguous [OF sample_dns sample_resolved sample_rendered sample_bindings])
      (simp_all add: sample_binding_def)
qed

end
