(* ===== verification/Litestream_Files.thy ===== *)
theory Litestream_Files
  imports Litestream_Credentials
begin

text \<open>
  The files of a rendered configuration: which keys of the ConfigMap a database writes, when the
  files of two databases stay apart, and when they do not.
\<close>

definition copied :: "Database \<Rightarrow> bool" where
  "copied d \<longleftrightarrow> rd_Clone d \<and> (rd_Restore d = None \<or> rd_Replicate d \<noteq> None)"

definition keysOf :: "Database \<Rightarrow> string list" where
  "keysOf d =
     (if copied d then [cloneConfigFileName (rd_Name d) ''destination'', cloneConfigFileName (rd_Name d) ''source'', RestoreScriptFileName (rd_Name d)]
      else [restoreConfigFileName (rd_Name d), RestoreScriptFileName (rd_Name d)])"

text \<open>A name that would give a database the configuration file of a clone.\<close>

definition clashes :: "Database \<Rightarrow> Database \<Rightarrow> bool" where
  "clashes d d' \<longleftrightarrow> copied d \<and> \<not> copied d' \<and> (rd_Name d' = rd_Name d @ ''-source'' \<or> rd_Name d' = rd_Name d @ ''-destination'')"

definition puts :: "(string \<times> string) list \<Rightarrow> config_data \<Rightarrow> config_data" where
  "puts fs data = fold (\<lambda>(k, v) m. mput m k v) fs data"

lemma puts_simps [simp]: "puts [] data = data" "puts ((k, v) # fs) data = puts fs (mput data k v)"
  by (simp_all add: puts_def)

lemma mget_puts: "mget (puts fs data) k = (if k \<in> fst ` set fs then mget (puts fs []) k else mget data k)"
proof (induction fs arbitrary: data)
  case (Cons f fs)
  show ?case using Cons [of "mput data (fst f) (snd f)"] Cons [of "mput [] (fst f) (snd f)"] by (cases f) auto
qed simp

lemma mget_puts_none: "k \<in> fst ` set fs \<Longrightarrow> mget (puts fs []) k \<noteq> None"
proof (induction fs)
  case (Cons f fs)
  then show ?case using mget_puts [of fs "mput [] (fst f) (snd f)"] by (cases f) auto
qed simp

subsection \<open>One database\<close>

lemma renderDatabases_step:
  "renderDatabases env perms (d # ds) data creds entries =
     (case renderDatabases env perms [d] data [] [] of
        Inl e \<Rightarrow> Inl e
      | Inr (data1, cs, es) \<Rightarrow> renderDatabases env perms ds data1 (creds @ cs) (entries @ es))"
  by (simp split: sum.split prod.split)

lemma restore_only_files:
  assumes "renderRestoreOnly env d perms data0 = Inr (cs, x)"
  obtains fs where "map fst fs = [restoreConfigFileName (rd_Name d), RestoreScriptFileName (rd_Name d)]"
    "\<forall>data. renderRestoreOnly env d perms data = Inr (cs, puts fs data)"
proof -
  obtain replica builder where r: "renderReplica env (re_Replica (the (rd_Restore d))) (newCredentialBuilder (rd_Name d) ''SRC''
      (backendName (rp_Type (re_Replica (the (rd_Restore d))))) (RestoreContainerPurpose (rd_Name d))) = (replica, builder)" by fastforce
  obtain doc script where "marshalConfig env [\<lparr>de_Path = rd_Path d, de_Replica = replica\<rparr>] = Inr doc"
    "buildSingleRestoreScript d perms (restoreConfigFileName (rd_Name d)) (restorePolicyFromSpec (the (rd_Restore d))) = Inr script"
    "cs = cb_bindings builder"
    using assms r by (auto simp: renderRestoreOnly_def Let_def split: sum.splits)
  then show thesis
    using that [of "[(restoreConfigFileName (rd_Name d), doc), (RestoreScriptFileName (rd_Name d), script)]"] r
    by (simp add: renderRestoreOnly_def Let_def)
qed

lemma replicate_files:
  assumes "renderReplicate env d perms data0 = Inr (cs, entry, x)"
  obtains fs where "map fst fs = [restoreConfigFileName (rd_Name d), RestoreScriptFileName (rd_Name d)]"
    "\<forall>data. renderReplicate env d perms data = Inr (cs, entry, puts fs data)"
proof -
  define src where "src = (case renderDestination env d of (entry, dest) \<Rightarrow>
     case rd_Restore d of
       Some r \<Rightarrow>
         (case renderReplica env (re_Replica r) (newCredentialBuilder (rd_Name d) ''SRC'' (backendName (rp_Type (re_Replica r)))
             (RestoreContainerPurpose (rd_Name d))) of
            (replica, builder) \<Rightarrow> (\<lparr>de_Path = rd_Path d, de_Replica = replica\<rparr>, cb_bindings builder, restorePolicyFromSpec r))
     | None \<Rightarrow> (entry, rebind (RestoreContainerPurpose (rd_Name d)) dest, defaultRestorePolicy))"
  obtain e dest where dest: "renderDestination env d = (e, dest)" by fastforce
  have unfold: "renderReplicate env d perms data =
      (case marshalConfig env [fst src] of
         Inl e \<Rightarrow> Inl e
       | Inr doc \<Rightarrow>
           (case buildSingleRestoreScript d perms (restoreConfigFileName (rd_Name d)) (snd (snd src)) of
              Inl e \<Rightarrow> Inl e
            | Inr script \<Rightarrow> Inr (cb_bindings dest @ fst (snd src), e,
                mput (mput data (restoreConfigFileName (rd_Name d)) doc) (RestoreScriptFileName (rd_Name d)) script)))" for data
    unfolding renderReplicate_def Let_def src_def dest prod.case by (rule refl)
  obtain doc script where "marshalConfig env [fst src] = Inr doc"
    "buildSingleRestoreScript d perms (restoreConfigFileName (rd_Name d)) (snd (snd src)) = Inr script"
    "cs = cb_bindings dest @ fst (snd src)" "entry = e"
    using assms unfolding unfold by (auto split: sum.splits)
  then show thesis
    using that [of "[(restoreConfigFileName (rd_Name d), doc), (RestoreScriptFileName (rd_Name d), script)]"] by (simp add: unfold)
qed

lemma clone_files:
  assumes "renderClone env d perms data0 = Inr (cs, entry, x)"
  obtains fs where
    "map fst fs = [cloneConfigFileName (rd_Name d) ''destination'', cloneConfigFileName (rd_Name d) ''source'', RestoreScriptFileName (rd_Name d)]"
    "\<forall>data. renderClone env d perms data = Inr (cs, entry, puts fs data)"
proof -
  obtain e dest where dest: "renderDestination env d = (e, dest)" by fastforce
  obtain replica builder where r: "renderReplica env (re_Replica (the (rd_Restore d))) (newCredentialBuilder (rd_Name d) ''SRC''
      (backendName (rp_Type (re_Replica (the (rd_Restore d))))) (RestoreContainerPurpose (rd_Name d))) = (replica, builder)" by fastforce
  obtain doc doc' script where "marshalConfig env [e] = Inr doc"
    "marshalConfig env [\<lparr>de_Path = rd_Path d, de_Replica = replica\<rparr>] = Inr doc'"
    "buildCloneScript d perms (cloneConfigFileName (rd_Name d) ''destination'') (cloneConfigFileName (rd_Name d) ''source'') = Inr script"
    "cs = cb_bindings dest @ rebind (RestoreContainerPurpose (rd_Name d)) dest @ cb_bindings builder" "entry = e"
    using assms r dest by (auto simp: renderClone_def Let_def split: sum.splits)
  then show thesis
    using that [of "[(cloneConfigFileName (rd_Name d) ''destination'', doc), (cloneConfigFileName (rd_Name d) ''source'', doc'),
        (RestoreScriptFileName (rd_Name d), script)]"] r dest
    by (simp add: renderClone_def Let_def)
qed

lemma database_files:
  assumes "renderDatabases env perms [d] data0 [] [] = Inr (x, cs, es)"
  obtains fs where "map fst fs = keysOf d" "\<forall>data. renderDatabases env perms [d] data [] [] = Inr (puts fs data, cs, es)"
proof -
  consider (restore) "rd_Restore d \<noteq> None" "rd_Replicate d = None" "renderRestoreOnly env d perms data0 = Inr (cs, x)" "es = []"
    | (clone) entry where "\<not> (rd_Restore d \<noteq> None \<and> rd_Replicate d = None)" "rd_Clone d" "renderClone env d perms data0 = Inr (cs, entry, x)" "es = [entry]"
    | (replicate) entry where "\<not> rd_Clone d" "rd_Replicate d \<noteq> None" "renderReplicate env d perms data0 = Inr (cs, entry, x)" "es = [entry]"
    using assms by (simp split: sum.splits if_splits prod.splits)
  then show thesis
  proof cases
    case restore
    obtain fs where "map fst fs = keysOf d" "\<forall>data. renderRestoreOnly env d perms data = Inr (cs, puts fs data)"
      by (rule restore_only_files [OF restore(3)]) (use restore in \<open>simp add: keysOf_def copied_def\<close>)
    then show thesis using restore that [of fs] by simp
  next
    case clone
    obtain fs where "map fst fs = keysOf d" "\<forall>data. renderClone env d perms data = Inr (cs, entry, puts fs data)"
      by (rule clone_files [OF clone(3)]) (use clone in \<open>auto simp: keysOf_def copied_def\<close>)
    then show thesis using clone that [of fs] by auto
  next
    case replicate
    obtain fs where "map fst fs = keysOf d" "\<forall>data. renderReplicate env d perms data = Inr (cs, entry, puts fs data)"
      by (rule replicate_files [OF replicate(3)]) (use replicate in \<open>simp add: keysOf_def copied_def\<close>)
    then show thesis using replicate that [of fs] by auto
  qed
qed

subsection \<open>All databases\<close>

lemma databases_files:
  assumes "renderDatabases env perms ds data0 creds entries = Inr (data, cs, es)"
    and "d \<in> set ds" "renderDatabases env perms [d] [] [] [] = Inr (alone, cs', es')"
    and "\<And>d'. d' \<in> set ds \<Longrightarrow> d' \<noteq> d \<Longrightarrow> set (keysOf d) \<inter> set (keysOf d') = {}" and "k \<in> set (keysOf d)"
  shows "mget data k = mget alone k"
proof -
  obtain own where own: "map fst own = keysOf d" "\<forall>data. renderDatabases env perms [d] data [] [] = Inr (puts own data, cs', es')"
    using assms(3) by (rule database_files)
  have k: "k \<in> fst ` set own" using own(1) assms(5) by (metis list.set_map)
  have alone: "alone = puts own []" using own(2) assms(3) by simp
  have "mget data k = (if d \<in> set ds then mget alone k else mget data0 k)"
    using assms(1,4)
  proof (induction ds arbitrary: data0 creds entries)
    case (Cons x xs)
    then obtain data1 cs1 es1 where one: "renderDatabases env perms [x] data0 [] [] = Inr (data1, cs1, es1)"
      and rest: "renderDatabases env perms xs data1 (creds @ cs1) (entries @ es1) = Inr (data, cs, es)"
      by (subst (asm) renderDatabases_step) (auto split: sum.splits)
    have rec: "mget data k = (if d \<in> set xs then mget alone k else mget data1 k)"
      by (rule Cons.IH [OF rest]) (use Cons.prems(2) in auto)
    show ?case
    proof (cases "x = d")
      case True
      then show ?thesis using one own(2) rec k alone mget_puts [of own data0 k] by auto
    next
      case False
      obtain fs where fs: "map fst fs = keysOf x" "\<forall>data. renderDatabases env perms [x] data [] [] = Inr (puts fs data, cs1, es1)"
        using one by (rule database_files)
      have "k \<notin> fst ` set fs" using Cons.prems(2) [of x] False assms(5) fs(1) by (metis disjoint_iff list.set_intros(1) list.set_map)
      then show ?thesis using one fs(2) rec mget_puts [of fs data0 k] False by auto
    qed
  qed simp
  then show ?thesis using assms(2) by simp
qed

lemmas file_names = restoreConfigFileName_def cloneConfigFileName_def RestoreScriptFileName_def ReplicateConfigFile_def

lemma yml_not_sh: "a @ ''.yml'' \<noteq> b @ ''.sh''"
proof
  assume "a @ ''.yml'' = b @ ''.sh''"
  then have "last (a @ ''.yml'') = last (b @ ''.sh'')" by simp
  then show False by simp
qed

lemma source_not_destination: "a @ ''-source'' \<noteq> b @ ''-destination''"
proof
  assume "a @ ''-source'' = b @ ''-destination''"
  then have "last (a @ ''-source'') = last (b @ ''-destination'')" by simp
  then show False by simp
qed

lemma file_name_eqs [simp]:
  "restoreConfigFileName a = restoreConfigFileName b \<longleftrightarrow> a = b" "RestoreScriptFileName a = RestoreScriptFileName b \<longleftrightarrow> a = b"
  "restoreConfigFileName a \<noteq> RestoreScriptFileName b" "cloneConfigFileName a r \<noteq> RestoreScriptFileName b"
  "RestoreScriptFileName b \<noteq> restoreConfigFileName a" "RestoreScriptFileName b \<noteq> cloneConfigFileName a r"
  "cloneConfigFileName a r = restoreConfigFileName b \<longleftrightarrow> b = a @ ''-'' @ r" "restoreConfigFileName b = cloneConfigFileName a r \<longleftrightarrow> b = a @ ''-'' @ r"
  "cloneConfigFileName a r = cloneConfigFileName b r \<longleftrightarrow> a = b"
  "cloneConfigFileName a ''source'' \<noteq> cloneConfigFileName b ''destination''" "cloneConfigFileName b ''destination'' \<noteq> cloneConfigFileName a ''source''"
  using yml_not_sh [of a b] yml_not_sh [of "a @ ''-'' @ r" b] source_not_destination [of a b]
  by (auto simp: file_names)

lemma keys_apart:
  assumes "rd_Name d \<noteq> rd_Name d'" "\<not> clashes d d'" "\<not> clashes d' d"
  shows "set (keysOf d) \<inter> set (keysOf d') = {}"
  using assms by (auto simp: keysOf_def clashes_def split: if_splits)

lemma keys_not_replicate: "k \<in> set (keysOf d) \<Longrightarrow> k \<noteq> ReplicateConfigFile"
  by (auto simp: keysOf_def file_names split: if_splits)

lemma Render_mget:
  assumes "Render env inp = Inr out"
  obtains data creds entries where "renderDatabases env (Permissions (in_Injection inp)) (in_Databases inp) [] [] [] = Inr (data, creds, entries)"
    "\<forall>k. k \<noteq> ReplicateConfigFile \<longrightarrow> mget (rn_Data out) k = mget data k"
  by (rule Render_parts [OF assms]) (use that in auto)

text \<open>C23. Databases of a resource do not disturb each other. Each file that a database contributes to
  the rendered configuration (its restore script, its restore configuration, or the source and
  destination configurations of a clone) has the contents it has when the database is rendered on its
  own, provided no database is named like a clone with \<open>-source\<close> or \<open>-destination\<close> appended.\<close>

theorem files_independent:
  assumes "Resolve api reader resource = Inr inp" "Render env inp = Inr out"
    and "d \<in> set (in_Databases inp)" "Render env (inp\<lparr>in_Databases := [d]\<rparr>) = Inr alone"
    and "\<forall>d1\<in>set (in_Databases inp). \<forall>d2\<in>set (in_Databases inp). \<not> clashes d1 d2" and "k \<in> set (keysOf d)"
  shows "mget (rn_Data out) k = mget (rn_Data alone) k \<and> mget (rn_Data out) k \<noteq> None"
proof -
  obtain data creds entries where all: "renderDatabases env (Permissions (in_Injection inp)) (in_Databases inp) [] [] [] = Inr (data, creds, entries)"
    and out: "\<forall>k. k \<noteq> ReplicateConfigFile \<longrightarrow> mget (rn_Data out) k = mget data k"
    by (rule Render_mget [OF assms(2)])
  obtain data1 creds1 entries1 where one: "renderDatabases env (Permissions (in_Injection inp)) [d] [] [] [] = Inr (data1, creds1, entries1)"
    and out1: "\<forall>k. k \<noteq> ReplicateConfigFile \<longrightarrow> mget (rn_Data alone) k = mget data1 k"
    by (rule Render_mget [OF assms(4)]) auto
  have "distinct (map rd_Name (in_Databases inp))" by (rule resolved_distinct [OF assms(1)])
  then have "rd_Name d' \<noteq> rd_Name d" if "d' \<in> set (in_Databases inp)" "d' \<noteq> d" for d'
    using that assms(3) by (auto simp: distinct_map inj_on_def)
  then have "mget data k = mget data1 k"
    using databases_files [OF all assms(3) one _ assms(6)] keys_apart [of d] assms(3,5) by metis
  moreover obtain fs where "map fst fs = keysOf d" "data1 = puts fs []" using one database_files [OF one] by (metis prod.inject sum.inject(2))
  then have "mget data1 k \<noteq> None" using mget_puts_none [of k fs] assms(6) by (metis list.set_map)
  ultimately show ?thesis using out out1 keys_not_replicate [OF assms(6)] by simp
qed

definition sample_alone :: RenderedConfig where
  "sample_alone = (case Render sample_render (sample_input\<lparr>in_Databases := [hd (in_Databases sample_input)]\<rparr>) of Inr c \<Rightarrow> c)"

lemma sample_rendered_alone: "Render sample_render (sample_input\<lparr>in_Databases := [hd (in_Databases sample_input)]\<rparr>) = Inr sample_alone"
  by code_simp

lemma sample_first: "hd (in_Databases sample_input) \<in> set (in_Databases sample_input)"
  by code_simp

lemma sample_no_clash: "\<forall>d1\<in>set (in_Databases sample_input). \<forall>d2\<in>set (in_Databases sample_input). \<not> clashes d1 d2"
  by code_simp

lemma sample_key: "''restore-a.sh'' \<in> set (keysOf (hd (in_Databases sample_input)))"
  by code_simp

theorem files_independent_witness:
  "mget (rn_Data sample_output) ''restore-a.sh'' = mget (rn_Data sample_alone) ''restore-a.sh'' \<and> mget (rn_Data sample_output) ''restore-a.sh'' \<noteq> None"
  by (rule files_independent [OF sample_resolved sample_rendered sample_first sample_rendered_alone sample_no_clash sample_key])

subsection \<open>Names that clash\<close>

lemma databases_pair:
  assumes "renderDatabases env perms [d1, d2] [] [] [] = Inr (data, cs, es)" and "k \<in> set (keysOf d2)"
  obtains alone cs' es' where "renderDatabases env perms [d2] [] [] [] = Inr (alone, cs', es')" "mget data k = mget alone k"
proof -
  obtain data1 cs1 es1 where "renderDatabases env perms [d2] data1 cs1 es1 = Inr (data, cs, es)"
    using assms(1) by (subst (asm) renderDatabases_step) (auto split: sum.splits simp del: renderDatabases.simps)
  then obtain cs2 es2 where two: "renderDatabases env perms [d2] data1 [] [] = Inr (data, cs2, es2)"
    by (subst (asm) renderDatabases_step) (auto split: sum.splits)
  obtain fs where fs: "map fst fs = keysOf d2" "\<forall>data. renderDatabases env perms [d2] data [] [] = Inr (puts fs data, cs2, es2)"
    by (rule database_files [OF two])
  have "k \<in> fst ` set fs" using fs(1) assms(2) by (metis list.set_map)
  then show thesis using that [of "puts fs []" cs2 es2] fs(2) two mget_puts [of fs data1 k] by auto
qed

text \<open>C26. A clone can lose its source. Nothing forbids to name a database like a clone with \<open>-source\<close>
  appended, and then both write the same key of the ConfigMap: the configuration the script of the
  clone restores from is that of the other database, with its path and its replica.\<close>

theorem clone_source_overwritten:
  assumes "Render env inp = Inr out" "in_Databases inp = [d1, d2]" "copied d1" "\<not> copied d2" "rd_Name d2 = rd_Name d1 @ ''-source''"
    and "Render env (inp\<lparr>in_Databases := [d2]\<rparr>) = Inr alone"
  shows "mget (rn_Data out) (cloneConfigFileName (rd_Name d1) ''source'') = mget (rn_Data alone) (restoreConfigFileName (rd_Name d2))"
proof -
  have same: "cloneConfigFileName (rd_Name d1) ''source'' = restoreConfigFileName (rd_Name d2)" using assms(5) by simp
  have key: "restoreConfigFileName (rd_Name d2) \<in> set (keysOf d2)" using assms(4) by (simp add: keysOf_def)
  obtain data creds entries where all: "renderDatabases env (Permissions (in_Injection inp)) [d1, d2] [] [] [] = Inr (data, creds, entries)"
    and out: "\<forall>k. k \<noteq> ReplicateConfigFile \<longrightarrow> mget (rn_Data out) k = mget data k"
    by (rule Render_mget [OF assms(1)]) (use assms(2) in auto)
  obtain data1 creds1 entries1 where one: "renderDatabases env (Permissions (in_Injection inp)) [d2] [] [] [] = Inr (data1, creds1, entries1)"
    and out1: "\<forall>k. k \<noteq> ReplicateConfigFile \<longrightarrow> mget (rn_Data alone) k = mget data1 k"
    by (rule Render_mget [OF assms(6)]) auto
  have "mget data (restoreConfigFileName (rd_Name d2)) = mget data1 (restoreConfigFileName (rd_Name d2))"
    by (rule databases_pair [OF all key]) (use one in auto)
  then show ?thesis unfolding same using out out1 keys_not_replicate [OF key] by simp
qed

text \<open>An accepted resource with such names: the restore of \<open>a\<close> would read the replica of \<open>a-source\<close>.\<close>

definition clash_reader :: replica_reader where
  "clash_reader ns n = Found (if n = ''gcs'' then sample_gcs else of_backend (File \<lparr>fi_Path = ''/backup/'' @ n\<rparr>))"

definition clash_restore :: "string \<Rightarrow> RestoreSpec" where
  "clash_restore n = \<lparr>rs_ReplicaRef = n, rs_IfDatabaseExists = [], rs_IfReplicaMissing = [], rs_IntegrityCheck = [], rs_Timestamp = [], rs_TxID = []\<rparr>"

definition clash_resource :: Litestream where
  "clash_resource = sample_resource [(sample_database ''a'')\<lparr>db_Restore := Some (clash_restore ''one'')\<rparr>,
     (sample_database ''a-source'')\<lparr>db_Restore := Some (clash_restore ''two''), db_Replicate := None\<rparr>]"

definition clash_input :: Input where
  "clash_input = (case Resolve sample_api (Some clash_reader) (Some clash_resource) of Inr i \<Rightarrow> i)"

definition clash_output :: RenderedConfig where
  "clash_output = (case Render sample_render clash_input of Inr c \<Rightarrow> c)"

definition clash_second :: Database where
  "clash_second = in_Databases clash_input ! 1"

definition clash_alone :: RenderedConfig where
  "clash_alone = (case Render sample_render (clash_input\<lparr>in_Databases := [clash_second]\<rparr>) of Inr c \<Rightarrow> c)"

lemma clash_accepted: "Resolve sample_api (Some clash_reader) (Some clash_resource) = Inr clash_input"
  by code_simp

lemma clash_rendered: "Render sample_render clash_input = Inr clash_output" "Render sample_render (clash_input\<lparr>in_Databases := [clash_second]\<rparr>) = Inr clash_alone"
  by code_simp+

lemma clash_databases:
  "in_Databases clash_input = [hd (in_Databases clash_input), clash_second]" "copied (hd (in_Databases clash_input))" "\<not> copied clash_second"
  "rd_Name clash_second = rd_Name (hd (in_Databases clash_input)) @ ''-source''"
  by code_simp+

lemma clash_content: "mget (rn_Data clash_alone) (restoreConfigFileName (rd_Name clash_second)) = Some ''/data/a-source''"
  by code_simp

theorem clone_source_overwritten_witness:
  "Resolve sample_api (Some clash_reader) (Some clash_resource) = Inr clash_input \<and> Render sample_render clash_input = Inr clash_output
   \<and> rd_Path (hd (in_Databases clash_input)) = ''/data/a''
   \<and> mget (rn_Data clash_output) (cloneConfigFileName (rd_Name (hd (in_Databases clash_input))) ''source'') = Some ''/data/a-source''"
proof (intro conjI)
  show "mget (rn_Data clash_output) (cloneConfigFileName (rd_Name (hd (in_Databases clash_input))) ''source'') = Some ''/data/a-source''"
    unfolding clone_source_overwritten [OF clash_rendered(1) clash_databases clash_rendered(2)] by (rule clash_content)
  show "rd_Path (hd (in_Databases clash_input)) = ''/data/a''" by code_simp
qed (rule clash_accepted clash_rendered)+

end
