(* ===== verification/Litestream_Inject.thy ===== *)
theory Litestream_Inject
  imports Litestream_Resolve
begin

text \<open>
  What the mutating webhook adds to a Pod (\<^verbatim>\<open>internal/litestream/webhook/inject.go\<close>, \<^verbatim>\<open>resolve.go\<close>): the
  volume and the container that hold the databases, the injected volumes and init containers, and
  how they are merged into the Pod. Fields of containers, volumes and security contexts that the code
  only carries along are one opaque field each. Semantic equality of the Kubernetes library is
  equality here, since lists do not tell an empty slice from a missing one.
\<close>

subsection \<open>Pods\<close>

record EnvVar =
  ev_Name :: string
  ev_Value :: string
  ev_SecretKeyRef :: "SecretKeySelector option"

record SecretProjection =
  pj_Name :: string
  pj_Optional :: "bool option"
  pj_Items :: "(string \<times> string) list"

datatype VolumeSource =
    ConfigMapVolume string int
  | ProjectedVolume "SecretProjection list" int
  | OtherVolume string

record Volume =
  vo_Name :: string
  vo_Source :: VolumeSource

record Container =
  ct_Name :: string
  ct_Image :: string
  ct_ImagePullPolicy :: string
  ct_Command :: "string list"
  ct_Env :: "EnvVar list"
  ct_VolumeMounts :: "VolumeMount list"
  ct_Resources :: string
  ct_SecurityContext :: "SecurityContext option"
  ct_RestartPolicy :: "string option"
  ct_Others :: string

record Pod =
  pod_Name :: string
  pod_Namespace :: string
  pod_Annotations :: "(string, string) gomap"
  pod_OS :: "string option"
  pod_Volumes :: "Volume list"
  pod_Containers :: "Container list"
  pod_InitContainers :: "Container list"
  pod_SecurityContext :: "PodSecurityContext option"
  pod_Phase :: string

datatype inject_error =
    PodRequired
  | NamespaceUnknown
  | WindowsPod
  | LitestreamUnavailable string string
  | Unresolved resolve_error
  | NotReady
  | StaleReady int int
  | Unrendered render_error
  | HashEmpty
  | HashDiffers string string
  | ConfigMapUnavailable string
  | ConfigMapNotControlled string
  | ConfigMapDiffers string
  | ListPodsFailed string
  | PodUsesLitestream string string
  | PodUsesDestination string
  | LitestreamUnreadable string string
  | DatabasePathRelative string
  | ContainerMissing string
  | NoMountContains "string list"
  | AmbiguousTarget string
  | InvalidDefaultImage string
  | InvalidImage string
  | ContainerGone string
  | MountGone string
  | UsesSubPathExpr string
  | NamesGeneratedVolume string
  | NamesUnknownVolume string
  | DuplicateMountPath string
  | OverlapsExtraMount string
  | OverlapsGeneratedMount string
  | UnsupportedPodSecurity "string list"
  | PolicyWithoutFSGroup
  | RootNeedsConsent
  | InvalidContainerName string
  | VolumeConflict string
  | ContainerConflict string
  | InitContainerConflict string
  | FSGroupDiffers
  | FSGroupPolicyDiffers

definition InjectAnnotation :: string where
  "InjectAnnotation = ''litestream.mytools.nakatanakatana.app/inject''"

definition TargetContainerAnnotation :: string where
  "TargetContainerAnnotation = ''litestream.mytools.nakatanakatana.app/target-container''"

definition VolumeAnnotation :: string where
  "VolumeAnnotation = ''litestream.mytools.nakatanakatana.app/volume''"

definition ConfigVolumeName :: string where
  "ConfigVolumeName = ''litestream-config''"

definition SecretVolumeNamePrefix :: string where
  "SecretVolumeNamePrefix = ''litestream-secret-''"

definition RestoreContainerNamePrefix :: string where
  "RestoreContainerNamePrefix = ''litestream-restore-''"

definition ReplicateContainerName :: string where
  "ReplicateContainerName = ''litestream''"

definition injectedFileMode :: int where
  "injectedFileMode = 292"

definition volumeNameHashLength :: nat where
  "volumeNameHashLength = 16"

definition findVolume :: "Volume list \<Rightarrow> string \<Rightarrow> Volume option" where
  "findVolume volumes name = find (\<lambda>v. vo_Name v = name) volumes"

definition findContainer :: "Container list \<Rightarrow> string \<Rightarrow> Container option" where
  "findContainer containers name = find (\<lambda>c. ct_Name c = name) containers"

subsection \<open>The target of an injection\<close>

record ResolvedTarget =
  tg_ContainerIndex :: nat
  tg_ContainerName :: string
  tg_VolumeName :: string
  tg_MountPath :: string

fun cleanDatabasePaths :: "Database list \<Rightarrow> inject_error + string list" where
  "cleanDatabasePaths [] = Inr []"
| "cleanDatabasePaths (d # ds) =
     (if \<not> isAbs (rd_Path d) then Inl (DatabasePathRelative (rd_Path d))
      else case cleanDatabasePaths ds of Inl e \<Rightarrow> Inl e | Inr ps \<Rightarrow> Inr (pathClean (rd_Path d) # ps))"

definition pathContains :: "string \<Rightarrow> string \<Rightarrow> bool" where
  "pathContains parent child \<longleftrightarrow> parent = ''/'' \<or> child = parent \<or> hasPrefix child (parent @ ''/'')"

definition containsAll :: "string \<Rightarrow> string list \<Rightarrow> bool" where
  "containsAll mountPath databasePaths = list_all (pathContains mountPath) databasePaths"

definition hasContainer :: "Container list \<Rightarrow> string \<Rightarrow> bool" where
  "hasContainer containers name \<longleftrightarrow> findContainer containers name \<noteq> None"

definition mostSpecific :: "ResolvedTarget list \<Rightarrow> ResolvedTarget list" where
  "mostSpecific candidates =
     (let longestPath = fold (\<lambda>c m. max (length (tg_MountPath c)) m) candidates 0
      in filter (\<lambda>c. length (tg_MountPath c) = longestPath) candidates)"

definition formatCandidates :: "ResolvedTarget list \<Rightarrow> string" where
  "formatCandidates candidates =
     joinWith '', '' (sort (map (\<lambda>c. tg_ContainerName c @ '' (volume='' @ tg_VolumeName c @ '', mount='' @ tg_MountPath c @ '')'') candidates))"

text \<open>A selector is a name that is configured or left open: an annotation, else a default of the
  resource that is not empty.\<close>

definition selected :: "(string, string) gomap \<Rightarrow> string \<Rightarrow> string \<Rightarrow> string option" where
  "selected annotations key fallback =
     (case mget annotations key of Some v \<Rightarrow> Some v | None \<Rightarrow> if fallback \<noteq> [] then Some fallback else None)"

definition selects :: "string option \<Rightarrow> string \<Rightarrow> bool" where
  "selects sel name = (case sel of None \<Rightarrow> True | Some n \<Rightarrow> n = name)"

definition mountCandidates :: "string option \<Rightarrow> string list \<Rightarrow> nat \<Rightarrow> Container \<Rightarrow> ResolvedTarget list" where
  "mountCandidates volumeSel databasePaths i c =
     map (\<lambda>m. \<lparr>tg_ContainerIndex = i, tg_ContainerName = ct_Name c, tg_VolumeName = vm_Name m, tg_MountPath = pathClean (vm_MountPath m)\<rparr>)
       (filter (\<lambda>m. selects volumeSel (vm_Name m) \<and> isAbs (pathClean (vm_MountPath m)) \<and> containsAll (pathClean (vm_MountPath m)) databasePaths)
         (ct_VolumeMounts c))"

definition targetCandidates :: "string option \<Rightarrow> string option \<Rightarrow> string list \<Rightarrow> Container list \<Rightarrow> ResolvedTarget list" where
  "targetCandidates containerSel volumeSel databasePaths containers =
     concat (map (\<lambda>(i, c). if selects containerSel (ct_Name c) then mountCandidates volumeSel databasePaths i c else [])
       (enumerate 0 containers))"

definition ResolveTarget :: "Pod \<Rightarrow> Input \<Rightarrow> inject_error + ResolvedTarget" where
  "ResolveTarget pod inp =
     (case cleanDatabasePaths (in_Databases inp) of
        Inl e \<Rightarrow> Inl e
      | Inr databasePaths \<Rightarrow>
          let containerSel = selected (pod_Annotations pod) TargetContainerAnnotation (TargetContainer (in_Injection inp));
              volumeSel = selected (pod_Annotations pod) VolumeAnnotation (ij_Volume (in_Injection inp));
              candidates = targetCandidates containerSel volumeSel databasePaths (pod_Containers pod)
          in if (case containerSel of None \<Rightarrow> False | Some n \<Rightarrow> \<not> hasContainer (pod_Containers pod) n)
             then Inl (ContainerMissing (the containerSel))
             else if candidates = [] then Inl (NoMountContains databasePaths)
             else
               (case mostSpecific candidates of
                  [t] \<Rightarrow> Inr t
                | cs \<Rightarrow> Inl (AmbiguousTarget (formatCandidates cs))))"

subsection \<open>Images\<close>

definition imageRepositoryHasTag :: "string \<Rightarrow> bool" where
  "imageRepositoryHasTag repository \<longleftrightarrow> lastIndex (CHR '':'') repository > lastIndex (CHR ''/'') repository"

definition imageRepository :: "string \<Rightarrow> string" where
  "imageRepository img =
     (let name = takeWhile (\<lambda>c. c \<noteq> CHR ''@'') img;
          separator = lastIndex (CHR '':'') name
      in if separator > lastIndex (CHR ''/'') name then take (nat separator) name else name)"

definition ValidateImageReference :: "api_env \<Rightarrow> string \<Rightarrow> inject_error option" where
  "ValidateImageReference env img =
     (let separator = lastIndex (CHR ''@'') img;
          repository = take (nat separator) img
      in if separator \<le> 0 \<or> \<not> imageDigestPattern (drop (nat (separator + 1)) img) then Some (InvalidImage ''must use a sha256 digest'')
         else if CHR ''@'' \<in> set repository then Some (InvalidImage ''contains more than one digest separator'')
         else if imageRepositoryHasTag repository \<and> \<not> imageTagPattern (drop (nat (lastIndex (CHR '':'') repository + 1)) repository)
           then Some (InvalidImage ''contains an invalid tag'')
         else if \<not> ValidateImageRepository env (imageRepository repository) then Some (InvalidImage ''contains an invalid repository'')
         else None)"

definition validateDefaultImage :: "api_env \<Rightarrow> string \<Rightarrow> inject_error option" where
  "validateDefaultImage env img =
     (if TrimSpace img = [] then Some (InvalidDefaultImage ''no default litestream image is configured'') else ValidateImageReference env img)"

definition resolveImage :: "api_env \<Rightarrow> ImageSpec \<Rightarrow> string \<Rightarrow> inject_error + string" where
  "resolveImage env img defaultImage =
     (if im_Repository img = [] \<and> im_Tag img = [] \<and> im_Digest img = [] then
        (case validateDefaultImage env defaultImage of Some e \<Rightarrow> Inl e | None \<Rightarrow> Inr defaultImage)
      else if im_Digest img = [] then Inl (InvalidImage ''image overrides require a sha256 digest'')
      else if \<not> imageDigestPattern (im_Digest img) then Inl (InvalidImage ''image digest is not a valid sha256 digest'')
      else if im_Tag img \<noteq> [] \<and> \<not> imageTagPattern (im_Tag img) then Inl (InvalidImage ''image tag is invalid'')
      else
        (case (if im_Repository img \<noteq> [] then Inr (im_Repository img)
               else case validateDefaultImage env defaultImage of Some e \<Rightarrow> Inl e | None \<Rightarrow> Inr (imageRepository defaultImage)) of
           Inl e \<Rightarrow> Inl e
         | Inr repository \<Rightarrow>
             if repository = [] \<or> CHR ''@'' \<in> set repository \<or> imageRepositoryHasTag repository
             then Inl (InvalidImage ''image repository must not include a tag or digest'')
             else if \<not> ValidateImageRepository env repository then Inl (InvalidImage ''image repository is an invalid repository'')
             else Inr (repository @ (if im_Tag img \<noteq> [] then '':'' @ im_Tag img else []) @ ''@'' @ im_Digest img)))"

subsection \<open>Mounts and credentials\<close>

definition mountPathsOverlap :: "string \<Rightarrow> string \<Rightarrow> bool" where
  "mountPathsOverlap left right \<longleftrightarrow>
     pathClean left = pathClean right \<or> hasPrefix (pathClean left) (pathClean right @ ''/'') \<or> hasPrefix (pathClean right) (pathClean left @ ''/'')"

text \<open>The overlap with a generated mount names the extra mount only: the code finds the other one in
  the order of a Go map.\<close>

fun checkMounts :: "Volume list \<Rightarrow> Volume list \<Rightarrow> VolumeMount list \<Rightarrow> VolumeMount list \<Rightarrow> VolumeMount list \<Rightarrow> inject_error option" where
  "checkMounts podVolumes injected generated seen [] = None"
| "checkMounts podVolumes injected generated seen (m # ms) =
     (let mountPath = pathClean (vm_MountPath m) in
      if vm_SubPathExpr m \<noteq> [] then Some (UsesSubPathExpr (vm_Name m))
      else if findVolume injected (vm_Name m) \<noteq> None then Some (NamesGeneratedVolume (vm_Name m))
      else if findVolume podVolumes (vm_Name m) = None then Some (NamesUnknownVolume (vm_Name m))
      else if mountPath \<in> set (map (\<lambda>s. pathClean (vm_MountPath s)) seen) then Some (DuplicateMountPath (vm_MountPath m))
      else if list_ex (\<lambda>s. mountPathsOverlap mountPath (vm_MountPath s)) seen then Some (OverlapsExtraMount (vm_Name m))
      else if list_ex (\<lambda>g. mountPathsOverlap mountPath (vm_MountPath g)) generated then Some (OverlapsGeneratedMount (vm_Name m))
      else checkMounts podVolumes injected generated (seen @ [m]) ms)"

definition checkExtraVolumeMounts :: "Pod \<Rightarrow> Volume list \<Rightarrow> VolumeMount list \<Rightarrow> VolumeMount list \<Rightarrow> inject_error option" where
  "checkExtraVolumeMounts pod injected generated mounts = checkMounts (pod_Volumes pod) injected generated [] mounts"

definition databaseVolumeMount :: "Pod \<Rightarrow> ResolvedTarget \<Rightarrow> inject_error + VolumeMount" where
  "databaseVolumeMount pod t =
     (if tg_ContainerIndex t \<ge> length (pod_Containers pod) then Inl (ContainerGone (tg_ContainerName t))
      else
        (case find (\<lambda>m. \<not> (vm_Name m \<noteq> tg_VolumeName t \<or> pathClean (vm_MountPath m) \<noteq> tg_MountPath t))
            (ct_VolumeMounts (pod_Containers pod ! tg_ContainerIndex t)) of
           None \<Rightarrow> Inl (MountGone (tg_ContainerName t))
         | Some m \<Rightarrow>
             if vm_SubPathExpr m \<noteq> [] then Inl (UsesSubPathExpr (vm_Name m))
             else Inr (m\<lparr>vm_MountPath := tg_MountPath t, vm_ReadOnly := False, vm_RecursiveReadOnly := None\<rparr>)))"

fun envVars :: "string list \<Rightarrow> CredentialBinding list \<Rightarrow> string \<Rightarrow> EnvVar list" where
  "envVars named [] purpose = []"
| "envVars named (b # bs) purpose =
     (if ContainerPurpose b \<noteq> purpose \<or> EnvName b = [] then envVars named bs purpose
      else if EnvName b \<in> set named then envVars named bs purpose
      else
        (if FileMountPath b \<noteq> [] then \<lparr>ev_Name = EnvName b, ev_Value = FileMountPath b, ev_SecretKeyRef = None\<rparr>
         else \<lparr>ev_Name = EnvName b, ev_Value = [], ev_SecretKeyRef = Some (cd_SecretKeyRef b)\<rparr>)
        # envVars (EnvName b # named) bs purpose)"

definition credentialEnv :: "CredentialBinding list \<Rightarrow> string \<Rightarrow> EnvVar list" where
  "credentialEnv bindings purpose = envVars [] bindings purpose"

fun checkedNames :: "string list \<Rightarrow> CredentialBinding list \<Rightarrow> string \<Rightarrow> string list" where
  "checkedNames seen [] purpose = []"
| "checkedNames seen (b # bs) purpose =
     (if ContainerPurpose b \<noteq> purpose \<or> EnvName b = [] \<or> FileMountPath b \<noteq> [] then checkedNames seen bs purpose
      else if EnvName b \<in> set seen then checkedNames seen bs purpose
      else EnvName b # checkedNames (EnvName b # seen) bs purpose)"

definition credentialCheck :: "string \<Rightarrow> string" where
  "credentialCheck name =
     ''if [ -z '' @ dquote @ ''${'' @ name @ '':-}'' @ dquote @ '' ]; then'' @ newline
     @ ''  echo '' @ [squote] @ ''error: required Litestream credential '' @ name @ '' is missing'' @ [squote] @ '' >&2'' @ newline
     @ ''  exit 1'' @ newline @ ''fi'' @ newline"

definition credentialStartupCheckCommand :: "string list \<Rightarrow> CredentialBinding list \<Rightarrow> string \<Rightarrow> string list" where
  "credentialStartupCheckCommand command bindings purpose =
     (let envNames = checkedNames [] bindings purpose
      in if envNames = [] then command
         else [''/bin/sh'', ''-c'',
                ''set -eu'' @ newline @ concat (map credentialCheck envNames) @ ''exec '' @ dquote @ ''$@'' @ dquote @ newline,
                ''litestream-credential-check''] @ command)"

definition boolText :: "bool \<Rightarrow> string" where
  "boolText b = (if b then ''true'' else ''false'')"

definition projectionPath :: "CredentialBinding \<Rightarrow> string" where
  "projectionPath b = (case cutPrefix (FileMountPath b) (SecretMountDir @ ''/'') of Some p \<Rightarrow> p | None \<Rightarrow> FileMountPath b)"

definition projectionIdentity :: "CredentialBinding \<Rightarrow> string" where
  "projectionIdentity b =
     joinWith [CHR 0x00] [sk_Name (cd_SecretKeyRef b), sk_Key (cd_SecretKeyRef b), projectionPath b,
       case sk_Optional (cd_SecretKeyRef b) of None \<Rightarrow> [] | Some v \<Rightarrow> boolText v]"

definition projectionOf :: "CredentialBinding \<Rightarrow> SecretProjection" where
  "projectionOf b = \<lparr>pj_Name = sk_Name (cd_SecretKeyRef b), pj_Optional = sk_Optional (cd_SecretKeyRef b),
     pj_Items = [(sk_Key (cd_SecretKeyRef b), projectionPath b)]\<rparr>"

fun projections :: "string list \<Rightarrow> CredentialBinding list \<Rightarrow> string \<Rightarrow> SecretProjection list" where
  "projections projected [] purpose = []"
| "projections projected (b # bs) purpose =
     (if ContainerPurpose b \<noteq> purpose \<or> FileMountPath b = [] then projections projected bs purpose
      else if projectionIdentity b \<in> set projected then projections projected bs purpose
      else projectionOf b # projections (projectionIdentity b # projected) bs purpose)"

definition secretProjections :: "CredentialBinding list \<Rightarrow> string \<Rightarrow> SecretProjection list" where
  "secretProjections bindings purpose = sort_key (\<lambda>p. (pj_Name p, snd (hd (pj_Items p)), fst (hd (pj_Items p)))) (projections [] bindings purpose)"

definition projectionBytes :: "SecretProjection \<Rightarrow> string" where
  "projectionBytes p =
     pj_Name p @ [CHR 0x00] @ concat (map (\<lambda>(k, f). k @ [CHR 0x00] @ f @ [CHR 0x00]) (pj_Items p))
     @ (case pj_Optional p of None \<Rightarrow> [] | Some v \<Rightarrow> boolText v) @ [CHR 0x00]"

definition secretVolumeName :: "render_env \<Rightarrow> SecretProjection list \<Rightarrow> string" where
  "secretVolumeName env sources = SecretVolumeNamePrefix @ take volumeNameHashLength (sha256Hex env (concat (map projectionBytes sources)))"

subsection \<open>Security contexts\<close>

definition ignoredPodSecurityContextFields :: "PodSecurityContext option \<Rightarrow> string list" where
  "ignoredPodSecurityContextFields configured = (case configured of None \<Rightarrow> [] | Some c \<Rightarrow> psc_Others c)"

definition checkPodSecurityContext :: "PodSecurityContext option \<Rightarrow> inject_error option" where
  "checkPodSecurityContext configured =
     (if ignoredPodSecurityContextFields configured \<noteq> [] then Some (UnsupportedPodSecurity (ignoredPodSecurityContextFields configured))
      else
        (case configured of
           Some c \<Rightarrow> if FSGroupChangePolicy c \<noteq> None \<and> FSGroup c = None then Some PolicyWithoutFSGroup else None
         | None \<Rightarrow> None))"

definition validateContainerSecurityContext :: "SecurityContext option \<Rightarrow> inject_error option" where
  "validateContainerSecurityContext configured =
     (case configured of
        None \<Rightarrow> None
      | Some c \<Rightarrow>
          if RunAsUser c \<noteq> Some 0 then None
          else if RunAsNonRoot c = None \<or> RunAsNonRoot c = Some True then Some RootNeedsConsent
          else None)"

definition orElse :: "'a option \<Rightarrow> 'a \<Rightarrow> 'a option" where
  "orElse x d = (case x of None \<Rightarrow> Some d | Some v \<Rightarrow> Some v)"

definition defaultLitestreamUID :: int where
  "defaultLitestreamUID = 65532"

definition defaultLitestreamGID :: int where
  "defaultLitestreamGID = 65532"

definition buildContainerSecurityContext :: "SecurityContext option \<Rightarrow> SecurityContext" where
  "buildContainerSecurityContext configured =
     (let c = (case configured of
                 Some c \<Rightarrow> c
               | None \<Rightarrow> \<lparr>RunAsUser = None, RunAsGroup = None, RunAsNonRoot = None, ReadOnlyRootFilesystem = None,
                          AllowPrivilegeEscalation = None, Capabilities = None, sc_Others = []\<rparr>)
      in c\<lparr>RunAsUser := orElse (RunAsUser c) defaultLitestreamUID, RunAsGroup := orElse (RunAsGroup c) defaultLitestreamGID,
           RunAsNonRoot := orElse (RunAsNonRoot c) True, ReadOnlyRootFilesystem := orElse (ReadOnlyRootFilesystem c) True,
           AllowPrivilegeEscalation := orElse (AllowPrivilegeEscalation c) False, Capabilities := orElse (Capabilities c) ([], [''ALL''])\<rparr>)"

subsection \<open>Building the fragments\<close>

record podInjection =
  pi_volumes :: "Volume list"
  pi_initContainers :: "Container list"
  pi_podSecurityContext :: "PodSecurityContext option"

definition injectedContainer ::
    "string \<Rightarrow> Input \<Rightarrow> string \<Rightarrow> string list \<Rightarrow> EnvVar list \<Rightarrow> VolumeMount list \<Rightarrow> string option \<Rightarrow> Container" where
  "injectedContainer name inp img command env mounts restartPolicy =
     \<lparr>ct_Name = name, ct_Image = img, ct_ImagePullPolicy = im_PullPolicy (in_Image inp), ct_Command = command, ct_Env = env,
      ct_VolumeMounts = mounts, ct_Resources = ij_Resources (in_Injection inp),
      ct_SecurityContext = Some (buildContainerSecurityContext (ij_ContainerSecurityContext (in_Injection inp))),
      ct_RestartPolicy = restartPolicy, ct_Others = []\<rparr>"

definition configVolume :: "string \<Rightarrow> Volume" where
  "configVolume configMapName = \<lparr>vo_Name = ConfigVolumeName, vo_Source = ConfigMapVolume configMapName injectedFileMode\<rparr>"

definition plainMount :: "string \<Rightarrow> string \<Rightarrow> VolumeMount" where
  "plainMount name mountPath = \<lparr>vm_Name = name, vm_ReadOnly = True, vm_RecursiveReadOnly = None, vm_MountPath = mountPath,
     vm_SubPath = [], vm_SubPathExpr = [], vm_MountPropagation = None\<rparr>"

type_synonym secret_mounts = "(string, VolumeMount) gomap"

definition addSecretMount ::
    "render_env \<Rightarrow> CredentialBinding list \<Rightarrow> string \<Rightarrow> Volume list \<times> secret_mounts \<Rightarrow> Volume list \<times> secret_mounts" where
  "addSecretMount env credentials purpose st =
     (let sources = secretProjections credentials purpose;
          name = secretVolumeName env sources
      in if sources = [] then st
         else
           (if findVolume (fst st) name = None
            then fst st @ [\<lparr>vo_Name = name, vo_Source = ProjectedVolume sources injectedFileMode\<rparr>] else fst st,
            mput (snd st) purpose (plainMount name SecretMountDir)))"

definition replicates :: "RenderedConfig \<Rightarrow> bool" where
  "replicates rendered \<longleftrightarrow> mget (rn_Data rendered) ReplicateConfigFile \<noteq> None"

definition injectedPurposes :: "Input \<Rightarrow> RenderedConfig \<Rightarrow> string list" where
  "injectedPurposes inp rendered =
     map (\<lambda>d. RestoreContainerPurpose (rd_Name d)) (in_Databases inp) @ (if replicates rendered then [ReplicateContainerPurpose] else [])"

definition mountsFor :: "VolumeMount list \<Rightarrow> Input \<Rightarrow> secret_mounts \<Rightarrow> string \<Rightarrow> VolumeMount list" where
  "mountsFor baseMounts inp secretMounts purpose =
     baseMounts @ ExtraVolumeMounts (in_Injection inp) @ (case mget secretMounts purpose of None \<Rightarrow> [] | Some m \<Rightarrow> [m])"

fun restoreContainers ::
    "api_env \<Rightarrow> Input \<Rightarrow> CredentialBinding list \<Rightarrow> string \<Rightarrow> VolumeMount list \<Rightarrow> secret_mounts \<Rightarrow> Database list \<Rightarrow> inject_error + Container list" where
  "restoreContainers api inp credentials img baseMounts secretMounts [] = Inr []"
| "restoreContainers api inp credentials img baseMounts secretMounts (d # ds) =
     (let restoreName = RestoreContainerNamePrefix @ rd_Name d;
          purpose = RestoreContainerPurpose (rd_Name d);
          script = pathJoin [ConfigMountDir, RestoreScriptFileName (rd_Name d)]
      in if isDNS1123Label api restoreName \<noteq> [] then Inl (InvalidContainerName restoreName)
         else
           (case restoreContainers api inp credentials img baseMounts secretMounts ds of
              Inl e \<Rightarrow> Inl e
            | Inr cs \<Rightarrow>
                Inr (injectedContainer restoreName inp img (credentialStartupCheckCommand [''/bin/sh'', script] credentials purpose)
                       (credentialEnv credentials purpose) (mountsFor baseMounts inp secretMounts purpose) None # cs)))"

definition replicateContainer :: "Input \<Rightarrow> CredentialBinding list \<Rightarrow> string \<Rightarrow> VolumeMount list \<Rightarrow> secret_mounts \<Rightarrow> Container" where
  "replicateContainer inp credentials img baseMounts secretMounts =
     injectedContainer ReplicateContainerName inp img
       (credentialStartupCheckCommand [''litestream'', ''replicate'', ''-config'', pathJoin [ConfigMountDir, ReplicateConfigFile]] credentials
          ReplicateContainerPurpose)
       (credentialEnv credentials ReplicateContainerPurpose) (mountsFor baseMounts inp secretMounts ReplicateContainerPurpose) (Some ''Always'')"

definition buildInjection ::
    "api_env \<Rightarrow> render_env \<Rightarrow> Pod \<Rightarrow> Input \<Rightarrow> RenderedConfig \<Rightarrow> ResolvedTarget \<Rightarrow> string \<Rightarrow> string \<Rightarrow> inject_error + podInjection" where
  "buildInjection api env pod inp rendered target configMapName defaultImage =
     (case resolveImage api (in_Image inp) defaultImage of
        Inl e \<Rightarrow> Inl e
      | Inr img \<Rightarrow>
     (case databaseVolumeMount pod target of
        Inl e \<Rightarrow> Inl e
      | Inr databaseMount \<Rightarrow>
          let baseMounts = [plainMount ConfigVolumeName ConfigMountDir, databaseMount];
              credentials = rn_Credentials rendered;
              st = fold (addSecretMount env credentials) (injectedPurposes inp rendered) ([configVolume configMapName], []);
              volumes = fst st; secretMounts = snd st
          in (case checkExtraVolumeMounts pod volumes (baseMounts @ map snd secretMounts) (ExtraVolumeMounts (in_Injection inp)) of
                Some e \<Rightarrow> Inl e
              | None \<Rightarrow>
             (case checkPodSecurityContext (ij_PodSecurityContext (in_Injection inp)) of
                Some e \<Rightarrow> Inl e
              | None \<Rightarrow>
             (case validateContainerSecurityContext (ij_ContainerSecurityContext (in_Injection inp)) of
                Some e \<Rightarrow> Inl e
              | None \<Rightarrow>
             (case restoreContainers api inp credentials img baseMounts secretMounts (in_Databases inp) of
                Inl e \<Rightarrow> Inl e
              | Inr restores \<Rightarrow>
                  Inr \<lparr>pi_volumes = volumes,
                       pi_initContainers = restores @ (if replicates rendered then [replicateContainer inp credentials img baseMounts secretMounts] else []),
                       pi_podSecurityContext = ij_PodSecurityContext (in_Injection inp)\<rparr>))))))"

subsection \<open>Applying them\<close>

fun applyVolumes :: "Volume list \<Rightarrow> Volume list \<Rightarrow> inject_error + Volume list" where
  "applyVolumes podVolumes [] = Inr podVolumes"
| "applyVolumes podVolumes (v # vs) =
     (case findVolume podVolumes (vo_Name v) of
        None \<Rightarrow> applyVolumes (podVolumes @ [v]) vs
      | Some existing \<Rightarrow> if existing \<noteq> v then Inl (VolumeConflict (vo_Name v)) else applyVolumes podVolumes vs)"

fun checkContainers :: "Pod \<Rightarrow> Container list \<Rightarrow> inject_error option" where
  "checkContainers pod [] = None"
| "checkContainers pod (c # cs) =
     (if findContainer (pod_Containers pod) (ct_Name c) \<noteq> None then Some (ContainerConflict (ct_Name c))
      else
        (case findContainer (pod_InitContainers pod) (ct_Name c) of
           Some existing \<Rightarrow> if existing \<noteq> c then Some (InitContainerConflict (ct_Name c)) else checkContainers pod cs
         | None \<Rightarrow> checkContainers pod cs))"

definition mergeInitContainers :: "Container list \<Rightarrow> Container list \<Rightarrow> Container list" where
  "mergeInitContainers podInit injected =
     map (\<lambda>c. case findContainer podInit (ct_Name c) of Some existing \<Rightarrow> existing | None \<Rightarrow> c) injected
     @ filter (\<lambda>c. findContainer injected (ct_Name c) = None) podInit"

definition fsGroupConflict :: "PodSecurityContext \<Rightarrow> PodSecurityContext \<Rightarrow> inject_error option" where
  "fsGroupConflict current configured =
     (if FSGroup current \<noteq> None \<and> FSGroup current \<noteq> FSGroup configured then Some FSGroupDiffers
      else if FSGroupChangePolicy current \<noteq> None \<and> FSGroupChangePolicy configured \<noteq> None
        \<and> FSGroupChangePolicy current \<noteq> FSGroupChangePolicy configured then Some FSGroupPolicyDiffers
      else None)"

definition applyPodSecurityContext :: "Pod \<Rightarrow> PodSecurityContext option \<Rightarrow> inject_error + Pod" where
  "applyPodSecurityContext pod configured =
     (case configured of
        None \<Rightarrow> Inr pod
      | Some c \<Rightarrow>
          if FSGroup c = None then Inr pod
          else
            (case (case pod_SecurityContext pod of None \<Rightarrow> None | Some current \<Rightarrow> fsGroupConflict current c) of
               Some e \<Rightarrow> Inl e
             | None \<Rightarrow>
                 let current = (case pod_SecurityContext pod of
                                  Some s \<Rightarrow> s | None \<Rightarrow> \<lparr>FSGroup = None, FSGroupChangePolicy = None, psc_Others = []\<rparr>)
                 in Inr (pod\<lparr>pod_SecurityContext := Some (current
                      \<lparr>FSGroup := (if FSGroup current = None then FSGroup c else FSGroup current),
                       FSGroupChangePolicy := (if FSGroupChangePolicy current = None then FSGroupChangePolicy c else FSGroupChangePolicy current)\<rparr>)\<rparr>)))"

definition applyInjection :: "Pod \<Rightarrow> podInjection \<Rightarrow> inject_error + Pod" where
  "applyInjection pod injection =
     (case applyVolumes (pod_Volumes pod) (pi_volumes injection) of
        Inl e \<Rightarrow> Inl e
      | Inr volumes \<Rightarrow>
     (case checkContainers pod (pi_initContainers injection) of
        Some e \<Rightarrow> Inl e
      | None \<Rightarrow>
          applyPodSecurityContext
            (pod\<lparr>pod_Volumes := volumes, pod_InitContainers := mergeInitContainers (pod_InitContainers pod) (pi_initContainers injection)\<rparr>)
            (pi_podSecurityContext injection)))"

end
