(* ===== verification/Litestream_Controller.thy ===== *)
theory Litestream_Controller
  imports Litestream_Resolve
begin

text \<open>
  The reconciler (\<^verbatim>\<open>internal/litestream/controller/litestream_controller.go\<close>): it renders a resource into
  a ConfigMap named after the hash of the rendering and reports the outcome in the status. The cluster
  is a state of any type \<open>'s\<close>; reading it, \<^verbatim>\<open>controllerutil.CreateOrUpdate\<close>,
  \<^verbatim>\<open>controllerutil.SetControllerReference\<close>, \<^verbatim>\<open>meta.SetStatusCondition\<close>, the status patch and the event
  recorder are the fields of \<open>kube\<close>, and \<open>kube_laws\<close> says what the code relies on.
\<close>

subsection \<open>The cluster\<close>

text \<open>\<open>cm_Controller\<close> is the UID of the controlling owner reference.\<close>

record ConfigMap =
  cm_Name :: string
  cm_Namespace :: string
  cm_Labels :: "(string, string) gomap"
  cm_Annotations :: "(string, string) gomap"
  cm_Data :: "(string, string) gomap"
  cm_Immutable :: "bool option"
  cm_Controller :: "string option"

record event =
  ev_Resource :: string
  ev_Type :: string
  ev_Reason :: string
  ev_Message :: string

record 's kube =
  kGetLitestream :: "'s \<Rightarrow> string \<Rightarrow> string \<Rightarrow> Litestream get_result"
  kGetReplica :: "'s \<Rightarrow> string \<Rightarrow> string \<Rightarrow> ReplicaSpec get_result"
  kGetConfigMap :: "'s \<Rightarrow> string \<Rightarrow> string \<Rightarrow> ConfigMap get_result"
  kCreateOrUpdate :: "'s \<Rightarrow> ConfigMap \<Rightarrow> (ConfigMap \<Rightarrow> string + ConfigMap) \<Rightarrow> string option \<times> 's"
  kPatchStatus :: "'s \<Rightarrow> Litestream \<Rightarrow> Litestream \<Rightarrow> string option \<times> 's"
  kEventf :: "'s \<Rightarrow> event \<Rightarrow> 's"
  setControllerReference :: "Litestream \<Rightarrow> ConfigMap \<Rightarrow> string + ConfigMap"
  setStatusCondition :: "Condition list \<Rightarrow> Condition \<Rightarrow> Condition list"
  findStatusCondition :: "Condition list \<Rightarrow> string \<Rightarrow> Condition option"
  errorText :: "resolve_error + render_error + field_error list \<Rightarrow> string"

subsection \<open>Names\<close>

definition ReadyConditionType :: string where
  "ReadyConditionType = ''Ready''"

definition ReasonConfigRendered :: string where
  "ReasonConfigRendered = ''ConfigRendered''"

definition ReasonInvalidConfiguration :: string where
  "ReasonInvalidConfiguration = ''InvalidConfiguration''"

definition LabelManagedBy :: string where
  "LabelManagedBy = ''app.kubernetes.io/managed-by''"

definition ManagedByValue :: string where
  "ManagedByValue = ''litestream-controller''"

definition LabelResourceName :: string where
  "LabelResourceName = ''litestream.mytools.nakatanakatana.app/resource-name''"

definition AnnotationResourceName :: string where
  "AnnotationResourceName = ''litestream.mytools.nakatanakatana.app/resource-name''"

definition LabelResourceUID :: string where
  "LabelResourceUID = ''litestream.mytools.nakatanakatana.app/resource-uid''"

definition DNS1123SubdomainMaxLength :: nat where
  "DNS1123SubdomainMaxLength = 253"

definition LabelValueMaxLength :: nat where
  "LabelValueMaxLength = 63"

definition trimRightSet :: "string \<Rightarrow> string \<Rightarrow> string" where
  "trimRightSet s cutset = rev (dropWhile (\<lambda>c. c \<in> set cutset) (rev s))"

text \<open>The available length is an integer; slicing at a negative one panics, which is \<open>None\<close>.\<close>

definition configMapName :: "Litestream \<Rightarrow> string \<Rightarrow> string option" where
  "configMapName r revisionSuffix =
     (let uidSuffix = ''-'' @ take 8 (li_UID r);
          maxResourceNameLength = int DNS1123SubdomainMaxLength - int (length ''litestream-'') - int (length uidSuffix) - int (length revisionSuffix);
          name = li_Name r
      in if int (length name) > maxResourceNameLength \<and> maxResourceNameLength < 0 then None
         else Some (''litestream-''
           @ (if int (length name) > maxResourceNameLength then trimRightSet (take (nat maxResourceNameLength) name) ''.'' else name)
           @ uidSuffix @ revisionSuffix))"

definition ConfigMapName :: "Litestream \<Rightarrow> string option" where
  "ConfigMapName r = configMapName r []"

definition ConfigMapNameForHash :: "Litestream \<Rightarrow> string \<Rightarrow> string option" where
  "ConfigMapNameForHash r hash = (if hash = [] then ConfigMapName r else configMapName r (''-'' @ hash))"

text \<open>\<^verbatim>\<open>%x\<close> of the first four bytes of the hash is the first eight characters of its hexadecimal text.\<close>

definition resourceNameLabel :: "render_env \<Rightarrow> string \<Rightarrow> string" where
  "resourceNameLabel env name =
     (if length name \<le> LabelValueMaxLength then name
      else
        let hashLength = 8;
            prefixLength = LabelValueMaxLength - 1 - hashLength;
            prefix = trimRightSet (take prefixLength name) ''-_.''
        in prefix @ ''-'' @ take hashLength (sha256Hex env name))"

subsection \<open>Reconciling\<close>

text \<open>The function \<^verbatim>\<open>CreateOrUpdate\<close> runs on the object it read, or on a fresh one.\<close>

definition mutateConfigMap :: "'s kube \<Rightarrow> render_env \<Rightarrow> Litestream \<Rightarrow> RenderedConfig \<Rightarrow> ConfigMap \<Rightarrow> string + ConfigMap" where
  "mutateConfigMap k env r rendered cm =
     setControllerReference k r
       (cm\<lparr>cm_Labels := mput (mput (mput (cm_Labels cm) LabelManagedBy ManagedByValue) LabelResourceName (resourceNameLabel env (li_Name r)))
             LabelResourceUID (li_UID r),
           cm_Annotations := mput (cm_Annotations cm) AnnotationResourceName (li_Name r),
           cm_Data := rn_Data rendered, cm_Immutable := Some True\<rparr>)"

definition emptyConfigMap :: "string \<Rightarrow> string \<Rightarrow> ConfigMap" where
  "emptyConfigMap namespace name =
     \<lparr>cm_Name = name, cm_Namespace = namespace, cm_Labels = [], cm_Annotations = [], cm_Data = [], cm_Immutable = None, cm_Controller = None\<rparr>"

definition reconcileConfigMap :: "'s kube \<Rightarrow> render_env \<Rightarrow> 's \<Rightarrow> Litestream \<Rightarrow> string \<Rightarrow> RenderedConfig \<Rightarrow> string option \<times> 's" where
  "reconcileConfigMap k env s r name rendered =
     kCreateOrUpdate k s (emptyConfigMap (li_Namespace r) name) (mutateConfigMap k env r rendered)"

definition readyCondition :: "Litestream \<Rightarrow> Condition" where
  "readyCondition r = \<lparr>cn_Type = ReadyConditionType, cn_Status = ''True'', cn_Reason = ReasonConfigRendered,
     cn_ObservedGeneration = li_Generation r, cn_Message = ''litestream configuration rendered successfully''\<rparr>"

definition markReady :: "'s kube \<Rightarrow> 's \<Rightarrow> Litestream \<Rightarrow> string \<Rightarrow> string \<Rightarrow> string option \<times> 's" where
  "markReady k s r name hash =
     kPatchStatus k s r (r\<lparr>li_Status := (li_Status r)
       \<lparr>st_Conditions := setStatusCondition k (st_Conditions (li_Status r)) (readyCondition r),
        st_ObservedGeneration := li_Generation r, st_ConfigMapName := name, st_ConfigHash := hash\<rparr>\<rparr>)"

definition invalidCondition :: "Litestream \<Rightarrow> string \<Rightarrow> Condition" where
  "invalidCondition r cause = \<lparr>cn_Type = ReadyConditionType, cn_Status = ''False'', cn_Reason = ReasonInvalidConfiguration,
     cn_ObservedGeneration = li_Generation r, cn_Message = cause\<rparr>"

definition markInvalid :: "'s kube \<Rightarrow> 's \<Rightarrow> Litestream \<Rightarrow> string \<Rightarrow> string option \<times> 's" where
  "markInvalid k s r cause =
     (case kPatchStatus k s r (r\<lparr>li_Status := (li_Status r)
         \<lparr>st_Conditions := setStatusCondition k (st_Conditions (li_Status r)) (invalidCondition r cause),
          st_ObservedGeneration := li_Generation r, st_ConfigMapName := [], st_ConfigHash := []\<rparr>\<rparr>) of
        (Some e, s1) \<Rightarrow> (Some e, s1)
      | (None, s1) \<Rightarrow>
          (None, kEventf k s1 \<lparr>ev_Resource = li_Name r, ev_Type = ''Warning'', ev_Reason = ReasonInvalidConfiguration, ev_Message = cause\<rparr>))"

definition LitestreamReconciler_Reconcile :: "api_env \<Rightarrow> render_env \<Rightarrow> 's kube \<Rightarrow> 's \<Rightarrow> string \<Rightarrow> string \<Rightarrow> string option \<times> 's" where
  "LitestreamReconciler_Reconcile api env k s namespace name =
     (case kGetLitestream k s namespace name of
        NotFound \<Rightarrow> (None, s)
      | GetFailed e \<Rightarrow> (Some e, s)
      | Found r \<Rightarrow>
          if li_Deleting r then (None, s)
          else if LitestreamSpec_Validate api (li_Spec r) \<noteq> [] then
            markInvalid k s r (errorText k (Inr (Inr (LitestreamSpec_Validate api (li_Spec r)))))
          else
            (case Resolve api (Some (kGetReplica k s)) (Some r) of
               Inl e \<Rightarrow> if \<not> IsPermanentError e then (Some (errorText k (Inl e)), s) else markInvalid k s r (errorText k (Inl e))
             | Inr inp \<Rightarrow>
            (case Render env inp of
               Inl e \<Rightarrow> markInvalid k s r (errorText k (Inr (Inl e)))
             | Inr rendered \<Rightarrow>
            (case ConfigMapNameForHash r (rn_Hash rendered) of
               None \<Rightarrow> (Some ''panic: slice bounds out of range'', s)
             | Some cmName \<Rightarrow>
            (case reconcileConfigMap k env s r cmName rendered of
               (Some e, s1) \<Rightarrow> (Some e, s1)
             | (None, s1) \<Rightarrow>
                 let s2 = kEventf k s1 \<lparr>ev_Resource = li_Name r, ev_Type = ''Normal'', ev_Reason = ReasonConfigRendered,
                       ev_Message = ''rendered configuration into ConfigMap '' @ cmName @ '' (hash '' @ rn_Hash rendered @ '')''\<rparr>
                 in markReady k s2 r cmName (rn_Hash rendered))))))"

subsection \<open>Indexes\<close>

definition namespacedReferenceKey :: "string \<Rightarrow> string \<Rightarrow> string" where
  "namespacedReferenceKey namespace name = (if name = [] then [] else namespace @ ''/'' @ name)"

definition sortedKeys :: "string list \<Rightarrow> string list" where
  "sortedKeys keys = sort (remdups keys)"

definition indexLitestreamSourceReplicaReference :: "Litestream \<Rightarrow> string list" where
  "indexLitestreamSourceReplicaReference r =
     sortedKeys (filter (\<lambda>k. k \<noteq> [])
       (concat (map (\<lambda>b. case db_Restore b of None \<Rightarrow> [] | Some x \<Rightarrow> [namespacedReferenceKey (li_Namespace r) (rs_ReplicaRef x)])
         (ls_Databases (li_Spec r)))))"

definition indexLitestreamDestinationReplicaReference :: "Litestream \<Rightarrow> string list" where
  "indexLitestreamDestinationReplicaReference r =
     sortedKeys (filter (\<lambda>k. k \<noteq> [])
       (concat (map (\<lambda>b. case db_Replicate b of None \<Rightarrow> [] | Some x \<Rightarrow> [namespacedReferenceKey (li_Namespace r) (rc_ReplicaRef x)])
         (ls_Databases (li_Spec r)))))"

datatype reference_index = SourceIndex | DestinationIndex

text \<open>A listing by index gives the resources, or fails, which the code logs and takes for none.\<close>

type_synonym index_reader = "reference_index \<Rightarrow> string \<Rightarrow> string + Litestream list"

definition litestreamRequests :: "index_reader \<Rightarrow> reference_index \<Rightarrow> string \<Rightarrow> (string \<times> string) list" where
  "litestreamRequests reader field key =
     (if key = [] then []
      else (case reader field key of Inl e \<Rightarrow> [] | Inr rs \<Rightarrow> map (\<lambda>r. (li_Namespace r, li_Name r)) rs))"

definition requestSet :: "(string \<times> string) list \<Rightarrow> (string \<times> string) list" where
  "requestSet requests = sort (remdups requests)"

definition mapReplicaToLitestreams :: "index_reader \<Rightarrow> string \<Rightarrow> string \<Rightarrow> (string \<times> string) list" where
  "mapReplicaToLitestreams reader namespace name =
     (let key = namespacedReferenceKey namespace name
      in requestSet (litestreamRequests reader SourceIndex key @ litestreamRequests reader DestinationIndex key))"

end
