(* ===== verification/Litestream_Mutator.thy ===== *)
theory Litestream_Mutator
  imports Litestream_Inject Litestream_Controller
begin

text \<open>
  The mutating webhook (\<^verbatim>\<open>internal/litestream/webhook/pod_mutator.go\<close>, \<^verbatim>\<open>handler.go\<close>, \<^verbatim>\<open>destination.go\<close>): a
  Pod that names a Litestream resource gets its containers, when the resource is ready, its ConfigMap
  is the one rendered from it and no other Pod writes to the same destination.
\<close>

subsection \<open>Reading the cluster\<close>

record cluster_reader =
  getLitestream :: "string \<Rightarrow> string \<Rightarrow> Litestream get_result"
  getReplica :: replica_reader
  getConfigMap :: "string \<Rightarrow> string \<Rightarrow> ConfigMap get_result"
  listPods :: "string \<Rightarrow> string + Pod list"
  findCondition :: "Condition list \<Rightarrow> string \<Rightarrow> Condition option"

subsection \<open>Destinations\<close>

record replicationDestination =
  ds_replicaRef :: string
  ds_path :: string

definition replicationDestinations :: "Litestream \<Rightarrow> replicationDestination list" where
  "replicationDestinations r =
     concat (map (\<lambda>d. case db_Replicate d of None \<Rightarrow> [] | Some c \<Rightarrow> [\<lparr>ds_replicaRef = rc_ReplicaRef c, ds_path = db_Path d\<rparr>])
       (ls_Databases (li_Spec r)))"

definition shareReplicationDestination :: "Litestream \<Rightarrow> Litestream \<Rightarrow> bool" where
  "shareReplicationDestination first second \<longleftrightarrow>
     list_ex (\<lambda>d. d \<in> set (replicationDestinations first)) (replicationDestinations second)"

definition litestreamReplicates :: "Litestream \<Rightarrow> bool" where
  "litestreamReplicates r \<longleftrightarrow> list_ex (\<lambda>d. db_Replicate d \<noteq> None) (ls_Databases (li_Spec r))"

subsection \<open>Checks before an injection\<close>

definition injectName :: "(string, string) gomap \<Rightarrow> string" where
  "injectName annotations = TrimSpace (mgetZ annotations InjectAnnotation)"

definition podMayWrite :: "Pod \<Rightarrow> bool" where
  "podMayWrite pod \<longleftrightarrow> pod_Phase pod \<noteq> ''Succeeded'' \<and> pod_Phase pod \<noteq> ''Failed''"

fun podConflict :: "cluster_reader \<Rightarrow> Pod \<Rightarrow> Litestream \<Rightarrow> Pod list \<Rightarrow> inject_error option" where
  "podConflict reader pod r [] = None"
| "podConflict reader pod r (p # ps) =
     (if pod_Name p = pod_Name pod \<or> \<not> podMayWrite p then podConflict reader pod r ps
      else if injectName (pod_Annotations p) = [] then podConflict reader pod r ps
      else if injectName (pod_Annotations p) = li_Name r then Some (PodUsesLitestream (pod_Name p) (li_Name r))
      else
        (case getLitestream reader (pod_Namespace pod) (injectName (pod_Annotations p)) of
           NotFound \<Rightarrow> podConflict reader pod r ps
         | GetFailed e \<Rightarrow> Some (LitestreamUnreadable (injectName (pod_Annotations p)) (pod_Name p))
         | Found r' \<Rightarrow>
             if litestreamReplicates r' \<and> shareReplicationDestination r r' then Some (PodUsesDestination (pod_Name p))
             else podConflict reader pod r ps))"

definition validateReplicationConflict :: "cluster_reader \<Rightarrow> Pod \<Rightarrow> Litestream \<Rightarrow> inject_error option" where
  "validateReplicationConflict reader pod r =
     (if \<not> litestreamReplicates r then None
      else (case listPods reader (pod_Namespace pod) of Inl e \<Rightarrow> Some (ListPodsFailed e) | Inr ps \<Rightarrow> podConflict reader pod r ps))"

definition sameData :: "(string, string) gomap \<Rightarrow> (string, string) gomap \<Rightarrow> bool" where
  "sameData a b \<longleftrightarrow> list_all (\<lambda>k. mget a k = mget b k) (map fst a @ map fst b)"

definition publishedConfigMapName :: "Litestream \<Rightarrow> string option" where
  "publishedConfigMapName r = (if st_ConfigMapName (li_Status r) \<noteq> [] then Some (st_ConfigMapName (li_Status r)) else ConfigMapName r)"

definition verifyConfigMap :: "cluster_reader \<Rightarrow> Litestream \<Rightarrow> RenderedConfig \<Rightarrow> inject_error option" where
  "verifyConfigMap reader r rendered =
     (case publishedConfigMapName r of
        None \<Rightarrow> Some (ConfigMapUnavailable ''panic: slice bounds out of range'')
      | Some name \<Rightarrow>
          (case getConfigMap reader (li_Namespace r) name of
             Found cm \<Rightarrow>
               if cm_Controller cm \<noteq> Some (li_UID r) then Some (ConfigMapNotControlled name)
               else if \<not> sameData (cm_Data cm) (rn_Data rendered) then Some (ConfigMapDiffers name)
               else None
           | _ \<Rightarrow> Some (ConfigMapUnavailable name)))"

definition renderReadyResource :: "render_env \<Rightarrow> cluster_reader \<Rightarrow> Litestream \<Rightarrow> Input \<Rightarrow> inject_error + RenderedConfig" where
  "renderReadyResource env reader r inp =
     (case findCondition reader (st_Conditions (li_Status r)) ReadyConditionType of
        None \<Rightarrow> Inl NotReady
      | Some ready \<Rightarrow>
          if cn_Status ready \<noteq> ''True'' then Inl NotReady
          else if cn_ObservedGeneration ready \<noteq> 0 \<and> cn_ObservedGeneration ready \<noteq> li_Generation r
            then Inl (StaleReady (cn_ObservedGeneration ready) (li_Generation r))
          else
            (case Render env inp of
               Inl e \<Rightarrow> Inl (Unrendered e)
             | Inr rendered \<Rightarrow>
                 if st_ConfigHash (li_Status r) = [] then Inl HashEmpty
                 else if st_ConfigHash (li_Status r) \<noteq> rn_Hash rendered then Inl (HashDiffers (st_ConfigHash (li_Status r)) (rn_Hash rendered))
                 else Inr rendered))"

subsection \<open>The webhook\<close>

definition Mutate :: "api_env \<Rightarrow> render_env \<Rightarrow> cluster_reader \<Rightarrow> string \<Rightarrow> Pod option \<Rightarrow> inject_error + Pod" where
  "Mutate api env reader defaultImage podOpt =
     (case podOpt of
        None \<Rightarrow> Inl PodRequired
      | Some pod \<Rightarrow>
          let name = injectName (pod_Annotations pod) in
          if name = [] then Inr pod
          else if pod_Namespace pod = [] then Inl NamespaceUnknown
          else if pod_OS pod = Some ''windows'' then Inl WindowsPod
          else
            (case getLitestream reader (pod_Namespace pod) name of
               NotFound \<Rightarrow> Inl (LitestreamUnavailable name ''not found'')
             | GetFailed e \<Rightarrow> Inl (LitestreamUnavailable name e)
             | Found r \<Rightarrow>
            (case Resolve api (Some (getReplica reader)) (Some r) of
               Inl e \<Rightarrow> Inl (Unresolved e)
             | Inr inp \<Rightarrow>
            (case renderReadyResource env reader r inp of
               Inl e \<Rightarrow> Inl e
             | Inr rendered \<Rightarrow>
            (case verifyConfigMap reader r rendered of
               Some e \<Rightarrow> Inl e
             | None \<Rightarrow>
            (case validateReplicationConflict reader pod r of
               Some e \<Rightarrow> Inl e
             | None \<Rightarrow>
            (case ResolveTarget pod inp of
               Inl e \<Rightarrow> Inl e
             | Inr target \<Rightarrow>
            (case buildInjection api env pod inp rendered target (the (publishedConfigMapName r)) defaultImage of
               Inl e \<Rightarrow> Inl e
             | Inr injection \<Rightarrow> applyInjection pod injection))))))))"

text \<open>The handler: what the decoder makes of the request, and the response it gives.\<close>

datatype 'a response = Allowed string | Denied 'a | Errored nat string | Patched Pod

definition Handler_Handle ::
    "api_env \<Rightarrow> render_env \<Rightarrow> cluster_reader \<Rightarrow> string \<Rightarrow> string \<Rightarrow> string + Pod \<Rightarrow> inject_error response" where
  "Handler_Handle api env reader defaultImage operation decoded =
     (if operation \<noteq> ''CREATE'' then Allowed ''only Pod creation is subject to litestream injection''
      else
        (case decoded of
           Inl e \<Rightarrow> Errored 400 e
         | Inr pod \<Rightarrow> (case Mutate api env reader defaultImage (Some pod) of Inl e \<Rightarrow> Denied e | Inr pod' \<Rightarrow> Patched pod')))"

subsection \<open>What an accepted Pod is\<close>

lemma Mutate_cases:
  assumes "Mutate api env reader img (Some pod) = Inr pod'" "injectName (pod_Annotations pod) \<noteq> []"
  obtains r inp rendered target injection where
    "getLitestream reader (pod_Namespace pod) (injectName (pod_Annotations pod)) = Found r"
    "Resolve api (Some (getReplica reader)) (Some r) = Inr inp" "renderReadyResource env reader r inp = Inr rendered"
    "verifyConfigMap reader r rendered = None" "validateReplicationConflict reader pod r = None" "ResolveTarget pod inp = Inr target"
    "buildInjection api env pod inp rendered target (the (publishedConfigMapName r)) img = Inr injection" "applyInjection pod injection = Inr pod'"
    "pod_Namespace pod \<noteq> []" "pod_OS pod \<noteq> Some ''windows''"
  using assms by (simp add: Mutate_def Let_def split: if_splits get_result.splits sum.splits option.splits)

end
