(* ===== verification/Litestream_Pods.thy ===== *)
theory Litestream_Pods
  imports Litestream_Mutator
begin

text \<open>
  Properties of injected Pods: injecting twice is injecting once, what the Pod had stays, images are
  pinned, and the target volume holds the databases.
\<close>

subsection \<open>Volumes\<close>

lemma findVolume_append: "findVolume (vs @ ws) n = (case findVolume vs n of None \<Rightarrow> findVolume ws n | Some v \<Rightarrow> Some v)"
  by (induction vs) (simp_all add: findVolume_def)

lemma findVolume_single: "findVolume [v] n = (if vo_Name v = n then Some v else None)"
  by (simp add: findVolume_def)

lemma applyVolumes_keeps: "applyVolumes vs frag = Inr vs' \<Longrightarrow> findVolume vs n = Some w \<Longrightarrow> findVolume vs' n = Some w"
proof (induction frag arbitrary: vs)
  case (Cons v frag)
  then show ?case by (cases "findVolume vs (vo_Name v)") (auto simp: findVolume_append split: if_splits)
qed simp

lemma applyVolumes_adds: "applyVolumes vs frag = Inr vs' \<Longrightarrow> v \<in> set frag \<Longrightarrow> findVolume vs' (vo_Name v) = Some v"
proof (induction frag arbitrary: vs)
  case (Cons w frag)
  show ?case
  proof (cases "findVolume vs (vo_Name w)")
    case None
    then have run: "applyVolumes (vs @ [w]) frag = Inr vs'" using Cons.prems(1) by simp
    have "findVolume (vs @ [w]) (vo_Name w) = Some w" using None by (simp add: findVolume_append findVolume_single)
    then show ?thesis using Cons.IH [OF run] Cons.prems(2) applyVolumes_keeps [OF run] by auto
  next
    case (Some e)
    then have run: "applyVolumes vs frag = Inr vs'" "e = w" using Cons.prems(1) by (auto split: if_splits)
    then show ?thesis using Cons.IH [OF run(1)] Cons.prems(2) applyVolumes_keeps [OF run(1)] Some by auto
  qed
qed simp

lemma applyVolumes_stable: "(\<And>v. v \<in> set frag \<Longrightarrow> findVolume vs (vo_Name v) = Some v) \<Longrightarrow> applyVolumes vs frag = Inr vs"
  by (induction frag) auto

lemma applyVolumes_twice: "applyVolumes vs frag = Inr vs' \<Longrightarrow> applyVolumes vs' frag = Inr vs'"
  by (rule applyVolumes_stable) (rule applyVolumes_adds)

lemma applyVolumes_extends:
  assumes "applyVolumes vs frag = Inr vs'"
  obtains ws where "vs' = vs @ ws" "list_all (\<lambda>v. v \<in> set frag \<and> findVolume vs (vo_Name v) = None) ws"
  using assms
proof (induction frag arbitrary: vs thesis)
  case (Cons v frag)
  show ?case
  proof (cases "findVolume vs (vo_Name v)")
    case None
    then have run: "applyVolumes (vs @ [v]) frag = Inr vs'" using Cons.prems(2) by simp
    obtain ws where ws: "vs' = (vs @ [v]) @ ws" "list_all (\<lambda>w. w \<in> set frag \<and> findVolume (vs @ [v]) (vo_Name w) = None) ws"
      by (rule Cons.IH [OF _ run])
    show ?thesis
    proof (rule Cons.prems(1))
      show "vs' = vs @ v # ws" using ws(1) by simp
      show "list_all (\<lambda>x. x \<in> set (v # frag) \<and> findVolume vs (vo_Name x) = None) (v # ws)"
        using ws(2) None by (auto simp: list_all_iff findVolume_append split: option.splits)
    qed
  next
    case (Some e)
    then have run: "applyVolumes vs frag = Inr vs'" using Cons.prems(2) by (auto split: if_splits)
    show ?thesis by (rule Cons.IH [OF _ run]) (rule Cons.prems(1), auto simp: list_all_iff)
  qed
qed simp

lemma checkMounts_mono:
  assumes "\<And>n. findVolume pv n \<noteq> None \<Longrightarrow> findVolume pv' n \<noteq> None"
  shows "checkMounts pv frag gen seen ms = None \<Longrightarrow> checkMounts pv' frag gen seen ms = None"
  using assms by (induction ms arbitrary: seen) (auto simp: Let_def split: if_splits)

subsection \<open>Init containers\<close>

lemma findContainer_None: "findContainer cs n = None \<longleftrightarrow> n \<notin> ct_Name ` set cs"
  by (auto simp: findContainer_def find_None_iff)

lemma findContainer_append: "findContainer (cs @ ds) n = (case findContainer cs n of None \<Rightarrow> findContainer ds n | Some c \<Rightarrow> Some c)"
  by (induction cs) (simp_all add: findContainer_def)

lemma findContainer_distinct: "distinct (map ct_Name cs) \<Longrightarrow> c \<in> set cs \<Longrightarrow> findContainer cs (ct_Name c) = Some c"
  by (induction cs) (auto simp: findContainer_def)

lemma checkContainers_None:
  "checkContainers pod cs = None \<longleftrightarrow>
     (\<forall>c\<in>set cs. findContainer (pod_Containers pod) (ct_Name c) = None \<and> (\<forall>e. findContainer (pod_InitContainers pod) (ct_Name c) = Some e \<longrightarrow> e = c))"
  by (induction cs) (auto split: option.splits)

lemma merge_checked:
  assumes "checkContainers pod cs = None"
  shows "mergeInitContainers (pod_InitContainers pod) cs = cs @ filter (\<lambda>c. ct_Name c \<notin> ct_Name ` set cs) (pod_InitContainers pod)"
proof -
  have "map (\<lambda>c. case findContainer (pod_InitContainers pod) (ct_Name c) of Some e \<Rightarrow> e | None \<Rightarrow> c) cs = cs"
    using assms by (auto simp: checkContainers_None split: option.split intro!: map_idI)
  then show ?thesis by (simp add: mergeInitContainers_def findContainer_None)
qed

lemma checkContainers_again:
  assumes "checkContainers pod cs = None" "distinct (map ct_Name cs)"
    and "pod_Containers pod' = pod_Containers pod" "pod_InitContainers pod' = cs @ filter (\<lambda>c. ct_Name c \<notin> ct_Name ` set cs) ds"
  shows "checkContainers pod' cs = None"
  using assms by (auto simp: checkContainers_None findContainer_append findContainer_distinct)

lemma applySecurity_twice:
  assumes "applyPodSecurityContext pod c = Inr pod'"
  shows "applyPodSecurityContext pod' c = Inr pod'"
proof (cases "c = None \<or> (\<exists>x. c = Some x \<and> FSGroup x = None)")
  case True
  then show ?thesis using assms by (auto simp: applyPodSecurityContext_def)
next
  case False
  then obtain x g where x: "c = Some x" "FSGroup x = Some g" by auto
  define current where "current = (case pod_SecurityContext pod of Some s \<Rightarrow> s | None \<Rightarrow> \<lparr>FSGroup = None, FSGroupChangePolicy = None, psc_Others = []\<rparr>)"
  define after where "after = current\<lparr>FSGroup := (if FSGroup current = None then FSGroup x else FSGroup current),
    FSGroupChangePolicy := (if FSGroupChangePolicy current = None then FSGroupChangePolicy x else FSGroupChangePolicy current)\<rparr>"
  have step: "applyPodSecurityContext pod c = (case fsGroupConflict current x of Some e \<Rightarrow> Inl e | None \<Rightarrow> Inr (pod\<lparr>pod_SecurityContext := Some after\<rparr>))"
  proof (cases "pod_SecurityContext pod")
    case None
    then have "fsGroupConflict current x = None" by (simp add: current_def fsGroupConflict_def)
    then show ?thesis using x None by (simp add: applyPodSecurityContext_def after_def current_def)
  next
    case (Some cur)
    then show ?thesis using x by (simp add: applyPodSecurityContext_def after_def current_def split: option.split)
  qed
  then have ok: "fsGroupConflict current x = None" and pod': "pod' = pod\<lparr>pod_SecurityContext := Some after\<rparr>"
    using assms by (simp_all split: option.splits)
  have again: "fsGroupConflict after x = None"
    using ok x by (cases "FSGroup current"; cases "FSGroupChangePolicy current"; simp add: after_def fsGroupConflict_def split: if_splits)
  have "FSGroup after \<noteq> None" using x by (cases "FSGroup current") (simp_all add: after_def)
  moreover have "FSGroupChangePolicy after = None \<Longrightarrow> FSGroupChangePolicy x = None" by (simp add: after_def split: if_splits)
  ultimately have fixed: "after\<lparr>FSGroup := (if FSGroup after = None then FSGroup x else FSGroup after),
      FSGroupChangePolicy := (if FSGroupChangePolicy after = None then FSGroupChangePolicy x else FSGroupChangePolicy after)\<rparr> = after"
    by (cases after) auto
  show ?thesis using x again fixed unfolding pod' by (simp add: applyPodSecurityContext_def Let_def)
qed

lemma applySecurity_only: "applyPodSecurityContext pod c = Inr pod' \<Longrightarrow> pod' = pod\<lparr>pod_SecurityContext := pod_SecurityContext pod'\<rparr>"
  by (auto simp: applyPodSecurityContext_def Let_def split: option.splits if_splits)

lemma applyInjection_parts:
  assumes "applyInjection pod frag = Inr pod'"
  obtains volumes where "applyVolumes (pod_Volumes pod) (pi_volumes frag) = Inr volumes" "checkContainers pod (pi_initContainers frag) = None"
    "applyPodSecurityContext (pod\<lparr>pod_Volumes := volumes, pod_InitContainers := mergeInitContainers (pod_InitContainers pod) (pi_initContainers frag)\<rparr>)
       (pi_podSecurityContext frag) = Inr pod'"
  using assms by (auto simp: applyInjection_def split: sum.splits option.splits)

lemma applyInjection_result:
  assumes "applyInjection pod frag = Inr pod'"
  obtains volumes where "applyVolumes (pod_Volumes pod) (pi_volumes frag) = Inr volumes"
    "pod' = pod\<lparr>pod_Volumes := volumes,
       pod_InitContainers := pi_initContainers frag @ filter (\<lambda>c. ct_Name c \<notin> ct_Name ` set (pi_initContainers frag)) (pod_InitContainers pod),
       pod_SecurityContext := pod_SecurityContext pod'\<rparr>"
    "checkContainers pod (pi_initContainers frag) = None"
  by (rule applyInjection_parts [OF assms]) (use that merge_checked applySecurity_only in force)

lemma applyInjection_twice:
  assumes "applyInjection pod frag = Inr pod'" "distinct (map ct_Name (pi_initContainers frag))"
  shows "applyInjection pod' frag = Inr pod'"
proof -
  obtain volumes where v: "applyVolumes (pod_Volumes pod) (pi_volumes frag) = Inr volumes" and c: "checkContainers pod (pi_initContainers frag) = None"
    and s: "applyPodSecurityContext (pod\<lparr>pod_Volumes := volumes, pod_InitContainers := mergeInitContainers (pod_InitContainers pod) (pi_initContainers frag)\<rparr>)
       (pi_podSecurityContext frag) = Inr pod'" by (rule applyInjection_parts [OF assms(1)])
  have p: "pod_Volumes pod' = volumes" "pod_Containers pod' = pod_Containers pod"
    "pod_InitContainers pod' = pi_initContainers frag @ filter (\<lambda>c. ct_Name c \<notin> ct_Name ` set (pi_initContainers frag)) (pod_InitContainers pod)"
    by (subst applySecurity_only [OF s], simp add: merge_checked [OF c])+
  have again: "checkContainers pod' (pi_initContainers frag) = None" by (rule checkContainers_again [OF c assms(2) p(2,3)])
  have "mergeInitContainers (pod_InitContainers pod') (pi_initContainers frag) = pod_InitContainers pod'"
    unfolding merge_checked [OF again] using p(3) by (simp add: filter_empty_conv)
  then have "pod'\<lparr>pod_Volumes := volumes, pod_InitContainers := mergeInitContainers (pod_InitContainers pod') (pi_initContainers frag)\<rparr> = pod'"
    using p(1) by simp
  then show ?thesis using applyVolumes_twice [OF v] again applySecurity_twice [OF s] p(1) by (simp add: applyInjection_def)
qed

subsection \<open>Injections have distinct containers\<close>

lemma restoreContainers_names:
  "restoreContainers api inp cs img base secrets ds = Inr rs \<Longrightarrow> map ct_Name rs = map (\<lambda>d. RestoreContainerNamePrefix @ rd_Name d) ds"
  by (induction ds arbitrary: rs) (auto simp: Let_def injectedContainer_def split: if_splits sum.splits)

lemma restoreContainers_image: "restoreContainers api inp cs img base secrets ds = Inr rs \<Longrightarrow> list_all (\<lambda>c. ct_Image c = img) rs"
  by (induction ds arbitrary: rs) (auto simp: Let_def injectedContainer_def split: if_splits sum.splits)

lemma buildInjection_parts:
  assumes "buildInjection api env pod inp rendered target cm def = Inr frag"
  obtains img mount st restores where "resolveImage api (in_Image inp) def = Inr img" "databaseVolumeMount pod target = Inr mount"
    "st = fold (addSecretMount env (rn_Credentials rendered)) (injectedPurposes inp rendered) ([configVolume cm], [])"
    "checkExtraVolumeMounts pod (fst st) ([plainMount ConfigVolumeName ConfigMountDir, mount] @ map snd (snd st)) (ExtraVolumeMounts (in_Injection inp)) = None"
    "checkPodSecurityContext (ij_PodSecurityContext (in_Injection inp)) = None"
    "validateContainerSecurityContext (ij_ContainerSecurityContext (in_Injection inp)) = None"
    "restoreContainers api inp (rn_Credentials rendered) img [plainMount ConfigVolumeName ConfigMountDir, mount] (snd st) (in_Databases inp) = Inr restores"
    "frag = \<lparr>pi_volumes = fst st,
       pi_initContainers = restores @ (if replicates rendered
         then [replicateContainer inp (rn_Credentials rendered) img [plainMount ConfigVolumeName ConfigMountDir, mount] (snd st)] else []),
       pi_podSecurityContext = ij_PodSecurityContext (in_Injection inp)\<rparr>"
  using assms unfolding buildInjection_def Let_def by (auto split: sum.splits option.splits)

lemma build_distinct:
  assumes "buildInjection api env pod inp rendered target cm def = Inr frag" "distinct (map rd_Name (in_Databases inp))"
  shows "distinct (map ct_Name (pi_initContainers frag))"
proof (rule buildInjection_parts [OF assms(1)])
  fix img mount st restores
  assume r: "restoreContainers api inp (rn_Credentials rendered) img [plainMount ConfigVolumeName ConfigMountDir, mount] (snd st) (in_Databases inp) = Inr restores"
    and frag: "frag = \<lparr>pi_volumes = fst st,
       pi_initContainers = restores @ (if replicates rendered
         then [replicateContainer inp (rn_Credentials rendered) img [plainMount ConfigVolumeName ConfigMountDir, mount] (snd st)] else []),
       pi_podSecurityContext = ij_PodSecurityContext (in_Injection inp)\<rparr>"
  have "distinct (map ct_Name restores)" "ReplicateContainerName \<notin> set (map ct_Name restores)"
    using assms(2) unfolding restoreContainers_names [OF r]
    by (auto simp: distinct_map inj_on_def RestoreContainerNamePrefix_def ReplicateContainerName_def)
  then show ?thesis unfolding frag by (auto simp: replicateContainer_def injectedContainer_def)
qed

lemma build_images:
  assumes "buildInjection api env pod inp rendered target cm def = Inr frag"
  obtains img where "resolveImage api (in_Image inp) def = Inr img" "list_all (\<lambda>c. ct_Image c = img) (pi_initContainers frag)"
  by (rule buildInjection_parts [OF assms]) (use that restoreContainers_image in \<open>force simp: replicateContainer_def injectedContainer_def\<close>)

lemma build_again:
  assumes "buildInjection api env pod inp rendered target cm def = Inr frag" "pod_Containers pod' = pod_Containers pod"
    and "\<And>n. findVolume (pod_Volumes pod) n \<noteq> None \<Longrightarrow> findVolume (pod_Volumes pod') n \<noteq> None"
  shows "buildInjection api env pod' inp rendered target cm def = Inr frag"
proof (rule buildInjection_parts [OF assms(1)])
  fix img mount st restores
  assume a: "resolveImage api (in_Image inp) def = Inr img" "databaseVolumeMount pod target = Inr mount"
    "st = fold (addSecretMount env (rn_Credentials rendered)) (injectedPurposes inp rendered) ([configVolume cm], [])"
    and m: "checkExtraVolumeMounts pod (fst st) ([plainMount ConfigVolumeName ConfigMountDir, mount] @ map snd (snd st)) (ExtraVolumeMounts (in_Injection inp)) = None"
    and b: "checkPodSecurityContext (ij_PodSecurityContext (in_Injection inp)) = None"
    "validateContainerSecurityContext (ij_ContainerSecurityContext (in_Injection inp)) = None"
    "restoreContainers api inp (rn_Credentials rendered) img [plainMount ConfigVolumeName ConfigMountDir, mount] (snd st) (in_Databases inp) = Inr restores"
    "frag = \<lparr>pi_volumes = fst st,
       pi_initContainers = restores @ (if replicates rendered
         then [replicateContainer inp (rn_Credentials rendered) img [plainMount ConfigVolumeName ConfigMountDir, mount] (snd st)] else []),
       pi_podSecurityContext = ij_PodSecurityContext (in_Injection inp)\<rparr>"
  have mount: "databaseVolumeMount pod' target = Inr mount" using a(2) unfolding databaseVolumeMount_def assms(2) .
  have "checkExtraVolumeMounts pod' (fst st) ([plainMount ConfigVolumeName ConfigMountDir, mount] @ map snd (snd st)) (ExtraVolumeMounts (in_Injection inp)) = None"
    using m checkMounts_mono [of "pod_Volumes pod" "pod_Volumes pod'"] assms(3) unfolding checkExtraVolumeMounts_def by blast
  then show ?thesis using a(1,3) b mount unfolding buildInjection_def Let_def by simp
qed

text \<open>C6. Injecting is idempotent: the webhook leaves a Pod it has injected as it is, when it sees it
  again with the cluster unchanged (Kubernetes may invoke a mutating webhook more than once).\<close>

theorem mutate_idempotent:
  assumes "Mutate api env reader img (Some pod) = Inr pod'"
  shows "Mutate api env reader img (Some pod') = Inr pod'"
proof (cases "injectName (pod_Annotations pod) = []")
  case True
  then show ?thesis using assms by (simp add: Mutate_def)
next
  case False
  show ?thesis
  proof (rule Mutate_cases [OF assms False])
    fix r inp rendered target frag
    assume r: "getLitestream reader (pod_Namespace pod) (injectName (pod_Annotations pod)) = Found r"
      and inp: "Resolve api (Some (getReplica reader)) (Some r) = Inr inp" and rest: "renderReadyResource env reader r inp = Inr rendered"
      "verifyConfigMap reader r rendered = None" and conflict: "validateReplicationConflict reader pod r = None"
      and target: "ResolveTarget pod inp = Inr target"
      and build: "buildInjection api env pod inp rendered target (the (publishedConfigMapName r)) img = Inr frag"
      and app: "applyInjection pod frag = Inr pod'" and pre: "pod_Namespace pod \<noteq> []" "pod_OS pod \<noteq> Some ''windows''"
    obtain volumes where vol: "applyVolumes (pod_Volumes pod) (pi_volumes frag) = Inr volumes" and pod': "pod' = pod\<lparr>pod_Volumes := volumes,
       pod_InitContainers := pi_initContainers frag @ filter (\<lambda>c. ct_Name c \<notin> ct_Name ` set (pi_initContainers frag)) (pod_InitContainers pod),
       pod_SecurityContext := pod_SecurityContext pod'\<rparr>" by (rule applyInjection_result [OF app])
    have same: "pod_Namespace pod' = pod_Namespace pod" "pod_Name pod' = pod_Name pod" "pod_Annotations pod' = pod_Annotations pod"
      "pod_OS pod' = pod_OS pod" "pod_Containers pod' = pod_Containers pod" "pod_Volumes pod' = volumes"
      by (subst pod', simp)+
    have "podConflict reader pod' r ps = podConflict reader pod r ps" for ps by (induction ps) (simp_all add: same split: get_result.split)
    then have conflict': "validateReplicationConflict reader pod' r = None" using conflict by (simp add: validateReplicationConflict_def same split: sum.splits if_splits)
    have target': "ResolveTarget pod' inp = Inr target" using target unfolding ResolveTarget_def same .
    have build': "buildInjection api env pod' inp rendered target (the (publishedConfigMapName r)) img = Inr frag"
      by (rule build_again [OF build same(5)]) (use applyVolumes_keeps [OF vol] same(6) in auto)
    have "applyInjection pod' frag = Inr pod'"
      by (rule applyInjection_twice [OF app build_distinct [OF build resolved_distinct [OF inp]]])
    then show ?thesis using False r inp rest conflict' target' build' pre by (simp add: Mutate_def Let_def same)
  qed
qed

subsection \<open>Images\<close>

lemma lastIndex_append: "c \<notin> set t \<Longrightarrow> lastIndex c (s @ t) = lastIndex c s"
proof -
  assume c: "c \<notin> set t"
  then have "takeWhile (\<lambda>x. x \<noteq> c) (rev t @ rev s) = rev t @ takeWhile (\<lambda>x. x \<noteq> c) (rev s)" by (intro takeWhile_append2) auto
  then show ?thesis using c by (simp add: lastIndex_def)
qed

lemma lastIndex_at: "c \<notin> set t \<Longrightarrow> lastIndex c (s @ c # t) = int (length s)"
  using lastIndex_append [of c t "s @ [c]"] by (simp add: lastIndex_def)

lemma lastIndex_less: "lastIndex c s < int (length s)"
  by (simp add: lastIndex_def)

lemma digest_chars: "imageDigestPattern d \<Longrightarrow> CHR ''@'' \<notin> set d"
  by (auto simp: imageDigestPattern_def cutPrefix_Some list_all_iff split: option.splits)

lemma word_chars: "\<not> wordChar (CHR ''@'')" "\<not> wordChar (CHR '':'')" "\<not> wordChar (CHR ''/'')"
  by (simp_all add: wordChar_def lowerAlnum_def)

lemma tag_chars: "imageTagPattern t \<Longrightarrow> CHR ''@'' \<notin> set t \<and> CHR '':'' \<notin> set t \<and> CHR ''/'' \<notin> set t"
  using word_chars by (auto simp: imageTagPattern_def list_all_iff split: list.splits)

lemma tagged_repository:
  assumes "\<not> imageRepositoryHasTag repo" "CHR ''@'' \<notin> set repo" "tag = [] \<or> (\<exists>t. tag = CHR '':'' # t \<and> imageTagPattern t)"
  shows "imageRepository (repo @ tag) = repo" "CHR ''@'' \<notin> set (repo @ tag)"
    "imageRepositoryHasTag (repo @ tag) \<Longrightarrow> imageTagPattern (drop (nat (lastIndex (CHR '':'') (repo @ tag) + 1)) (repo @ tag))"
proof -
  show at: "CHR ''@'' \<notin> set (repo @ tag)" using assms(2,3) tag_chars by auto
  then have whole: "takeWhile (\<lambda>c. c \<noteq> CHR ''@'') (repo @ tag) = repo @ tag" by (auto simp: takeWhile_eq_all_conv)
  show "imageRepository (repo @ tag) = repo"
  proof (cases "tag = []")
    case True
    then show ?thesis unfolding imageRepository_def whole Let_def using assms(1) by (simp add: imageRepositoryHasTag_def)
  next
    case False
    then obtain t where t: "tag = CHR '':'' # t" "imageTagPattern t" using assms(3) by auto
    have "lastIndex (CHR ''/'') (repo @ tag) < int (length repo)"
      using tag_chars [OF t(2)] lastIndex_append [of "CHR ''/''" tag repo] lastIndex_less [of "CHR ''/''" repo] t(1) by simp
    then show ?thesis unfolding imageRepository_def whole Let_def using lastIndex_at [of "CHR '':''" t repo] tag_chars [OF t(2)] t(1) by simp
  qed
  show "imageTagPattern (drop (nat (lastIndex (CHR '':'') (repo @ tag) + 1)) (repo @ tag))" if tagged: "imageRepositoryHasTag (repo @ tag)"
  proof -
    obtain t where t: "tag = CHR '':'' # t" "imageTagPattern t" using assms(1,3) tagged by auto
    then show ?thesis using lastIndex_at [of "CHR '':''" t repo] tag_chars [OF t(2)] by (simp add: nat_add_distrib)
  qed
qed

lemma resolved_image_pinned: "resolveImage api spec def = Inr img \<Longrightarrow> ValidateImageReference api img = None"
proof -
  assume img: "resolveImage api spec def = Inr img"
  show ?thesis
  proof (cases "im_Repository spec = [] \<and> im_Tag spec = [] \<and> im_Digest spec = []")
    case True
    then show ?thesis using img by (auto simp: resolveImage_def validateDefaultImage_def split: option.splits if_splits)
  next
    case False
    define tag where "tag = (if im_Tag spec \<noteq> [] then '':'' @ im_Tag spec else [])"
    obtain repo where repo: "repo \<noteq> []" "CHR ''@'' \<notin> set repo" "\<not> imageRepositoryHasTag repo" "ValidateImageRepository api repo"
      and dig: "imageDigestPattern (im_Digest spec)" and tag: "tag = [] \<or> (\<exists>t. tag = CHR '':'' # t \<and> imageTagPattern t)"
      and eq: "img = (repo @ tag) @ CHR ''@'' # im_Digest spec"
      using img False unfolding resolveImage_def tag_def by (auto split: if_splits sum.splits option.splits)
    have "lastIndex (CHR ''@'') img = int (length (repo @ tag))" unfolding eq by (rule lastIndex_at [OF digest_chars [OF dig]])
    moreover have "take (length (repo @ tag)) img = repo @ tag" "drop (length (repo @ tag) + 1) img = im_Digest spec" unfolding eq by simp_all
    moreover have "\<not> int (length repo) + int (length tag) \<le> 0" using repo(1) by (cases repo) auto
    ultimately show ?thesis using repo dig tagged_repository [OF repo(3,2) tag] by (simp add: ValidateImageReference_def Let_def nat_add_distrib)
  qed
qed

subsection \<open>What is changed\<close>

definition keeps_security :: "PodSecurityContext option \<Rightarrow> PodSecurityContext option \<Rightarrow> bool" where
  "keeps_security before after \<longleftrightarrow>
     (case before of
        None \<Rightarrow> True
      | Some b \<Rightarrow>
          (case after of
             None \<Rightarrow> False
           | Some a \<Rightarrow> psc_Others a = psc_Others b \<and> FSGroup b \<in> {None, FSGroup a} \<and> FSGroupChangePolicy b \<in> {None, FSGroupChangePolicy a}))"

lemma keeps_security_refl: "keeps_security s s"
  by (simp add: keeps_security_def split: option.split)

lemma applyInjection_security:
  assumes "applyInjection pod frag = Inr pod'"
  shows "keeps_security (pod_SecurityContext pod) (pod_SecurityContext pod')"
proof (rule applyInjection_parts [OF assms])
  fix volumes
  assume s: "applyPodSecurityContext (pod\<lparr>pod_Volumes := volumes, pod_InitContainers := mergeInitContainers (pod_InitContainers pod) (pi_initContainers frag)\<rparr>)
       (pi_podSecurityContext frag) = Inr pod'"
  show ?thesis
  proof (cases "pod_SecurityContext pod")
    case None
    then show ?thesis by (simp add: keeps_security_def)
  next
    case (Some b)
    then show ?thesis using s
      by (auto simp: applyPodSecurityContext_def keeps_security_def Let_def split: option.splits if_splits)
  qed
qed

lemma init_containers_kept:
  assumes "checkContainers pod cs = None" "distinct (map ct_Name (pod_InitContainers pod))"
    and "ics = cs @ filter (\<lambda>c. ct_Name c \<notin> ct_Name ` set cs) (pod_InitContainers pod)"
  shows "set (pod_InitContainers pod) \<subseteq> set ics"
proof
  fix x
  assume x: "x \<in> set (pod_InitContainers pod)"
  have "c = x" if "c \<in> set cs" "ct_Name c = ct_Name x" for c
    using that assms(1) findContainer_distinct [OF assms(2) x] by (auto simp: checkContainers_None)
  then show "x \<in> set ics" using x assms(3) by force
qed

text \<open>C22. What the webhook changes. An accepted Pod keeps its containers, its annotations and everything
  else; it gets volumes under names it did not use, and init containers that run before its own and use
  an image pinned by digest. The name of such an init container is no container's of the Pod, and no init
  container's either, unless the Pod already has that very init container, which is then only moved to the
  front: a different one under the name is never replaced, and when the Pod's init containers
  have distinct names, as Kubernetes requires, all of them are still there. Of the security context only
  the group and policy of volumes are set, and they stay when they were set.\<close>

theorem mutate_adds_only:
  assumes "Mutate api env reader img (Some pod) = Inr pod'"
  shows "\<exists>volumes inits. pod' = pod\<lparr>pod_Volumes := pod_Volumes pod @ volumes,
        pod_InitContainers := inits @ filter (\<lambda>c. ct_Name c \<notin> ct_Name ` set inits) (pod_InitContainers pod),
        pod_SecurityContext := pod_SecurityContext pod'\<rparr>
     \<and> list_all (\<lambda>v. findVolume (pod_Volumes pod) (vo_Name v) = None) volumes
     \<and> list_all (\<lambda>c. ValidateImageReference api (ct_Image c) = None \<and> findContainer (pod_Containers pod) (ct_Name c) = None
          \<and> findContainer (pod_InitContainers pod) (ct_Name c) \<in> {None, Some c}) inits
     \<and> (distinct (map ct_Name (pod_InitContainers pod)) \<longrightarrow> set (pod_InitContainers pod) \<subseteq> set (pod_InitContainers pod'))
     \<and> keeps_security (pod_SecurityContext pod) (pod_SecurityContext pod')"
proof (cases "injectName (pod_Annotations pod) = []")
  case True
  then have "pod' = pod" using assms by (simp add: Mutate_def)
  then show ?thesis by (intro exI [of _ "[]"]) (simp add: keeps_security_refl)
next
  case False
  show ?thesis
  proof (rule Mutate_cases [OF assms False])
    fix r inp rendered target frag
    assume build: "buildInjection api env pod inp rendered target (the (publishedConfigMapName r)) img = Inr frag"
      and app: "applyInjection pod frag = Inr pod'"
    obtain volumes where vol: "applyVolumes (pod_Volumes pod) (pi_volumes frag) = Inr volumes" and pod': "pod' = pod\<lparr>pod_Volumes := volumes,
       pod_InitContainers := pi_initContainers frag @ filter (\<lambda>c. ct_Name c \<notin> ct_Name ` set (pi_initContainers frag)) (pod_InitContainers pod),
       pod_SecurityContext := pod_SecurityContext pod'\<rparr>" and check: "checkContainers pod (pi_initContainers frag) = None"
      by (rule applyInjection_result [OF app])
    obtain ws where ws: "volumes = pod_Volumes pod @ ws" "list_all (\<lambda>v. v \<in> set (pi_volumes frag) \<and> findVolume (pod_Volumes pod) (vo_Name v) = None) ws"
      by (rule applyVolumes_extends [OF vol])
    obtain i where i: "resolveImage api (in_Image inp) img = Inr i" "list_all (\<lambda>c. ct_Image c = i) (pi_initContainers frag)"
      by (rule build_images [OF build])
    have "list_all (\<lambda>c. ValidateImageReference api (ct_Image c) = None \<and> findContainer (pod_Containers pod) (ct_Name c) = None
        \<and> findContainer (pod_InitContainers pod) (ct_Name c) \<in> {None, Some c}) (pi_initContainers frag)"
      using i(2) resolved_image_pinned [OF i(1)] check
      by (simp add: list_all_iff checkContainers_None) (metis option.exhaust)
    moreover have "set (pod_InitContainers pod) \<subseteq> set (pod_InitContainers pod')" if "distinct (map ct_Name (pod_InitContainers pod))"
      by (rule init_containers_kept [OF check that arg_cong [where f = pod_InitContainers, OF pod', simplified]])
    moreover have "list_all (\<lambda>v. findVolume (pod_Volumes pod) (vo_Name v) = None) ws" using ws(2) by (simp add: list_all_iff)
    moreover have "keeps_security (pod_SecurityContext pod) (pod_SecurityContext pod')" by (rule applyInjection_security [OF app])
    ultimately show ?thesis using pod' ws(1) by blast
  qed
qed

subsection \<open>The target\<close>

text \<open>A mount the injection may use: of a selected container and volume, absolute, above every database.\<close>

definition eligible :: "Pod \<Rightarrow> Input \<Rightarrow> nat \<Rightarrow> VolumeMount \<Rightarrow> bool" where
  "eligible pod inp i m \<longleftrightarrow> i < length (pod_Containers pod) \<and> m \<in> set (ct_VolumeMounts (pod_Containers pod ! i))
     \<and> selects (selected (pod_Annotations pod) TargetContainerAnnotation (TargetContainer (in_Injection inp))) (ct_Name (pod_Containers pod ! i))
     \<and> selects (selected (pod_Annotations pod) VolumeAnnotation (ij_Volume (in_Injection inp))) (vm_Name m)
     \<and> isAbs (pathClean (vm_MountPath m)) \<and> list_all (\<lambda>d. pathContains (pathClean (vm_MountPath m)) (pathClean (rd_Path d))) (in_Databases inp)"

definition targetOf :: "Pod \<Rightarrow> nat \<Rightarrow> VolumeMount \<Rightarrow> ResolvedTarget" where
  "targetOf pod i m = \<lparr>tg_ContainerIndex = i, tg_ContainerName = ct_Name (pod_Containers pod ! i), tg_VolumeName = vm_Name m,
     tg_MountPath = pathClean (vm_MountPath m)\<rparr>"

lemma cleanDatabasePaths_map: "cleanDatabasePaths ds = Inr ps \<Longrightarrow> ps = map (\<lambda>d. pathClean (rd_Path d)) ds"
  by (induction ds arbitrary: ps) (auto split: if_splits sum.splits)

lemma candidates_eligible:
  assumes "cleanDatabasePaths (in_Databases inp) = Inr ps"
  shows "t \<in> set (targetCandidates (selected (pod_Annotations pod) TargetContainerAnnotation (TargetContainer (in_Injection inp)))
      (selected (pod_Annotations pod) VolumeAnnotation (ij_Volume (in_Injection inp))) ps (pod_Containers pod))
    \<longleftrightarrow> (\<exists>i m. eligible pod inp i m \<and> t = targetOf pod i m)"
    (is "_ \<in> set (targetCandidates ?c ?v _ _) \<longleftrightarrow> _")
proof -
  have "t \<in> set (targetCandidates ?c ?v ps (pod_Containers pod)) \<longleftrightarrow>
     (\<exists>i<length (pod_Containers pod). selects ?c (ct_Name (pod_Containers pod ! i)) \<and> t \<in> set (mountCandidates ?v ps i (pod_Containers pod ! i)))"
    by (force simp: targetCandidates_def in_set_enumerate_eq split: if_splits)
  then show ?thesis
    unfolding cleanDatabasePaths_map [OF assms] eligible_def targetOf_def mountCandidates_def containsAll_def by (auto simp: list.pred_map comp_def)
qed

lemma mostSpecific_longest:
  assumes "mostSpecific cs = [t]" "c \<in> set cs"
  shows "t \<in> set cs \<and> (c = t \<or> length (tg_MountPath c) < length (tg_MountPath t))"
proof -
  define l where "l = fold (\<lambda>c m. max (length (tg_MountPath c)) m) cs 0"
  have bound: "m \<le> fold (\<lambda>c m. max (length (tg_MountPath c)) m) cs m" "c \<in> set cs \<Longrightarrow> length (tg_MountPath c) \<le> fold (\<lambda>c m. max (length (tg_MountPath c)) m) cs m"
    for c cs m
    by (induction cs arbitrary: m) (auto, meson max.cobounded2 order_trans, meson max.cobounded1 order_trans)
  have eq: "filter (\<lambda>c. length (tg_MountPath c) = l) cs = [t]" using assms(1) by (simp add: mostSpecific_def l_def Let_def)
  then have only: "{c \<in> set cs. length (tg_MountPath c) = l} = {t}" by (metis list.set(1) list.set(2) set_filter)
  then have t: "t \<in> set cs" "length (tg_MountPath t) = l" by blast+
  have "c = t" if "length (tg_MountPath c) = l" using only that assms(2) by blast
  then show ?thesis using t bound(2) [OF assms(2), of 0] l_def by fastforce
qed

text \<open>C37. The webhook mounts the volume that holds the databases: the target it resolves is a mount of a
  selected container with every database below it, and each other such mount has a shorter path, so the
  choice is unambiguous.\<close>

theorem target_holds_databases:
  assumes "ResolveTarget pod inp = Inr t"
  shows "(\<exists>i m. eligible pod inp i m \<and> t = targetOf pod i m)
    \<and> (\<forall>i m. eligible pod inp i m \<longrightarrow> targetOf pod i m = t \<or> length (pathClean (vm_MountPath m)) < length (tg_MountPath t))"
proof -
  obtain ps where ps: "cleanDatabasePaths (in_Databases inp) = Inr ps"
    using assms unfolding ResolveTarget_def by (auto split: sum.splits)
  define cs where "cs = targetCandidates (selected (pod_Annotations pod) TargetContainerAnnotation (TargetContainer (in_Injection inp)))
      (selected (pod_Annotations pod) VolumeAnnotation (ij_Volume (in_Injection inp))) ps (pod_Containers pod)"
  have "cs \<noteq> []" "mostSpecific cs = [t]"
    using assms ps unfolding ResolveTarget_def cs_def Let_def by (auto split: if_splits list.splits)
  then have "t \<in> set cs" "\<forall>c\<in>set cs. c = t \<or> length (tg_MountPath c) < length (tg_MountPath t)"
    using mostSpecific_longest [of cs t] by (meson list.set_sel(1), blast)
  moreover have "c \<in> set cs \<longleftrightarrow> (\<exists>i m. eligible pod inp i m \<and> c = targetOf pod i m)" for c
    using candidates_eligible [OF ps] by (simp add: cs_def)
  moreover have "tg_MountPath (targetOf pod i m) = pathClean (vm_MountPath m)" for i m by (simp add: targetOf_def)
  ultimately show ?thesis by metis
qed

end
