(* ===== verification/Litestream_Admission.thy ===== *)
theory Litestream_Admission
  imports Litestream_Mutator
begin

text \<open>
  The validating webhooks (\<^verbatim>\<open>internal/litestream/webhook/workload_validator.go\<close>,
  \<^verbatim>\<open>litestream_validator.go\<close>, \<^verbatim>\<open>dependency_validator.go\<close>), which keep two Pods from replicating to one
  destination and a replica in use from being deleted. A request carries what the decoder makes of
  its payload.
\<close>

subsection \<open>Workloads\<close>

datatype IntOrString = IntVal int | StrVal string

record Deployment =
  dp_Name :: string
  dp_Annotations :: "(string, string) gomap"
  dp_Replicas :: "int option"
  dp_StrategyType :: string
  dp_RollingUpdate :: "IntOrString option option"

record StatefulSet =
  ss_Name :: string
  ss_Annotations :: "(string, string) gomap"
  ss_Replicas :: "int option"

record DaemonSet =
  dm_Name :: string
  dm_Annotations :: "(string, string) gomap"

record workloadInfo =
  wl_kind :: string
  wl_name :: string
  wl_annotations :: "(string, string) gomap"
  wl_hasActivePods :: bool
  wl_multiplePods :: bool
  wl_unsafeDeploymentRollout :: bool

record workload_reader =
  wGetLitestream :: "string \<Rightarrow> string \<Rightarrow> Litestream get_result"
  wGetDeployment :: "string \<Rightarrow> string \<Rightarrow> Deployment get_result"
  wGetStatefulSet :: "string \<Rightarrow> string \<Rightarrow> StatefulSet get_result"
  listDeployments :: "string \<Rightarrow> string + Deployment list"
  listStatefulSets :: "string \<Rightarrow> string + StatefulSet list"
  listDaemonSets :: "string \<Rightarrow> string + DaemonSet list"
  listLitestreams :: "string \<Rightarrow> string + Litestream list"

record admission_request =
  rq_Operation :: string
  rq_Namespace :: string
  rq_Name :: string
  rq_SubResource :: string
  rq_Kind :: string
  rq_Resource :: string
  rq_Deployment :: "string + Deployment"
  rq_StatefulSet :: "string + StatefulSet"
  rq_DaemonSet :: "string + DaemonSet"
  rq_Scale :: "string + int"
  rq_Litestream :: "string + Litestream"
  rq_Replica :: "string + string \<times> ReplicaSpec"
  rq_OldReplica :: "string + string \<times> ReplicaSpec"

datatype denial =
    LitestreamMissing string
  | UnsafeRollout string
  | MultipleWriters string string
  | ExistingMultiplePods string string string
  | ExistingUnsafeRollout string string
  | SameDestination string string string
  | SeveralWorkloads string string string
  | InvalidFields "field_error list"
  | ReplicaReferenced string "string list"

definition effectiveReplicas :: "int option \<Rightarrow> int" where
  "effectiveReplicas replicas = (case replicas of None \<Rightarrow> 1 | Some n \<Rightarrow> n)"

definition deploymentMayCreateConcurrentPods :: "Deployment \<Rightarrow> bool" where
  "deploymentMayCreateConcurrentPods d =
     (if dp_StrategyType d = ''Recreate'' then False
      else
        (case dp_RollingUpdate d of
           Some (Some (IntVal n)) \<Rightarrow> n > 0
         | Some (Some (StrVal s)) \<Rightarrow> TrimSpace s \<noteq> ''0%'' \<and> TrimSpace s \<noteq> ''0''
         | _ \<Rightarrow> True))"

definition deploymentWorkloadInfo :: "Deployment \<Rightarrow> int \<Rightarrow> workloadInfo" where
  "deploymentWorkloadInfo d replicas =
     \<lparr>wl_kind = ''Deployment'', wl_name = dp_Name d, wl_annotations = dp_Annotations d, wl_hasActivePods = replicas > 0,
      wl_multiplePods = replicas > 1, wl_unsafeDeploymentRollout = deploymentMayCreateConcurrentPods d\<rparr>"

definition deploymentScaleWorkloadInfo :: "Deployment \<Rightarrow> int \<Rightarrow> workloadInfo" where
  "deploymentScaleWorkloadInfo d replicas =
     \<lparr>wl_kind = ''Deployment'', wl_name = dp_Name d, wl_annotations = dp_Annotations d, wl_hasActivePods = replicas > 0,
      wl_multiplePods = replicas > 1, wl_unsafeDeploymentRollout = False\<rparr>"

definition statefulSetWorkloadInfo :: "StatefulSet \<Rightarrow> int \<Rightarrow> workloadInfo" where
  "statefulSetWorkloadInfo d replicas =
     \<lparr>wl_kind = ''StatefulSet'', wl_name = ss_Name d, wl_annotations = ss_Annotations d, wl_hasActivePods = replicas > 0,
      wl_multiplePods = replicas > 1, wl_unsafeDeploymentRollout = False\<rparr>"

definition daemonSetWorkloadInfo :: "DaemonSet \<Rightarrow> workloadInfo" where
  "daemonSetWorkloadInfo d =
     \<lparr>wl_kind = ''DaemonSet'', wl_name = dm_Name d, wl_annotations = dm_Annotations d, wl_hasActivePods = True, wl_multiplePods = True,
      wl_unsafeDeploymentRollout = False\<rparr>"

definition workloadsOf :: "Deployment list \<Rightarrow> StatefulSet list \<Rightarrow> DaemonSet list \<Rightarrow> workloadInfo list" where
  "workloadsOf ds ss ms =
     map (\<lambda>d. deploymentWorkloadInfo d (effectiveReplicas (dp_Replicas d))) ds
     @ map (\<lambda>s. statefulSetWorkloadInfo s (effectiveReplicas (ss_Replicas s))) ss @ map daemonSetWorkloadInfo ms"

definition listWorkloads :: "workload_reader \<Rightarrow> string \<Rightarrow> string + workloadInfo list" where
  "listWorkloads reader namespace =
     (case listDeployments reader namespace of
        Inl e \<Rightarrow> Inl e
      | Inr ds \<Rightarrow>
     (case listStatefulSets reader namespace of
        Inl e \<Rightarrow> Inl e
      | Inr ss \<Rightarrow>
     (case listDaemonSets reader namespace of
        Inl e \<Rightarrow> Inl e
      | Inr ms \<Rightarrow> Inr (workloadsOf ds ss ms))))"

definition workloadSafetyConflict :: "workloadInfo \<Rightarrow> string \<Rightarrow> denial option" where
  "workloadSafetyConflict w litestreamName =
     (if injectName (wl_annotations w) \<noteq> litestreamName then None
      else if wl_multiplePods w then Some (ExistingMultiplePods litestreamName (wl_kind w) (wl_name w))
      else if wl_hasActivePods w \<and> wl_unsafeDeploymentRollout w then Some (ExistingUnsafeRollout litestreamName (wl_name w))
      else None)"

definition workloadDestinationConflict :: "workloadInfo \<Rightarrow> string \<Rightarrow> denial" where
  "workloadDestinationConflict w litestreamName = SameDestination litestreamName (wl_kind w) (wl_name w)"

subsection \<open>Workload requests\<close>

datatype decode_error = ReaderFailed string | BadRequest string

definition decodeScaleWorkload :: "workload_reader \<Rightarrow> admission_request \<Rightarrow> decode_error + workloadInfo" where
  "decodeScaleWorkload reader req =
     (case rq_Scale req of
        Inl e \<Rightarrow> Inl (BadRequest e)
      | Inr replicas \<Rightarrow>
          if rq_Resource req = ''deployments'' then
            (case wGetDeployment reader (rq_Namespace req) (rq_Name req) of
               Found d \<Rightarrow> Inr (deploymentScaleWorkloadInfo d replicas)
             | NotFound \<Rightarrow> Inl (ReaderFailed ''not found'')
             | GetFailed e \<Rightarrow> Inl (ReaderFailed e))
          else if rq_Resource req = ''statefulsets'' then
            (case wGetStatefulSet reader (rq_Namespace req) (rq_Name req) of
               Found s \<Rightarrow> Inr (statefulSetWorkloadInfo s replicas)
             | NotFound \<Rightarrow> Inl (ReaderFailed ''not found'')
             | GetFailed e \<Rightarrow> Inl (ReaderFailed e))
          else Inl (BadRequest ''unsupported scale resource''))"

definition decodeWorkload :: "workload_reader \<Rightarrow> admission_request \<Rightarrow> decode_error + workloadInfo" where
  "decodeWorkload reader req =
     (if rq_SubResource req = ''scale'' then decodeScaleWorkload reader req
      else if rq_Kind req = ''Deployment'' then
        (case rq_Deployment req of
           Inl e \<Rightarrow> Inl (BadRequest e) | Inr d \<Rightarrow> Inr (deploymentWorkloadInfo d (effectiveReplicas (dp_Replicas d))))
      else if rq_Kind req = ''StatefulSet'' then
        (case rq_StatefulSet req of
           Inl e \<Rightarrow> Inl (BadRequest e) | Inr s \<Rightarrow> Inr (statefulSetWorkloadInfo s (effectiveReplicas (ss_Replicas s))))
      else if rq_Kind req = ''DaemonSet'' then
        (case rq_DaemonSet req of Inl e \<Rightarrow> Inl (BadRequest e) | Inr m \<Rightarrow> Inr (daemonSetWorkloadInfo m))
      else Inl (BadRequest ''unsupported workload kind''))"

fun workloadConflict :: "workload_reader \<Rightarrow> string \<Rightarrow> Litestream \<Rightarrow> string \<Rightarrow> string \<Rightarrow> workloadInfo list \<Rightarrow> string + denial option" where
  "workloadConflict reader namespace l currentKind currentName [] = Inr None"
| "workloadConflict reader namespace l currentKind currentName (w # ws) =
     (if wl_kind w = currentKind \<and> wl_name w = currentName then workloadConflict reader namespace l currentKind currentName ws
      else
        (case workloadSafetyConflict w (li_Name l) of
           Some c \<Rightarrow> Inr (Some c)
         | None \<Rightarrow>
             if \<not> wl_hasActivePods w \<or> injectName (wl_annotations w) = [] then workloadConflict reader namespace l currentKind currentName ws
             else
               (case wGetLitestream reader namespace (injectName (wl_annotations w)) of
                  NotFound \<Rightarrow> workloadConflict reader namespace l currentKind currentName ws
                | GetFailed e \<Rightarrow> Inl e
                | Found l' \<Rightarrow>
                    if litestreamReplicates l' \<and> shareReplicationDestination l l' then Inr (Some (workloadDestinationConflict w (li_Name l)))
                    else workloadConflict reader namespace l currentKind currentName ws)))"

definition WorkloadValidator_existingWorkloadConflict ::
    "workload_reader \<Rightarrow> string \<Rightarrow> Litestream \<Rightarrow> string \<Rightarrow> string \<Rightarrow> string + denial option" where
  "WorkloadValidator_existingWorkloadConflict reader namespace l currentKind currentName =
     (case listWorkloads reader namespace of Inl e \<Rightarrow> Inl e | Inr ws \<Rightarrow> workloadConflict reader namespace l currentKind currentName ws)"

definition WorkloadValidator_Handle :: "workload_reader \<Rightarrow> admission_request \<Rightarrow> denial response" where
  "WorkloadValidator_Handle reader req =
     (if rq_Operation req \<noteq> ''CREATE'' \<and> rq_Operation req \<noteq> ''UPDATE'' then Allowed ''only workload create and update requests require validation''
      else
     (case decodeWorkload reader req of
        Inl (ReaderFailed e) \<Rightarrow> Errored 500 e
      | Inl (BadRequest e) \<Rightarrow> Errored 400 e
      | Inr w \<Rightarrow>
          let name = injectName (wl_annotations w) in
          if name = [] then Allowed ''workload does not request Litestream injection''
          else if \<not> wl_hasActivePods w \<and> \<not> wl_multiplePods w then Allowed ''workload has no active Pods''
          else
            (case wGetLitestream reader (rq_Namespace req) name of
               NotFound \<Rightarrow>
                 if \<not> wl_multiplePods w \<and> \<not> wl_unsafeDeploymentRollout w
                 then Allowed ''single-Pod workload may reference a Litestream that is not created yet''
                 else Denied (LitestreamMissing name)
             | GetFailed e \<Rightarrow> Errored 500 e
             | Found l \<Rightarrow>
                 if \<not> litestreamReplicates l then Allowed ''Litestream does not configure replication''
                 else if wl_unsafeDeploymentRollout w \<and> wl_hasActivePods w \<and> \<not> wl_multiplePods w then Denied (UnsafeRollout name)
                 else if wl_multiplePods w then Denied (MultipleWriters name (wl_kind w))
                 else if wl_hasActivePods w then
                   (case WorkloadValidator_existingWorkloadConflict reader (rq_Namespace req) l (wl_kind w)
                       (if rq_Name req = [] then wl_name w else rq_Name req) of
                      Inl e \<Rightarrow> Errored 500 e
                    | Inr (Some c) \<Rightarrow> Denied c
                    | Inr None \<Rightarrow> Allowed ''workload has a single writer'')
                 else Allowed ''workload has a single writer'')))"

subsection \<open>Litestream requests\<close>

definition workloadReference :: "workloadInfo \<Rightarrow> string" where
  "workloadReference w = wl_kind w @ '' '' @ dquote @ wl_name w @ dquote"

fun litestreamConflict :: "workload_reader \<Rightarrow> Litestream \<Rightarrow> workloadInfo list \<Rightarrow> workloadInfo list \<Rightarrow> string + denial option" where
  "litestreamConflict reader r matching [] =
     Inr (case matching of
            a # b # _ \<Rightarrow> Some (SeveralWorkloads (li_Name r) (workloadReference a) (workloadReference b))
          | _ \<Rightarrow> None)"
| "litestreamConflict reader r matching (w # ws) =
     (case workloadSafetyConflict w (li_Name r) of
        Some c \<Rightarrow> Inr (Some c)
      | None \<Rightarrow>
          let name = injectName (wl_annotations w) in
          if \<not> wl_hasActivePods w \<or> name = [] then litestreamConflict reader r matching ws
          else if name = li_Name r then litestreamConflict reader r (matching @ [w]) ws
          else
            (case wGetLitestream reader (li_Namespace r) name of
               NotFound \<Rightarrow> litestreamConflict reader r matching ws
             | GetFailed e \<Rightarrow> Inl e
             | Found l' \<Rightarrow>
                 if litestreamReplicates l' \<and> shareReplicationDestination r l' then Inr (Some (workloadDestinationConflict w (li_Name r)))
                 else litestreamConflict reader r matching ws))"

definition LitestreamValidator_existingWorkloadConflict :: "workload_reader option \<Rightarrow> Litestream \<Rightarrow> string + denial option" where
  "LitestreamValidator_existingWorkloadConflict readerOpt r =
     (case readerOpt of
        None \<Rightarrow> Inl ''validate Litestream replication: workload reader is not configured''
      | Some reader \<Rightarrow>
          (case listWorkloads reader (li_Namespace r) of Inl e \<Rightarrow> Inl e | Inr ws \<Rightarrow> litestreamConflict reader r [] ws))"

definition LitestreamValidator_Handle :: "api_env \<Rightarrow> workload_reader option \<Rightarrow> admission_request \<Rightarrow> denial response" where
  "LitestreamValidator_Handle api reader req =
     (if rq_Operation req \<noteq> ''CREATE'' \<and> rq_Operation req \<noteq> ''UPDATE'' then Allowed ''only Litestream create and update requests require validation''
      else
     (case rq_Litestream req of
        Inl e \<Rightarrow> Errored 400 e
      | Inr r0 \<Rightarrow>
          let r = r0\<lparr>li_Namespace := rq_Namespace req\<rparr> in
          if LitestreamSpec_Validate api (li_Spec r) \<noteq> [] then Denied (InvalidFields (LitestreamSpec_Validate api (li_Spec r)))
          else if litestreamReplicates r then
            (case LitestreamValidator_existingWorkloadConflict reader r of
               Inl e \<Rightarrow> Errored 500 e
             | Inr (Some c) \<Rightarrow> Denied c
             | Inr None \<Rightarrow> Allowed ''Litestream spec is valid'')
          else Allowed ''Litestream spec is valid''))"

subsection \<open>Replica requests\<close>

definition allowDeletionUnlessReferenced :: "string \<Rightarrow> string list \<Rightarrow> denial response" where
  "allowDeletionUnlessReferenced name consumers =
     (if consumers = [] then Allowed ''LitestreamReplica is not referenced by any Litestream resource''
      else Denied (ReplicaReferenced name (sort consumers)))"

definition references :: "string \<Rightarrow> DatabaseBinding \<Rightarrow> bool" where
  "references name b \<longleftrightarrow>
     (case db_Restore b of None \<Rightarrow> False | Some r \<Rightarrow> rs_ReplicaRef r = name)
     \<or> (case db_Replicate b of None \<Rightarrow> False | Some r \<Rightarrow> rc_ReplicaRef r = name)"

definition protectReplicaDeletion :: "workload_reader \<Rightarrow> string \<Rightarrow> string \<Rightarrow> denial response" where
  "protectReplicaDeletion reader namespace name =
     (case listLitestreams reader namespace of
        Inl e \<Rightarrow> Errored 500 e
      | Inr consumers \<Rightarrow>
          allowDeletionUnlessReferenced name (map li_Name (filter (\<lambda>c. list_ex (references name) (ls_Databases (li_Spec c))) consumers)))"

definition DependencyValidator_Handle :: "api_env \<Rightarrow> workload_reader \<Rightarrow> admission_request \<Rightarrow> denial response" where
  "DependencyValidator_Handle api reader req =
     (if rq_Operation req = ''DELETE'' then
        (case rq_OldReplica req of Inl e \<Rightarrow> Errored 400 e | Inr (name, _) \<Rightarrow> protectReplicaDeletion reader (rq_Namespace req) name)
      else if rq_Operation req \<noteq> ''CREATE'' \<and> rq_Operation req \<noteq> ''UPDATE''
        then Allowed ''only LitestreamReplica create, update, and delete requests require validation''
      else
        (case rq_Replica req of
           Inl e \<Rightarrow> Errored 400 e
         | Inr (_, spec) \<Rightarrow>
             if LitestreamReplicaSpec_Validate api spec \<noteq> [] then Denied (InvalidFields (LitestreamReplicaSpec_Validate api spec))
             else Allowed ''LitestreamReplica spec is valid''))"

end
