(* ===== verification/Litestream_Single_Writer.thy ===== *)
theory Litestream_Single_Writer
  imports Litestream_Admission
begin

text \<open>
  The namespace of a cluster as a state machine: each step is a request its webhook allowed, read
  against the state before it, or a deletion that no webhook looks at. In the states it reaches, no
  two workloads replicate to one destination, and no rollout runs a second Pod beside the first.
  Requests are processed one at a time: a request that races with another is checked against a state
  that is no longer current, and the README says that two such requests can both pass.
\<close>

subsection \<open>States\<close>

record cluster =
  cl_deployments :: "Deployment list"
  cl_statefulSets :: "StatefulSet list"
  cl_daemonSets :: "DaemonSet list"
  cl_litestreams :: "Litestream list"
  cl_replicas :: "(string \<times> ReplicaSpec) list"
  cl_scaled :: "string list"

text \<open>\<open>cl_scaled\<close> only records history: the Deployments whose scale subresource was written after
  the object itself. Scaling starts no rollout, and the webhook does not look at the rollout
  strategy of a scale request.\<close>

definition lookup :: "('a \<Rightarrow> string) \<Rightarrow> string \<Rightarrow> 'a list \<Rightarrow> 'a option" where
  "lookup name n xs = find (\<lambda>x. name x = n) xs"

definition store :: "('a \<Rightarrow> string) \<Rightarrow> 'a \<Rightarrow> 'a list \<Rightarrow> 'a list" where
  "store name x xs = filter (\<lambda>y. name y \<noteq> name x) xs @ [x]"

definition remove :: "('a \<Rightarrow> string) \<Rightarrow> string \<Rightarrow> 'a list \<Rightarrow> 'a list" where
  "remove name n xs = filter (\<lambda>y. name y \<noteq> n) xs"

definition getResult :: "'a option \<Rightarrow> 'a get_result" where
  "getResult x = (case x of None \<Rightarrow> NotFound | Some v \<Rightarrow> Found v)"

definition reader_of :: "cluster \<Rightarrow> workload_reader" where
  "reader_of s = \<lparr>wGetLitestream = (\<lambda>ns n. getResult (lookup li_Name n (cl_litestreams s))),
     wGetDeployment = (\<lambda>ns n. getResult (lookup dp_Name n (cl_deployments s))),
     wGetStatefulSet = (\<lambda>ns n. getResult (lookup ss_Name n (cl_statefulSets s))),
     listDeployments = (\<lambda>ns. Inr (cl_deployments s)), listStatefulSets = (\<lambda>ns. Inr (cl_statefulSets s)),
     listDaemonSets = (\<lambda>ns. Inr (cl_daemonSets s)), listLitestreams = (\<lambda>ns. Inr (cl_litestreams s))\<rparr>"

definition replica_reader_of :: "cluster \<Rightarrow> replica_reader" where
  "replica_reader_of s ns n = getResult (map_option snd (lookup fst n (cl_replicas s)))"

definition writesObject :: "admission_request \<Rightarrow> bool" where
  "writesObject req \<longleftrightarrow> rq_Operation req = ''CREATE'' \<or> rq_Operation req = ''UPDATE''"

text \<open>The workload a request writes, under its own name.\<close>

definition names :: "admission_request \<Rightarrow> string \<Rightarrow> bool" where
  "names req n \<longleftrightarrow> rq_Name req = [] \<or> rq_Name req = n"

inductive admits :: "api_env \<Rightarrow> cluster \<Rightarrow> cluster \<Rightarrow> bool" for api where
  applyDeployment: "WorkloadValidator_Handle (reader_of s) req = Allowed m \<Longrightarrow> writesObject req \<Longrightarrow> rq_SubResource req = [] \<Longrightarrow>
     rq_Kind req = ''Deployment'' \<Longrightarrow> rq_Deployment req = Inr d \<Longrightarrow> names req (dp_Name d) \<Longrightarrow>
     admits api s (s\<lparr>cl_deployments := store dp_Name d (cl_deployments s), cl_scaled := removeAll (dp_Name d) (cl_scaled s)\<rparr>)"
| applyStatefulSet: "WorkloadValidator_Handle (reader_of s) req = Allowed m \<Longrightarrow> writesObject req \<Longrightarrow> rq_SubResource req = [] \<Longrightarrow>
     rq_Kind req = ''StatefulSet'' \<Longrightarrow> rq_StatefulSet req = Inr t \<Longrightarrow> names req (ss_Name t) \<Longrightarrow>
     admits api s (s\<lparr>cl_statefulSets := store ss_Name t (cl_statefulSets s)\<rparr>)"
| applyDaemonSet: "WorkloadValidator_Handle (reader_of s) req = Allowed m \<Longrightarrow> writesObject req \<Longrightarrow> rq_SubResource req = [] \<Longrightarrow>
     rq_Kind req = ''DaemonSet'' \<Longrightarrow> rq_DaemonSet req = Inr t \<Longrightarrow> names req (dm_Name t) \<Longrightarrow>
     admits api s (s\<lparr>cl_daemonSets := store dm_Name t (cl_daemonSets s)\<rparr>)"
| scaleDeployment: "WorkloadValidator_Handle (reader_of s) req = Allowed m \<Longrightarrow> writesObject req \<Longrightarrow> rq_SubResource req = ''scale'' \<Longrightarrow>
     rq_Resource req = ''deployments'' \<Longrightarrow> rq_Scale req = Inr n \<Longrightarrow> lookup dp_Name (rq_Name req) (cl_deployments s) = Some d \<Longrightarrow>
     admits api s (s\<lparr>cl_deployments := store dp_Name (d\<lparr>dp_Replicas := Some n\<rparr>) (cl_deployments s), cl_scaled := rq_Name req # cl_scaled s\<rparr>)"
| scaleStatefulSet: "WorkloadValidator_Handle (reader_of s) req = Allowed m \<Longrightarrow> writesObject req \<Longrightarrow> rq_SubResource req = ''scale'' \<Longrightarrow>
     rq_Resource req = ''statefulsets'' \<Longrightarrow> rq_Scale req = Inr n \<Longrightarrow> lookup ss_Name (rq_Name req) (cl_statefulSets s) = Some t \<Longrightarrow>
     admits api s (s\<lparr>cl_statefulSets := store ss_Name (t\<lparr>ss_Replicas := Some n\<rparr>) (cl_statefulSets s)\<rparr>)"
| applyLitestream: "LitestreamValidator_Handle api (Some (reader_of s)) req = Allowed m \<Longrightarrow> writesObject req \<Longrightarrow> rq_Litestream req = Inr l \<Longrightarrow> li_Name l \<noteq> [] \<Longrightarrow>
     admits api s (s\<lparr>cl_litestreams := store li_Name (l\<lparr>li_Namespace := rq_Namespace req\<rparr>) (cl_litestreams s)\<rparr>)"
| applyReplica: "DependencyValidator_Handle api (reader_of s) req = Allowed m \<Longrightarrow> writesObject req \<Longrightarrow> rq_Replica req = Inr r \<Longrightarrow>
     admits api s (s\<lparr>cl_replicas := store fst r (cl_replicas s)\<rparr>)"
| deleteReplica: "DependencyValidator_Handle api (reader_of s) req = Allowed m \<Longrightarrow> rq_Operation req = ''DELETE'' \<Longrightarrow> rq_OldReplica req = Inr r \<Longrightarrow>
     admits api s (s\<lparr>cl_replicas := remove fst (fst r) (cl_replicas s)\<rparr>)"
| deleteDeployment: "admits api s (s\<lparr>cl_deployments := remove dp_Name n (cl_deployments s)\<rparr>)"
| deleteStatefulSet: "admits api s (s\<lparr>cl_statefulSets := remove ss_Name n (cl_statefulSets s)\<rparr>)"
| deleteDaemonSet: "admits api s (s\<lparr>cl_daemonSets := remove dm_Name n (cl_daemonSets s)\<rparr>)"
| deleteLitestream: "admits api s (s\<lparr>cl_litestreams := remove li_Name n (cl_litestreams s)\<rparr>)"

inductive_cases admitsE: "admits api s s'"

definition emptyCluster :: cluster where
  "emptyCluster = \<lparr>cl_deployments = [], cl_statefulSets = [], cl_daemonSets = [], cl_litestreams = [], cl_replicas = [],
     cl_scaled = []\<rparr>"

inductive reachableCluster :: "api_env \<Rightarrow> cluster \<Rightarrow> bool" for api where
  start: "reachableCluster api emptyCluster"
| step: "reachableCluster api s \<Longrightarrow> admits api s s' \<Longrightarrow> reachableCluster api s'"

subsection \<open>One writer\<close>

definition workloads :: "cluster \<Rightarrow> workloadInfo list" where
  "workloads s = workloadsOf (cl_deployments s) (cl_statefulSets s) (cl_daemonSets s)"

definition replicating :: "cluster \<Rightarrow> workloadInfo \<Rightarrow> Litestream \<Rightarrow> bool" where
  "replicating s w l \<longleftrightarrow> injectName (wl_annotations w) \<noteq> [] \<and> lookup li_Name (injectName (wl_annotations w)) (cl_litestreams s) = Some l
     \<and> litestreamReplicates l"

definition same_workload :: "workloadInfo \<Rightarrow> workloadInfo \<Rightarrow> bool" where
  "same_workload w w' \<longleftrightarrow> wl_kind w = wl_kind w' \<and> wl_name w = wl_name w'"

definition one_writer :: "cluster \<Rightarrow> bool" where
  "one_writer s \<longleftrightarrow>
     (\<forall>w\<in>set (workloads s). \<forall>l. replicating s w l \<longrightarrow> \<not> wl_multiplePods w)
     \<and> (\<forall>w\<in>set (workloads s). \<forall>w'\<in>set (workloads s). \<forall>l l'.
          \<not> same_workload w w' \<and> wl_hasActivePods w \<and> wl_hasActivePods w' \<and> replicating s w l \<and> replicating s w' l'
          \<longrightarrow> set (replicationDestinations l) \<inter> set (replicationDestinations l') = {})"

text \<open>During a rollout Kubernetes runs up to \<^verbatim>\<open>maxSurge\<close> Pods more than the replicas, by default a
  quarter of them, rounded up; with the strategy \<^verbatim>\<open>Recreate\<close> it stops the old Pods first.\<close>

fun zero_surge :: "IntOrString \<Rightarrow> bool" where
  "zero_surge (IntVal n) = (n \<le> 0)"
| "zero_surge (StrVal p) = (TrimSpace p = ''0%'' \<or> TrimSpace p = ''0'')"

definition no_surge :: "Deployment \<Rightarrow> bool" where
  "no_surge d \<longleftrightarrow> dp_StrategyType d = ''Recreate'' \<or> (\<exists>v. dp_RollingUpdate d = Some (Some v) \<and> zero_surge v)"

definition rollouts_single :: "cluster \<Rightarrow> bool" where
  "rollouts_single s \<longleftrightarrow>
     (\<forall>d\<in>set (cl_deployments s). \<forall>l. 0 < effectiveReplicas (dp_Replicas d) \<and> dp_Name d \<notin> set (cl_scaled s)
        \<and> replicating s (deploymentWorkloadInfo d (effectiveReplicas (dp_Replicas d))) l \<longrightarrow> no_surge d)"

definition single_writer :: "cluster \<Rightarrow> bool" where
  "single_writer s \<longleftrightarrow> one_writer s \<and> rollouts_single s"

definition safe_beside :: "cluster \<Rightarrow> workloadInfo \<Rightarrow> bool" where
  "safe_beside s w \<longleftrightarrow>
     (\<forall>l. replicating s w l \<longrightarrow> \<not> wl_multiplePods w
        \<and> (wl_hasActivePods w \<longrightarrow>
             (\<forall>w'\<in>set (workloads s). \<forall>l'. \<not> same_workload w w' \<and> wl_hasActivePods w' \<and> replicating s w' l' \<longrightarrow>
                set (replicationDestinations l) \<inter> set (replicationDestinations l') = {})))"

lemma share_disjoint: "shareReplicationDestination l l' \<longleftrightarrow> set (replicationDestinations l) \<inter> set (replicationDestinations l') \<noteq> {}"
  by (auto simp: shareReplicationDestination_def list_ex_iff)

lemma lookup_store: "lookup name n (store name x xs) = (if n = name x then Some x else lookup name n xs)"
  unfolding lookup_def store_def by (induction xs) auto

lemma lookup_remove: "lookup name n (remove name m xs) = (if n = m then None else lookup name n xs)"
  unfolding lookup_def remove_def by (induction xs) auto

lemma set_store: "set (store name x xs) \<subseteq> insert x (set xs)"
  by (auto simp: store_def)

lemma set_remove: "set (remove name n xs) \<subseteq> set xs"
  by (auto simp: remove_def)

lemma reader_of_simps [simp]:
  "wGetLitestream (reader_of s) ns n = getResult (lookup li_Name n (cl_litestreams s))"
  "wGetDeployment (reader_of s) ns n = getResult (lookup dp_Name n (cl_deployments s))"
  "wGetStatefulSet (reader_of s) ns n = getResult (lookup ss_Name n (cl_statefulSets s))"
  "listLitestreams (reader_of s) ns = Inr (cl_litestreams s)"
  "listWorkloads (reader_of s) ns = Inr (workloads s)"
  by (simp_all add: reader_of_def listWorkloads_def workloads_def)

lemma change_workload:
  assumes "one_writer s" "cl_litestreams s' = cl_litestreams s" "set (workloads s') \<subseteq> insert w (set (workloads s))" "safe_beside s w"
  shows "one_writer s'"
proof -
  have rep: "replicating s' v l \<longleftrightarrow> replicating s v l" for v l using assms(2) by (simp add: replicating_def)
  have "same_workload a b \<longleftrightarrow> same_workload b a" "\<not> (\<not> same_workload a a)" for a b by (auto simp: same_workload_def)
  then show ?thesis using assms(1,3,4) unfolding one_writer_def safe_beside_def rep by (smt (verit) Int_commute insert_iff subset_iff)
qed

lemma remove_workload:
  assumes "one_writer s" "cl_litestreams s' = cl_litestreams s" "set (workloads s') \<subseteq> set (workloads s)"
  shows "one_writer s'"
proof -
  have rep: "replicating s' v l \<longleftrightarrow> replicating s v l" for v l using assms(2) by (simp add: replicating_def)
  show ?thesis using assms(1,3) unfolding one_writer_def rep by (meson subsetD)
qed

subsection \<open>What the validators check\<close>

lemma workloadConflict_none:
  assumes "workloadConflict (reader_of s) ns l kind name ws = Inr None" "w \<in> set ws" "\<not> (wl_kind w = kind \<and> wl_name w = name)"
    and "wl_hasActivePods w" "replicating s w l'"
  shows "set (replicationDestinations l) \<inter> set (replicationDestinations l') = {}"
  using assms
  by (induction ws) (auto simp: replicating_def getResult_def share_disjoint split: if_splits option.splits get_result.splits)

lemma handle_safe:
  assumes handle: "WorkloadValidator_Handle (reader_of s) req = Allowed m" and req: "writesObject req" "names req (wl_name w)"
    and dec: "decodeWorkload (reader_of s) req = Inr w"
  shows "safe_beside s w"
proof -
  define name where "name = injectName (wl_annotations w)"
  have "\<not> wl_multiplePods w \<and> (wl_hasActivePods w \<longrightarrow> workloadConflict (reader_of s) (rq_Namespace req) l (wl_kind w) (wl_name w) (workloads s) = Inr None)"
    if rep: "replicating s w l" for l
  proof -
    have facts: "name \<noteq> []" "lookup li_Name name (cl_litestreams s) = Some l" "litestreamReplicates l" using rep by (simp_all add: replicating_def name_def)
    show ?thesis
      using handle req unfolding WorkloadValidator_Handle_def dec Let_def WorkloadValidator_existingWorkloadConflict_def
      by (auto simp add: facts writesObject_def names_def getResult_def simp flip: name_def split: if_splits sum.splits option.splits)
  qed
  then have ok: "\<not> wl_multiplePods w" and none: "wl_hasActivePods w \<Longrightarrow>
      workloadConflict (reader_of s) (rq_Namespace req) l (wl_kind w) (wl_name w) (workloads s) = Inr None" if "replicating s w l" for l
    using that by blast+
  show ?thesis unfolding safe_beside_def
  proof (intro allI impI conjI ballI; (elim conjE)?)
    fix l w' l'
    assume l: "replicating s w l" "wl_hasActivePods w" and w': "w' \<in> set (workloads s)" and other: "\<not> same_workload w w'"
      and l': "wl_hasActivePods w'" "replicating s w' l'"
    have "\<not> (wl_kind w' = wl_kind w \<and> wl_name w' = wl_name w)" using other by (auto simp: same_workload_def)
    then show "set (replicationDestinations l) \<inter> set (replicationDestinations l') = {}"
      by (rule workloadConflict_none [OF none [OF l] w' _ l'])
  qed (rule ok)
qed

lemma litestreamConflict_none:
  assumes "li_Name r \<noteq> []" "litestreamConflict (reader_of s) r matching ws = Inr None"
  shows "length (matching @ filter (\<lambda>w. wl_hasActivePods w \<and> injectName (wl_annotations w) = li_Name r) ws) \<le> 1"
    and "w \<in> set ws \<Longrightarrow> injectName (wl_annotations w) = li_Name r \<Longrightarrow> \<not> wl_multiplePods w"
    and "w \<in> set ws \<Longrightarrow> wl_hasActivePods w \<Longrightarrow> injectName (wl_annotations w) \<noteq> li_Name r \<Longrightarrow> replicating s w l' \<Longrightarrow>
      set (replicationDestinations r) \<inter> set (replicationDestinations l') = {}"
proof -
  show "length (matching @ filter (\<lambda>w. wl_hasActivePods w \<and> injectName (wl_annotations w) = li_Name r) ws) \<le> 1"
    using assms
  proof (induction ws arbitrary: matching)
    case Nil
    then show ?case by (auto split: list.splits)
  next
    case (Cons v ws)
    then show ?case
      by (auto simp: Let_def getResult_def dest: Cons.IH split: if_splits option.splits get_result.splits)
  qed
  show "\<not> wl_multiplePods w" if "w \<in> set ws" "injectName (wl_annotations w) = li_Name r"
    using assms(2) that
    by (induction ws arbitrary: matching)
      (auto simp: workloadSafetyConflict_def Let_def split: if_splits option.splits get_result.splits)
  show "set (replicationDestinations r) \<inter> set (replicationDestinations l') = {}"
    if "w \<in> set ws" "wl_hasActivePods w" "injectName (wl_annotations w) \<noteq> li_Name r" "replicating s w l'"
    using assms(2) that
    by (induction ws arbitrary: matching)
      (auto simp: replicating_def getResult_def share_disjoint Let_def split: if_splits option.splits get_result.splits)
qed

lemma two_in_filter: "a \<in> set xs \<Longrightarrow> b \<in> set xs \<Longrightarrow> a \<noteq> b \<Longrightarrow> \<not> length xs \<le> 1"
  by (cases xs; cases "tl xs") auto

lemma change_litestream:
  assumes inv: "one_writer s" and name: "li_Name r \<noteq> []"
    and ok: "litestreamReplicates r \<Longrightarrow> litestreamConflict (reader_of s) r [] (workloads s) = Inr None"
  shows "one_writer (s\<lparr>cl_litestreams := store li_Name r (cl_litestreams s)\<rparr>)"
proof -
  define s' where "s' = s\<lparr>cl_litestreams := store li_Name r (cl_litestreams s)\<rparr>"
  have ws: "workloads s' = workloads s" by (simp add: s'_def workloads_def)
  have rep: "replicating s' w l \<longleftrightarrow> (if injectName (wl_annotations w) = li_Name r then l = r \<and> litestreamReplicates r else replicating s w l)" for w l
    using name by (auto simp: s'_def replicating_def lookup_store)
  have one: "\<not> wl_multiplePods w" if "w \<in> set (workloads s)" "replicating s' w l" for w l
    using that inv litestreamConflict_none(2) [OF name ok] unfolding one_writer_def rep by (metis (full_types))
  have both: "same_workload w w'" if "w \<in> set (workloads s)" "w' \<in> set (workloads s)" "wl_hasActivePods w" "wl_hasActivePods w'"
    "injectName (wl_annotations w) = li_Name r" "injectName (wl_annotations w') = li_Name r" "litestreamReplicates r" for w w'
  proof (rule ccontr)
    assume "\<not> same_workload w w'"
    then have "w \<noteq> w'" by (auto simp: same_workload_def)
    moreover have "{w, w'} \<subseteq> set (filter (\<lambda>w. wl_hasActivePods w \<and> injectName (wl_annotations w) = li_Name r) (workloads s))" using that by simp
    ultimately show False using two_in_filter [of w _ w'] litestreamConflict_none(1) [OF name ok [OF that(7)]] by (simp del: set_filter)
  qed
  have "set (replicationDestinations l) \<inter> set (replicationDestinations l') = {}"
    if "w \<in> set (workloads s)" "w' \<in> set (workloads s)" "\<not> same_workload w w'" "wl_hasActivePods w" "wl_hasActivePods w'"
      "replicating s' w l" "replicating s' w' l'" for w w' l l'
  proof (cases "injectName (wl_annotations w) = li_Name r")
    case True
    then have l: "l = r" "litestreamReplicates r" using that(6) by (simp_all add: rep)
    then have "injectName (wl_annotations w') \<noteq> li_Name r" using both that True by blast
    then show ?thesis using litestreamConflict_none(3) [OF name ok [OF l(2)] that(2,5)] that(7) l(1) by (simp add: rep)
  next
    case False
    then have l: "replicating s w l" using that(6) by (simp add: rep)
    show ?thesis
    proof (cases "injectName (wl_annotations w') = li_Name r")
      case True
      then have l': "l' = r" "litestreamReplicates r" using that(7) by (simp_all add: rep)
      then show ?thesis using litestreamConflict_none(3) [OF name ok [OF l'(2)] that(1,4) False l] by blast
    next
      case other: False
      then have "replicating s w' l'" using that(7) by (simp add: rep)
      then show ?thesis using inv that l unfolding one_writer_def by blast
    qed
  qed
  then show ?thesis using one unfolding one_writer_def s'_def [symmetric] ws by blast
qed

subsection \<open>Every step keeps one writer\<close>

lemma safe_cong:
  assumes "wl_kind w = wl_kind v" "wl_name w = wl_name v" "wl_annotations w = wl_annotations v" "wl_hasActivePods w = wl_hasActivePods v"
    "wl_multiplePods w = wl_multiplePods v"
  shows "safe_beside s w \<longleftrightarrow> safe_beside s v"
  using assms by (simp add: safe_beside_def same_workload_def replicating_def)

lemma lookup_name: "lookup name n xs = Some x \<Longrightarrow> name x = n"
  by (simp add: lookup_def find_Some_iff) blast

lemma store_workloads:
  "set (workloads (s\<lparr>cl_deployments := store dp_Name d (cl_deployments s), cl_scaled := ns\<rparr>)) \<subseteq>
     insert (deploymentWorkloadInfo d (effectiveReplicas (dp_Replicas d))) (set (workloads s))"
  "set (workloads (s\<lparr>cl_statefulSets := store ss_Name t (cl_statefulSets s)\<rparr>)) \<subseteq>
     insert (statefulSetWorkloadInfo t (effectiveReplicas (ss_Replicas t))) (set (workloads s))"
  "set (workloads (s\<lparr>cl_daemonSets := store dm_Name e (cl_daemonSets s)\<rparr>)) \<subseteq> insert (daemonSetWorkloadInfo e) (set (workloads s))"
  by (auto simp: workloads_def workloadsOf_def store_def)

lemma remove_workloads:
  "set (workloads (s\<lparr>cl_deployments := remove dp_Name n (cl_deployments s)\<rparr>)) \<subseteq> set (workloads s)"
  "set (workloads (s\<lparr>cl_statefulSets := remove ss_Name n (cl_statefulSets s)\<rparr>)) \<subseteq> set (workloads s)"
  "set (workloads (s\<lparr>cl_daemonSets := remove dm_Name n (cl_daemonSets s)\<rparr>)) \<subseteq> set (workloads s)"
  by (auto simp: workloads_def workloadsOf_def remove_def)

lemma scaled_deployment_safe:
  assumes "WorkloadValidator_Handle (reader_of s) req = Allowed m" "writesObject req" "rq_SubResource req = ''scale''"
    "rq_Resource req = ''deployments''" "rq_Scale req = Inr n" "lookup dp_Name (rq_Name req) (cl_deployments s) = Some d"
  shows "safe_beside s (deploymentWorkloadInfo (d\<lparr>dp_Replicas := Some n\<rparr>) (effectiveReplicas (Some n)))"
proof -
  have "decodeWorkload (reader_of s) req = Inr (deploymentScaleWorkloadInfo d n)"
    using assms(3-6) by (simp add: decodeWorkload_def decodeScaleWorkload_def getResult_def)
  moreover have "names req (wl_name (deploymentScaleWorkloadInfo d n))"
    using lookup_name [OF assms(6)] by (simp add: names_def deploymentScaleWorkloadInfo_def)
  ultimately have "safe_beside s (deploymentScaleWorkloadInfo d n)" using handle_safe [OF assms(1,2)] by blast
  then show ?thesis
    by (subst safe_cong [of _ "deploymentScaleWorkloadInfo d n"]) (simp_all add: deploymentWorkloadInfo_def deploymentScaleWorkloadInfo_def effectiveReplicas_def)
qed

lemma scaled_statefulSet_safe:
  assumes "WorkloadValidator_Handle (reader_of s) req = Allowed m" "writesObject req" "rq_SubResource req = ''scale''"
    "rq_Resource req = ''statefulsets''" "rq_Scale req = Inr n" "lookup ss_Name (rq_Name req) (cl_statefulSets s) = Some t"
  shows "safe_beside s (statefulSetWorkloadInfo (t\<lparr>ss_Replicas := Some n\<rparr>) (effectiveReplicas (Some n)))"
proof -
  have "decodeWorkload (reader_of s) req = Inr (statefulSetWorkloadInfo t n)"
    using assms(3-6) by (simp add: decodeWorkload_def decodeScaleWorkload_def getResult_def)
  moreover have "names req (wl_name (statefulSetWorkloadInfo t n))"
    using lookup_name [OF assms(6)] by (simp add: names_def statefulSetWorkloadInfo_def)
  ultimately have "safe_beside s (statefulSetWorkloadInfo t n)" using handle_safe [OF assms(1,2)] by blast
  then show ?thesis by (simp add: statefulSetWorkloadInfo_def effectiveReplicas_def)
qed

lemma deleted_litestream: "one_writer s \<Longrightarrow> one_writer (s\<lparr>cl_litestreams := remove li_Name n (cl_litestreams s)\<rparr>)"
proof -
  assume inv: "one_writer s"
  define s' where "s' = s\<lparr>cl_litestreams := remove li_Name n (cl_litestreams s)\<rparr>"
  have "replicating s' w l \<Longrightarrow> replicating s w l" for w l by (auto simp: replicating_def s'_def lookup_remove split: if_splits)
  moreover have "workloads s' = workloads s" by (simp add: s'_def workloads_def)
  ultimately show ?thesis using inv unfolding one_writer_def s'_def [symmetric] by metis
qed

lemma litestream_allowed:
  assumes "LitestreamValidator_Handle api (Some (reader_of s)) req = Allowed m" "writesObject req" "rq_Litestream req = Inr l"
    and "litestreamReplicates (l\<lparr>li_Namespace := rq_Namespace req\<rparr>)"
  shows "litestreamConflict (reader_of s) (l\<lparr>li_Namespace := rq_Namespace req\<rparr>) [] (workloads s) = Inr None"
  using assms
  by (auto simp: LitestreamValidator_Handle_def LitestreamValidator_existingWorkloadConflict_def writesObject_def Let_def split: if_splits sum.splits option.splits)

lemma admits_one_writer:
  assumes "admits api s s'" "one_writer s"
  shows "one_writer s'"
  using assms
proof (induction rule: admits.induct)
  case (applyDeployment s req m d)
  then have "safe_beside s (deploymentWorkloadInfo d (effectiveReplicas (dp_Replicas d)))"
    by (intro handle_safe [of s req m]) (simp_all add: decodeWorkload_def deploymentWorkloadInfo_def)
  then show ?case using applyDeployment change_workload [OF _ _ store_workloads(1)] by simp
next
  case (applyStatefulSet s req m t)
  then have "safe_beside s (statefulSetWorkloadInfo t (effectiveReplicas (ss_Replicas t)))"
    by (intro handle_safe [of s req m]) (simp_all add: decodeWorkload_def statefulSetWorkloadInfo_def)
  then show ?case using applyStatefulSet change_workload [OF _ _ store_workloads(2)] by simp
next
  case (applyDaemonSet s req m t)
  then have "safe_beside s (daemonSetWorkloadInfo t)"
    by (intro handle_safe [of s req m]) (simp_all add: decodeWorkload_def daemonSetWorkloadInfo_def)
  then show ?case using applyDaemonSet change_workload [OF _ _ store_workloads(3)] by simp
next
  case (scaleDeployment s req m n d)
  then have "safe_beside s (deploymentWorkloadInfo (d\<lparr>dp_Replicas := Some n\<rparr>) (effectiveReplicas (Some n)))" by (intro scaled_deployment_safe)
  then show ?case using scaleDeployment change_workload [OF _ _ store_workloads(1) [where s = s and d = "d\<lparr>dp_Replicas := Some n\<rparr>"]] by simp
next
  case (scaleStatefulSet s req m n t)
  then have "safe_beside s (statefulSetWorkloadInfo (t\<lparr>ss_Replicas := Some n\<rparr>) (effectiveReplicas (Some n)))" by (intro scaled_statefulSet_safe)
  then show ?case using scaleStatefulSet change_workload [OF _ _ store_workloads(2) [where s = s and t = "t\<lparr>ss_Replicas := Some n\<rparr>"]] by simp
next
  case (applyLitestream s req m l)
  show ?case
  proof (rule change_litestream)
    show "li_Name (l\<lparr>li_Namespace := rq_Namespace req\<rparr>) \<noteq> []" using applyLitestream(4) by simp
  qed (use applyLitestream litestream_allowed in blast)+
next
  case (applyReplica s req m r)
  then show ?case using remove_workload [of s] by (simp add: workloads_def)
next
  case (deleteReplica s req m r)
  then show ?case using remove_workload [of s] by (simp add: workloads_def)
next
  case (deleteDeployment s n)
  then show ?case using remove_workload [OF _ _ remove_workloads(1)] by simp
next
  case (deleteStatefulSet s n)
  then show ?case using remove_workload [OF _ _ remove_workloads(2)] by simp
next
  case (deleteDaemonSet s n)
  then show ?case using remove_workload [OF _ _ remove_workloads(3)] by simp
next
  case (deleteLitestream s n)
  then show ?case by (intro deleted_litestream)
qed

subsection \<open>Rollouts\<close>

lemma no_surge_checked: "\<not> deploymentMayCreateConcurrentPods d \<Longrightarrow> no_surge d"
  by (auto simp: deploymentMayCreateConcurrentPods_def no_surge_def not_less split: if_splits option.splits IntOrString.splits)

lemma handle_no_surge:
  assumes handle: "WorkloadValidator_Handle (reader_of s) req = Allowed m" and req: "writesObject req"
    and dec: "decodeWorkload (reader_of s) req = Inr (deploymentWorkloadInfo d (effectiveReplicas (dp_Replicas d)))"
    and active: "0 < effectiveReplicas (dp_Replicas d)" and rep: "replicating s (deploymentWorkloadInfo d (effectiveReplicas (dp_Replicas d))) l"
  shows "no_surge d"
proof (rule no_surge_checked)
  have "injectName (dp_Annotations d) \<noteq> []" "lookup li_Name (injectName (dp_Annotations d)) (cl_litestreams s) = Some l" "litestreamReplicates l"
    using rep by (simp_all add: replicating_def deploymentWorkloadInfo_def)
  then show "\<not> deploymentMayCreateConcurrentPods d"
    using handle req active unfolding WorkloadValidator_Handle_def dec Let_def
    by (auto simp: writesObject_def getResult_def deploymentWorkloadInfo_def split: if_splits)
qed

lemma litestreamConflict_rollout:
  assumes "litestreamConflict (reader_of s) r matching ws = Inr None" "w \<in> set ws" "injectName (wl_annotations w) = li_Name r" "wl_hasActivePods w"
  shows "\<not> wl_unsafeDeploymentRollout w"
  using assms
  by (induction ws arbitrary: matching)
    (auto simp: workloadSafetyConflict_def Let_def split: if_splits option.splits get_result.splits)

lemma deployment_workload:
  "d \<in> set (cl_deployments s) \<Longrightarrow> deploymentWorkloadInfo d (effectiveReplicas (dp_Replicas d)) \<in> set (workloads s)"
  by (simp add: workloads_def workloadsOf_def)

text \<open>A Deployment that is not the one a step writes keeps its strategy and its Litestream.\<close>

lemma rollouts_kept:
  assumes "rollouts_single s" "set (cl_deployments s') \<subseteq> insert d (set (cl_deployments s))" "cl_litestreams s' = cl_litestreams s"
    and "\<forall>e\<in>set (cl_deployments s'). e \<noteq> d \<and> dp_Name e \<notin> set (cl_scaled s') \<longrightarrow> dp_Name e \<notin> set (cl_scaled s)"
    and "\<forall>l. 0 < effectiveReplicas (dp_Replicas d) \<and> dp_Name d \<notin> set (cl_scaled s')
      \<and> replicating s (deploymentWorkloadInfo d (effectiveReplicas (dp_Replicas d))) l \<longrightarrow> no_surge d"
  shows "rollouts_single s'"
proof -
  have rep: "replicating s' v l \<longleftrightarrow> replicating s v l" for v l using assms(3) by (simp add: replicating_def)
  show ?thesis unfolding rollouts_single_def rep
  proof (intro ballI allI impI)
    fix e l
    assume e: "e \<in> set (cl_deployments s')" and prem: "0 < effectiveReplicas (dp_Replicas e) \<and> dp_Name e \<notin> set (cl_scaled s')
      \<and> replicating s (deploymentWorkloadInfo e (effectiveReplicas (dp_Replicas e))) l"
    show "no_surge e"
    proof (cases "e = d")
      case True
      then show ?thesis using prem assms(5) by blast
    next
      case False
      then show ?thesis using e prem assms(1,2,4) unfolding rollouts_single_def by blast
    qed
  qed
qed

lemma rollouts_same:
  assumes "rollouts_single s" "set (cl_deployments s') \<subseteq> set (cl_deployments s)" "cl_scaled s' = cl_scaled s"
    and "\<And>v l. replicating s' v l \<Longrightarrow> replicating s v l"
  shows "rollouts_single s'"
  using assms unfolding rollouts_single_def by (metis subsetD)

lemma rollouts_litestream:
  assumes inv: "rollouts_single s"
    and ok: "litestreamReplicates r \<Longrightarrow> litestreamConflict (reader_of s) r [] (workloads s) = Inr None"
  shows "rollouts_single (s\<lparr>cl_litestreams := store li_Name r (cl_litestreams s)\<rparr>)"
  unfolding rollouts_single_def
proof (intro ballI allI impI)
  let ?s = "s\<lparr>cl_litestreams := store li_Name r (cl_litestreams s)\<rparr>"
  fix d l
  let ?w = "deploymentWorkloadInfo d (effectiveReplicas (dp_Replicas d))"
  assume d: "d \<in> set (cl_deployments ?s)"
    and prem: "0 < effectiveReplicas (dp_Replicas d) \<and> dp_Name d \<notin> set (cl_scaled ?s) \<and> replicating ?s ?w l"
  show "no_surge d"
  proof (cases "injectName (wl_annotations ?w) = li_Name r")
    case True
    then have "litestreamReplicates r" using prem by (simp add: replicating_def lookup_store)
    moreover have "?w \<in> set (workloads s)" using d by (simp add: deployment_workload)
    moreover have "wl_hasActivePods ?w" using prem by (simp add: deploymentWorkloadInfo_def)
    ultimately have "\<not> wl_unsafeDeploymentRollout ?w" using litestreamConflict_rollout [OF ok _ True] by blast
    then show ?thesis by (simp add: deploymentWorkloadInfo_def no_surge_checked)
  next
    case False
    then have "replicating s ?w l" using prem by (simp add: replicating_def lookup_store)
    then show ?thesis using inv d prem unfolding rollouts_single_def by auto
  qed
qed

lemma admits_rollouts:
  assumes "admits api s s'" "rollouts_single s"
  shows "rollouts_single s'"
  using assms
proof (induction rule: admits.induct)
  case (applyDeployment s req m d)
  have dec: "decodeWorkload (reader_of s) req = Inr (deploymentWorkloadInfo d (effectiveReplicas (dp_Replicas d)))"
    using applyDeployment by (simp add: decodeWorkload_def)
  show ?case
  proof (rule rollouts_kept [OF applyDeployment(7), where d = d])
    show "\<forall>l. 0 < effectiveReplicas (dp_Replicas d)
        \<and> dp_Name d \<notin> set (cl_scaled (s\<lparr>cl_deployments := store dp_Name d (cl_deployments s), cl_scaled := removeAll (dp_Name d) (cl_scaled s)\<rparr>))
        \<and> replicating s (deploymentWorkloadInfo d (effectiveReplicas (dp_Replicas d))) l \<longrightarrow> no_surge d"
      using handle_no_surge [OF applyDeployment(1,2) dec] by blast
  qed (auto simp: store_def)
next
  case (scaleDeployment s req m n d)
  have "dp_Name d = rq_Name req" using scaleDeployment(6) by (rule lookup_name)
  then show ?case
    by (intro rollouts_kept [OF scaleDeployment(7), where d = "d\<lparr>dp_Replicas := Some n\<rparr>"]) (auto simp: store_def)
next
  case (applyLitestream s req m l)
  then show ?case by (intro rollouts_litestream litestream_allowed)
next
  case (deleteLitestream s n)
  then show ?case by (rule rollouts_same) (auto simp: replicating_def lookup_remove split: if_splits)
next
  case (deleteDeployment s n)
  then show ?case by (rule rollouts_same) (auto simp: replicating_def remove_def)
qed (simp_all add: rollouts_single_def replicating_def)

text \<open>C5. The webhooks keep a single writer, as far as requests come one after the other, each checked
  against the state it changes. In every state a namespace reaches through requests they allow, and
  through deletions: a workload whose Litestream replicates has at most one replica in its spec (a
  DaemonSet none at all); a Deployment with Pods whose Litestream replicates does not surge, so that
  its rollouts do not run a second Pod either, unless its scale was written after the Deployment itself (a
  scale request is not checked for the strategy, and starts no rollout; the next write of the
  Deployment is checked again); and two workloads with Pods whose Litestreams replicate have no
  destination (replica and database path) in common. Requests that race with each other are outside:
  the README says that the checks are best-effort for them.\<close>

theorem admission_single_writer:
  assumes "reachableCluster api s"
  shows "single_writer s"
  using assms
proof (induction rule: reachableCluster.induct)
  case start
  show ?case by (simp add: single_writer_def one_writer_def rollouts_single_def workloads_def workloadsOf_def emptyCluster_def)
next
  case (step s s')
  then show ?case using admits_one_writer admits_rollouts by (simp add: single_writer_def)
qed

subsection \<open>Replicas in use\<close>

definition usable :: "api_env \<Rightarrow> replica_reader \<Rightarrow> string \<Rightarrow> string \<Rightarrow> bool" where
  "usable api rd ns n = (case rd ns n of Found r \<Rightarrow> LitestreamReplicaSpec_Validate api r = [] | _ \<Rightarrow> False)"

lemma readReplica_usable:
  "readReplica api rd ns n f = Inr x \<Longrightarrow> usable api rd ns n" "readReplica api rd ns n f = Inl e \<Longrightarrow> \<not> usable api rd ns n"
  by (auto simp: readReplica_def usable_def Let_def split: get_result.splits if_splits)

lemma resolveBinding_usable:
  "(\<exists>d. resolveBinding api rd ns i b = Inr d) \<longleftrightarrow>
     pred_option (\<lambda>r. usable api rd ns (rs_ReplicaRef r)) (db_Restore b) \<and> pred_option (\<lambda>r. usable api rd ns (rc_ReplicaRef r)) (db_Replicate b)"
  unfolding resolveBinding_def destinationReplica_def
  by (auto simp: option.pred_set dest: readReplica_usable split: option.splits sum.splits)

lemma resolveBindings_usable:
  "(\<exists>ds. resolveBindings api rd ns i bs = Inr ds) \<longleftrightarrow>
     list_all (\<lambda>b. pred_option (\<lambda>r. usable api rd ns (rs_ReplicaRef r)) (db_Restore b) \<and> pred_option (\<lambda>r. usable api rd ns (rc_ReplicaRef r)) (db_Replicate b)) bs"
proof (induction bs arbitrary: i)
  case (Cons b bs)
  then show ?case using resolveBinding_usable [of api rd ns i b] Cons [of "Suc i"]
    by (cases "resolveBinding api rd ns i b"; cases "resolveBindings api rd ns (Suc i) bs") auto
qed simp

lemma Resolve_usable:
  "(\<exists>inp. Resolve api (Some rd) (Some l) = Inr inp) \<longleftrightarrow> LitestreamSpec_Validate api (li_Spec l) = []
     \<and> list_all (\<lambda>b. pred_option (\<lambda>r. usable api rd (li_Namespace l) (rs_ReplicaRef r)) (db_Restore b)
         \<and> pred_option (\<lambda>r. usable api rd (li_Namespace l) (rc_ReplicaRef r)) (db_Replicate b)) (ls_Databases (li_Spec l))"
  unfolding resolveBindings_usable [where i = 0, symmetric] by (auto simp: Resolve_def Let_def split: sum.split)

lemma usable_after:
  assumes "admits api s s'" "l \<in> set (cl_litestreams s)" "b \<in> set (ls_Databases (li_Spec l))" "references n b" "usable api (replica_reader_of s) ns n"
  shows "usable api (replica_reader_of s') ns n"
  using assms
proof (induction rule: admits.induct)
  case (applyReplica s req m r)
  then have "LitestreamReplicaSpec_Validate api (snd r) = []"
    by (auto simp: DependencyValidator_Handle_def writesObject_def split: if_splits prod.splits)
  then show ?case using applyReplica by (auto simp: usable_def replica_reader_of_def lookup_store getResult_def)
next
  case (deleteReplica s req m r)
  then have "\<not> list_ex (references (fst r)) (ls_Databases (li_Spec l))"
    by (auto simp: DependencyValidator_Handle_def protectReplicaDeletion_def allowDeletionUnlessReferenced_def filter_empty_conv split: if_splits prod.splits)
  then have "n \<noteq> fst r" using deleteReplica by (auto simp: list_ex_iff)
  then show ?case using deleteReplica by (simp add: usable_def replica_reader_of_def lookup_remove)
qed (simp_all add: usable_def replica_reader_of_def)

text \<open>C25. What resolves keeps resolving. When the replicas a Litestream refers to exist and are valid,
  no allowed request takes that away: a replica in use is not deleted, and a replica is only replaced
  by a valid one.\<close>

theorem resolvable_stays:
  assumes "admits api s s'" "l \<in> set (cl_litestreams s)" "Resolve api (Some (replica_reader_of s)) (Some l) = Inr inp"
  shows "\<exists>inp'. Resolve api (Some (replica_reader_of s')) (Some l) = Inr inp'"
proof -
  have "references (rs_ReplicaRef r) b" if "db_Restore b = Some r" for b r using that by (simp add: references_def)
  moreover have "references (rc_ReplicaRef r) b" if "db_Replicate b = Some r" for b r using that by (simp add: references_def)
  ultimately have "pred_option (\<lambda>r. usable api (replica_reader_of s') (li_Namespace l) (rs_ReplicaRef r)) (db_Restore b)
      \<and> pred_option (\<lambda>r. usable api (replica_reader_of s') (li_Namespace l) (rc_ReplicaRef r)) (db_Replicate b)"
    if "b \<in> set (ls_Databases (li_Spec l))" "pred_option (\<lambda>r. usable api (replica_reader_of s) (li_Namespace l) (rs_ReplicaRef r)) (db_Restore b)"
      "pred_option (\<lambda>r. usable api (replica_reader_of s) (li_Namespace l) (rc_ReplicaRef r)) (db_Replicate b)" for b
    using that usable_after [OF assms(1,2) that(1)] by (auto simp: option.pred_set)
  moreover have "\<exists>inp. Resolve api (Some (replica_reader_of s)) (Some l) = Inr inp" using assms(3) by blast
  ultimately show ?thesis unfolding Resolve_usable by (simp add: list_all_iff)
qed

end
