(* ===== verification/Litestream_Published.thy ===== *)
theory Litestream_Published
  imports Litestream_Mutator
begin

text \<open>
  What the controller publishes is what the webhook accepts: after a successful reconciliation of a
  resource that renders, the checks of the webhook on its status and its ConfigMap succeed. Also the
  lengths of generated names, and which resources a changed replica requeues.
\<close>

subsection \<open>Names fit\<close>

lemma trimRight_length: "length (trimRightSet s cs) \<le> length s"
  unfolding trimRightSet_def using length_dropWhile_le [of "\<lambda>c. c \<in> set cs" "rev s"] by simp

text \<open>Generated names fit. With a hash of at most 64 characters, as that of SHA-256 in hexadecimal,
  the name of the ConfigMap exists (the slice is in range) and has at most 253 characters, and the
  label with the resource's name has at most 63, for resource names of any length.\<close>

theorem generated_names_fit:
  assumes "length hash \<le> 64"
  shows "(\<exists>name. ConfigMapNameForHash r hash = Some name \<and> length name \<le> DNS1123SubdomainMaxLength) \<and> length (resourceNameLabel env n) \<le> LabelValueMaxLength"
proof
  have "\<exists>name. configMapName r suffix = Some name \<and> length name \<le> DNS1123SubdomainMaxLength" if suffix: "length suffix \<le> 65" for suffix
  proof -
    define room where "room = 253 - 11 - length (''-'' @ take 8 (li_UID r)) - length suffix"
    have uid: "length (''-'' @ take 8 (li_UID r)) \<le> 9" by simp
    have room: "int 253 - int (length ''litestream-'') - int (length (''-'' @ take 8 (li_UID r))) - int (length suffix) = int room"
      using uid suffix by (simp add: room_def)
    have "length (if length (li_Name r) > room then trimRightSet (take room (li_Name r)) ''.'' else li_Name r) \<le> room"
      using trimRight_length [of "take room (li_Name r)" "''.''"] by simp
    moreover have "configMapName r suffix = Some (''litestream-''
        @ (if length (li_Name r) > room then trimRightSet (take room (li_Name r)) ''.'' else li_Name r) @ (''-'' @ take 8 (li_UID r)) @ suffix)"
      unfolding configMapName_def Let_def DNS1123SubdomainMaxLength_def room by simp
    ultimately show ?thesis using room by (simp add: DNS1123SubdomainMaxLength_def)
  qed
  then show "\<exists>name. ConfigMapNameForHash r hash = Some name \<and> length name \<le> DNS1123SubdomainMaxLength"
    using assms by (simp add: ConfigMapNameForHash_def ConfigMapName_def)
  have "length (trimRightSet (take 54 n) ''-_.'') \<le> 54" using trimRight_length [of "take 54 n" "''-_.''"] by simp
  then have "length (trimRightSet (take 54 n) ''-_.'') + min (length (sha256Hex env n)) 8 \<le> 62" by linarith
  then show "length (resourceNameLabel env n) \<le> LabelValueMaxLength" by (simp add: resourceNameLabel_def LabelValueMaxLength_def Let_def)
qed

subsection \<open>Publishing\<close>

text \<open>What the reconciler relies on: a create-or-update that succeeds stores what its function made of
  an object under that name, a status patch that succeeds stores the resource with the new status, a
  controller reference makes the resource the controller and changes nothing else, a condition that
  is set is found, events change nothing that is read, and objects carry the names they are read by.\<close>

definition kube_laws :: "'s kube \<Rightarrow> bool" where
  "kube_laws k \<longleftrightarrow>
     (\<forall>s cm f s'. kCreateOrUpdate k s cm f = (None, s') \<longrightarrow>
        (\<exists>old new. f old = Inr new \<and> kGetConfigMap k s' (cm_Namespace cm) (cm_Name cm) = Found new)
        \<and> kGetLitestream k s' = kGetLitestream k s \<and> kGetReplica k s' = kGetReplica k s)
     \<and> (\<forall>s r st s'. kGetLitestream k s (li_Namespace r) (li_Name r) = Found r \<and> kPatchStatus k s r (r\<lparr>li_Status := st\<rparr>) = (None, s') \<longrightarrow>
        kGetLitestream k s' (li_Namespace r) (li_Name r) = Found (r\<lparr>li_Status := st\<rparr>)
        \<and> kGetConfigMap k s' = kGetConfigMap k s \<and> kGetReplica k s' = kGetReplica k s)
     \<and> (\<forall>s e. kGetLitestream k (kEventf k s e) = kGetLitestream k s \<and> kGetReplica k (kEventf k s e) = kGetReplica k s
        \<and> kGetConfigMap k (kEventf k s e) = kGetConfigMap k s)
     \<and> (\<forall>r cm cm'. setControllerReference k r cm = Inr cm' \<longrightarrow> cm' = cm\<lparr>cm_Controller := Some (li_UID r)\<rparr>)
     \<and> (\<forall>cs c. findStatusCondition k (setStatusCondition k cs c) (cn_Type c) = Some c)
     \<and> (\<forall>s ns n r. kGetLitestream k s ns n = Found r \<longrightarrow> li_Namespace r = ns \<and> li_Name r = n)"

text \<open>The webhook's view of the same cluster; it lists the given Pods.\<close>

definition webhook_view :: "'s kube \<Rightarrow> 's \<Rightarrow> Pod list \<Rightarrow> cluster_reader" where
  "webhook_view k s pods = \<lparr>getLitestream = kGetLitestream k s, getReplica = kGetReplica k s, getConfigMap = kGetConfigMap k s,
     listPods = (\<lambda>ns. Inr pods), findCondition = findStatusCondition k\<rparr>"

lemma sameData_refl: "sameData d d"
  by (simp add: sameData_def list_all_iff)

lemma mutated_data:
  assumes "kube_laws k" "mutateConfigMap k env r rendered old = Inr new"
  shows "cm_Data new = rn_Data rendered \<and> cm_Controller new = Some (li_UID r)"
proof -
  obtain cm where cm: "setControllerReference k r cm = Inr new" "cm_Data cm = rn_Data rendered" using assms(2) by (simp add: mutateConfigMap_def)
  have "setControllerReference k r cm = Inr new \<longrightarrow> new = cm\<lparr>cm_Controller := Some (li_UID r)\<rparr>" using assms(1) unfolding kube_laws_def by blast
  then show ?thesis using cm by simp
qed

lemma kube_facts:
  assumes "kube_laws k"
  shows "kCreateOrUpdate k s cm f = (None, s') \<Longrightarrow>
      (\<exists>old new. f old = Inr new \<and> kGetConfigMap k s' (cm_Namespace cm) (cm_Name cm) = Found new)
      \<and> kGetLitestream k s' = kGetLitestream k s \<and> kGetReplica k s' = kGetReplica k s"
    and "kGetLitestream k s (li_Namespace r) (li_Name r) = Found r \<Longrightarrow> kPatchStatus k s r (r\<lparr>li_Status := st\<rparr>) = (None, s') \<Longrightarrow>
      kGetLitestream k s' (li_Namespace r) (li_Name r) = Found (r\<lparr>li_Status := st\<rparr>)
      \<and> kGetConfigMap k s' = kGetConfigMap k s \<and> kGetReplica k s' = kGetReplica k s"
    and "kGetLitestream k (kEventf k s e) = kGetLitestream k s" "kGetReplica k (kEventf k s e) = kGetReplica k s"
      "kGetConfigMap k (kEventf k s e) = kGetConfigMap k s"
    and "findStatusCondition k (setStatusCondition k cs c) (cn_Type c) = Some c"
    and "kGetLitestream k s ns n = Found r \<Longrightarrow> li_Namespace r = ns \<and> li_Name r = n"
  using assms unfolding kube_laws_def by blast+

lemma Reconcile_published:
  assumes laws: "kube_laws k" and run: "LitestreamReconciler_Reconcile api env k s ns n = (None, s')" and get: "kGetLitestream k s ns n = Found r" "\<not> li_Deleting r"
    and inp: "Resolve api (Some (kGetReplica k s)) (Some r) = Inr inp" and ren: "Render env inp = Inr rendered"
  obtains name new st where "ConfigMapNameForHash r (rn_Hash rendered) = Some name"
    "kGetLitestream k s' ns n = Found (r\<lparr>li_Status := st\<rparr>)" "kGetReplica k s' = kGetReplica k s" "kGetConfigMap k s' ns name = Found new"
    "cm_Data new = rn_Data rendered" "cm_Controller new = Some (li_UID r)" "st_ConfigMapName st = name" "st_ConfigHash st = rn_Hash rendered"
    "findStatusCondition k (st_Conditions st) ReadyConditionType = Some (readyCondition r)"
proof -
  have valid: "LitestreamSpec_Validate api (li_Spec r) = []" using inp by (auto simp: Resolve_def Let_def split: if_splits)
  have at: "li_Namespace r = ns" "li_Name r = n" using kube_facts(7) [OF laws get(1)] by auto
  obtain name where name: "ConfigMapNameForHash r (rn_Hash rendered) = Some name"
    using run get valid inp ren by (cases "ConfigMapNameForHash r (rn_Hash rendered)") (simp_all add: LitestreamReconciler_Reconcile_def)
  obtain err s1 where result: "reconcileConfigMap k env s r name rendered = (err, s1)" by fastforce
  define s2 where "s2 = kEventf k s1 \<lparr>ev_Resource = li_Name r, ev_Type = ''Normal'', ev_Reason = ReasonConfigRendered,
     ev_Message = ''rendered configuration into ConfigMap '' @ name @ '' (hash '' @ rn_Hash rendered @ '')''\<rparr>"
  have "LitestreamReconciler_Reconcile api env k s ns n = (case err of Some e \<Rightarrow> (Some e, s1) | None \<Rightarrow> markReady k s2 r name (rn_Hash rendered))"
    using get valid inp ren name result unfolding LitestreamReconciler_Reconcile_def s2_def Let_def by (cases err) simp_all
  then have "err = None" and mark: "markReady k s2 r name (rn_Hash rendered) = (None, s')" using run by (auto split: option.splits)
  then have cm: "kCreateOrUpdate k s (emptyConfigMap ns name) (mutateConfigMap k env r rendered) = (None, s1)"
    using result at by (simp add: reconcileConfigMap_def)
  note created = kube_facts(1) [OF laws cm]
  have stored: "kGetLitestream k s2 (li_Namespace r) (li_Name r) = Found r" using created get(1) s2_def at kube_facts(3) [OF laws] by simp
  obtain st where st: "st = (li_Status r)\<lparr>st_Conditions := setStatusCondition k (st_Conditions (li_Status r)) (readyCondition r),
        st_ObservedGeneration := li_Generation r, st_ConfigMapName := name, st_ConfigHash := rn_Hash rendered\<rparr>" by blast
  have patch: "kPatchStatus k s2 r (r\<lparr>li_Status := st\<rparr>) = (None, s')" using mark unfolding markReady_def st .
  note patched = kube_facts(2) [OF laws stored patch]
  obtain old new where new: "mutateConfigMap k env r rendered old = Inr new" "kGetConfigMap k s1 ns name = Found new"
    using created by (auto simp: emptyConfigMap_def)
  have "findStatusCondition k (st_Conditions st) ReadyConditionType = Some (readyCondition r)"
    using kube_facts(6) [OF laws, of "st_Conditions (li_Status r)" "readyCondition r"] by (simp add: st readyCondition_def)
  then show thesis
    using that [of name st new] name patched created at new mutated_data [OF laws new(1)] s2_def kube_facts(4,5) [OF laws] st by simp
qed

text \<open>C19. The webhook accepts what the controller has published. When a resource that resolves and
  renders was reconciled without error, the webhook reads it as ready with this very rendering and
  takes its ConfigMap for the published one, so a Pod that names it is not rejected for its
  configuration.\<close>

theorem reconciled_is_published:
  assumes "kube_laws k" "LitestreamReconciler_Reconcile api env k s ns n = (None, s')" "kGetLitestream k s ns n = Found r" "\<not> li_Deleting r"
    and "Resolve api (Some (kGetReplica k s)) (Some r) = Inr inp" "Render env inp = Inr rendered" "rn_Hash rendered \<noteq> []"
  shows "\<exists>r'. getLitestream (webhook_view k s' pods) ns n = Found r' \<and> li_Spec r' = li_Spec r
     \<and> Resolve api (Some (getReplica (webhook_view k s' pods))) (Some r') = Inr inp
     \<and> renderReadyResource env (webhook_view k s' pods) r' inp = Inr rendered
     \<and> verifyConfigMap (webhook_view k s' pods) r' rendered = None"
proof -
  obtain name new st where f: "ConfigMapNameForHash r (rn_Hash rendered) = Some name"
    "kGetLitestream k s' ns n = Found (r\<lparr>li_Status := st\<rparr>)" "kGetReplica k s' = kGetReplica k s" "kGetConfigMap k s' ns name = Found new"
    "cm_Data new = rn_Data rendered" "cm_Controller new = Some (li_UID r)" "st_ConfigMapName st = name" "st_ConfigHash st = rn_Hash rendered"
    "findStatusCondition k (st_Conditions st) ReadyConditionType = Some (readyCondition r)"
    by (rule Reconcile_published [OF assms(1-6)])
  have ns: "li_Namespace r = ns" using kube_facts(7) [OF assms(1,3)] by simp
  have "name \<noteq> []" using f(1) by (auto simp: ConfigMapNameForHash_def ConfigMapName_def configMapName_def Let_def split: if_splits)
  then have "verifyConfigMap (webhook_view k s' pods) (r\<lparr>li_Status := st\<rparr>) rendered = None"
    using f ns by (simp add: verifyConfigMap_def publishedConfigMapName_def webhook_view_def sameData_refl)
  moreover have "renderReadyResource env (webhook_view k s' pods) (r\<lparr>li_Status := st\<rparr>) inp = Inr rendered"
    using f assms(6,7) by (simp add: renderReadyResource_def webhook_view_def readyCondition_def)
  moreover have "Resolve api (Some (getReplica (webhook_view k s' pods))) (Some (r\<lparr>li_Status := st\<rparr>)) = Inr inp"
    using f(3) assms(5) unfolding Resolve_def Let_def by (auto simp: webhook_view_def split: if_splits sum.splits)
  ultimately show ?thesis using f(2) by (intro exI [of _ "r\<lparr>li_Status := st\<rparr>"]) (simp add: webhook_view_def)
qed

subsection \<open>Requeueing\<close>

definition uses_replica :: "string \<Rightarrow> Litestream \<Rightarrow> bool" where
  "uses_replica n r \<longleftrightarrow> list_ex (\<lambda>b. (\<exists>x. db_Restore b = Some x \<and> rs_ReplicaRef x = n) \<or> (\<exists>x. db_Replicate b = Some x \<and> rc_ReplicaRef x = n))
     (ls_Databases (li_Spec r))"

text \<open>A reader of the index lists, of the resources there are, those whose keys contain the one asked for.\<close>

definition indexes :: "index_reader \<Rightarrow> Litestream list \<Rightarrow> bool" where
  "indexes reader rs \<longleftrightarrow>
     (\<forall>key. reader SourceIndex key = Inr (filter (\<lambda>r. key \<in> set (indexLitestreamSourceReplicaReference r)) rs)
          \<and> reader DestinationIndex key = Inr (filter (\<lambda>r. key \<in> set (indexLitestreamDestinationReplicaReference r)) rs))"

lemma key_inj:
  assumes "CHR ''/'' \<notin> set ns" "CHR ''/'' \<notin> set ns'" "n \<noteq> []"
  shows "namespacedReferenceKey ns' n' = namespacedReferenceKey ns n \<longleftrightarrow> ns' = ns \<and> n' = n"
proof -
  have "ns' = ns \<and> n' = n" if "ns' @ ''/'' @ n' = ns @ ''/'' @ n"
    using that assms(1,2) by (induction ns' arbitrary: ns) (case_tac ns; auto)+
  then show ?thesis using assms(3) by (auto simp: namespacedReferenceKey_def)
qed

lemma index_keys:
  assumes "k \<noteq> []"
  shows "k \<in> set (indexLitestreamSourceReplicaReference r) \<longleftrightarrow>
      (\<exists>b\<in>set (ls_Databases (li_Spec r)). \<exists>x. db_Restore b = Some x \<and> namespacedReferenceKey (li_Namespace r) (rs_ReplicaRef x) = k)"
    "k \<in> set (indexLitestreamDestinationReplicaReference r) \<longleftrightarrow>
      (\<exists>b\<in>set (ls_Databases (li_Spec r)). \<exists>x. db_Replicate b = Some x \<and> namespacedReferenceKey (li_Namespace r) (rc_ReplicaRef x) = k)"
  using assms by (force simp: indexLitestreamSourceReplicaReference_def indexLitestreamDestinationReplicaReference_def sortedKeys_def split: option.splits)+

text \<open>C38. A changed replica requeues exactly the resources that use it: those of its namespace with a
  database that restores from it or replicates to it, once each. The index answers what the index
  functions give for the resources there are, and namespaces have no slash, as DNS names.\<close>

theorem replica_requeues_users:
  assumes "indexes reader rs" "n \<noteq> []" "CHR ''/'' \<notin> set ns" "\<forall>r\<in>set rs. CHR ''/'' \<notin> set (li_Namespace r)"
  shows "distinct (mapReplicaToLitestreams reader ns n)
    \<and> set (mapReplicaToLitestreams reader ns n) = {(li_Namespace r, li_Name r) | r. r \<in> set rs \<and> li_Namespace r = ns \<and> uses_replica n r}"
proof
  define key where "key = namespacedReferenceKey ns n"
  have key: "key \<noteq> []" using assms(2) by (simp add: key_def namespacedReferenceKey_def)
  have eq: "namespacedReferenceKey (li_Namespace r) n' = key \<longleftrightarrow> li_Namespace r = ns \<and> n' = n" if "r \<in> set rs" for r n'
    unfolding key_def using key_inj [OF assms(3) _ assms(2)] assms(4) that by blast
  have "r \<in> set rs \<Longrightarrow> key \<in> set (indexLitestreamSourceReplicaReference r) \<or> key \<in> set (indexLitestreamDestinationReplicaReference r) \<longleftrightarrow>
      li_Namespace r = ns \<and> uses_replica n r" for r
    unfolding index_keys [OF key] using eq [of r] by (auto simp: uses_replica_def list_ex_iff)
  moreover have "set (mapReplicaToLitestreams reader ns n) = (\<lambda>r. (li_Namespace r, li_Name r)) `
      {r \<in> set rs. key \<in> set (indexLitestreamSourceReplicaReference r) \<or> key \<in> set (indexLitestreamDestinationReplicaReference r)}"
    using assms(1) key by (auto simp: mapReplicaToLitestreams_def requestSet_def litestreamRequests_def indexes_def simp flip: key_def)
  ultimately show "set (mapReplicaToLitestreams reader ns n) = {(li_Namespace r, li_Name r) | r. r \<in> set rs \<and> li_Namespace r = ns \<and> uses_replica n r}"
    by auto
qed (simp add: mapReplicaToLitestreams_def requestSet_def Let_def)

end
