(* ===== verification/Litestream_Examples.thy ===== *)
theory Litestream_Examples
  imports Litestream_Files Litestream_Pods Litestream_Single_Writer Litestream_Published
begin

text \<open>
  A small cluster, on which the theorems about Pods, admission and publishing are applied: the resource
  of two databases replicating to Google's storage, its ConfigMap, and a Pod with a data volume.
\<close>

subsection \<open>Injection\<close>

definition small_image :: ImageSpec where
  "small_image = \<lparr>im_Repository = ''litestream'', im_Tag = [], im_Digest = ''sha256:'' @ replicate 64 CHR ''a'', im_PullPolicy = []\<rparr>"

definition small_resource :: Litestream where
  "small_resource = (let r = sample_resource [(sample_database ''a'')\<lparr>db_Restore := Some (clash_restore ''one''), db_Replicate := None\<rparr>]
     in r\<lparr>li_Spec := (li_Spec r)\<lparr>ls_Image := small_image\<rparr>\<rparr>)"

definition small_rendered :: RenderedConfig where
  "small_rendered = projr (Render sample_render (projr (Resolve sample_api (Some clash_reader) (Some small_resource))))"

definition small_ready :: Litestream where
  "small_ready = small_resource\<lparr>li_Status :=
     \<lparr>st_ObservedGeneration = 1, st_ConfigMapName = ''config'', st_ConfigHash = ''00'',
      st_Conditions = [\<lparr>cn_Type = ''Ready'', cn_Status = ''True'', cn_Reason = ''ConfigRendered'', cn_ObservedGeneration = 1, cn_Message = []\<rparr>]\<rparr>\<rparr>"

definition small_config :: ConfigMap where
  "small_config = (emptyConfigMap ''ns'' ''config'')\<lparr>cm_Data := rn_Data small_rendered, cm_Controller := Some ''u''\<rparr>"

definition small_reader :: cluster_reader where
  "small_reader = \<lparr>getLitestream = (\<lambda>ns n. if n = ''db'' then Found small_ready else NotFound), getReplica = clash_reader,
     getConfigMap = (\<lambda>ns n. if n = ''config'' then Found small_config else NotFound), listPods = (\<lambda>ns. Inr []),
     findCondition = (\<lambda>cs t. find (\<lambda>c. cn_Type c = t) cs)\<rparr>"

definition sample_mount :: VolumeMount where
  "sample_mount = \<lparr>vm_Name = ''data'', vm_ReadOnly = False, vm_RecursiveReadOnly = None, vm_MountPath = ''/data/'', vm_SubPath = [], vm_SubPathExpr = [],
     vm_MountPropagation = None\<rparr>"

definition sample_pod :: Pod where
  "sample_pod = \<lparr>pod_Name = ''app-1'', pod_Namespace = ''ns'', pod_Annotations = [(InjectAnnotation, ''db'')], pod_OS = None,
     pod_Volumes = [\<lparr>vo_Name = ''data'', vo_Source = OtherVolume ''pvc''\<rparr>],
     pod_Containers = [\<lparr>ct_Name = ''app'', ct_Image = ''app:1'', ct_ImagePullPolicy = [], ct_Command = [], ct_Env = [], ct_VolumeMounts = [sample_mount],
       ct_Resources = [], ct_SecurityContext = None, ct_RestartPolicy = None, ct_Others = []\<rparr>],
     pod_InitContainers = [\<lparr>ct_Name = ''setup'', ct_Image = ''app:1'', ct_ImagePullPolicy = [], ct_Command = [''setup''], ct_Env = [], ct_VolumeMounts = [],
       ct_Resources = [], ct_SecurityContext = None, ct_RestartPolicy = None, ct_Others = []\<rparr>], pod_SecurityContext = None, pod_Phase = ''Pending''\<rparr>"

definition sample_injected :: Pod where
  "sample_injected = projr (Mutate sample_api sample_render small_reader [] (Some sample_pod))"

lemma sample_accepted: "\<not> isl (Mutate sample_api sample_render small_reader [] (Some sample_pod))"
  by code_simp

lemma sample_mutated: "Mutate sample_api sample_render small_reader [] (Some sample_pod) = Inr sample_injected"
  using sample_accepted by (simp add: sample_injected_def)

theorem mutate_idempotent_witness: "Mutate sample_api sample_render small_reader [] (Some sample_injected) = Inr sample_injected"
  by (rule mutate_idempotent [OF sample_mutated])

theorem mutate_adds_only_witness:
  "\<exists>volumes inits. sample_injected = sample_pod\<lparr>pod_Volumes := pod_Volumes sample_pod @ volumes,
        pod_InitContainers := inits @ filter (\<lambda>c. ct_Name c \<notin> ct_Name ` set inits) (pod_InitContainers sample_pod),
        pod_SecurityContext := pod_SecurityContext sample_injected\<rparr>
     \<and> list_all (\<lambda>v. findVolume (pod_Volumes sample_pod) (vo_Name v) = None) volumes
     \<and> list_all (\<lambda>c. ValidateImageReference sample_api (ct_Image c) = None \<and> findContainer (pod_Containers sample_pod) (ct_Name c) = None
          \<and> findContainer (pod_InitContainers sample_pod) (ct_Name c) \<in> {None, Some c}) inits
     \<and> set (pod_InitContainers sample_pod) \<subseteq> set (pod_InitContainers sample_injected)
     \<and> keeps_security (pod_SecurityContext sample_pod) (pod_SecurityContext sample_injected)"
proof -
  have "distinct (map ct_Name (pod_InitContainers sample_pod))" by (simp add: sample_pod_def)
  with mutate_adds_only [OF sample_mutated] show ?thesis by simp
qed

definition sample_target :: ResolvedTarget where
  "sample_target = \<lparr>tg_ContainerIndex = 0, tg_ContainerName = ''app'', tg_VolumeName = ''data'', tg_MountPath = ''/data''\<rparr>"

lemma sample_resolves: "ResolveTarget sample_pod sample_input = Inr sample_target"
  by code_simp

theorem target_holds_databases_witness:
  "\<exists>i m. eligible sample_pod sample_input i m \<and> sample_target = targetOf sample_pod i m"
  using target_holds_databases [OF sample_resolves] by (rule conjunct1)

subsection \<open>Admission\<close>

definition blank_request :: admission_request where
  "blank_request = \<lparr>rq_Operation = ''CREATE'', rq_Namespace = ''ns'', rq_Name = [], rq_SubResource = [], rq_Kind = [], rq_Resource = [],
     rq_Deployment = Inl [], rq_StatefulSet = Inl [], rq_DaemonSet = Inl [], rq_Scale = Inl [], rq_Litestream = Inl [], rq_Replica = Inl [],
     rq_OldReplica = Inl []\<rparr>"

definition small_litestream :: Litestream where
  "small_litestream = sample_resource [sample_database ''a'']"

definition sample_deployment :: Deployment where
  "sample_deployment = \<lparr>dp_Name = ''app'', dp_Annotations = [(InjectAnnotation, ''db'')], dp_Replicas = None, dp_StrategyType = ''RollingUpdate'',
     dp_RollingUpdate = Some (Some (StrVal ''0%''))\<rparr>"

definition cluster1 :: cluster where
  "cluster1 = emptyCluster\<lparr>cl_replicas := store fst (''gcs'', sample_gcs) (cl_replicas emptyCluster)\<rparr>"

definition cluster2 :: cluster where
  "cluster2 = cluster1\<lparr>cl_litestreams := store li_Name (small_litestream\<lparr>li_Namespace := ''ns''\<rparr>) (cl_litestreams cluster1)\<rparr>"

definition cluster3 :: cluster where
  "cluster3 = cluster2\<lparr>cl_deployments := store dp_Name sample_deployment (cl_deployments cluster2),
     cl_scaled := removeAll (dp_Name sample_deployment) (cl_scaled cluster2)\<rparr>"

lemma admitted1: "admits sample_api emptyCluster cluster1"
  unfolding cluster1_def
proof (rule applyReplica)
  show "DependencyValidator_Handle sample_api (reader_of emptyCluster) (blank_request\<lparr>rq_Replica := Inr (''gcs'', sample_gcs)\<rparr>) =
      Allowed ''LitestreamReplica spec is valid''" by code_simp
qed (simp_all add: blank_request_def writesObject_def)

lemma admitted2: "admits sample_api cluster1 cluster2"
proof -
  define req where "req = blank_request\<lparr>rq_Litestream := Inr small_litestream\<rparr>"
  have "LitestreamValidator_Handle sample_api (Some (reader_of cluster1)) req = Allowed ''Litestream spec is valid''" unfolding req_def by code_simp
  then have "admits sample_api cluster1 (cluster1\<lparr>cl_litestreams := store li_Name (small_litestream\<lparr>li_Namespace := rq_Namespace req\<rparr>) (cl_litestreams cluster1)\<rparr>)"
    by (rule applyLitestream) (simp_all add: req_def blank_request_def writesObject_def small_litestream_def sample_resource_def)
  then show ?thesis by (simp add: cluster2_def req_def blank_request_def)
qed

lemma admitted3: "admits sample_api cluster2 cluster3"
  unfolding cluster3_def
proof (rule applyDeployment)
  show "WorkloadValidator_Handle (reader_of cluster2) (blank_request\<lparr>rq_Kind := ''Deployment'', rq_Deployment := Inr sample_deployment\<rparr>) =
      Allowed ''workload has a single writer''" by code_simp
qed (simp_all add: blank_request_def writesObject_def names_def)

lemma sample_reachable: "reachableCluster sample_api cluster3"
  using reachableCluster.intros admitted1 admitted2 admitted3 by metis

theorem admission_single_writer_witness: "single_writer cluster3 \<and> map wl_name (workloads cluster3) = [''app'']"
proof
  show "single_writer cluster3" by (rule admission_single_writer [OF sample_reachable])
  show "map wl_name (workloads cluster3) = [''app'']" by code_simp
qed

lemma cluster3_uses: "small_litestream \<in> set (cl_litestreams cluster3)"
  by (simp add: cluster3_def cluster2_def store_def small_litestream_def sample_resource_def)

lemma cluster3_resolves: "\<not> isl (Resolve sample_api (Some (replica_reader_of cluster3)) (Some small_litestream))"
  by code_simp

definition other_replica :: ReplicaSpec where
  "other_replica = of_backend (File \<lparr>fi_Path = ''/backup''\<rparr>)"

lemma replaced: "admits sample_api cluster3 (cluster3\<lparr>cl_replicas := store fst (''gcs'', other_replica) (cl_replicas cluster3)\<rparr>)"
proof (rule applyReplica)
  show "DependencyValidator_Handle sample_api (reader_of cluster3) (blank_request\<lparr>rq_Replica := Inr (''gcs'', other_replica)\<rparr>) =
      Allowed ''LitestreamReplica spec is valid''" by code_simp
qed (simp_all add: blank_request_def writesObject_def)

theorem resolvable_stays_witness:
  "\<exists>inp. Resolve sample_api (Some (replica_reader_of (cluster3\<lparr>cl_replicas := store fst (''gcs'', other_replica) (cl_replicas cluster3)\<rparr>)))
     (Some small_litestream) = Inr inp"
  by (rule resolvable_stays [OF replaced cluster3_uses sum.collapse(2) [OF cluster3_resolves, symmetric]])

subsection \<open>Publishing\<close>

theorem generated_names_fit_witness:
  "(\<exists>name. ConfigMapNameForHash small_litestream (replicate 64 CHR ''a'') = Some name \<and> length name \<le> DNS1123SubdomainMaxLength)
   \<and> length (resourceNameLabel sample_render (replicate 100 CHR ''a'')) \<le> LabelValueMaxLength"
  by (rule generated_names_fit) simp

text \<open>A cluster that stores what it is given.\<close>

type_synonym small_state = "Litestream list \<times> ((string \<times> string) \<times> ConfigMap) list"

definition small_kube :: "small_state kube" where
  "small_kube = \<lparr>
     kGetLitestream = (\<lambda>s ns n. getResult (find (\<lambda>l. li_Namespace l = ns \<and> li_Name l = n) (fst s))),
     kGetReplica = (\<lambda>s. clash_reader), kGetConfigMap = (\<lambda>s ns n. getResult (map_of (snd s) (ns, n))),
     kCreateOrUpdate = (\<lambda>s cm f. case f (case map_of (snd s) (cm_Namespace cm, cm_Name cm) of None \<Rightarrow> cm | Some old \<Rightarrow> old) of
        Inl e \<Rightarrow> (Some e, s) | Inr new \<Rightarrow> (None, fst s, ((cm_Namespace cm, cm_Name cm), new) # snd s)),
     kPatchStatus = (\<lambda>s r r'. (None, r' # fst s, snd s)), kEventf = (\<lambda>s e. s),
     setControllerReference = (\<lambda>r cm. Inr (cm\<lparr>cm_Controller := Some (li_UID r)\<rparr>)),
     setStatusCondition = (\<lambda>cs c. c # filter (\<lambda>x. cn_Type x \<noteq> cn_Type c) cs), findStatusCondition = (\<lambda>cs t. find (\<lambda>c. cn_Type c = t) cs),
     errorText = (\<lambda>e. ''error'')\<rparr>"

lemma small_laws: "kube_laws small_kube"
  unfolding kube_laws_def small_kube_def
  by (auto simp: getResult_def find_Some_iff split: sum.splits option.splits)

definition small_input :: Input where
  "small_input = projr (Resolve sample_api (Some clash_reader) (Some small_resource))"

definition small_after :: small_state where
  "small_after = snd (LitestreamReconciler_Reconcile sample_api sample_render small_kube ([small_resource], []) ''ns'' ''db'')"

lemma small_run: "fst (LitestreamReconciler_Reconcile sample_api sample_render small_kube ([small_resource], []) ''ns'' ''db'') = None"
  by code_simp

lemma small_reconciled: "LitestreamReconciler_Reconcile sample_api sample_render small_kube ([small_resource], []) ''ns'' ''db'' = (None, small_after)"
  by (metis small_after_def small_run prod.collapse)

lemma small_stored: "kGetLitestream small_kube ([small_resource], []) ''ns'' ''db'' = Found small_resource" "\<not> li_Deleting small_resource"
  by (simp_all add: small_kube_def small_resource_def sample_resource_def getResult_def Let_def)

lemma small_resolved: "Resolve sample_api (Some (kGetReplica small_kube ([small_resource], []))) (Some small_resource) = Inr small_input"
proof -
  have "\<not> isl (Resolve sample_api (Some clash_reader) (Some small_resource))" by code_simp
  then show ?thesis by (simp add: small_input_def small_kube_def)
qed

lemma small_renders: "Render sample_render small_input = Inr small_rendered"
proof -
  have "\<not> isl (Render sample_render small_input)" by code_simp
  then show ?thesis by (simp add: small_rendered_def small_input_def)
qed

lemma small_hash: "rn_Hash small_rendered \<noteq> []"
  by code_simp

theorem reconciled_is_published_witness:
  "\<exists>r'. getLitestream (webhook_view small_kube small_after []) ''ns'' ''db'' = Found r' \<and> li_Spec r' = li_Spec small_resource
     \<and> Resolve sample_api (Some (getReplica (webhook_view small_kube small_after []))) (Some r') = Inr small_input
     \<and> renderReadyResource sample_render (webhook_view small_kube small_after []) r' small_input = Inr small_rendered
     \<and> verifyConfigMap (webhook_view small_kube small_after []) r' small_rendered = None"
  by (rule reconciled_is_published [OF small_laws small_reconciled small_stored small_resolved small_renders small_hash])

definition small_index :: index_reader where
  "small_index field key =
     Inr (filter (\<lambda>r. key \<in> set (case field of SourceIndex \<Rightarrow> indexLitestreamSourceReplicaReference r
        | DestinationIndex \<Rightarrow> indexLitestreamDestinationReplicaReference r)) [small_litestream])"

theorem replica_requeues_users_witness:
  "distinct (mapReplicaToLitestreams small_index ''ns'' ''gcs'')
   \<and> set (mapReplicaToLitestreams small_index ''ns'' ''gcs'') =
       {(li_Namespace r, li_Name r) | r. r \<in> set [small_litestream] \<and> li_Namespace r = ''ns'' \<and> uses_replica ''gcs'' r}"
  by (rule replica_requeues_users) (simp_all add: indexes_def small_index_def small_litestream_def sample_resource_def)

end
