(* ===== verification/Spec2Isabelle.thy ===== *)
theory Spec2Isabelle
  imports Go_Prelude Keyring_Crypto Keyring_Backend Keyring_Op_Tags Keyring_Cache Keyring_Refine
    Keyring_Secret_Cache Keyring_Async Keyring_Delete Keyring_Service Replica_File Replica_Staging
    Replica_Poller Replica_History Bridge_Db Bridge_Store Bridge_Outbox Bridge_Fifo Bridge_Enqueue
    Bridge_Dispatcher Bridge_Delivery Bridge_Progress Bridge_Nostrmap Bridge_Syncer Bridge_Stream
    Bridge_Reconcile Bridge_Owner Mastodon_Content Bridge_Mastodon Mastodon_Delivery
    Mastodon_Targets Litestream_Api Litestream_Render Litestream_Scripts Litestream_Resolve
    Litestream_Credentials Litestream_Files Litestream_Inject Litestream_Controller
    Litestream_Mutator Litestream_Pods Litestream_Admission Litestream_Single_Writer
    Litestream_Published Litestream_Examples
begin

text \<open>
  A verification development for the Go monorepo \<^verbatim>\<open>mytools\<close>: shallow models of its programs,
  written from the sources under \<^verbatim>\<open>cmd/\<close>, \<^verbatim>\<open>internal/\<close> and \<^verbatim>\<open>api/\<close>, and the theorems that make them
  correct. Every definition that models code keeps the name of the function, method or type it
  translates (with a prefix where HOL or another program uses the name already).

  \<^bold>\<open>Conventions.\<close> \<open>Go_Prelude\<close> fixes how Go values are read: byte slices are lists of 8-bit words,
  strings are lists of characters, maps are association lists, times and durations are integers
  of nanoseconds, a \<^verbatim>\<open>(T, error)\<close> result is a sum whose left side is the error. Machine integers
  are words, or integers with the wrap-around written out (\<open>int64\<close>). Iteration order of maps,
  random sources, clocks, answers of the network and failures of statements are arguments, and the
  theorems hold for all of them. Code outside the repository is a parameter of the definitions
  that use it (a field of a record such as \<open>cache_env\<close>, \<open>replica_env\<close>, \<open>nostr_env\<close>), with what is
  relied on as hypotheses of the theorem.

  \<^bold>\<open>wsl-keyring\<close> (\<^verbatim>\<open>cmd/wsl-keyring\<close>), a Secret Service daemon in front of a password store.
  \<^item> \<open>Keyring_Crypto\<close>: \<^verbatim>\<open>crypto.go\<close>, the Diffie-Hellman exchange, PKCS7 and AES-CBC over any block
    cipher; round trips, exact error behaviour, the range of the private exponent.
  \<^item> \<open>Keyring_Backend\<close>: \<^verbatim>\<open>backend.go\<close>, items and the storage interface as the locales \<open>raw_storage\<close>
    and \<open>raw_storage_total\<close>, interpreted on the in-memory backend.
  \<^item> \<open>Keyring_Op_Tags\<close>: the metadata tags of \<^verbatim>\<open>backend_op.go\<close> and their round trip.
  \<^item> \<open>Keyring_Cache\<close>, \<open>Keyring_Refine\<close>, \<open>Keyring_Secret_Cache\<close>: \<^verbatim>\<open>backend_cache.go\<close>, its state as
    a record and one definition per method; in synchronous mode, with both caches on, items that
    have a secret and a listing first, it answers as the backend it caches (but for deleting what
    is missing, which succeeds); lifetimes of secrets and the spacing of authentication checks.
  \<^item> \<open>Keyring_Async\<close>, \<open>Keyring_Delete\<close>: the goroutines of asynchronous saves as a step relation
    whose steps are the locked sections; soundness of the caches in every interleaving, absence
    of deadlock, a bound on every schedule, and that over a backend that does not fail the
    deletion of an item by its real identifier is final for the saves under way; also the run in
    which a later save is lost.
  \<^item> \<open>Keyring_Service\<close>: \<^verbatim>\<open>dbus_service.go\<close>, sessions and items of the D-Bus interface over any
    storage (locale \<open>storage_backend\<close>, interpreted on the cached in-memory backend).

  \<^bold>\<open>litestream-vfs-wrapper\<close> (\<^verbatim>\<open>cmd/litestream-vfs-wrapper\<close>), a read-only SQLite file that follows a
  replica.
  \<^item> \<open>Replica_File\<close>: \<^verbatim>\<open>replica_file.go\<close>, reading with retries while the poller works; the loop of
    a read has as much fuel as bytes are asked for, which is proved enough.
  \<^item> \<open>Replica_Staging\<close>, \<open>Replica_Poller\<close>: \<^verbatim>\<open>replica_poller.go\<close>, staging of updates under the SHARED
    lock, polling of two levels, rebuilding; failures change nothing.
  \<^item> \<open>Replica_History\<close>: against an abstract history of the database, the file shows the database
    after the transaction of its cursor, with the one exception that is a finding.

  \<^bold>\<open>nostr-bridge\<close> (\<^verbatim>\<open>cmd/nostr-bridge\<close>), which mirrors posts to a Nostr relay through a durable outbox.
  \<^item> \<open>Bridge_Db\<close>: the tables, one definition per SQL statement of \<^verbatim>\<open>store/sqlc/query.sql.go\<close>,
    transactions, and failing statements.
  \<^item> \<open>Bridge_Store\<close>: every operation of \<^verbatim>\<open>store/sqlite.go\<close>.
  \<^item> \<open>Bridge_Outbox\<close>, \<open>Bridge_Fifo\<close>, \<open>Bridge_Enqueue\<close>: the outbox as a queue per publisher; the
    invariant of the store over any history of operations; purges, claims, exact enqueueing.
  \<^item> \<open>Bridge_Dispatcher\<close>, \<open>Bridge_Delivery\<close>, \<open>Bridge_Progress\<close>: \<^verbatim>\<open>outbox/dispatcher.go\<close> over the
    interface it uses (locale \<open>dispatcher_store\<close>, interpreted on the store); delivery is at least
    once and in order, the outbox drains, waiting times are exact. The loop of the worker is
    read by rounds, so a run is any finite number of them.
  \<^item> \<open>Bridge_Nostrmap\<close>: \<^verbatim>\<open>nostrmap/\<close>, keys of actors and the signed notes, profiles and follow lists.
  \<^item> \<open>Bridge_Syncer\<close>, \<open>Bridge_Stream\<close>: \<^verbatim>\<open>syncer/\<close>, the Bluesky synchroniser over the store; an
    event is applied all or nothing and changes nothing when it is handled twice in a row, the stream resumes behind the last event, the
    backfill ends (its loop has fuel, and the theorem says how much is enough), and the sequence
    of events that stops the stream.
  \<^item> \<open>Bridge_Reconcile\<close>, \<open>Bridge_Owner\<close>: the reconciliation of the store, and \<^verbatim>\<open>owner/coordinator.go\<close>
    and \<^verbatim>\<open>bluesky/reconcile.go\<close> on top of it; a batch is exact, the owner stores one event per profile and list and its own two, which have increasing
    times across restarts and clocks that step back, and nothing is sent when nothing changed.
  \<^item> \<open>Mastodon_Content\<close>, \<open>Bridge_Mastodon\<close>, \<open>Mastodon_Delivery\<close>, \<open>Mastodon_Targets\<close>: \<^verbatim>\<open>mastodon/\<close>,
    the rendering of statuses (the HTML parser is a parameter, the tree its result), their delivery
    and the recovery of timelines by pages, and what is followed.

  \<^bold>\<open>litestream-controller\<close> (\<^verbatim>\<open>api/litestream\<close>, \<^verbatim>\<open>internal/litestream\<close>), which injects Litestream containers
  into the Pods of a Kubernetes cluster. The API server and its client libraries are parameters.
  \<^item> \<open>Litestream_Api\<close>: the resources and \<^verbatim>\<open>validation.go\<close>; what is accepted is well formed, and a replica
    is a tagged union in which the tag fits.
  \<^item> \<open>Litestream_Render\<close>, \<open>Litestream_Scripts\<close>: \<^verbatim>\<open>litestreamconfig/\<close>, configuration files, scripts and the
    credentials each container gets; a shell reads the restore command as it was meant.
  \<^item> \<open>Litestream_Resolve\<close>, \<open>Litestream_Credentials\<close>, \<open>Litestream_Files\<close>: \<^verbatim>\<open>resolver/\<close>; in what is rendered from a
    resolved resource no variable and no file carries two secrets, and the files of databases stay
    apart, with the one exception that is a finding.
  \<^item> \<open>Litestream_Inject\<close>, \<open>Litestream_Mutator\<close>, \<open>Litestream_Pods\<close>: \<^verbatim>\<open>webhook/inject.go\<close>, \<^verbatim>\<open>resolve.go\<close>,
    \<^verbatim>\<open>pod_mutator.go\<close>; an injection is idempotent, replaces nothing of the Pod, uses pinned images, and targets the volume
    of the databases.
  \<^item> \<open>Litestream_Admission\<close>, \<open>Litestream_Single_Writer\<close>: the validators, and a namespace as a state machine of
    allowed requests, processed one at a time (racing requests are outside, as the README says); no two
    workloads ever replicate to one destination, none has two replicas, and a Deployment that was written
    last as a whole does not surge.
  \<^item> \<open>Litestream_Controller\<close>, \<open>Litestream_Published\<close>: \<^verbatim>\<open>controller/\<close>; what is reconciled is what the webhook
    accepts, generated names fit, a changed replica requeues its users.
  \<^item> \<open>Litestream_Examples\<close>: a small cluster, to which these theorems are applied.

  \<^bold>\<open>Simplifications\<close>. Values are copied where Go shares pointers (the items of the in-memory backend), the end
  of a lease is an unbounded integer, the time of a Mastodon status enters its digest without its zone,
  and names that the code prints with \<^verbatim>\<open>%q\<close> (DNS names, with nothing to escape) are put between plain
  quotes.

  \<^bold>\<open>Not modelled\<close>: process start-up, flag and environment parsing, HTTP and WebSocket transport,
  the bus and the terminal, generated plumbing and the Kubernetes client libraries, whose effects
  are inputs of the models that use them. The components of the manifest say for each source file
  what is modelled and what is still planned.
\<close>

end
